(* ===== verification/Prelude.thy ===== *)
theory Prelude
  imports Main "HOL-Library.Word"
begin

text \<open>
  Shared vocabulary of the development.

  The program is TypeScript.  A \<^verbatim>\<open>bigint\<close> is an \<^typ>\<open>int\<close>; a \<^verbatim>\<open>number\<close> that the code only
  uses for integral values is an \<^typ>\<open>int\<close> as well.  \<^verbatim>\<open>/\<close> and \<^verbatim>\<open>%\<close> on \<^verbatim>\<open>bigint\<close> truncate
  towards zero and throw on a zero divisor (\<open>tdiv\<close>, \<open>tmod\<close>, \<open>big_div\<close>), bitwise operators on
  \<^verbatim>\<open>number\<close> first reduce to signed 32 bits (\<open>i32\<close>).  A thrown error is the left value of
  \<open>'a res\<close> and carries the message of the source; \<open>rbind\<close> is sequencing.
\<close>

unbundle bit_operations_syntax

named_theorems res_simps \<open>evaluation of the error monad\<close>
named_theorems js_simps \<open>evaluation of JavaScript arithmetic on numerals\<close>

subsection \<open>Results: a thrown error or a value\<close>

type_synonym 'a res = "string + 'a"

definition rbind :: "'a res \<Rightarrow> ('a \<Rightarrow> 'b res) \<Rightarrow> 'b res" where
  "rbind m f = (case m of Inl e \<Rightarrow> Inl e | Inr x \<Rightarrow> f x)"

definition guard :: "string \<Rightarrow> bool \<Rightarrow> unit res" where
  "guard msg ok = (if ok then Inr () else Inl msg)"

lemma rbind_Inl [simp]: "rbind (Inl e) f = Inl e"
  by (simp add: rbind_def)

lemma rbind_Inr [simp]: "rbind (Inr x) f = f x"
  by (simp add: rbind_def)

lemma rbind_eq_Inr [res_simps]: "rbind m f = Inr y \<longleftrightarrow> (\<exists>x. m = Inr x \<and> f x = Inr y)"
  by (cases m) simp_all

lemma rbind_eq_Inl [res_simps]:
  "rbind m f = Inl e \<longleftrightarrow> m = Inl e \<or> (\<exists>x. m = Inr x \<and> f x = Inl e)"
  by (cases m) simp_all

lemma rbind_InrI: "m = Inr x \<Longrightarrow> f x = r \<Longrightarrow> rbind m f = r"
  by simp

lemma rbind_split:
  "P (rbind m f) \<longleftrightarrow> (\<forall>e. m = Inl e \<longrightarrow> P (Inl e)) \<and> (\<forall>x. m = Inr x \<longrightarrow> P (f x))"
  by (cases m) simp_all

lemma rbind_cong [fundef_cong]:
  "m = m' \<Longrightarrow> (\<And>x. m' = Inr x \<Longrightarrow> f x = g x) \<Longrightarrow> rbind m f = rbind m' g"
  by (cases m') simp_all

lemma guard_eq_Inr [simp]: "guard msg ok = Inr u \<longleftrightarrow> ok"
  by (simp add: guard_def)

lemma guard_eq_Inl [simp]: "guard msg ok = Inl e \<longleftrightarrow> \<not> ok \<and> e = msg"
  by (auto simp add: guard_def)

lemma guard_True [simp]: "guard msg True = Inr ()"
  by (simp add: guard_def)

lemma guard_False [simp]: "guard msg False = Inl msg"
  by (simp add: guard_def)

definition is_ok :: "'a res \<Rightarrow> bool" where
  "is_ok r = (case r of Inl _ \<Rightarrow> False | Inr _ \<Rightarrow> True)"

lemma is_ok_simps [simp]: "is_ok (Inr x)" "\<not> is_ok (Inl e)"
  by (simp_all add: is_ok_def)

subsection \<open>Truncating division\<close>

definition tdiv :: "int \<Rightarrow> int \<Rightarrow> int" where
  "tdiv a b = (if (a < 0) = (b < 0) then \<bar>a\<bar> div \<bar>b\<bar> else - (\<bar>a\<bar> div \<bar>b\<bar>))"

definition tmod :: "int \<Rightarrow> int \<Rightarrow> int" where
  "tmod a b = a - b * tdiv a b"

definition big_div :: "int \<Rightarrow> int \<Rightarrow> int res" where
  "big_div a b = (if b = 0 then Inl ''Division by zero'' else Inr (tdiv a b))"

lemma big_div_nz [simp]: "b \<noteq> 0 \<Longrightarrow> big_div a b = Inr (tdiv a b)"
  by (simp add: big_div_def)

lemma big_div_0 [simp]: "big_div a 0 = Inl ''Division by zero''"
  by (simp add: big_div_def)

lemma tdiv_0 [simp]: "tdiv 0 b = 0"
  by (simp add: tdiv_def)

lemma tdiv_nonneg_eq: "0 \<le> a \<Longrightarrow> 0 < b \<Longrightarrow> tdiv a b = a div b"
  by (simp add: tdiv_def)

lemma tdiv_neg_eq: "a < 0 \<Longrightarrow> 0 < b \<Longrightarrow> tdiv a b = - ((- a) div b)"
  by (simp add: tdiv_def)

lemma tdiv_minus: "0 < b \<Longrightarrow> tdiv (- a) b = - tdiv a b"
  by (auto simp add: tdiv_def)

lemma tdiv_bounds:
  assumes "0 < b" and "0 \<le> a"
  shows "0 \<le> tdiv a b" and "b * tdiv a b \<le> a" and "a < b * tdiv a b + b"
proof -
  have t: "tdiv a b = a div b" using assms by (simp add: tdiv_nonneg_eq)
  have e: "b * (a div b) + a mod b = a" and m: "0 \<le> a mod b" "a mod b < b"
    using assms by simp_all
  show "0 \<le> tdiv a b" using assms by (simp add: t pos_imp_zdiv_nonneg_iff)
  show "b * tdiv a b \<le> a" and "a < b * tdiv a b + b"
    unfolding t using e m by linarith+
qed

lemma tdiv_abs_le:
  assumes "0 < b" and "\<bar>a\<bar> \<le> b * c" shows "\<bar>tdiv a b\<bar> \<le> c"
proof -
  have "\<bar>a\<bar> div b \<le> c" using assms
    by (metis nonzero_mult_div_cancel_left order_less_irrefl zdiv_mono1)
  moreover have "0 \<le> \<bar>a\<bar> div b" using assms(1) by (simp add: pos_imp_zdiv_nonneg_iff)
  moreover have "\<bar>tdiv a b\<bar> = \<bar>a\<bar> div b" using assms(1) by (simp add: tdiv_def pos_imp_zdiv_nonneg_iff)
  ultimately show ?thesis by simp
qed

lemma tdiv_mono:
  assumes "0 < b" and "a \<le> a'" shows "tdiv a b \<le> tdiv a' b"
proof -
  have d: "x \<le> y \<Longrightarrow> x div b \<le> y div b" for x y using assms(1) by (simp add: zdiv_mono1)
  have n: "0 \<le> x \<Longrightarrow> 0 \<le> x div b" for x using assms(1) by (simp add: pos_imp_zdiv_nonneg_iff)
  show ?thesis
  proof (cases "0 \<le> a")
    case True
    then show ?thesis using assms d by (simp add: tdiv_def)
  next
    case neg: False
    show ?thesis
    proof (cases "0 \<le> a'")
      case True
      then show ?thesis using neg n [of "- a"] n [of a'] assms(1) by (simp add: tdiv_def)
    next
      case False
      then show ?thesis using neg d [of "- a'" "- a"] assms by (simp add: tdiv_def)
    qed
  qed
qed

subsection \<open>Bitwise operators of JavaScript numbers\<close>

definition i32 :: "int \<Rightarrow> int" where "i32 x = signed_take_bit 31 x"
definition or32 :: "int \<Rightarrow> int \<Rightarrow> int" where "or32 a b = i32 a OR i32 b"
definition and32 :: "int \<Rightarrow> int \<Rightarrow> int" where "and32 a b = i32 a AND i32 b"
definition not32 :: "int \<Rightarrow> int" where "not32 a = NOT (i32 a)"
definition shl32 :: "int \<Rightarrow> int \<Rightarrow> int" where
  "shl32 a k = i32 (push_bit (nat (k mod 32)) (i32 a))"

definition umax64 :: int where "umax64 = 2 ^ 64 - 1"
definition umax32 :: int where "umax32 = 4294967295"

lemma i32_small: "0 \<le> x \<Longrightarrow> x < 2 ^ 31 \<Longrightarrow> i32 x = x"
  by (simp add: i32_def signed_take_bit_int_eq_self)

lemma or32_zero [simp]: "0 \<le> x \<Longrightarrow> x < 2 ^ 31 \<Longrightarrow> or32 x 0 = x"
  by (simp add: or32_def i32_small)

end
