(* ===== verification/Event_Loop.thy ===== *)
theory Event_Loop
  imports Prelude
begin

text \<open>
  The contract of a bounded event-driven simulation loop.  Every physics engine of the
  program (\<^verbatim>\<open>shared/physics*.ts\<close>) advances a state to a target time by firing one collision
  event per iteration, at most \<^verbatim>\<open>limit\<close> of them, and reports whether it got there.  A
  provider gives the loop, the stop condition, the time of the next event, the effect of one
  event and the event-free drift; the laws say how one iteration is made of them and that
  each keeps the provider's invariant.  The clients' facts (no exception, monotone clock, a
  truthful completion flag, and that a budget may be split over several calls) are proved
  here once.
\<close>

locale event_loop =
  fixes loop :: "nat \<Rightarrow> 's \<Rightarrow> int \<Rightarrow> ('s \<times> bool) res"
    and stop :: "'s \<Rightarrow> bool"
    and due :: "'s \<Rightarrow> int res"
    and fire :: "'s \<Rightarrow> 's res"
    and drift :: "'s \<Rightarrow> int \<Rightarrow> 's res"
    and clock :: "'s \<Rightarrow> int"
    and inv :: "'s \<Rightarrow> bool"
  assumes loop_zero: "inv s \<Longrightarrow> loop 0 s T =
      (if stop s then Inr (s, True) else rbind (due s) (\<lambda>a. Inr (s, T < a \<and> clock s = T)))"
    and loop_Suc: "inv s \<Longrightarrow> clock s \<le> T \<Longrightarrow> loop (Suc n) s T =
      (if stop s then Inr (s, True)
       else rbind (due s) (\<lambda>a. if T < a then rbind (drift s T) (\<lambda>s'. Inr (s', True))
                               else rbind (fire s) (\<lambda>s'. loop n s' T)))"
    and due_ok: "inv s \<Longrightarrow> \<not> stop s \<Longrightarrow> \<exists>a. due s = Inr a \<and> clock s \<le> a"
    and fire_ok: "inv s \<Longrightarrow> \<not> stop s \<Longrightarrow> due s = Inr a \<Longrightarrow>
      \<exists>s'. fire s = Inr s' \<and> inv s' \<and> clock s' = a"
    and drift_ok: "inv s \<Longrightarrow> \<not> stop s \<Longrightarrow> due s = Inr a \<Longrightarrow> clock s \<le> T \<Longrightarrow> T < a \<Longrightarrow>
      \<exists>s'. drift s T = Inr s' \<and> inv s' \<and> clock s' = T"
    and drift_id: "inv s \<Longrightarrow> \<not> stop s \<Longrightarrow> drift s (clock s) = Inr s"
begin

lemma loop_cases [case_names stopped drifted fired]:
  assumes "inv s" and "clock s \<le> T"
  obtains "stop s" and "\<And>n. loop n s T = Inr (s, True)"
  | a s' where "\<not> stop s" and "due s = Inr a" and "T < a" and "drift s T = Inr s'"
      and "inv s'" and "clock s' = T"
      and "\<And>n. loop (Suc n) s T = Inr (s', True)" and "loop 0 s T = Inr (s, clock s = T)"
  | a s' where "\<not> stop s" and "due s = Inr a" and "a \<le> T" and "fire s = Inr s'"
      and "inv s'" and "clock s \<le> clock s'" and "clock s' \<le> T"
      and "\<And>n. loop (Suc n) s T = loop n s' T" and "loop 0 s T = Inr (s, False)"
proof (cases "stop s")
  case True
  have "loop n s T = Inr (s, True)" for n
    using assms True by (cases n) (simp_all add: loop_zero loop_Suc)
  with True show ?thesis by (rule that(1))
next
  case False
  from due_ok [OF assms(1) this] obtain a where a: "due s = Inr a" "clock s \<le> a" by blast
  show ?thesis
  proof (cases "T < a")
    case True
    from drift_ok [OF assms(1) False a(1) assms(2) True]
    obtain s' where "drift s T = Inr s'" "inv s'" "clock s' = T" by blast
    with False True a assms show ?thesis
      by (intro that(2)) (simp_all add: loop_zero loop_Suc)
  next
    case late: False
    from fire_ok [OF assms(1) False a(1)]
    obtain s' where "fire s = Inr s'" "inv s'" "clock s' = a" by blast
    with False late a assms show ?thesis
      by (intro that(3)) (simp_all add: loop_zero loop_Suc not_less)
  qed
qed

lemma loop_sound:
  assumes "inv s" and "clock s \<le> T"
  shows "\<exists>s' b. loop n s T = Inr (s', b) \<and> inv s' \<and> clock s \<le> clock s' \<and> clock s' \<le> T
          \<and> (b \<longrightarrow> stop s' \<or> clock s' = T)"
  using assms
proof (induction n arbitrary: s)
  case 0
  from 0 show ?case
  proof (cases rule: loop_cases)
    case stopped
    show ?thesis unfolding stopped(2) [of 0] using 0 stopped(1) by auto
  next
    case (drifted a s')
    show ?thesis unfolding drifted(8) using 0 by auto
  next
    case (fired a s')
    show ?thesis unfolding fired(9) using 0 by auto
  qed
next
  case (Suc n)
  from Suc.prems show ?case
  proof (cases rule: loop_cases)
    case stopped
    show ?thesis unfolding stopped(2) [of "Suc n"] using Suc.prems stopped(1) by auto
  next
    case (drifted a s')
    show ?thesis unfolding drifted(7) using Suc.prems drifted(5,6) by auto
  next
    case (fired a s')
    from Suc.IH [OF fired(5,7)] obtain s2 b where h: "loop n s' T = Inr (s2, b)" "inv s2"
      "clock s' \<le> clock s2" "clock s2 \<le> T" "b \<longrightarrow> stop s2 \<or> clock s2 = T" by blast
    show ?thesis unfolding fired(8)
      by (rule exI [of _ s2], rule exI [of _ b]) (use h fired(6) in simp)
  qed
qed

text \<open>With an empty budget the state is returned unchanged.\<close>

lemma loop_none:
  assumes "inv s" and "clock s \<le> T"
  shows "\<exists>b. loop 0 s T = Inr (s, b)"
  using assms by (cases rule: loop_cases) auto

text \<open>Stopping early and calling again is the same as one call with the whole budget.\<close>

lemma loop_resume:
  assumes "inv s" and "clock s \<le> T"
  shows "loop (n + m) s T =
    rbind (loop n s T) (\<lambda>r. if snd r then Inr r else loop m (fst r) T)"
  using assms
proof (induction n arbitrary: s)
  case 0
  from 0 show ?case
  proof (cases rule: loop_cases)
    case (drifted a s')
    show ?thesis
    proof (cases "clock s = T")
      case True
      with drifted(4) drift_id [OF 0(1) drifted(1)] have "s' = s" by simp
      with drifted(7,8) True show ?thesis by (cases m) simp_all
    qed (use drifted(8) in simp)
  qed (simp_all add: loop_zero)
next
  case (Suc n)
  from Suc.prems show ?case
  proof (cases rule: loop_cases)
    case (fired a s')
    with Suc.IH [OF fired(5,7)] show ?thesis by simp
  qed (simp_all)
qed

end

text \<open>
  A provider that also bounds how many events can share one instant never stalls: with a budget
  linear in the simulated time the loop always completes.
\<close>

locale productive_loop = event_loop loop stop due fire drift clock inv
  for loop :: "nat \<Rightarrow> 's \<Rightarrow> int \<Rightarrow> ('s \<times> bool) res"
    and stop due fire drift clock inv +
  fixes pending :: "'s \<Rightarrow> nat"
  assumes pending_le: "pending s \<le> 3"
    and progress: "inv s \<Longrightarrow> \<not> stop s \<Longrightarrow> due s = Inr (clock s) \<Longrightarrow> fire s = Inr s' \<Longrightarrow>
      \<not> stop s' \<Longrightarrow> pending s' < pending s"
begin

lemma loop_completes:
  assumes "inv s" and "clock s \<le> T" and "nat (4 * (T - clock s)) + pending s < n"
  shows "\<exists>s'. loop n s T = Inr (s', True)"
  using assms
proof (induction n arbitrary: s)
  case 0
  then show ?case by simp
next
  case (Suc n)
  from Suc.prems(1,2) show ?case
  proof (cases rule: loop_cases)
    case (fired a s')
    show ?thesis
    proof (cases "stop s'")
      case True
      with fired(5,7) have "loop n s' T = Inr (s', True)" by (cases rule: loop_cases) auto
      with fired(8) show ?thesis by simp
    next
      case False
      have a: "clock s' = a" using fire_ok [OF Suc.prems(1) fired(1,2)] fired(4) by auto
      have "nat (4 * (T - clock s')) + pending s' < nat (4 * (T - clock s)) + pending s"
      proof (cases "a = clock s")
        case True
        with progress [OF Suc.prems(1) fired(1) _ fired(4) False] fired(2) a show ?thesis by simp
      next
        case False
        with fired(6) a have "4 * (T - clock s') + 4 \<le> 4 * (T - clock s)" by simp
        then have "nat (4 * (T - clock s')) + 4 \<le> nat (4 * (T - clock s))"
          using fired(7) by (simp add: nat_le_iff nat_add_distrib [symmetric])
        with pending_le [of s'] show ?thesis by simp
      qed
      with Suc.prems(3) Suc.IH [OF fired(5,7)] fired(8) show ?thesis by simp
    qed
  qed simp_all
qed

end

text \<open>
  A viewer that projects a confirmed state forward with the events of the loop and holds before the first event
  whose outcome is not its own to decide.  The laws say how one iteration of it is made of the loop's parts, and
  that an event it does not hold for changes nothing that is shown and does not stop the game.
\<close>

locale projection = event_loop loop stop due fire drift clock inv
  for loop :: "nat \<Rightarrow> 's \<Rightarrow> int \<Rightarrow> ('s \<times> bool) res"
    and stop :: "'s \<Rightarrow> bool"
    and due :: "'s \<Rightarrow> int res"
    and fire :: "'s \<Rightarrow> 's res"
    and drift :: "'s \<Rightarrow> int \<Rightarrow> 's res"
    and clock :: "'s \<Rightarrow> int"
    and inv :: "'s \<Rightarrow> bool" +
  fixes proj :: "nat \<Rightarrow> 's \<Rightarrow> int \<Rightarrow> ('s \<times> bool) res"
    and hold :: "'s \<Rightarrow> bool"
    and shown :: "'s \<Rightarrow> 'v"
  assumes proj_zero: "proj 0 s T = Inr (s, True)"
    and proj_Suc: "inv s \<Longrightarrow> \<not> stop s \<Longrightarrow> clock s \<le> T \<Longrightarrow> due s = Inr a \<Longrightarrow> proj (Suc n) s T =
      (if T < a then rbind (drift s T) (\<lambda>m. Inr (m, False))
       else if hold s then rbind (drift s (if clock s < a then a - 1 else clock s)) (\<lambda>m. Inr (m, True))
       else rbind (fire s) (\<lambda>s'. proj n s' T))"
    and event_shown: "inv s \<Longrightarrow> \<not> stop s \<Longrightarrow> \<not> hold s \<Longrightarrow> fire s = Inr s' \<Longrightarrow> \<not> stop s' \<and> shown s' = shown s"
    and drift_shown: "inv s \<Longrightarrow> \<not> stop s \<Longrightarrow> due s = Inr a \<Longrightarrow> clock s \<le> T \<Longrightarrow> T < a \<Longrightarrow> drift s T = Inr s' \<Longrightarrow> shown s' = shown s"
begin

lemma proj_sound:
  assumes "inv s" and "\<not> stop s" and "clock s \<le> T"
  shows "\<exists>s' w. proj n s T = Inr (s', w) \<and> inv s' \<and> clock s \<le> clock s' \<and> clock s' \<le> T \<and> shown s' = shown s
    \<and> (w \<or> loop n s T = Inr (s', True))"
  using assms
proof (induction n arbitrary: s)
  case 0
  then show ?case by (intro exI [of _ s] exI [of _ True]) (simp add: proj_zero)
next
  case (Suc n)
  from due_ok [OF Suc.prems(1,2)] obtain a where a: "due s = Inr a" "clock s \<le> a" by blast
  note step = proj_Suc [OF Suc.prems a(1), of n]
  show ?case
  proof (cases "T < a")
    case True
    from drift_ok [OF Suc.prems(1,2) a(1) Suc.prems(3) True] obtain m where m: "drift s T = Inr m" "inv m" "clock m = T" by blast
    have "loop (Suc n) s T = Inr (m, True)" using Suc.prems a(1) True m(1) by (simp add: loop_Suc)
    then show ?thesis
      using step True m Suc.prems(3) drift_shown [OF Suc.prems(1,2) a(1) Suc.prems(3) True m(1)]
      by (intro exI [of _ m] exI [of _ False]) simp
  next
    case late: False
    show ?thesis
    proof (cases "hold s")
      case True
      let ?h = "if clock s < a then a - 1 else clock s"
      have "\<exists>m. drift s ?h = Inr m \<and> inv m \<and> clock m = ?h \<and> shown m = shown s"
      proof (cases "clock s < a")
        case early: True
        then have h: "clock s \<le> a - 1" "a - 1 < a" by simp_all
        from drift_ok [OF Suc.prems(1,2) a(1) h] drift_shown [OF Suc.prems(1,2) a(1) h] early show ?thesis by auto
      qed (use drift_id [OF Suc.prems(1,2)] Suc.prems(1) in simp)
      then obtain m where m: "drift s ?h = Inr m" "inv m" "clock m = ?h" "shown m = shown s" by blast
      have "clock s \<le> clock m" "clock m \<le> T" using m(3) late a(2) by (simp_all split: if_split_asm)
      moreover have "proj (Suc n) s T = Inr (m, True)" using step True late m(1) by simp
      ultimately show ?thesis using m by (intro exI [of _ m] exI [of _ True]) simp
    next
      case False
      from fire_ok [OF Suc.prems(1,2) a(1)] obtain s' where s': "fire s = Inr s'" "inv s'" "clock s' = a" by blast
      from event_shown [OF Suc.prems(1,2) False s'(1)] have sh: "\<not> stop s'" "shown s' = shown s" by blast+
      have "loop (Suc n) s T = loop n s' T" using Suc.prems a(1) late s'(1) by (simp add: loop_Suc)
      moreover have "clock s' \<le> T" using s'(3) late by simp
      ultimately obtain q w where q: "loop (Suc n) s T = loop n s' T" "proj n s' T = Inr (q, w)" "inv q" "clock s' \<le> clock q"
        "clock q \<le> T" "shown q = shown s'" "w \<or> loop n s' T = Inr (q, True)" using Suc.IH [OF s'(2) sh(1)] by blast
      have "proj (Suc n) s T = Inr (q, w)" using step late False s'(1) q(2) by simp
      then show ?thesis using q s'(3) sh(2) a(2) by (intro exI [of _ q] exI [of _ w]) simp
    qed
  qed
qed

end

end
