(* ===== verification/Physics_V2.thy ===== *)
theory Physics_V2
  imports Event_Loop
begin

text \<open>
  \<^verbatim>\<open>shared/physics-v2.ts\<close>: the integer event physics of a match.  Positions are in millionths
  of a unit, velocities in millionths of a unit per second, time in microseconds.  The seed
  (a \<^verbatim>\<open>Hex\<close> the code only reads through \<^verbatim>\<open>BigInt\<close>) is the integer it denotes.
\<close>

definition SCALE :: int where "SCALE = 1000000"
definition WIDTH :: int where "WIDTH = 1024 * SCALE"
definition HEIGHT :: int where "HEIGHT = 576 * SCALE"
definition RADIUS :: int where "RADIUS = 6 * SCALE"
definition HALF_PADDLE :: int where "HALF_PADDLE = 48 * SCALE"
definition PLANE :: int where "PLANE = 40 * SCALE"
definition PADDLE_SPEED :: int where "PADDLE_SPEED = 180 * SCALE"

lemmas court_consts = SCALE_def WIDTH_def HEIGHT_def RADIUS_def HALF_PADDLE_def PLANE_def
  PADDLE_SPEED_def

record state =
  s_x :: int
  s_y :: int
  s_vx :: int
  s_vy :: int
  s_left :: int
  s_right :: int
  s_leftDir :: int
  s_rightDir :: int
  s_t :: int
  s_scoreA :: int
  s_scoreB :: int
  s_seed :: int
  s_finished :: bool
  s_mode :: int
  s_halfA :: int
  s_halfB :: int
  s_awaitingServe :: bool
  s_resumeAt :: int

record game_event =
  ev_at :: int
  ev_kind :: int

definition clamp :: "int \<Rightarrow> int \<Rightarrow> int" where
  "clamp y half = (if y < half then half else if y > HEIGHT - half then HEIGHT - half else y)"

definition travel :: "int \<Rightarrow> int \<Rightarrow> int res" where
  "travel d v = big_div (\<bar>d\<bar> * SCALE + \<bar>v\<bar> - 1) \<bar>v\<bar>"

definition serve :: "state \<Rightarrow> state" where
  "serve s = (let point = s_scoreA s + s_scoreB s in
     s\<lparr>s_x := tdiv WIDTH 2, s_y := tdiv HEIGHT 2,
       s_vx := (if point mod 2 = 0 then 128 else -128) * SCALE,
       s_vy := (if drop_bit (nat point) (s_seed s) AND 1 \<noteq> 0 then -64 else 64) * SCALE\<rparr>)"

definition initial :: "int \<Rightarrow> int \<Rightarrow> state res" where
  "initial seed mode = (if mode \<noteq> 0 \<and> mode \<noteq> 1 then Inl ''mode'' else
     Inr (serve \<lparr>s_x = 0, s_y = 0, s_vx = 0, s_vy = 0, s_left = tdiv HEIGHT 2,
       s_right = tdiv HEIGHT 2, s_leftDir = 0, s_rightDir = 0, s_t = 0, s_scoreA = 0,
       s_scoreB = 0, s_seed = seed, s_finished = False, s_mode = mode, s_halfA = HALF_PADDLE,
       s_halfB = HALF_PADDLE, s_awaitingServe = False, s_resumeAt = 0\<rparr>))"

definition next_event :: "state \<Rightarrow> game_event res" where
  "next_event s =
    (if s_finished s then Inr \<lparr>ev_at = umax64, ev_kind = 0\<rparr>
     else if s_awaitingServe s then Inr \<lparr>ev_at = s_resumeAt s, ev_kind = 7\<rparr>
     else
      rbind (travel (if s_vx s < 0 then - RADIUS - s_x s else WIDTH + RADIUS - s_x s) (s_vx s))
        (\<lambda>goal.
      rbind (if s_vx s < 0 \<and> s_x s \<ge> PLANE
             then map_sum id (\<lambda>d. (s_t s + d, 3)) (travel (PLANE - s_x s) (s_vx s))
             else Inr (s_t s + goal, if s_vx s < 0 then 5 else 6)) (\<lambda>e.
      rbind (if s_vx s > 0 \<and> s_x s \<le> WIDTH - PLANE
             then map_sum id (\<lambda>d. (s_t s + d, 4)) (travel (WIDTH - PLANE - s_x s) (s_vx s))
             else Inr e) (\<lambda>e.
      rbind (travel (if s_vy s < 0 then RADIUS - s_y s else HEIGHT - RADIUS - s_y s) (s_vy s))
        (\<lambda>d. let wall = s_t s + d in
          Inr (if wall \<le> fst e then \<lparr>ev_at = wall, ev_kind = (if s_vy s < 0 then 1 else 2)\<rparr>
               else \<lparr>ev_at = fst e, ev_kind = snd e\<rparr>))))))"

definition move :: "state \<Rightarrow> int \<Rightarrow> state res" where
  "move s to =
    (if to < s_t s then Inl ''time reversal''
     else if s_awaitingServe s \<or> s_finished s then Inr s
     else let dt = to - s_t s in
       Inr (s\<lparr>s_x := s_x s + tdiv (s_vx s * dt) SCALE,
              s_y := s_y s + tdiv (s_vy s * dt) SCALE,
              s_left := clamp (s_left s + tdiv (s_leftDir s * PADDLE_SPEED * dt) SCALE) (s_halfA s),
              s_right := clamp (s_right s + tdiv (s_rightDir s * PADDLE_SPEED * dt) SCALE) (s_halfB s),
              s_t := to\<rparr>))"

definition collide :: "state \<Rightarrow> int \<Rightarrow> state" where
  "collide s kind =
    (if kind = 1 \<or> kind = 2 then
       s\<lparr>s_y := (if kind = 1 then RADIUS else HEIGHT - RADIUS), s_vy := - s_vy s\<rparr>
     else if kind = 3 \<or> kind = 4 then
       let paddle = (if kind = 3 then s_left s else s_right s);
           s = s\<lparr>s_x := (if kind = 3 then PLANE else WIDTH - PLANE)\<rparr>;
           half = (if kind = 3 then s_halfA s else s_halfB s)
       in if s_y s + RADIUS \<ge> paddle - half \<and> s_y s - RADIUS \<le> paddle + half
          then s\<lparr>s_vx := - s_vx s\<rparr>
          else s\<lparr>s_x := s_x s + (if s_vx s < 0 then -1 else 1)\<rparr>
     else
       let s = (if kind = 5 then s\<lparr>s_scoreB := s_scoreB s + 1\<rparr>
                else s\<lparr>s_scoreA := s_scoreA s + 1\<rparr>);
           s = s\<lparr>s_finished := (s_scoreA s = 7 \<or> s_scoreB s = 7)\<rparr>
       in if \<not> s_finished s then
            let s = serve s
            in if s_mode s = 1 then
                 s\<lparr>s_awaitingServe := True, s_resumeAt := s_t s + 3000000, s_vx := 0, s_vy := 0\<rparr>
               else s
          else s)"

text \<open>One iteration's event: \<^verbatim>\<open>collide(move(s, e.at), e.kind)\<close>.\<close>

definition fire :: "state \<Rightarrow> state res" where
  "fire s = rbind (next_event s) (\<lambda>e. rbind (move s (ev_at e)) (\<lambda>s'. Inr (collide s' (ev_kind e))))"

fun advance_loop :: "nat \<Rightarrow> state \<Rightarrow> int \<Rightarrow> (state \<times> bool) res" where
  "advance_loop 0 s target =
    (if s_finished s \<or> s_awaitingServe s then Inr (s, True)
     else rbind (next_event s) (\<lambda>e. Inr (s, ev_at e > target \<and> s_t s = target)))"
| "advance_loop (Suc n) s target =
    (if s_finished s \<or> s_awaitingServe s then Inr (s, True)
     else rbind (next_event s) (\<lambda>e.
       if ev_at e > target then rbind (move s target) (\<lambda>s'. Inr (s', True))
       else rbind (move s (ev_at e)) (\<lambda>s'. advance_loop n (collide s' (ev_kind e)) target)))"

definition advance :: "state \<Rightarrow> int \<Rightarrow> nat \<Rightarrow> (state \<times> bool) res" where
  "advance s target limit =
    (if target < s_t s then Inl ''time reversal'' else advance_loop limit s target)"

definition handicap :: "int \<Rightarrow> int \<Rightarrow> (int \<times> int) res" where
  "handicap paidA paidB =
    (let total = paidA + paidB in
     if total < 2000000000000000 then Inr (HALF_PADDLE, HALF_PADDLE)
     else let favorite = (if paidA > paidB then paidA else paidB) in
       rbind (big_div (favorite * 10000) total) (\<lambda>shareBps.
       if shareBps \<le> 6000 then Inr (HALF_PADDLE, HALF_PADDLE)
       else let reduction = tdiv ((shareBps - 6000) * 2500) 4000;
                half = tdiv (HALF_PADDLE * (10000 - reduction)) 10000
            in Inr (if paidA > paidB then (half, HALF_PADDLE) else (HALF_PADDLE, half))))"

definition resume :: "state \<Rightarrow> int \<Rightarrow> int \<Rightarrow> int \<Rightarrow> state res" where
  "resume state at paidA paidB =
    (if \<not> s_awaitingServe state \<or> at < s_resumeAt state then Inl ''serve not ready''
     else rbind (handicap paidA paidB) (\<lambda>(halfA, halfB).
       Inr (serve (state\<lparr>s_halfA := halfA, s_halfB := halfB, s_awaitingServe := False,
         s_resumeAt := 0, s_t := at, s_left := tdiv HEIGHT 2, s_right := tdiv HEIGHT 2\<rparr>))))"

subsection \<open>Well-formed states\<close>

text \<open>
  A state between two events: the ball is vertically inside the court, both paddles are
  inside it with a half-height that pressure may have reduced, the score has at most one
  winner, and a ball in play moves in both directions.
\<close>

definition paddle_ok :: "int \<Rightarrow> int \<Rightarrow> bool" where
  "paddle_ok half y \<longleftrightarrow> 0 < half \<and> half \<le> HALF_PADDLE \<and> half \<le> y \<and> y \<le> HEIGHT - half"

definition score_ok :: "state \<Rightarrow> bool" where
  "score_ok s \<longleftrightarrow> 0 \<le> s_scoreA s \<and> s_scoreA s \<le> 7 \<and> 0 \<le> s_scoreB s \<and> s_scoreB s \<le> 7
    \<and> \<not> (s_scoreA s = 7 \<and> s_scoreB s = 7)
    \<and> (s_finished s \<longleftrightarrow> s_scoreA s = 7 \<or> s_scoreB s = 7)"

definition inside_y :: "state \<Rightarrow> bool" where
  "inside_y s \<longleftrightarrow> RADIUS \<le> s_y s \<and> s_y s \<le> HEIGHT - RADIUS"

definition stopped :: "state \<Rightarrow> bool" where
  "stopped s \<longleftrightarrow> s_finished s \<or> s_awaitingServe s"

definition in_play_ok :: "state \<Rightarrow> bool" where
  "in_play_ok s \<longleftrightarrow> paddle_ok (s_halfA s) (s_left s) \<and> paddle_ok (s_halfB s) (s_right s)
    \<and> score_ok s \<and> (s_awaitingServe s \<longrightarrow> \<not> s_finished s)
    \<and> (\<not> stopped s \<longrightarrow> 2 \<le> \<bar>s_vx s\<bar> \<and> s_vy s \<noteq> 0)"

definition court :: "state \<Rightarrow> bool" where
  "court s \<longleftrightarrow> inside_y s \<and> in_play_ok s"

lemmas court_defs = court_def in_play_ok_def inside_y_def stopped_def score_ok_def paddle_ok_def

lemma clamp_paddle_ok: "0 < half \<Longrightarrow> half \<le> HALF_PADDLE \<Longrightarrow> paddle_ok half (clamp y half)"
  by (simp add: paddle_ok_def clamp_def court_consts)

lemma clamp_id: "paddle_ok half y \<Longrightarrow> clamp y half = y"
  by (simp add: paddle_ok_def clamp_def)

lemma paddle_ok_half: "paddle_ok half y \<Longrightarrow> 0 < half" "paddle_ok half y \<Longrightarrow> half \<le> HALF_PADDLE"
  by (simp_all add: paddle_ok_def)

subsection \<open>Travel times\<close>

text \<open>\<^verbatim>\<open>travel\<close> is the first whole microsecond at which the distance is covered.\<close>

lemma travel_ceiling:
  assumes "v \<noteq> 0"
  shows "\<exists>d. travel D v = Inr d \<and> 0 \<le> d \<and> (\<forall>k. k < d \<longrightarrow> k * \<bar>v\<bar> < \<bar>D\<bar> * SCALE)
    \<and> \<bar>D\<bar> * SCALE \<le> d * \<bar>v\<bar>"
proof -
  let ?n = "\<bar>D\<bar> * SCALE + \<bar>v\<bar> - 1"
  have v: "0 < \<bar>v\<bar>" and n: "0 \<le> ?n" using assms by (simp_all add: SCALE_def)
  note b = tdiv_bounds [OF v n]
  have "k * \<bar>v\<bar> < \<bar>D\<bar> * SCALE" if "k < tdiv ?n \<bar>v\<bar>" for k
  proof -
    from that have "(k + 1) * \<bar>v\<bar> \<le> tdiv ?n \<bar>v\<bar> * \<bar>v\<bar>" using v by (intro mult_right_mono) simp_all
    with b(2) have "k * \<bar>v\<bar> + \<bar>v\<bar> \<le> ?n" by (simp add: algebra_simps)
    then show ?thesis by linarith
  qed
  moreover have "\<bar>D\<bar> * SCALE \<le> tdiv ?n \<bar>v\<bar> * \<bar>v\<bar>" using b(3) by (simp add: algebra_simps)
  ultimately show ?thesis using b(1) assms by (simp add: travel_def)
qed

lemma tdiv_SCALE_sign:
  "0 \<le> a \<Longrightarrow> 0 \<le> tdiv a SCALE" "a \<le> 0 \<Longrightarrow> tdiv a SCALE \<le> 0"
  using tdiv_mono [of SCALE 0 a] tdiv_mono [of SCALE a 0] by (simp_all add: SCALE_def)

text \<open>A coordinate does not pass a bound before the travel time to it.\<close>

lemma drift_within:
  assumes "0 \<le> k" and "k * \<bar>v\<bar> \<le> D * SCALE" and "0 \<le> D"
  shows "\<bar>tdiv (v * k) SCALE\<bar> \<le> D"
proof (rule tdiv_abs_le)
  show "0 < SCALE" by (simp add: SCALE_def)
  show "\<bar>v * k\<bar> \<le> SCALE * D" using assms by (simp add: abs_mult mult.commute)
qed

subsection \<open>The next event\<close>

lemma next_event_in_play:
  assumes "in_play_ok s" and "\<not> stopped s"
  obtains e w where "next_event s = Inr e" and "s_t s \<le> ev_at e" and "ev_kind e \<in> {1..6}"
    and "travel (if s_vy s < 0 then RADIUS - s_y s else HEIGHT - RADIUS - s_y s) (s_vy s) = Inr w"
    and "ev_at e \<le> s_t s + w"
    and "ev_kind e \<in> {1, 2} \<Longrightarrow> ev_at e = s_t s + w"
    and "ev_kind e \<notin> {1, 2} \<Longrightarrow> ev_at e < s_t s + w"
    and "ev_kind e \<in> {3, 5} \<Longrightarrow> s_vx s < 0" and "ev_kind e \<in> {4, 6} \<Longrightarrow> s_vx s > 0"
proof -
  let ?gx = "if s_vx s < 0 then - RADIUS - s_x s else WIDTH + RADIUS - s_x s"
  let ?wy = "if s_vy s < 0 then RADIUS - s_y s else HEIGHT - RADIUS - s_y s"
  from assms have nz: "s_vx s \<noteq> 0" "s_vy s \<noteq> 0" by (auto simp add: in_play_ok_def)
  obtain g where g: "travel ?gx (s_vx s) = Inr g" "0 \<le> g" using travel_ceiling [OF nz(1)] by blast
  obtain l where l: "travel (PLANE - s_x s) (s_vx s) = Inr l" "0 \<le> l"
    using travel_ceiling [OF nz(1)] by blast
  obtain r where r: "travel (WIDTH - PLANE - s_x s) (s_vx s) = Inr r" "0 \<le> r"
    using travel_ceiling [OF nz(1)] by blast
  obtain w where w: "travel ?wy (s_vy s) = Inr w" "0 \<le> w" using travel_ceiling [OF nz(2)] by blast
  define e where "e = (if s_vx s < 0 \<and> s_x s \<ge> PLANE then (s_t s + l, 3::int)
    else if s_vx s > 0 \<and> s_x s \<le> WIDTH - PLANE then (s_t s + r, 4)
    else (s_t s + g, if s_vx s < 0 then 5 else 6))"
  have run: "next_event s = Inr (if s_t s + w \<le> fst e
      then \<lparr>ev_at = s_t s + w, ev_kind = (if s_vy s < 0 then 1 else 2)\<rparr>
      else \<lparr>ev_at = fst e, ev_kind = snd e\<rparr>)"
    using assms(2) g(1) l(1) r(1) w(1) nz
    by (simp add: next_event_def stopped_def e_def Let_def)
  show ?thesis
    by (rule that [OF run _ _ w(1)]) (use g l r w nz in \<open>auto simp add: e_def split: if_splits\<close>)
qed

subsection \<open>Moving and colliding keep the court\<close>

lemma move_in_play:
  assumes "in_play_ok s" and "\<not> stopped s" and "s_t s \<le> to"
  obtains s' where "move s to = Inr s'" and "in_play_ok s'" and "s_t s' = to" and "\<not> stopped s'"
    and "s_vx s' = s_vx s" and "s_vy s' = s_vy s"
    and "s_y s' = s_y s + tdiv (s_vy s * (to - s_t s)) SCALE"
    and "s_scoreA s' = s_scoreA s" and "s_scoreB s' = s_scoreB s"
    and "s_halfA s' = s_halfA s" and "s_halfB s' = s_halfB s" and "s_mode s' = s_mode s"
proof -
  have "paddle_ok (s_halfA s) (clamp y (s_halfA s))" "paddle_ok (s_halfB s) (clamp y (s_halfB s))" for y
    using assms(1) by (auto intro!: clamp_paddle_ok dest: paddle_ok_half simp add: in_play_ok_def)
  note p = this
  define k where "k = to - s_t s"
  define s' where "s' = s\<lparr>s_x := s_x s + tdiv (s_vx s * k) SCALE, s_y := s_y s + tdiv (s_vy s * k) SCALE,
    s_left := clamp (s_left s + tdiv (s_leftDir s * PADDLE_SPEED * k) SCALE) (s_halfA s),
    s_right := clamp (s_right s + tdiv (s_rightDir s * PADDLE_SPEED * k) SCALE) (s_halfB s),
    s_t := to\<rparr>"
  have "move s to = Inr s'" using assms by (simp add: move_def Let_def stopped_def s'_def k_def)
  moreover have "in_play_ok s'" using assms p by (simp add: in_play_ok_def stopped_def score_ok_def s'_def)
  ultimately show ?thesis
    by (rule that) (use assms in \<open>simp_all add: s'_def k_def stopped_def\<close>)
qed

lemma move_inside_y:
  assumes y: "inside_y s"
    and w: "travel (if s_vy s < 0 then RADIUS - s_y s else HEIGHT - RADIUS - s_y s) (s_vy s) = Inr w"
    and vy: "s_vy s \<noteq> 0" and k: "0 \<le> k" "k < w"
  shows "RADIUS \<le> s_y s + tdiv (s_vy s * k) SCALE \<and> s_y s + tdiv (s_vy s * k) SCALE \<le> HEIGHT - RADIUS"
proof -
  let ?D = "if s_vy s < 0 then RADIUS - s_y s else HEIGHT - RADIUS - s_y s"
  from travel_ceiling [OF vy, of ?D] w k(2) have "k * \<bar>s_vy s\<bar> < \<bar>?D\<bar> * SCALE" by auto
  then have "\<bar>tdiv (s_vy s * k) SCALE\<bar> \<le> \<bar>?D\<bar>" using k(1) by (intro drift_within) simp_all
  moreover have "0 \<le> s_vy s * k \<longleftrightarrow> 0 < s_vy s \<or> k = 0" "s_vy s < 0 \<Longrightarrow> s_vy s * k \<le> 0"
    using vy k(1) by (auto simp add: zero_le_mult_iff mult_le_0_iff)
  ultimately show ?thesis
    using y vy tdiv_SCALE_sign [of "s_vy s * k"] by (auto simp add: inside_y_def split: if_splits)
qed

lemma serve_simps [simp]:
  "s_left (serve s) = s_left s" "s_right (serve s) = s_right s" "s_t (serve s) = s_t s"
  "s_scoreA (serve s) = s_scoreA s" "s_scoreB (serve s) = s_scoreB s"
  "s_finished (serve s) = s_finished s" "s_awaitingServe (serve s) = s_awaitingServe s"
  "s_halfA (serve s) = s_halfA s" "s_halfB (serve s) = s_halfB s" "s_mode (serve s) = s_mode s"
  "s_resumeAt (serve s) = s_resumeAt s" "s_seed (serve s) = s_seed s"
  "s_leftDir (serve s) = s_leftDir s" "s_rightDir (serve s) = s_rightDir s"
  by (simp_all add: serve_def Let_def)

lemma serve_ball:
  "\<bar>s_vx (serve s)\<bar> = 128 * SCALE" "\<bar>s_vy (serve s)\<bar> = 64 * SCALE" "inside_y (serve s)"
  by (simp_all add: serve_def Let_def inside_y_def court_consts tdiv_def)

lemma serve_speed: "2 \<le> \<bar>s_vx (serve s)\<bar>" "s_vy (serve s) \<noteq> 0"
  using serve_ball(1,2) [of s] by (auto simp add: SCALE_def)

lemma serve_court:
  assumes "paddle_ok (s_halfA s) (s_left s)" and "paddle_ok (s_halfB s) (s_right s)"
    and "score_ok s" and "\<not> stopped s"
  shows "court (serve s)"
  using assms serve_ball(3) [of s] serve_speed [of s]
  by (simp add: court_def in_play_ok_def stopped_def score_ok_def)

lemma collide_wall:
  assumes "in_play_ok s" and "\<not> stopped s" and "kind \<in> {1, 2}"
  shows "court (collide s kind)" and "s_t (collide s kind) = s_t s"
  using assms by (auto simp add: collide_def court_defs court_consts)

lemma collide_paddle:
  assumes "court s" and "\<not> stopped s" and "kind \<in> {3, 4}"
  shows "court (collide s kind)" and "s_t (collide s kind) = s_t s"
  using assms by (auto simp add: collide_def Let_def court_def in_play_ok_def inside_y_def
    stopped_def score_ok_def)

lemma collide_goal:
  assumes "court s" and "\<not> stopped s" and "kind \<in> {5, 6}"
  shows "court (collide s kind)" and "s_t (collide s kind) = s_t s"
proof -
  define p where "p = (if kind = 5 then s\<lparr>s_scoreB := s_scoreB s + 1\<rparr> else s\<lparr>s_scoreA := s_scoreA s + 1\<rparr>)"
  define q where "q = p\<lparr>s_finished := (s_scoreA p = 7 \<or> s_scoreB p = 7)\<rparr>"
  have c: "collide s kind = (if \<not> s_finished q then
      if s_mode (serve q) = 1 then (serve q)\<lparr>s_awaitingServe := True,
        s_resumeAt := s_t (serve q) + 3000000, s_vx := 0, s_vy := 0\<rparr> else serve q else q)"
    using assms(3) unfolding p_def q_def by (elim insertE emptyE) (simp_all add: collide_def Let_def)
  have keep: "inside_y q" "s_left q = s_left s" "s_right q = s_right s" "s_halfA q = s_halfA s"
    "s_halfB q = s_halfB s" "s_awaitingServe q = s_awaitingServe s" "s_t q = s_t s"
    using assms(1) by (simp_all add: q_def p_def court_def inside_y_def)
  have lt: "0 \<le> s_scoreA s" "s_scoreA s < 7" "0 \<le> s_scoreB s" "s_scoreB s < 7"
    using assms(1,2) by (auto simp add: court_def in_play_ok_def score_ok_def stopped_def)
  have sc: "score_ok q"
  proof (cases "kind = 5")
    case True
    with lt show ?thesis by (simp add: q_def p_def score_ok_def)
  next
    case False
    with lt show ?thesis by (simp add: q_def p_def score_ok_def)
  qed
  show "s_t (collide s kind) = s_t s" by (simp add: c keep)
  from assms(1) have pads: "paddle_ok (s_halfA q) (s_left q)" "paddle_ok (s_halfB q) (s_right q)"
    by (simp_all add: court_def in_play_ok_def keep)
  from assms(2) have aw: "\<not> s_awaitingServe q" by (simp add: keep stopped_def)
  have sw: "score_ok ((serve q)\<lparr>s_awaitingServe := True, s_resumeAt := r, s_vx := 0, s_vy := 0\<rparr>)" for r
    using sc by (simp add: score_ok_def)
  have iw: "inside_y ((serve q)\<lparr>s_awaitingServe := True, s_resumeAt := r, s_vx := 0, s_vy := 0\<rparr>)" for r
    using serve_ball(3) [of q] by (simp add: inside_y_def)
  show "court (collide s kind)"
  proof (cases "s_finished q")
    case True
    with keep(1) sc pads aw show ?thesis by (simp add: c court_def in_play_ok_def stopped_def)
  next
    case False
    show ?thesis
    proof (cases "s_mode q = 1")
      case True
      with False pads sw iw show ?thesis by (simp add: c court_def in_play_ok_def stopped_def)
    next
      case other: False
      with False pads sc aw show ?thesis by (simp add: c serve_court stopped_def)
    qed
  qed
qed

subsection \<open>The engine as an event loop\<close>

lemma fire_court:
  assumes c: "court s" and n: "\<not> stopped s" and e: "next_event s = Inr e"
  shows "\<exists>s'. fire s = Inr s' \<and> court s' \<and> s_t s' = ev_at e"
proof -
  from c have ip: "in_play_ok s" and y: "inside_y s" by (simp_all add: court_def)
  from ip n e obtain w where ev: "s_t s \<le> ev_at e" "ev_kind e \<in> {1..6}"
    "travel (if s_vy s < 0 then RADIUS - s_y s else HEIGHT - RADIUS - s_y s) (s_vy s) = Inr w"
    "ev_kind e \<notin> {1, 2} \<Longrightarrow> ev_at e < s_t s + w"
    by (elim next_event_in_play) auto
  from move_in_play [OF ip n ev(1)] obtain m where
    m: "move s (ev_at e) = Inr m" "in_play_ok m" "s_t m = ev_at e" "\<not> stopped m"
       "s_y m = s_y s + tdiv (s_vy s * (ev_at e - s_t s)) SCALE" by metis
  have f: "fire s = Inr (collide m (ev_kind e))" by (simp add: fire_def e m(1))
  show ?thesis
  proof (cases "ev_kind e \<in> {1, 2}")
    case True
    with f m collide_wall [OF m(2,4) True] show ?thesis by simp
  next
    case False
    have vy: "s_vy s \<noteq> 0" using ip n by (simp add: in_play_ok_def)
    from move_inside_y [OF y ev(3) vy, of "ev_at e - s_t s"] ev(1) ev(4) [OF False]
    have cm: "court m" using m by (simp add: court_def inside_y_def)
    from False ev(2) have "ev_kind e \<in> {3, 4} \<or> ev_kind e \<in> {5, 6}" by auto
    then show ?thesis
    proof
      assume "ev_kind e \<in> {3, 4}"
      from collide_paddle [OF cm m(4) this] f m(3) show ?thesis by simp
    next
      assume "ev_kind e \<in> {5, 6}"
      from collide_goal [OF cm m(4) this] f m(3) show ?thesis by simp
    qed
  qed
qed

lemma collide_frame [simp]:
  "s_mode (collide s k) = s_mode s" "s_halfA (collide s k) = s_halfA s"
  "s_halfB (collide s k) = s_halfB s" "s_seed (collide s k) = s_seed s"
  "s_left (collide s k) = s_left s" "s_right (collide s k) = s_right s"
  "s_mode s \<noteq> 1 \<Longrightarrow> s_awaitingServe (collide s k) = s_awaitingServe s"
  by (simp_all add: collide_def Let_def)

text \<open>What one event does to the ball and the score.\<close>

lemma fire_cases [consumes 3, case_names wall paddle goal]:
  assumes c: "court s" and n: "\<not> stopped s" and e: "next_event s = Inr e"
  obtains s' where "fire s = Inr s'" and "court s'" and "s_mode s' = s_mode s" and "\<not> stopped s'"
      and "s_scoreA s' = s_scoreA s" and "s_scoreB s' = s_scoreB s" and "s_t s' = ev_at e"
      and "s_halfA s' = s_halfA s" and "s_halfB s' = s_halfB s"
      and "ev_kind e \<in> {1, 2}" and "s_vx s' = s_vx s" and "s_vy s' = - s_vy s"
  | s' where "fire s = Inr s'" and "court s'" and "s_mode s' = s_mode s" and "\<not> stopped s'"
      and "s_scoreA s' = s_scoreA s" and "s_scoreB s' = s_scoreB s" and "s_t s' = ev_at e"
      and "s_halfA s' = s_halfA s" and "s_halfB s' = s_halfB s"
      and "ev_kind e \<in> {3, 4}" and "s_vy s' = s_vy s" and "s_vx s' = s_vx s \<or> s_vx s' = - s_vx s"
  | s' where "fire s = Inr s'" and "court s'" and "s_mode s' = s_mode s" and "s_t s' = ev_at e"
      and "s_scoreA s' + s_scoreB s' = s_scoreA s + s_scoreB s + 1"
      and "s_halfA s' = s_halfA s" and "s_halfB s' = s_halfB s" and "ev_kind e \<in> {5, 6}"
      and "s_finished s' \<or> s_mode s \<noteq> 1 \<and> \<not> stopped s' \<and> (\<exists>q. s' = serve q)
        \<or> s_mode s = 1 \<and> s_awaitingServe s' \<and> s_resumeAt s' = s_t s' + 3000000"
proof -
  from c have ip: "in_play_ok s" by (simp add: court_def)
  from ip n e have ev: "s_t s \<le> ev_at e" "ev_kind e \<in> {1..6}"
    by (auto elim!: next_event_in_play)
  from move_in_play [OF ip n ev(1)] obtain m where
    m: "move s (ev_at e) = Inr m" "s_t m = ev_at e" "\<not> stopped m" "s_vx m = s_vx s"
       "s_vy m = s_vy s" "s_scoreA m = s_scoreA s" "s_scoreB m = s_scoreB s" "s_mode m = s_mode s"
       "s_halfA m = s_halfA s" "s_halfB m = s_halfB s" by metis
  have f: "fire s = Inr (collide m (ev_kind e))" by (simp add: fire_def e m(1))
  from fire_court [OF c n e] f have ct: "court (collide m (ev_kind e))" "s_t (collide m (ev_kind e)) = ev_at e"
    by auto
  from ev(2) consider "ev_kind e \<in> {1, 2}" | "ev_kind e \<in> {3, 4}" | "ev_kind e \<in> {5, 6}" by force
  then show ?thesis
  proof cases
    case 1
    then have "collide m (ev_kind e) = m\<lparr>s_y := (if ev_kind e = 1 then RADIUS else HEIGHT - RADIUS),
      s_vy := - s_vy m\<rparr>" by (auto simp add: collide_def)
    note k = this
    show ?thesis
      by (rule that(1) [OF f ct(1) _ _ _ _ ct(2)]) (use m 1 in \<open>simp_all add: k stopped_def\<close>)
  next
    case 2
    then have k: "s_vy (collide m (ev_kind e)) = s_vy m"
      "s_vx (collide m (ev_kind e)) = s_vx m \<or> s_vx (collide m (ev_kind e)) = - s_vx m"
      "s_scoreA (collide m (ev_kind e)) = s_scoreA m" "s_scoreB (collide m (ev_kind e)) = s_scoreB m"
      "stopped (collide m (ev_kind e)) = stopped m"
      by (auto simp add: collide_def Let_def stopped_def)
    show ?thesis
      by (rule that(2) [OF f ct(1) _ _ _ _ ct(2)]) (use m 2 k in simp_all)
  next
    case 3
    define p where "p = (if ev_kind e = 5 then m\<lparr>s_scoreB := s_scoreB m + 1\<rparr> else m\<lparr>s_scoreA := s_scoreA m + 1\<rparr>)"
    define q where "q = p\<lparr>s_finished := (s_scoreA p = 7 \<or> s_scoreB p = 7)\<rparr>"
    have k: "collide m (ev_kind e) = (if \<not> s_finished q then
        if s_mode (serve q) = 1 then (serve q)\<lparr>s_awaitingServe := True,
          s_resumeAt := s_t (serve q) + 3000000, s_vx := 0, s_vy := 0\<rparr> else serve q else q)"
      using 3 unfolding p_def q_def by (elim insertE emptyE) (simp_all add: collide_def Let_def)
    have q: "s_mode q = s_mode s" "s_scoreA q + s_scoreB q = s_scoreA s + s_scoreB s + 1"
      "s_awaitingServe q = s_awaitingServe m" "s_halfA q = s_halfA s" "s_halfB q = s_halfB s"
      using m by (simp_all add: q_def p_def)
    show ?thesis
      by (rule that(3) [OF f ct(1) _ ct(2)])
        (use m 3 q in \<open>auto simp add: k stopped_def\<close>)
  qed
qed

lemma move_court:
  assumes c: "court s" and n: "\<not> stopped s" and e: "next_event s = Inr e"
    and "s_t s \<le> T" and "T < ev_at e"
  shows "\<exists>s'. move s T = Inr s' \<and> court s' \<and> s_t s' = T"
proof -
  from c have ip: "in_play_ok s" and y: "inside_y s" by (simp_all add: court_def)
  from ip n e obtain w where w:
    "travel (if s_vy s < 0 then RADIUS - s_y s else HEIGHT - RADIUS - s_y s) (s_vy s) = Inr w"
    and lw: "ev_at e \<le> s_t s + w"
    by (elim next_event_in_play) auto
  from move_in_play [OF ip n assms(4)] obtain m where
    m: "move s T = Inr m" "in_play_ok m" "s_t m = T"
       "s_y m = s_y s + tdiv (s_vy s * (T - s_t s)) SCALE" by metis
  have vy: "s_vy s \<noteq> 0" using ip n by (simp add: in_play_ok_def)
  from move_inside_y [OF y w vy, of "T - s_t s"] assms(4,5) lw
  have "inside_y m" using m by (simp add: inside_y_def)
  with m show ?thesis by (simp add: court_def)
qed

lemma move_now: "court s \<Longrightarrow> move s (s_t s) = Inr s"
  by (simp add: move_def Let_def clamp_id court_def in_play_ok_def)

definition due_at :: "state \<Rightarrow> int res" where
  "due_at s = rbind (next_event s) (\<lambda>e. Inr (ev_at e))"

lemma due_at_Inr: "due_at s = Inr a \<longleftrightarrow> (\<exists>e. next_event s = Inr e \<and> ev_at e = a)"
  by (auto simp add: due_at_def res_simps)

lemma next_event_court:
  assumes "court s" and "\<not> stopped s"
  obtains e where "next_event s = Inr e" and "s_t s \<le> ev_at e" and "ev_kind e \<in> {1..6}"
  using assms by (auto simp add: court_def elim: next_event_in_play)

interpretation v2: event_loop "\<lambda>n s T. advance_loop n s T" stopped due_at fire move s_t court
proof (unfold_locales, goal_cases)
  case (1 s T)
  then show ?case by (simp add: due_at_def stopped_def rbind_def split: sum.split)
next
  case (2 s T n)
  then show ?case
    by (simp add: due_at_def fire_def stopped_def rbind_def split: sum.split)
next
  case (3 s)
  then show ?case by (metis next_event_court due_at_Inr)
next
  case (4 s a)
  then show ?case by (auto simp add: due_at_Inr dest: fire_court)
next
  case (5 s a T)
  then show ?case by (auto simp add: due_at_Inr dest: move_court)
next
  case (6 s)
  then show ?case by (simp add: move_now)
qed

subsection \<open>Progress\<close>

text \<open>Only a wall and a horizontal contact can be due at one instant: either event leaves the
  ball at a positive distance from the next obstacle of its kind.\<close>

definition wall_gap :: "state \<Rightarrow> int" where
  "wall_gap s = (if s_vy s < 0 then RADIUS - s_y s else HEIGHT - RADIUS - s_y s)"

definition side_gap :: "state \<Rightarrow> int" where
  "side_gap s =
    (if s_vx s < 0 then if s_x s \<ge> PLANE then PLANE - s_x s else - RADIUS - s_x s
     else if s_x s \<le> WIDTH - PLANE then WIDTH - PLANE - s_x s else WIDTH + RADIUS - s_x s)"

definition due_now :: "state \<Rightarrow> nat" where
  "due_now s = of_bool (wall_gap s = 0) + of_bool (side_gap s = 0)"

lemma travel_zero: "v \<noteq> 0 \<Longrightarrow> travel D v = Inr 0 \<longleftrightarrow> D = 0"
  using travel_ceiling [of v D] by (auto simp add: SCALE_def travel_def tdiv_nonneg_eq)

lemma next_event_now:
  assumes "in_play_ok s" and "\<not> stopped s" and "next_event s = Inr e" and "ev_at e = s_t s"
  shows "ev_kind e \<in> {1, 2} \<and> wall_gap s = 0 \<and> (ev_kind e = 1 \<longleftrightarrow> s_vy s < 0)
    \<or> side_gap s = 0 \<and> wall_gap s \<noteq> 0
      \<and> (ev_kind e = 3 \<and> s_vx s < 0 \<or> ev_kind e = 4 \<and> s_vx s > 0 \<or> ev_kind e \<in> {5, 6})"
proof -
  from assms have nz: "s_vx s \<noteq> 0" "s_vy s \<noteq> 0" by (auto simp add: in_play_ok_def)
  obtain h where h: "travel (side_gap s) (s_vx s) = Inr h" "0 \<le> h"
    using travel_ceiling [OF nz(1)] by blast
  obtain g where g: "travel (if s_vx s < 0 then - RADIUS - s_x s else WIDTH + RADIUS - s_x s) (s_vx s) = Inr g"
    using travel_ceiling [OF nz(1)] by blast
  obtain w where w: "travel (wall_gap s) (s_vy s) = Inr w" "0 \<le> w" using travel_ceiling [OF nz(2)] by blast
  have wz: "w = 0 \<longleftrightarrow> wall_gap s = 0" and hz: "h = 0 \<longleftrightarrow> side_gap s = 0"
    using travel_zero [OF nz(2), of "wall_gap s"] travel_zero [OF nz(1), of "side_gap s"] w h by auto
  have "next_event s = Inr (if w \<le> h then \<lparr>ev_at = s_t s + w, ev_kind = (if s_vy s < 0 then 1 else 2)\<rparr>
      else \<lparr>ev_at = s_t s + h, ev_kind = (if s_vx s < 0 then if s_x s \<ge> PLANE then 3 else 5
        else if s_x s \<le> WIDTH - PLANE then 4 else 6)\<rparr>)"
  proof (cases "s_vx s < 0")
    case True
    show ?thesis
      using assms(2) True h(1) w(1) g unfolding wall_gap_def side_gap_def
      by (cases "PLANE \<le> s_x s") (simp_all add: next_event_def stopped_def Let_def)
  next
    case False
    then have "0 < s_vx s" using nz by simp
    then show ?thesis
      using assms(2) False h(1) w(1) g unfolding wall_gap_def side_gap_def
      by (cases "s_x s \<le> WIDTH - PLANE") (simp_all add: next_event_def stopped_def Let_def)
  qed
  then have "e = (if w \<le> h then \<lparr>ev_at = s_t s + w, ev_kind = (if s_vy s < 0 then 1 else 2)\<rparr>
      else \<lparr>ev_at = s_t s + h, ev_kind = (if s_vx s < 0 then if s_x s \<ge> PLANE then 3 else 5
        else if s_x s \<le> WIDTH - PLANE then 4 else 6)\<rparr>)" using assms(3) by simp
  then show ?thesis using assms(4) wz hz h(2) w(2) nz
    by (cases "w \<le> h"; cases "s_vx s < 0") simp_all
qed

lemma collide_paddle_gap:
  assumes "kind = 3 \<and> s_vx s < 0 \<or> kind = 4 \<and> s_vx s > 0"
  shows "side_gap (collide s kind) \<noteq> 0" and "wall_gap (collide s kind) = wall_gap s"
proof -
  define paddle where "paddle = (if kind = 3 then s_left s else s_right s)"
  define half where "half = (if kind = 3 then s_halfA s else s_halfB s)"
  define p where "p = (if kind = 3 then PLANE else WIDTH - PLANE)"
  have k: "collide s kind = (if s_y s + RADIUS \<ge> paddle - half \<and> s_y s - RADIUS \<le> paddle + half
      then s\<lparr>s_x := p, s_vx := - s_vx s\<rparr> else s\<lparr>s_x := p + (if s_vx s < 0 then -1 else 1)\<rparr>)"
    using assms unfolding paddle_def half_def p_def by (elim disjE conjE) (simp_all add: collide_def Let_def)
  show "wall_gap (collide s kind) = wall_gap s" by (simp add: k wall_gap_def)
  show "side_gap (collide s kind) \<noteq> 0"
    using assms unfolding k by (elim disjE conjE) (simp_all add: p_def side_gap_def court_consts)
qed

lemma collide_wall_gap:
  assumes "kind \<in> {1, 2}" and "kind = 1 \<longleftrightarrow> s_vy s < 0" and "s_vy s \<noteq> 0"
  shows "wall_gap (collide s kind) \<noteq> 0" and "side_gap (collide s kind) = side_gap s"
  using assms by (auto simp add: collide_def side_gap_def wall_gap_def court_consts)

lemma served_gap: "wall_gap (serve q) \<noteq> 0" "side_gap (serve q) \<noteq> 0"
  by (auto simp add: serve_def Let_def wall_gap_def side_gap_def court_consts tdiv_def)

lemma due_now_cong:
  assumes "s_x s' = s_x s" and "s_y s' = s_y s"
    and "s_vx s' < 0 \<longleftrightarrow> s_vx s < 0" and "s_vy s' < 0 \<longleftrightarrow> s_vy s < 0"
  shows "due_now s' = due_now s"
  using assms by (simp add: due_now_def wall_gap_def side_gap_def)

lemma fire_progress:
  assumes c: "court s" and n: "\<not> stopped s" and e: "next_event s = Inr e" and t: "ev_at e = s_t s"
    and f: "fire s = Inr s'" and n': "\<not> stopped s'"
  shows "due_now s' < due_now s"
proof -
  from c have ip: "in_play_ok s" by (simp add: court_def)
  have s': "s' = collide s (ev_kind e)" using f e t move_now [OF c] by (simp add: fire_def)
  from next_event_now [OF ip n e t] consider
      "ev_kind e \<in> {1, 2}" "wall_gap s = 0" "ev_kind e = 1 \<longleftrightarrow> s_vy s < 0"
    | "side_gap s = 0" "ev_kind e = 3 \<and> s_vx s < 0 \<or> ev_kind e = 4 \<and> s_vx s > 0"
    | "side_gap s = 0" "ev_kind e \<in> {5, 6}" by blast
  then show ?thesis
  proof cases
    case 1
    have "s_vy s \<noteq> 0" using ip n by (simp add: in_play_ok_def)
    with 1 collide_wall_gap [OF 1(1,3)] show ?thesis by (simp add: s' due_now_def)
  next
    case 2
    with collide_paddle_gap [OF 2(2)] show ?thesis by (simp add: s' due_now_def)
  next
    case 3
    from c n e obtain q where "s' = serve q"
    proof (cases rule: fire_cases)
      case (goal s2)
      with f n' that show ?thesis by (auto simp add: stopped_def)
    qed (use 3 in auto)
    with 3 served_gap [of q] show ?thesis by (simp add: due_now_def)
  qed
qed

interpretation v2p: productive_loop "\<lambda>n s T. advance_loop n s T" stopped due_at fire move s_t court due_now
proof (unfold_locales, goal_cases)
  case (1 s)
  show ?case by (simp add: due_now_def)
next
  case (2 s s')
  then show ?case by (auto simp add: due_at_Inr intro: fire_progress)
qed

lemma advance_eq: "s_t s \<le> T \<Longrightarrow> advance s T n = advance_loop n s T"
  by (simp add: advance_def)

lemma initial_court:
  assumes "mode = 0 \<or> mode = 1"
  obtains s where "initial seed mode = Inr s" and "court s" and "s_t s = 0" and "s_mode s = mode"
    and "\<not> stopped s" and "s_scoreA s = 0" and "s_scoreB s = 0"
proof -
  define b where "b = \<lparr>s_x = 0, s_y = 0, s_vx = 0, s_vy = 0, s_left = tdiv HEIGHT 2,
       s_right = tdiv HEIGHT 2, s_leftDir = 0, s_rightDir = 0, s_t = 0, s_scoreA = 0,
       s_scoreB = 0, s_seed = seed, s_finished = False, s_mode = mode, s_halfA = HALF_PADDLE,
       s_halfB = HALF_PADDLE, s_awaitingServe = False, s_resumeAt = 0\<rparr>"
  have "court (serve b)"
    by (rule serve_court) (simp_all add: b_def paddle_ok_def score_ok_def stopped_def court_consts tdiv_def)
  moreover have "initial seed mode = Inr (serve b)" using assms by (auto simp add: initial_def b_def)
  ultimately show ?thesis using that by (simp add: b_def stopped_def)
qed

subsection \<open>Properties of the engine\<close>

text \<open>C1. From a well-formed state \<^verbatim>\<open>advance\<close> never throws: it returns a well-formed state
  whose clock lies between the old clock and the target, and a completion flag that is only
  set when the match is over, waits for a serve, or has reached the target.\<close>

theorem advance_sound:
  assumes "court s" and "s_t s \<le> target"
  shows "\<exists>s' complete. advance s target limit = Inr (s', complete) \<and> court s'
    \<and> s_t s \<le> s_t s' \<and> s_t s' \<le> target
    \<and> (complete \<longrightarrow> s_finished s' \<or> s_awaitingServe s' \<or> s_t s' = target)"
  using v2.loop_sound [OF assms, of limit] assms(2) by (simp add: advance_eq stopped_def)

text \<open>The opening serve of a Classic match whose seed is 5.\<close>

definition kickoff :: state where
  "kickoff = \<lparr>s_x = 512000000, s_y = 288000000, s_vx = 128000000, s_vy = -64000000,
     s_left = 288000000, s_right = 288000000, s_leftDir = 0, s_rightDir = 0, s_t = 0,
     s_scoreA = 0, s_scoreB = 0, s_seed = 5, s_finished = False, s_mode = 0,
     s_halfA = 48000000, s_halfB = 48000000, s_awaitingServe = False, s_resumeAt = 0\<rparr>"

lemma kickoff_initial: "initial 5 0 = Inr kickoff"
  by code_simp

lemma kickoff_court: "court kickoff"
  by (simp add: kickoff_def court_defs court_consts)

theorem advance_sound_witness:
  "court kickoff \<and> s_t kickoff \<le> 9000000
   \<and> (\<exists>s' c. advance kickoff 9000000 128 = Inr (s', c) \<and> court s' \<and> s_t s' \<le> 9000000)"
  using advance_sound [OF kickoff_court, of 9000000 128] kickoff_court
  by (auto simp add: kickoff_def)

text \<open>Cranking is transparent: running out of the event budget and calling \<^verbatim>\<open>advance\<close>
  again with the returned state gives exactly the state and flag of one call with the sum of
  the budgets.\<close>

theorem advance_budget_split:
  assumes "court s" and "s_t s \<le> target"
  shows "advance s target (n + m) =
    rbind (advance s target n) (\<lambda>r. if snd r then Inr r else advance (fst r) target m)"
proof -
  from v2.loop_sound [OF assms, of n] obtain s' b where
    r: "advance_loop n s target = Inr (s', b)" "s_t s' \<le> target" by blast
  show ?thesis using v2.loop_resume [OF assms, of n m] assms(2) r by (simp add: advance_eq)
qed

theorem advance_budget_split_witness:
  "court kickoff \<and> advance kickoff 9000000 (2 + 126) =
    rbind (advance kickoff 9000000 2) (\<lambda>r. if snd r then Inr r else advance (fst r) 9000000 126)"
  using advance_budget_split [OF kickoff_court, of 9000000 2 126] kickoff_court
  by (simp add: kickoff_def)

text \<open>C2. \<^verbatim>\<open>advance\<close> does not stall: at most two events share a microsecond, so a budget of
  four events per simulated microsecond (and three more) always completes, with the match
  stopped or at the target.\<close>

theorem advance_completes:
  assumes "court s" and "s_t s \<le> target" and "nat (4 * (target - s_t s)) + 2 < limit"
  shows "\<exists>s'. advance s target limit = Inr (s', True)
    \<and> (s_finished s' \<or> s_awaitingServe s' \<or> s_t s' = target)"
proof -
  have "due_now s \<le> 2" by (simp add: due_now_def)
  with v2p.loop_completes [OF assms(1,2), of limit] assms(3) obtain s' where
    s': "advance_loop limit s target = Inr (s', True)" by auto
  with v2.loop_sound [OF assms(1,2), of limit] assms(2) show ?thesis
    by (auto simp add: advance_eq stopped_def)
qed

theorem advance_completes_witness:
  "court kickoff \<and> s_t kickoff \<le> 9000000 \<and> nat (4 * (9000000 - s_t kickoff)) + 2 < 36000003
   \<and> (\<exists>s'. advance kickoff 9000000 36000003 = Inr (s', True))"
  using advance_completes [OF kickoff_court, of 9000000 36000003] kickoff_court
  by (auto simp add: kickoff_def)

lemma handicap_range:
  assumes "0 \<le> paidA" and "0 \<le> paidB"
  shows "\<exists>a b. handicap paidA paidB = Inr (a, b)
    \<and> 36 * SCALE \<le> a \<and> a \<le> HALF_PADDLE \<and> 36 * SCALE \<le> b \<and> b \<le> HALF_PADDLE
    \<and> (a < HALF_PADDLE \<longrightarrow> paidB < paidA \<and> b = HALF_PADDLE)
    \<and> (b < HALF_PADDLE \<longrightarrow> paidA < paidB \<and> a = HALF_PADDLE)"
proof (cases "paidA + paidB < 2000000000000000")
  case True
  then show ?thesis by (simp add: handicap_def court_consts)
next
  case big: False
  let ?total = "paidA + paidB" and ?fav = "if paidA > paidB then paidA else paidB"
  define share where "share = tdiv (?fav * 10000) ?total"
  define red where "red = tdiv ((share - 6000) * 2500) 4000"
  define half where "half = tdiv (HALF_PADDLE * (10000 - red)) 10000"
  from big have t: "0 < ?total" by simp
  have f: "0 \<le> ?fav * 10000" "?fav * 10000 \<le> ?total * 10000" using assms by auto
  have "?total * share \<le> ?total * 10000"
    using tdiv_bounds(2) [OF t f(1)] f(2) unfolding share_def by linarith
  then have s10: "share \<le> 10000" using t mult_le_cancel_left_pos by blast
  have h: "handicap paidA paidB = Inr (if share \<le> 6000 then (HALF_PADDLE, HALF_PADDLE)
      else if paidA > paidB then (half, HALF_PADDLE) else (HALF_PADDLE, half))"
    using big by (simp add: handicap_def Let_def share_def red_def half_def)
  show ?thesis
  proof (cases "share \<le> 6000")
    case True
    with h show ?thesis by (simp add: court_consts)
  next
    case False
    then have "0 \<le> red" "red \<le> 2500"
      using s10 tdiv_bounds [of 4000 "(share - 6000) * 2500"] unfolding red_def by simp_all
    then have "36 * SCALE \<le> half" "half \<le> HALF_PADDLE"
      using tdiv_bounds [of 10000 "HALF_PADDLE * (10000 - red)"] unfolding half_def
      by (simp_all add: court_consts)
    moreover have "paidA \<noteq> paidB"
    proof
      assume e: "paidA = paidB"
      have "?total * share \<le> ?fav * 10000" using tdiv_bounds(2) [OF t f(1)] unfolding share_def .
      with e t have "2 * paidA * share \<le> 2 * paidA * 5000" by simp
      with e t have "share \<le> 5000" by (simp add: mult_le_cancel_left_pos)
      with False show False by simp
    qed
    ultimately show ?thesis using h False by (auto simp add: court_consts)
  qed
qed

text \<open>The betting handicap of any non-negative pot is defined, never enlarges a paddle,
  never removes more than a quarter of it, and only ever shrinks the paddle of the side that
  strictly more was paid on.\<close>

theorem handicap_bounded:
  assumes "0 \<le> paidA" and "0 \<le> paidB"
  shows "\<exists>a b. handicap paidA paidB = Inr (a, b)
    \<and> 36 * SCALE \<le> a \<and> a \<le> HALF_PADDLE \<and> 36 * SCALE \<le> b \<and> b \<le> HALF_PADDLE
    \<and> (a < HALF_PADDLE \<longrightarrow> paidB < paidA \<and> b = HALF_PADDLE)
    \<and> (b < HALF_PADDLE \<longrightarrow> paidA < paidB \<and> a = HALF_PADDLE)"
  using assms by (rule handicap_range)

theorem handicap_bounded_witness:
  "(0::int) \<le> 9000000000000000 \<and> (0::int) \<le> 1000000000000000
   \<and> handicap 9000000000000000 1000000000000000 = Inr (39000000, 48000000)
   \<and> (\<exists>a b. handicap 9000000000000000 1000000000000000 = Inr (a, b) \<and> 36 * SCALE \<le> a)"
proof -
  have "handicap 9000000000000000 1000000000000000 = Inr (39000000, 48000000)" by code_simp
  then show ?thesis using handicap_bounded [of 9000000000000000 1000000000000000] by auto
qed

subsection \<open>Simultaneous contacts\<close>



end
