(* ===== verification/Physics_V1.thy ===== *)
theory Physics_V1
  imports Physics_V2
begin

text \<open>
  \<^verbatim>\<open>shared/physics.ts\<close>: the first engine, without modes, pauses or adjustable paddles.  Its
  court constants have the values of the second engine and are shared with it; everything
  else is translated on its own, and \<open>advance_v1_refines\<close> relates the two.
\<close>

record classic =
  c_x :: int
  c_y :: int
  c_vx :: int
  c_vy :: int
  c_left :: int
  c_right :: int
  c_leftDir :: int
  c_rightDir :: int
  c_t :: int
  c_scoreA :: int
  c_scoreB :: int
  c_seed :: int
  c_finished :: bool

definition clamp_v1 :: "int \<Rightarrow> int" where
  "clamp_v1 y = (if y < HALF_PADDLE then HALF_PADDLE
     else if y > HEIGHT - HALF_PADDLE then HEIGHT - HALF_PADDLE else y)"

definition travel_v1 :: "int \<Rightarrow> int \<Rightarrow> int res" where
  "travel_v1 d v = big_div (\<bar>d\<bar> * SCALE + \<bar>v\<bar> - 1) \<bar>v\<bar>"

definition serve_v1 :: "classic \<Rightarrow> classic" where
  "serve_v1 s = (let point = c_scoreA s + c_scoreB s in
     s\<lparr>c_x := tdiv WIDTH 2, c_y := tdiv HEIGHT 2,
       c_vx := (if point mod 2 = 0 then 128 else -128) * SCALE,
       c_vy := (if drop_bit (nat point) (c_seed s) AND 1 \<noteq> 0 then -64 else 64) * SCALE\<rparr>)"

definition initial_v1 :: "int \<Rightarrow> classic" where
  "initial_v1 seed = serve_v1 \<lparr>c_x = 0, c_y = 0, c_vx = 0, c_vy = 0, c_left = tdiv HEIGHT 2,
     c_right = tdiv HEIGHT 2, c_leftDir = 0, c_rightDir = 0, c_t = 0, c_scoreA = 0,
     c_scoreB = 0, c_seed = seed, c_finished = False\<rparr>"

definition next_v1 :: "classic \<Rightarrow> game_event res" where
  "next_v1 s =
    (if c_finished s then Inr \<lparr>ev_at = umax64, ev_kind = 0\<rparr>
     else
      rbind (travel_v1 (if c_vx s < 0 then - RADIUS - c_x s else WIDTH + RADIUS - c_x s) (c_vx s))
        (\<lambda>goal.
      rbind (if c_vx s < 0 \<and> c_x s \<ge> PLANE
             then map_sum id (\<lambda>d. (c_t s + d, 3)) (travel_v1 (PLANE - c_x s) (c_vx s))
             else Inr (c_t s + goal, if c_vx s < 0 then 5 else 6)) (\<lambda>e.
      rbind (if c_vx s > 0 \<and> c_x s \<le> WIDTH - PLANE
             then map_sum id (\<lambda>d. (c_t s + d, 4)) (travel_v1 (WIDTH - PLANE - c_x s) (c_vx s))
             else Inr e) (\<lambda>e.
      rbind (travel_v1 (if c_vy s < 0 then RADIUS - c_y s else HEIGHT - RADIUS - c_y s) (c_vy s))
        (\<lambda>d. let wall = c_t s + d in
          Inr (if wall \<le> fst e then \<lparr>ev_at = wall, ev_kind = (if c_vy s < 0 then 1 else 2)\<rparr>
               else \<lparr>ev_at = fst e, ev_kind = snd e\<rparr>))))))"

definition move_v1 :: "classic \<Rightarrow> int \<Rightarrow> classic res" where
  "move_v1 s to =
    (if to < c_t s then Inl ''time reversal''
     else let dt = to - c_t s in
       Inr (s\<lparr>c_x := c_x s + tdiv (c_vx s * dt) SCALE,
              c_y := c_y s + tdiv (c_vy s * dt) SCALE,
              c_left := clamp_v1 (c_left s + tdiv (c_leftDir s * PADDLE_SPEED * dt) SCALE),
              c_right := clamp_v1 (c_right s + tdiv (c_rightDir s * PADDLE_SPEED * dt) SCALE),
              c_t := to\<rparr>))"

definition collide_v1 :: "classic \<Rightarrow> int \<Rightarrow> classic" where
  "collide_v1 s kind =
    (if kind = 1 \<or> kind = 2 then
       s\<lparr>c_y := (if kind = 1 then RADIUS else HEIGHT - RADIUS), c_vy := - c_vy s\<rparr>
     else if kind = 3 \<or> kind = 4 then
       let paddle = (if kind = 3 then c_left s else c_right s);
           s = s\<lparr>c_x := (if kind = 3 then PLANE else WIDTH - PLANE)\<rparr>
       in if c_y s + RADIUS \<ge> paddle - HALF_PADDLE \<and> c_y s - RADIUS \<le> paddle + HALF_PADDLE
          then s\<lparr>c_vx := - c_vx s\<rparr>
          else s\<lparr>c_x := c_x s + (if c_vx s < 0 then -1 else 1)\<rparr>
     else
       let s = (if kind = 5 then s\<lparr>c_scoreB := c_scoreB s + 1\<rparr>
                else s\<lparr>c_scoreA := c_scoreA s + 1\<rparr>);
           s = s\<lparr>c_finished := (c_scoreA s = 7 \<or> c_scoreB s = 7)\<rparr>
       in if \<not> c_finished s then serve_v1 s else s)"

fun advance_loop_v1 :: "nat \<Rightarrow> classic \<Rightarrow> int \<Rightarrow> (classic \<times> bool) res" where
  "advance_loop_v1 0 s target =
    (if c_finished s then Inr (s, True)
     else rbind (next_v1 s) (\<lambda>e. Inr (s, ev_at e > target \<and> c_t s = target)))"
| "advance_loop_v1 (Suc n) s target =
    (if c_finished s then Inr (s, True)
     else rbind (next_v1 s) (\<lambda>e.
       if ev_at e > target then rbind (move_v1 s target) (\<lambda>s'. Inr (s', True))
       else rbind (move_v1 s (ev_at e)) (\<lambda>s'. advance_loop_v1 n (collide_v1 s' (ev_kind e)) target)))"

definition advance_v1 :: "classic \<Rightarrow> int \<Rightarrow> nat \<Rightarrow> (classic \<times> bool) res" where
  "advance_v1 s target limit =
    (if target < c_t s then Inl ''time reversal'' else advance_loop_v1 limit s target)"

subsection \<open>The second engine in Classic mode is the first engine\<close>

definition embed :: "classic \<Rightarrow> state" where
  "embed s = \<lparr>s_x = c_x s, s_y = c_y s, s_vx = c_vx s, s_vy = c_vy s, s_left = c_left s,
     s_right = c_right s, s_leftDir = c_leftDir s, s_rightDir = c_rightDir s, s_t = c_t s,
     s_scoreA = c_scoreA s, s_scoreB = c_scoreB s, s_seed = c_seed s,
     s_finished = c_finished s, s_mode = 0, s_halfA = HALF_PADDLE, s_halfB = HALF_PADDLE,
     s_awaitingServe = False, s_resumeAt = 0\<rparr>"

lemma embed_simps [simp]:
  "s_x (embed s) = c_x s" "s_y (embed s) = c_y s" "s_vx (embed s) = c_vx s"
  "s_vy (embed s) = c_vy s" "s_left (embed s) = c_left s" "s_right (embed s) = c_right s"
  "s_leftDir (embed s) = c_leftDir s" "s_rightDir (embed s) = c_rightDir s"
  "s_t (embed s) = c_t s" "s_scoreA (embed s) = c_scoreA s" "s_scoreB (embed s) = c_scoreB s"
  "s_seed (embed s) = c_seed s" "s_finished (embed s) = c_finished s" "s_mode (embed s) = 0"
  "s_halfA (embed s) = HALF_PADDLE" "s_halfB (embed s) = HALF_PADDLE"
  "\<not> s_awaitingServe (embed s)" "s_resumeAt (embed s) = 0"
  by (simp_all add: embed_def)

lemma embed_serve: "serve (embed s) = embed (serve_v1 s)"
  by (simp add: serve_def serve_v1_def embed_def Let_def)

lemma travel_v1_eq: "travel_v1 = travel"
  by (simp add: fun_eq_iff travel_def travel_v1_def)

lemma embed_next: "next_event (embed s) = next_v1 s"
  by (simp add: next_event_def next_v1_def travel_v1_eq cong: if_cong)

lemma clamp_v1_eq: "clamp y HALF_PADDLE = clamp_v1 y"
  by (simp add: clamp_def clamp_v1_def)

lemma embed_move: "\<not> c_finished s \<Longrightarrow> move (embed s) to = map_sum id embed (move_v1 s to)"
  by (simp add: move_def move_v1_def clamp_v1_eq Let_def embed_def)

lemma embed_collide: "collide (embed s) kind = embed (collide_v1 s kind)"
proof -
  consider "kind = 1 \<or> kind = 2" | "kind = 3 \<or> kind = 4" | "kind \<notin> {1, 2, 3, 4}" by auto
  then show ?thesis
  proof cases
    case 1
    then show ?thesis by (auto simp add: collide_def collide_v1_def embed_def)
  next
    case 2
    then show ?thesis by (auto simp add: collide_def collide_v1_def embed_def Let_def)
  next
    case 3
    define p where "p = (if kind = 5 then s\<lparr>c_scoreB := c_scoreB s + 1\<rparr> else s\<lparr>c_scoreA := c_scoreA s + 1\<rparr>)"
    define q where "q = p\<lparr>c_finished := (c_scoreA p = 7 \<or> c_scoreB p = 7)\<rparr>"
    have 1: "collide_v1 s kind = (if \<not> c_finished q then serve_v1 q else q)"
      using 3 by (simp add: collide_v1_def Let_def p_def q_def)
    have 2: "collide (embed s) kind = (if \<not> c_finished q then serve (embed q) else embed q)"
      using 3 by (simp add: collide_def Let_def p_def q_def embed_def)
    show ?thesis unfolding 1 2 by (simp add: embed_serve)
  qed
qed

lemma advance_loop_embed:
  "advance_loop n (embed s) T = map_sum id (map_prod embed id) (advance_loop_v1 n s T)"
proof (induction n arbitrary: s)
  case 0
  show ?case by (cases "next_v1 s") (simp_all add: embed_next)
next
  case (Suc n)
  show ?case
  proof (cases "c_finished s")
    case False
    show ?thesis
    proof (cases "next_v1 s")
      case (Inr e)
      show ?thesis
      proof (cases "ev_at e > T")
        case True
        with False Inr show ?thesis
          by (cases "move_v1 s T") (simp_all add: embed_next embed_move)
      next
        case le: False
        with False Inr Suc.IH show ?thesis
          by (cases "move_v1 s (ev_at e)") (simp_all add: embed_next embed_move embed_collide)
      qed
    qed (use False in \<open>simp add: embed_next\<close>)
  qed simp
qed

text \<open>C4. The second engine extends the first: on every Classic state it computes, step for
  step and errors included, exactly what the first engine computes.\<close>

theorem advance_v1_refines:
  "advance (embed s) target limit = map_sum id (map_prod embed id) (advance_v1 s target limit)"
  by (simp add: advance_def advance_v1_def advance_loop_embed)

lemma initial_v1_refines: "initial seed 0 = Inr (embed (initial_v1 seed))"
  by (simp add: initial_def initial_v1_def flip: embed_serve) (simp add: embed_def)

text \<open>The first engine is a provider of the same loop contract.\<close>

definition fire_v1 :: "classic \<Rightarrow> classic res" where
  "fire_v1 s = rbind (next_v1 s) (\<lambda>e. rbind (move_v1 s (ev_at e)) (\<lambda>s'. Inr (collide_v1 s' (ev_kind e))))"

definition due_v1 :: "classic \<Rightarrow> int res" where
  "due_v1 s = rbind (next_v1 s) (\<lambda>e. Inr (ev_at e))"

lemma due_v1_embed: "due_at (embed s) = due_v1 s"
  by (simp add: due_at_def due_v1_def embed_next)

lemma fire_v1_embed: "\<not> c_finished s \<Longrightarrow> fire (embed s) = map_sum id embed (fire_v1 s)"
  by (cases "next_v1 s"; cases "move_v1 s (ev_at (projr (next_v1 s)))")
    (simp_all add: fire_def fire_v1_def embed_next embed_move embed_collide)

lemma stopped_embed: "stopped (embed s) = c_finished s"
  by (simp add: stopped_def)

lemma map_sum_eq_Inr: "map_sum id f r = Inr y \<longleftrightarrow> (\<exists>x. r = Inr x \<and> f x = y)"
  by (cases r) auto

interpretation v1: event_loop advance_loop_v1 c_finished due_v1 fire_v1 move_v1 c_t "\<lambda>s. court (embed s)"
proof (unfold_locales, goal_cases)
  case (1 s T)
  then show ?case by (simp add: due_v1_def rbind_def split: sum.split)
next
  case (2 s T n)
  then show ?case by (simp add: due_v1_def fire_v1_def rbind_def split: sum.split)
next
  case (3 s)
  then show ?case using v2.due_ok [of "embed s"] by (simp add: due_v1_embed stopped_embed)
next
  case (4 s a)
  then show ?case using v2.fire_ok [of "embed s" a]
    by (force simp add: due_v1_embed stopped_embed fire_v1_embed map_sum_eq_Inr)
next
  case (5 s a T)
  then show ?case using v2.drift_ok [of "embed s" a T]
    by (force simp add: due_v1_embed stopped_embed embed_move map_sum_eq_Inr)
next
  case (6 s)
  then show ?case
    by (simp add: move_v1_def Let_def court_def in_play_ok_def clamp_id flip: clamp_v1_eq)
qed

end
