(* ===== verification/Physics_Interlude.thy ===== *)
theory Physics_Interlude
  imports Physics_V2
begin

text \<open>
  \<^verbatim>\<open>shared/physics-interlude.ts\<close>: the Classic engine with faster serves and a ball that
  accelerates by a tenth on every paddle hit.  It is written on top of single steps of the
  V2 engine, so its lemmas rest on what one V2 event does (\<^verbatim>\<open>fire_cases\<close>).
\<close>

definition serveSpeed :: "state \<Rightarrow> state" where
  "serveSpeed s = s\<lparr>s_vx := tdiv (s_vx s * 3) 2, s_vy := tdiv (s_vy s * 3) 2\<rparr>"

definition initial_interlude :: "int \<Rightarrow> state res" where
  "initial_interlude seed = map_sum id serveSpeed (initial seed 0)"

definition accelerate :: "state \<Rightarrow> state" where
  "accelerate s = (let speed = tdiv ((if s_vx s < 0 then - s_vx s else s_vx s) * 110) 100 in
     s\<lparr>s_vx := (if s_vx s < 0 then - speed else speed),
       s_vy := (if s_vy s < 0 then - tdiv speed 2 else tdiv speed 2)\<rparr>)"

text \<open>What follows a V2 event \<^verbatim>\<open>e\<close> that took \<^verbatim>\<open>old\<close> to \<^verbatim>\<open>s\<close>.\<close>

definition after_event :: "state \<Rightarrow> game_event \<Rightarrow> state \<Rightarrow> state" where
  "after_event old e s =
    (let s = (if (ev_kind e = 3 \<or> ev_kind e = 4) \<and> s_vx s \<noteq> s_vx old then accelerate s else s)
     in if \<not> s_finished s \<and> s_scoreA s + s_scoreB s \<noteq> s_scoreA old + s_scoreB old
        then serveSpeed s else s)"

fun interlude_loop :: "nat \<Rightarrow> state \<Rightarrow> int \<Rightarrow> (state \<times> bool) res" where
  "interlude_loop 0 s target =
    (if s_finished s then Inr (s, True)
     else if s_t s = target then rbind (next_event s) (\<lambda>e. Inr (s, ev_at e > target))
     else Inr (s, False))"
| "interlude_loop (Suc n) s target =
    (if s_finished s then Inr (s, True)
     else rbind (next_event s) (\<lambda>e.
       if ev_at e > target then advance s target 1
       else rbind (advance s (ev_at e) 1) (\<lambda>r. interlude_loop n (after_event s e (fst r)) target)))"

definition advance_interlude :: "state \<Rightarrow> int \<Rightarrow> nat \<Rightarrow> (state \<times> bool) res" where
  "advance_interlude s target limit =
    (if s_mode s \<noteq> 0 \<or> target < s_t s then Inl ''classic clock'' else interlude_loop limit s target)"

subsection \<open>Single steps of the V2 engine\<close>

lemma advance_fires:
  assumes "court s" and "\<not> stopped s" and "next_event s = Inr e" and "fire s = Inr s'"
  shows "\<exists>b. advance s (ev_at e) 1 = Inr (s', b)"
proof -
  from fire_court [OF assms(1-3)] assms(4) have s': "court s'" "s_t s' = ev_at e" by auto
  from assms(1,2,3) have t: "s_t s \<le> ev_at e"
    by (metis next_event_court Inr_inject)
  have "advance s (ev_at e) 1 = rbind (fire s) (\<lambda>s'. advance_loop 0 s' (ev_at e))"
    using assms(2,3) t by (simp add: advance_def stopped_def fire_def rbind_def split: sum.split)
  also have "\<dots> = advance_loop 0 s' (ev_at e)" by (simp add: assms(4))
  finally show ?thesis using v2.loop_none [OF s'(1), of "ev_at e"] s'(2) by simp
qed

lemma advance_drifts:
  assumes "court s" and "\<not> stopped s" and "next_event s = Inr e" and "s_t s \<le> T" and "T < ev_at e"
  shows "advance s T 1 = rbind (move s T) (\<lambda>s'. Inr (s', True))"
  using assms by (simp add: advance_def stopped_def)

subsection \<open>The boosted ball\<close>

text \<open>A state whose ball, if in play, has at least the boosted serve's speed and the 2:1 slope
  of a served ball.\<close>

definition brisk :: "state \<Rightarrow> bool" where
  "brisk s \<longleftrightarrow> court s
    \<and> (\<not> stopped s \<longrightarrow> 192 * SCALE \<le> \<bar>s_vx s\<bar> \<and> \<bar>s_vy s\<bar> = \<bar>s_vx s\<bar> div 2)"

lemma serveSpeed_simps [simp]:
  "s_t (serveSpeed s) = s_t s" "s_mode (serveSpeed s) = s_mode s"
  "s_finished (serveSpeed s) = s_finished s" "s_awaitingServe (serveSpeed s) = s_awaitingServe s"
  "s_scoreA (serveSpeed s) = s_scoreA s" "s_scoreB (serveSpeed s) = s_scoreB s"
  "s_left (serveSpeed s) = s_left s" "s_right (serveSpeed s) = s_right s"
  "s_halfA (serveSpeed s) = s_halfA s" "s_halfB (serveSpeed s) = s_halfB s" "s_y (serveSpeed s) = s_y s"
  "s_x (serveSpeed s) = s_x s" "s_resumeAt (serveSpeed s) = s_resumeAt s"
  "s_leftDir (serveSpeed s) = s_leftDir s" "s_rightDir (serveSpeed s) = s_rightDir s"
  "s_seed (serveSpeed s) = s_seed s"
  by (simp_all add: serveSpeed_def)

lemma accelerate_simps [simp]:
  "s_t (accelerate s) = s_t s" "s_mode (accelerate s) = s_mode s"
  "s_finished (accelerate s) = s_finished s" "s_awaitingServe (accelerate s) = s_awaitingServe s"
  "s_scoreA (accelerate s) = s_scoreA s" "s_scoreB (accelerate s) = s_scoreB s"
  "s_left (accelerate s) = s_left s" "s_right (accelerate s) = s_right s"
  "s_halfA (accelerate s) = s_halfA s" "s_halfB (accelerate s) = s_halfB s" "s_y (accelerate s) = s_y s"
  "s_leftDir (accelerate s) = s_leftDir s" "s_rightDir (accelerate s) = s_rightDir s"
  by (simp_all add: accelerate_def Let_def)

lemma accelerate_speed:
  "\<bar>s_vx (accelerate s)\<bar> = \<bar>s_vx s\<bar> * 11 div 10" "\<bar>s_vy (accelerate s)\<bar> = \<bar>s_vx (accelerate s)\<bar> div 2"
proof -
  have a: "(if s_vx s < 0 then - s_vx s else s_vx s) = \<bar>s_vx s\<bar>" by simp
  have d: "tdiv (\<bar>s_vx s\<bar> * 110) 100 = \<bar>s_vx s\<bar> * 11 div 10" by (simp add: tdiv_nonneg_eq)
  show x: "\<bar>s_vx (accelerate s)\<bar> = \<bar>s_vx s\<bar> * 11 div 10"
    by (simp add: accelerate_def Let_def a d)
  show "\<bar>s_vy (accelerate s)\<bar> = \<bar>s_vx (accelerate s)\<bar> div 2"
    unfolding x by (simp add: accelerate_def Let_def a d tdiv_nonneg_eq)
qed

lemma accelerate_brisk:
  assumes "court s" and "192 * SCALE \<le> \<bar>s_vx s\<bar>"
  shows "brisk (accelerate s)"
proof -
  have v: "192 * SCALE \<le> \<bar>s_vx (accelerate s)\<bar>"
    using assms(2) by (simp add: accelerate_speed(1) SCALE_def)
  have vy: "0 < \<bar>s_vy (accelerate s)\<bar>" using v unfolding accelerate_speed(2) by (simp add: SCALE_def)
  have sc: "score_ok (accelerate s)" using assms(1) by (simp add: court_def in_play_ok_def score_ok_def)
  have "court (accelerate s)"
    using assms(1) v vy sc by (simp add: court_def in_play_ok_def inside_y_def stopped_def SCALE_def)
  with v accelerate_speed(2) [of s] show ?thesis by (simp add: brisk_def)
qed

lemma serveSpeed_serve:
  "\<bar>s_vx (serveSpeed (serve s))\<bar> = 192 * SCALE" "\<bar>s_vy (serveSpeed (serve s))\<bar> = 96 * SCALE"
  using serve_ball(1,2) [of s] by (auto simp add: serveSpeed_def SCALE_def tdiv_def abs_if split: if_splits)

lemma serveSpeed_brisk:
  assumes "court (serve q)"
  shows "brisk (serveSpeed (serve q))"
proof -
  have sc: "score_ok (serveSpeed (serve q))" using assms by (simp add: court_def in_play_ok_def score_ok_def)
  have v: "2 \<le> \<bar>s_vx (serveSpeed (serve q))\<bar>" "s_vy (serveSpeed (serve q)) \<noteq> 0"
    using serveSpeed_serve [of q] by (auto simp add: SCALE_def)
  have "court (serveSpeed (serve q))"
    using assms v sc by (simp add: court_def in_play_ok_def inside_y_def stopped_def)
  with serveSpeed_serve [of q] show ?thesis by (simp add: brisk_def SCALE_def)
qed

subsection \<open>The engine as an event loop\<close>

definition interlude_inv :: "state \<Rightarrow> bool" where
  "interlude_inv s \<longleftrightarrow> brisk s \<and> s_mode s = 0 \<and> \<not> s_awaitingServe s"

definition interlude_fire :: "state \<Rightarrow> state res" where
  "interlude_fire s = rbind (next_event s) (\<lambda>e. rbind (fire s) (\<lambda>s'. Inr (after_event s e s')))"

lemma move_brisk:
  assumes "brisk s" and "\<not> stopped s" and "next_event s = Inr e" and "s_t s \<le> T" and "T < ev_at e"
  obtains m where "move s T = Inr m" and "brisk m" and "s_t m = T" and "s_mode m = s_mode s"
    and "\<not> stopped m" and "s_scoreA m = s_scoreA s" and "s_scoreB m = s_scoreB s"
proof -
  from assms(1) have c: "court s" by (simp add: brisk_def)
  then have ip: "in_play_ok s" by (simp add: court_def)
  from move_court [OF c assms(2-5)] obtain m where m: "move s T = Inr m" "court m" "s_t m = T" by blast
  from move_in_play [OF ip assms(2,4)] m(1) have v: "s_vx m = s_vx s" "s_vy m = s_vy s" "s_mode m = s_mode s"
    "\<not> stopped m" "s_scoreA m = s_scoreA s" "s_scoreB m = s_scoreB s" by auto
  show ?thesis by (rule that [OF m(1) _ m(3)]) (use assms(1,2) m(2) v in \<open>simp_all add: brisk_def\<close>)
qed

lemma interlude_fire_inv:
  assumes i: "interlude_inv s" and n: "\<not> s_finished s" and e: "next_event s = Inr e"
  shows "\<exists>s'. interlude_fire s = Inr s' \<and> interlude_inv s' \<and> s_t s' = ev_at e"
proof -
  from i n have c: "court s" and st: "\<not> stopped s" and md: "s_mode s = 0"
    and v: "192 * SCALE \<le> \<bar>s_vx s\<bar>" "\<bar>s_vy s\<bar> = \<bar>s_vx s\<bar> div 2"
    by (simp_all add: interlude_inv_def brisk_def stopped_def)
  have fire: "interlude_fire s = Inr (after_event s e s')" if "fire s = Inr s'" for s'
    by (simp add: interlude_fire_def e that)
  from c st e show ?thesis
  proof (cases rule: fire_cases)
    case (wall s')
    then have a: "after_event s e s' = s'" by (auto simp add: after_event_def Let_def)
    show ?thesis
      by (rule exI [of _ s']) (use wall a fire md v in \<open>simp add: interlude_inv_def brisk_def stopped_def\<close>)
  next
    case (paddle s')
    show ?thesis
    proof (cases "s_vx s' = s_vx s")
      case True
      then have a: "after_event s e s' = s'" using paddle by (simp add: after_event_def)
      show ?thesis
        by (rule exI [of _ s']) (use paddle True a fire md v in \<open>simp add: interlude_inv_def brisk_def stopped_def\<close>)
    next
      case False
      then have a: "after_event s e s' = accelerate s'" using paddle by (auto simp add: after_event_def)
      have "brisk (accelerate s')" by (rule accelerate_brisk) (use paddle v False in auto)
      then show ?thesis
        by (intro exI [of _ "accelerate s'"])
          (use paddle a fire md in \<open>simp add: interlude_inv_def stopped_def\<close>)
    qed
  next
    case (goal s')
    show ?thesis
    proof (cases "s_finished s'")
      case True
      then have a: "after_event s e s' = s'" using goal by (auto simp add: after_event_def)
      have "\<not> s_awaitingServe s'" using True goal(2) by (auto simp add: court_def in_play_ok_def)
      then show ?thesis
        by (intro exI [of _ s']) (use goal True a fire md in \<open>simp add: interlude_inv_def brisk_def stopped_def\<close>)
    next
      case False
      with goal md obtain q where q: "s' = serve q" "\<not> stopped s'" by auto
      have a: "after_event s e s' = serveSpeed (serve q)"
        using goal False q by (auto simp add: after_event_def)
      have "brisk (serveSpeed (serve q))" by (rule serveSpeed_brisk) (use goal q in simp)
      then show ?thesis
        by (intro exI [of _ "serveSpeed (serve q)"])
          (use goal a fire md q in \<open>simp add: interlude_inv_def stopped_def\<close>)
    qed
  qed
qed

lemma interlude_loop_Suc:
  assumes i: "interlude_inv s" and t: "s_t s \<le> T"
  shows "interlude_loop (Suc n) s T = (if s_finished s then Inr (s, True)
     else rbind (due_at s) (\<lambda>a. if T < a then rbind (move s T) (\<lambda>s'. Inr (s', True))
                               else rbind (interlude_fire s) (\<lambda>s'. interlude_loop n s' T)))"
proof (cases "s_finished s")
  case False
  with i have c: "court s" and st: "\<not> stopped s" by (simp_all add: interlude_inv_def brisk_def stopped_def)
  from next_event_court [OF c st] obtain e where e: "next_event s = Inr e" by blast
  from fire_court [OF c st e] obtain s' where s': "fire s = Inr s'" by blast
  from advance_fires [OF c st e s'] obtain b where b: "advance s (ev_at e) 1 = Inr (s', b)" by blast
  show ?thesis
    using False advance_drifts [OF c st e t] b s' e
    by (simp add: due_at_def interlude_fire_def)
qed simp

interpretation interlude: event_loop "\<lambda>n s T. interlude_loop n s T" s_finished due_at
  interlude_fire move s_t interlude_inv
proof (unfold_locales, goal_cases)
  case (1 s T)
  show ?case
  proof (cases "s_finished s")
    case False
    with 1 have "court s" "\<not> stopped s" by (simp_all add: interlude_inv_def brisk_def stopped_def)
    then obtain e where "next_event s = Inr e" by (rule next_event_court)
    with False show ?thesis by (simp add: due_at_def)
  qed simp
next
  case (2 s T n)
  then show ?case by (rule interlude_loop_Suc)
next
  case (3 s)
  then show ?case
    by (metis next_event_court due_at_Inr interlude_inv_def brisk_def stopped_def)
next
  case (4 s a)
  then show ?case using interlude_fire_inv by (auto simp add: due_at_Inr)
next
  case (5 s a T)
  then have b: "brisk s" and n: "\<not> stopped s" by (simp_all add: interlude_inv_def stopped_def)
  from 5(3) obtain e where e: "next_event s = Inr e" "ev_at e = a" by (auto simp add: due_at_Inr)
  from 5(5) e(2) have "T < ev_at e" by simp
  from move_brisk [OF b n e(1) 5(4) this] obtain m where "move s T = Inr m" "brisk m" "s_t m = T"
    "s_mode m = s_mode s" "\<not> stopped m" by metis
  with 5(1) show ?case by (simp add: interlude_inv_def stopped_def)
next
  case (6 s)
  then show ?case by (simp add: move_now interlude_inv_def brisk_def)
qed

lemma accelerate_due_now [simp]:
  assumes "192 * SCALE \<le> \<bar>s_vx s\<bar>" and "s_vy s \<noteq> 0"
  shows "due_now (accelerate s) = due_now s"
proof (rule due_now_cong)
  define v where "v = tdiv ((if s_vx s < 0 then - s_vx s else s_vx s) * 110) 100"
  have v: "2 \<le> v" using assms(1) by (auto simp add: v_def SCALE_def tdiv_nonneg_eq abs_if)
  have a: "accelerate s = s\<lparr>s_vx := (if s_vx s < 0 then - v else v),
      s_vy := (if s_vy s < 0 then - tdiv v 2 else tdiv v 2)\<rparr>" by (simp add: accelerate_def v_def Let_def)
  show "s_x (accelerate s) = s_x s" "s_y (accelerate s) = s_y s" by (simp_all add: a)
  show "s_vx (accelerate s) < 0 \<longleftrightarrow> s_vx s < 0" "s_vy (accelerate s) < 0 \<longleftrightarrow> s_vy s < 0"
    using v by (simp_all add: a tdiv_nonneg_eq pos_imp_zdiv_pos_iff)
qed

lemma serveSpeed_due_now: "due_now (serveSpeed (serve q)) = due_now (serve q)"
  by (rule due_now_cong) (simp_all add: serveSpeed_def serve_def Let_def tdiv_def SCALE_def)

lemma due_now_served: "due_now (serveSpeed (serve q)) = 0"
  using served_gap [of q] by (simp add: serveSpeed_due_now) (simp add: due_now_def)

lemma brisk_ball:
  assumes "brisk s" and "\<not> stopped s"
  shows "192 * SCALE \<le> \<bar>s_vx s\<bar>" and "s_vy s \<noteq> 0" and "court s"
  using assms by (auto simp add: brisk_def court_def in_play_ok_def)

interpretation interlude_p: productive_loop "\<lambda>n s T. interlude_loop n s T" s_finished due_at
  interlude_fire move s_t interlude_inv due_now
proof (unfold_locales, goal_cases)
  case (1 s)
  show ?case by (simp add: due_now_def)
next
  case (2 s s')
  then have b: "brisk s" and n: "\<not> stopped s" and md: "s_mode s = 0"
    by (simp_all add: interlude_inv_def stopped_def)
  note ball = brisk_ball [OF b n]
  from 2(3) obtain e where e: "next_event s = Inr e" "ev_at e = s_t s" by (auto simp add: due_at_Inr)
  from fire_court [OF ball(3) n e(1)] obtain k where k: "fire s = Inr k" "court k" by blast
  have s': "s' = after_event s e k" using 2(4) e(1) k(1) by (simp add: interlude_fire_def)
  from interlude_fire_inv [OF 2(1,2) e(1)] 2(4) have i': "interlude_inv s'" by auto
  then have nk: "\<not> stopped k" using 2(5) by (auto simp add: interlude_inv_def s' stopped_def after_event_def Let_def split: if_splits)
  note less = fire_progress [OF ball(3) n e k(1) nk]
  from ball(3) n e(1) show ?case
  proof (cases rule: fire_cases)
    case (wall s2)
    with k(1) have "s' = k" by (auto simp add: s' after_event_def Let_def)
    with less show ?thesis by simp
  next
    case (paddle s2)
    then have "s' = k \<or> s' = accelerate k" using k(1) by (auto simp add: s' after_event_def Let_def)
    moreover have "due_now (accelerate k) = due_now k"
      by (rule accelerate_due_now) (use paddle ball k(1) in auto)
    ultimately show ?thesis using less by auto
  next
    case (goal s2)
    with k(1) md nk obtain q where q: "k = serve q" by (auto simp add: stopped_def)
    have "s' = serveSpeed (serve q)"
      using goal k(1) nk q by (auto simp add: s' after_event_def Let_def stopped_def)
    with less show ?thesis by (simp add: due_now_served)
  qed
qed

subsection \<open>Properties\<close>

lemma initial_interlude_inv:
  assumes "initial_interlude seed = Inr s"
  shows "interlude_inv s" and "s_t s = 0"
proof -
  obtain b where b: "initial seed 0 = Inr b" "court b" "s_t b = 0" "s_mode b = 0" "\<not> stopped b"
    by (rule initial_court [of 0]) auto
  then obtain q where q: "b = serve q" by (auto simp add: initial_def)
  have s: "s = serveSpeed (serve q)" using assms b(1) q by (simp add: initial_interlude_def)
  show "interlude_inv s" using b(2,4,5) serveSpeed_brisk [of q] by (simp add: interlude_inv_def s q stopped_def)
  show "s_t s = 0" using b(3) by (simp add: s q)
qed

text \<open>The accelerated Classic engine, from a state its own serve or an earlier call produced,
  never throws, keeps the ball at least at the boosted serve's speed with the slope of a served
  ball (whatever the number of paddle hits), and with a budget of four events per microsecond
  reaches the target or the end of the match.\<close>

theorem advance_interlude_sound:
  assumes "interlude_inv s" and "s_t s \<le> target"
  shows "\<exists>s' complete. advance_interlude s target limit = Inr (s', complete) \<and> interlude_inv s'
    \<and> s_t s \<le> s_t s' \<and> s_t s' \<le> target \<and> (complete \<longrightarrow> s_finished s' \<or> s_t s' = target)
    \<and> (nat (4 * (target - s_t s)) + 2 < limit \<longrightarrow> complete)"
proof -
  have eq: "advance_interlude s target limit = interlude_loop limit s target"
    using assms by (simp add: advance_interlude_def interlude_inv_def)
  have "due_now s \<le> 2" by (simp add: due_now_def)
  with interlude.loop_sound [OF assms, of limit] interlude_p.loop_completes [OF assms, of limit]
  show ?thesis unfolding eq by fastforce
qed

definition opening_interlude :: state where
  "opening_interlude = serveSpeed kickoff"

lemma opening_interlude_inv: "interlude_inv opening_interlude"
  by (rule initial_interlude_inv [of 5])
    (simp add: initial_interlude_def kickoff_initial opening_interlude_def)

theorem advance_interlude_sound_witness:
  "interlude_inv opening_interlude \<and> s_t opening_interlude \<le> 7000000
   \<and> (\<exists>s' c. advance_interlude opening_interlude 7000000 128 = Inr (s', c) \<and> interlude_inv s')"
proof -
  have t: "s_t opening_interlude \<le> 7000000" by (simp add: opening_interlude_def kickoff_def)
  show ?thesis using advance_interlude_sound [OF opening_interlude_inv t, of 128] opening_interlude_inv t by auto
qed

end
