(* ===== verification/Physics_Rooms_Chaos.thy ===== *)
theory Physics_Rooms_Chaos
  imports Physics_Interlude
begin

text \<open>
  \<^verbatim>\<open>shared/physics-rooms-chaos.ts\<close>: the paused Chaos mode of Rooms.  A point stops the game
  until \<^verbatim>\<open>resume\<close> is called with what was paid on each side.
\<close>

definition initial_rooms :: "int \<Rightarrow> state res" where
  "initial_rooms seed = map_sum id serveSpeed (initial seed 1)"

definition resume_rooms :: "state \<Rightarrow> int \<Rightarrow> int \<Rightarrow> int \<Rightarrow> state res" where
  "resume_rooms s at paidA paidB =
    (if s_mode s \<noteq> 1 \<or> s_finished s then Inl ''chaos state''
     else map_sum id serveSpeed (resume s at paidA paidB))"

definition after_hit :: "state \<Rightarrow> game_event \<Rightarrow> state \<Rightarrow> state" where
  "after_hit old e s =
    (if (ev_kind e = 3 \<or> ev_kind e = 4) \<and> s_vx s \<noteq> s_vx old then accelerate s else s)"

fun rooms_loop :: "nat \<Rightarrow> state \<Rightarrow> int \<Rightarrow> (state \<times> bool) res" where
  "rooms_loop 0 s target =
    (if s_finished s \<or> s_awaitingServe s then Inr (s, True)
     else if s_t s = target then rbind (next_event s) (\<lambda>e. Inr (s, ev_at e > target))
     else Inr (s, False))"
| "rooms_loop (Suc n) s target =
    (if s_finished s \<or> s_awaitingServe s then Inr (s, True)
     else rbind (next_event s) (\<lambda>e.
       if ev_at e > target then advance s target 1
       else rbind (advance s (ev_at e) 1) (\<lambda>r. rooms_loop n (after_hit s e (fst r)) target)))"

definition advance_rooms :: "state \<Rightarrow> int \<Rightarrow> nat \<Rightarrow> (state \<times> bool) res" where
  "advance_rooms s target limit =
    (if s_mode s \<noteq> 1 \<or> target < s_t s then Inl ''chaos clock'' else rooms_loop limit s target)"

subsection \<open>The engine as an event loop\<close>

definition rooms_inv :: "state \<Rightarrow> bool" where
  "rooms_inv s \<longleftrightarrow> brisk s \<and> s_mode s = 1"

definition rooms_fire :: "state \<Rightarrow> state res" where
  "rooms_fire s = rbind (next_event s) (\<lambda>e. rbind (fire s) (\<lambda>s'. Inr (after_hit s e s')))"

text \<open>One event: a rally goes on with the score unchanged, or a point is scored and play stops,
  for good at the seventh point and for three seconds otherwise.\<close>

lemma rooms_fire_cases [consumes 3, case_names rally point]:
  assumes i: "rooms_inv s" and n: "\<not> stopped s" and e: "next_event s = Inr e"
  obtains k where "rooms_fire s = Inr k" and "rooms_inv k" and "s_t k = ev_at e" and "\<not> stopped k"
      and "s_scoreA k = s_scoreA s" and "s_scoreB k = s_scoreB s"
      and "s_halfA k = s_halfA s" and "s_halfB k = s_halfB s"
      and "\<exists>f. fire s = Inr f \<and> \<not> stopped f \<and> due_now k = due_now f"
  | k where "rooms_fire s = Inr k" and "rooms_inv k" and "s_t k = ev_at e" and "stopped k"
      and "s_scoreA k + s_scoreB k = s_scoreA s + s_scoreB s + 1"
      and "s_finished k \<or> s_awaitingServe k \<and> s_resumeAt k = s_t k + 3000000"
      and "fire s = Inr k"
proof -
  from i have b: "brisk s" and md: "s_mode s = 1" by (simp_all add: rooms_inv_def)
  note ball = brisk_ball [OF b n]
  have slope: "\<bar>s_vy s\<bar> = \<bar>s_vx s\<bar> div 2" using b n by (simp add: brisk_def)
  have run: "rooms_fire s = Inr (after_hit s e k)" if "fire s = Inr k" for k
    by (simp add: rooms_fire_def e that)
  from ball(3) n e show ?thesis
  proof (cases rule: fire_cases)
    case (wall k)
    then have a: "after_hit s e k = k" by (auto simp add: after_hit_def)
    have "rooms_inv k" using wall ball(1) slope md by (simp add: rooms_inv_def brisk_def)
    with run [OF wall(1)] wall a show ?thesis by (metis that(1))
  next
    case (paddle k)
    show ?thesis
    proof (cases "s_vx k = s_vx s")
      case True
      then have a: "after_hit s e k = k" by (simp add: after_hit_def)
      have "rooms_inv k" using paddle True ball(1) slope md by (simp add: rooms_inv_def brisk_def)
      with run [OF paddle(1)] paddle a show ?thesis by (metis that(1))
    next
      case False
      then have a: "after_hit s e k = accelerate k" using paddle by (auto simp add: after_hit_def)
      have v: "192 * SCALE \<le> \<bar>s_vx k\<bar>" "s_vy k \<noteq> 0" using paddle ball False by auto
      have "rooms_inv (accelerate k)"
        using accelerate_brisk [OF paddle(2) v(1)] paddle md by (simp add: rooms_inv_def)
      with run [OF paddle(1)] paddle a accelerate_due_now [OF v] show ?thesis
        by (intro that(1) [of "accelerate k"]) (simp_all add: stopped_def)
    qed
  next
    case (goal k)
    then have a: "after_hit s e k = k" by (auto simp add: after_hit_def)
    have st: "s_finished k \<or> s_awaitingServe k \<and> s_resumeAt k = s_t k + 3000000" using goal md by auto
    then have "stopped k" by (auto simp add: stopped_def)
    moreover have "rooms_inv k" using goal md \<open>stopped k\<close> by (simp add: rooms_inv_def brisk_def)
    ultimately show ?thesis using run [OF goal(1)] goal a st that(2) by simp
  qed
qed

lemma rooms_loop_Suc:
  assumes i: "rooms_inv s" and t: "s_t s \<le> T"
  shows "rooms_loop (Suc n) s T = (if stopped s then Inr (s, True)
     else rbind (due_at s) (\<lambda>a. if T < a then rbind (move s T) (\<lambda>s'. Inr (s', True))
                               else rbind (rooms_fire s) (\<lambda>s'. rooms_loop n s' T)))"
proof (cases "stopped s")
  case False
  with i have c: "court s" by (simp add: rooms_inv_def brisk_def)
  from next_event_court [OF c False] obtain e where e: "next_event s = Inr e" by blast
  from fire_court [OF c False e] obtain s' where s': "fire s = Inr s'" by blast
  from advance_fires [OF c False e s'] obtain b where b: "advance s (ev_at e) 1 = Inr (s', b)" by blast
  show ?thesis
    using False advance_drifts [OF c False e t] b s' e
    by (simp add: due_at_def rooms_fire_def stopped_def)
qed (auto simp add: stopped_def)

interpretation rooms: productive_loop "\<lambda>n s T. rooms_loop n s T" stopped due_at
  rooms_fire move s_t rooms_inv due_now
proof (unfold_locales, goal_cases)
  case (1 s T)
  show ?case
  proof (cases "stopped s")
    case False
    with 1 have "court s" by (simp add: rooms_inv_def brisk_def)
    then obtain e where "next_event s = Inr e" using False by (rule next_event_court)
    with False show ?thesis by (simp add: due_at_def stopped_def)
  qed (auto simp add: stopped_def)
next
  case (2 s T n)
  then show ?case by (rule rooms_loop_Suc)
next
  case (3 s)
  then show ?case by (metis next_event_court due_at_Inr rooms_inv_def brisk_def)
next
  case (4 s a)
  then obtain e where e: "next_event s = Inr e" "ev_at e = a" by (auto simp add: due_at_Inr)
  from 4(1,2) e(1) show ?case by (cases rule: rooms_fire_cases) (use e(2) in auto)
next
  case (5 s a T)
  then have b: "brisk s" by (simp add: rooms_inv_def)
  from 5(3) obtain e where e: "next_event s = Inr e" "ev_at e = a" by (auto simp add: due_at_Inr)
  from 5(5) e(2) have "T < ev_at e" by simp
  from move_brisk [OF b 5(2) e(1) 5(4) this] obtain m where "move s T = Inr m" "brisk m" "s_t m = T"
    "s_mode m = s_mode s" by metis
  with 5(1) show ?case by (simp add: rooms_inv_def)
next
  case (6 s)
  then show ?case by (simp add: move_now rooms_inv_def brisk_def)
next
  case (7 s)
  show ?case by (simp add: due_now_def)
next
  case (8 s s')
  then have c: "court s" by (simp add: rooms_inv_def brisk_def)
  from 8(3) obtain e where e: "next_event s = Inr e" "ev_at e = s_t s" by (auto simp add: due_at_Inr)
  from 8(1,2) e(1) show ?case
  proof (cases rule: rooms_fire_cases)
    case (rally k)
    with fire_progress [OF c 8(2) e] 8(4) show ?thesis by auto
  next
    case (point k)
    with 8(4,5) show ?thesis by simp
  qed
qed

subsection \<open>Properties\<close>

text \<open>The state a scored point leaves behind.\<close>

definition paused :: "state \<Rightarrow> bool" where
  "paused s \<longleftrightarrow> s_finished s \<or> s_awaitingServe s \<and> s_resumeAt s = s_t s + 3000000"

lemma rooms_loop_point:
  assumes "rooms_inv s" and "s_t s \<le> T" and "\<not> stopped s" and "rooms_loop n s T = Inr (s', b)"
  shows "s_scoreA s' = s_scoreA s \<and> s_scoreB s' = s_scoreB s \<and> \<not> stopped s'
    \<or> s_scoreA s' + s_scoreB s' = s_scoreA s + s_scoreB s + 1 \<and> paused s'"
  using assms
proof (induction n arbitrary: s)
  case 0
  from 0(1,2) show ?case by (cases rule: rooms.loop_cases) (use 0(3,4) in simp_all)
next
  case (Suc n)
  from Suc.prems(1,2) show ?case
  proof (cases rule: rooms.loop_cases)
    case stopped
    with Suc.prems(3) show ?thesis by simp
  next
    case (drifted a m)
    then obtain e where e: "next_event s = Inr e" "ev_at e = a" by (auto simp add: due_at_Inr)
    have b: "brisk s" using Suc.prems(1) by (simp add: rooms_inv_def)
    have "T < ev_at e" using drifted e by simp
    from move_brisk [OF b Suc.prems(3) e(1) Suc.prems(2) this] drifted(4)
    have "\<not> stopped m" "s_scoreA m = s_scoreA s" "s_scoreB m = s_scoreB s" by auto
    moreover have "s' = m" using drifted(7) Suc.prems(4) by simp
    ultimately show ?thesis by simp
  next
    case (fired a k)
    then obtain e where e: "next_event s = Inr e" "ev_at e = a" by (auto simp add: due_at_Inr)
    from Suc.prems(1,3) e(1) show ?thesis
    proof (cases rule: rooms_fire_cases)
      case (rally q)
      with fired(4) have q: "q = k" by simp
      from Suc.IH [OF fired(5,7)] rally(4) Suc.prems(4) fired(8) have
        "s_scoreA s' = s_scoreA k \<and> s_scoreB s' = s_scoreB k \<and> \<not> stopped s'
         \<or> s_scoreA s' + s_scoreB s' = s_scoreA k + s_scoreB k + 1 \<and> paused s'" by (simp add: q)
      with rally(5,6) show ?thesis by (simp add: q)
    next
      case (point q)
      with fired(4) have q: "q = k" by simp
      have "rooms_loop n k T = Inr (k, True)"
        using fired(5,7) by (cases rule: rooms.loop_cases) (use point(4) q in auto)
      with fired(8) Suc.prems(4) have "s' = k" by simp
      with point(5,6) show ?thesis by (auto simp add: q paused_def)
    qed
  qed
qed

text \<open>C5. One call of the paused Chaos engine never throws and scores at most one point: either
  the rally is still running with the score unchanged, or exactly one point was added and the
  match is over or frozen until exactly three seconds after the point.\<close>

theorem advance_rooms_one_point:
  assumes "rooms_inv s" and "\<not> stopped s" and "s_t s \<le> target"
  shows "\<exists>s' complete. advance_rooms s target limit = Inr (s', complete) \<and> rooms_inv s'
    \<and> s_t s \<le> s_t s' \<and> s_t s' \<le> target
    \<and> (complete \<longrightarrow> stopped s' \<or> s_t s' = target)
    \<and> (nat (4 * (target - s_t s)) + 2 < limit \<longrightarrow> complete)
    \<and> (s_scoreA s' = s_scoreA s \<and> s_scoreB s' = s_scoreB s \<and> \<not> stopped s'
       \<or> s_scoreA s' + s_scoreB s' = s_scoreA s + s_scoreB s + 1 \<and> paused s')"
proof -
  have eq: "advance_rooms s target limit = rooms_loop limit s target"
    using assms by (simp add: advance_rooms_def rooms_inv_def)
  have d: "due_now s \<le> 2" by (simp add: due_now_def)
  from rooms.loop_sound [OF assms(1,3), of limit] obtain s' b where
    r: "rooms_loop limit s target = Inr (s', b)" "rooms_inv s'" "s_t s \<le> s_t s'" "s_t s' \<le> target"
      "b \<longrightarrow> stopped s' \<or> s_t s' = target" by blast
  have "nat (4 * (target - s_t s)) + 2 < limit \<longrightarrow> b"
    using rooms.loop_completes [OF assms(1,3), of limit] d r(1) by auto
  with r rooms_loop_point [OF assms(1,3,2) r(1)] show ?thesis unfolding eq by blast
qed

definition opening_rooms :: state where
  "opening_rooms = serveSpeed (kickoff\<lparr>s_mode := 1\<rparr>)"

lemma opening_rooms_initial: "initial_rooms 5 = Inr opening_rooms"
  by code_simp

lemma opening_rooms_inv: "rooms_inv opening_rooms" "\<not> stopped opening_rooms"
  by (simp_all add: rooms_inv_def brisk_def opening_rooms_def kickoff_def serveSpeed_def tdiv_def
    court_defs court_consts)

theorem advance_rooms_one_point_witness:
  "rooms_inv opening_rooms \<and> \<not> stopped opening_rooms \<and> s_t opening_rooms \<le> 9000000
   \<and> (\<exists>s' c. advance_rooms opening_rooms 9000000 128 = Inr (s', c) \<and> rooms_inv s'
      \<and> (s_scoreA s' + s_scoreB s' = 1 \<and> paused s' \<or> \<not> stopped s'))"
proof -
  have t: "s_t opening_rooms \<le> 9000000" "s_scoreA opening_rooms = 0" "s_scoreB opening_rooms = 0"
    by (simp_all add: opening_rooms_def kickoff_def)
  show ?thesis
    using advance_rooms_one_point [OF opening_rooms_inv t(1), of 128] opening_rooms_inv t by auto
qed

lemma resume_court:
  assumes "court s" and "s_awaitingServe s" and "s_resumeAt s \<le> at" and "0 \<le> paidA" and "0 \<le> paidB"
  obtains q where "resume s at paidA paidB = Inr (serve q)" and "court (serve q)"
    and "s_t q = at" and "s_mode q = s_mode s" and "\<not> stopped (serve q)"
    and "s_scoreA q = s_scoreA s" and "s_scoreB q = s_scoreB s"
    and "handicap paidA paidB = Inr (s_halfA q, s_halfB q)"
proof -
  from handicap_range [OF assms(4,5)] obtain a b where h: "handicap paidA paidB = Inr (a, b)"
    "36 * SCALE \<le> a" "a \<le> HALF_PADDLE" "36 * SCALE \<le> b" "b \<le> HALF_PADDLE" by blast
  define q where "q = s\<lparr>s_halfA := a, s_halfB := b, s_awaitingServe := False, s_resumeAt := 0,
    s_t := at, s_left := tdiv HEIGHT 2, s_right := tdiv HEIGHT 2\<rparr>"
  have fin: "\<not> s_finished s" using assms(1,2) by (auto simp add: court_def in_play_ok_def)
  have "resume s at paidA paidB = Inr (serve q)"
    using assms(2,3) h(1) by (simp add: resume_def q_def)
  moreover have "court (serve q)"
  proof (rule serve_court)
    show "paddle_ok (s_halfA q) (s_left q)" "paddle_ok (s_halfB q) (s_right q)"
      using h by (simp_all add: q_def paddle_ok_def court_consts tdiv_def)
    show "score_ok q" using assms(1) by (simp add: q_def court_def in_play_ok_def score_ok_def)
    show "\<not> stopped q" using fin by (simp add: q_def stopped_def)
  qed
  ultimately show ?thesis
    by (rule that) (use fin h(1) in \<open>simp_all add: q_def stopped_def\<close>)
qed

text \<open>A paused match resumes exactly when it may: before its resume time the call is
  refused, from then on it restarts in play at the given time with the score kept, a boosted
  serve, and the paddle halves that the bets on the two sides give.\<close>

theorem resume_rooms_restarts:
  assumes "rooms_inv s" and "s_awaitingServe s" and "0 \<le> paidA" and "0 \<le> paidB"
  shows "if at < s_resumeAt s then resume_rooms s at paidA paidB = Inl ''serve not ready''
    else \<exists>s'. resume_rooms s at paidA paidB = Inr s' \<and> rooms_inv s'
      \<and> \<not> stopped s' \<and> s_t s' = at \<and> s_scoreA s' = s_scoreA s \<and> s_scoreB s' = s_scoreB s
      \<and> \<bar>s_vx s'\<bar> = 192 * SCALE \<and> handicap paidA paidB = Inr (s_halfA s', s_halfB s')"
proof -
  from assms(1) have c: "court s" and md: "s_mode s = 1" by (simp_all add: rooms_inv_def brisk_def)
  have fin: "\<not> s_finished s" using c assms(2) by (auto simp add: court_def in_play_ok_def)
  show ?thesis
  proof (cases "at < s_resumeAt s")
    case True
    then show ?thesis using md fin by (simp add: resume_rooms_def resume_def)
  next
    case False
    then have "s_resumeAt s \<le> at" by simp
    from resume_court [OF c assms(2) this assms(3,4)] obtain q where
      q: "resume s at paidA paidB = Inr (serve q)" "court (serve q)" "s_t q = at" "s_mode q = s_mode s"
        "\<not> stopped (serve q)" "s_scoreA q = s_scoreA s" "s_scoreB q = s_scoreB s"
        "handicap paidA paidB = Inr (s_halfA q, s_halfB q)" by metis
    have "resume_rooms s at paidA paidB = Inr (serveSpeed (serve q))"
      using md fin q(1) by (simp add: resume_rooms_def)
    with q serveSpeed_brisk [OF q(2)] serveSpeed_serve(1) [of q] md False show ?thesis
      by (simp add: rooms_inv_def stopped_def)
  qed
qed

definition frozen_rooms :: state where
  "frozen_rooms = kickoff\<lparr>s_mode := 1, s_t := 4000000, s_scoreA := 1, s_vx := 0, s_vy := 0,
     s_awaitingServe := True, s_resumeAt := 7000000\<rparr>"

theorem resume_rooms_restarts_witness:
  "rooms_inv frozen_rooms \<and> s_awaitingServe frozen_rooms
   \<and> resume_rooms frozen_rooms 6999999 0 0 = Inl ''serve not ready''
   \<and> (\<exists>s'. resume_rooms frozen_rooms 7000000 0 0 = Inr s' \<and> rooms_inv s' \<and> s_scoreA s' = 1)"
proof -
  have i: "rooms_inv frozen_rooms" "s_awaitingServe frozen_rooms" "s_resumeAt frozen_rooms = 7000000"
    "s_scoreA frozen_rooms = 1"
    by (simp_all add: rooms_inv_def brisk_def frozen_rooms_def kickoff_def court_defs court_consts)
  show ?thesis
    using resume_rooms_restarts [OF i(1,2), of 0 0 6999999]
      resume_rooms_restarts [OF i(1,2), of 0 0 7000000] i by auto
qed

end
