(* ===== verification/Physics_Realtime.thy ===== *)
theory Physics_Realtime
  imports Physics_Rooms_Chaos
begin

text \<open>
  \<^verbatim>\<open>shared/physics-realtime-chaos.ts\<close>: the Chaos mode that never pauses.  At a point the
  pressure paid so far sets the paddle halves and the next ball is served at once; the third
  component of the result is the number of points after which pressure was last applied.
\<close>

definition apply_pressure :: "state \<Rightarrow> int \<Rightarrow> int \<Rightarrow> state res" where
  "apply_pressure s paidA paidB = rbind (handicap paidA paidB) (\<lambda>(halfA, halfB).
     Inr (serveSpeed (serve (s\<lparr>s_awaitingServe := False, s_resumeAt := 0, s_halfA := halfA,
       s_halfB := halfB, s_left := clamp (s_left s) halfA, s_right := clamp (s_right s) halfB\<rparr>))))"

definition settle_point :: "int \<Rightarrow> int \<Rightarrow> state \<Rightarrow> int \<Rightarrow> (state \<times> int) res" where
  "settle_point paidA paidB s applied =
    (if s_awaitingServe s
     then rbind (apply_pressure s paidA paidB) (\<lambda>s'. Inr (s', s_scoreA s' + s_scoreB s'))
     else Inr (s, applied))"

fun realtime_loop :: "int \<Rightarrow> int \<Rightarrow> nat \<Rightarrow> state \<times> int \<Rightarrow> int \<Rightarrow> ((state \<times> int) \<times> bool) res" where
  "realtime_loop paidA paidB 0 (s, applied) target =
    (if s_finished s then Inr ((s, applied), True)
     else if s_t s = target then rbind (next_event s) (\<lambda>e. Inr ((s, applied), ev_at e > target))
     else Inr ((s, applied), False))"
| "realtime_loop paidA paidB (Suc n) (s, applied) target =
    (if s_finished s then Inr ((s, applied), True)
     else rbind (next_event s) (\<lambda>e.
       if ev_at e > target then rbind (move s target) (\<lambda>s'. Inr ((s', applied), True))
       else rbind (advance s (ev_at e) 1) (\<lambda>r.
            rbind (settle_point paidA paidB (after_hit s e (fst r)) applied) (\<lambda>q.
              realtime_loop paidA paidB n q target))))"

definition advance_realtime ::
    "state \<Rightarrow> int \<Rightarrow> nat \<Rightarrow> int \<Rightarrow> int \<Rightarrow> (state \<times> bool \<times> int) res" where
  "advance_realtime s target limit paidA paidB =
    (if s_mode s \<noteq> 1 \<or> s_awaitingServe s \<or> target < s_t s then Inl ''realtime clock''
     else rbind (realtime_loop paidA paidB limit (s, 0) target)
       (\<lambda>((s', applied), flag). Inr (s', flag, applied)))"

subsection \<open>The engine as an event loop\<close>

definition realtime_inv :: "state \<times> int \<Rightarrow> bool" where
  "realtime_inv q \<longleftrightarrow> rooms_inv (fst q) \<and> \<not> s_awaitingServe (fst q)"

definition realtime_fire :: "int \<Rightarrow> int \<Rightarrow> state \<times> int \<Rightarrow> (state \<times> int) res" where
  "realtime_fire paidA paidB q =
    rbind (rooms_fire (fst q)) (\<lambda>k. settle_point paidA paidB k (snd q))"

definition realtime_move :: "state \<times> int \<Rightarrow> int \<Rightarrow> (state \<times> int) res" where
  "realtime_move q T = rbind (move (fst q) T) (\<lambda>s'. Inr (s', snd q))"

text \<open>Serving after a point with the pressure of non-negative bets.\<close>

lemma settle_point_served:
  assumes "rooms_inv k" and "s_awaitingServe k" and "0 \<le> paidA" and "0 \<le> paidB"
  obtains r where "\<And>n. settle_point paidA paidB k n = Inr (r, s_scoreA k + s_scoreB k)"
    and "rooms_inv r" and "s_t r = s_t k" and "\<not> stopped r" and "due_now r = 0"
    and "s_scoreA r = s_scoreA k" and "s_scoreB r = s_scoreB k"
    and "handicap paidA paidB = Inr (s_halfA r, s_halfB r)"
proof -
  from handicap_range [OF assms(3,4)] obtain a b where h: "handicap paidA paidB = Inr (a, b)"
    "36 * SCALE \<le> a" "a \<le> HALF_PADDLE" "36 * SCALE \<le> b" "b \<le> HALF_PADDLE" by blast
  define q where "q = k\<lparr>s_awaitingServe := False, s_resumeAt := 0, s_halfA := a, s_halfB := b,
    s_left := clamp (s_left k) a, s_right := clamp (s_right k) b\<rparr>"
  from assms(1) have c: "court k" and md: "s_mode k = 1" by (simp_all add: rooms_inv_def brisk_def)
  have fin: "\<not> s_finished k" using c assms(2) by (auto simp add: court_def in_play_ok_def)
  have cq: "court (serve q)"
  proof (rule serve_court)
    show "paddle_ok (s_halfA q) (s_left q)" "paddle_ok (s_halfB q) (s_right q)"
      using h(2-5) by (auto simp add: q_def SCALE_def intro!: clamp_paddle_ok)
    show "score_ok q" using c by (simp add: q_def court_def in_play_ok_def score_ok_def)
    show "\<not> stopped q" using fin by (simp add: q_def stopped_def)
  qed
  have run: "settle_point paidA paidB k n = Inr (serveSpeed (serve q), s_scoreA k + s_scoreB k)" for n
    using assms(2) h(1) by (simp add: settle_point_def apply_pressure_def q_def)
  have "rooms_inv (serveSpeed (serve q))"
    using serveSpeed_brisk [OF cq] md by (simp add: rooms_inv_def q_def)
  then show ?thesis
    by (rule that [OF run]) (use fin h(1) due_now_served in \<open>simp_all add: q_def stopped_def\<close>)
qed

lemma realtime_fire_cases [consumes 5, case_names rally point]:
  assumes i: "realtime_inv (s, n)" and f: "\<not> s_finished s" and e: "next_event s = Inr e"
    and p: "0 \<le> paidA" "0 \<le> paidB"
  obtains k where "realtime_fire paidA paidB (s, n) = Inr (k, n)" and "rooms_fire s = Inr k"
      and "rooms_inv k" and "s_t k = ev_at e" and "\<not> stopped k"
      and "s_scoreA k = s_scoreA s" and "s_scoreB k = s_scoreB s"
      and "s_halfA k = s_halfA s" and "s_halfB k = s_halfB s"
      and "\<exists>f. fire s = Inr f \<and> \<not> stopped f \<and> due_now k = due_now f"
  | k m where "realtime_fire paidA paidB (s, n) = Inr (k, m)" and "rooms_inv k"
      and "s_t k = ev_at e" and "\<not> s_awaitingServe k"
      and "s_scoreA k + s_scoreB k = s_scoreA s + s_scoreB s + 1"
      and "s_finished k \<and> m = n \<and> s_halfA k = s_halfA s \<and> s_halfB k = s_halfB s
        \<or> \<not> s_finished k \<and> m = s_scoreA k + s_scoreB k \<and> due_now k = 0
          \<and> handicap paidA paidB = Inr (s_halfA k, s_halfB k)"
proof -
  from i f have ri: "rooms_inv s" and n: "\<not> stopped s" by (simp_all add: realtime_inv_def stopped_def)
  from ri n e show ?thesis
  proof (cases rule: rooms_fire_cases)
    case (rally k)
    then have "realtime_fire paidA paidB (s, n) = Inr (k, n)"
      by (simp add: realtime_fire_def settle_point_def stopped_def)
    with rally show ?thesis by (intro that(1)) auto
  next
    case (point k)
    have c: "court k" using point(2) by (simp add: rooms_inv_def brisk_def)
    show ?thesis
    proof (cases "s_finished k")
      case True
      then have aw: "\<not> s_awaitingServe k" using c by (auto simp add: court_def in_play_ok_def)
      then have run: "realtime_fire paidA paidB (s, n) = Inr (k, n)"
        by (simp add: realtime_fire_def settle_point_def point(1))
      from c have cs: "court s" using ri by (simp add: rooms_inv_def brisk_def)
      have halves: "s_halfA k = s_halfA s \<and> s_halfB k = s_halfB s"
        using cs n e by (cases rule: fire_cases) (use point(7) in auto)
      show ?thesis by (rule that(2) [OF run point(2,3) aw point(5)]) (use True halves in simp)
    next
      case False
      with point(6) have aw: "s_awaitingServe k" by simp
      obtain r where
        r: "settle_point paidA paidB k n = Inr (r, s_scoreA k + s_scoreB k)" "rooms_inv r"
          "s_t r = s_t k" "\<not> stopped r" "due_now r = 0" "s_scoreA r = s_scoreA k"
          "s_scoreB r = s_scoreB k" "handicap paidA paidB = Inr (s_halfA r, s_halfB r)"
        by (rule settle_point_served [OF point(2) aw p]) auto
      have run: "realtime_fire paidA paidB (s, n) = Inr (r, s_scoreA k + s_scoreB k)"
        by (simp add: realtime_fire_def point(1) r(1))
      show ?thesis
        by (rule that(2) [OF run r(2)]) (use r point(3,5) in \<open>simp_all add: stopped_def\<close>)
    qed
  qed
qed

lemma realtime_loop_Suc:
  assumes i: "realtime_inv q" and t: "s_t (fst q) \<le> T"
  shows "realtime_loop paidA paidB (Suc n) q T = (if s_finished (fst q) then Inr (q, True)
     else rbind (due_at (fst q)) (\<lambda>a.
       if T < a then rbind (realtime_move q T) (\<lambda>q'. Inr (q', True))
       else rbind (realtime_fire paidA paidB q) (\<lambda>q'. realtime_loop paidA paidB n q' T)))"
proof (cases "s_finished (fst q)")
  case False
  obtain s m where q: "q = (s, m)" by (cases q)
  from i False have c: "court s" and n: "\<not> stopped s"
    by (simp_all add: q realtime_inv_def rooms_inv_def brisk_def stopped_def)
  from next_event_court [OF c n] obtain e where e: "next_event s = Inr e" by blast
  from fire_court [OF c n e] obtain s' where s': "fire s = Inr s'" by blast
  from advance_fires [OF c n e s'] obtain b where b: "advance s (ev_at e) 1 = Inr (s', b)" by blast
  have rf: "rooms_fire s = Inr (after_hit s e s')" by (simp add: rooms_fire_def e s')
  show ?thesis
    using False b e rf
    by (simp add: q due_at_def realtime_fire_def realtime_move_def rbind_def split: sum.split)
next
  case True
  then show ?thesis by (cases q) simp
qed

lemma realtime_productive:
  assumes p: "0 \<le> paidA" "0 \<le> paidB"
  shows "productive_loop (\<lambda>n q T. realtime_loop paidA paidB n q T) (\<lambda>q. s_finished (fst q))
    (\<lambda>q. due_at (fst q)) (realtime_fire paidA paidB) realtime_move (\<lambda>q. s_t (fst q)) realtime_inv
    (\<lambda>q. due_now (fst q))"
proof (unfold_locales, goal_cases)
  case (1 q T)
  obtain s m where q: "q = (s, m)" by (cases q)
  show ?case
  proof (cases "s_finished s")
    case False
    with 1 have "court s" "\<not> stopped s" by (simp_all add: q realtime_inv_def rooms_inv_def brisk_def stopped_def)
    then obtain e where "next_event s = Inr e" by (rule next_event_court)
    with False show ?thesis by (simp add: q due_at_def)
  qed (simp add: q)
next
  case (2 q T n)
  then show ?case by (rule realtime_loop_Suc)
next
  case (3 q)
  then have "court (fst q)" "\<not> stopped (fst q)"
    by (simp_all add: realtime_inv_def rooms_inv_def brisk_def stopped_def)
  then show ?case by (metis next_event_court due_at_Inr)
next
  case (4 q a)
  obtain s m where q: "q = (s, m)" by (cases q)
  from 4(3) obtain e where e: "next_event s = Inr e" "ev_at e = a" by (auto simp add: q due_at_Inr)
  from 4(1,2) e(1) p show ?case unfolding q fst_conv
    by (cases rule: realtime_fire_cases) (use e(2) in \<open>auto simp add: realtime_inv_def stopped_def\<close>)
next
  case (5 q a T)
  obtain s m where q: "q = (s, m)" by (cases q)
  from 5 have b: "brisk s" and n: "\<not> stopped s" and md: "s_mode s = 1"
    by (simp_all add: q realtime_inv_def rooms_inv_def stopped_def)
  from 5(3) obtain e where e: "next_event s = Inr e" "ev_at e = a" by (auto simp add: q due_at_Inr)
  have t: "s_t s \<le> T" "T < ev_at e" using 5(4,5) e(2) by (simp_all add: q)
  from move_brisk [OF b n e(1) t] obtain k where "move s T = Inr k" "brisk k" "s_t k = T"
    "s_mode k = s_mode s" "\<not> stopped k" by metis
  with md show ?case by (simp add: q realtime_move_def realtime_inv_def rooms_inv_def stopped_def)
next
  case (6 q)
  then show ?case
    by (simp add: move_now realtime_move_def realtime_inv_def rooms_inv_def brisk_def)
next
  case (7 q)
  show ?case by (simp add: due_now_def)
next
  case (8 q q')
  obtain s m where q: "q = (s, m)" by (cases q)
  from 8 have c: "court s" and n: "\<not> stopped s"
    by (simp_all add: q realtime_inv_def rooms_inv_def brisk_def stopped_def)
  from 8(3) obtain e where e: "next_event s = Inr e" "ev_at e = s_t s" by (auto simp add: q due_at_Inr)
  have i: "realtime_inv (s, m)" "\<not> s_finished s" using 8(1,2) by (simp_all add: q)
  from i e(1) p show ?case
  proof (cases rule: realtime_fire_cases)
    case (rally k)
    with fire_progress [OF c n e] 8(4) show ?thesis by (auto simp add: q)
  next
    case (point k j)
    then have q': "q' = (k, j)" using 8(4) by (simp add: q)
    from 8(5) point(6) have k: "due_now k = 0" by (auto simp add: q')
    from c n e(1) have "0 < due_now s"
      using next_event_now [OF _ n e] by (auto simp add: court_def due_now_def)
    with k show ?thesis by (simp add: q q')
  qed
qed

subsection \<open>Properties\<close>

text \<open>The realtime Chaos engine, for any non-negative bets, never throws and never pauses: the
  result is a well-formed state in play or a finished match, the clock stays between the old
  one and the target, and a budget of four events per microsecond completes.\<close>

theorem advance_realtime_sound:
  assumes "rooms_inv s" and "\<not> s_awaitingServe s" and "s_t s \<le> target"
    and "0 \<le> paidA" and "0 \<le> paidB"
  shows "\<exists>s' complete applied. advance_realtime s target limit paidA paidB = Inr (s', complete, applied)
    \<and> rooms_inv s' \<and> \<not> s_awaitingServe s' \<and> s_t s \<le> s_t s' \<and> s_t s' \<le> target
    \<and> (complete \<longrightarrow> s_finished s' \<or> s_t s' = target)
    \<and> (nat (4 * (target - s_t s)) + 2 < limit \<longrightarrow> complete)"
proof -
  have i: "realtime_inv (s, 0)" using assms by (simp add: realtime_inv_def)
  have t: "s_t (fst (s, 0::int)) \<le> target" using assms by simp
  note pl = realtime_productive [OF assms(4,5)]
  have eq: "advance_realtime s target limit paidA paidB =
      rbind (realtime_loop paidA paidB limit (s, 0) target) (\<lambda>((s', applied), flag). Inr (s', flag, applied))"
    using assms by (simp add: advance_realtime_def rooms_inv_def)
  from event_loop.loop_sound [OF productive_loop.axioms(1) [OF pl] i t, of limit] obtain q b where
    q: "realtime_loop paidA paidB limit (s, 0) target = Inr (q, b)" "realtime_inv q" "s_t s \<le> s_t (fst q)"
      "s_t (fst q) \<le> target" "b \<longrightarrow> s_finished (fst q) \<or> s_t (fst q) = target" by auto
  have "due_now s \<le> 2" by (simp add: due_now_def)
  then have "nat (4 * (target - s_t s)) + 2 < limit \<longrightarrow> b"
    using productive_loop.loop_completes [OF pl i t, of limit] q(1) by auto
  with q show ?thesis unfolding eq by (cases q) (simp add: realtime_inv_def)
qed

theorem advance_realtime_sound_witness:
  "rooms_inv opening_rooms \<and> \<not> s_awaitingServe opening_rooms \<and> s_t opening_rooms \<le> 9000000
   \<and> (\<exists>s' c a. advance_realtime opening_rooms 9000000 128 3 5 = Inr (s', c, a) \<and> rooms_inv s')"
proof -
  have t: "s_t opening_rooms \<le> 9000000" "\<not> s_awaitingServe opening_rooms"
    using opening_rooms_inv(2) by (simp_all add: opening_rooms_def kickoff_def stopped_def)
  show ?thesis
    using advance_realtime_sound [OF opening_rooms_inv(1) t(2,1), of 3 5 128] opening_rooms_inv t by auto
qed

lemma realtime_loop_pressure:
  assumes "realtime_inv (s, m)" and "s_t s \<le> T" and "0 \<le> pA" and "0 \<le> pB" and "0 \<le> qA" and "0 \<le> qB"
    and "realtime_loop pA pB n (s, m) T = Inr ((s', m'), b)"
  shows "s_scoreA s + s_scoreB s \<le> s_scoreA s' + s_scoreB s'
    \<and> (s_scoreA s' + s_scoreB s' = s_scoreA s + s_scoreB s \<longrightarrow>
        m' = m \<and> s_halfA s' = s_halfA s \<and> s_halfB s' = s_halfB s
        \<and> realtime_loop qA qB n (s, m) T = Inr ((s', m'), b))
    \<and> (s_scoreA s' + s_scoreB s' \<noteq> s_scoreA s + s_scoreB s \<and> \<not> s_finished s' \<longrightarrow>
        m' = s_scoreA s' + s_scoreB s' \<and> handicap pA pB = Inr (s_halfA s', s_halfB s'))"
  using assms(1,2,7)
proof (induction n arbitrary: s m)
  case 0
  have "s' = s \<and> m' = m" using 0(3) by (auto simp add: res_simps split: if_splits)
  with 0(3) show ?case by simp
next
  case (Suc n)
  show ?case
  proof (cases "s_finished s")
    case True
    with Suc.prems(3) show ?thesis by auto
  next
    case False
    with Suc.prems(1) have ri: "rooms_inv s" and c: "court s" and st: "\<not> stopped s" and br: "brisk s"
      by (simp_all add: realtime_inv_def rooms_inv_def brisk_def stopped_def)
    from next_event_court [OF c st] obtain e where e: "next_event s = Inr e" by blast
    have t: "s_t (fst (s, m)) \<le> T" using Suc.prems(2) by simp
    note step = realtime_loop_Suc [OF Suc.prems(1) t, of pA pB n] realtime_loop_Suc [OF Suc.prems(1) t, of qA qB n]
    show ?thesis
    proof (cases "T < ev_at e")
      case True
      from move_brisk [OF br st e Suc.prems(2) True] obtain k where k: "move s T = Inr k"
        "s_scoreA k = s_scoreA s" "s_scoreB k = s_scoreB s" by metis
      from move_in_play [of s T] k(1) c st Suc.prems(2) have h: "s_halfA k = s_halfA s" "s_halfB k = s_halfB s"
        by (auto simp add: court_def)
      have both: "realtime_loop pA pB (Suc n) (s, m) T = Inr ((k, m), True)"
        "realtime_loop qA qB (Suc n) (s, m) T = Inr ((k, m), True)"
        unfolding step using False True k(1) e by (simp_all add: due_at_def realtime_move_def)
      with Suc.prems(3) have "s' = k" "m' = m" by simp_all
      with both k h Suc.prems(3) show ?thesis by simp
    next
      case late: False
      from Suc.prems(1) False e assms(3,4) show ?thesis
      proof (cases rule: realtime_fire_cases)
        case (rally k)
        have fq: "realtime_fire qA qB (s, m) = Inr (k, m)"
          using rally(2,5) by (simp add: realtime_fire_def settle_point_def stopped_def)
        have both: "realtime_loop pA pB (Suc n) (s, m) T = realtime_loop pA pB n (k, m) T"
          "realtime_loop qA qB (Suc n) (s, m) T = realtime_loop qA qB n (k, m) T"
          unfolding step using False late e rally(1) fq by (simp_all add: due_at_def)
        have i: "realtime_inv (k, m)" "s_t k \<le> T"
          using rally(3,4,5) late by (simp_all add: realtime_inv_def stopped_def)
        have run: "realtime_loop pA pB n (k, m) T = Inr ((s', m'), b)"
          using Suc.prems(3) unfolding both .
        show ?thesis unfolding both(2) using Suc.IH [OF i run] rally(6-9) by simp
      next
        case (point k j)
        have run: "realtime_loop pA pB (Suc n) (s, m) T = realtime_loop pA pB n (k, j) T"
          unfolding step using False late e point(1) by (simp add: due_at_def)
        have i: "realtime_inv (k, j)" "s_t k \<le> T"
          using point(2,3,4) late by (simp_all add: realtime_inv_def)
        have res: "realtime_loop pA pB n (k, j) T = Inr ((s', m'), b)"
          using Suc.prems(3) unfolding run .
        then have fin: "s_finished k \<Longrightarrow> s' = k" by (cases n) auto
        have m: "\<not> s_finished k \<Longrightarrow> j = s_scoreA k + s_scoreB k \<and> handicap pA pB = Inr (s_halfA k, s_halfB k)"
          using point(6) by auto
        from Suc.IH [OF i res] have
          ih: "s_scoreA k + s_scoreB k \<le> s_scoreA s' + s_scoreB s'"
          "s_scoreA s' + s_scoreB s' = s_scoreA k + s_scoreB k \<Longrightarrow>
             m' = j \<and> s_halfA s' = s_halfA k \<and> s_halfB s' = s_halfB k"
          "s_scoreA s' + s_scoreB s' \<noteq> s_scoreA k + s_scoreB k \<Longrightarrow> \<not> s_finished s' \<Longrightarrow>
             m' = s_scoreA s' + s_scoreB s' \<and> handicap pA pB = Inr (s_halfA s', s_halfB s')"
          by auto
        have "m' = s_scoreA s' + s_scoreB s' \<and> handicap pA pB = Inr (s_halfA s', s_halfB s')" if "\<not> s_finished s'"
        proof (cases "s_scoreA s' + s_scoreB s' = s_scoreA k + s_scoreB k")
          case True
          from that fin have "\<not> s_finished k" by auto
          from m [OF this] ih(2) [OF True] True show ?thesis by simp
        next
          case False
          from ih(3) [OF False that] show ?thesis .
        qed
        with ih(1) point(5) show ?thesis by auto
      qed
    qed
  qed
qed

text \<open>Queued pressure only influences future point boundaries, never a live collision: as long
  as no point was scored in the call, the result is the same for all bets, reports nothing
  applied and leaves both paddles as they were; and after a point in a running match the halves
  are those of the handicap and the report names the score it was applied at.\<close>

theorem realtime_pressure_at_points:
  assumes "rooms_inv s" and "\<not> s_awaitingServe s" and "s_t s \<le> target"
    and "0 \<le> paidA" and "0 \<le> paidB" and "0 \<le> otherA" and "0 \<le> otherB"
    and "advance_realtime s target limit paidA paidB = Inr (s', complete, applied)"
  shows "if s_scoreA s' + s_scoreB s' = s_scoreA s + s_scoreB s
    then advance_realtime s target limit otherA otherB = Inr (s', complete, applied)
      \<and> applied = 0 \<and> s_halfA s' = s_halfA s \<and> s_halfB s' = s_halfB s
    else s_scoreA s + s_scoreB s < s_scoreA s' + s_scoreB s'
      \<and> (s_finished s' \<or> applied = s_scoreA s' + s_scoreB s'
         \<and> handicap paidA paidB = Inr (s_halfA s', s_halfB s'))"
proof -
  have i: "realtime_inv (s, 0)" using assms by (simp add: realtime_inv_def)
  have eq: "advance_realtime s target limit pA pB =
      rbind (realtime_loop pA pB limit (s, 0) target) (\<lambda>((s', applied), flag). Inr (s', flag, applied))" for pA pB
    using assms by (simp add: advance_realtime_def rooms_inv_def)
  from assms(8) have "realtime_loop paidA paidB limit (s, 0) target = Inr ((s', applied), complete)"
    unfolding eq by (auto simp add: res_simps)
  from realtime_loop_pressure [OF i assms(3-7) this] show ?thesis by (auto simp add: eq)
qed

definition rally_rooms :: state where
  "rally_rooms = opening_rooms\<lparr>s_x := 512192000, s_y := 287904000, s_t := 1000\<rparr>"

theorem realtime_pressure_at_points_witness:
  "rooms_inv opening_rooms \<and> \<not> s_awaitingServe opening_rooms \<and> s_t opening_rooms \<le> 1000
   \<and> advance_realtime opening_rooms 1000 128 9000000000000000 1000000000000000 = Inr (rally_rooms, True, 0)
   \<and> advance_realtime opening_rooms 1000 128 0 0 = Inr (rally_rooms, True, 0)"
proof -
  have t: "s_t opening_rooms \<le> 1000" "\<not> s_awaitingServe opening_rooms"
    "s_scoreA rally_rooms + s_scoreB rally_rooms = s_scoreA opening_rooms + s_scoreB opening_rooms"
    using opening_rooms_inv(2) by (simp_all add: opening_rooms_def rally_rooms_def kickoff_def stopped_def)
  have run: "advance_realtime opening_rooms 1000 128 9000000000000000 1000000000000000 = Inr (rally_rooms, True, 0)"
    by code_simp
  show ?thesis
    using realtime_pressure_at_points [OF opening_rooms_inv(1) t(2,1) _ _ _ _ run, of 0 0]
      opening_rooms_inv t run by simp
qed

end
