(* ===== verification/Chaos_Collision.thy ===== *)
theory Chaos_Collision
  imports Prelude
begin

text \<open>
  \<^verbatim>\<open>shared/chaos-collision.ts\<close>: the integer geometry of the Chaos event physics.  Positions are
  in units of 1e-12, velocities in 1e-6 units per second, so a position changes by exactly
  velocity times microseconds.  A \<^verbatim>\<open>throw Error('Numeric range')\<close> is the value
  \<^verbatim>\<open>Inl ''Numeric range''\<close>.
\<close>

definition CHAOS_POSITION :: int where "CHAOS_POSITION = 1000000000000"
definition CHAOS_VELOCITY :: int where "CHAOS_VELOCITY = 1000000"
definition NEVER :: int where "NEVER = 18446744073709551615"
definition MAX_P :: int where "MAX_P = 9007199254740992"
definition MAX_V :: int where "MAX_V = 4722366482869645213696"
definition TRIG :: int where "TRIG = 1000000000000"

record geometry_hit =
  h_dt :: int
  h_nx :: int
  h_ny :: int

definition none_hit :: geometry_hit where
  "none_hit = \<lparr>h_dt = NEVER, h_nx = 0, h_ny = 0\<rparr>"

abbreviation range_error :: string where
  "range_error \<equiv> ''Numeric range''"

definition geometryCheck :: "int \<Rightarrow> int \<Rightarrow> int \<Rightarrow> int \<Rightarrow> unit res" where
  "geometryCheck x y vx vy =
    guard range_error (\<not> (\<bar>x\<bar> > MAX_P \<or> \<bar>y\<bar> > MAX_P \<or> \<bar>vx\<bar> > MAX_V \<or> \<bar>vy\<bar> > MAX_V))"

text \<open>\<^verbatim>\<open>n.toString(2).length\<close> of a positive number, and the Newton iteration of
  \<^verbatim>\<open>integerSqrt\<close>.  The iteration only ever visits positive \<^verbatim>\<open>x\<close> (\<^verbatim>\<open>newton_correct\<close>).\<close>

function binary_length :: "int \<Rightarrow> nat" where
  "binary_length n = (if n < 2 then 1 else Suc (binary_length (n div 2)))"
  by auto
termination by (relation "measure nat") auto

declare binary_length.simps [simp del]

function newton :: "int \<Rightarrow> int \<Rightarrow> int res" where
  "newton n x = (if x \<le> 0 then Inl ''Division by zero'' else
     let next = tdiv (x + tdiv n x) 2 in if next \<ge> x then Inr x else newton n next)"
  by auto
termination by (relation "measure (\<lambda>(n, x). nat x)") auto

declare newton.simps [simp del]

definition integerSqrt :: "int \<Rightarrow> int res" where
  "integerSqrt n = (if n < 0 then Inl range_error else if n < 2 then Inr n
     else newton n (2 ^ ((binary_length n + 1) div 2)))"

definition geometryCeil :: "int \<Rightarrow> int \<Rightarrow> int" where
  "geometryCeil n d = (if d = 0 then NEVER else
     let q = tdiv n d + (if tmod n d \<noteq> 0 then 1 else 0) in if q \<ge> NEVER then NEVER else q)"

definition planeTime :: "int \<Rightarrow> int \<Rightarrow> int \<Rightarrow> int" where
  "planeTime p v boundary = (if v = 0 then NEVER else
     let d = boundary - p in
     if d \<noteq> 0 \<and> (d < 0) \<noteq> (v < 0) then NEVER else geometryCeil \<bar>d\<bar> \<bar>v\<bar>)"

definition circleHit :: "int \<Rightarrow> int \<Rightarrow> int \<Rightarrow> int \<Rightarrow> int \<Rightarrow> bool \<Rightarrow> geometry_hit res" where
  "circleHit x y vx vy radius exit =
    rbind (geometryCheck x y vx vy) (\<lambda>_.
    rbind (guard range_error (\<not> (radius \<le> 0 \<or> radius > MAX_P))) (\<lambda>_.
    let a = vx * vx + vy * vy in
    if a = 0 then Inr none_hit else
    let b = x * vx + y * vy; c = x * x + y * y - radius * radius in
    if \<not> exit \<and> (c < 0 \<or> b \<ge> 0) \<or> exit \<and> c > 0 then Inr none_hit else
    let discriminant = b * b - a * c in
    if discriminant < 0 then Inr none_hit else
    rbind (integerSqrt discriminant) (\<lambda>root.
    let n = (if exit then - b + root else - b - root) in
    if n < 0 then Inr none_hit else
    let dt = geometryCeil n a in
    Inr (if dt = NEVER then none_hit
         else \<lparr>h_dt = dt, h_nx = x + vx * dt, h_ny = y + vy * dt\<rparr>))))"

definition rectHit :: "int \<Rightarrow> int \<Rightarrow> int \<Rightarrow> int \<Rightarrow> int \<Rightarrow> int \<Rightarrow> geometry_hit res" where
  "rectHit x y vx vy halfX halfY =
    rbind (geometryCheck x y vx vy) (\<lambda>_.
    rbind (guard range_error (\<not> (halfX \<le> 0 \<or> halfY \<le> 0 \<or> halfX > MAX_P \<or> halfY > MAX_P))) (\<lambda>_.
    let hit = none_hit;
        hit = (if vx \<noteq> 0 then
          let dt = planeTime x vx (if vx > 0 then - halfX else halfX) in
          if dt \<noteq> NEVER \<and> \<bar>y + vy * dt\<bar> \<le> halfY
          then \<lparr>h_dt = dt, h_nx = (if vx > 0 then -1 else 1), h_ny = 0\<rparr> else hit else hit);
        hit = (if vy \<noteq> 0 then
          let dt = planeTime y vy (if vy > 0 then - halfY else halfY) in
          if dt < h_dt hit \<and> \<bar>x + vx * dt\<bar> \<le> halfX
          then \<lparr>h_dt = dt, h_nx = 0, h_ny = (if vy > 0 then -1 else 1)\<rparr> else hit else hit)
    in Inr hit))"

definition vectorSpeed :: "int \<Rightarrow> int \<Rightarrow> int res" where
  "vectorSpeed vx vy = rbind (geometryCheck 0 0 vx vy) (\<lambda>_. integerSqrt (vx * vx + vy * vy))"

definition normalize :: "int \<Rightarrow> int \<Rightarrow> int \<Rightarrow> (int \<times> int) res" where
  "normalize vx vy len = rbind (vectorSpeed vx vy) (\<lambda>current.
     if current = 0 then Inr (0, 0)
     else if len > MAX_V then Inl range_error
     else Inr (tdiv (vx * len) current, tdiv (vy * len) current))"

definition reflectVelocity :: "int \<Rightarrow> int \<Rightarrow> int \<Rightarrow> int \<Rightarrow> (int \<times> int) res" where
  "reflectVelocity vx vy nx ny =
    rbind (geometryCheck nx ny vx vy) (\<lambda>_.
    let norm = nx * nx + ny * ny in
    if norm = 0 then Inl range_error else
    let dot = vx * nx + vy * ny in
    rbind (vectorSpeed vx vy) (\<lambda>speed.
      normalize (vx - tdiv (2 * dot * nx) norm) (vy - tdiv (2 * dot * ny) norm) speed))"

definition rotateVelocity :: "int \<Rightarrow> int \<Rightarrow> int \<Rightarrow> (int \<times> int) res" where
  "rotateVelocity vx vy angle =
    rbind (geometryCheck 0 0 vx vy) (\<lambda>_.
    rbind (guard range_error (\<not> \<bar>angle\<bar> > 349065850400)) (\<lambda>_.
    let a2 = tdiv (angle * angle) TRIG;
        a3 = tdiv (angle * a2) TRIG; a5 = tdiv (a3 * a2) TRIG; a7 = tdiv (a5 * a2) TRIG;
        a4 = tdiv (a2 * a2) TRIG; a6 = tdiv (a4 * a2) TRIG; a8 = tdiv (a6 * a2) TRIG;
        sin = angle - tdiv a3 6 + tdiv a5 120 - tdiv a7 5040;
        cos = TRIG - tdiv a2 2 + tdiv a4 24 - tdiv a6 720 + tdiv a8 40320
    in rbind (vectorSpeed vx vy) (\<lambda>speed.
      normalize (tdiv (vx * cos - vy * sin) TRIG) (tdiv (vx * sin + vy * cos) TRIG) speed)))"

subsection \<open>The integer square root\<close>

lemma binary_length_bound: "n < 2 ^ binary_length n"
proof (induction n rule: binary_length.induct)
  case (1 n)
  show ?case
  proof (cases "n < 2")
    case True
    then show ?thesis by (subst binary_length.simps) simp
  next
    case False
    then have "n div 2 < 2 ^ binary_length (n div 2)" by (rule 1)
    then have "n < 2 * 2 ^ binary_length (n div 2)" by linarith
    with False show ?thesis by (subst binary_length.simps) simp
  qed
qed

lemma newton_step:
  assumes "0 < x" and "0 \<le> n"
  shows "n < (tdiv (x + tdiv n x) 2 + 1) * (tdiv (x + tdiv n x) 2 + 1)"
proof -
  define q where "q = n div x"
  define m where "m = (x + q) div 2 + 1"
  have q0: "0 \<le> q" using assms by (simp add: q_def pos_imp_zdiv_nonneg_iff)
  have n: "n < x * (q + 1)"
    using mult_div_mod_eq [of x n] pos_mod_bound [OF assms(1), of n]
    unfolding q_def distrib_left by linarith
  have "x + (q + 1) \<le> 2 * m" unfolding m_def by presburger
  then have "(x + (q + 1)) * (x + (q + 1)) \<le> (2 * m) * (2 * m)" using assms(1) q0 by (intro mult_mono) simp_all
  moreover have "4 * (x * (q + 1)) \<le> (x + (q + 1)) * (x + (q + 1))"
    using zero_le_square [of "x - (q + 1)"] by (simp add: algebra_simps)
  ultimately have "4 * n < 4 * (m * m)" using n by simp
  then show ?thesis using assms q0 by (simp add: m_def q_def tdiv_nonneg_eq)
qed

lemma newton_correct:
  assumes "0 < x" and "0 < n" and "n < (x + 1) * (x + 1)"
  shows "\<exists>r. newton n x = Inr r \<and> 0 \<le> r \<and> r * r \<le> n \<and> n < (r + 1) * (r + 1)"
  using assms
proof (induction n x rule: newton.induct)
  case (1 n x)
  let ?next = "tdiv (x + tdiv n x) 2"
  have q: "tdiv n x = n div x" "0 \<le> n div x"
    using 1(2,3) by (simp_all add: tdiv_nonneg_eq pos_imp_zdiv_nonneg_iff)
  have next_eq: "?next = (x + n div x) div 2" using 1(2) q by (simp add: tdiv_nonneg_eq)
  show ?case
  proof (cases "x \<le> ?next")
    case True
    then have "x * 2 \<le> x + n div x" unfolding next_eq by linarith
    then have "x * x \<le> (n div x) * x" using 1(2) by (intro mult_right_mono) simp_all
    also have "\<dots> \<le> n" using mult_div_mod_eq [of x n] pos_mod_sign [OF 1(2), of n]
      unfolding mult.commute [of "n div x"] by linarith
    finally have "x * x \<le> n" .
    with True 1(2,4) show ?thesis by (subst newton.simps) (simp add: Let_def)
  next
    case False
    have "0 < ?next"
    proof (cases "x = 1")
      case True
      with 1(3) show ?thesis by (simp add: tdiv_nonneg_eq pos_imp_zdiv_pos_iff)
    next
      case False
      then have "2 \<le> x + n div x" using 1(2) q(2) by linarith
      then show ?thesis unfolding next_eq by (simp add: pos_imp_zdiv_pos_iff)
    qed
    with 1(1) [OF _ refl] 1(2,3) False newton_step [OF 1(2), of n] show ?thesis
      by (subst newton.simps) (simp add: Let_def)
  qed
qed

lemma integerSqrt_floor:
  assumes "0 \<le> n"
  shows "\<exists>r. integerSqrt n = Inr r \<and> 0 \<le> r \<and> r * r \<le> n \<and> n < (r + 1) * (r + 1)"
proof (cases "n < 2")
  case True
  with assms have "n = 0 \<or> n = 1" by auto
  then show ?thesis by (auto simp add: integerSqrt_def)
next
  case False
  let ?l = "binary_length n" and ?x = "2 ^ ((binary_length n + 1) div 2) :: int"
  have "n < 2 ^ ?l" by (rule binary_length_bound)
  also have "\<dots> \<le> 2 ^ (2 * ((?l + 1) div 2))" by (rule power_increasing) simp_all
  also have "\<dots> = ?x * ?x" by (simp add: mult_2 power_add)
  also have "\<dots> \<le> (?x + 1) * (?x + 1)" by (intro mult_mono) simp_all
  finally have "n < (?x + 1) * (?x + 1)" .
  with newton_correct [of ?x n] False show ?thesis by (simp add: integerSqrt_def)
qed

subsection \<open>Contact times\<close>

lemma geometryCeil_bounds:
  assumes "0 \<le> n" and "0 < d"
  shows "0 \<le> geometryCeil n d" and "geometryCeil n d \<le> NEVER"
    and "k < geometryCeil n d \<Longrightarrow> k * d < n"
    and "geometryCeil n d \<noteq> NEVER \<Longrightarrow> n \<le> geometryCeil n d * d"
proof -
  define q where "q = tdiv n d + (if tmod n d \<noteq> 0 then 1 else 0)"
  have e: "n = d * (n div d) + n mod d" and m: "0 \<le> n mod d" "n mod d < d" using assms by simp_all
  have "tmod n d = n mod d" using assms by (simp add: tmod_def tdiv_nonneg_eq minus_mult_div_eq_mod mult.commute)
  then have q: "q = n div d + (if n mod d \<noteq> 0 then 1 else 0)"
    using assms by (simp add: q_def tdiv_nonneg_eq)
  have qd: "q * d = d * (n div d) + (if n mod d \<noteq> 0 then d else 0)"
    by (simp add: q algebra_simps)
  have qm: "n \<le> q * d \<and> q * d - d < n"
  proof (cases "n mod d = 0")
    case True
    then have "q * d = d * (n div d)" using qd by simp
    with e True assms(2) show ?thesis by linarith
  next
    case False
    then have "q * d = d * (n div d) + d" "0 < n mod d" using qd m by simp_all
    with e m show ?thesis by linarith
  qed
  then have ceil: "n \<le> q * d" by simp
  have below: "k * d < n" if "k < q" for k
  proof -
    from that have "k * d \<le> (q - 1) * d" using assms(2) by simp
    moreover have "(q - 1) * d < n" using qm by (simp add: left_diff_distrib)
    ultimately show ?thesis by simp
  qed
  have "0 \<le> n div d" using assms by (simp add: pos_imp_zdiv_nonneg_iff)
  then have q0: "0 \<le> q" by (simp add: q)
  have g: "geometryCeil n d = (if NEVER \<le> q then NEVER else q)"
    using assms(2) by (simp add: geometryCeil_def q_def Let_def)
  show "0 \<le> geometryCeil n d" using q0 by (simp add: g NEVER_def)
  show "geometryCeil n d \<le> NEVER" by (simp add: g)
  show "k < geometryCeil n d \<Longrightarrow> k * d < n" using below by (auto simp add: g split: if_splits)
  show "geometryCeil n d \<noteq> NEVER \<Longrightarrow> n \<le> geometryCeil n d * d" using ceil by (simp add: g split: if_splits)
qed

lemma planeTime_range: "planeTime p v boundary \<le> NEVER" "v \<noteq> 0 \<Longrightarrow> 0 \<le> planeTime p v boundary"
  using geometryCeil_bounds(1,2) [of "\<bar>boundary - p\<bar>" "\<bar>v\<bar>"]
  by (auto simp add: planeTime_def Let_def NEVER_def)

text \<open>A plane ahead of a moving point is reached at the plane time and not before.\<close>

lemma planeTime_up:
  assumes "0 < v"
  shows "p \<le> boundary \<Longrightarrow> k < planeTime p v boundary \<Longrightarrow> p + v * k < boundary"
    and "p \<le> boundary \<Longrightarrow> planeTime p v boundary \<noteq> NEVER \<Longrightarrow> boundary \<le> p + v * planeTime p v boundary"
    and "boundary < p \<Longrightarrow> planeTime p v boundary = NEVER"
proof -
  note g = geometryCeil_bounds [of "\<bar>boundary - p\<bar>" "\<bar>v\<bar>"]
  have pt: "planeTime p v boundary = geometryCeil \<bar>boundary - p\<bar> \<bar>v\<bar>" if "p \<le> boundary"
    using assms that by (simp add: planeTime_def Let_def)
  show "p + v * k < boundary" if "p \<le> boundary" "k < planeTime p v boundary"
    using g(3) [of k] assms that pt by (simp add: mult.commute)
  show "boundary \<le> p + v * planeTime p v boundary" if "p \<le> boundary" "planeTime p v boundary \<noteq> NEVER"
    using g(4) assms that pt by (simp add: mult.commute)
  show "planeTime p v boundary = NEVER" if "boundary < p"
    using assms that by (simp add: planeTime_def Let_def)
qed

lemma planeTime_mirror: "planeTime (- p) (- v) (- boundary) = planeTime p v boundary"
proof -
  have "\<bar>- boundary - - p\<bar> = \<bar>boundary - p\<bar>" by linarith
  moreover have "(- boundary - - p \<noteq> 0 \<and> (- boundary - - p < 0) \<noteq> (- v < 0)) =
      (boundary - p \<noteq> 0 \<and> (boundary - p < 0) \<noteq> (v < 0))" if "v \<noteq> 0" using that by linarith
  ultimately show ?thesis by (simp only: planeTime_def Let_def abs_minus_cancel) simp
qed

text \<open>The slab \<^verbatim>\<open>\<bar>p\<bar> < half\<close> of one axis of a rectangle: if the point is inside it at time
  \<^verbatim>\<open>k\<close>, then either it started inside and the axis reports no entry, or it entered at the
  reported time, which is at most \<^verbatim>\<open>k\<close>, and stays inside until \<^verbatim>\<open>k\<close>.\<close>

lemma slab_entry:
  assumes "v \<noteq> 0" and "\<bar>p + v * k\<bar> < half" and "0 \<le> k" and "k < NEVER"
    and t: "t = planeTime p v (if v > 0 then - half else half)"
  shows "if \<bar>p\<bar> < half then t = NEVER
    else 0 \<le> t \<and> t \<le> k \<and> (\<forall>u. t \<le> u \<and> u \<le> k \<longrightarrow> \<bar>p + v * u\<bar> \<le> half)"
proof -
  have up: "if \<bar>p\<bar> < half then planeTime p v (- half) = NEVER
      else 0 \<le> planeTime p v (- half) \<and> planeTime p v (- half) \<le> k
        \<and> (\<forall>u. planeTime p v (- half) \<le> u \<and> u \<le> k \<longrightarrow> \<bar>p + v * u\<bar> \<le> half)"
    if v: "0 < v" and k: "\<bar>p + v * k\<bar> < half" for p v :: int
  proof (cases "\<bar>p\<bar> < half")
    case True
    with planeTime_up(3) [OF v] show ?thesis by simp
  next
    case False
    have "0 \<le> v * k" using v assms(3) by simp
    with k False have p: "p \<le> - half" by linarith
    have t0: "0 \<le> planeTime p v (- half)" using planeTime_range(2) [of v p] v by simp
    have tk: "planeTime p v (- half) \<le> k"
      using planeTime_up(1) [OF v p, of k] k by linarith
    have "\<bar>p + v * u\<bar> \<le> half" if u: "planeTime p v (- half) \<le> u" "u \<le> k" for u
    proof -
      have "v * planeTime p v (- half) \<le> v * u" "v * u \<le> v * k" using v u by simp_all
      moreover have "- half \<le> p + v * planeTime p v (- half)"
        using planeTime_up(2) [OF v p] tk assms(4) by simp
      ultimately show ?thesis using k by linarith
    qed
    with t0 tk False show ?thesis by simp
  qed
  show ?thesis
  proof (cases "0 < v")
    case True
    with up [OF True assms(2)] t show ?thesis by simp
  next
    case False
    with assms(1) have v: "0 < - v" by simp
    have neg: "\<bar>- p + - v * u\<bar> = \<bar>p + v * u\<bar>" for u
    proof -
      have "- p + - v * u = - (p + v * u)" by simp
      then show ?thesis by (simp only: abs_minus_cancel)
    qed
    have "t = planeTime (- p) (- v) (- half)" using planeTime_mirror [of p v half] False t by simp
    with up [OF v, of "- p"] assms(2) show ?thesis unfolding neg by simp
  qed
qed

text \<open>What the geometry relies on of its square root, and the two quadratic contact times it
  gives: no whole microsecond before the time is past the contact.\<close>

locale integer_root =
  fixes root :: "int \<Rightarrow> int res"
  assumes root_floor: "0 \<le> n \<Longrightarrow> \<exists>r. root n = Inr r \<and> 0 \<le> r \<and> r * r \<le> n \<and> n < (r + 1) * (r + 1)"
begin

lemma root_bounds:
  assumes "root n = Inr r" and "0 \<le> n"
  shows "0 \<le> r" and "r * r \<le> n" and "r < m \<Longrightarrow> n < m * m"
    and "m * m \<le> n \<Longrightarrow> m \<le> r"
proof -
  from root_floor [OF assms(2)] assms(1) have r: "0 \<le> r" "r * r \<le> n" "n < (r + 1) * (r + 1)" by auto
  then show "0 \<le> r" "r * r \<le> n" by simp_all
  show lt: "n < m * m" if "r < m" for m
  proof -
    have "(r + 1) * (r + 1) \<le> m * m" using that r(1) by (intro mult_mono) auto
    with r(3) show ?thesis by simp
  qed
  show "m \<le> r" if "m * m \<le> n"
    using that lt [of m] by (cases "m \<le> r") auto
qed

lemma outside_before:
  assumes "root (b * b - a * c) = Inr r" and "0 \<le> b * b - a * c" and "0 < a" and "k * a < - b - r"
  shows "0 < a * (k * k) + 2 * b * k + c"
proof -
  have "r < - (k * a + b)" using assms(4) by simp
  then have "b * b - a * c < (k * a + b) * (k * a + b)"
    using root_bounds(3) [OF assms(1,2), of "- (k * a + b)"] by (simp add: algebra_simps)
  then have "0 < a * (a * (k * k) + 2 * b * k + c)" by (simp add: algebra_simps)
  with assms(3) show ?thesis by (simp add: zero_less_mult_iff)
qed

lemma inside_before:
  assumes "root (b * b - a * c) = Inr r" and "0 \<le> b * b - a * c" and "0 < a" and "c \<le> 0"
    and "0 \<le> k" and "k * a < - b + r"
  shows "a * (k * k) + 2 * b * k + c \<le> 0"
proof -
  note rb = root_bounds [OF assms(1,2)]
  have "a * c \<le> 0" using assms(3,4) by (simp add: mult_nonneg_nonpos)
  then have "(- b) * (- b) \<le> b * b - a * c" by simp
  then have "- b \<le> r" by (rule rb(4))
  moreover have "0 \<le> k * a" using assms(3,5) by simp
  ultimately have "\<bar>k * a + b\<bar> \<le> r" using assms(6) by linarith
  then have "(k * a + b) * (k * a + b) \<le> r * r" using abs_le_square_iff [of "k * a + b" r] rb(1)
    by (simp add: power2_eq_square)
  with rb(2) have "a * (a * (k * k) + 2 * b * k + c) \<le> 0" by (simp add: algebra_simps)
  with assms(3) show ?thesis by (simp add: mult_le_0_iff)
qed

end

interpretation isqrt: integer_root integerSqrt
  by unfold_locales (rule integerSqrt_floor)

lemma along_ray:
  fixes x y vx vy k r :: int
  shows "(x + vx * k) * (x + vx * k) + (y + vy * k) * (y + vy * k) - r * r
    = (vx * vx + vy * vy) * (k * k) + 2 * (x * vx + y * vy) * k + (x * x + y * y - r * r)"
  by (simp add: algebra_simps)

lemma circleHit_steps:
  assumes "circleHit x y vx vy radius exit = Inr h" and "k < h_dt h" and "0 \<le> k"
    and a: "a = vx * vx + vy * vy" and b: "b = x * vx + y * vy" and c: "c = x * x + y * y - radius * radius"
    and start: "if exit then c \<le> 0 else 0 \<le> c"
  shows "if exit then a * (k * k) + 2 * b * k + c \<le> 0 else 0 \<le> a * (k * k) + 2 * b * k + c"
proof (cases "a = 0")
  case True
  then have "vx = 0 \<and> vy = 0" unfolding a by (simp add: sum_squares_eq_zero_iff)
  with start True show ?thesis by (simp add: b)
next
  case False
  then have a0: "0 < a" unfolding a using sum_squares_gt_zero_iff [of vx vy] by (auto simp add: sum_squares_eq_zero_iff)
  define D where "D = b * b - a * c"
  have run: "(if \<not> exit \<and> (c < 0 \<or> b \<ge> 0) \<or> exit \<and> c > 0 then Inr none_hit else
    if D < 0 then Inr none_hit else rbind (integerSqrt D) (\<lambda>root.
      let n = (if exit then - b + root else - b - root) in
      if n < 0 then Inr none_hit else
      let dt = geometryCeil n a in
      Inr (if dt = NEVER then none_hit else \<lparr>h_dt = dt, h_nx = x + vx * dt, h_ny = y + vy * dt\<rparr>))) = Inr h"
  proof -
    from assms(1) obtain u where "geometryCheck x y vx vy = Inr u" "guard range_error (\<not> (radius \<le> 0 \<or> radius > MAX_P)) = Inr ()"
      by (auto simp add: circleHit_def res_simps)
    from assms(1) [unfolded circleHit_def this rbind_Inr, folded a, folded b, folded c] False
    show ?thesis unfolding Let_def D_def by (simp only: if_False)
  qed
  have D: "D = b * b - a * c" by (rule D_def)
  have sq: "a * (a * (k * k) + 2 * b * k + c) = (a * k + b) * (a * k + b) - D"
    by (simp add: D algebra_simps)
  show ?thesis
  proof (cases "exit")
    case True
    have c0: "c \<le> 0" using start True by simp
    have "a * c \<le> 0" using a0 c0 by (simp add: mult_nonneg_nonpos)
    then have bD: "b * b \<le> D" by (simp add: D)
    then have D0: "0 \<le> D" using zero_le_square [of b] by linarith
    then obtain r where r: "integerSqrt D = Inr r" using isqrt.root_floor by blast
    from isqrt.root_bounds(4) [OF r D0 bD] have n0: "0 \<le> - b + r" by simp
    have "k < geometryCeil (- b + r) a"
      using run True c0 D0 r n0 assms(2) by (auto simp add: Let_def none_hit_def split: if_splits)
    from geometryCeil_bounds(3) [OF n0 a0 this] have "k * a < - b + r" .
    with isqrt.inside_before [of b a c r k] r D0 a0 c0 assms(3) True show ?thesis by (simp add: D)
  next
    case False
    have c0: "0 \<le> c" using start False by simp
    show ?thesis
    proof (cases "0 \<le> b")
      case True
      then show ?thesis using a0 c0 assms(3) False by simp
    next
      case b0: False
      show ?thesis
      proof (cases "0 \<le> D")
        case False
        have "0 < a * (a * (k * k) + 2 * b * k + c)"
          unfolding sq using False zero_le_square [of "a * k + b"] by linarith
        with a0 \<open>\<not> exit\<close> show ?thesis by (simp add: zero_less_mult_iff)
      next
        case D0: True
        then obtain r where r: "integerSqrt D = Inr r" using isqrt.root_floor by blast
        have rb: "r \<le> - b"
        proof (rule ccontr)
          assume "\<not> r \<le> - b"
          then have "- b < r" by simp
          then have "(- b) * (- b) < r * r" using b0 by (intro mult_strict_mono) auto
          also have "\<dots> \<le> D" using isqrt.root_bounds(2) [OF r D0] .
          finally have "a * c < 0" by (simp add: D)
          with a0 c0 show False by (simp add: mult_less_0_iff)
        qed
        then have n0: "0 \<le> - b - r" by simp
        have "k < geometryCeil (- b - r) a"
          using run False b0 c0 D0 r n0 assms(2) geometryCeil_bounds(2) [OF n0 a0]
          by (auto simp add: Let_def none_hit_def split: if_splits)
        from geometryCeil_bounds(3) [OF n0 a0 this]
        have "k * a < - b - r" .
        with isqrt.outside_before [of b a c r k] r D0 a0 False show ?thesis by (simp add: D)
      qed
    qed
  qed
qed

text \<open>C6. A ball is never found on the wrong side of a circle before the contact the search
  reports: started outside (or on) the circle it is outside or on it at every whole microsecond
  before the hit, and, for the exit search, started inside it is inside until the hit.  With no
  hit this holds for all representable times.\<close>

theorem circleHit_no_miss:
  assumes "circleHit x y vx vy radius exit = Inr h"
    and "if exit then x * x + y * y \<le> radius * radius else radius * radius \<le> x * x + y * y"
    and "0 \<le> k" and "k < h_dt h"
  shows "if exit
    then (x + vx * k) * (x + vx * k) + (y + vy * k) * (y + vy * k) \<le> radius * radius
    else radius * radius \<le> (x + vx * k) * (x + vx * k) + (y + vy * k) * (y + vy * k)"
proof (cases "exit")
  case True
  have "(x + vx * k) * (x + vx * k) + (y + vy * k) * (y + vy * k) - radius * radius \<le> 0"
    unfolding along_ray using circleHit_steps [OF assms(1,4,3) refl refl refl] assms(2)
    by (simp only: True if_True diff_le_0_iff_le)
  with True show ?thesis by (simp only: if_True diff_le_0_iff_le)
next
  case False
  have "0 \<le> (x + vx * k) * (x + vx * k) + (y + vy * k) * (y + vy * k) - radius * radius"
    unfolding along_ray using circleHit_steps [OF assms(1,4,3) refl refl refl] assms(2)
    by (simp only: False if_False diff_ge_0_iff_ge)
  with False show ?thesis by (simp only: if_False diff_ge_0_iff_ge)
qed

theorem circleHit_no_miss_witness:
  "circleHit (-100) 10 3 0 50 False = Inr \<lparr>h_dt = 18, h_nx = -46, h_ny = 10\<rparr>
   \<and> (if False then (-100) * (-100) + 10 * 10 \<le> (50::int) * 50 else 50 * 50 \<le> (-100::int) * (-100) + 10 * 10)
   \<and> (50::int) * 50 \<le> (-100 + 3 * 17) * (-100 + 3 * 17) + (10 + 0 * 17) * (10 + 0 * 17)"
proof -
  have h: "circleHit (-100) 10 3 0 50 False = Inr \<lparr>h_dt = 18, h_nx = -46, h_ny = 10\<rparr>" by code_simp
  from circleHit_no_miss [OF h, of 17] h show ?thesis by simp
qed

text \<open>C7. A ball outside a rectangle is never strictly inside it at a whole microsecond before the
  contact that \<^verbatim>\<open>rectHit\<close> reports, corners included.\<close>

theorem rectHit_no_miss:
  assumes hit: "rectHit x y vx vy halfX halfY = Inr h"
    and out: "\<not> (\<bar>x\<bar> < halfX \<and> \<bar>y\<bar> < halfY)"
    and k: "0 \<le> k" "k < h_dt h"
  shows "\<not> (\<bar>x + vx * k\<bar> < halfX \<and> \<bar>y + vy * k\<bar> < halfY)"
proof
  assume inside: "\<bar>x + vx * k\<bar> < halfX \<and> \<bar>y + vy * k\<bar> < halfY"
  define tx where "tx = planeTime x vx (if vx > 0 then - halfX else halfX)"
  define ty where "ty = planeTime y vy (if vy > 0 then - halfY else halfY)"
  define hx where "hx = (if vx \<noteq> 0 \<and> tx \<noteq> NEVER \<and> \<bar>y + vy * tx\<bar> \<le> halfY
    then \<lparr>h_dt = tx, h_nx = (if vx > 0 then -1 else 1), h_ny = 0\<rparr> else none_hit)"
  have h: "h = (if vy \<noteq> 0 \<and> ty < h_dt hx \<and> \<bar>x + vx * ty\<bar> \<le> halfX
    then \<lparr>h_dt = ty, h_nx = 0, h_ny = (if vy > 0 then -1 else 1)\<rparr> else hx)"
  proof -
    from hit obtain u where "geometryCheck x y vx vy = Inr u" "guard range_error
        (\<not> (halfX \<le> 0 \<or> halfY \<le> 0 \<or> halfX > MAX_P \<or> halfY > MAX_P)) = Inr ()"
      by (auto simp add: rectHit_def res_simps)
    note g = this
    have "rectHit x y vx vy halfX halfY = Inr (if vy \<noteq> 0 \<and> ty < h_dt hx \<and> \<bar>x + vx * ty\<bar> \<le> halfX
      then \<lparr>h_dt = ty, h_nx = 0, h_ny = (if vy > 0 then -1 else 1)\<rparr> else hx)"
      unfolding rectHit_def g rbind_Inr Let_def hx_def tx_def [symmetric] ty_def [symmetric]
      by (cases "vx = 0"; cases "vy = 0") simp_all
    with hit show ?thesis by simp
  qed
  have le: "h_dt h \<le> h_dt hx" "h_dt hx \<le> NEVER"
    using planeTime_range(1) by (simp_all add: h hx_def tx_def none_hit_def)
  with k have kN: "k < NEVER" by simp
  have sx: "if \<bar>x\<bar> < halfX then tx = NEVER \<or> vx = 0 else vx \<noteq> 0 \<and> 0 \<le> tx \<and> tx \<le> k
      \<and> (\<forall>u. tx \<le> u \<and> u \<le> k \<longrightarrow> \<bar>x + vx * u\<bar> \<le> halfX)"
    using slab_entry [of vx x k halfX tx] inside k(1) kN tx_def by (cases "vx = 0") (auto split: if_splits)
  have sy: "if \<bar>y\<bar> < halfY then ty = NEVER \<or> vy = 0 else vy \<noteq> 0 \<and> 0 \<le> ty \<and> ty \<le> k
      \<and> (\<forall>u. ty \<le> u \<and> u \<le> k \<longrightarrow> \<bar>y + vy * u\<bar> \<le> halfY)"
    using slab_entry [of vy y k halfY ty] inside k(1) kN ty_def by (cases "vy = 0") (auto split: if_splits)
  have between: "\<bar>p + v * u\<bar> \<le> half" if "\<bar>p\<bar> < half" "\<bar>p + v * k\<bar> < half" "0 \<le> u" "u \<le> k" for p v u half :: int
  proof (cases "0 \<le> v")
    case True
    with that have "0 \<le> v * u" "v * u \<le> v * k" by (simp_all add: mult_left_mono)
    with that show ?thesis by linarith
  next
    case False
    with that have "v * u \<le> 0" "v * k \<le> v * u" by (simp_all add: mult_nonpos_nonneg mult_left_mono_neg)
    with that show ?thesis by linarith
  qed
  have X: "\<bar>x + vx * u\<bar> \<le> halfX" if "0 \<le> u" "u \<le> k" "\<not> \<bar>x\<bar> < halfX \<Longrightarrow> tx \<le> u" for u
    using sx that between [of x halfX vx u] inside by (cases "\<bar>x\<bar> < halfX") auto
  have Y: "\<bar>y + vy * u\<bar> \<le> halfY" if "0 \<le> u" "u \<le> k" "\<not> \<bar>y\<bar> < halfY \<Longrightarrow> ty \<le> u" for u
    using sy that between [of y halfY vy u] inside by (cases "\<bar>y\<bar> < halfY") auto
  have bad_x: False if t: "\<not> \<bar>x\<bar> < halfX" "\<not> \<bar>y\<bar> < halfY \<Longrightarrow> ty \<le> tx"
  proof -
    have tx: "vx \<noteq> 0" "0 \<le> tx" "tx \<le> k" using sx t(1) by simp_all
    have "\<bar>y + vy * tx\<bar> \<le> halfY" using Y [of tx] tx t(2) by simp
    then have "h_dt hx = tx" using tx kN by (simp add: hx_def)
    with le(1) k(2) tx(3) show False by simp
  qed
  have bad_y: False if t: "\<not> \<bar>y\<bar> < halfY" "\<not> \<bar>x\<bar> < halfX \<Longrightarrow> tx \<le> ty"
  proof -
    have ty: "vy \<noteq> 0" "0 \<le> ty" "ty \<le> k" using sy t(1) by simp_all
    have "\<bar>x + vx * ty\<bar> \<le> halfX" using X [of ty] ty t(2) by simp
    then have "h_dt h \<le> ty" using ty by (simp add: h)
    with k(2) ty(3) show False by simp
  qed
  from out bad_x bad_y show False by force
qed

theorem rectHit_no_miss_witness:
  "rectHit (-100) 40 3 (-1) 50 20 = Inr \<lparr>h_dt = 20, h_nx = 0, h_ny = 1\<rparr>
   \<and> \<not> (\<bar>-100 + 3 * 19\<bar> < (50::int) \<and> \<bar>40 + -1 * 19\<bar> < (20::int))"
proof -
  have h: "rectHit (-100) 40 3 (-1) 50 20 = Inr \<lparr>h_dt = 20, h_nx = 0, h_ny = 1\<rparr>" by code_simp
  from rectHit_no_miss [OF h, of 19] h show ?thesis by simp
qed

end
