(* ===== verification/Chaos_Effects.thy ===== *)
theory Chaos_Effects
  imports Prelude
begin

text \<open>
  The effects of the Chaos mode: the catalogue of \<^verbatim>\<open>shared/chaos-events.ts\<close> (without the
  presentational texts \<^verbatim>\<open>description\<close> and \<^verbatim>\<open>visual\<close>), the two effect slots of
  \<^verbatim>\<open>shared/chaos-effects.ts\<close>, the paddle modifiers of \<^verbatim>\<open>shared/chaos-modifiers.ts\<close> and the
  scoring of \<^verbatim>\<open>shared/chaos-rally.ts\<close>.  The two-element arrays of the code are pairs.
\<close>

subsection \<open>Two-element arrays\<close>

definition slot_of :: "'a \<times> 'a \<Rightarrow> int \<Rightarrow> 'a" where
  "slot_of p i = (if i = 0 then fst p else snd p)"

definition set_slot :: "'a \<times> 'a \<Rightarrow> int \<Rightarrow> 'a \<Rightarrow> 'a \<times> 'a" where
  "set_slot p i v = (if i = 0 then (v, snd p) else (fst p, v))"

lemma slot_simps [simp]:
  "slot_of p 0 = fst p" "slot_of p 1 = snd p" "slot_of (a, b) i = (if i = 0 then a else b)"
  "set_slot p 0 v = (v, snd p)" "set_slot p 1 v = (fst p, v)"
  by (simp_all add: slot_of_def set_slot_def)

subsection \<open>The catalogue\<close>

datatype chaos_target = Player | Both | Court

record chaos_event =
  ce_id :: int
  ce_key :: string
  ce_name :: string
  ce_durationMs :: int
  ce_weight :: int
  ce_target :: chaos_target
  ce_color :: string
  ce_sound :: string

definition ce :: "int \<Rightarrow> string \<Rightarrow> string \<Rightarrow> int \<Rightarrow> int \<Rightarrow> chaos_target \<Rightarrow> string \<Rightarrow> string \<Rightarrow> chaos_event" where
  "ce i k n d w t c s = \<lparr>ce_id = i, ce_key = k, ce_name = n, ce_durationMs = d, ce_weight = w,
     ce_target = t, ce_color = c, ce_sound = s\<rparr>"

definition CHAOS_EVENTS_VERSION :: int where "CHAOS_EVENTS_VERSION = 6"
definition CHAOS_ANNOUNCEMENT_MS :: int where "CHAOS_ANNOUNCEMENT_MS = 1000"
definition CHAOS_MAX_EFFECTS :: int where "CHAOS_MAX_EFFECTS = 2"

definition chaosEvents :: "chaos_event list" where
  "chaosEvents =
   [ce 1 ''mega-paddle'' ''MEGA PADDLE'' 6000 4 Player ''#75f5df'' ''power-up'',
    ce 2 ''overdrive'' ''OVERDRIVE'' 5000 4 Player ''#63dfff'' ''overdrive'',
    ce 3 ''last-chance'' ''LAST CHANCE'' 12000 4 Player ''#7dbbff'' ''shield'',
    ce 4 ''power-shot'' ''POWER SHOT'' 8000 4 Player ''#ff9c54'' ''power-shot'',
    ce 5 ''curveball'' ''CURVEBALL'' 8000 4 Player ''#b793ff'' ''curve'',
    ce 6 ''perfect-parry'' ''PERFECT PARRY'' 8000 4 Player ''#ffdf80'' ''parry'',
    ce 7 ''pocket-paddle'' ''POCKET PADDLE'' 6000 4 Player ''#fa8bda'' ''power-down'',
    ce 8 ''heavy-metal'' ''HEAVY METAL'' 5000 4 Player ''#a6b6cc'' ''heavy'',
    ce 9 ''glass-cannon'' ''GLASS CANNON'' 8000 4 Player ''#a3ebff'' ''glass'',
    ce 10 ''hot-potato'' ''HOT POTATO'' 7000 4 Player ''#ff8a65'' ''potato'',
    ce 11 ''split-paddle'' ''SPLIT PADDLE'' 6000 4 Player ''#eb9bff'' ''split'',
    ce 12 ''size-swap'' ''SIZE SWAP'' 6000 4 Both ''#adacff'' ''swap'',
    ce 13 ''pinball'' ''PINBALL'' 10000 4 Court ''#ffba6a'' ''bumper'',
    ce 14 ''portal-pair'' ''PORTAL PAIR'' 10000 4 Court ''#aa85ff'' ''portal'',
    ce 15 ''warp-lane'' ''WARP LANE'' 8000 4 Court ''#79d5ff'' ''warp'',
    ce 16 ''gravity-well'' ''GRAVITY WELL'' 8000 4 Court ''#c38fff'' ''gravity'',
    ce 17 ''solar-wind'' ''SOLAR WIND'' 8000 4 Court ''#ffc980'' ''wind'',
    ce 18 ''ricochet'' ''RICOCHET'' 10000 4 Court ''#9be6ee'' ''ricochet'',
    ce 19 ''breakout'' ''BREAKOUT'' 12000 4 Court ''#fbb47d'' ''brick'',
    ce 20 ''bank-shot'' ''BANK SHOT'' 8000 4 Court ''#6ee2ca'' ''bank'',
    ce 21 ''multiball'' ''MULTIBALL'' 12000 1 Court ''#daf8ff'' ''multiball'',
    ce 22 ''jackpot-rally'' ''JACKPOT RALLY'' 12000 1 Both ''#ffda6d'' ''jackpot'',
    ce 23 ''boss-round'' ''BOSS ROUND'' 8000 1 Both ''#ff738b'' ''boss'',
    ce 24 ''mystery-pickup'' ''MYSTERY PICKUP'' 12000 1 Court ''#dfadff'' ''mystery'']"

definition chaosEvent :: "int \<Rightarrow> chaos_event res" where
  "chaosEvent i = (if 1 \<le> i \<and> i \<le> int (length chaosEvents)
     then let event = chaosEvents ! nat (i - 1) in
       if ce_id event \<noteq> i then Inl ''Unknown Chaos event'' else Inr event
     else Inl ''Unknown Chaos event'')"

definition duration :: "int \<Rightarrow> int" where
  "duration i = (case chaosEvent i of Inr e \<Rightarrow> ce_durationMs e | Inl _ \<Rightarrow> 0)"

lemma catalogue_checks:
  "list_all (\<lambda>i. case chaosEvent i of Inr e \<Rightarrow> ce_id e = i \<and> 5000 \<le> ce_durationMs e
     \<and> ce_durationMs e \<le> 12000 \<and> (ce_weight e = 1 \<or> ce_weight e = 4)
     \<and> (i < 12 \<longleftrightarrow> ce_target e = Player) | Inl _ \<Rightarrow> False) [1..24]"
  by code_simp

lemma chaosEvent_known:
  assumes "1 \<le> i" and "i \<le> 24"
  obtains e where "chaosEvent i = Inr e" and "ce_id e = i" and "5000 \<le> ce_durationMs e"
    and "ce_durationMs e \<le> 12000" and "ce_durationMs e = duration i"
    and "ce_weight e = 1 \<or> ce_weight e = 4" and "i < 12 \<longleftrightarrow> ce_target e = Player"
proof -
  from assms have "i \<in> set [1..24]" by simp
  with catalogue_checks have c: "case chaosEvent i of Inr e \<Rightarrow> ce_id e = i \<and> 5000 \<le> ce_durationMs e
     \<and> ce_durationMs e \<le> 12000 \<and> (ce_weight e = 1 \<or> ce_weight e = 4)
     \<and> (i < 12 \<longleftrightarrow> ce_target e = Player) | Inl _ \<Rightarrow> False"
    unfolding list_all_iff by blast
  then show ?thesis by (cases "chaosEvent i") (auto simp add: duration_def intro: that)
qed

lemma duration_known: "1 \<le> i \<Longrightarrow> i \<le> 24 \<Longrightarrow> 5000 \<le> duration i \<and> duration i \<le> 12000"
  using chaosEvent_known [of i] by metis

lemma chaosEvent_Inr: "chaosEvent i = Inr e \<Longrightarrow> 1 \<le> i \<and> i \<le> 24 \<and> ce_durationMs e = duration i"
proof -
  have len: "length chaosEvents = 24" by code_simp
  assume "chaosEvent i = Inr e"
  then show ?thesis by (auto simp add: chaosEvent_def duration_def len Let_def split: if_splits)
qed

subsection \<open>Effect slots\<close>

record runtime_effect =
  fx_id :: int
  fx_target :: int
  fx_remaining :: int
  fx_serial :: int
  fx_startsAt :: int
  fx_expiresAt :: int
  fx_variant :: int

type_synonym effect_pair = "runtime_effect \<times> runtime_effect"

definition emptyEffect :: runtime_effect where
  "emptyEffect = \<lparr>fx_id = 0, fx_target = 0, fx_remaining = 0, fx_serial = 0, fx_startsAt = 0,
     fx_expiresAt = 0, fx_variant = 0\<rparr>"

definition emptyEffects :: effect_pair where
  "emptyEffects = (emptyEffect, emptyEffect)"

abbreviation effect_error :: string where
  "effect_error \<equiv> ''Invalid effect''"

definition u32 :: "int \<Rightarrow> int res" where
  "u32 x = (if x < 0 \<or> x > umax32 then Inl effect_error else Inr x)"

definition charges :: "int \<Rightarrow> int" where
  "charges i = (if i = 19 then 7 else if i \<in> {3, 4, 5} then 1 else 0)"

definition activeEffect :: "runtime_effect \<Rightarrow> int \<Rightarrow> bool" where
  "activeEffect e nowMs \<longleftrightarrow> fx_id e \<noteq> 0 \<and> nowMs \<ge> fx_startsAt e \<and> nowMs < fx_expiresAt e"

definition expired_slot :: "runtime_effect \<Rightarrow> int \<Rightarrow> bool" where
  "expired_slot e nowMs \<longleftrightarrow> fx_id e \<noteq> 0 \<and> nowMs \<ge> fx_expiresAt e"

definition expireEffects :: "effect_pair \<Rightarrow> int \<Rightarrow> effect_pair \<times> int" where
  "expireEffects source nowMs = fold (\<lambda>i (effects, mask).
     if expired_slot (slot_of effects i) nowMs
     then (set_slot effects i emptyEffect, or32 mask (shl32 1 i)) else (effects, mask)) [0, 1] (source, 0)"

definition excludedEffects :: "effect_pair \<Rightarrow> int \<Rightarrow> int" where
  "excludedEffects effects nowMs = fold (\<lambda>e mask.
     if fx_id e \<noteq> 0 \<and> nowMs < fx_expiresAt e then or32 mask (shl32 1 (fx_id e - 1)) else mask)
     [fst effects, snd effects] 0"

definition announceEffect ::
    "effect_pair \<Rightarrow> int \<Rightarrow> int \<Rightarrow> int \<Rightarrow> int \<Rightarrow> int \<Rightarrow> (effect_pair \<times> int) res" where
  "announceEffect source i target variant serial nowMs =
    (if target \<noteq> 0 \<and> target \<noteq> 1 then Inl effect_error else
     rbind (chaosEvent i) (\<lambda>event.
     let len = ce_durationMs event; effects = fst (expireEffects source nowMs) in
     if fx_id (fst effects) = i \<or> fx_id (snd effects) = i then Inl ''Duplicate effect'' else
     let slot = (if fx_id (fst effects) = 0 then 0 else if fx_id (snd effects) = 0 then 1 else 2 :: int) in
     if slot = 2 then Inl ''No effect slot'' else
     rbind (u32 (nowMs + 1000)) (\<lambda>start.
     rbind (u32 serial) (\<lambda>serial.
     rbind (u32 (start + len)) (\<lambda>expires.
     rbind (u32 variant) (\<lambda>variant.
       Inr (set_slot effects slot
         \<lparr>fx_id = i, fx_target = (if i \<ge> 12 then 2 else target), fx_remaining = charges i,
          fx_serial = serial, fx_startsAt = start, fx_expiresAt = expires, fx_variant = variant\<rparr>,
         slot)))))))"

record shot =
  sh_numerator :: int
  sh_denominator :: int
  sh_curveSign :: int
  sh_consumedMask :: int

definition paddle_slot ::
    "int \<Rightarrow> int \<Rightarrow> int \<Rightarrow> bool \<Rightarrow> int \<Rightarrow> int \<Rightarrow> effect_pair \<times> shot \<Rightarrow> effect_pair \<times> shot" where
  "paddle_slot side lastDirection outgoingVy central nowMs i r =
    (let (effects, shot) = r; e = slot_of effects i in
     if \<not> activeEffect e nowMs then (effects, shot)
     else if fx_id e = 10 \<and> nowMs < fx_startsAt e + 4000
     then (set_slot effects i (e\<lparr>fx_target := side\<rparr>), shot)
     else if fx_target e \<noteq> side then (effects, shot)
     else let
       shot = (if fx_id e = 4 \<or> fx_id e = 9
         then shot\<lparr>sh_numerator := sh_numerator shot * 6, sh_denominator := sh_denominator shot * 5\<rparr> else shot);
       shot = (if fx_id e = 6 \<and> central
         then shot\<lparr>sh_numerator := sh_numerator shot * 13, sh_denominator := sh_denominator shot * 10\<rparr> else shot);
       shot = (if fx_id e = 5
         then shot\<lparr>sh_curveSign := (if lastDirection \<noteq> 0 then lastDirection
           else if outgoingVy < 0 then -1 else 1)\<rparr> else shot)
     in if fx_id e = 4 \<or> fx_id e = 5
        then (set_slot effects i emptyEffect,
              shot\<lparr>sh_consumedMask := or32 (sh_consumedMask shot) (shl32 1 i)\<rparr>)
        else (effects, shot))"

definition effectPaddleHit ::
    "effect_pair \<Rightarrow> int \<Rightarrow> int \<Rightarrow> int \<Rightarrow> bool \<Rightarrow> int \<Rightarrow> (effect_pair \<times> shot) res" where
  "effectPaddleHit source side lastDirection outgoingVy central nowMs =
    (if side \<noteq> 0 \<and> side \<noteq> 1 \<or> lastDirection \<notin> {0, 1, -1} then Inl effect_error
     else Inr (fold (paddle_slot side lastDirection outgoingVy central nowMs) [0, 1]
       (source, \<lparr>sh_numerator = 1, sh_denominator = 1, sh_curveSign = 0, sh_consumedMask = 0\<rparr>)))"

definition shields :: "runtime_effect \<Rightarrow> int \<Rightarrow> int \<Rightarrow> bool" where
  "shields e side nowMs \<longleftrightarrow> activeEffect e nowMs \<and> fx_id e = 3 \<and> fx_target e = side"

definition consumeShield :: "effect_pair \<Rightarrow> int \<Rightarrow> int \<Rightarrow> (effect_pair \<times> bool \<times> int) res" where
  "consumeShield source side nowMs =
    (if side \<noteq> 0 \<and> side \<noteq> 1 then Inl effect_error
     else if shields (slot_of source 0) side nowMs then Inr (set_slot source 0 emptyEffect, True, 0)
     else if shields (slot_of source 1) side nowMs then Inr (set_slot source 1 emptyEffect, True, 1)
     else Inr (source, False, 0))"

definition breakChaosBrick :: "effect_pair \<Rightarrow> int \<Rightarrow> int \<Rightarrow> int \<Rightarrow> effect_pair res" where
  "breakChaosBrick source slot brick nowMs =
    (if slot \<notin> {0, 1} \<or> brick \<notin> {0, 1, 2} \<or> \<not> activeEffect (slot_of source slot) nowMs
        \<or> fx_id (slot_of source slot) \<noteq> 19 then Inl effect_error else
     let bit = shl32 1 brick; e = slot_of source slot in
     if and32 (fx_remaining e) bit = 0 then Inl effect_error else
     let e = e\<lparr>fx_remaining := and32 (fx_remaining e) (not32 bit)\<rparr> in
     Inr (set_slot source slot (if fx_remaining e = 0 then emptyEffect else e)))"

definition chaosPointValue :: "effect_pair \<Rightarrow> int \<Rightarrow> int" where
  "chaosPointValue effects nowMs =
    (if activeEffect (fst effects) nowMs \<and> fx_id (fst effects) = 22
      \<or> activeEffect (snd effects) nowMs \<and> fx_id (snd effects) = 22 then 2 else 1)"

definition collectChaosPickup :: "effect_pair \<Rightarrow> int \<Rightarrow> int \<Rightarrow> int \<Rightarrow> (effect_pair \<times> int) res" where
  "collectChaosPickup source slot lastHitter nowMs =
    (if slot \<notin> {0, 1} \<or> lastHitter \<notin> {0, 1} \<or> \<not> activeEffect (slot_of source slot) nowMs
        \<or> fx_id (slot_of source slot) \<noteq> 24 then Inl effect_error else
     let e = slot_of source slot; reward = and32 (fx_variant e) 3 + 1; other = 1 - slot in
     rbind (u32 nowMs) (\<lambda>start.
     rbind (chaosEvent reward) (\<lambda>event.
     rbind (u32 (nowMs + ce_durationMs event)) (\<lambda>expires.
     let updated = \<lparr>fx_id = reward, fx_target = lastHitter, fx_remaining = charges reward,
           fx_serial = fx_serial e, fx_startsAt = start, fx_expiresAt = expires, fx_variant = fx_variant e\<rparr>
     in Inr (if fx_id (slot_of source other) = reward \<and> nowMs < fx_expiresAt (slot_of source other)
             then (set_slot (set_slot source other updated) slot emptyEffect, reward)
             else (set_slot source slot updated, reward))))))"

subsection \<open>Well-formed slots\<close>

text \<open>An occupied slot names a catalogue effect, aims at a player exactly when the effect is a
  player effect, lasts for the catalogue duration, and holds the charges the effect may still have.\<close>

definition effect_ok :: "runtime_effect \<Rightarrow> bool" where
  "effect_ok e \<longleftrightarrow> e = emptyEffect \<or>
    (1 \<le> fx_id e \<and> fx_id e \<le> 24
     \<and> (if fx_id e < 12 then fx_target e \<in> {0, 1} else fx_target e = 2)
     \<and> 0 \<le> fx_startsAt e \<and> fx_expiresAt e = fx_startsAt e + duration (fx_id e)
     \<and> fx_expiresAt e \<le> umax32
     \<and> (if fx_id e = 19 then 1 \<le> fx_remaining e \<and> fx_remaining e \<le> 7
        else fx_remaining e = charges (fx_id e)))"

definition unexpired :: "runtime_effect \<Rightarrow> int \<Rightarrow> bool" where
  "unexpired e nowMs \<longleftrightarrow> fx_id e \<noteq> 0 \<and> nowMs < fx_expiresAt e"

text \<open>No effect runs in both slots at once.\<close>

definition effects_ok :: "effect_pair \<Rightarrow> int \<Rightarrow> bool" where
  "effects_ok p nowMs \<longleftrightarrow> effect_ok (fst p) \<and> effect_ok (snd p)
    \<and> \<not> (unexpired (fst p) nowMs \<and> unexpired (snd p) nowMs \<and> fx_id (fst p) = fx_id (snd p))"

lemma empty_simps [simp]:
  "effect_ok emptyEffect" "\<not> activeEffect emptyEffect n" "\<not> unexpired emptyEffect n"
  "fx_id emptyEffect = 0" "\<not> expired_slot emptyEffect n" "\<not> shields emptyEffect i n"
  by (simp_all add: effect_ok_def activeEffect_def unexpired_def emptyEffect_def expired_slot_def shields_def)

lemma emptyEffects_ok [simp]: "effects_ok emptyEffects n"
  by (simp add: effects_ok_def emptyEffects_def)

lemma unexpired_later: "unexpired e m \<Longrightarrow> n \<le> m \<Longrightarrow> unexpired e n"
  by (simp add: unexpired_def)

lemma active_unexpired: "activeEffect e n \<Longrightarrow> unexpired e n"
  by (simp add: activeEffect_def unexpired_def)

lemma effects_ok_later: "effects_ok p n \<Longrightarrow> n \<le> m \<Longrightarrow> effects_ok p m"
  by (auto simp add: effects_ok_def dest: unexpired_later)

lemma expireEffects_eq:
  "fst (expireEffects p n) =
    ((if expired_slot (fst p) n then emptyEffect else fst p),
     (if expired_slot (snd p) n then emptyEffect else snd p))"
  by (cases p) (simp add: expireEffects_def)

lemma expireEffects_ok: "effects_ok p n \<Longrightarrow> effects_ok (fst (expireEffects p n)) n"
  by (auto simp add: expireEffects_eq effects_ok_def)

lemma u32_Inr [simp]: "u32 x = Inr y \<longleftrightarrow> y = x \<and> 0 \<le> x \<and> x \<le> umax32"
  by (auto simp add: u32_def)

lemma charges_id: "i = 19 \<Longrightarrow> charges i = 7" "i \<noteq> 19 \<Longrightarrow> charges i \<in> {0, 1}"
  by (auto simp add: charges_def)

lemma announceEffect_cases:
  assumes "announceEffect p i target variant serial n = Inr (p', slot)"
  obtains e where "effect_ok e" and "fx_id e = i" and "fx_startsAt e = n + 1000"
    and "slot \<in> {0, 1}" and "fx_id (slot_of (fst (expireEffects p n)) slot) = 0"
    and "fx_id (fst (fst (expireEffects p n))) \<noteq> i" and "fx_id (snd (fst (expireEffects p n))) \<noteq> i"
    and "p' = set_slot (fst (expireEffects p n)) slot e"
proof -
  define q where "q = fst (expireEffects p n)"
  from assms obtain event where ev: "chaosEvent i = Inr event" by (auto simp add: announceEffect_def res_simps split: if_splits)
  from assms ev have *: "target \<in> {0, 1}" "fx_id (fst q) \<noteq> i" "fx_id (snd q) \<noteq> i" "slot \<in> {0, 1}"
      "fx_id (slot_of q slot) = 0" "0 \<le> n + 1000" "n + 1000 + ce_durationMs event \<le> umax32"
      "p' = set_slot q slot \<lparr>fx_id = i, fx_target = (if i \<ge> 12 then 2 else target),
        fx_remaining = charges i, fx_serial = serial, fx_startsAt = n + 1000,
        fx_expiresAt = n + 1000 + ce_durationMs event, fx_variant = variant\<rparr>"
    by (simp_all add: announceEffect_def res_simps Let_def q_def [symmetric] split: if_splits)
  from chaosEvent_Inr [OF ev] have d: "1 \<le> i" "i \<le> 24" "ce_durationMs event = duration i" by auto
  show ?thesis
    by (rule that [folded q_def, OF _ _ _ *(4,5,2,3,8)])
      (use * d charges_id [of i] in \<open>auto simp add: effect_ok_def\<close>)
qed

lemma announceEffect_ok:
  assumes "effects_ok p n" and "announceEffect p i target variant serial n = Inr (p', slot)"
  shows "effects_ok p' n"
proof -
  define q where "q = fst (expireEffects p n)"
  from assms(2) obtain e where e: "effect_ok e" "fx_id e = i" "slot \<in> {0, 1}"
    "fx_id (fst q) \<noteq> i" "fx_id (snd q) \<noteq> i" "p' = set_slot q slot e"
    by (rule announceEffect_cases) (auto simp add: q_def)
  from expireEffects_ok [OF assms(1)] have "effects_ok q n" by (simp add: q_def)
  with e show ?thesis by (auto simp add: effects_ok_def)
qed

lemma paddle_slot_ok:
  assumes "effects_ok (fst r) n" and "side \<in> {0, 1}" and "i \<in> {0, 1}"
  shows "effects_ok (fst (paddle_slot side dir vy central n i r)) n"
proof -
  obtain p s where r: "r = (p, s)" by (cases r)
  have moved: "effect_ok (e\<lparr>fx_target := side\<rparr>) \<and> unexpired (e\<lparr>fx_target := side\<rparr>) n = unexpired e n"
    if "effect_ok e" "fx_id e = 10" for e
    using that assms(2) by (auto simp add: effect_ok_def unexpired_def emptyEffect_def)
  have "fst (paddle_slot side dir vy central n i r) \<in>
      {p, set_slot p i emptyEffect} \<union>
      (if fx_id (slot_of p i) = 10 then {set_slot p i ((slot_of p i)\<lparr>fx_target := side\<rparr>)} else {})"
    by (simp add: paddle_slot_def r Let_def)
  moreover have "effects_ok (set_slot p i emptyEffect) n"
    using assms(1,3) by (auto simp add: effects_ok_def r)
  moreover have "effects_ok (set_slot p i ((slot_of p i)\<lparr>fx_target := side\<rparr>)) n"
    if "fx_id (slot_of p i) = 10"
    using assms(1,3) that moved by (auto simp add: effects_ok_def r)
  ultimately show ?thesis using assms(1) by (auto simp add: r split: if_splits)
qed

lemma effectPaddleHit_ok:
  assumes "effects_ok p n" and "effectPaddleHit p side dir vy central n = Inr (p', sh)"
  shows "effects_ok p' n"
proof -
  let ?f = "paddle_slot side dir vy central n"
  define r where "r = (p, \<lparr>sh_numerator = 1, sh_denominator = 1, sh_curveSign = 0, sh_consumedMask = 0\<rparr>)"
  have side: "side \<in> {0, 1}" and "p' = fst (?f 1 (?f 0 r))"
    using assms(2) by (auto simp add: effectPaddleHit_def r_def split: if_splits)
  moreover have "effects_ok (fst r) n" using assms(1) by (simp add: r_def)
  ultimately show ?thesis by (simp add: paddle_slot_ok)
qed

lemma consumeShield_ok:
  "effects_ok p n \<Longrightarrow> consumeShield p side n = Inr (p', saved, slot) \<Longrightarrow> effects_ok p' n"
  by (auto simp add: consumeShield_def effects_ok_def split: if_splits)

lemma brick_bits:
  assumes "1 \<le> r" and "r \<le> 7" and "brick \<in> {0, 1, 2}"
  shows "0 \<le> and32 r (not32 (shl32 1 brick))" and "and32 r (not32 (shl32 1 brick)) \<le> 7"
proof -
  have "r \<in> {1, 2, 3, 4, 5, 6, 7}" using assms(1,2) by auto
  moreover have "list_all (\<lambda>r. list_all (\<lambda>b. 0 \<le> and32 r (not32 (shl32 1 b))
      \<and> and32 r (not32 (shl32 1 b)) \<le> 7) [0, 1, 2]) [1, 2, 3, 4, 5, 6, 7]"
    by code_simp
  ultimately show "0 \<le> and32 r (not32 (shl32 1 brick))" "and32 r (not32 (shl32 1 brick)) \<le> 7"
    using assms(3) by (auto simp add: list_all_iff)
qed

lemma breakChaosBrick_ok:
  assumes "effects_ok p n" and "breakChaosBrick p slot brick n = Inr p'"
  shows "effects_ok p' n"
proof -
  define e where "e = slot_of p slot"
  define r where "r = and32 (fx_remaining e) (not32 (shl32 1 brick))"
  from assms(2) have s: "slot \<in> {0, 1}" "brick \<in> {0, 1, 2}" "fx_id e = 19" "activeEffect e n"
    "p' = set_slot p slot (if r = 0 then emptyEffect else e\<lparr>fx_remaining := r\<rparr>)"
    by (auto simp add: breakChaosBrick_def e_def r_def Let_def split: if_splits)
  have e: "effect_ok e" using assms(1) s(1) by (auto simp add: e_def effects_ok_def)
  with s(3) have "1 \<le> fx_remaining e" "fx_remaining e \<le> 7" by (auto simp add: effect_ok_def)
  from brick_bits [OF this s(2)] have "effect_ok (if r = 0 then emptyEffect else e\<lparr>fx_remaining := r\<rparr>)"
    using e s(3) by (auto simp add: effect_ok_def r_def)
  moreover have "unexpired (if r = 0 then emptyEffect else e\<lparr>fx_remaining := r\<rparr>) n \<Longrightarrow> unexpired e n"
    by (simp add: unexpired_def split: if_splits)
  ultimately show ?thesis using assms(1) s(1,3) by (auto simp add: effects_ok_def s(5) e_def unexpired_def)
qed

lemma pickup_reward: "1 \<le> and32 v 3 + 1 \<and> and32 v 3 + 1 \<le> 4"
proof -
  have "and32 v 3 = take_bit 2 (i32 v)"
    by (simp add: and32_def i32_small take_bit_eq_mask mask_eq_exp_minus_1)
  then show ?thesis by (simp add: take_bit_eq_mod)
qed

lemma collectChaosPickup_ok:
  assumes "effects_ok p n" and "collectChaosPickup p slot hitter n = Inr (p', reward)"
  shows "effects_ok p' n" and "1 \<le> reward" and "reward \<le> 4"
proof -
  define e where "e = slot_of p slot"
  define ot where "ot = slot_of p (1 - slot)"
  have ok: "\<not> (slot \<notin> {0, 1} \<or> hitter \<notin> {0, 1} \<or> \<not> activeEffect e n \<or> fx_id e \<noteq> 24)"
    using assms(2) unfolding collectChaosPickup_def e_def by (cases "slot \<notin> {0, 1} \<or> hitter \<notin> {0, 1}
      \<or> \<not> activeEffect (slot_of p slot) n \<or> fx_id (slot_of p slot) \<noteq> 24") simp_all
  from assms(2) have run: "rbind (u32 n) (\<lambda>start. rbind (chaosEvent (and32 (fx_variant e) 3 + 1)) (\<lambda>event.
     rbind (u32 (n + ce_durationMs event)) (\<lambda>expires.
     let u = \<lparr>fx_id = and32 (fx_variant e) 3 + 1, fx_target = hitter,
           fx_remaining = charges (and32 (fx_variant e) 3 + 1), fx_serial = fx_serial e,
           fx_startsAt = start, fx_expiresAt = expires, fx_variant = fx_variant e\<rparr>
     in Inr (if fx_id ot = and32 (fx_variant e) 3 + 1 \<and> n < fx_expiresAt ot
             then (set_slot (set_slot p (1 - slot) u) slot emptyEffect, and32 (fx_variant e) 3 + 1)
             else (set_slot p slot u, and32 (fx_variant e) 3 + 1))))) = Inr (p', reward)"
    using ok unfolding collectChaosPickup_def Let_def e_def [symmetric] ot_def [symmetric]
    by (simp only: if_not_P if_False)
  have rw0: "reward = and32 (fx_variant e) 3 + 1"
    using run by (auto simp add: res_simps Let_def split: if_splits)
  from run [folded rw0, unfolded rbind_eq_Inr u32_Inr] obtain event where
    ev: "chaosEvent reward = Inr event" and b: "0 \<le> n" "n + ce_durationMs event \<le> umax32"
    and pr: "(let u = \<lparr>fx_id = reward, fx_target = hitter, fx_remaining = charges reward, fx_serial = fx_serial e,
        fx_startsAt = n, fx_expiresAt = n + ce_durationMs event, fx_variant = fx_variant e\<rparr>
      in Inr (if fx_id ot = reward \<and> n < fx_expiresAt ot then (set_slot (set_slot p (1 - slot) u) slot emptyEffect, reward)
         else (set_slot p slot u, reward))) = (Inr (p', reward) :: (effect_pair \<times> int) res)" by blast
  have s: "slot \<in> {0, 1}" "hitter \<in> {0, 1}"
    "reward = and32 (fx_variant e) 3 + 1" "0 \<le> n" "n + ce_durationMs event \<le> umax32"
    "p' = (let u = \<lparr>fx_id = reward, fx_target = hitter, fx_remaining = charges reward, fx_serial = fx_serial e,
        fx_startsAt = n, fx_expiresAt = n + ce_durationMs event, fx_variant = fx_variant e\<rparr>
      in if fx_id ot = reward \<and> n < fx_expiresAt ot then set_slot (set_slot p (1 - slot) u) slot emptyEffect
         else set_slot p slot u)"
  proof -
    show "slot \<in> {0, 1}" "hitter \<in> {0, 1}" "reward = and32 (fx_variant e) 3 + 1" "0 \<le> n"
      "n + ce_durationMs event \<le> umax32" using ok rw0 b by simp_all
    show "p' = (let u = \<lparr>fx_id = reward, fx_target = hitter, fx_remaining = charges reward, fx_serial = fx_serial e,
        fx_startsAt = n, fx_expiresAt = n + ce_durationMs event, fx_variant = fx_variant e\<rparr>
      in if fx_id ot = reward \<and> n < fx_expiresAt ot then set_slot (set_slot p (1 - slot) u) slot emptyEffect
         else set_slot p slot u)"
    proof (cases "fx_id ot = reward \<and> n < fx_expiresAt ot")
      case True
      show ?thesis using pr unfolding Let_def if_P [OF True] by (simp only: sum.inject prod.inject)
    next
      case False
      show ?thesis using pr unfolding Let_def if_not_P [OF False] by (simp only: sum.inject prod.inject)
    qed
  qed
  show rw: "1 \<le> reward" "reward \<le> 4" using pickup_reward [of "fx_variant e"] by (simp_all add: s(3))
  from chaosEvent_Inr [OF ev] have d: "ce_durationMs event = duration reward" by simp
  define u where "u = \<lparr>fx_id = reward, fx_target = hitter, fx_remaining = charges reward, fx_serial = fx_serial e,
        fx_startsAt = n, fx_expiresAt = n + ce_durationMs event, fx_variant = fx_variant e\<rparr>"
  have u: "effect_ok u" "fx_id u = reward"
    using rw s(2,4,5) charges_id(2) [of reward] by (auto simp add: u_def effect_ok_def d)
  have ot: "effect_ok ot" using assms(1) s(1) by (auto simp add: ot_def effects_ok_def)
  have p': "p' = (if fx_id ot = reward \<and> n < fx_expiresAt ot then set_slot (set_slot p (1 - slot) u) slot emptyEffect
      else set_slot p slot u)" using s(6) by (simp add: u_def Let_def)
  show "effects_ok p' n"
    using s(1) u ot rw unfolding p' ot_def by (auto simp add: effects_ok_def unexpired_def)
qed

subsection \<open>All operations as steps\<close>

inductive effect_step :: "effect_pair \<times> int \<Rightarrow> effect_pair \<times> int \<Rightarrow> bool" where
  wait: "n \<le> m \<Longrightarrow> effect_step (p, n) (p, m)"
| expire: "effect_step (p, n) (fst (expireEffects p n), n)"
| announce: "announceEffect p i target variant serial n = Inr (p', slot) \<Longrightarrow> effect_step (p, n) (p', n)"
| paddle: "effectPaddleHit p side dir vy central n = Inr (p', sh) \<Longrightarrow> effect_step (p, n) (p', n)"
| shield: "consumeShield p side n = Inr (p', saved, slot) \<Longrightarrow> effect_step (p, n) (p', n)"
| brick: "breakChaosBrick p slot brick n = Inr p' \<Longrightarrow> effect_step (p, n) (p', n)"
| pickup: "collectChaosPickup p slot hitter n = Inr (p', reward) \<Longrightarrow> effect_step (p, n) (p', n)"
| reset: "effect_step (p, n) (emptyEffects, n)"

lemma effect_step_ok: "effect_step q q' \<Longrightarrow> effects_ok (fst q) (snd q) \<Longrightarrow> effects_ok (fst q') (snd q')"
proof (induction rule: effect_step.induct)
  case (wait n m p)
  then show ?case by (auto intro: effects_ok_later)
next
  case (expire p n)
  then show ?case by (simp add: expireEffects_ok)
next
  case (announce p i target variant serial n p' slot)
  then show ?case by (simp add: announceEffect_ok)
next
  case (paddle p side dir vy central n p' sh)
  then show ?case using effectPaddleHit_ok by simp
next
  case (shield p side n p' saved slot)
  then show ?case using consumeShield_ok by simp
next
  case (brick p slot brick n p')
  then show ?case using breakChaosBrick_ok by simp
next
  case (pickup p slot hitter n p' reward)
  then show ?case using collectChaosPickup_ok(1) by simp
next
  case (reset p n)
  show ?case by simp
qed

text \<open>Whatever sequence of announcements, paddle hits, shields, broken bricks, pickups and
  expiries the game goes through, with a clock that never runs backwards, both slots stay
  well-formed and no effect ever runs in both of them at once.\<close>

theorem effect_slots_invariant:
  assumes "effect_step\<^sup>*\<^sup>* (emptyEffects, start) (p, n)"
  shows "effects_ok p n"
proof -
  have "effects_ok (fst q) (snd q)" if "effect_step\<^sup>*\<^sup>* (emptyEffects, start) q" for q
    using that by (induction rule: rtranclp_induct) (simp_all add: effect_step_ok)
  from this [OF assms] show ?thesis by simp
qed

definition shield_effect :: runtime_effect where
  "shield_effect = \<lparr>fx_id = 3, fx_target = 1, fx_remaining = 1, fx_serial = 7, fx_startsAt = 1500,
     fx_expiresAt = 13500, fx_variant = 9\<rparr>"

theorem effect_slots_invariant_witness:
  "effect_step\<^sup>*\<^sup>* (emptyEffects, 500) ((shield_effect, emptyEffect), 2000)
   \<and> effects_ok (shield_effect, emptyEffect) 2000"
proof -
  have "announceEffect emptyEffects 3 1 9 7 500 = Inr ((shield_effect, emptyEffect), 0)" by code_simp
  then have "effect_step (emptyEffects, 500) ((shield_effect, emptyEffect), 500)" by (rule announce)
  moreover have "effect_step ((shield_effect, emptyEffect), 500) ((shield_effect, emptyEffect), 2000)"
    by (rule wait) simp
  ultimately have "effect_step\<^sup>*\<^sup>* (emptyEffects, 500) ((shield_effect, emptyEffect), 2000)" by simp
  with effect_slots_invariant [OF this] show ?thesis by simp
qed

text \<open>A shield returns one ball: it is consumed by exactly the side it protects, while it is
  active, the other slot is untouched, and the same side has no second save left.\<close>

theorem shield_saves_once:
  assumes "effects_ok p n" and "consumeShield p side n = Inr (p', saved, slot)"
  shows "(saved \<longleftrightarrow> shields (fst p) side n \<or> shields (snd p) side n)
    \<and> (\<exists>k. consumeShield p' side n = Inr (p', False, k))
    \<and> (if saved then p' = set_slot p slot emptyEffect \<and> shields (slot_of p slot) side n else p' = p)"
proof -
  obtain a b where p: "p = (a, b)" by (cases p)
  have one: "\<not> (shields a side n \<and> shields b side n)"
    using assms(1) by (auto simp add: effects_ok_def shields_def p dest!: active_unexpired)
  have side: "\<not> (side \<noteq> 0 \<and> side \<noteq> 1)" using assms(2) by (auto simp add: consumeShield_def split: if_splits)
  show ?thesis
    using assms(2) one side by (cases "shields a side n"; cases "shields b side n") (auto simp add: consumeShield_def p)
qed

theorem shield_saves_once_witness:
  "effects_ok (shield_effect, emptyEffect) 2000
   \<and> consumeShield (shield_effect, emptyEffect) 1 2000 = Inr (emptyEffects, True, 0)
   \<and> (\<exists>k. consumeShield emptyEffects 1 2000 = Inr (emptyEffects, False, k))"
proof -
  have ok: "effects_ok (shield_effect, emptyEffect) 2000"
    by (simp add: effects_ok_def effect_ok_def shield_effect_def umax32_def charges_def duration_def)
      code_simp
  have run: "consumeShield (shield_effect, emptyEffect) 1 2000 = Inr (emptyEffects, True, 0)" by code_simp
  from shield_saves_once [OF ok run] ok run show ?thesis by simp
qed

end
