(* ===== verification/Chaos_Modifiers.thy ===== *)
theory Chaos_Modifiers
  imports Chaos_Effects
begin

text \<open>
  \<^verbatim>\<open>shared/chaos-modifiers.ts\<close>, the paddles that bets and effects give, and
  \<^verbatim>\<open>shared/chaos-rally.ts\<close>, the score after the goals of one instant.
\<close>

record modifier_effect =
  me_id :: int
  me_target :: int
  me_startsAt :: int
  me_expiresAt :: int
  me_consumed :: bool

definition modifierActive :: "modifier_effect \<Rightarrow> int \<Rightarrow> bool" where
  "modifierActive e nowMs \<longleftrightarrow> me_id e \<noteq> 0 \<and> \<not> me_consumed e \<and> nowMs \<ge> me_startsAt e \<and> nowMs < me_expiresAt e"

record chaos_paddles =
  cp_heightA :: int
  cp_heightB :: int
  cp_speedA :: int
  cp_speedB :: int
  cp_splitA :: bool
  cp_splitB :: bool

text \<open>What the loop over the effects accumulates for one side.\<close>

record side_factors =
  sf_hn :: int
  sf_hd :: int
  sf_vn :: int
  sf_vd :: int
  sf_split :: bool

definition no_factors :: side_factors where
  "no_factors = \<lparr>sf_hn = 1, sf_hd = 1, sf_vn = 1, sf_vd = 1, sf_split = False\<rparr>"

definition modify_side :: "int \<Rightarrow> int \<Rightarrow> modifier_effect \<Rightarrow> side_factors \<Rightarrow> side_factors" where
  "modify_side nowMs side e f =
    (if \<not> modifierActive e nowMs then f
     else if me_target e \<noteq> side \<and> me_id e \<noteq> 23 then f
     else let
       f = (if me_id e = 1 \<or> me_id e = 23 then f\<lparr>sf_hn := sf_hn f * 5, sf_hd := sf_hd f * 4\<rparr> else f);
       f = (if me_id e = 7 \<or> me_id e = 9 then f\<lparr>sf_hn := sf_hn f * 4, sf_hd := sf_hd f * 5\<rparr> else f);
       f = (if me_id e = 2 then f\<lparr>sf_vn := sf_vn f * 13, sf_vd := sf_vd f * 10\<rparr> else f);
       f = (if me_id e = 8 \<or> me_id e = 10 \<and> nowMs \<ge> me_startsAt e + 4000
            then f\<lparr>sf_vn := sf_vn f * 4, sf_vd := sf_vd f * 5\<rparr> else f)
     in if me_id e = 11 then f\<lparr>sf_split := True\<rparr> else f)"

definition side_factors :: "modifier_effect \<times> modifier_effect \<Rightarrow> int \<Rightarrow> int \<Rightarrow> side_factors" where
  "side_factors effects nowMs side =
    fold (modify_side nowMs side) [fst effects, snd effects] no_factors"

definition invalid_modifier :: "modifier_effect \<Rightarrow> bool" where
  "invalid_modifier e \<longleftrightarrow> me_id e < 0 \<or> me_id e > 24 \<or> me_target e < 0 \<or> me_target e > 2
    \<or> me_id e \<noteq> 0 \<and> me_expiresAt e \<le> me_startsAt e"

definition swap_sizes :: "int \<Rightarrow> modifier_effect \<Rightarrow> int \<times> int \<Rightarrow> int \<times> int" where
  "swap_sizes nowMs e sizes =
    (if modifierActive e nowMs \<and> me_id e = 12 then (snd sizes, fst sizes) else sizes)"

definition bound_height :: "int \<Rightarrow> int" where
  "bound_height n = (if n < 64 * 1000000 then 64 * 1000000 else if n > 120 * 1000000 then 120 * 1000000 else n)"

definition chaosPaddles ::
    "int \<Rightarrow> int \<Rightarrow> modifier_effect \<times> modifier_effect \<Rightarrow> int \<Rightarrow> chaos_paddles res" where
  "chaosPaddles bettingA bettingB effects nowMs =
    (if bettingA < 72 * 1000000 \<or> bettingA > 96 * 1000000
        \<or> bettingB < 72 * 1000000 \<or> bettingB > 96 * 1000000 then Inl ''Invalid effect state''
     else if invalid_modifier (fst effects) \<or> invalid_modifier (snd effects) then Inl ''Invalid effect state''
     else let
       sizes = fold (swap_sizes nowMs) [fst effects, snd effects] (bettingA, bettingB);
       a = side_factors effects nowMs 0; b = side_factors effects nowMs 1
     in Inr \<lparr>cp_heightA = bound_height (tdiv (fst sizes * sf_hn a) (sf_hd a)),
             cp_heightB = bound_height (tdiv (snd sizes * sf_hn b) (sf_hd b)),
             cp_speedA = tdiv (180 * 1000000 * sf_vn a) (sf_vd a),
             cp_speedB = tdiv (180 * 1000000 * sf_vn b) (sf_vd b),
             cp_splitA = sf_split a, cp_splitB = sf_split b\<rparr>)"

definition chaosOuterHalf :: "int \<Rightarrow> bool \<Rightarrow> int" where
  "chaosOuterHalf solidHeight split = tdiv (solidHeight + (if split then 16000000 else 0)) 2"

subsection \<open>Bounds and fairness\<close>

text \<open>Each effect scales a height by 5/4 or 4/5 at most and a speed by 13/10 or 4/5 at most.\<close>

definition factors_within :: "side_factors \<Rightarrow> int \<Rightarrow> bool" where
  "factors_within f k \<longleftrightarrow> 0 < sf_hd f \<and> 0 < sf_vd f \<and> 0 < sf_hn f
     \<and> (k = 0 \<longrightarrow> sf_vn f = sf_vd f)
     \<and> (k = 1 \<longrightarrow> 4 * sf_vd f \<le> 5 * sf_vn f \<and> 10 * sf_vn f \<le> 13 * sf_vd f)
     \<and> (k = 2 \<longrightarrow> 16 * sf_vd f \<le> 25 * sf_vn f \<and> 100 * sf_vn f \<le> 169 * sf_vd f)"

lemma no_factors_within: "factors_within no_factors 0"
  by (simp add: factors_within_def no_factors_def)

lemma modify_side_cases:
  obtains "modify_side n side e f = f"
  | "modify_side n side e f = f\<lparr>sf_hn := sf_hn f * 5, sf_hd := sf_hd f * 4\<rparr>"
  | "modify_side n side e f = f\<lparr>sf_hn := sf_hn f * 4, sf_hd := sf_hd f * 5\<rparr>"
  | "modify_side n side e f = f\<lparr>sf_vn := sf_vn f * 13, sf_vd := sf_vd f * 10\<rparr>"
  | "modify_side n side e f = f\<lparr>sf_vn := sf_vn f * 4, sf_vd := sf_vd f * 5\<rparr>"
  | "modify_side n side e f = f\<lparr>sf_split := True\<rparr>"
proof (cases "\<not> modifierActive e n \<or> me_target e \<noteq> side \<and> me_id e \<noteq> 23")
  case True
  then have "modify_side n side e f = f" by (auto simp add: modify_side_def)
  then show ?thesis by (rule that(1))
next
  case False
  then have m: "modifierActive e n" "me_target e = side \<or> me_id e = 23" by auto
  consider "me_id e \<in> {1, 23}" | "me_id e \<in> {7, 9}" | "me_id e = 2"
    | "me_id e = 8 \<or> me_id e = 10 \<and> n \<ge> me_startsAt e + 4000" | "me_id e = 11"
    | "me_id e \<notin> {1, 2, 7, 8, 9, 11, 23} \<and> \<not> (me_id e = 10 \<and> n \<ge> me_startsAt e + 4000)" by auto
  then show ?thesis
  proof cases
    case 1 then show ?thesis using m by (intro that(2)) (auto simp add: modify_side_def)
  next
    case 2 then show ?thesis using m by (intro that(3)) (auto simp add: modify_side_def)
  next
    case 3 then show ?thesis using m by (intro that(4)) (auto simp add: modify_side_def)
  next
    case 4 then show ?thesis using m by (intro that(5)) (auto simp add: modify_side_def)
  next
    case 5 then show ?thesis using m by (intro that(6)) (auto simp add: modify_side_def)
  next
    case 6 then show ?thesis using m by (intro that(1)) (auto simp add: modify_side_def Let_def)
  qed
qed

lemma modify_side_within:
  assumes "factors_within f k" and "k = 0 \<or> k = 1"
  shows "factors_within (modify_side n side e f) (k + 1)"
  using assms by (cases n side e f rule: modify_side_cases) (auto simp add: factors_within_def)

lemma side_factors_within: "factors_within (side_factors effects n side) 2"
  using modify_side_within [OF modify_side_within [OF no_factors_within], of n side "snd effects" n side "fst effects"]
  by (simp add: side_factors_def)

lemma chaosPaddles_range:
  assumes "72000000 \<le> bettingA" and "bettingA \<le> 96000000" and "72000000 \<le> bettingB" and "bettingB \<le> 96000000"
    and "\<not> invalid_modifier (fst effects)" and "\<not> invalid_modifier (snd effects)"
  shows "\<exists>p. chaosPaddles bettingA bettingB effects nowMs = Inr p
    \<and> cp_heightA p \<in> {64000000..120000000} \<and> cp_heightB p \<in> {64000000..120000000}
    \<and> cp_speedA p \<in> {115200000..304200000} \<and> cp_speedB p \<in> {115200000..304200000}"
proof -
  have b: "bound_height x \<in> {64000000..120000000}" for x by (simp add: bound_height_def)
  have v: "tdiv (180 * 1000000 * sf_vn f) (sf_vd f) \<in> {115200000..304200000}" if "factors_within f 2" for f
  proof -
    have d: "0 < sf_vd f" and lo: "16 * sf_vd f \<le> 25 * sf_vn f" and hi: "100 * sf_vn f \<le> 169 * sf_vd f"
      using that by (simp_all add: factors_within_def)
    have n0: "0 \<le> 180 * 1000000 * sf_vn f" using d lo by linarith
    have eq: "tdiv (180 * 1000000 * sf_vn f) (sf_vd f) = (180 * 1000000 * sf_vn f) div sf_vd f"
      by (rule tdiv_nonneg_eq [OF n0 d])
    have "115200000 * sf_vd f \<le> 180 * 1000000 * sf_vn f" using lo by linarith
    then have "115200000 \<le> (180 * 1000000 * sf_vn f) div sf_vd f"
      using zdiv_mono1 [OF _ d, of "115200000 * sf_vd f"] d by fastforce
    moreover have "180 * 1000000 * sf_vn f \<le> 304200000 * sf_vd f" using hi by linarith
    then have "(180 * 1000000 * sf_vn f) div sf_vd f \<le> 304200000"
      using zdiv_mono1 [OF _ d, of _ "304200000 * sf_vd f"] d by fastforce
    ultimately show ?thesis unfolding eq by simp
  qed
  show ?thesis
    using assms b v [OF side_factors_within] by (simp add: chaosPaddles_def Let_def del: atLeastAtMost_iff)
qed

text \<open>For every pair of effects and every betting height the rules allow, the paddles of the
  Chaos mode exist and stay playable: between 64 and 120 units high, and moving at a speed
  between 115.2 and 304.2 units per second.\<close>

theorem chaosPaddles_bounds:
  assumes "72000000 \<le> bettingA" and "bettingA \<le> 96000000" and "72000000 \<le> bettingB" and "bettingB \<le> 96000000"
    and "\<not> invalid_modifier (fst effects)" and "\<not> invalid_modifier (snd effects)"
  shows "\<exists>p. chaosPaddles bettingA bettingB effects nowMs = Inr p
    \<and> cp_heightA p \<in> {64000000..120000000} \<and> cp_heightB p \<in> {64000000..120000000}
    \<and> cp_speedA p \<in> {115200000..304200000} \<and> cp_speedB p \<in> {115200000..304200000}"
  using assms by (rule chaosPaddles_range)

definition no_modifier :: modifier_effect where
  "no_modifier = \<lparr>me_id = 0, me_target = 0, me_startsAt = 0, me_expiresAt = 0, me_consumed = False\<rparr>"

definition boss_modifier :: modifier_effect where
  "boss_modifier = \<lparr>me_id = 23, me_target = 2, me_startsAt = 100, me_expiresAt = 8100, me_consumed = False\<rparr>"

theorem chaosPaddles_bounds_witness:
  "\<not> invalid_modifier boss_modifier \<and> \<not> invalid_modifier no_modifier
   \<and> (\<exists>p. chaosPaddles 96000000 80000000 (boss_modifier, no_modifier) 500 = Inr p
      \<and> cp_heightA p = 120000000 \<and> cp_heightB p = 100000000 \<and> cp_heightA p \<in> {64000000..120000000})"
proof -
  have i: "\<not> invalid_modifier boss_modifier" "\<not> invalid_modifier no_modifier"
    by (simp_all add: invalid_modifier_def boss_modifier_def no_modifier_def)
  have "chaosPaddles 96000000 80000000 (boss_modifier, no_modifier) 500 = Inr \<lparr>cp_heightA = 120000000,
      cp_heightB = 100000000, cp_speedA = 180000000, cp_speedB = 180000000, cp_splitA = False, cp_splitB = False\<rparr>"
    by code_simp
  with chaosPaddles_bounds [of 96000000 80000000 "(boss_modifier, no_modifier)" 500] i show ?thesis by simp
qed

text \<open>The court seen from the other side.\<close>

definition mirror_effect :: "modifier_effect \<Rightarrow> modifier_effect" where
  "mirror_effect e = e\<lparr>me_target := (if me_target e = 0 then 1 else if me_target e = 1 then 0 else me_target e)\<rparr>"

definition mirror_paddles :: "chaos_paddles \<Rightarrow> chaos_paddles" where
  "mirror_paddles p = \<lparr>cp_heightA = cp_heightB p, cp_heightB = cp_heightA p, cp_speedA = cp_speedB p,
     cp_speedB = cp_speedA p, cp_splitA = cp_splitB p, cp_splitB = cp_splitA p\<rparr>"

lemma mirror_side:
  "modify_side n 0 (mirror_effect e) f = modify_side n 1 e f"
  "modify_side n 1 (mirror_effect e) f = modify_side n 0 e f"
  by (simp_all add: modify_side_def mirror_effect_def modifierActive_def)

lemma mirror_invalid: "invalid_modifier (mirror_effect e) = invalid_modifier e"
  by (auto simp add: invalid_modifier_def mirror_effect_def)

lemma mirror_swap: "swap_sizes n (mirror_effect e) (b, a) = prod.swap (swap_sizes n e (a, b))"
  by (simp add: swap_sizes_def mirror_effect_def modifierActive_def)

text \<open>The modifiers are fair: exchanging the two bets and the targets of both effects gives the
  same paddles with the sides exchanged, for all inputs and errors included.\<close>

theorem chaosPaddles_mirror:
  "chaosPaddles bettingB bettingA (mirror_effect (fst effects), mirror_effect (snd effects)) nowMs =
   map_sum id mirror_paddles (chaosPaddles bettingA bettingB effects nowMs)"
proof -
  obtain e1 e2 where e: "effects = (e1, e2)" by (cases effects)
  obtain a b where ab: "swap_sizes nowMs e1 (bettingA, bettingB) = (a, b)" by force
  have s: "swap_sizes nowMs (mirror_effect e2) (swap_sizes nowMs (mirror_effect e1) (bettingB, bettingA))
      = prod.swap (swap_sizes nowMs e2 (swap_sizes nowMs e1 (bettingA, bettingB)))"
    using mirror_swap [of nowMs e1 bettingB bettingA] by (simp add: ab mirror_swap)
  have f: "side_factors (mirror_effect e1, mirror_effect e2) nowMs 0 = side_factors (e1, e2) nowMs 1"
    "side_factors (mirror_effect e1, mirror_effect e2) nowMs 1 = side_factors (e1, e2) nowMs 0"
    by (simp_all add: side_factors_def mirror_side)
  show ?thesis
    by (auto simp add: chaosPaddles_def Let_def e f s mirror_invalid mirror_paddles_def)
qed

subsection \<open>Scoring\<close>

record chaos_score =
  cs_a :: int
  cs_b :: int
  cs_rally :: int
  cs_finished :: bool
  cs_winner :: int

definition resolveChaosGoals :: "chaos_score \<Rightarrow> int \<Rightarrow> bool \<Rightarrow> (chaos_score \<times> bool \<times> bool) res" where
  "resolveChaosGoals s simultaneousGoals jackpot =
    (if cs_a s < 0 \<or> cs_b s < 0 \<or> cs_a s > 7 \<or> cs_b s > 7 \<or> simultaneousGoals \<notin> {0, 1, 2, 3}
     then Inl ''Invalid goal state''
     else if cs_finished s \<or> simultaneousGoals = 0 then Inr (s, False, False)
     else if cs_a s \<ge> 7 \<or> cs_b s \<ge> 7 \<or> cs_rally s < 0 \<or> cs_rally s \<ge> umax32
     then Inl ''Invalid goal state''
     else let s = s\<lparr>cs_rally := cs_rally s + 1\<rparr> in
       if simultaneousGoals = 3 then Inr (s, False, False)
       else let
         delta = (if jackpot then 2 else 1);
         s = (if simultaneousGoals = 1 then s\<lparr>cs_a := min 7 (cs_a s + delta)\<rparr>
              else s\<lparr>cs_b := min 7 (cs_b s + delta)\<rparr>);
         s = s\<lparr>cs_finished := (cs_a s \<ge> 7 \<or> cs_b s \<ge> 7)\<rparr>;
         s = (if cs_finished s then s\<lparr>cs_winner := (if cs_a s \<ge> 7 then 1 else 2)\<rparr> else s)
       in Inr (s, True, cs_finished s))"

definition chaos_score_ok :: "chaos_score \<Rightarrow> bool" where
  "chaos_score_ok s \<longleftrightarrow> 0 \<le> cs_a s \<and> cs_a s \<le> 7 \<and> 0 \<le> cs_b s \<and> cs_b s \<le> 7
    \<and> 1 \<le> cs_rally s \<and> cs_rally s \<le> umax32
    \<and> \<not> (cs_a s = 7 \<and> cs_b s = 7) \<and> (cs_finished s \<longleftrightarrow> cs_a s = 7 \<or> cs_b s = 7)
    \<and> cs_winner s = (if cs_a s = 7 then 1 else if cs_b s = 7 then 2 else 0)"

lemma resolveChaosGoals_next:
  assumes "chaos_score_ok s" and "\<not> cs_finished s" and "cs_rally s < umax32" and "goals \<in> {1, 2, 3}"
  shows "\<exists>s'. resolveChaosGoals s goals jackpot = Inr (s', goals \<noteq> 3, cs_finished s') \<and> chaos_score_ok s'
    \<and> cs_rally s' = cs_rally s + 1
    \<and> cs_a s' = (if goals = 1 then min 7 (cs_a s + (if jackpot then 2 else 1)) else cs_a s)
    \<and> cs_b s' = (if goals = 2 then min 7 (cs_b s + (if jackpot then 2 else 1)) else cs_b s)
    \<and> (cs_finished s' \<longleftrightarrow> cs_a s' = 7 \<or> cs_b s' = 7)"
proof -
  from assms have lt: "0 \<le> cs_a s" "cs_a s < 7" "0 \<le> cs_b s" "cs_b s < 7" "1 \<le> cs_rally s"
      "cs_rally s < umax32" "cs_winner s = 0"
    by (auto simp add: chaos_score_ok_def)
  define d where "d = (if jackpot then 2 else 1 :: int)"
  have d: "0 < d" by (simp add: d_def)
  from assms(4) consider "goals = 1" | "goals = 2" | "goals = 3" by auto
  then show ?thesis
  proof cases
    case 1
    then show ?thesis
      using lt assms(2) d by (cases "cs_a s + d < 7")
        (simp_all add: resolveChaosGoals_def Let_def d_def [symmetric] chaos_score_ok_def min_def)
  next
    case 2
    then show ?thesis
      using lt assms(2) d by (cases "cs_b s + d < 7")
        (simp_all add: resolveChaosGoals_def Let_def d_def [symmetric] chaos_score_ok_def min_def)
  next
    case 3
    then show ?thesis
      using lt assms(2) by (simp add: resolveChaosGoals_def Let_def chaos_score_ok_def)
  qed
qed

text \<open>From a well-formed score in a running match, a goal always resolves to a well-formed score
  of the next rally: two goals at the same instant count for nobody, one goal is worth one point
  (two under the jackpot, capped at seven), to the scorer only, and the match ends exactly when
  a side reaches seven, with that side as the winner.\<close>

theorem resolveChaosGoals_point:
  assumes "chaos_score_ok s" and "\<not> cs_finished s" and "cs_rally s < umax32" and "goals \<in> {1, 2, 3}"
  shows "\<exists>s'. resolveChaosGoals s goals jackpot = Inr (s', goals \<noteq> 3, cs_finished s') \<and> chaos_score_ok s'
    \<and> cs_rally s' = cs_rally s + 1
    \<and> cs_a s' = (if goals = 1 then min 7 (cs_a s + (if jackpot then 2 else 1)) else cs_a s)
    \<and> cs_b s' = (if goals = 2 then min 7 (cs_b s + (if jackpot then 2 else 1)) else cs_b s)
    \<and> (cs_finished s' \<longleftrightarrow> cs_a s' = 7 \<or> cs_b s' = 7)"
  using assms by (rule resolveChaosGoals_next)

theorem resolveChaosGoals_point_witness:
  "chaos_score_ok \<lparr>cs_a = 6, cs_b = 4, cs_rally = 11, cs_finished = False, cs_winner = 0\<rparr>
   \<and> (\<exists>s'. resolveChaosGoals \<lparr>cs_a = 6, cs_b = 4, cs_rally = 11, cs_finished = False, cs_winner = 0\<rparr> 1 True
        = Inr (s', True, cs_finished s') \<and> cs_a s' = 7 \<and> cs_finished s')"
  using resolveChaosGoals_point [of "\<lparr>cs_a = 6, cs_b = 4, cs_rally = 11, cs_finished = False, cs_winner = 0\<rparr>" 1 True]
  by (auto simp add: chaos_score_ok_def umax32_def)

end
