(* ===== verification/Chaos_Physics.thy ===== *)
theory Chaos_Physics
  imports Chaos_Collision Chaos_Modifiers
begin

text \<open>
  \<^verbatim>\<open>shared/physics-chaos-events.ts\<close>: the Chaos event physics, operation by operation.  The
  code clones the source state and mutates the clone; here each operation returns the new
  state, or the message it throws.  Two-element arrays are pairs, the seed is the integer it
  denotes.
\<close>

definition CHAOS_P :: int where "CHAOS_P = 1000000000000"
definition STEP :: int where "STEP = 10000"
definition FIFTEEN :: int where "FIFTEEN = 261799387799"

abbreviation "P \<equiv> CHAOS_P"

record chaos_ball =
  b_x :: int
  b_y :: int
  b_vx :: int
  b_vy :: int
  b_powerN :: int
  b_powerD :: int
  b_curveSteps :: int
  b_curveSign :: int
  b_lastHitter :: int
  b_ghost :: int
  b_portalLock :: bool
  b_warp :: bool
  b_gravity :: bool
  b_gravityUsed :: int
  b_trailRevision :: int
  b_alive :: bool

record chaos_state =
  z_balls :: "chaos_ball \<times> chaos_ball"
  z_effects :: effect_pair
  z_score :: chaos_score
  z_left :: int
  z_right :: int
  z_leftDir :: int
  z_rightDir :: int
  z_lastLeft :: int
  z_lastRight :: int
  z_t :: int
  z_nextForce :: int
  z_activeMask :: int
  z_collisionSequence :: int
  z_bettingA :: int
  z_bettingB :: int
  z_seed :: int
  z_cancelled :: bool
  z_cancelReason :: int
  z_stalled :: int

record chaos_hit =
  hit_sequence :: int
  hit_rally :: int
  hit_ball :: int
  hit_kind :: int
  hit_obstacle :: int
  hit_at :: int
  hit_x :: int
  hit_y :: int

record candidate =
  k_dt :: int
  k_kind :: int
  k_ball :: int
  k_slot :: int
  k_obstacle :: int
  k_nx :: int
  k_ny :: int

definition emptyBall :: chaos_ball where
  "emptyBall = \<lparr>b_x = 0, b_y = 0, b_vx = 0, b_vy = 0, b_powerN = 0, b_powerD = 0, b_curveSteps = 0,
     b_curveSign = 0, b_lastHitter = 0, b_ghost = 0, b_portalLock = False, b_warp = False,
     b_gravity = False, b_gravityUsed = 0, b_trailRevision = 0, b_alive = False\<rparr>"

definition now_ms :: "chaos_state \<Rightarrow> int" where
  "now_ms s = tdiv (z_t s) 1000"

definition has_effect :: "chaos_state \<Rightarrow> int \<Rightarrow> bool" where
  "has_effect s i \<longleftrightarrow> fx_id (fst (z_effects s)) = i \<and> activeEffect (fst (z_effects s)) (now_ms s)
    \<or> fx_id (snd (z_effects s)) = i \<and> activeEffect (snd (z_effects s)) (now_ms s)"

definition variant_of :: "chaos_state \<Rightarrow> int \<Rightarrow> int" where
  "variant_of s i = (if fx_id (fst (z_effects s)) = i then fx_variant (fst (z_effects s))
     else if fx_id (snd (z_effects s)) = i then fx_variant (snd (z_effects s)) else 0)"

definition modifier_of :: "runtime_effect \<Rightarrow> modifier_effect" where
  "modifier_of e = \<lparr>me_id = fx_id e, me_target = fx_target e, me_startsAt = fx_startsAt e,
     me_expiresAt = fx_expiresAt e, me_consumed = False\<rparr>"

definition paddles :: "chaos_state \<Rightarrow> chaos_paddles res" where
  "paddles s = chaosPaddles (z_bettingA s) (z_bettingB s)
     (modifier_of (fst (z_effects s)), modifier_of (snd (z_effects s))) (now_ms s)"

definition outer :: "int \<Rightarrow> bool \<Rightarrow> int" where
  "outer height split = tdiv ((height + (if split then 16000000 else 0)) * 1000000) 2"

definition clamp_chaos :: "int \<Rightarrow> int \<Rightarrow> int" where
  "clamp_chaos y half = (if y < half then half else if y > 576 * P - half then 576 * P - half else y)"

definition inside :: "int \<Rightarrow> int \<Rightarrow> int \<Rightarrow> int \<Rightarrow> int \<Rightarrow> bool" where
  "inside x y cx cy r \<longleftrightarrow> (x - cx) * (x - cx) + (y - cy) * (y - cy) \<le> r * r"

definition portal :: "int \<Rightarrow> int \<Rightarrow> int \<times> int" where
  "portal v i = (if i = 0 then 320 * P else 704 * P, if and32 v 1 = i then 180 * P else 396 * P)"

definition brickY :: "int \<Rightarrow> int" where
  "brickY i = (200 + 88 * i) * P"

definition overlap :: "chaos_state \<Rightarrow> chaos_ball \<Rightarrow> int \<Rightarrow> bool" where
  "overlap s b bt =
    (if bt = 0 then has_effect s 13 \<and> inside (b_x b) (b_y b) (512 * P) (288 * P) (34 * P)
     else if bt = 1 \<or> bt = 2 then
       let (x, y) = portal (variant_of s 14) (bt - 1)
       in has_effect s 14 \<and> inside (b_x b) (b_y b) x y (24 * P)
     else if bt = 3 then
       has_effect s 18 \<and>
       (let dx = b_x b - 512 * P; dy = b_y b - 288 * P;
            sign = (if and32 (variant_of s 18) 1 = 0 then -1 else 1);
            u = dx + sign * dy; v = - sign * dx + dy; tip = 44 * 1414213562373;
            nearest = (if u < - tip then - tip else if u > tip then tip else u)
        in inside u v nearest 0 (10 * 1414213562373))
     else if bt \<ge> 4 \<and> bt \<le> 6 then
       has_effect s 19 \<and> \<bar>b_x b - 512 * P\<bar> \<le> 34 * P \<and> \<bar>b_y b - brickY (bt - 4)\<bar> \<le> 14 * P
     else if bt = 7 then has_effect s 24 \<and> inside (b_x b) (b_y b) (512 * P) (120 * P) (22 * P)
     else False)"

definition factors :: "chaos_state \<Rightarrow> chaos_ball \<Rightarrow> (int \<times> int) res" where
  "factors s b = (if b_powerN b = 0 \<or> b_powerD b = 0 then Inl range_error else
     let (n, d) = (b_powerN b, b_powerD b);
         (n, d) = (if has_effect s 23 then (n * 5, d * 4) else (n, d));
         (n, d) = (if b_warp b \<and> has_effect s 15 then (n * 6, d * 5) else (n, d))
     in Inr (n, d))"

definition velocity :: "chaos_state \<Rightarrow> chaos_ball \<Rightarrow> (int \<times> int) res" where
  "velocity s b = rbind (factors s b) (\<lambda>(n, d).
     let vx = tdiv (b_vx b * n) d; vy = tdiv (b_vy b * n) d in
     rbind (geometryCheck (b_x b) (b_y b) vx vy) (\<lambda>_. Inr (vx, vy)))"

definition both_balls :: "(int \<Rightarrow> chaos_ball \<Rightarrow> chaos_ball res) \<Rightarrow> chaos_ball \<times> chaos_ball
    \<Rightarrow> (chaos_ball \<times> chaos_ball) res" where
  "both_balls f balls =
    rbind (if b_alive (fst balls) then f 0 (fst balls) else Inr (fst balls)) (\<lambda>b0.
    rbind (if b_alive (snd balls) then f 1 (snd balls) else Inr (snd balls)) (\<lambda>b1. Inr (b0, b1)))"

definition move_ball :: "chaos_state \<Rightarrow> int \<Rightarrow> chaos_ball \<Rightarrow> chaos_ball res" where
  "move_ball s dt b = rbind (velocity s b) (\<lambda>(vx, vy).
     let b = b\<lparr>b_x := b_x b + vx * dt, b_y := b_y b + vy * dt\<rparr> in
     rbind (geometryCheck (b_x b) (b_y b) vx vy) (\<lambda>_. Inr b))"

definition move_chaos :: "chaos_state \<Rightarrow> int \<Rightarrow> chaos_state res" where
  "move_chaos s to =
    (if to < z_t s then Inl range_error else
     let s = (if to > z_t s then s\<lparr>z_stalled := 0\<rparr> else s); dt = to - z_t s in
     rbind (paddles s) (\<lambda>ps.
     rbind (both_balls (\<lambda>_. move_ball s dt) (z_balls s)) (\<lambda>balls.
       Inr (s\<lparr>z_balls := balls,
         z_left := clamp_chaos (z_left s + z_leftDir s * cp_speedA ps * dt) (outer (cp_heightA ps) (cp_splitA ps)),
         z_right := clamp_chaos (z_right s + z_rightDir s * cp_speedB ps * dt) (outer (cp_heightB ps) (cp_splitB ps)),
         z_t := to\<rparr>))))"

subsection \<open>Births, overlaps and zones\<close>

definition obstacle_id :: "int \<Rightarrow> int" where
  "obstacle_id bt = (if bt = 0 then 13 else if bt < 3 then 14 else if bt = 3 then 18
     else if bt < 7 then 19 else 24)"

definition mark_ghost :: "chaos_state \<Rightarrow> int \<Rightarrow> int \<Rightarrow> int \<Rightarrow> chaos_ball \<Rightarrow> chaos_ball" where
  "mark_ghost s born ball bt b =
    (let covered = overlap s b bt in
     if (and32 born (shl32 1 (obstacle_id bt - 1)) \<noteq> 0
         \<or> ball = 1 \<and> and32 born (shl32 1 20) \<noteq> 0) \<and> covered
     then b\<lparr>b_ghost := or32 (b_ghost b) (shl32 1 bt)\<rparr>
     else if \<not> covered then b\<lparr>b_ghost := and32 (b_ghost b) (not32 (shl32 1 bt))\<rparr> else b)"

definition prepare_ball :: "chaos_state \<Rightarrow> int \<Rightarrow> int \<Rightarrow> chaos_ball \<Rightarrow> chaos_ball" where
  "prepare_ball s born ball b =
    (let b = fold (mark_ghost s born ball) [0, 1, 2, 3, 4, 5, 6, 7] b;
         b = (if \<not> has_effect s 14 \<or> \<not> overlap s b 1 \<and> \<not> overlap s b 2
              then b\<lparr>b_portalLock := False\<rparr> else b);
         b = b\<lparr>b_warp := has_effect s 15 \<and>
           (b_x b > 480 * P \<and> b_x b < 544 * P
            \<or> b_x b = 480 * P \<and> (b_vx b > 0 \<or> b_vx b = 0 \<and> b_warp b)
            \<or> b_x b = 544 * P \<and> (b_vx b < 0 \<or> b_vx b = 0 \<and> b_warp b))\<rparr>;
         gx = b_x b - 512 * P; gy = b_y b - 288 * P;
         distance2 = gx * gx + gy * gy; radius2 = 160 * P * 160 * P;
         grav = has_effect s 16 \<and> (distance2 < radius2
           \<or> distance2 = radius2 \<and> gx * b_vx b + gy * b_vy b < 0);
         b = (if \<not> grav \<or> \<not> b_gravity b then b\<lparr>b_gravityUsed := 0\<rparr> else b)
     in b\<lparr>b_gravity := grav\<rparr>)"

definition effect_mask :: "chaos_state \<Rightarrow> int" where
  "effect_mask s = fold (\<lambda>e mask. if activeEffect e (now_ms s) then or32 mask (shl32 1 (fx_id e - 1)) else mask)
     [fst (z_effects s), snd (z_effects s)] 0"

definition prepare :: "chaos_state \<Rightarrow> chaos_state res" where
  "prepare s =
    (let mask = effect_mask s;
         born = and32 mask (not32 (z_activeMask s));
         (b0, b1) = z_balls s;
         b1 = (if and32 born (shl32 1 20) \<noteq> 0
               then b0\<lparr>b_vy := - b_vy b0, b_alive := True, b_trailRevision := b_trailRevision b0 + 1\<rparr> else b1);
         b1 = (if and32 mask (shl32 1 20) = 0 then b1\<lparr>b_alive := False\<rparr> else b1);
         s = s\<lparr>z_balls := (if b_alive b0 then prepare_ball s born 0 b0 else b0,
                           if b_alive b1 then prepare_ball s born 1 b1 else b1),
               z_activeMask := mask\<rparr>
     in rbind (paddles s) (\<lambda>ps.
       let s = s\<lparr>z_left := clamp_chaos (z_left s) (outer (cp_heightA ps) (cp_splitA ps)),
                 z_right := clamp_chaos (z_right s) (outer (cp_heightB ps) (cp_splitB ps))\<rparr>
       in Inr (s\<lparr>z_effects := fst (expireEffects (z_effects s) (now_ms s))\<rparr>)))"

subsection \<open>Forces\<close>

definition needsGrid :: "chaos_state \<Rightarrow> bool" where
  "needsGrid s =
    (let wind = has_effect s 17; well = has_effect s 16;
         needs = (\<lambda>b. b_alive b \<and> (wind \<or> b_curveSteps b \<noteq> 0 \<or> well \<and> b_gravity b))
     in needs (fst (z_balls s)) \<or> needs (snd (z_balls s)))"

definition curve_ball :: "chaos_ball \<Rightarrow> chaos_ball res" where
  "curve_ball b = (if b_curveSteps b = 0 then Inr b else
     let previous = 150 - b_curveSteps b;
         angle = (tdiv ((previous + 1) * 349065850399) 150 - tdiv (previous * 349065850399) 150) * b_curveSign b
     in rbind (rotateVelocity (b_vx b) (b_vy b) angle) (\<lambda>(vx, vy).
          Inr (b\<lparr>b_vx := vx, b_vy := vy, b_curveSteps := b_curveSteps b - 1\<rparr>)))"

definition bend_ball :: "chaos_state \<Rightarrow> chaos_ball \<Rightarrow> chaos_ball res" where
  "bend_ball s b = (if has_effect s 16 \<and> b_gravity b \<and> b_gravityUsed b < FIFTEEN then
     let dx = 512 * P - b_x b; dy = 288 * P - b_y b in
     rbind (integerSqrt (dx * dx + dy * dy)) (\<lambda>distance.
     let remaining = FIFTEEN - b_gravityUsed b;
         bend = tdiv (tdiv (FIFTEEN * (160 * P - distance)) (160 * P)) 100;
         bend = (if bend > remaining then remaining else bend);
         cross = b_vx b * dy - b_vy b * dx
     in if cross \<noteq> 0 \<and> bend \<noteq> 0
        then rbind (rotateVelocity (b_vx b) (b_vy b) (if cross < 0 then - bend else bend)) (\<lambda>(vx, vy).
          Inr (b\<lparr>b_vx := vx, b_vy := vy, b_gravityUsed := b_gravityUsed b + bend\<rparr>))
        else Inr b)
     else Inr b)"

definition blow_ball :: "chaos_state \<Rightarrow> chaos_ball \<Rightarrow> chaos_ball res" where
  "blow_ball s b = (if has_effect s 17 then
     rbind (factors s b) (\<lambda>(n, d). let acceleration = tdiv (240000 * d) n in
       Inr (b\<lparr>b_vy := b_vy b + (if and32 (variant_of s 17) 1 = 0 then - acceleration else acceleration)\<rparr>))
     else Inr b)"

definition force_ball :: "chaos_state \<Rightarrow> chaos_ball \<Rightarrow> chaos_ball res" where
  "force_ball s b = rbind (curve_ball b) (\<lambda>b. rbind (bend_ball s b) (\<lambda>b. rbind (blow_ball s b) (\<lambda>b.
     rbind (geometryCheck (b_x b) (b_y b) (b_vx b) (b_vy b)) (\<lambda>_. Inr b))))"

definition force :: "chaos_state \<Rightarrow> chaos_state res" where
  "force s = (if z_nextForce s \<noteq> z_t s then Inl range_error else
     rbind (both_balls (\<lambda>_. force_ball s) (z_balls s)) (\<lambda>balls.
       Inr (s\<lparr>z_nextForce := z_nextForce s + STEP, z_balls := balls\<rparr>)))"

subsection \<open>The next contact\<close>

definition offer :: "candidate \<Rightarrow> int \<Rightarrow> int \<Rightarrow> int \<Rightarrow> int \<Rightarrow> int \<Rightarrow> int \<Rightarrow> int \<Rightarrow> candidate" where
  "offer best dt kind ball slot obstacle nx ny =
    (if dt < k_dt best \<or> dt = k_dt best \<and> (kind < k_kind best \<or> kind = k_kind best \<and> ball < k_ball best)
     then \<lparr>k_dt = dt, k_kind = kind, k_ball = ball, k_slot = slot, k_obstacle = obstacle, k_nx = nx, k_ny = ny\<rparr>
     else best)"

definition nearer :: "geometry_hit \<Rightarrow> geometry_hit \<Rightarrow> geometry_hit" where
  "nearer h end = (if h_dt end < h_dt h then end else h)"

definition deflector :: "int \<Rightarrow> int \<Rightarrow> int \<Rightarrow> int \<Rightarrow> int \<Rightarrow> geometry_hit res" where
  "deflector x y vx vy variant =
    (let sign = (if and32 variant 1 = 0 then -1 else 1);
         dx = x - 512 * P; dy = y - 288 * P; u = dx + sign * dy; v = - sign * dx + dy;
         vu = vx + sign * vy; vv = - sign * vx + vy;
         len = 44 * 1414213562373; radius = 10 * 1414213562373
     in rbind (rectHit u v vu vv len radius) (\<lambda>h.
        rbind (circleHit (u + len) v vu vv radius False) (\<lambda>e0. let h = nearer h e0 in
        rbind (circleHit (u + - len) v vu vv radius False) (\<lambda>e1. let h = nearer h e1 in
          Inr (h\<lparr>h_nx := h_nx h - sign * h_ny h, h_ny := sign * h_nx h + h_ny h\<rparr>)))))"

definition offer_hit :: "candidate \<Rightarrow> int \<Rightarrow> int \<Rightarrow> int \<Rightarrow> int \<Rightarrow> geometry_hit res \<Rightarrow> candidate res" where
  "offer_hit best kind ball slot obstacle r =
    rbind r (\<lambda>h. Inr (offer best (h_dt h) kind ball slot obstacle (h_nx h) (h_ny h)))"

definition ghost_has :: "chaos_ball \<Rightarrow> int \<Rightarrow> bool" where
  "ghost_has b bt \<longleftrightarrow> and32 (b_ghost b) (shl32 1 bt) \<noteq> 0"

definition portal_contact ::
    "chaos_ball \<Rightarrow> int \<Rightarrow> int \<Rightarrow> int \<Rightarrow> int \<Rightarrow> int \<Rightarrow> int \<Rightarrow> candidate \<Rightarrow> candidate res" where
  "portal_contact b ball vx vy slot variant i best =
    (let (x, y) = portal variant i;
         leaving = (b_portalLock b \<or> ghost_has b (i + 1)) \<and> inside (b_x b) (b_y b) x y (24 * P)
     in if \<not> b_portalLock b \<and> \<not> ghost_has b (i + 1) \<or> leaving
        then offer_hit best (if leaving then 19 else 10 + i) ball slot i
          (circleHit (b_x b - x) (b_y b - y) vx vy (24 * P) leaving)
        else Inr best)"

definition brick_contact ::
    "chaos_ball \<Rightarrow> int \<Rightarrow> int \<Rightarrow> int \<Rightarrow> int \<Rightarrow> runtime_effect \<Rightarrow> int \<Rightarrow> candidate \<Rightarrow> candidate res" where
  "brick_contact b ball vx vy slot e i best =
    (if and32 (fx_remaining e) (shl32 1 i) \<noteq> 0 \<and> \<not> ghost_has b (i + 4)
     then offer_hit best (15 + i) ball slot i
       (rectHit (b_x b - 512 * P) (b_y b - brickY i) vx vy (34 * P) (14 * P))
     else Inr best)"

definition warp_time :: "chaos_ball \<Rightarrow> int \<Rightarrow> int" where
  "warp_time b vx =
    (if b_warp b \<and> vx \<noteq> 0 then planeTime (b_x b) vx (if vx > 0 then 544 * P else 480 * P)
     else if vx > 0 \<and> b_x b < 480 * P then planeTime (b_x b) vx (480 * P)
     else if vx < 0 \<and> b_x b > 544 * P then planeTime (b_x b) vx (544 * P)
     else NEVER)"

definition shield_contact ::
    "chaos_ball \<Rightarrow> int \<Rightarrow> int \<Rightarrow> int \<Rightarrow> runtime_effect \<Rightarrow> candidate \<Rightarrow> candidate" where
  "shield_contact b ball vx slot e best =
    (let best = (if fx_target e = 0 \<and> vx < 0 \<and> b_x b \<ge> 16 * P
           then offer best (planeTime (b_x b) vx (16 * P)) 7 ball slot 0 1 0 else best)
     in if fx_target e = 1 \<and> vx > 0 \<and> b_x b \<le> 1008 * P
        then offer best (planeTime (b_x b) vx (1008 * P)) 8 ball slot 0 (-1) 0 else best)"

definition slot_contact ::
    "chaos_state \<Rightarrow> int \<Rightarrow> chaos_ball \<Rightarrow> int \<Rightarrow> int \<Rightarrow> int \<Rightarrow> candidate \<Rightarrow> candidate res" where
  "slot_contact s ball b vx vy slot best =
    (let e = slot_of (z_effects s) slot in
     if \<not> activeEffect e (now_ms s) then Inr best
     else if fx_id e = 3 then
       Inr (shield_contact b ball vx slot e best)
     else if fx_id e = 13 \<and> \<not> ghost_has b 0 then
       offer_hit best 9 ball slot 0 (circleHit (b_x b - 512 * P) (b_y b - 288 * P) vx vy (34 * P) False)
     else if fx_id e = 14 then
       rbind (portal_contact b ball vx vy slot (fx_variant e) 0 best) (\<lambda>best.
         portal_contact b ball vx vy slot (fx_variant e) 1 best)
     else if fx_id e = 15 then Inr (offer best (warp_time b vx) 12 ball slot 0 0 0)
     else if fx_id e = 16 then
       offer_hit best 13 ball slot 0
         (circleHit (b_x b - 512 * P) (b_y b - 288 * P) vx vy (160 * P) (b_gravity b))
     else if fx_id e = 18 \<and> \<not> ghost_has b 3 then
       offer_hit best 14 ball slot 0 (deflector (b_x b) (b_y b) vx vy (fx_variant e))
     else if fx_id e = 19 then
       rbind (brick_contact b ball vx vy slot e 0 best) (\<lambda>best.
       rbind (brick_contact b ball vx vy slot e 1 best) (\<lambda>best.
         brick_contact b ball vx vy slot e 2 best))
     else if fx_id e = 24 \<and> b_lastHitter b \<le> 1 \<and> \<not> ghost_has b 7 then
       offer_hit best 18 ball slot 0 (circleHit (b_x b - 512 * P) (b_y b - 120 * P) vx vy (22 * P) False)
     else Inr best)"

text \<open>The goal lines, the paddle planes and the walls, in the order of the code.\<close>

definition goal_time :: "chaos_ball \<Rightarrow> int \<Rightarrow> int" where
  "goal_time b vx =
    (if vx \<noteq> 0 then planeTime (b_x b) vx (if vx < 0 then - 6 * P else 1030 * P) else NEVER)"

definition court_contact :: "chaos_ball \<Rightarrow> int \<Rightarrow> int \<Rightarrow> int \<Rightarrow> candidate \<Rightarrow> candidate" where
  "court_contact b ball vx vy best =
    (let best = (if vx \<noteq> 0 then offer best (goal_time b vx) (if vx < 0 then 5 else 6) ball 0 0 0 0 else best);
         best = (if vx < 0 \<and> b_x b \<ge> 40 * P
           then offer best (planeTime (b_x b) vx (40 * P)) 3 ball 0 0 1 0 else best);
         best = (if vx > 0 \<and> b_x b \<le> 984 * P
           then offer best (planeTime (b_x b) vx (984 * P)) 4 ball 0 0 (-1) 0 else best)
     in if vy \<noteq> 0 then offer best (planeTime (b_y b) vy (if vy < 0 then 6 * P else 570 * P))
          (if vy < 0 then 1 else 2) ball 0 0 0 (if vy < 0 then 1 else -1) else best)"

text \<open>The contacts of one ball: the new best candidate, the time of its goal and who scores it.\<close>

definition ball_contact ::
    "chaos_state \<Rightarrow> int \<Rightarrow> chaos_ball \<Rightarrow> candidate \<Rightarrow> (candidate \<times> int \<times> int) res" where
  "ball_contact s ball b best =
    (if \<not> b_alive b then Inr (best, NEVER, 0) else
     rbind (velocity s b) (\<lambda>(vx, vy).
     rbind (slot_contact s ball b vx vy 0 (court_contact b ball vx vy best)) (\<lambda>best.
     rbind (slot_contact s ball b vx vy 1 best) (\<lambda>best.
       Inr (best, goal_time b vx, if vx \<noteq> 0 then if vx < 0 then 2 else 1 else 0)))))"

definition no_contact :: candidate where
  "no_contact = \<lparr>k_dt = NEVER, k_kind = 255, k_ball = 0, k_slot = 0, k_obstacle = 0, k_nx = 0, k_ny = 0\<rparr>"

definition nextContact :: "chaos_state \<Rightarrow> (candidate \<times> (int \<times> int) \<times> (int \<times> int)) res" where
  "nextContact s =
    rbind (ball_contact s 0 (fst (z_balls s)) no_contact) (\<lambda>(best, goal0, ben0).
    rbind (ball_contact s 1 (snd (z_balls s)) best) (\<lambda>(best, goal1, ben1).
      Inr (best, (goal0, goal1), (ben0, ben1))))"

subsection \<open>Serving and contacts\<close>

definition serve_chaos :: "chaos_state \<Rightarrow> chaos_state" where
  "serve_chaos s = s\<lparr>z_balls :=
      (emptyBall\<lparr>b_x := 512 * P, b_y := 288 * P,
         b_vx := (if cs_rally (z_score s) mod 2 = 1 then 192000000 else -192000000),
         b_vy := (if drop_bit (nat ((cs_rally (z_score s) - 1) mod 256)) (z_seed s) AND 1 = 0
                  then 96000000 else -96000000),
         b_powerN := 1, b_powerD := 1, b_alive := True, b_lastHitter := 2\<rparr>, emptyBall),
     z_effects := emptyEffects, z_activeMask := 0\<rparr>"

definition initialChaosEvents :: "int \<Rightarrow> int \<Rightarrow> int \<Rightarrow> chaos_state" where
  "initialChaosEvents seed bettingA bettingB = serve_chaos
    \<lparr>z_balls = (emptyBall, emptyBall), z_effects = emptyEffects,
     z_score = \<lparr>cs_a = 0, cs_b = 0, cs_rally = 1, cs_finished = False, cs_winner = 0\<rparr>,
     z_left = 288 * P, z_right = 288 * P, z_leftDir = 0, z_rightDir = 0, z_lastLeft = 0,
     z_lastRight = 0, z_t = 0, z_nextForce = 0, z_activeMask = 0, z_collisionSequence = 0,
     z_bettingA = bettingA, z_bettingB = bettingB, z_seed = seed, z_cancelled = False,
     z_cancelReason = 0, z_stalled = 0\<rparr>"

definition sign :: "int \<Rightarrow> int" where
  "sign x = (if x < 0 then -1 else if x > 0 then 1 else 0)"

definition physical_kind :: "int \<Rightarrow> bool" where
  "physical_kind k \<longleftrightarrow> k \<le> 2 \<or> k = 7 \<or> k = 8 \<or> k = 9 \<or> k = 14 \<or> k \<ge> 15 \<and> k \<le> 17"

definition touches :: "bool \<Rightarrow> int \<Rightarrow> int \<Rightarrow> bool" where
  "touches split solid delta =
    (if split then (delta + 6 * P \<ge> - 8 * P - tdiv solid 2 \<and> delta - 6 * P \<le> - 8 * P)
        \<or> (delta + 6 * P \<ge> 8 * P \<and> delta - 6 * P \<le> 8 * P + tdiv solid 2)
     else \<bar>delta\<bar> \<le> tdiv solid 2 + 6 * P)"

definition wall_rebound :: "chaos_state \<Rightarrow> int \<Rightarrow> chaos_ball \<Rightarrow> chaos_ball res" where
  "wall_rebound s k b =
    (let b = b\<lparr>b_y := (if k = 1 then 6 * P else 570 * P), b_vy := - b_vy b\<rparr> in
     if has_effect s 20 then
       rbind (vectorSpeed (b_vx b) (b_vy b)) (\<lambda>speed.
       rbind (normalize (b_vx b) (tdiv (b_vy b * 5) 4) speed) (\<lambda>v.
         Inr (b\<lparr>b_vx := fst v, b_vy := snd v\<rparr>)))
     else Inr b)"

definition paddle_rebound ::
    "chaos_state \<Rightarrow> int \<Rightarrow> chaos_ball \<Rightarrow> (chaos_ball \<times> effect_pair \<times> bool) res" where
  "paddle_rebound s side b = rbind (paddles s) (\<lambda>ps.
     let height = (if side = 0 then cp_heightA ps else cp_heightB ps);
         split = (if side = 0 then cp_splitA ps else cp_splitB ps);
         centre = (if side = 0 then z_left s else z_right s);
         solid = height * 1000000; delta = b_y b - centre
     in if touches split solid delta then
          let b = b\<lparr>b_powerN := 1, b_powerD := 1, b_vx := tdiv (- b_vx b * 11) 10,
                    b_vy := tdiv (b_vy b * 11) 10, b_lastHitter := side\<rparr>
          in rbind (effectPaddleHit (z_effects s) side (if side = 0 then z_lastLeft s else z_lastRight s)
               (b_vy b) (\<bar>delta\<bar> \<le> tdiv solid 8) (now_ms s)) (\<lambda>r.
             let b = b\<lparr>b_powerN := sh_numerator (snd r), b_powerD := sh_denominator (snd r)\<rparr>
             in Inr (if sh_curveSign (snd r) \<noteq> 0
                     then b\<lparr>b_curveSteps := 150, b_curveSign := sh_curveSign (snd r)\<rparr> else b, fst r, True))
        else Inr (b\<lparr>b_x := b_x b + (if b_vx b < 0 then -1 else 1)\<rparr>, z_effects s, False))"

definition shield_rebound :: "chaos_state \<Rightarrow> int \<Rightarrow> chaos_ball \<Rightarrow> (chaos_ball \<times> effect_pair) res" where
  "shield_rebound s side b = rbind (consumeShield (z_effects s) side (now_ms s)) (\<lambda>r.
     if \<not> fst (snd r) then Inl range_error else Inr (b\<lparr>b_vx := - b_vx b\<rparr>, fst r))"

definition obstacle_rebound ::
    "chaos_state \<Rightarrow> candidate \<Rightarrow> chaos_ball \<Rightarrow> (chaos_ball \<times> effect_pair) res" where
  "obstacle_rebound s h b =
    rbind (reflectVelocity (b_vx b) (b_vy b) (k_nx h) (k_ny h)) (\<lambda>v.
    rbind (if k_kind h \<ge> 15 \<and> k_kind h \<le> 17
           then breakChaosBrick (z_effects s) (k_slot h) (k_obstacle h) (now_ms s)
           else Inr (z_effects s)) (\<lambda>effects.
      Inr (b\<lparr>b_vx := fst v, b_vy := snd v, b_x := b_x b + sign (k_nx h), b_y := b_y b + sign (k_ny h)\<rparr>,
           effects)))"

definition teleport :: "chaos_state \<Rightarrow> candidate \<Rightarrow> chaos_ball \<Rightarrow> chaos_ball" where
  "teleport s h b =
    (let v = fx_variant (slot_of (z_effects s) (k_slot h));
         from = portal v (k_obstacle h); to = portal v (1 - k_obstacle h)
     in b\<lparr>b_x := fst to + b_x b - fst from, b_y := snd to + b_y b - snd from, b_portalLock := True,
          b_trailRevision := b_trailRevision b + 1\<rparr>)"

text \<open>The effect of a contact on its ball and the effect slots; the last component tells whether
  the contact is logged.  The state read by the effects is the one before the contact.\<close>

definition contact_effect ::
    "chaos_state \<Rightarrow> candidate \<Rightarrow> chaos_ball \<Rightarrow> (chaos_ball \<times> effect_pair \<times> bool) res" where
  "contact_effect s h b =
    (let k = k_kind h; physical = physical_kind k;
         b = (if physical then b\<lparr>b_powerN := 1, b_powerD := 1\<rparr> else b)
     in if k = 1 \<or> k = 2 then
       rbind (wall_rebound s k b) (\<lambda>b. Inr (b, z_effects s, physical))
     else if k = 3 \<or> k = 4 then paddle_rebound s (if k = 3 then 0 else 1) b
     else if k = 7 \<or> k = 8 then
       rbind (shield_rebound s (if k = 7 then 0 else 1) b) (\<lambda>r. Inr (fst r, snd r, physical))
     else if k = 9 \<or> k = 14 \<or> k \<ge> 15 \<and> k \<le> 17 then
       rbind (obstacle_rebound s h b) (\<lambda>r. Inr (fst r, snd r, physical))
     else if k = 10 \<or> k = 11 then Inr (teleport s h b, z_effects s, physical)
     else if k = 12 then Inr (b\<lparr>b_warp := \<not> b_warp b\<rparr>, z_effects s, physical)
     else if k = 13 then
       Inr (b\<lparr>b_gravity := \<not> b_gravity b, b_gravityUsed := 0\<rparr>, z_effects s, physical)
     else if k = 18 then
       rbind (collectChaosPickup (z_effects s) (k_slot h) (b_lastHitter b) (now_ms s)) (\<lambda>r.
         Inr (b, fst r, physical))
     else if k = 19 then
       Inr (b\<lparr>b_portalLock := False, b_ghost := and32 (b_ghost b) (not32 6),
              b_x := b_x b + sign (k_nx h), b_y := b_y b + sign (k_ny h)\<rparr>, z_effects s, physical)
     else Inr (b, z_effects s, physical))"

definition collideEffect :: "chaos_state \<Rightarrow> candidate \<Rightarrow> (chaos_state \<times> bool) res" where
  "collideEffect s h =
    rbind (contact_effect s h (slot_of (z_balls s) (k_ball h))) (\<lambda>(b, effects, physical).
    rbind (geometryCheck (b_x b) (b_y b) (b_vx b) (b_vy b)) (\<lambda>_.
      Inr (s\<lparr>z_balls := set_slot (z_balls s) (k_ball h) b, z_effects := effects\<rparr>, physical)))"

subsection \<open>Advancing\<close>

definition earlier :: "chaos_state \<Rightarrow> int \<Rightarrow> int \<Rightarrow> int" where
  "earlier s at boundary = (if at > z_t s \<and> at < boundary then at else boundary)"

definition effect_boundary :: "chaos_state \<Rightarrow> int \<Rightarrow> int" where
  "effect_boundary s boundary = fold (\<lambda>e boundary. if fx_id e = 0 then boundary
     else earlier s (fx_expiresAt e * 1000) (earlier s (fx_startsAt e * 1000) boundary))
     [fst (z_effects s), snd (z_effects s)] boundary"

text \<open>The beneficiaries (1 for A, 2 for B, 3 for both) of the goals reached by this hit.\<close>

definition goals_mask :: "chaos_state \<Rightarrow> int \<Rightarrow> int \<times> int \<Rightarrow> int \<times> int \<Rightarrow> int" where
  "goals_mask s dt goals beneficiaries =
    (let m = (if b_alive (fst (z_balls s)) \<and> fst goals = dt then or32 0 (fst beneficiaries) else 0)
     in if b_alive (snd (z_balls s)) \<and> snd goals = dt then or32 m (snd beneficiaries) else m)"

definition clear_play :: "chaos_state \<Rightarrow> chaos_state" where
  "clear_play s = s\<lparr>z_effects := emptyEffects, z_balls := (emptyBall, emptyBall), z_activeMask := 0\<rparr>"

text \<open>One iteration of the loop either stops it or goes on.\<close>

datatype step_result = Stop chaos_state "chaos_hit list" | Go chaos_state "chaos_hit list"

definition score_step ::
    "bool \<Rightarrow> chaos_state \<Rightarrow> chaos_hit list \<Rightarrow> int \<Rightarrow> step_result res" where
  "score_step stopAtPoint s log goalsMask =
    (if cs_rally (z_score s) \<ge> umax32 then Inl range_error else
     rbind (resolveChaosGoals (z_score s) goalsMask (chaosPointValue (z_effects s) (now_ms s) = 2)) (\<lambda>(score, _).
       let s = s\<lparr>z_score := score\<rparr> in
       if cs_finished score then Inr (Stop (clear_play s) log)
       else let s = serve_chaos s in Inr (if stopAtPoint then Stop s log else Go s log)))"

definition contact_step :: "chaos_state \<Rightarrow> chaos_hit list \<Rightarrow> candidate \<Rightarrow> step_result res" where
  "contact_step s log h =
    rbind (collideEffect s h) (\<lambda>(s, physical).
    rbind (if physical then
       let s = s\<lparr>z_collisionSequence := z_collisionSequence s + 1\<rparr> in
       if z_collisionSequence s > umax32 then Inl range_error
       else let b = slot_of (z_balls s) (k_ball h) in
         Inr (s, log @ [\<lparr>hit_sequence = z_collisionSequence s, hit_rally = cs_rally (z_score s),
           hit_ball = k_ball h + 1, hit_kind = k_kind h, hit_obstacle = k_obstacle h, hit_at = z_t s,
           hit_x = b_x b, hit_y = b_y b\<rparr>])
       else Inr (s, log)) (\<lambda>(s, log).
      Inr (if length log = 8 then Stop s log else Go s log)))"

definition grid_step :: "chaos_state \<Rightarrow> chaos_state res" where
  "grid_step s =
    (if needsGrid s then
       let s = (if z_nextForce s < z_t s then s\<lparr>z_nextForce := tdiv (z_t s + 9999) STEP * STEP\<rparr> else s)
       in if z_nextForce s = z_t s then force s else Inr s
     else Inr (s\<lparr>z_nextForce := (tdiv (z_t s) STEP + 1) * STEP\<rparr>))"

definition event_step ::
    "int \<Rightarrow> bool \<Rightarrow> chaos_state \<Rightarrow> chaos_hit list \<Rightarrow> step_result res" where
  "event_step target stopAtPoint s log =
    rbind (prepare s) (\<lambda>s. let grid = needsGrid s in
    rbind (grid_step s) (\<lambda>s.
    rbind (nextContact s) (\<lambda>(hit, goals, beneficiaries).
    let boundary = effect_boundary s (if grid then z_nextForce s else NEVER) in
    if boundary < z_t s then Inl range_error else
    let remaining = target - z_t s in
    if k_dt hit > remaining \<and> boundary > target then
      rbind (move_chaos s target) (\<lambda>s. Inr (Stop s log))
    else if boundary \<le> target \<and> (k_dt hit = NEVER \<or> boundary - z_t s \<le> k_dt hit) then
      rbind (move_chaos s boundary) (\<lambda>s. Inr (Go s log))
    else if k_dt hit = NEVER \<or> k_dt hit > remaining then
      rbind (move_chaos s target) (\<lambda>s. Inr (Stop s log))
    else rbind (move_chaos s (z_t s + k_dt hit)) (\<lambda>s.
      let s = (if k_dt hit = 0 then s\<lparr>z_stalled := z_stalled s + 1\<rparr> else s) in
      if k_dt hit = 0 \<and> z_stalled s > 32 then Inl range_error else
      let goalsMask = goals_mask s (k_dt hit) goals beneficiaries in
      if goalsMask \<noteq> 0 then score_step stopAtPoint s log goalsMask
      else contact_step s log hit))))"

fun chaos_loop ::
    "nat \<Rightarrow> int \<Rightarrow> bool \<Rightarrow> chaos_state \<Rightarrow> chaos_hit list \<Rightarrow> (chaos_state \<times> chaos_hit list) res" where
  "chaos_loop 0 target stopAtPoint s log = Inr (s, log)"
| "chaos_loop (Suc n) target stopAtPoint s log =
    (if z_cancelled s \<or> cs_finished (z_score s) then Inr (s, log)
     else rbind (event_step target stopAtPoint s log) (\<lambda>r. case r of
       Stop s log \<Rightarrow> Inr (s, log) | Go s log \<Rightarrow> chaos_loop n target stopAtPoint s log))"

definition settle :: "int \<Rightarrow> chaos_state \<Rightarrow> (chaos_state \<times> bool) res" where
  "settle target s =
    (if z_cancelled s \<or> cs_finished (z_score s) then Inr (s, True)
     else rbind (prepare s) (\<lambda>s.
       let s = (if \<not> needsGrid s then s\<lparr>z_nextForce := (tdiv (z_t s) STEP + 1) * STEP\<rparr> else s)
       in if z_t s = target \<and> z_nextForce s > z_t s
          then rbind (nextContact s) (\<lambda>(hit, _, _). Inr (s, k_dt hit \<noteq> 0))
          else Inr (s, False)))"

definition cancel :: "chaos_state \<Rightarrow> int \<Rightarrow> chaos_state" where
  "cancel s reason = clear_play (s\<lparr>z_cancelled := True, z_cancelReason := reason\<rparr>)"

definition advanceChaosEvents ::
    "chaos_state \<Rightarrow> int \<Rightarrow> int \<Rightarrow> bool \<Rightarrow> (chaos_state \<times> bool \<times> chaos_hit list) res" where
  "advanceChaosEvents source target budget stopAtPoint =
    (if target < z_t source \<or> budget < 0 \<or> budget > 512 then Inl range_error
     else if target > 1800000000 then Inr (cancel source 2, True, [])
     else case rbind (chaos_loop (nat budget) target stopAtPoint source []) (\<lambda>(s, log).
         rbind (settle target s) (\<lambda>(s, complete). Inr (s, complete, log))) of
       Inr r \<Rightarrow> Inr r
     | Inl e \<Rightarrow> if e = range_error then Inr (cancel source 1, True, []) else Inl e)"

end
