(* ===== verification/Chaos_Safety.thy ===== *)
theory Chaos_Safety
  imports Chaos_Physics
begin

text \<open>
  What \<^verbatim>\<open>advanceChaosEvents\<close> guarantees.  \<^verbatim>\<open>safe r Q\<close> says of a computation that it throws
  nothing but \<^verbatim>\<open>Numeric range\<close>, the one error the code turns into a cancelled match, and that
  its result satisfies \<^verbatim>\<open>Q\<close>; the lemmas go through the operations in the order of the code.
\<close>

definition safe :: "'a res \<Rightarrow> ('a \<Rightarrow> bool) \<Rightarrow> bool" where
  "safe r Q \<longleftrightarrow> (case r of Inl e \<Rightarrow> e = range_error | Inr x \<Rightarrow> Q x)"

lemma safe_Inr [simp]: "safe (Inr x) Q \<longleftrightarrow> Q x"
  by (simp add: safe_def)

lemma safe_Inl [simp]: "safe (Inl e) Q \<longleftrightarrow> e = range_error"
  by (simp add: safe_def)

lemma safe_bind: "safe r Q \<Longrightarrow> (\<And>x. Q x \<Longrightarrow> safe (f x) R) \<Longrightarrow> safe (rbind r f) R"
  by (cases r) simp_all

lemma safe_any: "safe r Q \<Longrightarrow> (\<And>x. Q x \<Longrightarrow> R x) \<Longrightarrow> safe r R"
  by (cases r) simp_all

lemma safe_bind_any: "safe r (\<lambda>_. True) \<Longrightarrow> (\<And>x. safe (f x) R) \<Longrightarrow> safe (rbind r f) R"
  by (cases r) simp_all

lemma safe_guard [simp]: "safe (guard range_error c) (\<lambda>_. True)"
  by (cases c) simp_all

lemma safe_if: "(c \<Longrightarrow> safe a Q) \<Longrightarrow> (\<not> c \<Longrightarrow> safe b Q) \<Longrightarrow> safe (if c then a else b) Q"
  by simp

named_theorems safe_geometry

lemma safe_geometryCheck [safe_geometry]: "safe (geometryCheck x y vx vy) (\<lambda>_. True)"
  by (simp add: geometryCheck_def)

lemma safe_integerSqrt [safe_geometry]: "safe (integerSqrt n) (\<lambda>_. True)"
proof (cases "n < 0")
  case True
  then show ?thesis by (simp add: integerSqrt_def)
next
  case False
  then obtain r where "integerSqrt n = Inr r" using integerSqrt_floor [of n] by auto
  then show ?thesis by simp
qed

lemma safe_vectorSpeed [safe_geometry]: "safe (vectorSpeed vx vy) (\<lambda>_. True)"
  unfolding vectorSpeed_def by (intro safe_bind_any safe_geometry)

lemma safe_normalize [safe_geometry]: "safe (normalize vx vy len) (\<lambda>_. True)"
  unfolding normalize_def by (rule safe_bind_any, rule safe_geometry) simp

lemma safe_reflectVelocity [safe_geometry]: "safe (reflectVelocity vx vy nx ny) (\<lambda>_. True)"
  unfolding reflectVelocity_def Let_def by (intro safe_bind_any safe_geometry safe_if) (simp only: safe_Inl)

lemma safe_rotateVelocity [safe_geometry]: "safe (rotateVelocity vx vy angle) (\<lambda>_. True)"
  unfolding rotateVelocity_def Let_def by (intro safe_bind_any safe_geometry safe_guard)

lemma safe_circleHit [safe_geometry]: "safe (circleHit x y vx vy r exit) (\<lambda>_. True)"
  unfolding circleHit_def Let_def by (intro safe_bind_any safe_geometry safe_guard safe_if) (simp_all only: safe_Inr)

lemma safe_rectHit [safe_geometry]: "safe (rectHit x y vx vy hx hy) (\<lambda>_. True)"
  unfolding rectHit_def Let_def by (intro safe_bind_any safe_geometry safe_guard) (simp only: safe_Inr)

lemma safe_deflector [safe_geometry]: "safe (deflector x y vx vy v) (\<lambda>_. True)"
  unfolding deflector_def Let_def by (intro safe_bind_any safe_geometry) (simp only: safe_Inr)

subsection \<open>Well-formed states\<close>

definition hitter_ok :: "chaos_ball \<Rightarrow> bool" where
  "hitter_ok b \<longleftrightarrow> b_lastHitter b \<in> {0, 1, 2}"

definition bet_ok :: "int \<Rightarrow> bool" where
  "bet_ok h \<longleftrightarrow> 72000000 \<le> h \<and> h \<le> 96000000"

definition chaos_ok :: "chaos_state \<Rightarrow> bool" where
  "chaos_ok s \<longleftrightarrow> 0 \<le> z_t s \<and> effects_ok (z_effects s) (now_ms s) \<and> chaos_score_ok (z_score s)
    \<and> bet_ok (z_bettingA s) \<and> bet_ok (z_bettingB s)
    \<and> z_lastLeft s \<in> {0, 1, -1} \<and> z_lastRight s \<in> {0, 1, -1}
    \<and> 0 \<le> z_collisionSequence s \<and> z_collisionSequence s \<le> umax32
    \<and> hitter_ok (fst (z_balls s)) \<and> hitter_ok (snd (z_balls s))"

lemma modifier_of_valid: "effect_ok e \<Longrightarrow> \<not> invalid_modifier (modifier_of e)"
proof (cases "e = emptyEffect")
  case True
  then show ?thesis by (simp add: invalid_modifier_def modifier_of_def emptyEffect_def)
next
  case False
  assume "effect_ok e"
  with False have e: "1 \<le> fx_id e" "fx_id e \<le> 24" "fx_target e \<in> {0, 1, 2}"
    "fx_expiresAt e = fx_startsAt e + duration (fx_id e)" by (auto simp add: effect_ok_def split: if_splits)
  from duration_known [OF e(1,2)] e show ?thesis by (auto simp add: invalid_modifier_def modifier_of_def)
qed

lemma paddles_total:
  assumes "effects_ok (z_effects s) n" and "bet_ok (z_bettingA s)" and "bet_ok (z_bettingB s)"
  shows "\<exists>p. paddles s = Inr p"
  using assms chaosPaddles_range [of "z_bettingA s" "z_bettingB s"
      "(modifier_of (fst (z_effects s)), modifier_of (snd (z_effects s)))" "now_ms s"]
  by (auto simp add: paddles_def effects_ok_def bet_ok_def modifier_of_valid)

lemma safe_paddles: "chaos_ok s \<Longrightarrow> safe (paddles s) (\<lambda>_. True)"
  using paddles_total [of s "now_ms s"] by (auto simp add: chaos_ok_def)

lemma now_mono: "0 \<le> z_t s \<Longrightarrow> z_t s \<le> z_t s' \<Longrightarrow> now_ms s \<le> now_ms s'"
  by (simp add: now_ms_def tdiv_mono)

subsection \<open>Moving and preparing\<close>

lemma safe_factors: "safe (factors s b) (\<lambda>_. True)"
  by (simp add: factors_def Let_def split: prod.split)

lemma safe_velocity: "safe (velocity s b) (\<lambda>_. True)"
  unfolding velocity_def Let_def
  by (rule safe_bind_any [OF safe_factors]) (auto intro!: safe_bind_any safe_geometry)

lemma safe_move_ball:
  "safe (move_ball s dt b) (\<lambda>b'. b_lastHitter b' = b_lastHitter b \<and> b_alive b' = b_alive b)"
  unfolding move_ball_def Let_def
  by (rule safe_bind_any [OF safe_velocity]) (auto intro!: safe_bind_any safe_geometry)

lemma safe_both_balls:
  assumes "\<And>i b. safe (f i b) (\<lambda>b'. b_lastHitter b' = b_lastHitter b \<and> b_alive b' = b_alive b)"
  shows "safe (both_balls f p) (\<lambda>q. b_lastHitter (fst q) = b_lastHitter (fst p) \<and> b_alive (fst q) = b_alive (fst p)
    \<and> b_lastHitter (snd q) = b_lastHitter (snd p) \<and> b_alive (snd q) = b_alive (snd p))"
proof -
  have g: "safe (if b_alive b then f i b else Inr b) (\<lambda>b'. b_lastHitter b' = b_lastHitter b \<and> b_alive b' = b_alive b)"
    for i b by (cases "b_alive b") (use assms [of i b] in simp_all)
  show ?thesis unfolding both_balls_def
    by (rule safe_bind [OF g], rule safe_bind [OF g]) simp
qed

text \<open>What moving, preparing and the forces leave alone.\<close>

definition same_rules :: "chaos_state \<Rightarrow> chaos_state \<Rightarrow> bool" where
  "same_rules s s' \<longleftrightarrow> z_score s' = z_score s \<and> z_cancelled s' = z_cancelled s
    \<and> z_collisionSequence s' = z_collisionSequence s \<and> z_cancelReason s' = z_cancelReason s
    \<and> z_seed s' = z_seed s \<and> z_bettingA s' = z_bettingA s \<and> z_bettingB s' = z_bettingB s
    \<and> z_lastLeft s' = z_lastLeft s \<and> z_lastRight s' = z_lastRight s"

lemma same_rules_refl [simp]: "same_rules s s"
  by (simp add: same_rules_def)

lemma same_rules_trans: "same_rules s t \<Longrightarrow> same_rules t u \<Longrightarrow> same_rules s u"
  by (simp add: same_rules_def)

lemma chaos_ok_frame:
  assumes "chaos_ok s" and "same_rules s s'" and "z_t s \<le> z_t s'"
    and "effects_ok (z_effects s') (now_ms s')"
    and "hitter_ok (fst (z_balls s'))" and "hitter_ok (snd (z_balls s'))"
  shows "chaos_ok s'"
  using assms by (simp add: chaos_ok_def same_rules_def)

lemma safe_move_chaos:
  assumes "chaos_ok s" and "z_t s \<le> to"
  shows "safe (move_chaos s to) (\<lambda>s'. chaos_ok s' \<and> z_t s' = to \<and> same_rules s s'
    \<and> z_effects s' = z_effects s
    \<and> b_lastHitter (fst (z_balls s')) = b_lastHitter (fst (z_balls s))
    \<and> b_lastHitter (snd (z_balls s')) = b_lastHitter (snd (z_balls s)))"
proof -
  define s1 where "s1 = (if to > z_t s then s\<lparr>z_stalled := 0\<rparr> else s)"
  have s1: "chaos_ok s1" "same_rules s s1" "z_effects s1 = z_effects s" "z_balls s1 = z_balls s" "z_t s1 = z_t s"
    using assms(1) by (simp_all add: s1_def chaos_ok_def same_rules_def now_ms_def)
  have run: "move_chaos s to = rbind (paddles s1) (\<lambda>ps.
     rbind (both_balls (\<lambda>_. move_ball s1 (to - z_t s1)) (z_balls s1)) (\<lambda>balls.
       Inr (s1\<lparr>z_balls := balls,
         z_left := clamp_chaos (z_left s1 + z_leftDir s1 * cp_speedA ps * (to - z_t s1)) (outer (cp_heightA ps) (cp_splitA ps)),
         z_right := clamp_chaos (z_right s1 + z_rightDir s1 * cp_speedB ps * (to - z_t s1)) (outer (cp_heightB ps) (cp_splitB ps)),
         z_t := to\<rparr>)))"
    using assms(2) unfolding move_chaos_def Let_def s1_def [symmetric] s1(5) by simp
  show ?thesis unfolding run
  proof (rule safe_bind_any [OF safe_paddles [OF s1(1)]], rule safe_bind [OF safe_both_balls [OF safe_move_ball]])
    fix ps and q :: "chaos_ball \<times> chaos_ball"
    assume b: "b_lastHitter (fst q) = b_lastHitter (fst (z_balls s1)) \<and> b_alive (fst q) = b_alive (fst (z_balls s1))
      \<and> b_lastHitter (snd q) = b_lastHitter (snd (z_balls s1)) \<and> b_alive (snd q) = b_alive (snd (z_balls s1))"
    define s2 where "s2 = s1\<lparr>z_balls := q,
         z_left := clamp_chaos (z_left s1 + z_leftDir s1 * cp_speedA ps * (to - z_t s1)) (outer (cp_heightA ps) (cp_splitA ps)),
         z_right := clamp_chaos (z_right s1 + z_rightDir s1 * cp_speedB ps * (to - z_t s1)) (outer (cp_heightB ps) (cp_splitB ps)),
         z_t := to\<rparr>"
    have r: "same_rules s1 s2" by (simp add: same_rules_def s2_def)
    have t: "z_t s1 \<le> z_t s2" "0 \<le> z_t s1" using assms s1(5) by (simp_all add: s2_def chaos_ok_def)
    have e: "effects_ok (z_effects s1) (now_ms s1)" using s1(1) by (simp add: chaos_ok_def)
    have "chaos_ok s2"
    proof (rule chaos_ok_frame [OF s1(1) r t(1)])
      show "effects_ok (z_effects s2) (now_ms s2)"
        using effects_ok_later [OF e now_mono [OF t(2,1)]] by (simp add: s2_def)
      show "hitter_ok (fst (z_balls s2))" "hitter_ok (snd (z_balls s2))"
        using s1(1) b by (simp_all add: s2_def chaos_ok_def hitter_ok_def)
    qed
    moreover have "same_rules s s2" by (rule same_rules_trans [OF s1(2) r])
    moreover have "z_t s2 = to" "z_effects s2 = z_effects s" "z_balls s2 = q" using s1(3) by (simp_all add: s2_def)
    ultimately have "chaos_ok s2 \<and> z_t s2 = to \<and> same_rules s s2 \<and> z_effects s2 = z_effects s
      \<and> b_lastHitter (fst (z_balls s2)) = b_lastHitter (fst (z_balls s))
      \<and> b_lastHitter (snd (z_balls s2)) = b_lastHitter (snd (z_balls s))" using b s1(4) by simp
    then show "safe (Inr (s1\<lparr>z_balls := q,
         z_left := clamp_chaos (z_left s1 + z_leftDir s1 * cp_speedA ps * (to - z_t s1)) (outer (cp_heightA ps) (cp_splitA ps)),
         z_right := clamp_chaos (z_right s1 + z_rightDir s1 * cp_speedB ps * (to - z_t s1)) (outer (cp_heightB ps) (cp_splitB ps)),
         z_t := to\<rparr>)) (\<lambda>s'. chaos_ok s' \<and> z_t s' = to \<and> same_rules s s' \<and> z_effects s' = z_effects s
      \<and> b_lastHitter (fst (z_balls s')) = b_lastHitter (fst (z_balls s))
      \<and> b_lastHitter (snd (z_balls s')) = b_lastHitter (snd (z_balls s)))"
      unfolding s2_def [symmetric] safe_Inr .
  qed
qed

text \<open>Zones and ghosts do not touch who hit the ball last.\<close>

lemma mark_ghost_hitter [simp]: "b_lastHitter (mark_ghost s born ball bt b) = b_lastHitter b"
  by (simp add: mark_ghost_def Let_def)

lemma prepare_ball_hitter [simp]: "b_lastHitter (prepare_ball s born ball b) = b_lastHitter b"
  by (simp add: prepare_ball_def Let_def)

lemma safe_prepare:
  assumes "chaos_ok s"
  shows "safe (prepare s) (\<lambda>s'. chaos_ok s' \<and> z_t s' = z_t s \<and> same_rules s s')"
proof -
  define born where "born = and32 (effect_mask s) (not32 (z_activeMask s))"
  define b0 where "b0 = fst (z_balls s)"
  define b1 where "b1 = (if and32 born (shl32 1 20) \<noteq> 0
    then b0\<lparr>b_vy := - b_vy b0, b_alive := True, b_trailRevision := b_trailRevision b0 + 1\<rparr> else snd (z_balls s))"
  define b2 where "b2 = (if and32 (effect_mask s) (shl32 1 20) = 0 then b1\<lparr>b_alive := False\<rparr> else b1)"
  define s1 where "s1 = s\<lparr>z_balls := (if b_alive b0 then prepare_ball s born 0 b0 else b0,
     if b_alive b2 then prepare_ball s born 1 b2 else b2), z_activeMask := effect_mask s\<rparr>"
  have run: "prepare s = rbind (paddles s1) (\<lambda>ps.
    let s = s1\<lparr>z_left := clamp_chaos (z_left s1) (outer (cp_heightA ps) (cp_splitA ps)),
              z_right := clamp_chaos (z_right s1) (outer (cp_heightB ps) (cp_splitB ps))\<rparr>
    in Inr (s\<lparr>z_effects := fst (expireEffects (z_effects s) (now_ms s))\<rparr>))"
    unfolding prepare_def s1_def b2_def b1_def b0_def born_def Let_def by (simp only: case_prod_beta)
  have h: "hitter_ok b0" "hitter_ok (snd (z_balls s))" using assms by (simp_all add: chaos_ok_def b0_def)
  then have h2: "hitter_ok b2" by (simp add: b2_def b1_def hitter_ok_def)
  have hs: "hitter_ok (fst (z_balls s1))" "hitter_ok (snd (z_balls s1))"
    using h(1) h2 by (simp_all add: s1_def hitter_ok_def)
  have r1: "same_rules s s1" and t1: "z_t s1 = z_t s" and e1: "z_effects s1 = z_effects s"
    by (simp_all add: s1_def same_rules_def)
  have n1: "now_ms s1 = now_ms s" by (simp add: now_ms_def t1)
  have ok1: "chaos_ok s1"
    by (rule chaos_ok_frame [OF assms r1 _ _ hs]) (use assms in \<open>simp_all add: t1 e1 n1 chaos_ok_def\<close>)
  show ?thesis unfolding run
  proof (rule safe_bind_any [OF safe_paddles [OF ok1]])
    fix ps
    define s2 where "s2 = s1\<lparr>z_left := clamp_chaos (z_left s1) (outer (cp_heightA ps) (cp_splitA ps)),
              z_right := clamp_chaos (z_right s1) (outer (cp_heightB ps) (cp_splitB ps))\<rparr>"
    define s3 where "s3 = s2\<lparr>z_effects := fst (expireEffects (z_effects s2) (now_ms s2))\<rparr>"
    have f: "same_rules s1 s3" "z_t s3 = z_t s1" "now_ms s3 = now_ms s1" "z_balls s3 = z_balls s1"
      "z_effects s3 = fst (expireEffects (z_effects s1) (now_ms s1))"
      by (simp_all add: s3_def s2_def same_rules_def now_ms_def)
    have "effects_ok (z_effects s3) (now_ms s3)"
      using ok1 unfolding f(3,5) by (simp add: chaos_ok_def expireEffects_ok)
    then have "chaos_ok s3" using chaos_ok_frame [OF ok1 f(1)] hs by (simp add: f(2,4))
    with same_rules_trans [OF r1 f(1)] f(2) t1 show "safe (let s = s1\<lparr>z_left := clamp_chaos (z_left s1) (outer (cp_heightA ps) (cp_splitA ps)),
              z_right := clamp_chaos (z_right s1) (outer (cp_heightB ps) (cp_splitB ps))\<rparr>
      in Inr (s\<lparr>z_effects := fst (expireEffects (z_effects s) (now_ms s))\<rparr>))
      (\<lambda>s'. chaos_ok s' \<and> z_t s' = z_t s \<and> same_rules s s')"
      unfolding Let_def s2_def [symmetric] s3_def [symmetric] by simp
  qed
qed

subsection \<open>Forces\<close>

definition same_hitter :: "chaos_ball \<Rightarrow> chaos_ball \<Rightarrow> bool" where
  "same_hitter b b' \<longleftrightarrow> b_lastHitter b' = b_lastHitter b \<and> b_alive b' = b_alive b"

lemma safe_curve_ball: "safe (curve_ball b) (same_hitter b)"
  unfolding curve_ball_def Let_def
  by (rule safe_if) (auto intro!: safe_bind_any safe_geometry simp add: same_hitter_def)

lemma safe_bend_ball: "safe (bend_ball s b) (same_hitter b)"
  unfolding bend_ball_def Let_def
  by (intro safe_if safe_bind_any safe_geometry) (auto simp add: same_hitter_def)

lemma safe_blow_ball: "safe (blow_ball s b) (same_hitter b)"
  unfolding blow_ball_def Let_def
  by (intro safe_if safe_bind_any safe_factors) (auto simp add: same_hitter_def)

lemma safe_force_ball:
  "safe (force_ball s b) (\<lambda>b'. b_lastHitter b' = b_lastHitter b \<and> b_alive b' = b_alive b)"
  unfolding force_ball_def
  by (rule safe_bind [OF safe_curve_ball], rule safe_bind [OF safe_bend_ball],
      rule safe_bind [OF safe_blow_ball], rule safe_bind_any [OF safe_geometryCheck])
    (simp add: same_hitter_def)

lemma safe_grid_step:
  assumes "chaos_ok s"
  shows "safe (grid_step s) (\<lambda>s'. chaos_ok s' \<and> z_t s' = z_t s \<and> same_rules s s' \<and> z_effects s' = z_effects s)"
proof -
  have upd: "chaos_ok (q\<lparr>z_nextForce := n\<rparr>) \<and> same_rules q (q\<lparr>z_nextForce := n\<rparr>)" if "chaos_ok q" for q n
    using that by (simp add: chaos_ok_def same_rules_def now_ms_def)
  have fo: "safe (force q) (\<lambda>s'. chaos_ok s' \<and> z_t s' = z_t q \<and> same_rules q s' \<and> z_effects s' = z_effects q)"
    if "chaos_ok q" for q
    unfolding force_def
  proof (rule safe_if, simp, rule safe_bind [OF safe_both_balls [OF safe_force_ball]])
    fix p :: "chaos_ball \<times> chaos_ball"
    assume "b_lastHitter (fst p) = b_lastHitter (fst (z_balls q)) \<and> b_alive (fst p) = b_alive (fst (z_balls q))
      \<and> b_lastHitter (snd p) = b_lastHitter (snd (z_balls q)) \<and> b_alive (snd p) = b_alive (snd (z_balls q))"
    with that show "safe (Inr (q\<lparr>z_nextForce := z_nextForce q + STEP, z_balls := p\<rparr>))
      (\<lambda>s'. chaos_ok s' \<and> z_t s' = z_t q \<and> same_rules q s' \<and> z_effects s' = z_effects q)"
      by (simp add: chaos_ok_def same_rules_def now_ms_def hitter_ok_def)
  qed
  define q where "q = (if z_nextForce s < z_t s then s\<lparr>z_nextForce := tdiv (z_t s + 9999) STEP * STEP\<rparr> else s)"
  have q: "chaos_ok q" "same_rules s q" "z_t q = z_t s" "z_effects q = z_effects s"
    using upd [OF assms] assms by (simp_all add: q_def)
  have "safe (if z_nextForce q = z_t q then force q else Inr q)
      (\<lambda>s'. chaos_ok s' \<and> z_t s' = z_t s \<and> same_rules s s' \<and> z_effects s' = z_effects s)"
    by (rule safe_if, rule safe_any [OF fo [OF q(1)]]) (use q same_rules_trans in auto)
  then show ?thesis unfolding grid_step_def Let_def q_def [symmetric] q(3)
    using upd [OF assms] by (simp add: q(3))
qed

subsection \<open>Candidates\<close>

text \<open>A brick or pickup candidate refers to a slot whose effect is still there.\<close>

definition cand_ok :: "chaos_state \<Rightarrow> candidate \<Rightarrow> bool" where
  "cand_ok s h \<longleftrightarrow> k_ball h \<in> {0, 1}
    \<and> (k_kind h \<in> {15, 16, 17} \<longrightarrow> k_slot h \<in> {0, 1} \<and> k_obstacle h \<in> {0, 1, 2}
        \<and> activeEffect (slot_of (z_effects s) (k_slot h)) (now_ms s)
        \<and> fx_id (slot_of (z_effects s) (k_slot h)) = 19
        \<and> and32 (fx_remaining (slot_of (z_effects s) (k_slot h))) (shl32 1 (k_obstacle h)) \<noteq> 0)
    \<and> (k_kind h = 18 \<longrightarrow> k_slot h \<in> {0, 1}
        \<and> activeEffect (slot_of (z_effects s) (k_slot h)) (now_ms s)
        \<and> fx_id (slot_of (z_effects s) (k_slot h)) = 24
        \<and> b_lastHitter (slot_of (z_balls s) (k_ball h)) \<le> 1)"

lemma cand_ok_brick:
  assumes "cand_ok s h" and "15 \<le> k_kind h" and "k_kind h \<le> 17"
  shows "k_slot h \<in> {0, 1}" and "k_obstacle h \<in> {0, 1, 2}"
    and "activeEffect (slot_of (z_effects s) (k_slot h)) (now_ms s)"
    and "fx_id (slot_of (z_effects s) (k_slot h)) = 19"
    and "and32 (fx_remaining (slot_of (z_effects s) (k_slot h))) (shl32 1 (k_obstacle h)) \<noteq> 0"
proof -
  from assms(2,3) have "k_kind h \<in> {15, 16, 17}" by auto
  with assms(1) show "k_slot h \<in> {0, 1}" "k_obstacle h \<in> {0, 1, 2}"
    "activeEffect (slot_of (z_effects s) (k_slot h)) (now_ms s)"
    "fx_id (slot_of (z_effects s) (k_slot h)) = 19"
    "and32 (fx_remaining (slot_of (z_effects s) (k_slot h))) (shl32 1 (k_obstacle h)) \<noteq> 0"
    unfolding cand_ok_def by blast+
qed

lemma cand_ok_pickup:
  assumes "cand_ok s h" and "k_kind h = 18"
  shows "k_slot h \<in> {0, 1}" and "activeEffect (slot_of (z_effects s) (k_slot h)) (now_ms s)"
    and "fx_id (slot_of (z_effects s) (k_slot h)) = 24"
    and "b_lastHitter (slot_of (z_balls s) (k_ball h)) \<le> 1"
  using assms unfolding cand_ok_def by blast+

lemma hitter_ok_slot: "hitter_ok (fst p) \<Longrightarrow> hitter_ok (snd p) \<Longrightarrow> hitter_ok (slot_of p i)"
  by (simp add: slot_of_def)

lemma cand_ok_none: "cand_ok s no_contact"
  by (simp add: cand_ok_def no_contact_def)

lemma cand_ok_plain:
  "ball \<in> {0, 1} \<Longrightarrow> kind \<notin> {15, 16, 17, 18} \<Longrightarrow>
   cand_ok s \<lparr>k_dt = dt, k_kind = kind, k_ball = ball, k_slot = slot, k_obstacle = ob, k_nx = nx, k_ny = ny\<rparr>"
  by (auto simp add: cand_ok_def)

lemma offer_ok:
  assumes "cand_ok s best"
    and "cand_ok s \<lparr>k_dt = dt, k_kind = kind, k_ball = ball, k_slot = slot, k_obstacle = ob, k_nx = nx, k_ny = ny\<rparr>"
  shows "cand_ok s (offer best dt kind ball slot ob nx ny)"
  using assms by (simp add: offer_def)

lemma offer_plain:
  "cand_ok s best \<Longrightarrow> ball \<in> {0, 1} \<Longrightarrow> kind \<notin> {15, 16, 17, 18} \<Longrightarrow>
   cand_ok s (offer best dt kind ball slot ob nx ny)"
  by (rule offer_ok) (simp_all add: cand_ok_plain)

lemma safe_offer_hit:
  assumes "safe r (\<lambda>_. True)" and "\<And>h :: geometry_hit. cand_ok s (offer best (h_dt h) kind ball slot ob (h_nx h) (h_ny h))"
  shows "safe (offer_hit best kind ball slot ob r) (cand_ok s)"
  unfolding offer_hit_def by (rule safe_bind_any [OF assms(1)]) (simp add: assms(2))

lemma safe_portal_contact:
  assumes "cand_ok s best" and "ball \<in> {0, 1}" and "i \<in> {0, 1}"
  shows "safe (portal_contact b ball vx vy slot v i best) (cand_ok s)"
  unfolding portal_contact_def Let_def case_prod_beta
  by (intro safe_if safe_offer_hit safe_geometry offer_plain) (use assms in auto)

lemma safe_brick_contact:
  assumes "cand_ok s best" and "ball \<in> {0, 1}" and "i \<in> {0, 1, 2}" and "slot \<in> {0, 1}"
    and "e = slot_of (z_effects s) slot" and "activeEffect e (now_ms s)" and "fx_id e = 19"
  shows "safe (brick_contact b ball vx vy slot e i best) (cand_ok s)"
  unfolding brick_contact_def
proof (rule safe_if)
  assume bt: "and32 (fx_remaining e) (shl32 1 i) \<noteq> 0 \<and> \<not> ghost_has b (i + 4)"
  show "safe (offer_hit best (15 + i) ball slot i
      (rectHit (b_x b - 512 * P) (b_y b - brickY i) vx vy (34 * P) (14 * P))) (cand_ok s)"
  proof (rule safe_offer_hit [OF safe_rectHit], rule offer_ok [OF assms(1)])
    fix h :: geometry_hit
    from assms(3) have "15 + i \<noteq> 18" by auto
    then show "cand_ok s \<lparr>k_dt = h_dt h, k_kind = 15 + i, k_ball = ball, k_slot = slot, k_obstacle = i,
        k_nx = h_nx h, k_ny = h_ny h\<rparr>"
      using assms(2-4,6,7) bt unfolding cand_ok_def by (simp add: assms(5) [symmetric])
  qed
next
  show "safe (Inr best) (cand_ok s)" using assms(1) by simp
qed

lemma safe_slot_contact:
  assumes "cand_ok s best" and "ball \<in> {0, 1}" and "slot \<in> {0, 1}" and "b = slot_of (z_balls s) ball"
  shows "safe (slot_contact s ball b vx vy slot best) (cand_ok s)"
proof -
  define e where "e = slot_of (z_effects s) slot"
  have plain: "cand_ok s (offer c dt kind ball slot ob nx ny)" if "kind \<notin> {15, 16, 17, 18}" "cand_ok s c"
    for c dt kind ob nx ny using that offer_plain assms(2) by blast
  show ?thesis unfolding slot_contact_def Let_def e_def [symmetric]
  proof (intro safe_if)
    show "safe (Inr best) (cand_ok s)" if "\<not> activeEffect e (now_ms s)" using assms(1) by simp
    assume "\<not> \<not> activeEffect e (now_ms s)"
    then have act: "activeEffect e (now_ms s)" by simp
    show "safe (Inr (shield_contact b ball vx slot e best)) (cand_ok s)"
      using plain assms(1) by (simp add: shield_contact_def Let_def)
    show "safe (offer_hit best 9 ball slot 0 (circleHit (b_x b - 512 * P) (b_y b - 288 * P) vx vy (34 * P) False))
        (cand_ok s)"
      by (rule safe_offer_hit [OF safe_circleHit], rule plain) (use assms(1) in simp_all)
    show "safe (rbind (portal_contact b ball vx vy slot (fx_variant e) 0 best) (\<lambda>best.
        portal_contact b ball vx vy slot (fx_variant e) 1 best)) (cand_ok s)"
      by (rule safe_bind [OF safe_portal_contact], rule assms, rule assms, simp, rule safe_portal_contact)
        (use assms in simp_all)
    show "safe (Inr (offer best (warp_time b vx) 12 ball slot 0 0 0)) (cand_ok s)"
      using plain assms(1) by simp
    show "safe (offer_hit best 13 ball slot 0
        (circleHit (b_x b - 512 * P) (b_y b - 288 * P) vx vy (160 * P) (b_gravity b))) (cand_ok s)"
      by (rule safe_offer_hit [OF safe_circleHit], rule plain) (use assms(1) in simp_all)
    show "safe (offer_hit best 14 ball slot 0 (deflector (b_x b) (b_y b) vx vy (fx_variant e))) (cand_ok s)"
      by (rule safe_offer_hit [OF safe_deflector], rule plain) (use assms(1) in simp_all)
    show "safe (rbind (brick_contact b ball vx vy slot e 0 best) (\<lambda>best.
        rbind (brick_contact b ball vx vy slot e 1 best) (\<lambda>best.
          brick_contact b ball vx vy slot e 2 best))) (cand_ok s)" if "fx_id e = 19"
      by (rule safe_bind [where Q = "cand_ok s"], rule safe_brick_contact [OF _ assms(2) _ assms(3) e_def act that],
          rule assms(1), simp, rule safe_bind [where Q = "cand_ok s"],
          rule safe_brick_contact [OF _ assms(2) _ assms(3) e_def act that], assumption, simp,
          rule safe_brick_contact [OF _ assms(2) _ assms(3) e_def act that], assumption, simp)
    show "safe (offer_hit best 18 ball slot 0 (circleHit (b_x b - 512 * P) (b_y b - 120 * P) vx vy (22 * P) False))
        (cand_ok s)" if "fx_id e = 24 \<and> b_lastHitter b \<le> 1 \<and> \<not> ghost_has b 7"
      by (rule safe_offer_hit [OF safe_circleHit], rule offer_ok [OF assms(1)])
        (use assms act that in \<open>auto simp add: cand_ok_def e_def\<close>)
    show "safe (Inr best) (cand_ok s)" using assms(1) by simp
  qed
qed

lemma safe_ball_contact:
  assumes "cand_ok s best" and "ball \<in> {0, 1}" and "b = slot_of (z_balls s) ball"
  shows "safe (ball_contact s ball b best) (\<lambda>(best, goal, ben). cand_ok s best \<and> ben \<in> {0, 1, 2})"
proof -
  have plain: "cand_ok s (offer c dt kind ball 0 0 nx ny)" if "kind \<notin> {15, 16, 17, 18}" "cand_ok s c"
    for c dt kind nx ny using that offer_plain assms(2) by blast
  have slots: "safe (rbind (slot_contact s ball b vx vy 0 c) (\<lambda>c. rbind (slot_contact s ball b vx vy 1 c)
      (\<lambda>c. Inr (c, goal, ben)))) (\<lambda>(best, goal, ben). cand_ok s best \<and> ben \<in> {0, 1, 2})"
    if "cand_ok s c" "ben \<in> {0, 1, 2}" for vx vy c goal ben
  proof (rule safe_bind [OF safe_slot_contact [OF that(1) assms(2) _ assms(3)]])
    fix c1 assume "cand_ok s c1"
    then show "safe (rbind (slot_contact s ball b vx vy 1 c1) (\<lambda>c. Inr (c, goal, ben)))
      (\<lambda>(best, goal, ben). cand_ok s best \<and> ben \<in> {0, 1, 2})"
      by (rule safe_bind [OF safe_slot_contact [OF _ assms(2) _ assms(3)]]) (use that(2) in simp_all)
  qed simp
  have court: "cand_ok s (court_contact b ball vx vy best)" for vx vy
    using plain assms(1) by (simp add: court_contact_def Let_def)
  show ?thesis
  proof (cases "b_alive b")
    case True
    then have run: "ball_contact s ball b best = rbind (velocity s b) (\<lambda>(vx, vy).
       rbind (slot_contact s ball b vx vy 0 (court_contact b ball vx vy best)) (\<lambda>best.
       rbind (slot_contact s ball b vx vy 1 best) (\<lambda>best.
         Inr (best, goal_time b vx, if vx \<noteq> 0 then if vx < 0 then 2 else 1 else 0))))"
      by (simp add: ball_contact_def)
    show ?thesis unfolding run
    proof (rule safe_bind_any [OF safe_velocity])
      fix v :: "int \<times> int"
      obtain vx vy where v: "v = (vx, vy)" by (cases v)
      show "safe (case v of (vx, vy) \<Rightarrow>
         rbind (slot_contact s ball b vx vy 0 (court_contact b ball vx vy best)) (\<lambda>best.
         rbind (slot_contact s ball b vx vy 1 best) (\<lambda>best.
           Inr (best, goal_time b vx, if vx \<noteq> 0 then if vx < 0 then 2 else 1 else 0))))
        (\<lambda>(best, goal, ben). cand_ok s best \<and> ben \<in> {0, 1, 2})"
        unfolding v prod.case by (rule slots [OF court]) simp
    qed
  next
    case False
    then show ?thesis using assms(1) by (simp add: ball_contact_def)
  qed
qed

lemma safe_nextContact:
  "safe (nextContact s) (\<lambda>(best, goals, bens). cand_ok s best \<and> fst bens \<in> {0, 1, 2} \<and> snd bens \<in> {0, 1, 2})"
  unfolding nextContact_def
proof (rule safe_bind [OF safe_ball_contact [OF cand_ok_none]])
  fix r :: "candidate \<times> int \<times> int"
  assume r: "case r of (best, goal, ben) \<Rightarrow> cand_ok s best \<and> ben \<in> {0, 1, 2}"
  obtain best goal ben where e: "r = (best, goal, ben)" by (cases r)
  show "safe (case r of (best, goal0, ben0) \<Rightarrow> rbind (ball_contact s 1 (snd (z_balls s)) best) (\<lambda>(best, goal1, ben1).
      Inr (best, (goal0, goal1), (ben0, ben1))))
    (\<lambda>(best, goals, bens). cand_ok s best \<and> fst bens \<in> {0, 1, 2} \<and> snd bens \<in> {0, 1, 2})"
    unfolding e prod.case
    by (rule safe_bind [OF safe_ball_contact]) (use r in \<open>auto simp add: e\<close>)
qed simp_all

subsection \<open>Contacts\<close>

lemma safe_effectPaddleHit:
  assumes "effects_ok p n" and "side \<in> {0, 1}" and "dir \<in> {0, 1, -1}"
  shows "safe (effectPaddleHit p side dir vy central n) (\<lambda>r. effects_ok (fst r) n)"
proof -
  from assms(2,3) obtain r where r: "effectPaddleHit p side dir vy central n = Inr r"
    by (auto simp add: effectPaddleHit_def)
  with effectPaddleHit_ok [OF assms(1), of side dir vy central "fst r" "snd r"] show ?thesis by simp
qed

lemma safe_consumeShield:
  assumes "effects_ok p n" and "side \<in> {0, 1}"
  shows "safe (consumeShield p side n) (\<lambda>r. effects_ok (fst r) n)"
proof -
  from assms(2) have "\<exists>r. consumeShield p side n = Inr r"
    unfolding consumeShield_def by (cases "shields (slot_of p 0) side n"; cases "shields (slot_of p 1) side n") auto
  then obtain r where r: "consumeShield p side n = Inr r" by blast
  with consumeShield_ok [OF assms(1), of side "fst r" "fst (snd r)" "snd (snd r)"] show ?thesis by simp
qed

lemma safe_breakChaosBrick:
  assumes "effects_ok p n" and "slot \<in> {0, 1}" and "brick \<in> {0, 1, 2}" and "activeEffect (slot_of p slot) n"
    and "fx_id (slot_of p slot) = 19" and "and32 (fx_remaining (slot_of p slot)) (shl32 1 brick) \<noteq> 0"
  shows "safe (breakChaosBrick p slot brick n) (\<lambda>q. effects_ok q n)"
proof -
  from assms(2-6) obtain q where q: "breakChaosBrick p slot brick n = Inr q"
    by (simp add: breakChaosBrick_def Let_def)
  with breakChaosBrick_ok [OF assms(1) q] show ?thesis by simp
qed

lemma safe_collectChaosPickup:
  assumes "effects_ok p n" and "slot \<in> {0, 1}" and "hitter \<in> {0, 1}" and "activeEffect (slot_of p slot) n"
    and "fx_id (slot_of p slot) = 24" and "0 \<le> n" and "n \<le> 1800000"
  shows "safe (collectChaosPickup p slot hitter n) (\<lambda>r. effects_ok (fst r) n)"
proof -
  let ?r = "and32 (fx_variant (slot_of p slot)) 3 + 1"
  have rw: "1 \<le> ?r" "?r \<le> 24" using pickup_reward [of "fx_variant (slot_of p slot)"] by simp_all
  from rw obtain ev where ev: "chaosEvent ?r = Inr ev" "5000 \<le> ce_durationMs ev" "ce_durationMs ev \<le> 12000"
    by (metis chaosEvent_known)
  have "u32 n = Inr n" "u32 (n + ce_durationMs ev) = Inr (n + ce_durationMs ev)"
    using assms(6,7) ev(2,3) by (simp_all add: u32_def umax32_def)
  with assms(2-5) ev(1) have "\<exists>q. collectChaosPickup p slot hitter n = Inr q"
    by (simp add: collectChaosPickup_def Let_def del: u32_Inr)
  then obtain q where q: "collectChaosPickup p slot hitter n = Inr q" by blast
  with collectChaosPickup_ok(1) [OF assms(1), of slot hitter "fst q" "snd q"] show ?thesis by simp
qed

text \<open>The result of a contact: the ball still knows its last hitter and the slots are well-formed.\<close>

abbreviation contact_post :: "int \<Rightarrow> chaos_ball \<times> effect_pair \<times> bool \<Rightarrow> bool" where
  "contact_post n r \<equiv> hitter_ok (fst r) \<and> effects_ok (fst (snd r)) n"

lemma safe_wall_rebound: "safe (wall_rebound s k b) (\<lambda>c. b_lastHitter c = b_lastHitter b)"
  unfolding wall_rebound_def Let_def
  by (intro safe_if safe_bind_any safe_geometry) simp_all

lemma safe_paddle_rebound:
  assumes "chaos_ok s" and "hitter_ok b" and "side \<in> {0, 1}"
  shows "safe (paddle_rebound s side b) (contact_post (now_ms s))"
proof -
  have fx: "effects_ok (z_effects s) (now_ms s)" using assms(1) by (simp add: chaos_ok_def)
  have dir: "(if side = 0 then z_lastLeft s else z_lastRight s) \<in> {0, 1, -1}"
    using assms(1) by (simp add: chaos_ok_def)
  show ?thesis unfolding paddle_rebound_def Let_def
  proof (rule safe_bind_any [OF safe_paddles [OF assms(1)]], rule safe_if, rule safe_bind [OF safe_effectPaddleHit [OF fx assms(3) dir]])
    fix ps and r :: "effect_pair \<times> shot"
    assume "effects_ok (fst r) (now_ms s)"
    then show "safe (Inr (if sh_curveSign (snd r) \<noteq> 0
        then b\<lparr>b_powerN := 1, b_powerD := 1, b_vx := tdiv (- b_vx b * 11) 10, b_vy := tdiv (b_vy b * 11) 10,
          b_lastHitter := side, b_powerN := sh_numerator (snd r), b_powerD := sh_denominator (snd r),
          b_curveSteps := 150, b_curveSign := sh_curveSign (snd r)\<rparr>
        else b\<lparr>b_powerN := 1, b_powerD := 1, b_vx := tdiv (- b_vx b * 11) 10, b_vy := tdiv (b_vy b * 11) 10,
          b_lastHitter := side, b_powerN := sh_numerator (snd r), b_powerD := sh_denominator (snd r)\<rparr>,
        fst r, True)) (contact_post (now_ms s))"
      using assms(3) by (auto simp add: hitter_ok_def)
  next
    fix ps
    show "safe (Inr (b\<lparr>b_x := b_x b + (if b_vx b < 0 then - 1 else 1)\<rparr>, z_effects s, False))
        (contact_post (now_ms s))" using assms(2) fx by (simp add: hitter_ok_def)
  qed
qed

lemma safe_shield_rebound:
  assumes "effects_ok (z_effects s) (now_ms s)" and "side \<in> {0, 1}"
  shows "safe (shield_rebound s side b) (\<lambda>r. b_lastHitter (fst r) = b_lastHitter b \<and> effects_ok (snd r) (now_ms s))"
  unfolding shield_rebound_def
  by (rule safe_bind [OF safe_consumeShield [OF assms]]) simp

lemma safe_obstacle_rebound:
  assumes "effects_ok (z_effects s) (now_ms s)" and "cand_ok s h"
  shows "safe (obstacle_rebound s h b) (\<lambda>r. b_lastHitter (fst r) = b_lastHitter b \<and> effects_ok (snd r) (now_ms s))"
proof -
  have br: "safe (if k_kind h \<ge> 15 \<and> k_kind h \<le> 17 then breakChaosBrick (z_effects s) (k_slot h) (k_obstacle h) (now_ms s)
      else Inr (z_effects s)) (\<lambda>q. effects_ok q (now_ms s))"
  proof (rule safe_if)
    assume "k_kind h \<ge> 15 \<and> k_kind h \<le> 17"
    then have "k_kind h \<ge> 15" "k_kind h \<le> 17" by auto
    from safe_breakChaosBrick [OF assms(1) cand_ok_brick [OF assms(2) this]]
    show "safe (breakChaosBrick (z_effects s) (k_slot h) (k_obstacle h) (now_ms s)) (\<lambda>q. effects_ok q (now_ms s))" .
  qed (use assms(1) in simp)
  show ?thesis unfolding obstacle_rebound_def
    by (rule safe_bind_any [OF safe_reflectVelocity], rule safe_bind [OF br]) simp
qed

lemma safe_contact_effect:
  assumes "chaos_ok s" and "cand_ok s h" and "now_ms s \<le> 1800000"
  shows "safe (contact_effect s h (slot_of (z_balls s) (k_ball h))) (contact_post (now_ms s))"
proof -
  define b where "b = slot_of (z_balls s) (k_ball h)"
  define c where "c = (if physical_kind (k_kind h) then b\<lparr>b_powerN := 1, b_powerD := 1\<rparr> else b)"
  have n0: "0 \<le> now_ms s" using assms(1) tdiv_mono [of 1000 0 "z_t s"] by (simp add: now_ms_def chaos_ok_def)
  have fx: "effects_ok (z_effects s) (now_ms s)" using assms(1) by (simp add: chaos_ok_def)
  have hb: "hitter_ok b" using assms(1) by (simp add: b_def chaos_ok_def hitter_ok_slot)
  have hc: "hitter_ok c" "b_lastHitter c = b_lastHitter b" using hb by (simp_all add: c_def hitter_ok_def)
  have keep: "hitter_ok d" if "b_lastHitter d = b_lastHitter c" for d :: chaos_ball
    using hc(1) that by (simp add: hitter_ok_def)
  have pick: "safe (collectChaosPickup (z_effects s) (k_slot h) (b_lastHitter c) (now_ms s)) (\<lambda>r. effects_ok (fst r) (now_ms s))"
    if "k_kind h = 18"
  proof -
    note k = cand_ok_pickup [OF assms(2) that]
    have "b_lastHitter c \<in> {0, 1}" using hb hc(2) k(4) by (auto simp add: hitter_ok_def b_def)
    from safe_collectChaosPickup [OF fx k(1) this k(2,3) n0 assms(3)] show ?thesis .
  qed
  have tele: "b_lastHitter (teleport s h c) = b_lastHitter c" by (simp add: teleport_def Let_def)
  show ?thesis
    unfolding contact_effect_def Let_def b_def [symmetric] c_def [symmetric]
  proof (intro safe_if)
    show "safe (rbind (wall_rebound s (k_kind h) c) (\<lambda>b. Inr (b, z_effects s, physical_kind (k_kind h))))
        (contact_post (now_ms s))"
      by (rule safe_bind [OF safe_wall_rebound]) (simp add: keep fx)
    show "safe (paddle_rebound s (if k_kind h = 3 then 0 else 1) c) (contact_post (now_ms s))"
      by (rule safe_paddle_rebound [OF assms(1) hc(1)]) simp
    show "safe (rbind (shield_rebound s (if k_kind h = 7 then 0 else 1) c)
        (\<lambda>r. Inr (fst r, snd r, physical_kind (k_kind h)))) (contact_post (now_ms s))"
      by (rule safe_bind [OF safe_shield_rebound [OF fx]]) (simp_all add: keep)
    show "safe (rbind (obstacle_rebound s h c) (\<lambda>r. Inr (fst r, snd r, physical_kind (k_kind h))))
        (contact_post (now_ms s))"
      by (rule safe_bind [OF safe_obstacle_rebound [OF fx assms(2)]]) (simp_all add: keep)
    show "safe (rbind (collectChaosPickup (z_effects s) (k_slot h) (b_lastHitter c) (now_ms s))
        (\<lambda>r. Inr (c, fst r, physical_kind (k_kind h)))) (contact_post (now_ms s))" if "k_kind h = 18"
      by (rule safe_bind [OF pick [OF that]]) (simp add: hc(1))
  qed (simp_all add: keep fx hc tele)
qed

subsection \<open>One iteration\<close>

text \<open>The log of a call: at most eight contacts, numbered consecutively from the collision sequence
  the call started with, none of them in the future.\<close>

definition log_ok :: "int \<Rightarrow> chaos_state \<Rightarrow> chaos_hit list \<Rightarrow> bool" where
  "log_ok start s log \<longleftrightarrow> z_collisionSequence s = start + int (length log) \<and> length log \<le> 8
    \<and> (\<forall>i < length log. hit_sequence (log ! i) = start + int i + 1)
    \<and> (\<forall>i < length log. hit_at (log ! i) \<le> z_t s)"

abbreviation advance_post :: "int \<Rightarrow> int \<Rightarrow> int \<Rightarrow> chaos_state \<Rightarrow> chaos_hit list \<Rightarrow> bool" where
  "advance_post start t0 target s log \<equiv> chaos_ok s \<and> t0 \<le> z_t s \<and> z_t s \<le> target \<and> log_ok start s log"

definition step_post :: "int \<Rightarrow> int \<Rightarrow> int \<Rightarrow> step_result \<Rightarrow> bool" where
  "step_post start t0 target r \<longleftrightarrow> (case r of
     Stop s log \<Rightarrow> advance_post start t0 target s log
   | Go s log \<Rightarrow> advance_post start t0 target s log \<and> length log < 8)"

lemma log_ok_later:
  "log_ok start s log \<Longrightarrow> z_collisionSequence s' = z_collisionSequence s \<Longrightarrow> z_t s \<le> z_t s' \<Longrightarrow> log_ok start s' log"
  by (auto simp add: log_ok_def)

lemma log_ok_append:
  assumes "log_ok start s log" and "length log < 8" and "z_t s' = z_t s"
    and "z_collisionSequence s' = z_collisionSequence s + 1"
    and "hit_sequence h = z_collisionSequence s'" and "hit_at h = z_t s'"
  shows "log_ok start s' (log @ [h])"
  using assms by (auto simp add: log_ok_def nth_append less_Suc_eq)

lemma earlier_le: "earlier s at b \<le> b" "z_t s < at \<Longrightarrow> earlier s at b \<le> at"
  by (simp_all add: earlier_def)

lemma effect_boundary_le:
  assumes "e = fst (z_effects s) \<or> e = snd (z_effects s)" and "fx_id e \<noteq> 0" and "z_t s < fx_expiresAt e * 1000"
  shows "effect_boundary s b \<le> fx_expiresAt e * 1000"
proof -
  define step where "step = (\<lambda>(e :: runtime_effect) b. if fx_id e = 0 then b
    else earlier s (fx_expiresAt e * 1000) (earlier s (fx_startsAt e * 1000) b))"
  have le: "step e b \<le> b" for e :: runtime_effect and b using earlier_le(1) by (auto simp add: step_def intro: order_trans)
  have own: "step e b \<le> fx_expiresAt e * 1000" for b
    using assms(2) earlier_le(2) [OF assms(3)] by (simp add: step_def)
  have eb: "effect_boundary s b = step (snd (z_effects s)) (step (fst (z_effects s)) b)"
    by (simp add: effect_boundary_def step_def)
  from assms(1) show ?thesis
  proof
    assume e: "e = fst (z_effects s)"
    show ?thesis unfolding eb e [symmetric] using order_trans [OF le own] .
  next
    assume e: "e = snd (z_effects s)"
    show ?thesis unfolding eb e [symmetric] by (rule own)
  qed
qed

text \<open>An effect that is active at a contact is still active when the ball gets there, because an
  expiry in between would have been a boundary.\<close>

lemma thousand:
  fixes x y :: int
  shows "x div 1000 < y \<longleftrightarrow> x < y * 1000"
  using mult_div_mod_eq [of 1000 x] pos_mod_bound [of 1000 x] pos_mod_sign [of 1000 x] by linarith

lemma active_until:
  assumes "activeEffect e (now_ms s)" and "0 \<le> z_t s" and "z_t s \<le> z_t s'" and "z_t s' < fx_expiresAt e * 1000"
  shows "activeEffect e (now_ms s')"
proof -
  have t: "now_ms s' = z_t s' div 1000" using assms(2,3) by (simp add: now_ms_def tdiv_nonneg_eq)
  note le = now_mono [OF assms(2,3)]
  have "now_ms s' < fx_expiresAt e" using assms(4) unfolding t thousand .
  with assms(1) le show ?thesis by (simp add: activeEffect_def)
qed

lemma active_expires:
  assumes "activeEffect e (now_ms s)" and "0 \<le> z_t s"
  shows "z_t s < fx_expiresAt e * 1000" and "fx_id e \<noteq> 0"
proof -
  have t: "now_ms s = z_t s div 1000" using assms(2) by (simp add: now_ms_def tdiv_nonneg_eq)
  have "now_ms s < fx_expiresAt e" using assms(1) by (simp add: activeEffect_def)
  then show "z_t s < fx_expiresAt e * 1000" unfolding t thousand .
  show "fx_id e \<noteq> 0" using assms(1) by (simp add: activeEffect_def)
qed

lemma cand_ok_moved:
  assumes "cand_ok s h" and "0 \<le> z_t s" and "z_t s \<le> z_t s'" and "z_t s' < effect_boundary s b"
    and "z_effects s' = z_effects s"
    and "b_lastHitter (fst (z_balls s')) = b_lastHitter (fst (z_balls s))"
    and "b_lastHitter (snd (z_balls s')) = b_lastHitter (snd (z_balls s))"
  shows "cand_ok s' h"
proof -
  have act: "activeEffect (slot_of (z_effects s) i) (now_ms s')" if a: "activeEffect (slot_of (z_effects s) i) (now_ms s)" for i
  proof -
    have "slot_of (z_effects s) i = fst (z_effects s) \<or> slot_of (z_effects s) i = snd (z_effects s)"
      by (simp add: slot_of_def)
    from effect_boundary_le [OF this active_expires(2) [OF a assms(2)] active_expires(1) [OF a assms(2)], of b] assms(4)
    have "z_t s' < fx_expiresAt (slot_of (z_effects s) i) * 1000" by simp
    from active_until [OF a assms(2,3) this] show ?thesis .
  qed
  have hit: "b_lastHitter (slot_of (z_balls s') i) = b_lastHitter (slot_of (z_balls s) i)" for i
    using assms(6,7) by (simp add: slot_of_def)
  show ?thesis using assms(1) act unfolding cand_ok_def assms(5) hit by blast
qed

lemma chaos_ok_stalled: "chaos_ok (s\<lparr>z_stalled := n\<rparr>) = chaos_ok s"
  by (simp add: chaos_ok_def now_ms_def)

lemma chaos_ok_nextForce: "chaos_ok (s\<lparr>z_nextForce := n\<rparr>) = chaos_ok s"
  by (simp add: chaos_ok_def now_ms_def)

lemma serve_chaos_ok:
  assumes "chaos_ok s" and "chaos_score_ok score"
  shows "chaos_ok (serve_chaos (s\<lparr>z_score := score\<rparr>))" and "chaos_ok (clear_play (s\<lparr>z_score := score\<rparr>))"
  using assms by (simp_all add: chaos_ok_def serve_chaos_def clear_play_def hitter_ok_def emptyBall_def)

lemma safe_score_step:
  assumes "chaos_ok s" and "\<not> cs_finished (z_score s)" and "goals \<in> {1, 2, 3}"
    and "t0 \<le> z_t s" and "z_t s \<le> target" and "log_ok start s log" and "length log < 8"
  shows "safe (score_step stopAtPoint s log goals) (step_post start t0 target)"
proof (cases "cs_rally (z_score s) \<ge> umax32")
  case True
  then show ?thesis by (simp add: score_step_def)
next
  case False
  have sc: "chaos_score_ok (z_score s)" using assms(1) by (simp add: chaos_ok_def)
  from False resolveChaosGoals_next [OF sc assms(2) _ assms(3), of "chaosPointValue (z_effects s) (now_ms s) = 2"]
  obtain score flags where r: "resolveChaosGoals (z_score s) goals (chaosPointValue (z_effects s) (now_ms s) = 2)
      = Inr (score, flags)" "chaos_score_ok score" by auto
  note ok = serve_chaos_ok [OF assms(1) r(2)]
  have lg: "log_ok start (serve_chaos (s\<lparr>z_score := score\<rparr>)) log" "log_ok start (clear_play (s\<lparr>z_score := score\<rparr>)) log"
    using assms(6) by (simp_all add: log_ok_def serve_chaos_def clear_play_def)
  have t: "z_t (serve_chaos (s\<lparr>z_score := score\<rparr>)) = z_t s" "z_t (clear_play (s\<lparr>z_score := score\<rparr>)) = z_t s"
    by (simp_all add: serve_chaos_def clear_play_def)
  show ?thesis using False ok lg t assms(4,5,7)
    by (simp add: score_step_def r(1) Let_def step_post_def)
qed

lemma safe_collideEffect:
  assumes "chaos_ok s" and "cand_ok s h" and "now_ms s \<le> 1800000"
  shows "safe (collideEffect s h) (\<lambda>r. chaos_ok (fst r) \<and> z_t (fst r) = z_t s
    \<and> z_collisionSequence (fst r) = z_collisionSequence s)"
  unfolding collideEffect_def case_prod_beta
proof (rule safe_bind [OF safe_contact_effect [OF assms]], rule safe_bind_any [OF safe_geometryCheck])
  fix r :: "chaos_ball \<times> effect_pair \<times> bool"
  assume r: "contact_post (now_ms s) r"
  have "hitter_ok (fst (set_slot (z_balls s) (k_ball h) (fst r)))" "hitter_ok (snd (set_slot (z_balls s) (k_ball h) (fst r)))"
    using assms(1) r by (simp_all add: set_slot_def chaos_ok_def)
  with r assms(1) show "safe (Inr (s\<lparr>z_balls := set_slot (z_balls s) (k_ball h) (fst r), z_effects := fst (snd r)\<rparr>,
      snd (snd r))) (\<lambda>r. chaos_ok (fst r) \<and> z_t (fst r) = z_t s \<and> z_collisionSequence (fst r) = z_collisionSequence s)"
    by (simp add: chaos_ok_def now_ms_def)
qed

lemma safe_contact_step:
  assumes "chaos_ok s" and "cand_ok s h" and "now_ms s \<le> 1800000"
    and "t0 \<le> z_t s" and "z_t s \<le> target" and "log_ok start s log" and "length log < 8"
  shows "safe (contact_step s log h) (step_post start t0 target)"
  unfolding contact_step_def
proof (rule safe_bind [OF safe_collideEffect [OF assms(1-3)]])
  fix r :: "chaos_state \<times> bool"
  assume r: "chaos_ok (fst r) \<and> z_t (fst r) = z_t s \<and> z_collisionSequence (fst r) = z_collisionSequence s"
  obtain q physical where e: "r = (q, physical)" by (cases r)
  have lg: "log_ok start q log" using log_ok_later [OF assms(6)] r by (simp add: e)
  define q1 where "q1 = q\<lparr>z_collisionSequence := z_collisionSequence q + 1\<rparr>"
  define rec where "rec = \<lparr>hit_sequence = z_collisionSequence q1, hit_rally = cs_rally (z_score q1),
    hit_ball = k_ball h + 1, hit_kind = k_kind h, hit_obstacle = k_obstacle h, hit_at = z_t q1,
    hit_x = b_x (slot_of (z_balls q1) (k_ball h)), hit_y = b_y (slot_of (z_balls q1) (k_ball h))\<rparr>"
  have more: "advance_post start t0 target q1 (log @ [rec])" if "\<not> z_collisionSequence q1 > umax32"
  proof -
    have "log_ok start q1 (log @ [rec])"
      by (rule log_ok_append [OF lg assms(7)]) (simp_all add: q1_def rec_def)
    moreover from r have "chaos_ok q" by (simp add: e)
    then have "chaos_ok q1" using that unfolding q1_def by (simp add: chaos_ok_def now_ms_def)
    moreover have "z_t q1 = z_t s" using r by (simp add: e q1_def)
    ultimately show ?thesis using assms(4,5) by simp
  qed
  show "safe (case r of (s, physical) \<Rightarrow> rbind (if physical then
       let s = s\<lparr>z_collisionSequence := z_collisionSequence s + 1\<rparr> in
       if z_collisionSequence s > umax32 then Inl range_error
       else let b = slot_of (z_balls s) (k_ball h) in
         Inr (s, log @ [\<lparr>hit_sequence = z_collisionSequence s, hit_rally = cs_rally (z_score s),
           hit_ball = k_ball h + 1, hit_kind = k_kind h, hit_obstacle = k_obstacle h, hit_at = z_t s,
           hit_x = b_x b, hit_y = b_y b\<rparr>])
       else Inr (s, log)) (\<lambda>(s, log). Inr (if length log = 8 then Stop s log else Go s log)))
      (step_post start t0 target)"
    unfolding e prod.case Let_def q1_def [symmetric] rec_def [symmetric]
  proof (cases physical)
    case True
    show "safe (rbind (if physical then if umax32 < z_collisionSequence q1 then Inl range_error
        else Inr (q1, log @ [rec]) else Inr (q, log))
        (\<lambda>(s, log). Inr (if length log = 8 then Stop s log else Go s log))) (step_post start t0 target)"
      using True more assms(7) by (cases "umax32 < z_collisionSequence q1") (simp_all add: step_post_def)
  next
    case False
    then show "safe (rbind (if physical then if umax32 < z_collisionSequence q1 then Inl range_error
        else Inr (q1, log @ [rec]) else Inr (q, log))
        (\<lambda>(s, log). Inr (if length log = 8 then Stop s log else Go s log))) (step_post start t0 target)"
      using r lg assms(4,5,7) by (simp add: step_post_def e)
  qed
qed

lemma or32_goals:
  assumes "x \<in> {0, 1, 2}" and "y \<in> {0, 1, 2}"
  shows "or32 0 x = x" and "or32 x y \<in> {0, 1, 2, 3}"
  using assms by (auto simp add: or32_def i32_small)

lemma goals_mask_range:
  assumes "fst bens \<in> {0, 1, 2}" and "snd bens \<in> {0, 1, 2}"
  shows "goals_mask s dt goals bens \<in> {0, 1, 2, 3}"
proof -
  define m where "m = (if b_alive (fst (z_balls s)) \<and> fst goals = dt then or32 0 (fst bens) else 0)"
  have m: "m \<in> {0, 1, 2}" using assms(1) or32_goals(1) [OF assms] by (simp add: m_def)
  have "or32 m (snd bens) \<in> {0, 1, 2, 3}" by (rule or32_goals(2) [OF m assms(2)])
  moreover have "goals_mask s dt goals bens = (if b_alive (snd (z_balls s)) \<and> snd goals = dt then or32 m (snd bens) else m)"
    by (simp add: goals_mask_def m_def Let_def)
  ultimately show ?thesis using m by auto
qed

text \<open>The part of an iteration after the search, once the ball is known to reach its contact before
  any boundary.\<close>

lemma safe_reach:
  assumes "chaos_ok q" and "cand_ok q h" and "\<not> cs_finished (z_score q)"
    and "0 \<le> k_dt h" and "z_t q + k_dt h \<le> target" and "target \<le> 1800000000"
    and "z_t q + k_dt h < effect_boundary q b"
    and "fst bens \<in> {0, 1, 2}" and "snd bens \<in> {0, 1, 2}"
    and "t0 \<le> z_t q" and "log_ok start q log" and "length log < 8"
  shows "safe (rbind (move_chaos q (z_t q + k_dt h)) (\<lambda>s.
      let s = (if k_dt h = 0 then s\<lparr>z_stalled := z_stalled s + 1\<rparr> else s) in
      if k_dt h = 0 \<and> z_stalled s > 32 then Inl range_error else
      let goalsMask = goals_mask s (k_dt h) goals bens in
      if goalsMask \<noteq> 0 then score_step stopAtPoint s log goalsMask
      else contact_step s log h)) (step_post start t0 target)"
proof (rule safe_bind [OF safe_move_chaos [OF assms(1)]])
  show "z_t q \<le> z_t q + k_dt h" using assms(4) by simp
next
  fix s1
  assume m: "chaos_ok s1 \<and> z_t s1 = z_t q + k_dt h \<and> same_rules q s1 \<and> z_effects s1 = z_effects q
    \<and> b_lastHitter (fst (z_balls s1)) = b_lastHitter (fst (z_balls q))
    \<and> b_lastHitter (snd (z_balls s1)) = b_lastHitter (snd (z_balls q))"
  define s2 where "s2 = (if k_dt h = 0 then s1\<lparr>z_stalled := z_stalled s1 + 1\<rparr> else s1)"
  from m have ok1: "chaos_ok s1" by simp
  have ok: "chaos_ok s2" using ok1 by (simp add: s2_def chaos_ok_stalled)
  have f: "z_t s2 = z_t q + k_dt h" "z_effects s2 = z_effects q" "z_balls s2 = z_balls s1"
    "z_score s2 = z_score q" "z_collisionSequence s2 = z_collisionSequence q"
    using m by (simp_all add: s2_def same_rules_def)
  have q0: "0 \<le> z_t q" using assms(1) by (simp add: chaos_ok_def)
  have cand: "cand_ok s2 h"
    by (rule cand_ok_moved [OF assms(2) q0, of s2 b]) (use assms(4,7) f m in simp_all)
  have t: "t0 \<le> z_t s2" "z_t s2 \<le> target" using assms(4,5,10) by (simp_all add: f(1))
  have lg: "log_ok start s2 log" using log_ok_later [OF assms(11), of s2] f assms(4) by simp
  have fin: "\<not> cs_finished (z_score s2)" using assms(3) by (simp add: f(4))
  have "now_ms s2 \<le> tdiv 1800000000 1000"
    unfolding now_ms_def by (rule tdiv_mono) (use t(2) assms(6) in simp_all)
  then have now: "now_ms s2 \<le> 1800000" by (simp add: tdiv_nonneg_eq)
  have mask: "goals_mask s2 (k_dt h) goals bens \<in> {0, 1, 2, 3}" by (rule goals_mask_range [OF assms(8,9)])
  show "safe (let s = (if k_dt h = 0 then s1\<lparr>z_stalled := z_stalled s1 + 1\<rparr> else s1) in
      if k_dt h = 0 \<and> z_stalled s > 32 then Inl range_error else
      let goalsMask = goals_mask s (k_dt h) goals bens in
      if goalsMask \<noteq> 0 then score_step stopAtPoint s log goalsMask
      else contact_step s log h) (step_post start t0 target)"
    unfolding Let_def s2_def [symmetric]
  proof (intro safe_if)
    show "safe (Inl range_error) (step_post start t0 target)" by simp
    show "safe (score_step stopAtPoint s2 log (goals_mask s2 (k_dt h) goals bens)) (step_post start t0 target)"
      if "goals_mask s2 (k_dt h) goals bens \<noteq> 0"
      by (rule safe_score_step [OF ok fin _ t lg assms(12)]) (use mask that in auto)
    show "safe (contact_step s2 log h) (step_post start t0 target)"
      by (rule safe_contact_step [OF ok cand now t lg assms(12)])
  qed
qed

lemma safe_move_to:
  assumes "chaos_ok q" and "z_t q \<le> T" and "T \<le> target" and "t0 \<le> z_t q" and "log_ok start q log" and "length log < 8"
  shows "safe (rbind (move_chaos q T) (\<lambda>s. Inr (Stop s log))) (step_post start t0 target)"
    and "safe (rbind (move_chaos q T) (\<lambda>s. Inr (Go s log))) (step_post start t0 target)"
proof -
  have post: "advance_post start t0 target s log"
    if "chaos_ok s \<and> z_t s = T \<and> same_rules q s \<and> z_effects s = z_effects q
      \<and> b_lastHitter (fst (z_balls s)) = b_lastHitter (fst (z_balls q))
      \<and> b_lastHitter (snd (z_balls s)) = b_lastHitter (snd (z_balls q))" for s
    using that assms log_ok_later [OF assms(5), of s] by (simp add: same_rules_def)
  show "safe (rbind (move_chaos q T) (\<lambda>s. Inr (Stop s log))) (step_post start t0 target)"
    by (rule safe_bind [OF safe_move_chaos [OF assms(1,2)]]) (use post in \<open>simp add: step_post_def\<close>)
  show "safe (rbind (move_chaos q T) (\<lambda>s. Inr (Go s log))) (step_post start t0 target)"
    by (rule safe_bind [OF safe_move_chaos [OF assms(1,2)]]) (use post assms(6) in \<open>simp add: step_post_def\<close>)
qed

lemma safe_event_step:
  assumes "chaos_ok s" and "\<not> cs_finished (z_score s)" and "t0 \<le> z_t s" and "z_t s \<le> target"
    and "target \<le> 1800000000" and "log_ok start s log" and "length log < 8"
  shows "safe (event_step target stopAtPoint s log) (step_post start t0 target)"
  unfolding event_step_def Let_def
proof (rule safe_bind [OF safe_prepare [OF assms(1)]], elim conjE, rule safe_bind [OF safe_grid_step], assumption, elim conjE)
  fix p q
  assume p: "chaos_ok p" "z_t p = z_t s" "same_rules s p"
    and q: "chaos_ok q" "z_t q = z_t p" "same_rules p q" "z_effects q = z_effects p"
  have fin: "\<not> cs_finished (z_score q)" using assms(2) p(3) q(3) by (simp add: same_rules_def)
  have t: "t0 \<le> z_t q" "z_t q \<le> target" using assms(3,4) p(2) q(2) by simp_all
  have lg: "log_ok start q log" using log_ok_later [OF assms(6), of q] p q by (simp add: same_rules_def)
  define b where "b = (if needsGrid p then z_nextForce q else NEVER)"
  show "safe (rbind (nextContact q) (\<lambda>(hit, goals, beneficiaries).
      if effect_boundary q (if needsGrid p then z_nextForce q else NEVER) < z_t q then Inl range_error
      else if target - z_t q < k_dt hit \<and> target < effect_boundary q (if needsGrid p then z_nextForce q else NEVER)
      then rbind (move_chaos q target) (\<lambda>s. Inr (Stop s log))
      else if effect_boundary q (if needsGrid p then z_nextForce q else NEVER) \<le> target
         \<and> (k_dt hit = NEVER \<or> effect_boundary q (if needsGrid p then z_nextForce q else NEVER) - z_t q \<le> k_dt hit)
      then rbind (move_chaos q (effect_boundary q (if needsGrid p then z_nextForce q else NEVER))) (\<lambda>s. Inr (Go s log))
      else if k_dt hit = NEVER \<or> target - z_t q < k_dt hit
      then rbind (move_chaos q target) (\<lambda>s. Inr (Stop s log))
      else rbind (move_chaos q (z_t q + k_dt hit)) (\<lambda>s.
        if k_dt hit = 0 \<and> 32 < z_stalled (if k_dt hit = 0 then s\<lparr>z_stalled := z_stalled s + 1\<rparr> else s)
        then Inl range_error
        else if goals_mask (if k_dt hit = 0 then s\<lparr>z_stalled := z_stalled s + 1\<rparr> else s) (k_dt hit) goals beneficiaries \<noteq> 0
        then score_step stopAtPoint (if k_dt hit = 0 then s\<lparr>z_stalled := z_stalled s + 1\<rparr> else s) log
          (goals_mask (if k_dt hit = 0 then s\<lparr>z_stalled := z_stalled s + 1\<rparr> else s) (k_dt hit) goals beneficiaries)
        else contact_step (if k_dt hit = 0 then s\<lparr>z_stalled := z_stalled s + 1\<rparr> else s) log hit)))
      (step_post start t0 target)"
    unfolding b_def [symmetric]
  proof (rule safe_bind [OF safe_nextContact])
    fix r :: "candidate \<times> (int \<times> int) \<times> (int \<times> int)"
    assume r: "case r of (best, goals, bens) \<Rightarrow> cand_ok q best \<and> fst bens \<in> {0, 1, 2} \<and> snd bens \<in> {0, 1, 2}"
    obtain h goals bens where e: "r = (h, goals, bens)" by (cases r)
    define B where "B = effect_boundary q b"
    show "safe (case r of (hit, goals, beneficiaries) \<Rightarrow>
      if effect_boundary q b < z_t q then Inl range_error
      else if target - z_t q < k_dt hit \<and> target < effect_boundary q b
      then rbind (move_chaos q target) (\<lambda>s. Inr (Stop s log))
      else if effect_boundary q b \<le> target \<and> (k_dt hit = NEVER \<or> effect_boundary q b - z_t q \<le> k_dt hit)
      then rbind (move_chaos q (effect_boundary q b)) (\<lambda>s. Inr (Go s log))
      else if k_dt hit = NEVER \<or> target - z_t q < k_dt hit
      then rbind (move_chaos q target) (\<lambda>s. Inr (Stop s log))
      else rbind (move_chaos q (z_t q + k_dt hit)) (\<lambda>s.
        if k_dt hit = 0 \<and> 32 < z_stalled (if k_dt hit = 0 then s\<lparr>z_stalled := z_stalled s + 1\<rparr> else s)
        then Inl range_error
        else if goals_mask (if k_dt hit = 0 then s\<lparr>z_stalled := z_stalled s + 1\<rparr> else s) (k_dt hit) goals beneficiaries \<noteq> 0
        then score_step stopAtPoint (if k_dt hit = 0 then s\<lparr>z_stalled := z_stalled s + 1\<rparr> else s) log
          (goals_mask (if k_dt hit = 0 then s\<lparr>z_stalled := z_stalled s + 1\<rparr> else s) (k_dt hit) goals beneficiaries)
        else contact_step (if k_dt hit = 0 then s\<lparr>z_stalled := z_stalled s + 1\<rparr> else s) log hit))
      (step_post start t0 target)"
      unfolding e prod.case B_def [symmetric]
    proof (intro safe_if)
      show "safe (Inl range_error) (step_post start t0 target)" by simp
      show "safe (rbind (move_chaos q target) (\<lambda>s. Inr (Stop s log))) (step_post start t0 target)"
        by (rule safe_move_to(1) [OF q(1) t(2) order_refl t(1) lg assms(7)])
      show "safe (rbind (move_chaos q target) (\<lambda>s. Inr (Stop s log))) (step_post start t0 target)"
        by (rule safe_move_to(1) [OF q(1) t(2) order_refl t(1) lg assms(7)])
      show "safe (rbind (move_chaos q B) (\<lambda>s. Inr (Go s log))) (step_post start t0 target)"
        if "\<not> B < z_t q" "B \<le> target \<and> (k_dt h = NEVER \<or> B - z_t q \<le> k_dt h)"
        by (rule safe_move_to(2) [OF q(1) _ _ t(1) lg assms(7)]) (use that in simp_all)
      assume n: "\<not> B < z_t q" "\<not> (target - z_t q < k_dt h \<and> target < B)"
        "\<not> (B \<le> target \<and> (k_dt h = NEVER \<or> B - z_t q \<le> k_dt h))"
        "\<not> (k_dt h = NEVER \<or> target - z_t q < k_dt h)"
      show "safe (rbind (move_chaos q (z_t q + k_dt h)) (\<lambda>s.
        if k_dt h = 0 \<and> 32 < z_stalled (if k_dt h = 0 then s\<lparr>z_stalled := z_stalled s + 1\<rparr> else s)
        then Inl range_error
        else if goals_mask (if k_dt h = 0 then s\<lparr>z_stalled := z_stalled s + 1\<rparr> else s) (k_dt h) goals bens \<noteq> 0
        then score_step stopAtPoint (if k_dt h = 0 then s\<lparr>z_stalled := z_stalled s + 1\<rparr> else s) log
          (goals_mask (if k_dt h = 0 then s\<lparr>z_stalled := z_stalled s + 1\<rparr> else s) (k_dt h) goals bens)
        else contact_step (if k_dt h = 0 then s\<lparr>z_stalled := z_stalled s + 1\<rparr> else s) log h))
        (step_post start t0 target)"
      proof (cases "0 \<le> k_dt h")
        case True
        have "z_t q + k_dt h \<le> target" "z_t q + k_dt h < effect_boundary q b"
          using n unfolding B_def by linarith+
        note reach = this
        from r have c: "cand_ok q h" "fst bens \<in> {0, 1, 2}" "snd bens \<in> {0, 1, 2}"
          unfolding e prod.case by blast+
        show ?thesis
          using safe_reach [OF q(1) c(1) fin True reach(1) assms(5) reach(2) c(2,3) t(1) lg assms(7), of goals stopAtPoint]
          unfolding Let_def .
      next
        case False
        then have "move_chaos q (z_t q + k_dt h) = Inl range_error" by (simp add: move_chaos_def)
        then show ?thesis by simp
      qed
    qed
  qed
qed

lemma safe_chaos_loop:
  assumes "chaos_ok s" and "t0 \<le> z_t s" and "z_t s \<le> target" and "target \<le> 1800000000"
    and "log_ok start s log" and "length log < 8"
  shows "safe (chaos_loop n target stopAtPoint s log) (\<lambda>r. advance_post start t0 target (fst r) (snd r))"
  using assms
proof (induction n arbitrary: s log)
  case 0
  then show ?case by simp
next
  case (Suc n)
  show ?case
  proof (cases "z_cancelled s \<or> cs_finished (z_score s)")
    case True
    then show ?thesis using Suc.prems by simp
  next
    case False
    then have fin: "\<not> cs_finished (z_score s)" by simp
    have run: "chaos_loop (Suc n) target stopAtPoint s log = rbind (event_step target stopAtPoint s log) (\<lambda>r. case r of
       Stop s log \<Rightarrow> Inr (s, log) | Go s log \<Rightarrow> chaos_loop n target stopAtPoint s log)" using False by simp
    show ?thesis unfolding run
    proof (rule safe_bind [OF safe_event_step [OF Suc.prems(1) fin Suc.prems(2-6)]])
      fix r
      assume r: "step_post start t0 target r"
      show "safe (case r of Stop s log \<Rightarrow> Inr (s, log) | Go s log \<Rightarrow> chaos_loop n target stopAtPoint s log)
        (\<lambda>r. advance_post start t0 target (fst r) (snd r))"
      proof (cases r)
        case (Stop s1 log1)
        with r show ?thesis by (simp add: step_post_def)
      next
        case (Go s1 log1)
        with r have "chaos_ok s1" "t0 \<le> z_t s1" "z_t s1 \<le> target" "log_ok start s1 log1" "length log1 < 8"
          by (simp_all add: step_post_def)
        from Suc.IH [OF this(1-3) Suc.prems(4) this(4,5)] show ?thesis by (simp add: Go)
      qed
    qed
  qed
qed

lemma safe_settle:
  assumes "chaos_ok s" and "t0 \<le> z_t s" and "z_t s \<le> target" and "log_ok start s log"
  shows "safe (settle target s) (\<lambda>r. advance_post start t0 target (fst r) log)"
proof (cases "z_cancelled s \<or> cs_finished (z_score s)")
  case True
  then show ?thesis using assms by (simp add: settle_def)
next
  case False
  then have run: "settle target s = rbind (prepare s) (\<lambda>s.
       let s = (if \<not> needsGrid s then s\<lparr>z_nextForce := (tdiv (z_t s) STEP + 1) * STEP\<rparr> else s)
       in if z_t s = target \<and> z_nextForce s > z_t s
          then rbind (nextContact s) (\<lambda>(hit, _, _). Inr (s, k_dt hit \<noteq> 0))
          else Inr (s, False))" by (simp add: settle_def)
  show ?thesis unfolding run
  proof (rule safe_bind [OF safe_prepare [OF assms(1)]])
    fix p
    assume p: "chaos_ok p \<and> z_t p = z_t s \<and> same_rules s p"
    define q where "q = (if \<not> needsGrid p then p\<lparr>z_nextForce := (tdiv (z_t p) STEP + 1) * STEP\<rparr> else p)"
    have q: "chaos_ok q" "z_t q = z_t s" "z_collisionSequence q = z_collisionSequence s"
      using p by (simp_all add: q_def chaos_ok_nextForce same_rules_def)
    then have post: "advance_post start t0 target q log" using assms log_ok_later [OF assms(4), of q] by simp
    show "safe (let s = (if \<not> needsGrid p then p\<lparr>z_nextForce := (tdiv (z_t p) STEP + 1) * STEP\<rparr> else p)
       in if z_t s = target \<and> z_nextForce s > z_t s
          then rbind (nextContact s) (\<lambda>(hit, _, _). Inr (s, k_dt hit \<noteq> 0))
          else Inr (s, False)) (\<lambda>r. advance_post start t0 target (fst r) log)"
      unfolding Let_def q_def [symmetric]
      by (rule safe_if, rule safe_bind [OF safe_nextContact]) (use post in \<open>auto split: prod.split\<close>)
  qed
qed

subsection \<open>The guarantee\<close>

lemma cancel_ok:
  assumes "chaos_ok s"
  shows "chaos_ok (cancel s reason)" and "z_t (cancel s reason) = z_t s" and "z_cancelled (cancel s reason)"
    and "z_score (cancel s reason) = z_score s"
  using assms by (simp_all add: cancel_def clear_play_def chaos_ok_def now_ms_def hitter_ok_def emptyBall_def)

text \<open>C3. From a well-formed state the Chaos engine always answers: for a target not before the
  state's clock and an allowed budget nothing is thrown.  Either the match is cancelled (past the
  thirty minutes of game time, or on a numeric overflow), with the score kept and play cleared,
  or the result is a well-formed state with its clock between the old one and the target and a
  log of at most eight contacts, numbered consecutively after the state's collision sequence.\<close>

theorem advanceChaosEvents_total:
  assumes "chaos_ok s" and "z_t s \<le> target" and "0 \<le> budget" and "budget \<le> 512"
  shows "\<exists>s' complete log. advanceChaosEvents s target budget stopAtPoint = Inr (s', complete, log)
    \<and> chaos_ok s' \<and> z_t s \<le> z_t s' \<and> z_t s' \<le> target
    \<and> (s' \<in> {cancel s 1, cancel s 2} \<and> complete \<and> log = [] \<and> z_score s' = z_score s
       \<or> log_ok (z_collisionSequence s) s' log)"
proof (cases "target > 1800000000")
  case True
  with assms cancel_ok [OF assms(1)] show ?thesis by (auto simp add: advanceChaosEvents_def)
next
  case False
  have start: "log_ok (z_collisionSequence s) s []" by (simp add: log_ok_def)
  define run where "run = rbind (chaos_loop (nat budget) target stopAtPoint s []) (\<lambda>(s, log).
    rbind (settle target s) (\<lambda>(s, complete). Inr (s, complete, log)))"
  have "safe run (\<lambda>(s', complete, log). advance_post (z_collisionSequence s) (z_t s) target s' log)"
    unfolding run_def case_prod_beta
  proof (rule safe_bind [OF safe_chaos_loop [OF assms(1) order_refl assms(2) _ start]])
    show "target \<le> 1800000000" using False by simp
    fix r :: "chaos_state \<times> chaos_hit list"
    assume r: "advance_post (z_collisionSequence s) (z_t s) target (fst r) (snd r)"
    then have r: "chaos_ok (fst r)" "z_t s \<le> z_t (fst r)" "z_t (fst r) \<le> target"
      "log_ok (z_collisionSequence s) (fst r) (snd r)" by auto
    show "safe (rbind (settle target (fst r)) (\<lambda>q. Inr (fst q, snd q, snd r)))
      (\<lambda>p. advance_post (z_collisionSequence s) (z_t s) target (fst p) (snd (snd p)))"
      by (rule safe_bind [OF safe_settle [OF r]]) simp
  qed simp
  moreover have "advanceChaosEvents s target budget stopAtPoint = (case run of Inr r \<Rightarrow> Inr r
     | Inl e \<Rightarrow> if e = range_error then Inr (cancel s 1, True, []) else Inl e)"
    using False assms by (simp add: advanceChaosEvents_def run_def)
  ultimately show ?thesis using cancel_ok [OF assms(1)] assms(2) by (cases run) auto
qed

definition chaos_opening :: chaos_state where
  "chaos_opening = initialChaosEvents 5 96000000 96000000"

lemma chaos_opening_ok: "chaos_ok chaos_opening" "z_t chaos_opening = 0"
  by (simp_all add: chaos_opening_def initialChaosEvents_def serve_chaos_def chaos_ok_def emptyBall_def
    hitter_ok_def chaos_score_ok_def bet_ok_def umax32_def now_ms_def)

theorem advanceChaosEvents_total_witness:
  "chaos_ok chaos_opening \<and> z_t chaos_opening \<le> 9000000
   \<and> (\<exists>s' c log. advanceChaosEvents chaos_opening 9000000 128 False = Inr (s', c, log) \<and> chaos_ok s')"
  using advanceChaosEvents_total [of chaos_opening 9000000 128 False] chaos_opening_ok by auto

end
