(* ===== verification/Js_Text.thy ===== *)
theory Js_Text
  imports Prelude "HOL-Library.Char_ord" "HOL-Library.List_Lexorder"
begin

text \<open>
  The text operations of the language that the modules use, on ASCII strings: lower case,
  decimal notation of integers, hexadecimal patterns and the ISO form of a date.
\<close>

definition lower_char :: "char \<Rightarrow> char" where
  "lower_char c = (if 65 \<le> (of_char c :: int) \<and> (of_char c :: int) \<le> 90
     then char_of ((of_char c :: int) + 32) else c)"

text \<open>\<^verbatim>\<open>s.toLowerCase()\<close>.\<close>

definition lower :: "string \<Rightarrow> string" where
  "lower s = map lower_char s"

definition is_digit :: "char \<Rightarrow> bool" where
  "is_digit c \<longleftrightarrow> 48 \<le> (of_char c :: int) \<and> (of_char c :: int) \<le> 57"

text \<open>A hexadecimal digit of either case, as in \<^verbatim>\<open>/[0-9a-f]/i\<close>.\<close>

definition is_hex :: "char \<Rightarrow> bool" where
  "is_hex c \<longleftrightarrow> is_digit c \<or> 97 \<le> (of_char (lower_char c) :: int) \<and> (of_char (lower_char c) :: int) \<le> 102"

text \<open>\<^verbatim>\<open>/^0x[0-9a-f]{n}$/i\<close>.\<close>

definition hex_string :: "nat \<Rightarrow> string \<Rightarrow> bool" where
  "hex_string n s \<longleftrightarrow> length s = n + 2 \<and> lower (take 2 s) = ''0x'' \<and> list_all is_hex (drop 2 s)"

text \<open>The decimal digits of a natural number and \<^verbatim>\<open>n.toString()\<close> of an integer.\<close>

definition digit :: "int \<Rightarrow> char" where
  "digit n = char_of (48 + n mod 10)"

function digits :: "int \<Rightarrow> string" where
  "digits n = (if n < 10 then [digit n] else digits (n div 10) @ [digit (n mod 10)])"
  by auto
termination by (relation "measure nat") auto

declare digits.simps [simp del]

definition decimal :: "int \<Rightarrow> string" where
  "decimal n = (if n < 0 then ''-'' @ digits (- n) else digits n)"

definition show_bool :: "bool \<Rightarrow> string" where
  "show_bool b = (if b then ''true'' else ''false'')"

definition pad_digits :: "nat \<Rightarrow> int \<Rightarrow> string" where
  "pad_digits w n = (let d = digits n in replicate (w - length d) (CHR ''0'') @ d)"

text \<open>\<^verbatim>\<open>new Date(ms).toISOString()\<close> for a time not before 1970: the proleptic Gregorian calendar
  in whole days, years above 9999 with a sign and six digits, a \<^verbatim>\<open>RangeError\<close> out of the range
  of dates.\<close>

definition civil :: "int \<Rightarrow> int \<times> int \<times> int" where
  "civil days =
    (let z = days + 719468; era = z div 146097; doe = z - era * 146097;
         yoe = (doe - doe div 1460 + doe div 36524 - doe div 146096) div 365;
         doy = doe - (365 * yoe + yoe div 4 - yoe div 100);
         mp = (5 * doy + 2) div 153; d = doy - (153 * mp + 2) div 5 + 1;
         m = (if mp < 10 then mp + 3 else mp - 9)
     in (yoe + era * 400 + (if m \<le> 2 then 1 else 0), m, d))"

definition iso_date :: "int \<Rightarrow> string res" where
  "iso_date ms = (if ms < 0 \<or> ms > 8640000000000000 then Inl ''Invalid time value'' else
    let t = ms; (y, m, d) = civil (t div 86400000); s = t mod 86400000 in
    Inr ((if y > 9999 then ''+'' @ pad_digits 6 y else pad_digits 4 y) @ ''-'' @ pad_digits 2 m @ ''-'' @ pad_digits 2 d
      @ ''T'' @ pad_digits 2 (s div 3600000) @ '':'' @ pad_digits 2 (s div 60000 mod 60) @ '':''
      @ pad_digits 2 (s div 1000 mod 60) @ ''.'' @ pad_digits 3 (s mod 1000) @ ''Z''))"

lemma iso_date_examples:
  "iso_date 0 = Inr ''1970-01-01T00:00:00.000Z''"
  "iso_date 1727521075000 = Inr ''2024-09-28T10:57:55.000Z''"
  by code_simp+

lemma iso_date_total: "0 \<le> ms \<Longrightarrow> ms \<le> 8640000000000000 \<Longrightarrow> \<exists>s. iso_date ms = Inr s"
  by (simp add: iso_date_def Let_def split: prod.split)

lemma lower_idem [simp]: "lower (lower s) = lower s"
proof -
  have "lower_char (lower_char c) = lower_char c" for c
    by (auto simp add: lower_char_def)
  then show ?thesis by (simp add: lower_def)
qed

lemma length_lower [simp]: "length (lower s) = length s"
  by (simp add: lower_def)

subsection \<open>The decimal notation can be read back\<close>

definition digit_value :: "char \<Rightarrow> int" where "digit_value c = of_char c - 48"

definition digits_value :: "string \<Rightarrow> int" where
  "digits_value s = foldl (\<lambda>a c. 10 * a + digit_value c) 0 s"

lemma of_char_digit: "of_char (digit n) = 48 + n mod 10"
proof -
  have "48 + n mod 10 < 256" "0 \<le> 48 + n mod 10" by (simp_all add: add_nonneg_nonneg order.strict_trans2)
  then have "(48 + n mod 10) mod 256 = 48 + n mod 10" by (rule_tac mod_pos_pos_trivial)
  then show ?thesis by (simp add: digit_def of_char_of)
qed

lemma digit_value_digit: "digit_value (digit n) = n mod 10"
  by (simp add: digit_value_def of_char_digit)

lemma digits_value_digits: "0 \<le> n \<Longrightarrow> digits_value (digits n) = n"
proof (induction n rule: digits.induct)
  case (1 n)
  show ?case
  proof (cases "n < 10")
    case True
    then show ?thesis using 1(2) by (simp add: digits.simps digits_value_def digit_value_digit)
  next
    case False
    then have "digits_value (digits (n div 10)) = n div 10" using 1 by simp
    moreover have "digits n = digits (n div 10) @ [digit (n mod 10)]" using False by (simp add: digits.simps)
    ultimately show ?thesis by (simp add: digits_value_def digit_value_digit)
  qed
qed

lemma digits_are_digits: "0 \<le> n \<Longrightarrow> c \<in> set (digits n) \<Longrightarrow> is_digit c"
proof (induction n rule: digits.induct)
  case (1 n)
  have d: "is_digit (digit k)" for k
    using pos_mod_bound [of 10 k] pos_mod_sign [of 10 k] by (simp add: is_digit_def of_char_digit)
  show ?case
  proof (cases "n < 10")
    case True
    then show ?thesis using 1(3) d by (simp add: digits.simps [of n])
  next
    case False
    have "digits n = digits (n div 10) @ [digit (n mod 10)]" using False by (simp add: digits.simps)
    then show ?thesis using 1 False d by auto
  qed
qed

lemma digits_nonempty: "digits n \<noteq> []"
  by (subst digits.simps) simp

lemma decimal_chars:
  assumes "c \<in> set (decimal n)" shows "is_digit c \<or> c = CHR ''-''"
proof (cases "n < 0")
  case True
  with assms have "c = CHR ''-'' \<or> c \<in> set (digits (- n))" by (simp add: decimal_def)
  with True show ?thesis using digits_are_digits [of "- n" c] by auto
next
  case False
  with assms show ?thesis using digits_are_digits [of n c] by (simp add: decimal_def)
qed

lemma decimal_no_colon: "CHR '':'' \<notin> set (decimal n)"
  using decimal_chars [of "CHR '':''" n] by (auto simp add: is_digit_def)

lemma decimal_inj: "decimal m = decimal n \<longleftrightarrow> m = n"
proof
  assume e: "decimal m = decimal n"
  have no: "hd (digits k) \<noteq> CHR ''-''" if "0 \<le> k" for k
  proof -
    have "hd (digits k) \<in> set (digits k)" using digits_nonempty by (rule hd_in_set)
    then have "is_digit (hd (digits k))" by (rule digits_are_digits [OF that])
    then show ?thesis by (auto simp add: is_digit_def)
  qed
  have sign: "hd (decimal k) = CHR ''-'' \<longleftrightarrow> k < 0" for k
    using no [of k] by (simp add: decimal_def)
  have s: "m < 0 \<longleftrightarrow> n < 0" using sign [of m] sign [of n] e by simp
  show "m = n"
  proof (cases "m < 0")
    case True
    with e s have "digits (- m) = digits (- n)" by (simp add: decimal_def)
    then have "digits_value (digits (- m)) = digits_value (digits (- n))" by simp
    then show ?thesis using True s by (simp add: digits_value_digits)
  next
    case False
    with e s have "digits m = digits n" by (simp add: decimal_def)
    then have "digits_value (digits m) = digits_value (digits n)" by simp
    then show ?thesis using False s by (simp add: digits_value_digits)
  qed
qed simp

text \<open>A text that is joined with a separator its last part does not contain can be split again.\<close>

lemma split_last_part:
  assumes "a @ c # x = b @ c # y" and "c \<notin> set x" and "c \<notin> set y"
  shows "a = b \<and> x = y"
proof -
  have "takeWhile (\<lambda>d. d \<noteq> c) (rev z @ c # r) = rev z" if "c \<notin> set z" for z r
    using that by (simp add: takeWhile_append)
  then have r: "takeWhile (\<lambda>d. d \<noteq> c) (rev (w @ c # z)) = rev z" if "c \<notin> set z" for w z
    using that by simp
  have "rev x = rev y" using r [OF assms(2)] r [OF assms(3)] assms(1) by metis
  then show ?thesis using assms(1) by simp
qed

end
