(* ===== verification/Authority_Recovery.thy ===== *)
theory Authority_Recovery
  imports Js_Text
begin

text \<open>
  \<^verbatim>\<open>shared/authority-recovery.ts\<close>: what to do about the execution of a match, given one
  canonical observation of the chain.  The address check \<^verbatim>\<open>isAddress\<close> of the viem library and
  its hash \<^verbatim>\<open>normalSessionClosureReason\<close> are arguments.
\<close>

datatype execution_mode = Interlude | Recovery | Monad | Returning
datatype hub_phase = PhaseNone | Active | Exiting | Challenged
datatype health_kind = Healthy | RateLimited | Unreachable | PublicationFailed | EpochMismatch

record hub_view =
  hub_phase :: hub_phase
  hub_epoch :: int
  hub_lastCommitAt :: int
  hub_maxBatchInterval :: int
  hub_expiresAt :: int
  hub_stakeUnlockAt :: int

record health_view =
  hl_kind :: health_kind
  hl_consecutiveFailures :: int
  hl_unhealthySince :: int

record observation =
  o_chainId :: int
  o_app :: string
  o_generation :: int
  o_block :: int
  o_blockHash :: string
  o_timestamp :: int
  o_execution :: execution_mode
  o_transitionReason :: string
  o_drainingEpoch :: int
  o_sealedEpoch :: int
  o_hub :: hub_view
  o_health :: health_view

datatype recovery_reason = INTERLUDE_HEALTHY | INTERLUDE_RATE_LIMITED | INTERLUDE_RECONNECTING
  | WAITING_PROTOCOL_EXIT | DELEGATION_EXPIRED | PUBLICATION_STOPPED | DELEGATION_CLOSED
  | CHALLENGE_PENDING | CHALLENGE_WINDOW_PENDING | RECOVERY_READY | MONAD_FALLBACK_ACTIVE
  | ADMIN_RETURN_PENDING | SESSION_DRAINING | SESSION_SEALED | SESSION_RENEWAL_PENDING
  | EXECUTION_STATE_INCONSISTENT

datatype recovery_action = BeginRecovery | FinishRecovery | CloseCompletedSession

record decision =
  d_execution :: execution_mode
  d_admissions :: bool
  d_reason :: recovery_reason
  d_action :: "recovery_action option"
  d_retryAt :: "int option"

definition max_time :: int where "max_time = 8640000000000"
definition max_safe :: int where "max_safe = 9007199254740991"

definition in_time :: "int \<Rightarrow> bool" where
  "in_time v \<longleftrightarrow> \<not> (v < 0 \<or> v > max_time)"

definition hub_times_ok :: "hub_view \<Rightarrow> bool" where
  "hub_times_ok d \<longleftrightarrow> in_time (hub_epoch d) \<and> in_time (hub_lastCommitAt d)
    \<and> in_time (hub_maxBatchInterval d) \<and> in_time (hub_expiresAt d) \<and> in_time (hub_stakeUnlockAt d)"

text \<open>The condition under which the observation is refused.\<close>

definition invalid_observation :: "(string \<Rightarrow> bool) \<Rightarrow> observation \<Rightarrow> bool" where
  "invalid_observation isAddress ob \<longleftrightarrow>
     o_chainId ob \<noteq> 10143 \<or> \<not> isAddress (o_app ob) \<or> o_generation ob < 1 \<or> o_block ob < 0
     \<or> \<not> hex_string 64 (o_blockHash ob) \<or> \<not> hex_string 64 (o_transitionReason ob)
     \<or> o_drainingEpoch ob < 0 \<or> o_sealedEpoch ob < 0
     \<or> (o_sealedEpoch ob \<noteq> 0 \<and> o_sealedEpoch ob \<noteq> o_drainingEpoch ob)
     \<or> o_timestamp ob < 0 \<or> o_timestamp ob > max_time
     \<or> \<not> hub_times_ok (o_hub ob)
     \<or> hl_consecutiveFailures (o_health ob) < 0 \<or> hl_consecutiveFailures (o_health ob) > max_safe
     \<or> hl_unhealthySince (o_health ob) < 0 \<or> hl_unhealthySince (o_health ob) > o_timestamp ob"

definition result :: "observation \<Rightarrow> recovery_reason \<Rightarrow> decision" where
  "result ob reason = \<lparr>d_execution = o_execution ob, d_admissions = False, d_reason = reason,
     d_action = None, d_retryAt = None\<rparr>"

definition sustained :: "observation \<Rightarrow> bool" where
  "sustained ob \<longleftrightarrow> hl_kind (o_health ob) \<noteq> Healthy \<and> hl_kind (o_health ob) \<noteq> RateLimited
     \<and> hl_consecutiveFailures (o_health ob) \<ge> 3 \<and> hl_unhealthySince (o_health ob) > 0
     \<and> o_timestamp ob \<ge> hl_unhealthySince (o_health ob) + 15"

definition silent :: "observation \<Rightarrow> bool" where
  "silent ob \<longleftrightarrow> o_timestamp ob > hub_lastCommitAt (o_hub ob) + hub_maxBatchInterval (o_hub ob)"

definition decide :: "string \<Rightarrow> observation \<Rightarrow> decision" where
  "decide normalClosure ob =
    (let d = o_hub ob; r = result ob in
     if hub_phase d = Challenged then r CHALLENGE_PENDING
     else if o_execution ob = Monad then
       if hub_phase d \<noteq> PhaseNone then r EXECUTION_STATE_INCONSISTENT
       else (r MONAD_FALLBACK_ACTIVE)\<lparr>d_admissions := True\<rparr>
     else if o_execution ob = Recovery then
       if hub_phase d = PhaseNone then (r RECOVERY_READY)\<lparr>d_action := Some FinishRecovery\<rparr>
       else if hub_phase d = Exiting then
         if o_timestamp ob < hub_stakeUnlockAt d
         then (r CHALLENGE_WINDOW_PENDING)\<lparr>d_retryAt := Some (hub_stakeUnlockAt d)\<rparr>
         else (r RECOVERY_READY)\<lparr>d_action := Some FinishRecovery\<rparr>
       else r EXECUTION_STATE_INCONSISTENT
     else if o_execution ob = Returning \<and> o_transitionReason ob = normalClosure then
       if hub_phase d = Exiting \<and> o_timestamp ob < hub_stakeUnlockAt d
       then (r SESSION_RENEWAL_PENDING)\<lparr>d_retryAt := Some (hub_stakeUnlockAt d)\<rparr>
       else r SESSION_RENEWAL_PENDING
     else if o_execution ob = Interlude \<and> hub_phase d = Active \<and> o_sealedEpoch ob = hub_epoch d
         \<and> hub_epoch d \<noteq> 0
     then (r SESSION_SEALED)\<lparr>d_action := Some CloseCompletedSession\<rparr>
     else if hub_phase d = PhaseNone \<or> hub_phase d = Exiting
     then (r DELEGATION_CLOSED)\<lparr>d_action := Some BeginRecovery\<rparr>
     else if o_timestamp ob > hub_expiresAt d
     then (r DELEGATION_EXPIRED)\<lparr>d_action := Some BeginRecovery\<rparr>
     else if sustained ob \<and> silent ob
     then (r PUBLICATION_STOPPED)\<lparr>d_action := Some BeginRecovery\<rparr>
     else if o_execution ob = Returning then r ADMIN_RETURN_PENDING
     else if o_drainingEpoch ob \<noteq> 0 then
       if o_drainingEpoch ob \<noteq> hub_epoch d then r EXECUTION_STATE_INCONSISTENT
       else r (if o_sealedEpoch ob \<noteq> 0 then SESSION_SEALED else SESSION_DRAINING)
     else if hl_kind (o_health ob) = Healthy then (r INTERLUDE_HEALTHY)\<lparr>d_admissions := True\<rparr>
     else if hl_kind (o_health ob) = RateLimited then r INTERLUDE_RATE_LIMITED
     else if sustained ob
     then (r WAITING_PROTOCOL_EXIT)\<lparr>d_retryAt := Some (hub_lastCommitAt d + hub_maxBatchInterval d + 1)\<rparr>
     else r INTERLUDE_RECONNECTING)"

definition decideRecovery :: "(string \<Rightarrow> bool) \<Rightarrow> string \<Rightarrow> observation \<Rightarrow> decision res" where
  "decideRecovery isAddress normalClosure ob =
    (if invalid_observation isAddress ob then Inl ''Invalid execution observation''
     else Inr (decide normalClosure ob))"

subsection \<open>Diagnostics\<close>

datatype recovery_status = Observing | Requested | WaitingForSponsor | Submitted | Uncertain
  | Confirmed | Failed

definition mode_name :: "execution_mode \<Rightarrow> string" where
  "mode_name m = (case m of Interlude \<Rightarrow> ''Interlude'' | Recovery \<Rightarrow> ''Recovery''
     | Monad \<Rightarrow> ''Monad'' | Returning \<Rightarrow> ''Returning'')"

definition reason_name :: "recovery_reason \<Rightarrow> string" where
  "reason_name r = (case r of INTERLUDE_HEALTHY \<Rightarrow> ''INTERLUDE_HEALTHY''
     | INTERLUDE_RATE_LIMITED \<Rightarrow> ''INTERLUDE_RATE_LIMITED''
     | INTERLUDE_RECONNECTING \<Rightarrow> ''INTERLUDE_RECONNECTING''
     | WAITING_PROTOCOL_EXIT \<Rightarrow> ''WAITING_PROTOCOL_EXIT''
     | DELEGATION_EXPIRED \<Rightarrow> ''DELEGATION_EXPIRED'' | PUBLICATION_STOPPED \<Rightarrow> ''PUBLICATION_STOPPED''
     | DELEGATION_CLOSED \<Rightarrow> ''DELEGATION_CLOSED'' | CHALLENGE_PENDING \<Rightarrow> ''CHALLENGE_PENDING''
     | CHALLENGE_WINDOW_PENDING \<Rightarrow> ''CHALLENGE_WINDOW_PENDING'' | RECOVERY_READY \<Rightarrow> ''RECOVERY_READY''
     | MONAD_FALLBACK_ACTIVE \<Rightarrow> ''MONAD_FALLBACK_ACTIVE'' | ADMIN_RETURN_PENDING \<Rightarrow> ''ADMIN_RETURN_PENDING''
     | SESSION_DRAINING \<Rightarrow> ''SESSION_DRAINING'' | SESSION_SEALED \<Rightarrow> ''SESSION_SEALED''
     | SESSION_RENEWAL_PENDING \<Rightarrow> ''SESSION_RENEWAL_PENDING''
     | EXECUTION_STATE_INCONSISTENT \<Rightarrow> ''EXECUTION_STATE_INCONSISTENT'')"

definition status_name :: "recovery_status \<Rightarrow> string" where
  "status_name s = (case s of Observing \<Rightarrow> ''observing'' | Requested \<Rightarrow> ''requested''
     | WaitingForSponsor \<Rightarrow> ''waiting_for_sponsor'' | Submitted \<Rightarrow> ''submitted''
     | Uncertain \<Rightarrow> ''uncertain'' | Confirmed \<Rightarrow> ''confirmed'' | Failed \<Rightarrow> ''failed'')"

record diagnostic =
  dg_event :: string
  dg_preferred :: execution_mode
  dg_actual :: execution_mode
  dg_requested :: "execution_mode option"
  dg_reason :: recovery_reason
  dg_admissions :: bool
  dg_status :: recovery_status
  dg_chainId :: int
  dg_app :: string
  dg_generation :: string
  dg_epoch :: string
  dg_block :: string
  dg_blockHash :: string
  dg_utc :: string
  dg_retryAt :: "string option"
  dg_transactionHash :: "string option"

definition requested_mode :: "recovery_action option \<Rightarrow> execution_mode option" where
  "requested_mode a = (case a of Some BeginRecovery \<Rightarrow> Some Recovery | Some FinishRecovery \<Rightarrow> Some Monad
     | Some CloseCompletedSession \<Rightarrow> Some Returning | None \<Rightarrow> None)"

definition recoveryDiagnostic ::
    "observation \<Rightarrow> decision \<Rightarrow> string option \<Rightarrow> recovery_status \<Rightarrow> diagnostic res" where
  "recoveryDiagnostic ob d hash status =
    rbind (iso_date (o_timestamp ob * 1000)) (\<lambda>utc.
    rbind (case d_retryAt d of None \<Rightarrow> Inr None
           | Some at \<Rightarrow> rbind (iso_date (at * 1000)) (\<lambda>s. Inr (Some s))) (\<lambda>retry.
    Inr \<lparr>dg_event = ''pongit.execution'', dg_preferred = Interlude, dg_actual = o_execution ob,
      dg_requested = requested_mode (d_action d), dg_reason = d_reason d, dg_admissions = d_admissions d,
      dg_status = status, dg_chainId = o_chainId ob, dg_app = o_app ob,
      dg_generation = decimal (o_generation ob), dg_epoch = decimal (hub_epoch (o_hub ob)),
      dg_block = decimal (o_block ob), dg_blockHash = o_blockHash ob, dg_utc = utc,
      dg_retryAt = retry, dg_transactionHash = hash\<rparr>))"

text \<open>One call of the function that \<^verbatim>\<open>executionReporter\<close> returns: the state is the identity it
  logged last, the output what it logs now.\<close>

datatype log_level = Info | Warn

record report =
  rp_observation :: observation
  rp_decision :: decision
  rp_hash :: "string option"
  rp_status :: recovery_status

definition report_identity :: "report \<Rightarrow> string" where
  "report_identity r =
    (let ob = rp_observation r; d = rp_decision r in
     lower (o_app ob) @ '':'' @ decimal (o_generation ob) @ '':'' @ mode_name (o_execution ob) @ '':''
     @ decimal (hub_epoch (o_hub ob)) @ '':'' @ reason_name (d_reason d) @ '':'' @ show_bool (d_admissions d)
     @ '':'' @ status_name (rp_status r) @ '':'' @ (case rp_hash r of None \<Rightarrow> '''' | Some h \<Rightarrow> h))"

definition report_step :: "string \<Rightarrow> report \<Rightarrow> (string \<times> (log_level \<times> diagnostic) option) res" where
  "report_step previous r =
    (if report_identity r = previous then Inr (previous, None)
     else rbind (recoveryDiagnostic (rp_observation r) (rp_decision r) (rp_hash r) (rp_status r)) (\<lambda>g.
       Inr (report_identity r,
            Some (if d_reason (rp_decision r) = INTERLUDE_HEALTHY then Info else Warn, g))))"

fun report_all :: "string \<Rightarrow> report list \<Rightarrow> (log_level \<times> diagnostic) list res" where
  "report_all previous [] = Inr []"
| "report_all previous (r # rs) = rbind (report_step previous r) (\<lambda>(previous, out).
     rbind (report_all previous rs) (\<lambda>outs. Inr ((case out of None \<Rightarrow> [] | Some l \<Rightarrow> [l]) @ outs)))"

subsection \<open>Properties\<close>

lemma result_simps [simp]:
  "d_action (result ob r) = None" "d_admissions (result ob r) = False" "d_reason (result ob r) = r"
  by (simp_all add: result_def)

lemma decide_action:
  "d_action (decide nc ob) =
    (if hub_phase (o_hub ob) = Challenged \<or> o_execution ob = Monad then None
     else if o_execution ob = Recovery then
       if hub_phase (o_hub ob) = PhaseNone
         \<or> hub_phase (o_hub ob) = Exiting \<and> hub_stakeUnlockAt (o_hub ob) \<le> o_timestamp ob
       then Some FinishRecovery else None
     else if o_execution ob = Returning \<and> o_transitionReason ob = nc then None
     else if o_execution ob = Interlude \<and> hub_phase (o_hub ob) = Active
         \<and> o_sealedEpoch ob = hub_epoch (o_hub ob) \<and> hub_epoch (o_hub ob) \<noteq> 0
     then Some CloseCompletedSession
     else if hub_phase (o_hub ob) = PhaseNone \<or> hub_phase (o_hub ob) = Exiting
         \<or> o_timestamp ob > hub_expiresAt (o_hub ob) \<or> sustained ob \<and> silent ob
     then Some BeginRecovery else None)"
  by (simp add: decide_def Let_def if_distrib [of d_action] not_less cong: if_cong)

lemma decide_begin:
  assumes "d_action (decide nc ob) = Some BeginRecovery"
  shows "hub_phase (o_hub ob) \<noteq> Challenged" and "o_execution ob \<noteq> Monad" and "o_execution ob \<noteq> Recovery"
    and "\<not> (o_execution ob = Returning \<and> o_transitionReason ob = nc)"
    and "hub_phase (o_hub ob) = PhaseNone \<or> hub_phase (o_hub ob) = Exiting
      \<or> hub_expiresAt (o_hub ob) < o_timestamp ob \<or> sustained ob \<and> silent ob"
proof -
  have "hub_phase (o_hub ob) \<noteq> Challenged \<and> o_execution ob \<noteq> Monad \<and> o_execution ob \<noteq> Recovery
    \<and> \<not> (o_execution ob = Returning \<and> o_transitionReason ob = nc)
    \<and> (hub_phase (o_hub ob) = PhaseNone \<or> hub_phase (o_hub ob) = Exiting
      \<or> hub_expiresAt (o_hub ob) < o_timestamp ob \<or> sustained ob \<and> silent ob)"
    using assms by (auto simp add: decide_def result_def Let_def split: if_split_asm)
  then show "hub_phase (o_hub ob) \<noteq> Challenged" "o_execution ob \<noteq> Monad" "o_execution ob \<noteq> Recovery"
    "\<not> (o_execution ob = Returning \<and> o_transitionReason ob = nc)"
    "hub_phase (o_hub ob) = PhaseNone \<or> hub_phase (o_hub ob) = Exiting
      \<or> hub_expiresAt (o_hub ob) < o_timestamp ob \<or> sustained ob \<and> silent ob" by simp_all
qed

lemma decide_finish:
  assumes "d_action (decide nc ob) = Some FinishRecovery"
  shows "o_execution ob = Recovery"
    and "hub_phase (o_hub ob) = PhaseNone
      \<or> hub_phase (o_hub ob) = Exiting \<and> hub_stakeUnlockAt (o_hub ob) \<le> o_timestamp ob"
proof -
  have "o_execution ob = Recovery \<and> (hub_phase (o_hub ob) = PhaseNone
      \<or> hub_phase (o_hub ob) = Exiting \<and> hub_stakeUnlockAt (o_hub ob) \<le> o_timestamp ob)"
    using assms unfolding decide_action by (simp split: if_split_asm)
  then show "o_execution ob = Recovery" "hub_phase (o_hub ob) = PhaseNone
      \<or> hub_phase (o_hub ob) = Exiting \<and> hub_stakeUnlockAt (o_hub ob) \<le> o_timestamp ob" by simp_all
qed

lemma decide_close:
  assumes "d_action (decide nc ob) = Some CloseCompletedSession"
  shows "o_execution ob = Interlude" and "hub_phase (o_hub ob) = Active"
    and "o_sealedEpoch ob = hub_epoch (o_hub ob)" and "hub_epoch (o_hub ob) \<noteq> 0"
proof -
  have "o_execution ob = Interlude \<and> hub_phase (o_hub ob) = Active
      \<and> o_sealedEpoch ob = hub_epoch (o_hub ob) \<and> hub_epoch (o_hub ob) \<noteq> 0"
    using assms unfolding decide_action by (simp split: if_split_asm)
  then show "o_execution ob = Interlude" "hub_phase (o_hub ob) = Active"
    "o_sealedEpoch ob = hub_epoch (o_hub ob)" "hub_epoch (o_hub ob) \<noteq> 0" by simp_all
qed

lemma decideRecovery_Inr:
  "decideRecovery isA nc ob = Inr d \<longleftrightarrow> \<not> invalid_observation isA ob \<and> d = decide nc ob"
  by (auto simp add: decideRecovery_def)

text \<open>C8. Who may play.  Admissions are only open on Monad with the delegation gone, or on the
  Interlude with an active, unexpired delegation that is not being closed and a healthy node;
  and never together with a requested transition.\<close>

theorem admissions_authorized:
  assumes "decideRecovery isAddress normalClosure ob = Inr d" and "d_admissions d"
  shows "d_action d = None \<and>
    (o_execution ob = Monad \<and> hub_phase (o_hub ob) = PhaseNone
     \<or> o_execution ob = Interlude \<and> hub_phase (o_hub ob) = Active
       \<and> o_timestamp ob \<le> hub_expiresAt (o_hub ob) \<and> hl_kind (o_health ob) = Healthy
       \<and> o_drainingEpoch ob = 0 \<and> o_sealedEpoch ob = 0)"
proof -
  from assms(1) have v: "\<not> invalid_observation isAddress ob" and d: "d = decide normalClosure ob"
    by (simp_all add: decideRecovery_Inr)
  from v have se: "o_drainingEpoch ob = 0 \<Longrightarrow> o_sealedEpoch ob = 0"
    by (auto simp add: invalid_observation_def)
  have "d_action d = None \<and> (o_execution ob = Monad \<and> hub_phase (o_hub ob) = PhaseNone
     \<or> o_execution ob \<notin> {Monad, Recovery, Returning} \<and> hub_phase (o_hub ob) \<notin> {Challenged, PhaseNone, Exiting}
       \<and> \<not> hub_expiresAt (o_hub ob) < o_timestamp ob \<and> hl_kind (o_health ob) = Healthy
       \<and> o_drainingEpoch ob = 0)"
    using assms(2) unfolding d by (auto simp add: decide_def result_def Let_def split: if_split_asm)
  moreover have "m = Interlude" if "m \<notin> {Monad, Recovery, Returning}" for m using that by (cases m) auto
  moreover have "p = Active" if "p \<notin> {Challenged, PhaseNone, Exiting}" for p using that by (cases p) auto
  ultimately show ?thesis using se by auto
qed

definition sample_hub :: hub_view where
  "sample_hub = \<lparr>hub_phase = Active, hub_epoch = 4, hub_lastCommitAt = 1700000000,
     hub_maxBatchInterval = 60, hub_expiresAt = 1700086400, hub_stakeUnlockAt = 0\<rparr>"

definition sample_observation :: observation where
  "sample_observation = \<lparr>o_chainId = 10143, o_app = ''0xA'', o_generation = 2, o_block = 9,
     o_blockHash = ''0x'' @ replicate 64 (CHR ''a''), o_timestamp = 1700000030, o_execution = Interlude,
     o_transitionReason = ''0x'' @ replicate 64 (CHR ''0''), o_drainingEpoch = 0, o_sealedEpoch = 0,
     o_hub = sample_hub,
     o_health = \<lparr>hl_kind = Healthy, hl_consecutiveFailures = 0, hl_unhealthySince = 0\<rparr>\<rparr>"

theorem admissions_authorized_witness:
  "decideRecovery (\<lambda>a. a = ''0xA'') ''0x11'' sample_observation =
     Inr ((result sample_observation INTERLUDE_HEALTHY)\<lparr>d_admissions := True\<rparr>)
   \<and> hub_phase (o_hub sample_observation) = Active"
proof -
  have run: "decideRecovery (\<lambda>a. a = ''0xA'') ''0x11'' sample_observation =
     Inr ((result sample_observation INTERLUDE_HEALTHY)\<lparr>d_admissions := True\<rparr>)" by code_simp
  from admissions_authorized [OF run] have "o_execution sample_observation = Monad
      \<or> hub_phase (o_hub sample_observation) = Active" by auto
  with run show ?thesis by (simp add: sample_observation_def)
qed

text \<open>C9. A transport error never authorizes base-chain execution: a recovery is only begun when the
  hub itself has closed or outlived the delegation, or when the node has failed repeatedly for
  at least fifteen seconds and the hub's own silence window has passed; it is never begun from
  Monad, during a recovery, under a challenge, or after a planned close of the session.  It is
  only finished during a recovery whose delegation is gone or past its challenge window.\<close>

theorem recovery_authorized:
  assumes "decideRecovery isAddress normalClosure ob = Inr d"
  shows "(d_action d = Some BeginRecovery \<longrightarrow>
      (o_execution ob = Interlude \<or> o_execution ob = Returning \<and> o_transitionReason ob \<noteq> normalClosure)
      \<and> (hub_phase (o_hub ob) \<in> {PhaseNone, Exiting}
        \<or> hub_phase (o_hub ob) = Active \<and>
          (hub_expiresAt (o_hub ob) < o_timestamp ob
           \<or> hl_kind (o_health ob) \<in> {Unreachable, PublicationFailed, EpochMismatch}
             \<and> 3 \<le> hl_consecutiveFailures (o_health ob)
             \<and> hl_unhealthySince (o_health ob) + 15 \<le> o_timestamp ob
             \<and> hub_lastCommitAt (o_hub ob) + hub_maxBatchInterval (o_hub ob) < o_timestamp ob)))
    \<and> (d_action d = Some FinishRecovery \<longrightarrow> o_execution ob = Recovery
      \<and> (hub_phase (o_hub ob) = PhaseNone
         \<or> hub_phase (o_hub ob) = Exiting \<and> hub_stakeUnlockAt (o_hub ob) \<le> o_timestamp ob))
    \<and> (d_action d = Some CloseCompletedSession \<longrightarrow> o_execution ob = Interlude
      \<and> hub_phase (o_hub ob) = Active \<and> o_sealedEpoch ob = hub_epoch (o_hub ob)
      \<and> o_drainingEpoch ob = hub_epoch (o_hub ob) \<and> hub_epoch (o_hub ob) \<noteq> 0)"
proof -
  from assms have v: "\<not> invalid_observation isAddress ob" and d: "d = decide normalClosure ob"
    by (simp_all add: decideRecovery_Inr)
  from v have se: "o_sealedEpoch ob \<noteq> 0 \<Longrightarrow> o_sealedEpoch ob = o_drainingEpoch ob"
    by (auto simp add: invalid_observation_def)
  have sus: "hl_kind (o_health ob) \<in> {Unreachable, PublicationFailed, EpochMismatch}
      \<and> 3 \<le> hl_consecutiveFailures (o_health ob) \<and> hl_unhealthySince (o_health ob) + 15 \<le> o_timestamp ob"
    if "sustained ob" using that by (cases "hl_kind (o_health ob)") (simp_all add: sustained_def)
  have sil: "hub_lastCommitAt (o_hub ob) + hub_maxBatchInterval (o_hub ob) < o_timestamp ob" if "silent ob"
    using that by (simp add: silent_def)
  have phase: "p = PhaseNone \<or> p = Exiting \<or> p = Active" if "p \<noteq> Challenged" for p using that by (cases p) auto
  have exe: "m = Interlude \<or> m = Returning" if "m \<noteq> Monad" "m \<noteq> Recovery" for m using that by (cases m) auto
  have start: "(o_execution ob = Interlude \<or> o_execution ob = Returning \<and> o_transitionReason ob \<noteq> normalClosure)
      \<and> (hub_phase (o_hub ob) \<in> {PhaseNone, Exiting}
        \<or> hub_phase (o_hub ob) = Active \<and>
          (hub_expiresAt (o_hub ob) < o_timestamp ob
           \<or> hl_kind (o_health ob) \<in> {Unreachable, PublicationFailed, EpochMismatch}
             \<and> 3 \<le> hl_consecutiveFailures (o_health ob)
             \<and> hl_unhealthySince (o_health ob) + 15 \<le> o_timestamp ob
             \<and> hub_lastCommitAt (o_hub ob) + hub_maxBatchInterval (o_hub ob) < o_timestamp ob))"
    if "d_action d = Some BeginRecovery"
  proof -
    note b = decide_begin [OF that [unfolded d]]
    have "o_execution ob = Interlude \<or> o_execution ob = Returning \<and> o_transitionReason ob \<noteq> normalClosure"
      using exe [OF b(2,3)] b(4) by metis
    moreover have "hub_phase (o_hub ob) \<in> {PhaseNone, Exiting} \<or> hub_phase (o_hub ob) = Active"
      using phase [OF b(1)] by simp
    ultimately show ?thesis using b(5) sus sil by (elim disjE) simp_all
  qed
  have finish: "o_execution ob = Recovery \<and> (hub_phase (o_hub ob) = PhaseNone
       \<or> hub_phase (o_hub ob) = Exiting \<and> hub_stakeUnlockAt (o_hub ob) \<le> o_timestamp ob)"
    if "d_action d = Some FinishRecovery" using decide_finish [OF that [unfolded d]] by simp
  have close: "o_execution ob = Interlude \<and> hub_phase (o_hub ob) = Active
      \<and> o_sealedEpoch ob = hub_epoch (o_hub ob)
      \<and> o_drainingEpoch ob = hub_epoch (o_hub ob) \<and> hub_epoch (o_hub ob) \<noteq> 0"
    if "d_action d = Some CloseCompletedSession" using decide_close [OF that [unfolded d]] se by simp
  show ?thesis by (intro conjI [OF impI conjI] impI start finish close)
qed

theorem recovery_authorized_witness:
  "decideRecovery (\<lambda>a. a = ''0xA'') ''0x11'' (sample_observation\<lparr>o_timestamp := 1700086401\<rparr>) =
     Inr ((result sample_observation DELEGATION_EXPIRED)\<lparr>d_action := Some BeginRecovery\<rparr>)
   \<and> o_execution (sample_observation\<lparr>o_timestamp := 1700086401\<rparr>) = Interlude"
proof -
  have run: "decideRecovery (\<lambda>a. a = ''0xA'') ''0x11'' (sample_observation\<lparr>o_timestamp := 1700086401\<rparr>) =
     Inr ((result sample_observation DELEGATION_EXPIRED)\<lparr>d_action := Some BeginRecovery\<rparr>)" by code_simp
  from recovery_authorized [OF run] run show ?thesis by (simp add: sample_observation_def)
qed

lemma report_all_changes:
  assumes "report_all previous rs = Inr outs"
  shows "\<exists>logged. map report_identity logged = tl (remdups_adj (previous # map report_identity rs))
    \<and> set logged \<subseteq> set rs
    \<and> list_all2 (\<lambda>r out. recoveryDiagnostic (rp_observation r) (rp_decision r) (rp_hash r) (rp_status r) = Inr (snd out)
        \<and> fst out = (if d_reason (rp_decision r) = INTERLUDE_HEALTHY then Info else Warn)) logged outs"
  using assms
proof (induction rs arbitrary: previous outs)
  case Nil
  then show ?case by simp
next
  case (Cons r rs)
  show ?case
  proof (cases "report_identity r = previous")
    case True
    then have "report_all previous rs = Inr outs"
      using Cons.prems by (auto simp add: report_step_def res_simps)
    from Cons.IH [OF this] True show ?thesis by auto
  next
    case False
    from Cons.prems False obtain g outs' where
      g: "recoveryDiagnostic (rp_observation r) (rp_decision r) (rp_hash r) (rp_status r) = Inr g"
      and r: "report_all (report_identity r) rs = Inr outs'"
      and outs: "outs = (if d_reason (rp_decision r) = INTERLUDE_HEALTHY then Info else Warn, g) # outs'"
      by (auto simp add: report_step_def res_simps)
    from Cons.IH [OF r] obtain logged where
      l: "map report_identity logged = tl (remdups_adj (report_identity r # map report_identity rs))"
        "set logged \<subseteq> set rs"
        "list_all2 (\<lambda>r out. recoveryDiagnostic (rp_observation r) (rp_decision r) (rp_hash r) (rp_status r) = Inr (snd out)
          \<and> fst out = (if d_reason (rp_decision r) = INTERLUDE_HEALTHY then Info else Warn)) logged outs'" by blast
    have "remdups_adj (report_identity r # map report_identity rs)
        = report_identity r # tl (remdups_adj (report_identity r # map report_identity rs))"
      by (metis list.sel(3) remdups_adj_Cons_alt)
    with l False g outs show ?thesis by (intro exI [of _ "r # logged"]) auto
  qed
qed

text \<open>The reporter logs every change of the execution's identity once and nothing else: over any
  sequence of reports the logged entries are the diagnostics of a subsequence whose identities
  are the given ones with immediate repetitions removed, at the level of their reason.\<close>

theorem reporter_logs_changes:
  assumes "report_all '''' rs = Inr outs"
  shows "\<exists>logged. map report_identity logged = tl (remdups_adj ('''' # map report_identity rs))
    \<and> set logged \<subseteq> set rs
    \<and> list_all2 (\<lambda>r out. recoveryDiagnostic (rp_observation r) (rp_decision r) (rp_hash r) (rp_status r) = Inr (snd out)
        \<and> fst out = (if d_reason (rp_decision r) = INTERLUDE_HEALTHY then Info else Warn)) logged outs"
  using assms by (rule report_all_changes)

definition sample_report :: report where
  "sample_report = \<lparr>rp_observation = sample_observation,
     rp_decision = (result sample_observation INTERLUDE_HEALTHY)\<lparr>d_admissions := True\<rparr>,
     rp_hash = None, rp_status = Observing\<rparr>"

theorem reporter_logs_changes_witness:
  "\<exists>outs. report_all '''' [sample_report, sample_report] = Inr outs \<and> length outs = 1
   \<and> (\<exists>logged. map report_identity logged =
        tl (remdups_adj ('''' # map report_identity [sample_report, sample_report])))"
proof -
  have "(case report_all '''' [sample_report, sample_report] of Inr outs \<Rightarrow> length outs = 1 | Inl _ \<Rightarrow> False)"
    by code_simp
  then obtain outs where o: "report_all '''' [sample_report, sample_report] = Inr outs" "length outs = 1"
    by (cases "report_all '''' [sample_report, sample_report]") auto
  from reporter_logs_changes [OF o(1)] o show ?thesis by blast
qed

end
