(* ===== verification/Authority_Client.thy ===== *)
theory Authority_Client
  imports Authority_Recovery "HOL-Library.Product_Lexorder" "HOL-Library.Multiset"
begin

text \<open>
  \<^verbatim>\<open>shared/authority-client.ts\<close>: the calls a client makes to the arcade controller.  The ABI
  encoder and the hash of the viem library, the wallet's chain access (\<^verbatim>\<open>LeaderboardPort\<close>) and the
  abort signal are arguments.  The port is a record of functions: it answers as a function of
  what it is asked at one snapshot, which is how the code uses it.
\<close>

subsection \<open>Commands and references\<close>

definition engineCommand ::
    "(int \<Rightarrow> int \<Rightarrow> string \<Rightarrow> string) \<Rightarrow> int \<Rightarrow> int \<Rightarrow> string \<Rightarrow> string res" where
  "engineCommand encode generation delegationEpoch data =
    (if generation \<le> 0 \<or> delegationEpoch \<le> 0 then Inl ''Synchronize the game session first.''
     else Inr (encode generation delegationEpoch data))"

record match_reference =
  mr_chainId :: int
  mr_deployment :: string
  mr_id :: int

definition matchReference :: "match_reference \<Rightarrow> string" where
  "matchReference r = decimal (mr_chainId r) @ '':'' @ lower (mr_deployment r) @ '':'' @ decimal (mr_id r)"

definition executionNames :: "execution_mode list" where
  "executionNames = [Interlude, Recovery, Monad, Returning]"

text \<open>\<^verbatim>\<open>xs[i]\<close> on an array: \<^verbatim>\<open>undefined\<close> outside of it.\<close>

definition array_at :: "'a list \<Rightarrow> int \<Rightarrow> 'a option" where
  "array_at xs i = (if 0 \<le> i \<and> i < int (length xs) then Some (xs ! nat i) else None)"

subsection \<open>The leaderboard\<close>

record rating =
  elo :: int
  played :: int
  wins :: int
  season :: int

record leaderboard_port =
  lp_snapshot :: "(int \<times> int) res"
  lp_page :: "int \<Rightarrow> int \<Rightarrow> int \<Rightarrow> int \<Rightarrow> (string list \<times> int) res"
  lp_rating :: "string \<Rightarrow> int \<Rightarrow> int \<Rightarrow> rating res"

type_synonym row = "string \<times> rating"

text \<open>A group of at most eight players: every body of the group checks and marks its player before
  the first rating is awaited, then the ratings are collected in order.\<close>

fun mark_group :: "string set \<Rightarrow> string list \<Rightarrow> (string set) res" where
  "mark_group seen [] = Inr seen"
| "mark_group seen (player # ps) =
     (if lower player \<in> seen then Inl ''Duplicate leaderboard entry.''
      else mark_group (insert (lower player) seen) ps)"

fun rate_group :: "(string \<Rightarrow> rating res) \<Rightarrow> string list \<Rightarrow> row list res" where
  "rate_group rate [] = Inr []"
| "rate_group rate (player # ps) = rbind (rate player) (\<lambda>v.
     rbind (rate_group rate ps) (\<lambda>rs. Inr ((player, v) # rs)))"

function page_rows :: "(string \<Rightarrow> rating res) \<Rightarrow> string set \<Rightarrow> string list \<Rightarrow> (string set \<times> row list) res" where
  "page_rows rate seen players =
    (if players = [] then Inr (seen, [])
     else let group = take 8 players in
       rbind (mark_group seen group) (\<lambda>seen.
       rbind (rate_group rate group) (\<lambda>rows.
       rbind (page_rows rate seen (drop 8 players)) (\<lambda>(seen, rest). Inr (seen, rows @ rest)))))"
  by auto
termination by (relation "measure (\<lambda>(rate, seen, players). length players)") auto

declare page_rows.simps [simp del]

definition read_page ::
    "leaderboard_port \<Rightarrow> int \<Rightarrow> int \<Rightarrow> int option \<Rightarrow> int \<Rightarrow> (string list \<times> int) res" where
  "read_page port mode revision known offset =
    rbind (lp_page port mode offset 100 revision) (\<lambda>(players, count).
      if count < 0 \<or> (case known of None \<Rightarrow> False | Some t \<Rightarrow> count \<noteq> t)
      then Inl ''Leaderboard snapshot changed. Reload it.''
      else let remaining = (if count > offset then count - offset else 0);
               expected = (if remaining > 100 then 100 else remaining) in
        if int (length players) \<noteq> expected
        then Inl ''Leaderboard snapshot is discontinuous. Reload it.''
        else Inr (players, count))"

function leaderboard_loop ::
    "leaderboard_port \<Rightarrow> int \<Rightarrow> int \<Rightarrow> (int \<Rightarrow> bool) \<Rightarrow> int option \<Rightarrow> int \<Rightarrow> string set \<Rightarrow> row list \<Rightarrow> row list res" where
  "leaderboard_loop port mode revision aborted known offset seen rows =
    (if (case known of None \<Rightarrow> True | Some t \<Rightarrow> offset < t) then
       rbind (guard ''AbortError'' (\<not> aborted offset)) (\<lambda>_.
       rbind (read_page port mode revision known offset) (\<lambda>(players, count).
       rbind (page_rows (\<lambda>p. lp_rating port p mode revision) seen players) (\<lambda>(seen, new).
       leaderboard_loop port mode revision aborted (Some count) (offset + 100) seen (rows @ new))))
     else Inr rows)"
  by auto
termination
  by (relation "measures [\<lambda>(port, mode, revision, aborted, known, offset, seen, rows). if known = None then 1 else 0,
      \<lambda>(port, mode, revision, aborted, known, offset, seen, rows). nat (the known - offset)]")
    (auto simp add: read_page_def res_simps Let_def split: option.splits if_split_asm)

declare leaderboard_loop.simps [simp del]

text \<open>\<^verbatim>\<open>rows.sort\<close> is stable and the comparison is by descending rating, then by the lower-case
  address.\<close>

definition row_key :: "row \<Rightarrow> int \<times> string" where
  "row_key r = (- elo (snd r), lower (fst r))"

definition readAuthorityLeaderboard ::
    "leaderboard_port \<Rightarrow> int \<Rightarrow> (int \<Rightarrow> bool) \<Rightarrow> ((int \<times> int) \<times> row list) res" where
  "readAuthorityLeaderboard port mode aborted =
    rbind (lp_snapshot port) (\<lambda>snapshot.
    rbind (leaderboard_loop port mode (fst snapshot) aborted None 0 {} []) (\<lambda>rows.
    Inr (snapshot, sort_key row_key rows)))"

subsection \<open>Commands of an arcade session and transition notices\<close>

record arcade_grant =
  ag_player :: string
  ag_key :: string
  ag_generation :: int
  ag_epoch :: int
  ag_expires :: int

record command_message =
  cm_grantHash :: string
  cm_dataHash :: string
  cm_nonce :: int
  cm_deadline :: int

definition grant_type :: string where
  "grant_type = ''ArcadeGrant(address player,address key,uint256 generation,uint256 epoch,uint64 expires)''"

text \<open>\<open>keccak\<close> hashes the bytes of an ABI encoding, of a text or of the data; \<open>encode\<close> is the ABI
  encoder on the type hash and the fields of the grant.\<close>

definition authorityGrantHash ::
    "(string \<Rightarrow> string) \<Rightarrow> (string \<Rightarrow> string \<Rightarrow> string \<Rightarrow> int \<Rightarrow> int \<Rightarrow> int \<Rightarrow> string) \<Rightarrow> arcade_grant \<Rightarrow> string" where
  "authorityGrantHash keccak encode g =
    keccak (encode (keccak grant_type) (ag_player g) (ag_key g) (ag_generation g) (ag_epoch g) (ag_expires g))"

definition commandMessage ::
    "(string \<Rightarrow> string) \<Rightarrow> (string \<Rightarrow> string \<Rightarrow> string \<Rightarrow> int \<Rightarrow> int \<Rightarrow> int \<Rightarrow> string) \<Rightarrow>
     arcade_grant \<Rightarrow> string \<Rightarrow> int \<Rightarrow> int \<Rightarrow> command_message res" where
  "commandMessage keccak encode g data nonce deadline =
    (if deadline > ag_expires g then Inl ''Renew arcade session''
     else Inr \<lparr>cm_grantHash = authorityGrantHash keccak encode g, cm_dataHash = keccak data,
       cm_nonce = nonce, cm_deadline = deadline\<rparr>)"

record transition =
  tr_previous :: int
  tr_next :: int
  tr_generation :: int
  tr_reason :: string
  tr_at :: int
  tr_transactionHash :: "string option"

record transition_notice =
  tn_previous :: execution_mode
  tn_next :: execution_mode
  tn_generation :: string
  tn_reason :: string
  tn_utc :: string
  tn_transactionHash :: "string option"

definition transitionNotice :: "transition \<Rightarrow> transition_notice res" where
  "transitionNotice t =
    (case (array_at executionNames (tr_previous t), array_at executionNames (tr_next t)) of
       (Some p, Some n) \<Rightarrow> rbind (iso_date (tr_at t * 1000)) (\<lambda>utc.
         Inr \<lparr>tn_previous = p, tn_next = n, tn_generation = decimal (tr_generation t),
           tn_reason = tr_reason t, tn_utc = utc, tn_transactionHash = tr_transactionHash t\<rparr>)
     | _ \<Rightarrow> Inl ''Unknown execution state'')"

definition logTransition :: "transition \<Rightarrow> (log_level \<times> string \<times> transition_notice) res" where
  "logTransition t = rbind (transitionNotice t) (\<lambda>n.
     Inr (if tr_next t = 1 \<or> tr_next t = 2 then Warn else Info, ''PONGIT execution transition'', n))"

subsection \<open>Properties\<close>

lemma mark_group_ok:
  "mark_group seen ps = Inr seen' \<Longrightarrow>
    seen' = seen \<union> lower ` set ps \<and> distinct (map lower ps) \<and> lower ` set ps \<inter> seen = {}"
  by (induction seen ps arbitrary: seen' rule: mark_group.induct) (auto split: if_split_asm)

lemma rate_group_ok:
  "rate_group rate ps = Inr rs \<Longrightarrow> map fst rs = ps \<and> (\<forall>r\<in>set rs. rate (fst r) = Inr (snd r))"
  by (induction ps arbitrary: rs) (fastforce simp add: res_simps)+

lemma page_rows_ok:
  "page_rows rate seen ps = Inr (seen', rs) \<Longrightarrow>
    map fst rs = ps \<and> (\<forall>r\<in>set rs. rate (fst r) = Inr (snd r))
    \<and> seen' = seen \<union> lower ` set ps \<and> distinct (map lower ps) \<and> lower ` set ps \<inter> seen = {}"
proof (induction rate seen ps arbitrary: seen' rs rule: page_rows.induct)
  case (1 rate seen ps)
  show ?case
  proof (cases "ps = []")
    case True
    with 1(2) show ?thesis by (simp add: page_rows.simps)
  next
    case False
    with 1(2) obtain s1 rows rest where
      m: "mark_group seen (take 8 ps) = Inr s1" and r: "rate_group rate (take 8 ps) = Inr rows"
      and p: "page_rows rate s1 (drop 8 ps) = Inr (seen', rest)" and rs: "rs = rows @ rest"
      by (subst (asm) page_rows.simps) (auto simp add: res_simps Let_def)
    note h = mark_group_ok [OF m] rate_group_ok [OF r] 1(1) [OF False refl m r p]
    have s: "set ps = set (take 8 ps) \<union> set (drop 8 ps)" by (metis append_take_drop_id set_append)
    have d: "map lower ps = map lower (take 8 ps) @ map lower (drop 8 ps)"
      by (metis append_take_drop_id map_append)
    have "map fst rs = ps" using h rs by simp
    moreover have "\<forall>x\<in>set rs. rate (fst x) = Inr (snd x)" using h rs by auto
    moreover have "seen' = seen \<union> lower ` set ps" using h unfolding s by auto
    moreover have "distinct (map lower ps)" using h unfolding d by auto
    moreover have "lower ` set ps \<inter> seen = {}" using h unfolding s by blast
    ultimately show ?thesis by simp
  qed
qed

lemma read_page_ok:
  "read_page port mode revision known offset = Inr (players, n) \<Longrightarrow>
    lp_page port mode offset 100 revision = Inr (players, n) \<and> 0 \<le> n
    \<and> (\<forall>t. known = Some t \<longrightarrow> n = t) \<and> int (length players) = min 100 (max 0 (n - offset))"
  by (auto simp add: read_page_def res_simps Let_def split: if_split_asm option.splits)

lemma leaderboard_loop_ok:
  assumes "leaderboard_loop port mode revision aborted known offset seen rows = Inr out"
  shows "\<exists>pages n new. out = rows @ new \<and> (\<forall>t. known = Some t \<longrightarrow> n = t)
    \<and> (\<forall>i<length pages. lp_page port mode (offset + 100 * int i) 100 revision = Inr (pages ! i, n))
    \<and> map fst new = concat pages \<and> int (length new) = max 0 (n - offset)
    \<and> distinct (map (lower \<circ> fst) new) \<and> (lower \<circ> fst) ` set new \<inter> seen = {}
    \<and> (\<forall>r\<in>set new. lp_rating port (fst r) mode revision = Inr (snd r))"
  using assms
proof (induction port mode revision aborted known offset seen rows arbitrary: out rule: leaderboard_loop.induct)
  case (1 port mode revision aborted known offset seen rows)
  show ?case
  proof (cases "case known of None \<Rightarrow> True | Some t \<Rightarrow> offset < t")
    case False
    then obtain t where t: "known = Some t" "t \<le> offset" by (auto split: option.splits)
    with 1(2) have "out = rows" by (simp add: leaderboard_loop.simps)
    with t show ?thesis by (intro exI [of _ "[]"] exI [of _ t]) simp
  next
    case True
    with 1(2) obtain players n seen' new where
      a: "guard ''AbortError'' (\<not> aborted offset) = Inr ()"
      and p: "read_page port mode revision known offset = Inr (players, n)"
      and r: "page_rows (\<lambda>p. lp_rating port p mode revision) seen players = Inr (seen', new)"
      and l: "leaderboard_loop port mode revision aborted (Some n) (offset + 100) seen' (rows @ new) = Inr out"
      by (subst (asm) leaderboard_loop.simps) (auto simp add: res_simps split: prod.splits)
    from 1(1) [OF True a p refl r refl l] obtain pages n' new' where h: "out = (rows @ new) @ new'"
      "\<forall>t. Some n = Some t \<longrightarrow> n' = t"
      "\<forall>i<length pages. lp_page port mode (offset + 100 + 100 * int i) 100 revision = Inr (pages ! i, n')"
      "map fst new' = concat pages" "int (length new') = max 0 (n' - (offset + 100))"
      "distinct (map (lower \<circ> fst) new')" "(lower \<circ> fst) ` set new' \<inter> seen' = {}"
      "\<forall>r\<in>set new'. lp_rating port (fst r) mode revision = Inr (snd r)" by blast
    have n' [simp]: "n' = n" using h(2) by simp
    note q = read_page_ok [OF p] and w = page_rows_ok [OF r]
    have m: "map (lower \<circ> fst) new = map lower players"
      unfolding conjunct1 [OF w, symmetric] by simp
    then have im: "(lower \<circ> fst) ` set new = lower ` set players" by (metis image_set)
    have len: "int (length new) = min 100 (max 0 (n - offset))" using q w by (metis length_map)
    have pages: "lp_page port mode (offset + 100 * int i) 100 revision = Inr ((players # pages) ! i, n)"
      if "i < length (players # pages)" for i
      using that h(3) q by (cases i) (auto simp add: algebra_simps)
    have sum: "int (length (new @ new')) = max 0 (n - offset)"
      using len h(5) by simp
    have dis: "distinct (map (lower \<circ> fst) (new @ new'))"
      using m im w h(6,7) by (auto simp add: image_comp)
    have dj: "(lower \<circ> fst) ` set (new @ new') \<inter> seen = {}"
      using w h(7) unfolding set_append image_Un im by blast
    have rt: "\<forall>r\<in>set (new @ new'). lp_rating port (fst r) mode revision = Inr (snd r)"
      using w h(8) by auto
    have kn: "\<forall>t. known = Some t \<longrightarrow> n = t" using q by blast
    have out: "out = rows @ (new @ new')" and cc: "map fst (new @ new') = concat (players # pages)"
      using h(1,4) conjunct1 [OF w] by simp_all
    show ?thesis
      by (rule exI [of _ "players # pages"], rule exI [of _ n], rule exI [of _ "new @ new'"])
        (intro conjI allI impI out cc pages sum dis dj rt kn [rule_format])
  qed
qed

text \<open>The leaderboard is complete and consistent: when a call returns, its rows are exactly the
  players of consecutive pages of one snapshot, as many as every page announces, each with the
  rating of that snapshot, none twice up to the case of its address, in the order of descending
  rating and then of the address.\<close>

theorem leaderboard_complete:
  assumes "readAuthorityLeaderboard port mode aborted = Inr (snapshot, rows)"
  shows "lp_snapshot port = Inr snapshot \<and> (\<exists>pages n.
      (\<forall>i<length pages. lp_page port mode (100 * int i) 100 (fst snapshot) = Inr (pages ! i, n))
      \<and> mset (map fst rows) = mset (concat pages) \<and> int (length rows) = max 0 n)
    \<and> distinct (map (lower \<circ> fst) rows) \<and> sorted (map row_key rows)
    \<and> (\<forall>r\<in>set rows. lp_rating port (fst r) mode (fst snapshot) = Inr (snd r))"
proof -
  from assms obtain out where s: "lp_snapshot port = Inr snapshot"
    and l: "leaderboard_loop port mode (fst snapshot) aborted None 0 {} [] = Inr out"
    and rows: "rows = sort_key row_key out"
    by (auto simp add: readAuthorityLeaderboard_def res_simps)
  from leaderboard_loop_ok [OF l] obtain pages n where
    h: "\<forall>i<length pages. lp_page port mode (100 * int i) 100 (fst snapshot) = Inr (pages ! i, n)"
      "map fst out = concat pages" "int (length out) = max 0 n"
      "distinct (map (lower \<circ> fst) out)"
      "\<forall>r\<in>set out. lp_rating port (fst r) mode (fst snapshot) = Inr (snd r)" by auto
  have ms: "mset (map f rows) = mset (map f out)" for f :: "row \<Rightarrow> string" unfolding rows by simp
  have "distinct (map (lower \<circ> fst) rows)" using h(4) mset_eq_imp_distinct_iff [OF ms] by blast
  moreover have "mset (map fst rows) = mset (concat pages)" using ms h(2) by metis
  ultimately show ?thesis using s h unfolding rows by auto
qed

definition sample_port :: leaderboard_port where
  "sample_port = \<lparr>lp_snapshot = Inr (7, 1),
     lp_page = (\<lambda>mode offset limit revision. Inr (if offset = 0 then [''0xAB'', ''0x1c''] else [], 2)),
     lp_rating = (\<lambda>player mode revision.
       Inr \<lparr>elo = (if player = ''0xAB'' then 1000 else 1200), played = 3, wins = 1, season = 1\<rparr>)\<rparr>"

theorem leaderboard_complete_witness:
  "readAuthorityLeaderboard sample_port 0 (\<lambda>_. False) = Inr ((7, 1),
     [(''0x1c'', \<lparr>elo = 1200, played = 3, wins = 1, season = 1\<rparr>),
      (''0xAB'', \<lparr>elo = 1000, played = 3, wins = 1, season = 1\<rparr>)])
   \<and> (\<exists>pages. mset [''0x1c'', ''0xAB''] = mset (concat pages))"
proof -
  have run: "readAuthorityLeaderboard sample_port 0 (\<lambda>_. False) = Inr ((7, 1),
     [(''0x1c'', \<lparr>elo = 1200, played = 3, wins = 1, season = 1\<rparr>),
      (''0xAB'', \<lparr>elo = 1000, played = 3, wins = 1, season = 1\<rparr>)])" by code_simp
  have "\<exists>pages. mset [''0x1c'', ''0xAB''] = mset (concat pages)"
    using leaderboard_complete [OF run] by (simp only: list.map fst_conv) blast
  with run show ?thesis by blast
qed

end
