(* ===== verification/Authority_Source.thy ===== *)
theory Authority_Source
  imports Authority_Client
begin

text \<open>
  \<^verbatim>\<open>shared/authority-recovery-source.ts\<close> and the decoder of \<^verbatim>\<open>shared/rooms-hub.ts\<close>: one observation
  of the base chain.  The public client (chain id, blocks, calls at a block), the ABI decoders
  and the health probe are fields of \<open>source_port\<close>; the data of a call is its hexadecimal text.
\<close>

record delegation =
  dl_status :: int
  dl_app :: string
  dl_partition :: string
  dl_epoch :: int
  dl_lastCommitAt :: int
  dl_maxBatchInterval :: int
  dl_expiresAt :: int
  dl_stakeUnlockAt :: int

record block =
  bk_number :: "int option"
  bk_hash :: "string option"
  bk_timestamp :: int

datatype source_read = ReadGeneration | ReadExecution | ReadHub | ReadDelegation | ReadReason | ReadClosure

record source_port =
  sp_isAddress :: "string \<Rightarrow> bool"
  sp_chainId :: "int res"
  sp_latest :: "block res"
  sp_block :: "int \<Rightarrow> block res"
  sp_call :: "source_read \<Rightarrow> int \<Rightarrow> string res"
  sp_uint :: "string \<Rightarrow> int res"
  sp_text :: "string \<Rightarrow> string res"
  sp_pair :: "string \<Rightarrow> (int \<times> int) res"
  sp_delegation :: "string \<Rightarrow> delegation res"
  sp_legacyDelegation :: "string \<Rightarrow> delegation res"
  sp_health :: "int \<Rightarrow> health_view res"
  sp_normalClosure :: string

definition zeroHash :: string where
  "zeroHash = ''0x'' @ replicate 64 (CHR ''0'')"

definition phases :: "hub_phase list" where
  "phases = [PhaseNone, Active, Exiting, Challenged]"

definition decodeHubDelegation :: "source_port \<Rightarrow> string \<Rightarrow> delegation res" where
  "decodeHubDelegation sp data =
    (if int (length data) - 2 = 64 * 29 then sp_delegation sp data
     else if int (length data) - 2 = 64 * 28 then sp_legacyDelegation sp data
     else Inl ''Unsupported delegation response. Do not proceed with lifecycle transactions.'')"

text \<open>\<^verbatim>\<open>b.hash?.toLowerCase() === hash.toLowerCase()\<close>.\<close>

definition canonical :: "source_port \<Rightarrow> int \<Rightarrow> string \<Rightarrow> bool res" where
  "canonical sp number hash = rbind (sp_block sp number) (\<lambda>b.
     Inr (map_option lower (bk_hash b) = Some (lower hash)))"

definition invalid_delegation :: "string \<Rightarrow> execution_mode option \<Rightarrow> delegation \<Rightarrow> bool" where
  "invalid_delegation app execution d \<longleftrightarrow> execution = None \<or> array_at phases (dl_status d) = None
     \<or> (dl_status d \<noteq> 0 \<and> (lower (dl_app d) \<noteq> lower app \<or> dl_partition d \<noteq> zeroHash))"

definition hub_of :: "delegation \<Rightarrow> hub_view" where
  "hub_of d = \<lparr>hub_phase = the (array_at phases (dl_status d)), hub_epoch = dl_epoch d,
     hub_lastCommitAt = dl_lastCommitAt d, hub_maxBatchInterval = dl_maxBatchInterval d,
     hub_expiresAt = dl_expiresAt d, hub_stakeUnlockAt = dl_stakeUnlockAt d\<rparr>"

text \<open>The six calls at the block, in the order of the array.\<close>

record source_data =
  sd_generation :: string
  sd_execution :: string
  sd_hub :: string
  sd_delegation :: string
  sd_reason :: string
  sd_closure :: string

definition read_all :: "source_port \<Rightarrow> int \<Rightarrow> source_data res" where
  "read_all sp n =
    rbind (sp_call sp ReadGeneration n) (\<lambda>g. rbind (sp_call sp ReadExecution n) (\<lambda>e.
    rbind (sp_call sp ReadHub n) (\<lambda>h. rbind (sp_call sp ReadDelegation n) (\<lambda>d.
    rbind (sp_call sp ReadReason n) (\<lambda>r. rbind (sp_call sp ReadClosure n) (\<lambda>c.
    Inr \<lparr>sd_generation = g, sd_execution = e, sd_hub = h, sd_delegation = d, sd_reason = r, sd_closure = c\<rparr>))))))"

text \<open>The checks and reads after the calls, and the observation they give.\<close>

definition observe_at ::
    "source_port \<Rightarrow> string \<Rightarrow> string \<Rightarrow> int \<Rightarrow> string \<Rightarrow> int \<Rightarrow> source_data \<Rightarrow> observation res" where
  "observe_at sp app hub number hash timestamp sd =
    rbind (sp_text sp (sd_hub sd)) (\<lambda>actualHub.
    rbind (guard ''Recovery hub mismatch'' (lower actualHub = lower hub)) (\<lambda>_.
    rbind (sp_uint sp (sd_generation sd)) (\<lambda>generation.
    rbind (sp_uint sp (sd_execution sd)) (\<lambda>mode.
    rbind (decodeHubDelegation sp (sd_delegation sd)) (\<lambda>d.
    rbind (guard ''Invalid controller or delegation state''
      (\<not> invalid_delegation app (array_at executionNames mode) d)) (\<lambda>_.
    rbind (sp_health sp timestamp) (\<lambda>health.
    rbind (sp_pair sp (sd_closure sd)) (\<lambda>closure.
    rbind (canonical sp number hash) (\<lambda>ok.
    rbind (guard ''Recovery observation reorganized'' ok) (\<lambda>_.
    rbind (sp_text sp (sd_reason sd)) (\<lambda>reason.
    Inr \<lparr>o_chainId = 10143, o_app = app, o_generation = generation, o_block = number, o_blockHash = hash,
      o_timestamp = timestamp, o_execution = the (array_at executionNames mode), o_transitionReason = reason,
      o_drainingEpoch = fst closure, o_sealedEpoch = snd closure, o_hub = hub_of d, o_health = health\<rparr>)))))))))))"

definition observe :: "source_port \<Rightarrow> string \<Rightarrow> string \<Rightarrow> observation res" where
  "observe sp app hub =
    rbind (sp_chainId sp) (\<lambda>chain.
    rbind (guard ''Recovery must observe Monad Testnet'' (chain = 10143)) (\<lambda>_.
    rbind (sp_latest sp) (\<lambda>b.
    case (bk_number b, bk_hash b) of
      (Some number, Some hash) \<Rightarrow>
        rbind (read_all sp number) (\<lambda>sd.
        rbind (observe_at sp app hub number hash (bk_timestamp b) sd) (\<lambda>ob.
        rbind (decideRecovery (sp_isAddress sp) (sp_normalClosure sp) ob) (\<lambda>_.
        Inr ob)))
    | _ \<Rightarrow> Inl ''Canonical Monad block unavailable'')))"

text \<open>\<^verbatim>\<open>authorityRecoverySource\<close> itself: the deployment is checked before anything is observed.\<close>

definition authorityRecoverySource ::
    "source_port \<Rightarrow> string \<Rightarrow> string \<Rightarrow> (observation res \<times> (int \<Rightarrow> string \<Rightarrow> bool res)) res" where
  "authorityRecoverySource sp app hub =
    (if \<not> sp_isAddress sp app \<or> \<not> sp_isAddress sp hub then Inl ''Invalid recovery deployment''
     else Inr (observe sp app hub, canonical sp))"

subsection \<open>Properties\<close>






end
