(* ===== verification/Io_Monad.thy ===== *)
theory Io_Monad
  imports Prelude
begin

text \<open>
  Effects.  An asynchronous function of the program that awaits other parties is a function from
  the state of the world to its result and the next state; a rejected promise is the left value
  of the result, and the effects before it stay.  \<open>triple\<close> is the correctness of such a function
  with an assertion for each of the two outcomes.  Where the other party is outside the program,
  the world is the history of the calls made so far and a function from histories to answers.
\<close>

named_theorems io_simps \<open>evaluation of effects\<close>
named_theorems triple_rules \<open>rules of the assertion logic\<close>

type_synonym ('a, 's) io = "'s \<Rightarrow> 'a res \<times> 's"

definition ret :: "'a \<Rightarrow> ('a, 's) io" where
  "ret x = (\<lambda>s. (Inr x, s))"

definition throw :: "string \<Rightarrow> ('a, 's) io" where
  "throw e = (\<lambda>s. (Inl e, s))"

definition lift :: "'a res \<Rightarrow> ('a, 's) io" where
  "lift r = (\<lambda>s. (r, s))"

definition ibind :: "('a, 's) io \<Rightarrow> ('a \<Rightarrow> ('b, 's) io) \<Rightarrow> ('b, 's) io" where
  "ibind m f = (\<lambda>s. case m s of (Inl e, s') \<Rightarrow> (Inl e, s') | (Inr x, s') \<Rightarrow> f x s')"

definition iguard :: "string \<Rightarrow> bool \<Rightarrow> (unit, 's) io" where
  "iguard e ok = (if ok then ret () else throw e)"

definition gets :: "('s \<Rightarrow> 'a) \<Rightarrow> ('a, 's) io" where
  "gets f = (\<lambda>s. (Inr (f s), s))"

definition modify :: "('s \<Rightarrow> 's) \<Rightarrow> (unit, 's) io" where
  "modify f = (\<lambda>s. (Inr (), f s))"

text \<open>\<^verbatim>\<open>try { m } catch (e) { h(e) }\<close> and \<^verbatim>\<open>try { m } finally { f }\<close>, where \<open>f\<close> does not throw.\<close>

definition catch :: "('a, 's) io \<Rightarrow> (string \<Rightarrow> ('a, 's) io) \<Rightarrow> ('a, 's) io" where
  "catch m h = (\<lambda>s. case m s of (Inl e, s') \<Rightarrow> h e s' | (Inr x, s') \<Rightarrow> (Inr x, s'))"

definition finally_do :: "('a, 's) io \<Rightarrow> ('s \<Rightarrow> 's) \<Rightarrow> ('a, 's) io" where
  "finally_do m f = (\<lambda>s. case m s of (r, s') \<Rightarrow> (r, f s'))"

text \<open>\<^verbatim>\<open>for (const x of xs) await f(x)\<close>.\<close>

fun each :: "('a \<Rightarrow> (unit, 's) io) \<Rightarrow> 'a list \<Rightarrow> (unit, 's) io" where
  "each f [] = ret ()"
| "each f (x # xs) = ibind (f x) (\<lambda>_. each f xs)"

lemma io_eval [io_simps]:
  "ret x s = (Inr x, s)" "throw e s = (Inl e, s)" "lift r s = (r, s)"
  "gets g s = (Inr (g s), s)" "modify h s = (Inr (), h s)"
  by (simp_all add: ret_def throw_def lift_def gets_def modify_def)

lemma ibind_eval [io_simps]:
  "m s = (Inr x, s') \<Longrightarrow> ibind m f s = f x s'"
  "m s = (Inl e, s') \<Longrightarrow> ibind m f s = (Inl e, s')"
  by (simp_all add: ibind_def)

lemma iguard_eval [io_simps]: "iguard e ok s = (if ok then Inr () else Inl e, s)"
  by (simp add: iguard_def io_simps)

lemma ibind_units:
  "ibind (ret x) f = f x" "ibind (lift (Inr x)) f = f x" "ibind (lift (Inl e)) f = throw e"
  "ibind (throw e) f = throw e" "ibind (iguard e True) g = g ()" "ibind (iguard e False) g = throw e"
  by (simp_all add: fun_eq_iff ibind_def io_simps)

lemma ibind_eq_Inr:
  "ibind m f s = (Inr y, t) \<longleftrightarrow> (\<exists>x s'. m s = (Inr x, s') \<and> f x s' = (Inr y, t))"
  by (auto simp add: ibind_def split: prod.splits sum.splits)

lemma catch_eq_Inr:
  "catch m h s = (Inr y, t) \<longleftrightarrow> m s = (Inr y, t) \<or> (\<exists>e s'. m s = (Inl e, s') \<and> h e s' = (Inr y, t))"
  by (auto simp add: catch_def split: prod.splits sum.splits)

lemma ibind_cong [fundef_cong]:
  "m = m' \<Longrightarrow> s = s' \<Longrightarrow> (\<And>x t. m' s' = (Inr x, t) \<Longrightarrow> f x t = g x t) \<Longrightarrow> ibind m f s = ibind m' g s'"
  by (auto simp add: ibind_def split: prod.splits sum.splits)

subsection \<open>Assertions\<close>

definition triple :: "('s \<Rightarrow> bool) \<Rightarrow> ('a, 's) io \<Rightarrow> ('a \<Rightarrow> 's \<Rightarrow> bool) \<Rightarrow> ('s \<Rightarrow> bool) \<Rightarrow> bool" where
  "triple P m Q E \<longleftrightarrow> (\<forall>s. P s \<longrightarrow> (case m s of (Inr x, s') \<Rightarrow> Q x s' | (Inl e, s') \<Rightarrow> E s'))"

lemma tripleD:
  assumes "triple P m Q E" "P s"
  shows "m s = (Inr x, s') \<Longrightarrow> Q x s'" and "m s = (Inl e, s') \<Longrightarrow> E s'"
  using assms by (auto simp add: triple_def)

lemma tripleI:
  assumes "\<And>s x s'. P s \<Longrightarrow> m s = (Inr x, s') \<Longrightarrow> Q x s'"
    and "\<And>s e s'. P s \<Longrightarrow> m s = (Inl e, s') \<Longrightarrow> E s'"
  shows "triple P m Q E"
  using assms by (auto simp add: triple_def split: prod.splits sum.splits)

lemma triple_ret [triple_rules]: "(\<And>s. P s \<Longrightarrow> Q x s) \<Longrightarrow> triple P (ret x) Q E"
  by (simp add: triple_def io_simps)

lemma triple_throw [triple_rules]: "(\<And>s. P s \<Longrightarrow> E s) \<Longrightarrow> triple P (throw e) Q E"
  by (simp add: triple_def io_simps)

lemma triple_lift [triple_rules]:
  "(\<And>s x. P s \<Longrightarrow> r = Inr x \<Longrightarrow> Q x s) \<Longrightarrow> (\<And>s. P s \<Longrightarrow> E s) \<Longrightarrow> triple P (lift r) Q E"
  by (cases r) (simp_all add: triple_def io_simps)

lemma triple_iguard [triple_rules]:
  "(\<And>s. P s \<Longrightarrow> ok \<Longrightarrow> Q () s) \<Longrightarrow> (\<And>s. P s \<Longrightarrow> E s) \<Longrightarrow> triple P (iguard e ok) Q E"
  by (simp add: triple_def io_simps)

lemma triple_modify [triple_rules]: "(\<And>s. P s \<Longrightarrow> Q () (h s)) \<Longrightarrow> triple P (modify h) Q E"
  by (simp add: triple_def io_simps)

lemma triple_gets [triple_rules]: "(\<And>s. P s \<Longrightarrow> Q (g s) s) \<Longrightarrow> triple P (gets g) Q E"
  by (simp add: triple_def io_simps)

lemma triple_bind:
  assumes "triple P m R E" "\<And>x. triple (R x) (f x) Q E"
  shows "triple P (ibind m f) Q E"
  using assms by (fastforce simp add: triple_def ibind_def split: prod.splits sum.splits)

lemma triple_weaken:
  assumes "triple P m Q E" "\<And>s. P' s \<Longrightarrow> P s" "\<And>x s. Q x s \<Longrightarrow> Q' x s" "\<And>s. E s \<Longrightarrow> E' s"
  shows "triple P' m Q' E'"
  using assms by (fastforce simp add: triple_def split: prod.splits sum.splits)

lemma triple_catch:
  assumes "triple P m Q R" "\<And>e. triple R (h e) Q E"
  shows "triple P (catch m h) Q E"
  using assms by (fastforce simp add: triple_def catch_def split: prod.splits sum.splits)

lemma triple_finally:
  assumes "triple P m (\<lambda>x s. Q x (f s)) (\<lambda>s. E (f s))"
  shows "triple P (finally_do m f) Q E"
  using assms by (auto simp add: triple_def finally_do_def split: prod.splits sum.splits)

lemma triple_if [triple_rules]:
  "(c \<Longrightarrow> triple P m Q E) \<Longrightarrow> (\<not> c \<Longrightarrow> triple P n Q E) \<Longrightarrow> triple P (if c then m else n) Q E"
  by simp

lemma triple_case_option [triple_rules]:
  "(c = None \<Longrightarrow> triple P m Q E) \<Longrightarrow> (\<And>x. c = Some x \<Longrightarrow> triple P (n x) Q E)
    \<Longrightarrow> triple P (case c of None \<Rightarrow> m | Some x \<Rightarrow> n x) Q E"
  by (cases c) simp_all

lemma triple_each:
  assumes "\<And>x. x \<in> set xs \<Longrightarrow> triple I (f x) (\<lambda>_. I) E"
  shows "triple I (each f xs) (\<lambda>_. I) E"
  using assms by (induction xs) (auto intro!: triple_rules intro: triple_bind)

text \<open>A property of the state that every step keeps.\<close>

definition keeps :: "('s \<Rightarrow> bool) \<Rightarrow> ('a, 's) io \<Rightarrow> bool" where
  "keeps I m \<longleftrightarrow> triple I m (\<lambda>_. I) I"

lemma keeps_basic [triple_rules]:
  "keeps I (ret x)" "keeps I (throw e)" "keeps I (lift r)" "keeps I (iguard e ok)" "keeps I (gets g)"
  by (simp_all add: keeps_def triple_def io_simps split: sum.splits)

lemma keeps_modify [triple_rules]: "(\<And>s. I s \<Longrightarrow> I (h s)) \<Longrightarrow> keeps I (modify h)"
  by (simp add: keeps_def triple_def io_simps)

lemma keeps_bind [triple_rules]: "keeps I m \<Longrightarrow> (\<And>x. keeps I (f x)) \<Longrightarrow> keeps I (ibind m f)"
  unfolding keeps_def by (rule triple_bind) simp_all

lemma keeps_catch [triple_rules]: "keeps I m \<Longrightarrow> (\<And>e. keeps I (h e)) \<Longrightarrow> keeps I (catch m h)"
  unfolding keeps_def by (rule triple_catch) simp_all

lemma keeps_if [triple_rules]: "keeps I m \<Longrightarrow> keeps I n \<Longrightarrow> keeps I (if c then m else n)"
  by simp

lemma keeps_option [triple_rules]:
  "keeps I m \<Longrightarrow> (\<And>x. keeps I (n x)) \<Longrightarrow> keeps I (case c of None \<Rightarrow> m | Some x \<Rightarrow> n x)"
  by (cases c) simp_all

lemma keeps_each [triple_rules]: "(\<And>x. x \<in> set xs \<Longrightarrow> keeps I (f x)) \<Longrightarrow> keeps I (each f xs)"
  unfolding keeps_def by (rule triple_each) simp

lemma keepsD: "keeps I m \<Longrightarrow> I s \<Longrightarrow> m s = (r, t) \<Longrightarrow> I t"
  by (cases r) (auto simp add: keeps_def dest: tripleD)

text \<open>A step that keeps a property either fails with it or continues with it.\<close>

lemma ibind_keeps_cases:
  assumes "ibind m f s = (r, t)" and "keeps I m" and "I s"
  shows "I t \<and> \<not> is_ok r \<or> (\<exists>x u. m s = (Inr x, u) \<and> I u \<and> f x u = (r, t))"
proof -
  obtain r1 u where m: "m s = (r1, u)" by fastforce
  have u: "I u" using assms(2,3) m by (rule keepsD)
  show ?thesis
  proof (cases r1)
    case (Inl e)
    then have "t = u \<and> r = Inl e" using assms(1) m by (simp add: ibind_def)
    with u show ?thesis by simp
  next
    case (Inr x)
    then have "f x u = (r, t)" using assms(1) m by (simp add: ibind_def)
    with u m Inr show ?thesis by blast
  qed
qed

lemma ibind_keeps_ok:
  assumes "ibind m f s = (r, t)" and "keeps I m" and "I s" and "\<not> (I t \<and> \<not> is_ok r)"
  shows "\<exists>x u. m s = (Inr x, u) \<and> I u \<and> f x u = (r, t)"
  using ibind_keeps_cases [OF assms(1-3)] assms(4) by blast

end
