(* ===== verification/Authority_Private.thy ===== *)
theory Authority_Private
  imports Io_Monad Js_Text
begin

text \<open>
  \<^verbatim>\<open>shared/authority-private.ts\<close>: the upload of an encrypted backup in chunks under a Merkle root.
  Bytes are \<^typ>\<open>8 word\<close>s; a \<^verbatim>\<open>Hex\<close> that carries data stands for its bytes, and a \<^verbatim>\<open>Hex\<close> that is a
  hash is a value of a linearly ordered type \<open>'h\<close> (the code compares hashes by their lower-case
  digits).  The hash function itself, on bytes, on the encoding of an index with a hash and on
  two concatenated hashes, is an argument.
\<close>

type_synonym bytes = "8 word list"

record 'h hasher =
  hs_data :: "bytes \<Rightarrow> 'h"
  hs_leaf :: "int \<Rightarrow> 'h \<Rightarrow> 'h"
  hs_pair :: "'h \<Rightarrow> 'h \<Rightarrow> 'h"

record 'h chunk =
  ch_index :: int
  ch_data :: bytes
  ch_proof :: "'h list"

record 'h upload =
  ul_size :: int
  ul_root :: 'h
  ul_dataHash :: 'h
  ul_chunks :: "'h chunk list"

definition CHUNK_BYTES :: nat where "CHUNK_BYTES = 4096"
definition MAX_PRIVATE_BYTES :: nat where "MAX_PRIVATE_BYTES = 65536"

definition pair :: "'h::linorder hasher \<Rightarrow> 'h \<Rightarrow> 'h \<Rightarrow> 'h" where
  "pair H a b = (if a < b then hs_pair H a b else hs_pair H b a)"

definition leaf :: "'h hasher \<Rightarrow> int \<Rightarrow> bytes \<Rightarrow> 'h" where
  "leaf H index data = hs_leaf H index (hs_data H data)"

subsection \<open>Preparing and checking an upload\<close>

function chunk_loop :: "bytes \<Rightarrow> nat \<Rightarrow> (nat \<times> bytes) list \<Rightarrow> (nat \<times> bytes) list" where
  "chunk_loop ciphertext offset chunks =
    (if offset < length ciphertext
     then chunk_loop ciphertext (offset + CHUNK_BYTES)
       (chunks @ [(length chunks, take CHUNK_BYTES (drop offset ciphertext))])
     else chunks)"
  by auto
termination
  by (relation "measure (\<lambda>(c, offset, chunks). length c - offset)") (auto simp add: CHUNK_BYTES_def)

declare chunk_loop.simps [simp del]

text \<open>\<^verbatim>\<open>2 ** Math.ceil(Math.log2(n))\<close> for a positive \<open>n\<close>: the least power of two that is not below it.\<close>

function width_from :: "nat \<Rightarrow> nat \<Rightarrow> nat" where
  "width_from w n = (if n \<le> w \<or> w = 0 then w else width_from (2 * w) n)"
  by auto
termination by (relation "measure (\<lambda>(w, n). n - w)") auto

declare width_from.simps [simp del]

definition tree_width :: "nat \<Rightarrow> nat" where "tree_width n = width_from 1 n"

text \<open>A level of the tree above another one, and all levels from the leaves to the root.\<close>

definition pair_up :: "('h \<Rightarrow> 'h \<Rightarrow> 'h) \<Rightarrow> 'h list \<Rightarrow> 'h list" where
  "pair_up p below = map (\<lambda>i. p (below ! (i * 2)) (below ! (i * 2 + 1))) [0..<length below div 2]"

function levels_from :: "('h \<Rightarrow> 'h \<Rightarrow> 'h) \<Rightarrow> 'h list \<Rightarrow> 'h list list" where
  "levels_from p below = (if length below > 1 then below # levels_from p (pair_up p below) else [below])"
  by auto
termination by (relation "measure (\<lambda>(p, l). length l)") (auto simp add: pair_up_def)

declare levels_from.simps [simp del]

text \<open>The siblings on the path from a leaf to the root, \<^verbatim>\<open>levels[level][i ^ 1]\<close>.\<close>

fun proof_path :: "'h list list \<Rightarrow> nat \<Rightarrow> 'h list" where
  "proof_path [] i = []"
| "proof_path [root] i = []"
| "proof_path (level # levels) i = level ! (i XOR 1) # proof_path levels (i div 2)"

definition preparePrivateUpload :: "'h::linorder hasher \<Rightarrow> bytes \<Rightarrow> 'h upload res" where
  "preparePrivateUpload H ciphertext =
    (if length ciphertext < 16 \<or> length ciphertext > MAX_PRIVATE_BYTES
     then Inl ''Encrypted data exceeds the supported size. Your saved version is unchanged.''
     else let chunks = chunk_loop ciphertext 0 [];
            width = tree_width (length chunks);
            leaves = map (\<lambda>i. leaf H (int i) (if i < length chunks then snd (chunks ! i) else [])) [0..<width];
            levels = levels_from (pair H) leaves
          in Inr \<lparr>ul_size = int (length ciphertext), ul_root = last levels ! 0, ul_dataHash = hs_data H ciphertext,
               ul_chunks = map (\<lambda>(i, data). \<lparr>ch_index = int i, ch_data = data, ch_proof = proof_path levels i\<rparr>) chunks\<rparr>)"

definition verifyPrivateChunk :: "'h::linorder hasher \<Rightarrow> 'h \<Rightarrow> int \<Rightarrow> bytes \<Rightarrow> 'h list \<Rightarrow> bool" where
  "verifyPrivateChunk H root index data proof =
    (if length proof > 4 \<or> index < 0 \<or> index \<ge> 16 then False
     else foldl (pair H) (leaf H index data) proof = root)"

definition restoreCiphertext :: "'h hasher \<Rightarrow> bytes list \<Rightarrow> 'h \<Rightarrow> bytes res" where
  "restoreCiphertext H chunks expectedHash =
    (let bytes = concat chunks in
     if hs_data H bytes \<noteq> expectedHash then Inl ''Encrypted backup is incomplete or corrupt.'' else Inr bytes)"

subsection \<open>Saving through the contract\<close>

text \<open>The calls of \<^verbatim>\<open>UploadPort\<close> and of the progress callback, in the order they are made, and a
  world that answers each from the calls made so far.\<close>

record 'h stored_upload =
  st_player :: string
  st_namespace :: string
  st_root :: 'h
  st_dataHash :: 'h
  st_iv :: bytes
  st_size :: int
  st_expected :: int

datatype 'h upload_call = ReadUpload string | ReadRevision | ReadCurrentUpload
  | Begin "'h upload" bytes int | ReadBitmap string | Put string "'h chunk" | Commit string
  | Progress int int

type_synonym 'h calls = "'h upload_call list"

record 'h upload_world =
  uw_player :: string
  uw_namespace :: string
  uw_upload :: "'h calls \<Rightarrow> string \<Rightarrow> 'h stored_upload res"
  uw_revision :: "'h calls \<Rightarrow> int res"
  uw_current :: "'h calls \<Rightarrow> string res"
  uw_begin :: "'h calls \<Rightarrow> string res"
  uw_bitmap :: "'h calls \<Rightarrow> string \<Rightarrow> int res"
  uw_put :: "'h calls \<Rightarrow> string \<Rightarrow> 'h chunk \<Rightarrow> unit res"
  uw_commit :: "'h calls \<Rightarrow> string \<Rightarrow> unit res"
  uw_aborted :: "'h calls \<Rightarrow> bool"

definition call :: "'h upload_call \<Rightarrow> ('h calls \<Rightarrow> 'a res) \<Rightarrow> ('a, 'h calls) io" where
  "call c answer = (\<lambda>h. (answer (h @ [c]), h @ [c]))"

definition throwIfAborted :: "'h upload_world \<Rightarrow> (unit, 'h calls) io" where
  "throwIfAborted w = (\<lambda>h. (if uw_aborted w h then Inl ''AbortError'' else Inr (), h))"

definition different_backup ::
    "'h upload_world \<Rightarrow> 'h upload \<Rightarrow> bytes \<Rightarrow> int \<Rightarrow> 'h stored_upload \<Rightarrow> bool" where
  "different_backup w prepared iv revision stored \<longleftrightarrow>
     lower (st_player stored) \<noteq> lower (uw_player w) \<or> lower (st_namespace stored) \<noteq> lower (uw_namespace w)
     \<or> st_root stored \<noteq> ul_root prepared \<or> st_dataHash stored \<noteq> ul_dataHash prepared
     \<or> st_iv stored \<noteq> iv \<or> st_size stored \<noteq> ul_size prepared \<or> st_expected stored \<noteq> revision"

definition check_resume ::
    "'h upload_world \<Rightarrow> 'h upload \<Rightarrow> bytes \<Rightarrow> int \<Rightarrow> string option \<Rightarrow> (unit, 'h calls) io" where
  "check_resume w prepared iv revision resume =
    (case resume of None \<Rightarrow> ret ()
     | Some upid \<Rightarrow> ibind (call (ReadUpload upid) (\<lambda>h. uw_upload w h upid)) (\<lambda>stored.
         iguard ''This upload belongs to a different backup. Start a new save.''
           (\<not> different_backup w prepared iv revision stored)))"

definition already_committed ::
    "'h upload_world \<Rightarrow> int \<Rightarrow> int \<Rightarrow> string option \<Rightarrow> (bool, 'h calls) io" where
  "already_committed w revision current resume =
    (case resume of None \<Rightarrow> ret False
     | Some upid \<Rightarrow> if current = revision + 1
         then ibind (call ReadCurrentUpload (uw_current w)) (\<lambda>c. ret (c = upid)) else ret False)"

definition put_chunk :: "'h upload_world \<Rightarrow> string \<Rightarrow> int \<Rightarrow> int \<Rightarrow> 'h chunk \<Rightarrow> (unit, 'h calls) io" where
  "put_chunk w upid bitmap count ch =
    ibind (throwIfAborted w) (\<lambda>_.
    ibind (if and32 bitmap (shl32 1 (ch_index ch)) = 0 then call (Put upid ch) (\<lambda>h. uw_put w h upid ch) else ret ()) (\<lambda>_.
    call (Progress (ch_index ch + 1) count) (\<lambda>_. Inr ())))"

text \<open>The last steps: the head is read again, and the upload is only committed on the same revision.\<close>

definition publish :: "'h upload_world \<Rightarrow> string \<Rightarrow> int \<Rightarrow> (string, 'h calls) io" where
  "publish w upid revision =
    ibind (throwIfAborted w) (\<lambda>_.
    ibind (call ReadRevision (uw_revision w)) (\<lambda>again.
    ibind (iguard ''This backup changed on another device. Your upload was not published.'' (again = revision)) (\<lambda>_.
    ibind (call (Commit upid) (\<lambda>h. uw_commit w h upid)) (\<lambda>_.
    ret upid))))"

definition upload_and_publish ::
    "'h upload_world \<Rightarrow> 'h upload \<Rightarrow> bytes \<Rightarrow> int \<Rightarrow> string option \<Rightarrow> (string, 'h calls) io" where
  "upload_and_publish w prepared iv revision resume =
    ibind (case resume of Some upid \<Rightarrow> ret upid
           | None \<Rightarrow> call (Begin prepared iv revision) (uw_begin w)) (\<lambda>upid.
    ibind (call (ReadBitmap upid) (\<lambda>h. uw_bitmap w h upid)) (\<lambda>bitmap.
    ibind (each (put_chunk w upid bitmap (int (length (ul_chunks prepared)))) (ul_chunks prepared)) (\<lambda>_.
    publish w upid revision)))"

definition resume_or_publish ::
    "'h upload_world \<Rightarrow> 'h upload \<Rightarrow> bytes \<Rightarrow> int \<Rightarrow> string option \<Rightarrow> int \<Rightarrow> (string, 'h calls) io" where
  "resume_or_publish w prepared iv revision resume current =
    ibind (already_committed w revision current resume) (\<lambda>finished.
    let count = int (length (ul_chunks prepared)) in
    if finished then ibind (call (Progress count count) (\<lambda>_. Inr ())) (\<lambda>_. ret (the resume))
    else
    ibind (iguard ''This backup changed on another device. Reload before saving.'' (current = revision)) (\<lambda>_.
    upload_and_publish w prepared iv revision resume))"

definition save_prepared ::
    "'h upload_world \<Rightarrow> 'h upload \<Rightarrow> bytes \<Rightarrow> int \<Rightarrow> string option \<Rightarrow> (string, 'h calls) io" where
  "save_prepared w prepared iv revision resume =
    ibind (throwIfAborted w) (\<lambda>_.
    ibind (check_resume w prepared iv revision resume) (\<lambda>_.
    ibind (call ReadRevision (uw_revision w)) (\<lambda>current.
    resume_or_publish w prepared iv revision resume current)))"

definition saveEncryptedChunks ::
    "'h::linorder hasher \<Rightarrow> 'h upload_world \<Rightarrow> bytes \<Rightarrow> bytes \<Rightarrow> int \<Rightarrow> string option \<Rightarrow> (string, 'h calls) io" where
  "saveEncryptedChunks H w ciphertext iv revision resume =
    ibind (iguard ''AES-GCM requires a fresh 12-byte nonce.'' (length iv = 12)) (\<lambda>_.
    ibind (lift (preparePrivateUpload H ciphertext)) (\<lambda>prepared.
    save_prepared w prepared iv revision resume))"

subsection \<open>The chunks\<close>

lemma chunk_loop_ok:
  "map fst chunks = [0..<length chunks] \<Longrightarrow>
    \<exists>rest. chunk_loop c offset chunks = chunks @ rest \<and> concat (map snd rest) = drop offset c
      \<and> map fst (chunks @ rest) = [0..<length (chunks @ rest)]
      \<and> (\<forall>d\<in>set rest. snd d \<noteq> [] \<and> length (snd d) \<le> CHUNK_BYTES)
      \<and> (rest \<noteq> [] \<longrightarrow> offset + CHUNK_BYTES * length rest < length c + CHUNK_BYTES)
      \<and> (rest = [] \<longleftrightarrow> length c \<le> offset)"
proof (induction c offset chunks rule: chunk_loop.induct)
  case (1 c offset chunks)
  show ?case
  proof (cases "offset < length c")
    case False
    then show ?thesis using 1(2) by (intro exI [of _ "[]"]) (simp add: chunk_loop.simps)
  next
    case True
    define d where "d = (length chunks, take CHUNK_BYTES (drop offset c))"
    have "map fst (chunks @ [d]) = [0..<length (chunks @ [d])]" using 1(2) by (simp add: d_def)
    from 1(1) [OF True this [unfolded d_def], folded d_def] obtain rest where
      r: "chunk_loop c (offset + CHUNK_BYTES) (chunks @ [d]) = (chunks @ [d]) @ rest"
        "concat (map snd rest) = drop (offset + CHUNK_BYTES) c"
        "map fst ((chunks @ [d]) @ rest) = [0..<length ((chunks @ [d]) @ rest)]"
        "\<forall>d\<in>set rest. snd d \<noteq> [] \<and> length (snd d) \<le> CHUNK_BYTES"
        "rest \<noteq> [] \<longrightarrow> offset + CHUNK_BYTES + CHUNK_BYTES * length rest < length c + CHUNK_BYTES"
      by blast
    have eq: "chunk_loop c offset chunks = chunks @ (d # rest)"
      using r(1) True by (subst chunk_loop.simps) (simp add: d_def)
    have cc: "concat (map snd (d # rest)) = drop offset c"
      using r(2) by (simp add: d_def add.commute flip: drop_drop)
    have dd: "snd d \<noteq> [] \<and> length (snd d) \<le> CHUNK_BYTES"
      using True by (simp add: d_def CHUNK_BYTES_def)
    show ?thesis
      using r(3,4,5) eq cc dd True
      by (intro exI [of _ "d # rest"]) (cases "rest = []"; simp)
  qed
qed

subsection \<open>The tree\<close>

lemma width_from_done: "n \<le> w \<Longrightarrow> width_from w n = w"
  by (subst width_from.simps) simp

lemma width_from_more: "w < n \<Longrightarrow> 0 < w \<Longrightarrow> width_from w n = width_from (2 * w) n"
  by (subst width_from.simps) simp

lemma width_from_power:
  "0 < w \<Longrightarrow> n \<le> width_from w n \<and> (w < n \<longrightarrow> width_from w n < 2 * n) \<and> (\<exists>k. width_from w n = w * 2 ^ k)"
proof (induction w n rule: width_from.induct)
  case (1 w n)
  show ?case
  proof (cases "n \<le> w")
    case True
    then show ?thesis by (simp add: width_from_done exI [of _ 0])
  next
    case False
    then have e: "width_from w n = width_from (2 * w) n" using 1(2) by (intro width_from_more) simp_all
    from 1(1) [OF _] False 1(2) have h: "n \<le> width_from (2 * w) n" "2 * w < n \<longrightarrow> width_from (2 * w) n < 2 * n"
      "\<exists>k. width_from (2 * w) n = 2 * w * 2 ^ k" by simp_all
    from h(3) obtain k where "width_from (2 * w) n = 2 * w * 2 ^ k" by blast
    then have k: "width_from (2 * w) n = w * 2 ^ Suc k" by simp
    have "width_from (2 * w) n < 2 * n"
    proof (cases "2 * w < n")
      case True
      with h(2) show ?thesis by blast
    next
      case nl: False
      then have "width_from (2 * w) n = 2 * w" by (simp add: width_from_done)
      with False show ?thesis by linarith
    qed
    with h(1) k show ?thesis unfolding e by blast
  qed
qed

lemma tree_width_bounds:
  assumes "0 < n" "n \<le> 16"
  shows "n \<le> tree_width n" "\<exists>k\<le>4. tree_width n = 2 ^ k"
proof -
  have h: "n \<le> tree_width n" "1 < n \<longrightarrow> tree_width n < 2 * n" and "\<exists>k. tree_width n = 2 ^ k"
    using width_from_power [of 1 n] by (simp_all add: tree_width_def)
  then obtain k where k: "tree_width n = 2 ^ k" by blast
  have "k \<le> 4"
  proof (cases "1 < n")
    case True
    then have "(2::nat) ^ k < 2 ^ 5" using h(2) assms(2) k by simp
    then show ?thesis by (simp only: power_strict_increasing_iff)
  next
    case False
    then have "n = 1" using assms by simp
    then have "tree_width n = 1" by (simp add: tree_width_def width_from.simps)
    with k have "(2::nat) ^ k = 2 ^ 0" by simp
    then have "k = 0" by (simp only: power_inject_exp)
    then show ?thesis by simp
  qed
  then show "\<exists>k\<le>4. tree_width n = 2 ^ k" using k by blast
  show "n \<le> tree_width n" by (rule h)
qed

text \<open>The interface of the tree: a combination of two nodes that does not depend on their order.\<close>

locale merkle =
  fixes p :: "'h \<Rightarrow> 'h \<Rightarrow> 'h"
  assumes pair_comm: "p a b = p b a"
begin

lemma pair_up_at:
  assumes "i < 2 * k" "length l = 2 * k"
  shows "pair_up p l ! (i div 2) = p (l ! i) (l ! (i XOR 1))"
proof -
  have x: "i XOR 1 = (if even i then i + 1 else i - 1)" by (auto simp add: xor_Suc_0_eq)
  have h: "i div 2 < k" using assms by simp
  show ?thesis
  proof (cases "even i")
    case True
    then have "i div 2 * 2 = i" by simp
    then show ?thesis using assms h x True by (simp add: pair_up_def)
  next
    case False
    then have "i div 2 * 2 = i - 1" by presburger
    moreover have "0 < i" using False by (cases i) simp_all
    ultimately show ?thesis using assms h x False by (simp add: pair_up_def pair_comm)
  qed
qed

lemma path_root:
  "length l = 2 ^ k \<Longrightarrow> i < 2 ^ k \<Longrightarrow>
    foldl p (l ! i) (proof_path (levels_from p l) i) = last (levels_from p l) ! 0
    \<and> length (proof_path (levels_from p l) i) = k"
proof (induction k arbitrary: l i)
  case 0
  then show ?case by (simp add: levels_from.simps)
next
  case (Suc k)
  have len: "length (pair_up p l) = 2 ^ k" using Suc.prems by (simp add: pair_up_def)
  have gt: "1 < length l" using Suc.prems one_less_power [of "2::nat" "Suc k"] by simp
  have i: "i div 2 < 2 ^ k" using Suc.prems by simp
  obtain v vs where v: "levels_from p (pair_up p l) = v # vs"
    by (cases "levels_from p (pair_up p l)") (simp_all add: levels_from.simps split: if_split_asm)
  have l: "levels_from p l = l # v # vs" using gt v by (simp add: levels_from.simps [of p l])
  have at: "p (l ! i) (l ! (i XOR 1)) = pair_up p l ! (i div 2)"
    using pair_up_at [of i "2 ^ k" l] Suc.prems by simp
  show ?case using Suc.IH [OF len i] by (cases vs) (simp_all add: l v at [unfolded One_nat_def])
qed

end

interpretation tree: merkle "pair H" for H :: "'h::linorder hasher"
  by unfold_locales (auto simp add: pair_def)

lemma prepare_ok:
  assumes "preparePrivateUpload H c = Inr u"
  obtains cs levels leaves k where
    "16 \<le> length c" "length c \<le> 65536"
    "concat (map snd cs) = c" "map fst cs = [0..<length cs]" "cs \<noteq> []" "length cs \<le> 16"
    "\<forall>d\<in>set cs. snd d \<noteq> [] \<and> length (snd d) \<le> 4096"
    "length leaves = 2 ^ k" "k \<le> 4" "length cs \<le> 2 ^ k" "levels = levels_from (pair H) leaves"
    "\<forall>i<length leaves. leaves ! i = leaf H (int i) (if i < length cs then snd (cs ! i) else [])"
    "u = \<lparr>ul_size = int (length c), ul_root = last levels ! 0, ul_dataHash = hs_data H c,
       ul_chunks = map (\<lambda>(i, data). \<lparr>ch_index = int i, ch_data = data, ch_proof = proof_path levels i\<rparr>) cs\<rparr>"
proof -
  define cs where "cs = chunk_loop c 0 []"
  define leaves where "leaves = map (\<lambda>i. leaf H (int i) (if i < length cs then snd (cs ! i) else []))
      [0..<tree_width (length cs)]"
  have lo: "16 \<le> length c" and hi: "length c \<le> 65536"
    and u: "u = \<lparr>ul_size = int (length c), ul_root = last (levels_from (pair H) leaves) ! 0,
       ul_dataHash = hs_data H c,
       ul_chunks = map (\<lambda>(i, data). \<lparr>ch_index = int i, ch_data = data,
         ch_proof = proof_path (levels_from (pair H) leaves) i\<rparr>) cs\<rparr>"
    using assms unfolding preparePrivateUpload_def Let_def cs_def [symmetric] leaves_def [symmetric]
    by (auto simp add: MAX_PRIVATE_BYTES_def not_less split: if_split_asm)
  from chunk_loop_ok [of "[]" c 0, folded cs_def] have
    c: "concat (map snd cs) = c" "map fst cs = [0..<length cs]"
      "\<forall>d\<in>set cs. snd d \<noteq> [] \<and> length (snd d) \<le> CHUNK_BYTES"
      "cs \<noteq> [] \<longrightarrow> CHUNK_BYTES * length cs < length c + CHUNK_BYTES" "cs = [] \<longleftrightarrow> length c \<le> 0"
    by (auto simp add: cs_def)
  have ne: "cs \<noteq> []" using c(5) lo by auto
  have n: "length cs \<le> 16" using c(4) ne hi by (simp add: CHUNK_BYTES_def)
  obtain k where k: "k \<le> 4" "tree_width (length cs) = 2 ^ k" and w: "length cs \<le> 2 ^ k"
    using tree_width_bounds [of "length cs"] ne n by (metis length_greater_0_conv)
  show ?thesis
    by (rule that [of cs leaves k "levels_from (pair H) leaves"])
      (use lo hi c ne n k w u in \<open>simp_all add: leaves_def CHUNK_BYTES_def\<close>)
qed

text \<open>C11. Every prepared backup can be uploaded and restored: it has between one and sixteen chunks of at
  most 4096 bytes with consecutive indices, each accepted by the verification of the contract
  against the root, and the chunks together restore the ciphertext.\<close>

theorem private_upload_roundtrip:
  assumes "preparePrivateUpload H ciphertext = Inr u"
  shows "(\<forall>ch\<in>set (ul_chunks u). verifyPrivateChunk H (ul_root u) (ch_index ch) (ch_data ch) (ch_proof ch))
    \<and> map ch_index (ul_chunks u) = map int [0..<length (ul_chunks u)]
    \<and> length (ul_chunks u) \<in> {1..16} \<and> (\<forall>ch\<in>set (ul_chunks u). length (ch_data ch) \<in> {1..4096})
    \<and> restoreCiphertext H (map ch_data (ul_chunks u)) (ul_dataHash u) = Inr ciphertext"
proof (rule prepare_ok [OF assms])
  fix cs levels leaves k
  assume a: "concat (map snd cs) = ciphertext" "map fst cs = [0..<length cs]" "cs \<noteq> []" "length cs \<le> 16"
    "\<forall>d\<in>set cs. snd d \<noteq> [] \<and> length (snd d) \<le> 4096"
    and l: "length leaves = 2 ^ k" "k \<le> 4" "length cs \<le> 2 ^ k" "levels = levels_from (pair H) leaves"
    "\<forall>i<length leaves. leaves ! i = leaf H (int i) (if i < length cs then snd (cs ! i) else [])"
    and u: "u = \<lparr>ul_size = int (length ciphertext), ul_root = last levels ! 0, ul_dataHash = hs_data H ciphertext,
       ul_chunks = map (\<lambda>(i, data). \<lparr>ch_index = int i, ch_data = data, ch_proof = proof_path levels i\<rparr>) cs\<rparr>"
  have fst_at: "fst (cs ! i) = i" if "i < length cs" for i
    using that arg_cong [OF a(2), of "\<lambda>x. x ! i"] by simp
  have ok: "verifyPrivateChunk H (last levels ! 0) (int i) d (proof_path levels i)" if m: "(i, d) \<in> set cs" for i d
  proof -
    obtain j where j: "j < length cs" "cs ! j = (i, d)" using m by (auto simp add: in_set_conv_nth)
    then have i: "i < length cs" "cs ! i = (i, d)" using fst_at by force+
    have "leaves ! i = leaf H (int i) d" using i l(1,3,5) by simp
    moreover have "i < 2 ^ k" using i l(3) by simp
    ultimately show ?thesis
      using tree.path_root [OF l(1), of i H] l(2,4) i a(4) by (simp add: verifyPrivateChunk_def)
  qed
  have cc: "concat (map ch_data (ul_chunks u)) = ciphertext"
    using a(1) by (simp add: u comp_def case_prod_unfold)
  have ix: "map ch_index (ul_chunks u) = map int [0..<length (ul_chunks u)]"
    using arg_cong [OF a(2), of "map int"] by (simp add: u comp_def case_prod_unfold)
  have vs: "\<forall>ch\<in>set (ul_chunks u). verifyPrivateChunk H (ul_root u) (ch_index ch) (ch_data ch) (ch_proof ch)"
    using ok by (auto simp add: u)
  have len: "\<forall>ch\<in>set (ul_chunks u). length (ch_data ch) \<in> {1..4096}"
    using a(5) by (fastforce simp add: u Suc_le_eq)
  have re: "restoreCiphertext H (map ch_data (ul_chunks u)) (ul_dataHash u) = Inr ciphertext"
    by (simp add: restoreCiphertext_def cc) (simp add: u)
  show ?thesis using vs ix len re a(3,4) by (simp add: u Suc_le_eq)
qed

definition sample_hasher :: "int list hasher" where
  "sample_hasher = \<lparr>hs_data = map uint, hs_leaf = (\<lambda>i d. 0 # i # d),
     hs_pair = (\<lambda>a b. 1 # int (length a) # a @ b)\<rparr>"

definition sample_cipher :: bytes where "sample_cipher = replicate 16 7"

lemma sample_prepared:
  "preparePrivateUpload sample_hasher sample_cipher =
    Inr \<lparr>ul_size = 16, ul_root = 0 # 0 # replicate 16 7, ul_dataHash = replicate 16 7,
      ul_chunks = [\<lparr>ch_index = 0, ch_data = sample_cipher, ch_proof = []\<rparr>]\<rparr>"
proof -
  have c: "chunk_loop sample_cipher 0 [] = [(0, sample_cipher)]"
    by (simp add: chunk_loop.simps [of _ 0] chunk_loop.simps [of _ 4096] CHUNK_BYTES_def sample_cipher_def)
  have w: "tree_width 1 = 1" by (simp add: tree_width_def width_from_done)
  have l: "levels_from p [x] = [[x]]" for p :: "int list \<Rightarrow> int list \<Rightarrow> int list" and x
    by (simp add: levels_from.simps)
  show ?thesis unfolding preparePrivateUpload_def c Let_def
    using w by (simp add: l leaf_def sample_hasher_def sample_cipher_def MAX_PRIVATE_BYTES_def)
qed

theorem private_upload_roundtrip_witness:
  "verifyPrivateChunk sample_hasher (0 # 0 # replicate 16 7) 0 sample_cipher []
   \<and> restoreCiphertext sample_hasher [sample_cipher] (replicate 16 7) = Inr sample_cipher"
  using private_upload_roundtrip [OF sample_prepared] by simp

text \<open>The nodes that combinations of a set of leaves can form.\<close>

inductive_set nodes :: "('h \<Rightarrow> 'h \<Rightarrow> 'h) \<Rightarrow> 'h set \<Rightarrow> 'h set" for p L where
  base: "x \<in> L \<Longrightarrow> x \<in> nodes p L"
| join: "a \<in> nodes p L \<Longrightarrow> b \<in> nodes p L \<Longrightarrow> p a b \<in> nodes p L"

lemma levels_nodes:
  "l \<noteq> [] \<Longrightarrow> set l \<subseteq> nodes p L \<Longrightarrow> last (levels_from p l) ! 0 \<in> nodes p L"
proof (induction p l rule: levels_from.induct)
  case (1 p l)
  show ?case
  proof (cases "1 < length l")
    case False
    then show ?thesis using "1.prems" by (subst levels_from.simps) (auto simp add: subset_iff)
  next
    case True
    have at: "l ! i \<in> nodes p L" if "i < length l" for i using that "1.prems" by auto
    have "set (pair_up p l) \<subseteq> nodes p L" by (auto simp add: pair_up_def intro!: nodes.join at)
    moreover have "pair_up p l \<noteq> []" using True by (simp add: pair_up_def)
    ultimately have "last (levels_from p (pair_up p l)) ! 0 \<in> nodes p L" using 1(1) [OF True] by blast
    moreover have "levels_from p (pair_up p l) \<noteq> []" by (simp add: levels_from.simps)
    ultimately show ?thesis using True by (simp add: levels_from.simps [of p l])
  qed
qed

text \<open>No two inputs of the hash function have the same hash.\<close>

definition collision_free :: "'h hasher \<Rightarrow> bool" where
  "collision_free H \<longleftrightarrow> inj (hs_data H) \<and> (\<forall>i d j e. hs_leaf H i d = hs_leaf H j e \<longrightarrow> i = j \<and> d = e)
    \<and> (\<forall>a b c d. hs_pair H a b = hs_pair H c d \<longrightarrow> a = c \<and> b = d)
    \<and> (\<forall>i d a b. hs_leaf H i d \<noteq> hs_pair H a b)"

lemma collision_freeD:
  assumes "collision_free H"
  shows "hs_data H x = hs_data H y \<Longrightarrow> x = y" and "hs_leaf H i d = hs_leaf H j e \<Longrightarrow> i = j \<and> d = e"
    and "hs_pair H a b = hs_pair H c f \<Longrightarrow> a = c \<and> b = f" and "hs_leaf H i d \<noteq> hs_pair H a b"
  using assms unfolding collision_free_def inj_def by blast+

lemma pair_inj:
  assumes "collision_free H" "pair H a b = pair H c d"
  shows "a = c \<and> b = d \<or> a = d \<and> b = c"
  using assms(2) collision_freeD(3) [OF assms(1)] unfolding pair_def by (metis (full_types))

lemma leaf_not_pair: "collision_free H \<Longrightarrow> leaf H i d \<noteq> pair H a b"
  unfolding leaf_def pair_def by (simp add: collision_freeD(4))

lemma leaf_inj: "collision_free H \<Longrightarrow> leaf H i d = leaf H j e \<Longrightarrow> i = j \<and> d = e"
  unfolding leaf_def using collision_freeD(1,2) by metis

lemma climb_from_leaf:
  assumes "collision_free H" "L \<subseteq> range (case_prod (leaf H))"
  shows "foldl (pair H) (leaf H i d) path \<in> nodes (pair H) L \<Longrightarrow> leaf H i d \<in> L"
proof (induction path rule: rev_induct)
  case Nil
  then have "leaf H i d \<in> nodes (pair H) L" by simp
  then show ?case by cases (use leaf_not_pair [OF assms(1)] in auto)
next
  case (snoc s ps)
  let ?x = "foldl (pair H) (leaf H i d) ps"
  have "pair H ?x s \<in> nodes (pair H) L" using snoc.prems by simp
  then have "?x \<in> nodes (pair H) L"
  proof cases
    case base
    then obtain j e where "pair H ?x s = leaf H j e" using assms(2) by auto
    then show ?thesis using leaf_not_pair [OF assms(1), of j e ?x s] by simp
  next
    case (join a b)
    then show ?thesis using pair_inj [OF assms(1) join(1)] by auto
  qed
  then show ?case by (rule snoc.IH)
qed

text \<open>The root authenticates every chunk: with a collision-free hash, whatever proof is given, the
  verification accepts at an index only the chunk the backup has there, and only the empty chunk
  beyond its end.\<close>

theorem private_chunk_authentic:
  assumes "collision_free H" and "preparePrivateUpload H ciphertext = Inr u"
    and "verifyPrivateChunk H (ul_root u) index data path"
  shows "0 \<le> index \<and> data =
    (if index < int (length (ul_chunks u)) then ch_data (ul_chunks u ! nat index) else [])"
proof (rule prepare_ok [OF assms(2)])
  fix cs levels leaves k
  assume l: "length leaves = 2 ^ k" "levels = levels_from (pair H) leaves"
    "\<forall>i<length leaves. leaves ! i = leaf H (int i) (if i < length cs then snd (cs ! i) else [])"
    and u: "u = \<lparr>ul_size = int (length ciphertext), ul_root = last levels ! 0, ul_dataHash = hs_data H ciphertext,
       ul_chunks = map (\<lambda>(i, data). \<lparr>ch_index = int i, ch_data = data, ch_proof = proof_path levels i\<rparr>) cs\<rparr>"
  have ne: "leaves \<noteq> []" using l(1) by auto
  have L: "set leaves \<subseteq> range (case_prod (leaf H))"
  proof
    fix x assume "x \<in> set leaves"
    then obtain i where i: "i < length leaves" "x = leaves ! i" by (metis in_set_conv_nth)
    show "x \<in> range (case_prod (leaf H))"
      by (rule range_eqI [of _ _ "(int i, if i < length cs then snd (cs ! i) else [])"]) (simp add: i l(3))
  qed
  have "last levels ! 0 \<in> nodes (pair H) (set leaves)"
    unfolding l(2) by (rule levels_nodes [OF ne]) (auto intro: nodes.base)
  moreover have f: "foldl (pair H) (leaf H index data) path = last levels ! 0" and "0 \<le> index"
    using assms(3) by (simp_all add: verifyPrivateChunk_def u split: if_split_asm)
  ultimately have "leaf H index data \<in> set leaves" using climb_from_leaf [OF assms(1) L, of index data path] by simp
  then obtain i where i: "i < length leaves" "leaf H index data = leaves ! i" by (metis in_set_conv_nth)
  then have "leaf H index data = leaf H (int i) (if i < length cs then snd (cs ! i) else [])"
    using l(3) by simp
  from leaf_inj [OF assms(1) this] have e: "index = int i" "data = (if i < length cs then snd (cs ! i) else [])"
    by simp_all
  then show ?thesis by (simp add: u case_prod_unfold)
qed

lemma sample_collision_free: "collision_free sample_hasher"
  unfolding collision_free_def sample_hasher_def by (auto simp add: inj_map)

theorem private_chunk_authentic_witness:
  "sample_cipher = ch_data \<lparr>ch_index = 0, ch_data = sample_cipher, ch_proof = []\<rparr>
   \<and> \<not> verifyPrivateChunk sample_hasher (0 # 0 # replicate 16 7) 0 (replicate 16 8) [[1]]"
proof -
  have "verifyPrivateChunk sample_hasher (0 # 0 # replicate 16 7) 0 sample_cipher []"
    by (simp add: verifyPrivateChunk_def leaf_def sample_hasher_def sample_cipher_def)
  from private_chunk_authentic [OF sample_collision_free sample_prepared, simplified, OF this]
  have one: "sample_cipher = ch_data \<lparr>ch_index = 0, ch_data = sample_cipher, ch_proof = []\<rparr>" by simp
  have "replicate 16 8 \<noteq> sample_cipher" by (simp add: sample_cipher_def)
  with private_chunk_authentic [OF sample_collision_free sample_prepared, simplified, of 0 "replicate 16 8" "[[1]]"]
  have "\<not> verifyPrivateChunk sample_hasher (0 # 0 # replicate 16 7) 0 (replicate 16 8) [[1]]" by auto
  with one show ?thesis by blast
qed

subsection \<open>Publication\<close>

definition uncommitted :: "'h calls \<Rightarrow> bool" where
  "uncommitted h \<longleftrightarrow> (\<forall>upid. Commit upid \<notin> set h)"

definition put_calls :: "string \<Rightarrow> int \<Rightarrow> int \<Rightarrow> 'h chunk \<Rightarrow> 'h calls" where
  "put_calls upid bitmap count ch = (if and32 bitmap (shl32 1 (ch_index ch)) = 0 then [Put upid ch] else [])
    @ [Progress (ch_index ch + 1) count]"

lemma keeps_call: "(\<And>upid. c \<noteq> Commit upid) \<Longrightarrow> keeps uncommitted (call c f)"
  by (auto simp add: keeps_def triple_def call_def uncommitted_def split: sum.splits)

lemma keeps_aborted [triple_rules]: "keeps I (throwIfAborted w)"
  by (simp add: keeps_def triple_def throwIfAborted_def)

lemmas save_keeps = triple_rules keeps_call

lemma call_eq: "call c f h = (r, h') \<longleftrightarrow> h' = h @ [c] \<and> r = f (h @ [c])"
  by (auto simp add: call_def)

lemma put_chunk_trace:
  "put_chunk w upid bm n ch h = (Inr u, h') \<Longrightarrow> h' = h @ put_calls upid bm n ch"
  by (auto simp add: put_chunk_def put_calls_def ibind_eq_Inr call_eq throwIfAborted_def io_simps
      split: if_split_asm)

lemma put_chunk_keeps: "keeps uncommitted (put_chunk w upid bm n ch)"
  unfolding put_chunk_def by (intro save_keeps) simp_all

lemma each_put_trace:
  "each (put_chunk w upid bm n) chs h = (Inr u, h') \<Longrightarrow> h' = h @ concat (map (put_calls upid bm n) chs)"
proof (induction chs arbitrary: h)
  case Nil
  then show ?case by (simp add: io_simps)
next
  case (Cons ch chs)
  then obtain x h1 where "put_chunk w upid bm n ch h = (Inr x, h1)"
    and "each (put_chunk w upid bm n) chs h1 = (Inr u, h')" by (auto simp add: ibind_eq_Inr)
  with Cons.IH put_chunk_trace show ?case by fastforce
qed

text \<open>What a history that ends an upload looks like.\<close>

definition published ::
    "'h upload_world \<Rightarrow> 'h upload \<Rightarrow> int \<Rightarrow> string \<Rightarrow> 'h calls \<Rightarrow> bool" where
  "published w prepared revision upid h \<longleftrightarrow> (\<exists>before bitmap puts. uncommitted before
     \<and> last before = ReadBitmap upid \<and> uw_bitmap w before upid = Inr bitmap
     \<and> puts = concat (map (put_calls upid bitmap (int (length (ul_chunks prepared)))) (ul_chunks prepared))
     \<and> h = before @ puts @ [ReadRevision, Commit upid]
     \<and> \<not> uw_aborted w (before @ puts) \<and> uw_revision w (before @ puts @ [ReadRevision]) = Inr revision)"

lemma publish_cases:
  assumes "publish w upid revision h = (r, h')" "uncommitted h"
  shows "uncommitted h' \<and> \<not> is_ok r \<or>
    h' = h @ [ReadRevision, Commit upid] \<and> \<not> uw_aborted w h \<and> uw_revision w (h @ [ReadRevision]) = Inr revision
      \<and> (r = Inr upid \<and> uw_commit w h' upid = Inr () \<or> (\<exists>e. r = Inl e \<and> uw_commit w h' upid = Inl e))"
  using assms
  by (auto simp add: publish_def ibind_def call_def throwIfAborted_def io_simps uncommitted_def
      split: prod.splits sum.splits if_split_asm)

lemma upload_and_publish_cases:
  assumes "upload_and_publish w prepared iv revision resume h0 = (r, h)" "uncommitted h0"
    and fin: "\<not> (uncommitted h \<and> \<not> is_ok r)"
  shows "\<exists>upid. published w prepared revision upid h
      \<and> (r = Inr upid \<and> uw_commit w h upid = Inr () \<or> (\<exists>e. r = Inl e \<and> uw_commit w h upid = Inl e))"
proof -
  let ?n = "int (length (ul_chunks prepared))"
  have k1: "keeps uncommitted (case resume of None \<Rightarrow> call (Begin prepared iv revision) (uw_begin w) | Some upid \<Rightarrow> ret upid)"
    by (intro save_keeps) simp
  obtain upid h1 where u1: "uncommitted h1"
    and rest: "ibind (call (ReadBitmap upid) (\<lambda>h. uw_bitmap w h upid)) (\<lambda>bitmap.
      ibind (each (put_chunk w upid bitmap ?n) (ul_chunks prepared)) (\<lambda>_. publish w upid revision)) h1 = (r, h)"
    using ibind_keeps_ok [OF assms(1) [unfolded upload_and_publish_def] k1 assms(2) fin] by (elim exE conjE)
  let ?b = "h1 @ [ReadBitmap upid]"
  have k2: "keeps uncommitted (call (ReadBitmap upid) (\<lambda>h. uw_bitmap w h upid))" by (rule keeps_call) simp
  obtain bm h2 where bm: "call (ReadBitmap upid) (\<lambda>h. uw_bitmap w h upid) h1 = (Inr bm, h2)" and u2: "uncommitted h2"
    and rest: "ibind (each (put_chunk w upid bm ?n) (ul_chunks prepared)) (\<lambda>_. publish w upid revision) h2 = (r, h)"
    using ibind_keeps_ok [OF rest k2 u1 fin] by (elim exE conjE)
  have h2: "h2 = ?b" "uw_bitmap w ?b upid = Inr bm" using bm by (auto simp add: call_def)
  have k3: "keeps uncommitted (each (put_chunk w upid bm ?n) (ul_chunks prepared))"
    by (intro triple_rules put_chunk_keeps)
  obtain x h3 where l: "each (put_chunk w upid bm ?n) (ul_chunks prepared) h2 = (Inr x, h3)" and u3: "uncommitted h3"
    and p: "publish w upid revision h3 = (r, h)"
    using ibind_keeps_ok [OF rest k3 u2 fin] by (elim exE conjE)
  have h3: "h3 = ?b @ concat (map (put_calls upid bm ?n) (ul_chunks prepared))"
    using each_put_trace [OF l] h2 by simp
  have pub: "published w prepared revision upid h"
    if "h = h3 @ [ReadRevision, Commit upid]" "\<not> uw_aborted w h3"
      "uw_revision w (h3 @ [ReadRevision]) = Inr revision"
    unfolding published_def
    by (rule exI [of _ ?b], rule exI [of _ bm], rule exI, intro conjI h2 u2 [unfolded h2] refl)
      (use that h3 in simp_all)
  from publish_cases [OF p u3] pub fin show ?thesis by blast
qed

lemma resume_or_publish_cases:
  assumes "resume_or_publish w prepared iv revision resume current h0 = (r, h)" "uncommitted h0"
    and fin: "\<not> (uncommitted h \<and> \<not> is_ok r)"
  shows "(\<exists>upid. published w prepared revision upid h
      \<and> (r = Inr upid \<and> uw_commit w h upid = Inr () \<or> (\<exists>e. r = Inl e \<and> uw_commit w h upid = Inl e)))
    \<or> (\<exists>upid a. r = Inr upid \<and> resume = Some upid \<and> uncommitted h \<and> current = revision + 1
       \<and> uw_current w a = Inr upid)"
proof -
  have k: "keeps uncommitted (already_committed w revision current resume)"
    unfolding already_committed_def by (intro save_keeps) simp_all
  obtain finished h1 where s1: "already_committed w revision current resume h0 = (Inr finished, h1)"
    and u1: "uncommitted h1" and rest: "(let count = int (length (ul_chunks prepared)) in
      if finished then ibind (call (Progress count count) (\<lambda>_. Inr ())) (\<lambda>_. ret (the resume))
      else ibind (iguard ''This backup changed on another device. Reload before saving.'' (current = revision)) (\<lambda>_.
        upload_and_publish w prepared iv revision resume)) h1 = (r, h)"
    using ibind_keeps_ok [OF assms(1) [unfolded resume_or_publish_def] k assms(2) fin] by (elim exE conjE)
  show ?thesis
  proof (cases finished)
    case True
    then have r: "r = Inr (the resume)" "uncommitted h"
      using rest u1 by (auto simp add: Let_def ibind_def call_def io_simps uncommitted_def)
    have "\<exists>upid a. resume = Some upid \<and> current = revision + 1 \<and> uw_current w a = Inr upid"
      using s1 True unfolding already_committed_def
      by (auto simp add: ibind_eq_Inr call_def io_simps split: option.splits if_split_asm)
    with r show ?thesis by auto
  next
    case False
    show ?thesis
    proof (cases "current = revision")
      case True
      then have "upload_and_publish w prepared iv revision resume h1 = (r, h)"
        using rest False by (simp add: Let_def ibind_def io_simps)
      from upload_and_publish_cases [OF this u1 fin] show ?thesis by blast
    next
      case ne: False
      then have "r = Inl ''This backup changed on another device. Reload before saving.'' \<and> h = h1"
        using rest False by (auto simp add: Let_def ibind_def io_simps)
      then show ?thesis using fin u1 by simp
    qed
  qed
qed

lemma save_cases:
  assumes "saveEncryptedChunks H w ciphertext iv revision resume h0 = (r, h)" "uncommitted h0"
    and fin: "\<not> (uncommitted h \<and> \<not> is_ok r)"
  shows "length iv = 12 \<and>
    ((\<exists>prepared upid. preparePrivateUpload H ciphertext = Inr prepared \<and> published w prepared revision upid h
      \<and> (r = Inr upid \<and> uw_commit w h upid = Inr () \<or> (\<exists>e. r = Inl e \<and> uw_commit w h upid = Inl e)))
    \<or> (\<exists>upid a b. r = Inr upid \<and> resume = Some upid \<and> uncommitted h
       \<and> uw_revision w a = Inr (revision + 1) \<and> uw_current w b = Inr upid))"
proof -
  obtain x1 h1 where s1: "iguard ''AES-GCM requires a fresh 12-byte nonce.'' (length iv = 12) h0 = (Inr x1, h1)"
    and u1: "uncommitted h1" and r1: "ibind (lift (preparePrivateUpload H ciphertext)) (\<lambda>prepared. save_prepared w prepared iv revision resume) h1 = (r, h)"
    using ibind_keeps_ok [OF assms(1) [unfolded saveEncryptedChunks_def] keeps_basic(4) assms(2) fin] by (elim exE conjE)
  have iv: "length iv = 12" using s1 by (simp add: io_simps split: if_split_asm)
  obtain prepared h' where p': "lift (preparePrivateUpload H ciphertext) h1 = (Inr prepared, h')"
    and u': "uncommitted h'" and r2: "save_prepared w prepared iv revision resume h' = (r, h)"
    using ibind_keeps_ok [OF r1 keeps_basic(3) u1 fin] by (elim exE conjE)
  have p: "preparePrivateUpload H ciphertext = Inr prepared" using p' by (simp add: io_simps)
  obtain x2 h2 where u2: "uncommitted h2" and r3: "ibind (check_resume w prepared iv revision resume) (\<lambda>_.
      ibind (call ReadRevision (uw_revision w)) (resume_or_publish w prepared iv revision resume)) h2 = (r, h)"
    using ibind_keeps_ok [OF r2 [unfolded save_prepared_def] keeps_aborted u' fin] by (elim exE conjE)
  have kc: "keeps uncommitted (check_resume w prepared iv revision resume)"
    unfolding check_resume_def by (intro save_keeps) simp_all
  obtain x3 h3 where u3: "uncommitted h3"
    and r4: "ibind (call ReadRevision (uw_revision w)) (resume_or_publish w prepared iv revision resume) h3 = (r, h)"
    using ibind_keeps_ok [OF r3 kc u2 fin] by (elim exE conjE)
  have kr: "keeps uncommitted (call ReadRevision (uw_revision w))" by (rule keeps_call) simp
  obtain current h4 where c: "call ReadRevision (uw_revision w) h3 = (Inr current, h4)" and u4: "uncommitted h4"
    and r5: "resume_or_publish w prepared iv revision resume current h4 = (r, h)"
    using ibind_keeps_ok [OF r4 kr u3 fin] by (elim exE conjE)
  have "\<exists>a. uw_revision w a = Inr current" using c by (auto simp add: call_def)
  with resume_or_publish_cases [OF r5 u4 fin] p iv show ?thesis by blast
qed

text \<open>C10. A backup is published by one commit or not at all.  Whatever the other side answers: if a save
  commits, the commit is its last call, right after the head was read back at the revision the
  save was based on and no abort was requested; before it every chunk the contract did not report
  as stored was put, in order.  A save that returns has committed, or resumes an upload the
  contract already has as the head at the next revision.\<close>

theorem save_publishes_once:
  assumes "saveEncryptedChunks H w ciphertext iv revision resume [] = (r, h)"
  shows "(\<forall>upid. Commit upid \<in> set h \<longrightarrow> (\<exists>prepared.
      preparePrivateUpload H ciphertext = Inr prepared \<and> published w prepared revision upid h))
    \<and> (\<forall>upid. r = Inr upid \<longrightarrow> length iv = 12 \<and>
      (Commit upid \<in> set h \<and> uw_commit w h upid = Inr ()
       \<or> resume = Some upid \<and> uncommitted h
         \<and> (\<exists>a b. uw_revision w a = Inr (revision + 1) \<and> uw_current w b = Inr upid)))"
proof (cases "uncommitted h \<and> \<not> is_ok r")
  case True
  then show ?thesis by (auto simp add: uncommitted_def)
next
  case False
  have one: "upid = upid'" if "published w p revision upid h" "Commit upid' \<in> set h" for p upid upid'
    using that by (auto simp add: published_def uncommitted_def put_calls_def split: if_split_asm)
  have has: "Commit upid \<in> set h" if "published w p revision upid h" for p upid
    using that by (auto simp add: published_def)
  have "uncommitted []" by (simp add: uncommitted_def)
  from save_cases [OF assms this False] show ?thesis
  proof (elim conjE disjE exE)
    fix prepared upid
    assume p: "preparePrivateUpload H ciphertext = Inr prepared" "published w prepared revision upid h"
      and a: "length iv = 12" "r = Inr upid" "uw_commit w h upid = Inr ()"
    have "\<forall>x. Commit x \<in> set h \<longrightarrow> x = upid" using one [OF p(2)] by blast
    with p a has [OF p(2)] show ?thesis by blast
  next
    fix prepared upid e
    assume p: "preparePrivateUpload H ciphertext = Inr prepared" "published w prepared revision upid h"
      and a: "r = Inl e"
    have "\<forall>x. Commit x \<in> set h \<longrightarrow> x = upid" using one [OF p(2)] by blast
    with p a show ?thesis by blast
  next
    fix upid a b
    assume "length iv = 12" "r = Inr upid" "resume = Some upid" "uncommitted h"
      "uw_revision w a = Inr (revision + 1)" "uw_current w b = Inr upid"
    then show ?thesis unfolding uncommitted_def by blast
  qed
qed

definition sample_world :: "int list upload_world" where
  "sample_world = \<lparr>uw_player = ''0xA'', uw_namespace = ''0x1'', uw_upload = (\<lambda>h i. Inl ''no upload''),
     uw_revision = (\<lambda>h. Inr 5), uw_current = (\<lambda>h. Inr ''0x0''), uw_begin = (\<lambda>h. Inr ''0x9''),
     uw_bitmap = (\<lambda>h i. Inr 0), uw_put = (\<lambda>h i c. Inr ()), uw_commit = (\<lambda>h i. Inr ()),
     uw_aborted = (\<lambda>h. False)\<rparr>"

theorem save_publishes_once_witness:
  "\<exists>h. saveEncryptedChunks sample_hasher sample_world sample_cipher (replicate 12 0) 5 None [] = (Inr ''0x9'', h)
    \<and> last h = Commit ''0x9'' \<and> uw_commit sample_world h ''0x9'' = Inr ()"
proof -
  have "fst (saveEncryptedChunks sample_hasher sample_world sample_cipher (replicate 12 0) 5 None []) = Inr ''0x9''"
    "last (snd (saveEncryptedChunks sample_hasher sample_world sample_cipher (replicate 12 0) 5 None [])) = Commit ''0x9''"
    by (simp_all add: saveEncryptedChunks_def sample_prepared save_prepared_def check_resume_def
        resume_or_publish_def already_committed_def upload_and_publish_def publish_def put_chunk_def
        throwIfAborted_def call_def ibind_def io_simps sample_world_def and32_def)
  then obtain h where h: "saveEncryptedChunks sample_hasher sample_world sample_cipher (replicate 12 0) 5 None []
      = (Inr ''0x9'', h)" "last h = Commit ''0x9''" by (metis prod.collapse)
  from save_publishes_once [OF h(1)] h show ?thesis by auto
qed

end
