(* ===== verification/Authority_Keeper.thy ===== *)
theory Authority_Keeper
  imports Js_Text "HOL-Library.Countable"
begin

text \<open>
  \<^verbatim>\<open>relayer/src/authority-keeper.ts\<close>: the maintenance calls of the arcade and the executor that
  submits each at most once at a time.  The ABI encoder (of a function name and its arguments) and
  the hash are arguments.  The executor is a transition system: any number of requests are in
  flight, each waits for the answer of the port call it has made, and the port answers in any
  order.
\<close>

datatype maintenance = Matchmake int int | Propose int int | Tick int int
  | ExpireProposal int | ExpireRoom int | FinalizeResult int
  | BeginRecoveryTask | FinishRecoveryTask | CloseSessionTask int
  | FreezeCheckpoint int int | OpenRound int int | Claim int string | RetryPayout string int

record authority_targets =
  at_chainId :: int
  at_generation :: int
  at_game :: string
  at_finance :: string
  at_market :: string

datatype abi_arg = Num int | Text string

record maintenance_call =
  mc_to :: string
  mc_data :: string
  mc_value :: int
  mc_requestId :: string

definition call_target :: "authority_targets \<Rightarrow> maintenance \<Rightarrow> string" where
  "call_target t task = (case task of FreezeCheckpoint _ _ \<Rightarrow> at_finance t | OpenRound _ _ \<Rightarrow> at_finance t
     | FinalizeResult _ \<Rightarrow> at_finance t | Claim _ _ \<Rightarrow> at_market t | RetryPayout _ _ \<Rightarrow> at_market t
     | _ \<Rightarrow> at_game t)"

fun call_arguments :: "maintenance \<Rightarrow> (string \<times> abi_arg list) res" where
  "call_arguments (Matchmake mode revision) = Inr (''matchmake'', [Num mode, Num 32])"
| "call_arguments BeginRecoveryTask = Inr (''beginRecovery'', [])"
| "call_arguments FinishRecoveryTask = Inr (''finishRecovery'', [])"
| "call_arguments (CloseSessionTask epoch) =
     (if epoch \<le> 0 then Inl ''A published delegation epoch is required.''
      else Inr (''closeCompletedSession'', [Num epoch]))"
| "call_arguments (FreezeCheckpoint i rally) = Inr (''freezeCheckpoint'', [Num i, Num rally])"
| "call_arguments (OpenRound i rally) = Inr (''openRound'', [Num i])"
| "call_arguments (FinalizeResult i) = Inr (''finalizeResult'', [Num i])"
| "call_arguments (Claim i beneficiary) = Inr (''claim'', [Num i, Text beneficiary])"
| "call_arguments (RetryPayout h attempt) = Inr (''retryPayout'', [Text h])"
| "call_arguments (Propose i revision) = Inr (''propose'', [Num i])"
| "call_arguments (Tick i revision) = Inr (''tick'', [Num i])"
| "call_arguments (ExpireProposal i) = Inr (''expireProposal'', [Num i])"
| "call_arguments (ExpireRoom i) = Inr (''expireRoom'', [Num i])"

definition task_cycle :: "maintenance \<Rightarrow> string" where
  "task_cycle task = (case task of Matchmake _ revision \<Rightarrow> decimal revision | Propose _ revision \<Rightarrow> decimal revision
     | Tick _ revision \<Rightarrow> decimal revision | RetryPayout _ attempt \<Rightarrow> decimal attempt
     | FreezeCheckpoint _ rally \<Rightarrow> decimal rally | OpenRound _ rally \<Rightarrow> decimal rally | _ \<Rightarrow> ''once'')"

definition request_text :: "authority_targets \<Rightarrow> string \<Rightarrow> string \<Rightarrow> string \<Rightarrow> string" where
  "request_text t target data cycle = decimal (at_chainId t) @ '':'' @ lower target @ '':'' @ decimal (at_generation t)
     @ '':'' @ data @ '':'' @ cycle"

definition maintenanceCall ::
    "(string \<Rightarrow> string) \<Rightarrow> (string \<Rightarrow> abi_arg list \<Rightarrow> string) \<Rightarrow> authority_targets \<Rightarrow> maintenance
     \<Rightarrow> maintenance_call res" where
  "maintenanceCall keccak encode t task =
    rbind (call_arguments task) (\<lambda>(name, args).
      let data = encode name args; target = call_target t task in
      Inr \<lparr>mc_to = target, mc_data = data, mc_value = 0,
        mc_requestId = keccak (request_text t target data (task_cycle task))\<rparr>)"

subsection \<open>The executor\<close>

datatype journal_state = Missing | Uncertain | Submitted | Confirmed | Failed












subsection \<open>Request ids\<close>

text \<open>Addresses and hashes count up to the case of their digits.\<close>

fun same_arg :: "abi_arg \<Rightarrow> abi_arg \<Rightarrow> bool" where
  "same_arg (Num a) (Num b) \<longleftrightarrow> a = b"
| "same_arg (Text a) (Text b) \<longleftrightarrow> lower a = lower b"
| "same_arg _ _ \<longleftrightarrow> False"

fun same_task :: "maintenance \<Rightarrow> maintenance \<Rightarrow> bool" where
  "same_task (Claim i a) (Claim j b) \<longleftrightarrow> i = j \<and> lower a = lower b"
| "same_task (RetryPayout h a) (RetryPayout k b) \<longleftrightarrow> lower h = lower k \<and> a = b"
| "same_task s t \<longleftrightarrow> s = t"

text \<open>What an ABI encoder with selectors does: its output is hexadecimal text, and it determines the
  function and the arguments.\<close>

definition faithful_encoder :: "(string \<Rightarrow> abi_arg list \<Rightarrow> string) \<Rightarrow> bool" where
  "faithful_encoder encode \<longleftrightarrow> (\<forall>f xs. CHR '':'' \<notin> set (encode f xs))
    \<and> (\<forall>f xs g ys. encode f xs = encode g ys \<longrightarrow> f = g \<and> list_all2 same_arg xs ys)"

lemma cycle_no_colon: "CHR '':'' \<notin> set (task_cycle task)"
  by (cases task) (simp_all add: task_cycle_def decimal_no_colon)

lemma same_task_by_parts:
  assumes "call_arguments s = Inr (f, xs)" "call_arguments t = Inr (f, ys)" "list_all2 same_arg xs ys"
    and "task_cycle s = task_cycle t"
  shows "same_task s t"
  using assms by (cases s; cases t) (auto simp add: task_cycle_def decimal_inj split: if_split_asm)

text \<open>A request id stands for one task in one observed state: under a faithful encoder and a
  collision-free hash, two calls of the same deployment have the same request id only if they are
  the same task, observed in the same cycle.\<close>

theorem request_id_binds_task:
  assumes "inj keccak" and "faithful_encoder encode"
    and "maintenanceCall keccak encode t task = Inr c" and "maintenanceCall keccak encode t task' = Inr c'"
    and "mc_requestId c = mc_requestId c'"
  shows "same_task task task' \<and> mc_data c = mc_data c'"
proof -
  obtain f xs where a: "call_arguments task = Inr (f, xs)" "mc_data c = encode f xs"
    and i: "mc_requestId c = keccak (request_text t (call_target t task) (encode f xs) (task_cycle task))"
    using assms(3) by (auto simp add: maintenanceCall_def res_simps Let_def split: prod.splits)
  obtain g ys where b: "call_arguments task' = Inr (g, ys)" "mc_data c' = encode g ys"
    and j: "mc_requestId c' = keccak (request_text t (call_target t task') (encode g ys) (task_cycle task'))"
    using assms(4) by (auto simp add: maintenanceCall_def res_simps Let_def split: prod.splits)
  define pre where "pre k = decimal (at_chainId t) @ '':'' @ lower (call_target t k) @ '':'' @ decimal (at_generation t)"
    for k
  have "request_text t (call_target t task) (encode f xs) (task_cycle task)
      = request_text t (call_target t task') (encode g ys) (task_cycle task')"
    using assms(1,5) i j by (simp add: inj_eq)
  then have "(pre task @ CHR '':'' # encode f xs) @ CHR '':'' # task_cycle task
      = (pre task' @ CHR '':'' # encode g ys) @ CHR '':'' # task_cycle task'"
    by (simp add: request_text_def pre_def)
  from split_last_part [OF this cycle_no_colon cycle_no_colon]
  have e: "pre task @ CHR '':'' # encode f xs = pre task' @ CHR '':'' # encode g ys"
    and cyc: "task_cycle task = task_cycle task'" by simp_all
  from split_last_part [OF e] assms(2) have d: "encode f xs = encode g ys" by (simp add: faithful_encoder_def)
  with assms(2) have "f = g" "list_all2 same_arg xs ys" by (auto simp add: faithful_encoder_def)
  then show ?thesis using same_task_by_parts a b cyc d by auto
qed

text \<open>An encoder and a hash for the witness: the number of the call in an enumeration of all calls.\<close>

instance abi_arg :: countable
  by countable_datatype

definition lower_arg :: "abi_arg \<Rightarrow> abi_arg" where
  "lower_arg a = (case a of Num n \<Rightarrow> Num n | Text s \<Rightarrow> Text (lower s))"

definition sample_encode :: "string \<Rightarrow> abi_arg list \<Rightarrow> string" where
  "sample_encode f xs = decimal (int (to_nat (f, map lower_arg xs)))"

lemma lower_arg_same: "lower_arg a = lower_arg b \<Longrightarrow> same_arg a b"
  by (cases a; cases b) (simp_all add: lower_arg_def)

lemma sample_encode_faithful: "faithful_encoder sample_encode"
proof -
  have "list_all2 same_arg xs ys" if "map lower_arg xs = map lower_arg ys" for xs ys
    using that lower_arg_same by (induction xs arbitrary: ys) (auto simp add: Cons_eq_map_conv)
  then show ?thesis
    by (auto simp add: faithful_encoder_def sample_encode_def decimal_no_colon decimal_inj)
qed

definition sample_targets :: authority_targets where
  "sample_targets = \<lparr>at_chainId = 10143, at_generation = 2, at_game = ''0xA'', at_finance = ''0xB'', at_market = ''0xC''\<rparr>"

theorem request_id_binds_task_witness:
  "\<exists>c c'. maintenanceCall id sample_encode sample_targets (Claim 3 ''0xAb'') = Inr c
    \<and> maintenanceCall id sample_encode sample_targets (Claim 3 ''0xaB'') = Inr c' \<and> mc_data c = mc_data c'"
proof -
  let ?c = "maintenanceCall id sample_encode sample_targets (Claim 3 ''0xAb'')"
  have e: "sample_encode ''claim'' [Num 3, Text ''0xAb''] = sample_encode ''claim'' [Num 3, Text ''0xaB'']"
  proof -
    have "lower ''0xAb'' = lower ''0xaB''" by code_simp
    then show ?thesis by (simp add: sample_encode_def lower_arg_def)
  qed
  then obtain c where c: "?c = Inr c" and c': "maintenanceCall id sample_encode sample_targets (Claim 3 ''0xaB'') = Inr c"
    by (simp add: maintenanceCall_def call_target_def task_cycle_def Let_def)
  from request_id_binds_task [OF inj_on_id sample_encode_faithful c c' refl] c c' show ?thesis by blast
qed

subsection \<open>Submissions\<close>








end
