(* ===== verification/Chaos_Draw.thy ===== *)
theory Chaos_Draw
  imports Chaos_Effects
begin

text \<open>
  \<^verbatim>\<open>shared/chaos-draw.ts\<close>: the draw of an event from verified randomness.
  A 32-byte \<^verbatim>\<open>Hex\<close> is its number, below \<open>2 ^ 256\<close>.  The hash of the
  encoded commitment, of a named field and of a rejected value is the argument \<open>draw_hash\<close>.
\<close>

definition DRAND_GENESIS :: int where "DRAND_GENESIS = 1727521075"
definition DRAND_PERIOD :: int where "DRAND_PERIOD = 3"

record draw_request =
  dr_app :: int
  dr_epoch :: int
  dr_matchId :: int
  dr_index :: int
  dr_round :: int
  dr_excluded :: int

record draw_hash =
  dh_commit :: "draw_request \<Rightarrow> int"
  dh_field :: "int \<Rightarrow> int \<Rightarrow> string \<Rightarrow> int"
  dh_again :: "int \<Rightarrow> int \<Rightarrow> int"

definition chaosDrawCommitment :: "draw_hash \<Rightarrow> draw_request \<Rightarrow> int res" where
  "chaosDrawCommitment H r =
    (if dr_app r = 0 \<or> dr_epoch r = 0 \<or> dr_matchId r = 0 \<or> dr_round r = 0
     then Inl ''Invalid draw context'' else Inr (dh_commit H r))"

text \<open>Rejection sampling: at most eight values are tried, the values below \<open>2 ^ 256 mod bound\<close> are
  rejected.  \<open>uniform_loop\<close> is the loop from an attempt on.\<close>

function uniform_loop :: "draw_hash \<Rightarrow> int \<Rightarrow> int \<Rightarrow> int \<Rightarrow> int \<Rightarrow> int res" where
  "uniform_loop H seed bound attempt n =
    (if attempt < 8 then
       if n \<ge> 2 ^ 256 mod bound then Inr (n mod bound)
       else uniform_loop H seed bound (attempt + 1) (dh_again H seed attempt)
     else Inl ''Invalid draw context'')"
  by auto
termination by (relation "measure (\<lambda>(H, seed, bound, attempt, n). nat (8 - attempt))") auto

declare uniform_loop.simps [simp del]

definition uniform :: "draw_hash \<Rightarrow> int \<Rightarrow> int \<Rightarrow> int res" where
  "uniform H seed bound = uniform_loop H seed bound 0 seed"

definition available :: "int \<Rightarrow> chaos_event list" where
  "available excluded = filter (\<lambda>e. and32 excluded (shl32 1 (ce_id e - 1)) = 0) chaosEvents"

definition total_weight :: "chaos_event list \<Rightarrow> int" where
  "total_weight es = foldl (\<lambda>s e. s + ce_weight e) 0 es"

fun choose_event :: "chaos_event list \<Rightarrow> int \<Rightarrow> int option" where
  "choose_event [] choice = None"
| "choose_event (e # es) choice =
     (if choice < ce_weight e then Some (ce_id e) else choose_event es (choice - ce_weight e))"

record chaos_draw =
  dw_eventId :: int
  dw_target :: int
  dw_variant :: int
  dw_intervalMs :: int

definition deriveChaosDraw :: "draw_hash \<Rightarrow> draw_request \<Rightarrow> int \<Rightarrow> int \<Rightarrow> chaos_draw res" where
  "deriveChaosDraw H r stored verifiedRandomness =
    rbind (chaosDrawCommitment H r) (\<lambda>c.
    rbind (guard ''Invalid draw context'' (c = stored)) (\<lambda>_.
    let es = available (dr_excluded r); sum = total_weight es; field = dh_field H c verifiedRandomness in
    rbind (guard ''Invalid draw context'' (sum \<noteq> 0)) (\<lambda>_.
    rbind (uniform H (field ''event'') sum) (\<lambda>choice.
    case choose_event es choice of None \<Rightarrow> Inl ''Invalid draw context''
    | Some i \<Rightarrow>
      rbind (uniform H (field ''interval'') 401) (\<lambda>tens.
      Inr \<lparr>dw_eventId = i, dw_target = field ''target'' AND 1, dw_variant = field ''variant'' AND 4294967295,
        dw_intervalMs = 8000 + 10 * tens\<rparr>)))))"

definition drandRoundAfter :: "int \<Rightarrow> int" where
  "drandRoundAfter timestamp =
    (if timestamp < DRAND_GENESIS then 1 else tdiv (timestamp - DRAND_GENESIS) DRAND_PERIOD + 2)"

subsection \<open>Properties\<close>

definition hash_bounded :: "draw_hash \<Rightarrow> bool" where
  "hash_bounded H \<longleftrightarrow> (\<forall>c v name. 0 \<le> dh_field H c v name \<and> dh_field H c v name < 2 ^ 256)
    \<and> (\<forall>s a. 0 \<le> dh_again H s a \<and> dh_again H s a < 2 ^ 256)"

lemma uniform_loop_range:
  "uniform_loop H seed bound attempt n = Inr v \<Longrightarrow> 0 < bound \<Longrightarrow> 0 \<le> v \<and> v < bound"
proof (induction H seed bound attempt n rule: uniform_loop.induct)
  case (1 H seed bound attempt n)
  from 1(2) show ?case
    using 1(1,3) by (subst (asm) uniform_loop.simps) (auto split: if_split_asm)
qed

lemma uniform_range: "uniform H seed bound = Inr v \<Longrightarrow> 0 < bound \<Longrightarrow> 0 \<le> v \<and> v < bound"
  unfolding uniform_def by (rule uniform_loop_range)

lemma uniform_first: "0 \<le> n \<Longrightarrow> 2 ^ 256 mod bound \<le> n \<Longrightarrow> uniform H n bound = Inr (n mod bound)"
  by (simp add: uniform_def uniform_loop.simps)

text \<open>The accepted values are whole periods of the bound, so each remainder is hit equally often.\<close>

lemma residue_in_period:
  fixes a b k :: int
  assumes "0 < b" "0 \<le> k" "k < b"
  shows "\<exists>x. a \<le> x \<and> x < a + b \<and> x mod b = k \<and> (\<forall>n. a \<le> n \<and> n < a + b \<and> n mod b = k \<longrightarrow> n = x)"
proof -
  define x where "x = a + (k - a) mod b"
  have r: "0 \<le> (k - a) mod b" "(k - a) mod b < b" using assms(1) by (rule pos_mod_sign, rule_tac pos_mod_bound)
  have "x mod b = (a + (k - a)) mod b" unfolding x_def by (rule mod_add_right_eq)
  then have m: "x mod b = k" using assms(2,3) by (simp add: mod_pos_pos_trivial)
  have "n = x" if n: "a \<le> n" "n < a + b" "n mod b = k" for n
  proof -
    have "(n - x) mod b = 0" using n(3) m by (metis mod_eq_dvd_iff mod_0_imp_dvd dvd_imp_mod_0)
    then have "b dvd n - x" by (rule mod_0_imp_dvd)
    moreover have "\<bar>n - x\<bar> < b" using n r unfolding x_def by linarith
    ultimately show ?thesis using zdvd_not_zless [of "\<bar>n - x\<bar>" b] by (cases "n = x") auto
  qed
  then show ?thesis using r m by (intro exI [of _ x]) (simp add: x_def)
qed

lemma residues_in_periods:
  fixes m b k :: int
  assumes "0 < b" "0 \<le> k" "k < b"
  shows "card {n \<in> {m..<m + int q * b}. n mod b = k} = q"
proof (induction q)
  case 0
  then show ?case by simp
next
  case (Suc q)
  let ?a = "m + int q * b"
  have e: "m + int (Suc q) * b = ?a + b" by (simp add: algebra_simps)
  have le: "m \<le> ?a" using assms(1) by simp
  obtain x where x: "?a \<le> x" "x < ?a + b" "x mod b = k"
    and only: "\<And>n. ?a \<le> n \<Longrightarrow> n < ?a + b \<Longrightarrow> n mod b = k \<Longrightarrow> n = x"
    using residue_in_period [OF assms, of ?a] by blast
  have s: "{n \<in> {m..<m + int (Suc q) * b}. n mod b = k} = insert x {n \<in> {m..<?a}. n mod b = k}"
  proof (rule set_eqI)
    fix n
    show "n \<in> {n \<in> {m..<m + int (Suc q) * b}. n mod b = k} \<longleftrightarrow> n \<in> insert x {n \<in> {m..<?a}. n mod b = k}"
      unfolding e using x only [of n] order_trans [OF le x(1)] assms(1) by (cases "?a \<le> n") auto
  qed
  have "x \<notin> {n \<in> {m..<?a}. n mod b = k}" using x(1) by simp
  moreover have "finite {n \<in> {m..<?a}. n mod b = k}" by (rule finite_subset [of _ "{m..<?a}"]) auto
  ultimately show ?case unfolding s using Suc.IH by (metis card_insert_disjoint)
qed

lemma choose_event_available:
  "choose_event es choice = Some i \<Longrightarrow> \<exists>e\<in>set es. ce_id e = i"
  by (induction es choice rule: choose_event.induct) (auto split: if_split_asm)

lemma choose_event_some:
  "0 \<le> choice \<Longrightarrow> choice < sum_list (map ce_weight es) \<Longrightarrow> \<exists>i. choose_event es choice = Some i"
  by (induction es choice rule: choose_event.induct) auto

lemma total_weight_sum: "total_weight es = sum_list (map ce_weight es)"
proof -
  have "foldl (\<lambda>s e. s + ce_weight e) a es = a + sum_list (map ce_weight es)" for a
    by (induction es arbitrary: a) simp_all
  then show ?thesis by (simp add: total_weight_def)
qed

lemma catalogue_weights: "list_all (\<lambda>e. 1 \<le> ce_id e \<and> ce_id e \<le> 24 \<and> 0 < ce_weight e) chaosEvents"
  by code_simp

lemma weights_nonneg: "0 \<le> total_weight (available x)"
  using catalogue_weights
  by (auto simp add: total_weight_sum available_def list_all_iff less_imp_le intro!: sum_list_nonneg)

text \<open>A draw is valid: it belongs to the stored commitment, its event is one of the catalogue that is
  not excluded, its target is a side, its variant a 32-bit number, and the next draw is due in
  8.00 to 12.00 seconds in steps of ten milliseconds.\<close>

theorem chaos_draw_valid:
  assumes "hash_bounded H" and "deriveChaosDraw H r stored randomness = Inr d"
  shows "chaosDrawCommitment H r = Inr stored
    \<and> (\<exists>e\<in>set chaosEvents. ce_id e = dw_eventId d \<and> and32 (dr_excluded r) (shl32 1 (ce_id e - 1)) = 0)
    \<and> dw_target d \<in> {0, 1} \<and> dw_variant d \<in> {0..4294967295}
    \<and> dw_intervalMs d \<in> {8000..12000} \<and> dw_intervalMs d mod 10 = 0"
proof -
  from assms(2) obtain i tens choice where c: "chaosDrawCommitment H r = Inr stored"
    and i: "choose_event (available (dr_excluded r)) choice = Some i"
    and u: "uniform H (dh_field H stored randomness ''interval'') 401 = Inr tens"
    and d: "d = \<lparr>dw_eventId = i, dw_target = dh_field H stored randomness ''target'' AND 1,
      dw_variant = dh_field H stored randomness ''variant'' AND 4294967295, dw_intervalMs = 8000 + 10 * tens\<rparr>"
    by (auto simp add: deriveChaosDraw_def res_simps Let_def split: option.split_asm)
  have e: "\<exists>e\<in>set chaosEvents. ce_id e = i \<and> and32 (dr_excluded r) (shl32 1 (ce_id e - 1)) = 0"
    using i choose_event_available by (fastforce simp add: available_def)
  have t: "0 \<le> tens \<and> tens < 401" by (rule uniform_range [OF u]) simp
  have m: "(8000 + 10 * tens) mod 10 = 0" by presburger
  have n: "0 \<le> dh_field H stored randomness name" for name using assms(1) by (simp add: hash_bounded_def)
  have target: "dw_target d \<in> {0, 1}" by (auto simp add: d and_one_eq)
  have variant: "dw_variant d \<in> {0..4294967295}" using n [of "''variant''"] by (simp add: d AND_upper2)
  show ?thesis using c e t m target variant by (simp add: d)
qed

definition sample_request :: draw_request where
  "sample_request = \<lparr>dr_app = 7, dr_epoch = 1, dr_matchId = 2, dr_index = 0, dr_round = 55, dr_excluded = 3\<rparr>"

definition small_hash :: draw_hash where
  "small_hash = \<lparr>dh_commit = (\<lambda>r. dr_round r), dh_field = (\<lambda>c v name. 99999), dh_again = (\<lambda>s a. 5)\<rparr>"

lemma small_draw: "deriveChaosDraw small_hash sample_request 55 1
    = Inr \<lparr>dw_eventId = 17, dw_target = 1, dw_variant = 99999, dw_intervalMs = 9500\<rparr>"
  by code_simp

theorem chaos_draw_valid_witness:
  "deriveChaosDraw small_hash sample_request 55 1
     = Inr \<lparr>dw_eventId = 17, dw_target = 1, dw_variant = 99999, dw_intervalMs = 9500\<rparr>
   \<and> (\<exists>e\<in>set chaosEvents. ce_id e = 17 \<and> and32 3 (shl32 1 (ce_id e - 1)) = 0)"
proof -
  have h: "hash_bounded small_hash" by (simp add: hash_bounded_def small_hash_def)
  from chaos_draw_valid [OF h small_draw] small_draw show ?thesis by (simp add: sample_request_def)
qed

text \<open>The choice has no modulo bias: of the 32-byte values that a first attempt accepts, exactly
  \<open>2 ^ 256 div bound\<close> give each result below the bound.\<close>

theorem uniform_unbiased:
  assumes "0 < bound" and "0 \<le> k" and "k < bound"
  shows "card {n \<in> {0..<2 ^ 256}. 2 ^ 256 mod bound \<le> n \<and> uniform H n bound = Inr k}
    = nat (2 ^ 256 div bound)"
proof -
  have q: "0 \<le> 2 ^ 256 div bound" using assms(1) by (simp add: pos_imp_zdiv_nonneg_iff)
  have e: "2 ^ 256 mod bound + int (nat (2 ^ 256 div bound)) * bound = 2 ^ 256"
    using q by (simp only: int_nat_eq if_True mod_div_mult_eq mod_mult_div_eq mult.commute)
  have m: "0 \<le> (2::int) ^ 256 mod bound" using assms(1) by (rule pos_mod_sign)
  have "{n \<in> {0..<2 ^ 256}. 2 ^ 256 mod bound \<le> n \<and> uniform H n bound = Inr k}
      = {n \<in> {2 ^ 256 mod bound..<2 ^ 256 mod bound + int (nat (2 ^ 256 div bound)) * bound}. n mod bound = k}"
    unfolding e using m by (auto simp add: uniform_first simp del: power_numeral)
  then show ?thesis by (simp only: residues_in_periods [OF assms])
qed

theorem uniform_unbiased_witness:
  "card {n \<in> {0..<2 ^ 256}. 2 ^ 256 mod 4 \<le> n \<and> uniform small_hash n 4 = Inr 3} = nat (2 ^ 256 div 4)"
  by (rule uniform_unbiased) simp_all

lemma drand_round_is_next:
  assumes "DRAND_GENESIS \<le> timestamp"
  shows "timestamp < DRAND_GENESIS + (drandRoundAfter timestamp - 1) * DRAND_PERIOD"
    and "DRAND_GENESIS + (drandRoundAfter timestamp - 2) * DRAND_PERIOD \<le> timestamp"
  using assms by (simp_all add: drandRoundAfter_def DRAND_PERIOD_def tdiv_nonneg_eq)

end
