(* ===== verification/Chaos_Pixels.thy ===== *)
theory Chaos_Pixels
  imports Chaos_Effects Js_Text
begin

text \<open>
  \<^verbatim>\<open>shared/chaos-pixels.ts\<close>: the pixel icons of the events, drawn on a grid of 24 rows of 24
  colours.  A drawing operation is a function on grids; the loop of a line runs with as much
  fuel as the line has steps, which \<open>line_points_enough\<close> shows to suffice.
\<close>

type_synonym grid = "int list list"

definition blank :: grid where "blank = replicate 24 (replicate 24 0)"

definition draw_dot :: "int \<Rightarrow> int \<Rightarrow> int \<Rightarrow> grid \<Rightarrow> grid" where
  "draw_dot x y c g = (if x \<ge> 0 \<and> x < 24 \<and> y \<ge> 0 \<and> y < 24
     then g[nat y := (g ! nat y)[nat x := c]] else g)"

definition draw_rect :: "int \<Rightarrow> int \<Rightarrow> int \<Rightarrow> int \<Rightarrow> int \<Rightarrow> grid \<Rightarrow> grid" where
  "draw_rect x y w h c g = fold (\<lambda>j. fold (\<lambda>i. draw_dot i j c) [x..x + w - 1]) [y..y + h - 1] g"

text \<open>The points of a line: the loop of Bresenham with the error in \<open>error\<close>.\<close>

fun line_points :: "nat \<Rightarrow> int \<Rightarrow> int \<Rightarrow> int \<Rightarrow> int \<Rightarrow> int \<Rightarrow> int \<Rightarrow> int \<Rightarrow> int \<Rightarrow> int \<Rightarrow> (int \<times> int) list option" where
  "line_points 0 x0 y0 x1 y1 dx sx dy sy error = None"
| "line_points (Suc fuel) x0 y0 x1 y1 dx sx dy sy error =
    (if x0 = x1 \<and> y0 = y1 then Some [(x0, y0)]
     else let e = 2 * error;
            (error1, x2) = (if e \<ge> dy then (error + dy, x0 + sx) else (error, x0));
            (error2, y2) = (if e \<le> dx then (error1 + dx, y0 + sy) else (error1, y0))
       in map_option (\<lambda>ps. (x0, y0) # ps) (line_points fuel x2 y2 x1 y1 dx sx dy sy error2))"

definition line :: "int \<Rightarrow> int \<Rightarrow> int \<Rightarrow> int \<Rightarrow> (int \<times> int) list option" where
  "line x0 y0 x1 y1 =
    (let dx = \<bar>x1 - x0\<bar>; sx = (if x0 < x1 then 1 else -1); dy = - \<bar>y1 - y0\<bar>; sy = (if y0 < y1 then 1 else -1)
     in line_points (nat (dx - dy) + 1) x0 y0 x1 y1 dx sx dy sy (dx + dy))"

definition draw_line :: "int \<Rightarrow> int \<Rightarrow> int \<Rightarrow> int \<Rightarrow> int \<Rightarrow> grid \<Rightarrow> grid" where
  "draw_line x0 y0 x1 y1 c g = fold (\<lambda>(x, y). draw_dot x y c) (the (line x0 y0 x1 y1)) g"

definition draw_ring :: "int \<Rightarrow> int \<Rightarrow> int \<Rightarrow> int \<Rightarrow> grid \<Rightarrow> grid" where
  "draw_ring cx cy r c g = fold (\<lambda>y. fold (\<lambda>x g. let d = (x - cx) ^ 2 + (y - cy) ^ 2 in
     if d \<le> r * r \<and> d > (r - 2) ^ 2 then draw_dot x y c g else g) [cx - r..cx + r]) [cy - r..cy + r] g"

definition draw_paddle :: "int \<Rightarrow> int \<Rightarrow> int \<Rightarrow> int \<Rightarrow> grid \<Rightarrow> grid" where
  "draw_paddle x y h c g = draw_rect x y 1 (h - 2) 3 (draw_rect x y 4 (h - 1) c (draw_rect x y 5 h 4 g))"

definition draw_ball :: "int \<Rightarrow> int \<Rightarrow> int \<Rightarrow> grid \<Rightarrow> grid" where
  "draw_ball x y c g = draw_dot (x + 2) (y + 2) 1 (draw_rect x y 3 3 c g)"

definition draw_spark :: "int \<Rightarrow> int \<Rightarrow> int \<Rightarrow> grid \<Rightarrow> grid" where
  "draw_spark x y c g = draw_dot x (y + 2) c (draw_rect (x - 1) y 3 1 c (draw_dot x (y - 2) c g))"

definition draw_arrow :: "int \<Rightarrow> int \<Rightarrow> bool \<Rightarrow> int \<Rightarrow> grid \<Rightarrow> grid" where
  "draw_arrow x y up c g =
    draw_line x y (x + 2) (y + (if up then 2 else -2)) c
      (draw_line x y (x - 2) (y + (if up then 2 else -2)) c
        (draw_line x y x (y + (if up then 4 else -4)) c g))"

text \<open>The operations of each icon, in the order of the code.\<close>

definition icon_ops :: "int \<Rightarrow> (grid \<Rightarrow> grid) list" where
  "icon_ops i =
    (if i = 1 then
       [draw_paddle 9 5 14 1, draw_arrow 11 1 True 1, draw_arrow 11 22 False 1]
     else if i = 2 then
       [draw_paddle 15 4 16 1, draw_line 8 2 4 10 2, draw_rect 4 10 6 2 2, draw_line 10 11 6 21 2,
       draw_line 2 8 5 8 1, draw_line 1 15 4 15 1]
     else if i = 3 then
       [draw_line 4 4 11 1 1, draw_line 11 1 19 4 1, draw_line 4 4 4 13 1, draw_line 19 4 19 13 1,
       draw_line 4 13 11 21 1, draw_line 11 21 19 13 1, draw_rect 10 6 3 9 3, draw_rect 7 9 9 3 3]
     else if i = 4 then
       [draw_line 4 19 10 12 2, draw_line 4 15 9 10 2, draw_line 8 20 14 15 2, draw_ball 13 7 3,
       draw_spark 19 4 3]
     else if i = 5 then
       [draw_line 3 19 6 13 2, draw_line 6 13 11 8 2, draw_line 11 8 17 6 2, draw_line 17 6 21 7 2,
       draw_line 5 20 8 14 1, draw_line 8 14 13 10 1, draw_ball 18 5 3]
     else if i = 6 then
       [draw_paddle 5 3 18 1, draw_rect 4 10 7 4 2, draw_line 13 11 17 11 3, draw_spark 19 11 3]
     else if i = 7 then
       [draw_paddle 9 8 8 1, draw_arrow 11 5 False 2, draw_arrow 11 18 True 2,
       draw_line 5 7 5 16 4, draw_line 18 7 18 16 4]
     else if i = 8 then
       [draw_rect 7 8 10 11 4, draw_rect 6 8 10 10 1, draw_ring 11 5 3 2, draw_line 8 11 13 16 3,
       draw_rect 7 21 10 1 2]
     else if i = 9 then
       [draw_line 11 2 5 9 1, draw_line 5 9 9 21 1, draw_line 9 21 15 18 1, draw_line 15 18 19 7 1,
       draw_line 19 7 11 2 1, draw_line 11 2 11 16 3, draw_line 5 9 19 7 2, draw_line 5 9 15 18 2]
     else if i = 10 then
       [draw_ring 12 13 6 2, draw_rect 7 11 10 5 2, draw_line 13 6 16 3 3, draw_spark 18 2 2,
       draw_dot 10 13 4, draw_dot 14 13 4, draw_rect 10 16 5 1 4]
     else if i = 11 then
       [draw_paddle 9 2 8 1, draw_paddle 9 15 7 1, draw_rect 11 11 1 3 2, draw_line 4 11 6 11 3,
       draw_line 17 12 19 12 3]
     else if i = 12 then
       [draw_paddle 3 8 9 1, draw_paddle 17 3 18 2, draw_line 8 6 14 6 1, draw_line 14 6 12 4 1,
       draw_line 8 19 14 19 2, draw_line 8 19 10 21 2]
     else if i = 13 then
       [draw_ring 11 12 7 2, draw_ring 11 12 4 1, draw_rect 10 10 3 5 3, draw_rect 9 11 5 3 3,
       draw_ball 19 3 3]
     else if i = 14 then
       [draw_ring 6 6 4 1, draw_ring 17 17 4 2, draw_line 9 8 15 15 3, draw_dot 11 10 4,
       draw_dot 13 12 4, draw_ball 3 4 3]
     else if i = 15 then
       [draw_rect 7 2 2 20 4, draw_rect 15 2 2 20 4, draw_line 10 6 12 4 1, draw_line 12 4 14 6 1,
       draw_line 10 12 12 10 2, draw_line 12 10 14 12 2, draw_line 10 18 12 16 1,
       draw_line 12 16 14 18 1]
     else if i = 16 then
       [draw_ring 11 11 9 4, draw_ring 11 11 6 2, draw_ring 11 11 3 1, draw_rect 10 10 3 3 3,
       draw_line 2 3 6 6 2, draw_line 17 17 21 21 1]
     else if i = 17 then
       [draw_line 2 6 17 6 2, draw_line 17 6 20 3 2, draw_line 4 11 18 11 1,
       draw_line 18 11 21 8 1, draw_line 1 17 14 17 2, draw_line 14 17 17 14 2]
     else if i = 18 then
       [draw_line 6 18 18 6 4, draw_line 5 17 17 5 1, draw_line 6 17 17 6 3, draw_line 2 12 8 12 2,
       draw_line 12 12 12 21 2, draw_ball 1 10 3]
     else if i = 19 then
       [draw_rect 2 4 9 5 1, draw_rect 13 4 9 5 2, draw_rect 7 11 9 5 1, draw_rect 2 4 9 1 3,
       draw_rect 13 4 9 1 3, draw_rect 7 11 9 1 3, draw_dot 5 18 2, draw_dot 17 17 1,
       draw_ball 13 20 3]
     else if i = 20 then
       [draw_rect 2 3 3 2 2, draw_rect 7 3 3 2 2, draw_rect 12 3 3 2 2, draw_rect 17 3 3 2 2,
       draw_rect 22 3 3 2 2, draw_line 4 19 12 7 1, draw_line 12 7 19 18 1, draw_ball 18 18 3]
     else if i = 21 then
       [draw_ball 3 4 3, draw_ball 16 15 2, draw_line 7 8 15 16 4, draw_line 6 17 6 21 1,
       draw_line 4 19 8 19 1, draw_spark 18 5 3]
     else if i = 22 then
       [draw_ring 11 11 9 2, draw_line 5 8 8 11 3, draw_line 8 8 5 11 3, draw_line 12 7 17 7 3,
       draw_line 17 7 17 11 3, draw_line 17 11 12 15 3, draw_line 12 15 18 15 3]
     else if i = 23 then
       [draw_line 3 6 6 10 2, draw_line 6 10 11 3 2, draw_line 11 3 17 10 2,
       draw_line 17 10 21 6 2, draw_rect 4 11 17 7 2, draw_rect 5 18 15 2 1, draw_rect 6 14 3 2 4,
       draw_rect 15 14 3 2 4, draw_spark 11 10 3]
     else if i = 24 then
       [draw_rect 6 3 12 18 4, draw_rect 5 2 12 18 2, draw_rect 6 3 10 2 3, draw_rect 9 7 5 2 3,
       draw_rect 13 9 2 2 3, draw_rect 11 11 3 2 3, draw_dot 11 16 3]
     else [])"

definition icon_grid :: "int \<Rightarrow> grid" where
  "icon_grid i = fold (\<lambda>f. f) (icon_ops i) blank"

definition chaosIconPixels :: "int \<Rightarrow> string list" where
  "chaosIconPixels i = map (\<lambda>row. concat (map decimal row)) (icon_grid i)"

definition chaosIconPalette :: "int \<Rightarrow> string list res" where
  "chaosIconPalette i = (if 1 \<le> i \<and> i \<le> 24
     then Inr [''transparent'', ce_color (chaosEvents ! nat (i - 1)), ''#bb83ef'', ''#f1ffff'', ''#253649'']
     else Inl ''TypeError'')"

text \<open>The cells of a row of the SVG: maximal runs of one colour.  \<open>run_end\<close> is the inner loop.\<close>

function run_end :: "string \<Rightarrow> char \<Rightarrow> nat \<Rightarrow> nat" where
  "run_end row c n = (if n < 24 \<and> row ! n = c then run_end row c (n + 1) else n)"
  by auto
termination by (relation "measure (\<lambda>(row, c, n). 24 - n)") auto

declare run_end.simps [simp del]

lemma run_end_ge: "n \<le> run_end row c n"
proof (induction row c n rule: run_end.induct)
  case (1 row c n)
  then show ?case by (subst run_end.simps) auto
qed

lemma run_end_less: "x < 24 \<Longrightarrow> 24 - run_end row c (Suc x) < 24 - x"
  using run_end_ge [of "Suc x" row c] by linarith

definition svg_cell :: "nat \<Rightarrow> nat \<Rightarrow> nat \<Rightarrow> string \<Rightarrow> string" where
  "svg_cell x y w fill = ''<rect x=\"'' @ decimal (int x) @ ''\" y=\"'' @ decimal (int y) @ ''\" width=\"''
     @ decimal (int w) @ ''\" height=\"1\" fill=\"'' @ fill @ ''\"/>''"

function row_cells :: "string list \<Rightarrow> string \<Rightarrow> nat \<Rightarrow> nat \<Rightarrow> string" where
  "row_cells colors row y x =
    (if x < 24 then
       let c = nat (digit_value (row ! x)); stop = run_end row (row ! x) (x + 1) in
       (if c \<noteq> 0 then svg_cell x y (stop - x) (colors ! c) else []) @ row_cells colors row y stop
     else [])"
  by auto
termination
  by (relation "measure (\<lambda>(colors, row, y, x). 24 - x)")
    (simp_all add: run_end_less)

declare row_cells.simps [simp del]

definition chaosIconSvg :: "int \<Rightarrow> string res" where
  "chaosIconSvg i = rbind (chaosIconPalette i) (\<lambda>colors.
     let g = chaosIconPixels i;
         cells = concat (map (\<lambda>y. row_cells colors (g ! y) y 0) [0..<length g]) in
     Inr (''<svg xmlns=\"http://www.w3.org/2000/svg\" viewBox=\"0 0 24 24\" shape-rendering=\"crispEdges\">''
       @ cells @ ''</svg>''))"

subsection \<open>Lines\<close>

text \<open>Between the ends of a line the error is determined by the steps made so far, and it never
  lets the point leave the rectangle of the line.\<close>

lemma line_points_enough:
  assumes "0 \<le> i" "i \<le> m" "0 \<le> j" "j \<le> n" "sx * sx = 1" "sy * sy = 1"
    and "nat (m - i + (n - j)) < fuel"
  shows "\<exists>ps. line_points fuel (x0 + sx * i) (y0 + sy * j) (x0 + sx * m) (y0 + sy * n) m sx (- n) sy
      ((j + 1) * m - (i + 1) * n) = Some ps
    \<and> last ps = (x0 + sx * m, y0 + sy * n) \<and> hd ps = (x0 + sx * i, y0 + sy * j) \<and> ps \<noteq> []
    \<and> (\<forall>(x, y)\<in>set ps. \<exists>a b. x = x0 + sx * a \<and> y = y0 + sy * b \<and> 0 \<le> a \<and> a \<le> m \<and> 0 \<le> b \<and> b \<le> n)"
  using assms(1-4,7)
proof (induction fuel arbitrary: i j)
  case 0
  then show ?case by simp
next
  case (Suc fuel)
  have inj: "sx * a = sx * b \<longleftrightarrow> a = b" "sy * a = sy * b \<longleftrightarrow> a = b" for a b
    using assms(5,6) by (auto simp add: mult_cancel_left)
  show ?case
  proof (cases "i = m \<and> j = n")
    case True
    then show ?thesis using Suc.prems by auto
  next
    case False
    define e where "e = 2 * ((j + 1) * m - (i + 1) * n)"
    define i' where "i' = (if e \<ge> - n then i + 1 else i)"
    define j' where "j' = (if e \<le> m then j + 1 else j)"
    have i': "i' \<le> m"
    proof (cases "i = m")
      case True
      with False Suc.prems have "j + 1 \<le> n" "0 < n" by simp_all
      then have "(j + 1) * m \<le> n * m" using Suc.prems by (intro mult_right_mono) simp_all
      then have "e < - n" using True \<open>0 < n\<close> by (simp add: e_def algebra_simps)
      then show ?thesis using True by (simp add: i'_def)
    qed (use Suc.prems in \<open>simp add: i'_def\<close>)
    have j': "j' \<le> n"
    proof (cases "j = n")
      case True
      with False Suc.prems have "i + 1 \<le> m" "0 < m" by simp_all
      then have "(i + 1) * n \<le> m * n" using Suc.prems by (intro mult_right_mono) simp_all
      then have "m < e" using True \<open>0 < m\<close> by (simp add: e_def algebra_simps)
      then show ?thesis using True by (simp add: j'_def)
    qed (use Suc.prems in \<open>simp add: j'_def\<close>)
    have "e \<ge> - n \<or> e \<le> m" using Suc.prems by linarith
    then have less: "nat (m - i' + (n - j')) < fuel" using Suc.prems i' j' by (auto simp add: i'_def j'_def)
    have ge: "0 \<le> i'" "0 \<le> j'" using Suc.prems by (simp_all add: i'_def j'_def)
    from Suc.IH [OF ge(1) i' ge(2) j' less] obtain ps where
      ps: "line_points fuel (x0 + sx * i') (y0 + sy * j') (x0 + sx * m) (y0 + sy * n) m sx (- n) sy
        ((j' + 1) * m - (i' + 1) * n) = Some ps" "last ps = (x0 + sx * m, y0 + sy * n)" "ps \<noteq> []"
      "\<forall>(x, y)\<in>set ps. \<exists>a b. x = x0 + sx * a \<and> y = y0 + sy * b \<and> 0 \<le> a \<and> a \<le> m \<and> 0 \<le> b \<and> b \<le> n"
      by blast
    have eqs: "(if e \<ge> - n then x0 + sx * i + sx else x0 + sx * i) = x0 + sx * i'"
      "(if e \<le> m then y0 + sy * j + sy else y0 + sy * j) = y0 + sy * j'"
      "(j' + 1) * m - (i' + 1) * n = e div 2 + (if e \<ge> - n then - n else 0) + (if e \<le> m then m else 0)"
      "(j + 1) * m - (i + 1) * n = e div 2"
      by (simp_all add: e_def i'_def j'_def algebra_simps)
    have e2: "2 * (e div 2) = e" by (simp add: e_def)
    have ne: "\<not> (x0 + sx * i = x0 + sx * m \<and> y0 + sy * j = y0 + sy * n)" using False inj by simp
    have "line_points (Suc fuel) (x0 + sx * i) (y0 + sy * j) (x0 + sx * m) (y0 + sy * n) m sx (- n) sy
        (e div 2) = map_option (\<lambda>ps. (x0 + sx * i, y0 + sy * j) # ps)
          (line_points fuel (x0 + sx * i') (y0 + sy * j') (x0 + sx * m) (y0 + sy * n) m sx (- n) sy
            ((j' + 1) * m - (i' + 1) * n))"
      unfolding line_points.simps if_not_P [OF ne] Let_def e2 eqs(3) eqs(1,2) [symmetric]
      by (cases "e \<ge> - n"; cases "e \<le> m") simp_all
    then have "line_points (Suc fuel) (x0 + sx * i) (y0 + sy * j) (x0 + sx * m) (y0 + sy * n) m sx (- n) sy
        ((j + 1) * m - (i + 1) * n) = Some ((x0 + sx * i, y0 + sy * j) # ps)"
      unfolding ps(1) eqs(4) by simp
    then show ?thesis using ps(2-) Suc.prems
      by (intro exI [of _ "(x0 + sx * i, y0 + sy * j) # ps"]) auto
  qed
qed

lemma line_total:
  "\<exists>ps. line x0 y0 x1 y1 = Some ps \<and> hd ps = (x0, y0) \<and> last ps = (x1, y1)
    \<and> (\<forall>(x, y)\<in>set ps. min x0 x1 \<le> x \<and> x \<le> max x0 x1 \<and> min y0 y1 \<le> y \<and> y \<le> max y0 y1)"
proof -
  define sx sy :: int where "sx = (if x0 < x1 then 1 else -1)" and "sy = (if y0 < y1 then 1 else -1)"
  define m n where "m = \<bar>x1 - x0\<bar>" and "n = \<bar>y1 - y0\<bar>"
  have s: "sx * sx = 1" "sy * sy = 1" and e: "x0 + sx * m = x1" "y0 + sy * n = y1"
    by (simp_all add: sx_def sy_def m_def n_def)
  define fuel where "fuel = nat (m + n) + 1"
  have "line x0 y0 x1 y1 = line_points fuel x0 y0 x1 y1 m sx (- n) sy (m - n)"
    by (simp add: line_def Let_def sx_def sy_def m_def n_def fuel_def)
  moreover have "\<exists>ps. line_points fuel (x0 + sx * 0) (y0 + sy * 0) (x0 + sx * m) (y0 + sy * n) m sx (- n) sy
      ((0 + 1) * m - (0 + 1) * n) = Some ps
    \<and> last ps = (x0 + sx * m, y0 + sy * n) \<and> hd ps = (x0 + sx * 0, y0 + sy * 0) \<and> ps \<noteq> []
    \<and> (\<forall>(x, y)\<in>set ps. \<exists>a b. x = x0 + sx * a \<and> y = y0 + sy * b \<and> 0 \<le> a \<and> a \<le> m \<and> 0 \<le> b \<and> b \<le> n)"
    by (rule line_points_enough) (simp_all add: fuel_def m_def n_def s)
  then obtain ps where "line_points fuel x0 y0 x1 y1 m sx (- n) sy (m - n) = Some ps"
    "last ps = (x1, y1)" "hd ps = (x0, y0)"
    and b: "\<forall>(x, y)\<in>set ps. \<exists>a b. x = x0 + sx * a \<and> y = y0 + sy * b \<and> 0 \<le> a \<and> a \<le> m \<and> 0 \<le> b \<and> b \<le> n"
    unfolding e by auto
  moreover have "\<forall>(x, y)\<in>set ps. min x0 x1 \<le> x \<and> x \<le> max x0 x1 \<and> min y0 y1 \<le> y \<and> y \<le> max y0 y1"
    using b by (fastforce simp add: sx_def sy_def m_def n_def)
  ultimately show ?thesis by auto
qed

subsection \<open>Icons\<close>

text \<open>A grid of 24 rows of 24 colours of the palette.\<close>

definition well_drawn :: "grid \<Rightarrow> bool" where
  "well_drawn g \<longleftrightarrow> length g = 24 \<and> (\<forall>row\<in>set g. length row = 24 \<and> set row \<subseteq> {0..4})"

named_theorems drawn \<open>drawing keeps grids well drawn\<close>

lemma blank_drawn [drawn]: "well_drawn blank"
  by (simp add: well_drawn_def blank_def)

lemma dot_drawn [drawn]:
  assumes "well_drawn g" "0 \<le> c" "c \<le> 4" shows "well_drawn (draw_dot x y c g)"
proof (cases "x \<ge> 0 \<and> x < 24 \<and> y \<ge> 0 \<and> y < 24")
  case True
  then have y: "nat y < length g" using assms(1) by (simp add: well_drawn_def nat_less_iff)
  let ?row = "(g ! nat y)[nat x := c]"
  have "g ! nat y \<in> set g" using y by (rule nth_mem)
  then have "length (g ! nat y) = 24" "set (g ! nat y) \<subseteq> {0..4}" using assms(1) by (auto simp add: well_drawn_def)
  then have "length ?row = 24 \<and> set ?row \<subseteq> {0..4}"
    using assms(2,3) set_update_subset_insert [of "g ! nat y" "nat x" c] by (auto simp add: well_drawn_def)
  moreover have "set (g[nat y := ?row]) \<subseteq> insert ?row (set g)" by (rule set_update_subset_insert)
  ultimately show ?thesis using assms(1) True by (auto simp add: well_drawn_def draw_dot_def)
next
  case False
  then show ?thesis using assms(1) by (auto simp add: draw_dot_def)
qed

lemma fold_drawn:
  "(\<And>x g. x \<in> set xs \<Longrightarrow> well_drawn g \<Longrightarrow> well_drawn (f x g)) \<Longrightarrow> well_drawn g \<Longrightarrow> well_drawn (fold f xs g)"
  by (induction xs arbitrary: g) simp_all

lemma rect_drawn [drawn]: "well_drawn g \<Longrightarrow> 0 \<le> c \<Longrightarrow> c \<le> 4 \<Longrightarrow> well_drawn (draw_rect x y w h c g)"
  unfolding draw_rect_def by (intro fold_drawn drawn)

lemma line_drawn [drawn]: "well_drawn g \<Longrightarrow> 0 \<le> c \<Longrightarrow> c \<le> 4 \<Longrightarrow> well_drawn (draw_line x0 y0 x1 y1 c g)"
  unfolding draw_line_def by (rule fold_drawn) (auto intro: drawn)

lemma ring_drawn [drawn]: "well_drawn g \<Longrightarrow> 0 \<le> c \<Longrightarrow> c \<le> 4 \<Longrightarrow> well_drawn (draw_ring cx cy r c g)"
  unfolding draw_ring_def Let_def by (intro fold_drawn) (auto intro!: drawn)

lemma paddle_drawn [drawn]: "well_drawn g \<Longrightarrow> 0 \<le> c \<Longrightarrow> c \<le> 4 \<Longrightarrow> well_drawn (draw_paddle x y h c g)"
  unfolding draw_paddle_def by (intro drawn) simp_all

lemma ball_drawn [drawn]: "well_drawn g \<Longrightarrow> 0 \<le> c \<Longrightarrow> c \<le> 4 \<Longrightarrow> well_drawn (draw_ball x y c g)"
  unfolding draw_ball_def by (intro drawn) simp_all

lemma spark_drawn [drawn]: "well_drawn g \<Longrightarrow> 0 \<le> c \<Longrightarrow> c \<le> 4 \<Longrightarrow> well_drawn (draw_spark x y c g)"
  unfolding draw_spark_def by (intro drawn)

lemma arrow_drawn [drawn]: "well_drawn g \<Longrightarrow> 0 \<le> c \<Longrightarrow> c \<le> 4 \<Longrightarrow> well_drawn (draw_arrow x y up c g)"
  unfolding draw_arrow_def by (intro drawn)

lemma icon_ops_drawn: "f \<in> set (icon_ops i) \<Longrightarrow> well_drawn g \<Longrightarrow> well_drawn (f g)"
  unfolding icon_ops_def by (auto intro!: drawn split: if_split_asm)

lemma decimal_small: "0 \<le> n \<Longrightarrow> n \<le> 4 \<Longrightarrow> length (decimal n) = 1"
  by (simp add: decimal_def digits.simps)

text \<open>Every icon is a picture: whatever is drawn, each line is drawn completely, from its first to
  its last point and inside its rectangle, and the result is 24 texts of 24 colour digits.\<close>

theorem icon_pixels_shape:
  "length (chaosIconPixels i) = 24 \<and> list_all (\<lambda>row. length row = 24) (chaosIconPixels i)
    \<and> well_drawn (icon_grid i)
    \<and> (\<exists>ps. line x0 y0 x1 y1 = Some ps \<and> hd ps = (x0, y0) \<and> last ps = (x1, y1))"
proof -
  have g: "well_drawn (icon_grid i)"
    unfolding icon_grid_def by (rule fold_drawn [OF icon_ops_drawn blank_drawn])
  have len: "length (concat (map decimal row)) = length row" if "set row \<subseteq> {0..4}" for row
    using that decimal_small by (induction row) simp_all
  then have "list_all (\<lambda>row. length row = 24) (chaosIconPixels i)"
    using g by (auto simp add: chaosIconPixels_def well_drawn_def list_all_iff)
  then show ?thesis using g line_total [of x0 y0 x1 y1] by (auto simp add: chaosIconPixels_def well_drawn_def)
qed

end
