(* ===== verification/Chaos_Codec.thy ===== *)
theory Chaos_Codec
  imports Chaos_Physics Physics_V2
begin

text \<open>
  \<^verbatim>\<open>shared/chaos-codec.ts\<close>: the eight words in which the contract publishes a Chaos match, and
  \<open>pack_chaos\<close>, the packing of \<^verbatim>\<open>contracts/src/chaos/ChaosCodec.sol\<close> that it decodes.  Words are
  integers below \<open>2 ^ 256\<close>.
\<close>

subsection \<open>Fields of a word\<close>

definition word_bits :: "int \<Rightarrow> nat \<Rightarrow> nat \<Rightarrow> int" where
  "word_bits n at len = drop_bit at n AND (push_bit len 1 - 1)"

definition signed_bits :: "int \<Rightarrow> nat \<Rightarrow> nat \<Rightarrow> int" where
  "signed_bits n at len = signed_take_bit (len - 1) (word_bits n at len)"

text \<open>A word as the disjunction of its shifted fields, each with its offset, its width and its value.\<close>

definition word_of :: "(nat \<times> nat \<times> int) list \<Rightarrow> int" where
  "word_of fs = foldr (\<lambda>(at, len, v) w. push_bit at v OR w) fs 0"

definition fits :: "nat \<Rightarrow> int \<Rightarrow> bool" where
  "fits len v \<longleftrightarrow> 0 \<le> v \<and> v < 2 ^ len"

fun laid_out :: "nat \<Rightarrow> (nat \<times> nat \<times> int) list \<Rightarrow> bool" where
  "laid_out k [] \<longleftrightarrow> k \<le> 256"
| "laid_out k ((at, len, v) # fs) \<longleftrightarrow> k \<le> at \<and> fits len v \<and> laid_out (at + len) fs"

lemma word_bits_take: "word_bits n at len = take_bit len (drop_bit at n)"
  by (simp add: word_bits_def take_bit_eq_mask mask_eq_exp_minus_1)

lemma word_of_Cons: "word_of ((at, len, v) # fs) = push_bit at v OR word_of fs"
  by (simp add: word_of_def)

lemma word_bits_or: "word_bits (a OR b) at len = word_bits a at len OR word_bits b at len"
  by (simp add: word_bits_take)

lemma word_bits_below: "k + w \<le> at \<Longrightarrow> fits w v \<Longrightarrow> word_bits (push_bit k v) at len = 0"
proof -
  assume a: "k + w \<le> at" "fits w v"
  then have "w \<le> at - k" by simp
  then have "(2::int) ^ w \<le> 2 ^ (at - k)" by (rule power_increasing) simp
  then have "v < 2 ^ (at - k)" using a(2) unfolding fits_def by linarith
  then have "drop_bit (at - k) v = 0" using a(2) by (simp add: fits_def drop_bit_eq_div)
  then show ?thesis using a(1) by (simp add: word_bits_take drop_bit_push_bit)
qed

lemma word_bits_above: "at + len \<le> k \<Longrightarrow> word_bits (push_bit k v) at len = 0"
  by (simp add: word_bits_take drop_bit_push_bit take_bit_push_bit)

lemma word_bits_at: "fits len v \<Longrightarrow> word_bits (push_bit at v) at len = v"
  by (simp add: word_bits_take drop_bit_push_bit fits_def take_bit_int_eq_self)

lemma word_of_above: "laid_out k fs \<Longrightarrow> at + len \<le> k \<Longrightarrow> word_bits (word_of fs) at len = 0"
proof (induction k fs rule: laid_out.induct)
  case (1 k)
  then show ?case by (simp add: word_of_def word_bits_take)
next
  case (2 k at' len' v fs)
  then show ?case by (simp add: word_of_Cons word_bits_or word_bits_above)
qed

lemma word_of_field:
  "laid_out k fs \<Longrightarrow> (at, len, v) \<in> set fs \<Longrightarrow> word_bits (word_of fs) at len = v"
proof (induction k fs rule: laid_out.induct)
  case (1 k)
  then show ?case by simp
next
  case (2 k at' len' v' fs)
  show ?case
  proof (cases "(at, len, v) = (at', len', v')")
    case True
    then show ?thesis using 2 word_of_above [of "at' + len'" fs at' len']
      by (simp add: word_of_Cons word_bits_or word_bits_at)
  next
    case False
    then have m: "(at, len, v) \<in> set fs" using 2(3) by auto
    have ge: "laid_out j gs \<Longrightarrow> (at, len, v) \<in> set gs \<Longrightarrow> j \<le> at" for j gs
      by (induction j gs rule: laid_out.induct) auto
    have "at' + len' \<le> at" using ge m 2(2) by auto
    then show ?thesis using 2 m by (simp add: word_of_Cons word_bits_or word_bits_below)
  qed
qed

lemma word_of_range: "laid_out k fs \<Longrightarrow> fits 256 (word_of fs)"
proof (induction k fs rule: laid_out.induct)
  case (1 k)
  then show ?case by (simp add: word_of_def fits_def)
next
  case (2 k at len v fs)
  have le: "laid_out j gs \<Longrightarrow> j \<le> 256" for j and gs :: "(nat \<times> nat \<times> int) list"
    by (induction j gs rule: laid_out.induct) auto
  have "at + len \<le> 256" and v: "fits len v" using le 2(2) by auto
  have "v * 2 ^ at < 2 ^ len * 2 ^ at" using v by (simp add: fits_def)
  also have "\<dots> \<le> 2 ^ 256" using \<open>at + len \<le> 256\<close>
    by (metis add.commute one_le_numeral power_add power_increasing)
  finally have p: "fits 256 (push_bit at v)" using v by (simp add: fits_def push_bit_eq_mult)
  have "take_bit 256 (push_bit at v OR word_of fs) = push_bit at v OR word_of fs"
    using p 2 by (simp add: take_bit_int_eq_self fits_def)
  then show ?case unfolding word_of_Cons fits_def
    by (metis take_bit_int_less_exp take_bit_nonnegative)
qed

lemma signed_field:
  assumes "laid_out k fs" "(at, Suc m, take_bit (Suc m) x) \<in> set fs" "- (2 ^ m) \<le> x" "x < 2 ^ m"
  shows "signed_bits (word_of fs) at (Suc m) = x"
  using word_of_field [OF assms(1,2)] assms(3,4)
  by (simp add: signed_bits_def signed_take_bit_take_bit signed_take_bit_int_eq_self)

subsection \<open>Packing\<close>

definition ball_fields :: "chaos_ball \<Rightarrow> (nat \<times> nat \<times> int) list" where
  "ball_fields b =
    [(0, 56, take_bit 56 (b_x b)), (56, 56, take_bit 56 (b_y b)), (112, 16, b_powerN b), (128, 16, b_powerD b),
     (144, 16, b_curveSteps b), (160, 8, take_bit 8 (b_curveSign b)), (168, 8, b_lastHitter b), (176, 16, b_ghost b),
     (192, 1, of_bool (b_portalLock b)), (193, 1, of_bool (b_warp b)), (194, 1, of_bool (b_gravity b)),
     (195, 1, of_bool (b_alive b))]"

definition motion_fields :: "chaos_ball \<Rightarrow> (nat \<times> nat \<times> int) list" where
  "motion_fields b = [(0, 80, take_bit 80 (b_vx b)), (80, 80, take_bit 80 (b_vy b)), (160, 64, b_gravityUsed b),
     (224, 32, b_trailRevision b)]"

definition effect_fields :: "runtime_effect \<Rightarrow> (nat \<times> nat \<times> int) list" where
  "effect_fields e = [(0, 8, fx_id e), (8, 8, fx_target e), (16, 8, fx_remaining e), (24, 32, fx_serial e),
     (56, 32, fx_startsAt e), (88, 32, fx_expiresAt e), (120, 32, fx_variant e)]"

definition court_fields :: "chaos_state \<Rightarrow> (nat \<times> nat \<times> int) list" where
  "court_fields s = [(0, 56, z_left s), (56, 56, z_right s), (112, 64, z_t s), (176, 64, z_nextForce s)]"

definition meta_fields :: "chaos_state \<Rightarrow> (nat \<times> nat \<times> int) list" where
  "meta_fields s = [(0, 3, cs_a (z_score s)), (3, 3, cs_b (z_score s)), (6, 32, cs_rally (z_score s)),
     (38, 1, of_bool (cs_finished (z_score s))), (39, 2, cs_winner (z_score s)), (41, 2, z_lastLeft s + 1),
     (43, 2, z_lastRight s + 1), (45, 24, z_activeMask s), (69, 32, z_collisionSequence s), (101, 32, z_bettingA s),
     (133, 32, z_bettingB s), (165, 1, of_bool (z_cancelled s)), (166, 8, z_cancelReason s), (174, 8, z_stalled s)]"

definition check_ball :: "chaos_ball \<Rightarrow> unit res" where
  "check_ball b = geometryCheck (b_x b) (b_y b) (b_vx b) (b_vy b)"

definition pack_chaos :: "chaos_state \<Rightarrow> int list res" where
  "pack_chaos s =
    rbind (check_ball (fst (z_balls s))) (\<lambda>_. rbind (check_ball (snd (z_balls s))) (\<lambda>_.
    if z_left s < 0 \<or> z_right s < 0 \<or> z_left s > 576000000000000 \<or> z_right s > 576000000000000
      \<or> cs_a (z_score s) > 7 \<or> cs_b (z_score s) > 7 \<or> cs_winner (z_score s) > 2
      \<or> z_lastLeft s < -1 \<or> z_lastLeft s > 1 \<or> z_lastRight s < -1 \<or> z_lastRight s > 1
    then Inl range_error
    else Inr [word_of (ball_fields (fst (z_balls s))), word_of (motion_fields (fst (z_balls s))),
      word_of (ball_fields (snd (z_balls s))), word_of (motion_fields (snd (z_balls s))),
      word_of (effect_fields (fst (z_effects s))), word_of (effect_fields (snd (z_effects s))),
      word_of (court_fields s), word_of (meta_fields s)]))"

subsection \<open>Unpacking\<close>

definition unpack_ball :: "int \<Rightarrow> int \<Rightarrow> chaos_ball" where
  "unpack_ball a b = \<lparr>b_x = signed_bits a 0 56, b_y = signed_bits a 56 56, b_vx = signed_bits b 0 80,
     b_vy = signed_bits b 80 80, b_powerN = word_bits a 112 16, b_powerD = word_bits a 128 16,
     b_curveSteps = word_bits a 144 16, b_curveSign = signed_bits a 160 8, b_lastHitter = word_bits a 168 8,
     b_ghost = word_bits a 176 16, b_portalLock = (word_bits a 192 1 \<noteq> 0), b_warp = (word_bits a 193 1 \<noteq> 0),
     b_gravity = (word_bits a 194 1 \<noteq> 0), b_gravityUsed = word_bits b 160 64, b_trailRevision = word_bits b 224 32,
     b_alive = (word_bits a 195 1 \<noteq> 0)\<rparr>"

definition unpack_effect :: "int \<Rightarrow> runtime_effect" where
  "unpack_effect e = \<lparr>fx_id = word_bits e 0 8, fx_target = word_bits e 8 8, fx_remaining = word_bits e 16 8,
     fx_serial = word_bits e 24 32, fx_startsAt = word_bits e 56 32, fx_expiresAt = word_bits e 88 32,
     fx_variant = word_bits e 120 32\<rparr>"

definition unpack_score :: "int \<Rightarrow> chaos_score" where
  "unpack_score m = \<lparr>cs_a = word_bits m 0 3, cs_b = word_bits m 3 3, cs_rally = word_bits m 6 32,
     cs_finished = (word_bits m 38 1 \<noteq> 0), cs_winner = word_bits m 39 2\<rparr>"

definition rules_error :: "chaos_state \<Rightarrow> bool" where
  "rules_error s \<longleftrightarrow> cs_rally (z_score s) = 0 \<or> z_bettingA s < 72000000 \<or> z_bettingA s > 96000000
     \<or> z_bettingB s < 72000000 \<or> z_bettingB s > 96000000
     \<or> fx_id (fst (z_effects s)) > 24 \<or> fx_target (fst (z_effects s)) > 2
     \<or> fx_id (snd (z_effects s)) > 24 \<or> fx_target (snd (z_effects s)) > 2
     \<or> z_leftDir s > 1 \<or> z_rightDir s > 1"

definition unpackChaos :: "int list \<Rightarrow> int \<Rightarrow> int \<Rightarrow> chaos_state res" where
  "unpackChaos w seed control =
    (if length w \<noteq> 8 \<or> \<not> list_all (fits 256) w then Inl ''Invalid Chaos state''
     else let s = (initialChaosEvents seed 96000000 96000000)\<lparr>
         z_balls := (unpack_ball (w ! 0) (w ! 1), unpack_ball (w ! 2) (w ! 3)),
         z_effects := (unpack_effect (w ! 4), unpack_effect (w ! 5)),
         z_left := word_bits (w ! 6) 0 56, z_right := word_bits (w ! 6) 56 56, z_t := word_bits (w ! 6) 112 64,
         z_nextForce := word_bits (w ! 6) 176 64, z_score := unpack_score (w ! 7),
         z_lastLeft := word_bits (w ! 7) 41 2 - 1, z_lastRight := word_bits (w ! 7) 43 2 - 1,
         z_activeMask := word_bits (w ! 7) 45 24, z_collisionSequence := word_bits (w ! 7) 69 32,
         z_bettingA := word_bits (w ! 7) 101 32, z_bettingB := word_bits (w ! 7) 133 32,
         z_cancelled := (word_bits (w ! 7) 165 1 \<noteq> 0), z_cancelReason := word_bits (w ! 7) 166 8,
         z_stalled := word_bits (w ! 7) 174 8,
         z_leftDir := word_bits control 0 2 - 1, z_rightDir := word_bits control 2 2 - 1\<rparr>
       in if rules_error s then Inl ''Invalid Chaos rules state'' else Inr s)"

definition chaosLegacy :: "chaos_state \<Rightarrow> bool \<Rightarrow> state" where
  "chaosLegacy s finished = (let b = fst (z_balls s) in
     \<lparr>s_x = tdiv (b_x b) 1000000, s_y = tdiv (b_y b) 1000000, s_vx = b_vx b, s_vy = b_vy b,
      s_left = tdiv (z_left s) 1000000, s_right = tdiv (z_right s) 1000000, s_leftDir = z_leftDir s,
      s_rightDir = z_rightDir s, s_t = z_t s, s_scoreA = cs_a (z_score s), s_scoreB = cs_b (z_score s),
      s_seed = z_seed s, s_finished = finished, s_mode = 1, s_halfA = tdiv (z_bettingA s) 2,
      s_halfB = tdiv (z_bettingB s) 2, s_awaitingServe = False, s_resumeAt = 0\<rparr>)"

definition unpackChaosCollision :: "int \<Rightarrow> chaos_hit" where
  "unpackChaosCollision value = \<lparr>hit_sequence = word_bits value 0 32, hit_rally = word_bits value 32 32,
     hit_ball = word_bits value 64 8, hit_kind = word_bits value 72 8, hit_obstacle = word_bits value 80 8,
     hit_at = word_bits value 88 64, hit_x = signed_bits value 152 32 * 1000000,
     hit_y = signed_bits value 184 32 * 1000000\<rparr>"

text \<open>The control word of the match header: both directions, shifted to be non-negative.\<close>

definition control_word :: "int \<Rightarrow> int \<Rightarrow> int" where
  "control_word leftDir rightDir = (leftDir + 1) OR push_bit 2 (rightDir + 1)"

record chaos_decoded =
  cd_physics :: chaos_state
  cd_request :: int
  cd_pending :: int
  cd_collisions :: "chaos_hit list"

text \<open>\<^verbatim>\<open>decodeChaosRead\<close> after the ABI decoder, which gives the thirteen fields of the getter (here
  those before the state as an abstract \<open>'h\<close>, then the state), the words and the two draws.\<close>

definition decodeChaosRead ::
    "(string \<Rightarrow> (('h \<times> state) \<times> int list \<times> int \<times> int) res) option \<Rightarrow> string
     \<Rightarrow> (('h \<times> state) \<times> chaos_decoded option) res" where
  "decodeChaosRead decoder value =
    (case decoder of None \<Rightarrow> Inl ''Missing snapshot ABI''
     | Some decode \<Rightarrow> rbind (decode value) (\<lambda>(v, words, request, pending).
         let legacy = snd v in
         if s_mode legacy \<noteq> 1 then Inr (v, None)
         else rbind (unpackChaos words (s_seed legacy) (control_word (s_leftDir legacy) (s_rightDir legacy)))
           (\<lambda>physics. Inr (v, Some \<lparr>cd_physics = physics, cd_request = request, cd_pending = pending,
             cd_collisions = []\<rparr>))))"

subsection \<open>The round trip\<close>

text \<open>What the types of the contract's state guarantee of its values.\<close>

definition typed_ball :: "chaos_ball \<Rightarrow> bool" where
  "typed_ball b \<longleftrightarrow> fits 16 (b_powerN b) \<and> fits 16 (b_powerD b) \<and> fits 16 (b_curveSteps b)
     \<and> -128 \<le> b_curveSign b \<and> b_curveSign b < 128 \<and> fits 8 (b_lastHitter b) \<and> fits 16 (b_ghost b)
     \<and> fits 64 (b_gravityUsed b) \<and> fits 32 (b_trailRevision b)"

definition typed_effect :: "runtime_effect \<Rightarrow> bool" where
  "typed_effect e \<longleftrightarrow> fits 8 (fx_id e) \<and> fits 8 (fx_target e) \<and> fits 8 (fx_remaining e) \<and> fits 32 (fx_serial e)
     \<and> fits 32 (fx_startsAt e) \<and> fits 32 (fx_expiresAt e) \<and> fits 32 (fx_variant e)"

definition typed_state :: "chaos_state \<Rightarrow> bool" where
  "typed_state s \<longleftrightarrow> typed_ball (fst (z_balls s)) \<and> typed_ball (snd (z_balls s))
     \<and> typed_effect (fst (z_effects s)) \<and> typed_effect (snd (z_effects s))
     \<and> fits 64 (z_t s) \<and> fits 64 (z_nextForce s) \<and> fits 8 (cs_a (z_score s)) \<and> fits 8 (cs_b (z_score s))
     \<and> fits 32 (cs_rally (z_score s)) \<and> fits 8 (cs_winner (z_score s)) \<and> fits 24 (z_activeMask s)
     \<and> fits 32 (z_collisionSequence s) \<and> fits 32 (z_bettingA s) \<and> fits 32 (z_bettingB s)
     \<and> fits 8 (z_cancelReason s) \<and> fits 8 (z_stalled s)
     \<and> -1 \<le> z_leftDir s \<and> z_leftDir s \<le> 1 \<and> -1 \<le> z_rightDir s \<and> z_rightDir s \<le> 1"

lemma fits_take [simp]: "fits n (take_bit n x)"
  by (simp add: fits_def)

lemma fits_bool [simp]: "fits 1 (of_bool b)" "fits (Suc 0) (of_bool b)"
  by (cases b; simp add: fits_def)+

lemma ball_round:
  assumes "typed_ball b" "check_ball b = Inr ()"
  shows "unpack_ball (word_of (ball_fields b)) (word_of (motion_fields b)) = b"
proof -
  have l: "laid_out 0 (ball_fields b)" "laid_out 0 (motion_fields b)"
    using assms(1) by (simp_all add: ball_fields_def motion_fields_def typed_ball_def)
  have pos: "- (2 ^ 55) \<le> b_x b" "b_x b < 2 ^ 55" "- (2 ^ 55) \<le> b_y b" "b_y b < 2 ^ 55"
    "- (2 ^ 79) \<le> b_vx b" "b_vx b < 2 ^ 79" "- (2 ^ 79) \<le> b_vy b" "b_vy b < 2 ^ 79"
    "- (2 ^ 7) \<le> b_curveSign b" "b_curveSign b < 2 ^ 7"
    using assms by (auto simp add: check_ball_def geometryCheck_def MAX_P_def MAX_V_def typed_ball_def)
  have f: "word_bits (word_of (ball_fields b)) 112 16 = b_powerN b"
    "word_bits (word_of (ball_fields b)) 128 16 = b_powerD b"
    "word_bits (word_of (ball_fields b)) 144 16 = b_curveSteps b"
    "word_bits (word_of (ball_fields b)) 168 8 = b_lastHitter b"
    "word_bits (word_of (ball_fields b)) 176 16 = b_ghost b"
    "word_bits (word_of (ball_fields b)) 192 1 = of_bool (b_portalLock b)"
    "word_bits (word_of (ball_fields b)) 193 1 = of_bool (b_warp b)"
    "word_bits (word_of (ball_fields b)) 194 1 = of_bool (b_gravity b)"
    "word_bits (word_of (ball_fields b)) 195 1 = of_bool (b_alive b)"
    by (rule word_of_field [OF l(1)], simp add: ball_fields_def)+
  have g: "word_bits (word_of (motion_fields b)) 160 64 = b_gravityUsed b"
    "word_bits (word_of (motion_fields b)) 224 32 = b_trailRevision b"
    by (rule word_of_field [OF l(2)], simp add: motion_fields_def)+
  have s: "signed_bits (word_of (ball_fields b)) 0 56 = b_x b" "signed_bits (word_of (ball_fields b)) 56 56 = b_y b"
    "signed_bits (word_of (motion_fields b)) 0 80 = b_vx b" "signed_bits (word_of (motion_fields b)) 80 80 = b_vy b"
    "signed_bits (word_of (ball_fields b)) 160 8 = b_curveSign b"
    using signed_field [OF l(1), of 0 55 "b_x b"] signed_field [OF l(1), of 56 55 "b_y b"]
      signed_field [OF l(2), of 0 79 "b_vx b"] signed_field [OF l(2), of 80 79 "b_vy b"]
      signed_field [OF l(1), of 160 7 "b_curveSign b"] pos
    by (simp_all add: ball_fields_def motion_fields_def)
  show ?thesis
    unfolding unpack_ball_def s f g by (rule chaos_ball.equality) simp_all
qed

lemma effect_round: "typed_effect e \<Longrightarrow> unpack_effect (word_of (effect_fields e)) = e"
proof -
  assume "typed_effect e"
  then have l: "laid_out 0 (effect_fields e)" by (simp add: effect_fields_def typed_effect_def)
  have f: "word_bits (word_of (effect_fields e)) 0 8 = fx_id e" "word_bits (word_of (effect_fields e)) 8 8 = fx_target e"
    "word_bits (word_of (effect_fields e)) 16 8 = fx_remaining e" "word_bits (word_of (effect_fields e)) 24 32 = fx_serial e"
    "word_bits (word_of (effect_fields e)) 56 32 = fx_startsAt e" "word_bits (word_of (effect_fields e)) 88 32 = fx_expiresAt e"
    "word_bits (word_of (effect_fields e)) 120 32 = fx_variant e"
    by (rule word_of_field [OF l], simp add: effect_fields_def)+
  show ?thesis unfolding unpack_effect_def f by (rule runtime_effect.equality) simp_all
qed

lemma control_round:
  assumes "-1 \<le> l" "l \<le> 1" "-1 \<le> r" "r \<le> 1"
  shows "word_bits (control_word l r) 0 2 - 1 = l" "word_bits (control_word l r) 2 2 - 1 = r"
proof -
  have c: "control_word l r = word_of [(0, 2, l + 1), (2, 2, r + 1)]"
    by (simp add: control_word_def word_of_def or.commute)
  have "laid_out 0 [(0, 2, l + 1), (2, 2, r + 1)]" using assms by (simp add: fits_def)
  note f = word_of_field [OF this]
  show "word_bits (control_word l r) 0 2 - 1 = l" "word_bits (control_word l r) 2 2 - 1 = r"
    unfolding c using f [of 0 2 "l + 1"] f [of 2 2 "r + 1"] by simp_all
qed

text \<open>C14. The published words are the match: whatever state the contract packs, unpacking its eight words
  with the seed and the directions of the header gives exactly that state, both balls, both effects
  and the complete score, unless it breaks the rules the decoder checks.\<close>

theorem chaos_codec_roundtrip:
  assumes "typed_state s" and "pack_chaos s = Inr w"
  shows "unpackChaos w (z_seed s) (control_word (z_leftDir s) (z_rightDir s))
    = (if rules_error s then Inl ''Invalid Chaos rules state'' else Inr s)"
proof -
  note ty = assms(1) [unfolded typed_state_def]
  from assms(2) have c: "check_ball (fst (z_balls s)) = Inr ()" "check_ball (snd (z_balls s)) = Inr ()"
    and r: "0 \<le> z_left s" "0 \<le> z_right s" "z_left s \<le> 576000000000000" "z_right s \<le> 576000000000000"
      "cs_a (z_score s) \<le> 7" "cs_b (z_score s) \<le> 7" "cs_winner (z_score s) \<le> 2" "-1 \<le> z_lastLeft s" "z_lastLeft s \<le> 1"
      "-1 \<le> z_lastRight s" "z_lastRight s \<le> 1"
    and w: "w = [word_of (ball_fields (fst (z_balls s))), word_of (motion_fields (fst (z_balls s))),
      word_of (ball_fields (snd (z_balls s))), word_of (motion_fields (snd (z_balls s))),
      word_of (effect_fields (fst (z_effects s))), word_of (effect_fields (snd (z_effects s))),
      word_of (court_fields s), word_of (meta_fields s)]"
    by (auto simp add: pack_chaos_def res_simps split: if_split_asm)
  have lc: "laid_out 0 (court_fields s)" using ty r by (simp add: court_fields_def fits_def)
  have lm: "laid_out 0 (meta_fields s)" using ty r by (simp add: meta_fields_def) (simp add: fits_def)
  have lb: "laid_out 0 (ball_fields b)" "laid_out 0 (motion_fields b)" if "typed_ball b" for b
    using that by (simp_all add: ball_fields_def motion_fields_def typed_ball_def)
  have le: "laid_out 0 (effect_fields e)" if "typed_effect e" for e
    using that by (simp add: effect_fields_def typed_effect_def)
  have all: "list_all (fits 256) w" unfolding w using ty
    by (simp add: word_of_range [OF lc] word_of_range [OF lm] word_of_range [OF lb(1)] word_of_range [OF lb(2)]
        word_of_range [OF le])
  have court: "word_bits (word_of (court_fields s)) 0 56 = z_left s" "word_bits (word_of (court_fields s)) 56 56 = z_right s"
    "word_bits (word_of (court_fields s)) 112 64 = z_t s" "word_bits (word_of (court_fields s)) 176 64 = z_nextForce s"
    by (rule word_of_field [OF lc], simp add: court_fields_def)+
  have m: "word_bits (word_of (meta_fields s)) 0 3 = cs_a (z_score s)" "word_bits (word_of (meta_fields s)) 3 3 = cs_b (z_score s)"
    "word_bits (word_of (meta_fields s)) 6 32 = cs_rally (z_score s)"
    "word_bits (word_of (meta_fields s)) 38 1 = of_bool (cs_finished (z_score s))"
    "word_bits (word_of (meta_fields s)) 39 2 = cs_winner (z_score s)"
    "word_bits (word_of (meta_fields s)) 41 2 = z_lastLeft s + 1" "word_bits (word_of (meta_fields s)) 43 2 = z_lastRight s + 1"
    "word_bits (word_of (meta_fields s)) 45 24 = z_activeMask s" "word_bits (word_of (meta_fields s)) 69 32 = z_collisionSequence s"
    "word_bits (word_of (meta_fields s)) 101 32 = z_bettingA s" "word_bits (word_of (meta_fields s)) 133 32 = z_bettingB s"
    "word_bits (word_of (meta_fields s)) 165 1 = of_bool (z_cancelled s)"
    "word_bits (word_of (meta_fields s)) 166 8 = z_cancelReason s" "word_bits (word_of (meta_fields s)) 174 8 = z_stalled s"
    by (rule word_of_field [OF lm], simp add: meta_fields_def)+
  have score: "unpack_score (word_of (meta_fields s)) = z_score s"
    unfolding unpack_score_def m by (rule chaos_score.equality) simp_all
  have dirs: "word_bits (control_word (z_leftDir s) (z_rightDir s)) 0 2 - 1 = z_leftDir s"
    "word_bits (control_word (z_leftDir s) (z_rightDir s)) 2 2 - 1 = z_rightDir s"
    using control_round ty by simp_all
  have balls: "(unpack_ball (w ! 0) (w ! 1), unpack_ball (w ! 2) (w ! 3)) = z_balls s"
    using ty c ball_round by (simp add: w numeral_eq_Suc)
  have effects: "(unpack_effect (w ! 4), unpack_effect (w ! 5)) = z_effects s"
    using ty effect_round by (simp add: w numeral_eq_Suc)
  have w67: "w ! 6 = word_of (court_fields s)" "w ! 7 = word_of (meta_fields s)" by (simp_all add: w)
  have seed: "z_seed (initialChaosEvents x a b) = x" for x a b
    by (simp add: initialChaosEvents_def serve_chaos_def)
  have len: "length w = 8" by (simp add: w)
  have same: "(initialChaosEvents (z_seed s) 96000000 96000000)
      \<lparr>z_balls := z_balls s, z_effects := z_effects s, z_left := z_left s, z_right := z_right s, z_t := z_t s,
       z_nextForce := z_nextForce s, z_score := z_score s, z_lastLeft := z_lastLeft s + 1 - 1,
       z_lastRight := z_lastRight s + 1 - 1, z_activeMask := z_activeMask s,
       z_collisionSequence := z_collisionSequence s, z_bettingA := z_bettingA s, z_bettingB := z_bettingB s,
       z_cancelled := (of_bool (z_cancelled s) \<noteq> (0::int)), z_cancelReason := z_cancelReason s,
       z_stalled := z_stalled s, z_leftDir := z_leftDir s, z_rightDir := z_rightDir s\<rparr> = s"
    by (rule chaos_state.equality) (simp_all add: seed)
  show ?thesis
    unfolding unpackChaos_def balls effects w67 court m score dirs Let_def same using all len by simp
qed

theorem chaos_codec_roundtrip_witness:
  "\<exists>w. pack_chaos (initialChaosEvents 5 96000000 90000000) = Inr w
    \<and> unpackChaos w 5 (control_word 0 0) = Inr (initialChaosEvents 5 96000000 90000000)"
proof -
  let ?s = "initialChaosEvents 5 96000000 90000000"
  have t: "typed_state ?s" and e: "\<not> rules_error ?s" and p: "is_ok (pack_chaos ?s)"
    and d: "z_seed ?s = 5" "z_leftDir ?s = 0" "z_rightDir ?s = 0" by code_simp+
  from p obtain w where w: "pack_chaos ?s = Inr w" by (cases "pack_chaos ?s") auto
  show ?thesis using chaos_codec_roundtrip [OF t w] w e d by simp
qed

end
