(* ===== verification/Drand_Beacon.thy ===== *)
theory Drand_Beacon
  imports Io_Monad Js_Text Chaos_Draw
begin

text \<open>
  \<^verbatim>\<open>shared/drand-beacon.ts\<close>, \<^verbatim>\<open>shared/chaos-beacon-pump.ts\<close> and \<^verbatim>\<open>shared/chaos-publication.ts\<close>:
  the transport of public randomness to a match.  The network is a field of \<open>beacon_world\<close>: the
  outcome of each fetch, the parsed envelope of a body and the hash; the clock answers each of its
  readings by its number.  Overlapping reads of one round share one promise in the code; here a
  read runs to its end before the next begins.
\<close>

record beacon =
  bc_round :: int
  bc_signature :: string
  bc_randomness :: string

text \<open>The \<^verbatim>\<open>Retry-After\<close> header: absent, a number of milliseconds, or a date (\<^const>\<open>None\<close> when it
  does not parse).\<close>

datatype retry_after = NoHeader | Delay int | Date "int option"

record envelope =
  en_round :: "int option"
  en_signature :: "string option"
  en_randomness :: "string option"

datatype fetch_outcome = FetchFailed
  | Response int retry_after int "nat list option" string

record beacon_world =
  bw_endpoints :: "string list"
  bw_https :: "string \<Rightarrow> bool"
  bw_host :: "string \<Rightarrow> string"
  bw_fetch :: "string \<Rightarrow> int \<Rightarrow> nat \<Rightarrow> fetch_outcome"
  bw_envelope :: "string \<Rightarrow> envelope option"
  bw_sha256 :: "string \<Rightarrow> string"
  bw_now :: "nat \<Rightarrow> int"

text \<open>The state of the transport: the cache in insertion order, the endpoints' retry times and the
  number of clock readings so far.\<close>

record beacon_state =
  bs_cache :: "(int \<times> beacon) list"
  bs_retry :: "string \<Rightarrow> int option"
  bs_ticks :: nat

definition clock :: "beacon_world \<Rightarrow> (int, beacon_state) io" where
  "clock w = (\<lambda>s. (Inr (bw_now w (bs_ticks s)), s\<lparr>bs_ticks := bs_ticks s + 1\<rparr>))"


definition set_retry :: "string \<Rightarrow> int \<Rightarrow> (unit, beacon_state) io" where
  "set_retry endpoint t = modify (\<lambda>s. s\<lparr>bs_retry := (bs_retry s)(endpoint \<mapsto> t)\<rparr>)"











subsection \<open>Properties\<close>




lemma clock_cache [triple_rules]: "keeps (\<lambda>s. bs_cache s = c) (clock w)"
  by (simp add: keeps_def triple_def clock_def)

lemma set_retry_cache [triple_rules]: "keeps (\<lambda>s. bs_cache s = c) (set_retry e t)"
  by (simp add: keeps_def triple_def set_retry_def modify_def)














subsection \<open>The pump\<close>

record request_state =
  rq_playing :: bool
  rq_request :: int
  rq_pending :: int

text \<open>The round is the low 64 bits of the request.  An offer is taken up for a running match with a
  committed round and no verified draw, when the retry time has passed and the round is out.\<close>

definition request_round :: "int \<Rightarrow> int" where
  "request_round request = request AND (2 ^ 64 - 1)"

definition offer_due :: "int \<Rightarrow> int \<Rightarrow> request_state \<Rightarrow> bool" where
  "offer_due now retry s \<longleftrightarrow> \<not> (\<not> rq_playing s \<or> request_round (rq_request s) = 0 \<or> rq_pending s \<noteq> 0 \<or> now < retry
     \<or> now div 1000 < 1727521075 + (request_round (rq_request s) - 1) * 3)"

text \<open>What a run does, with the answers of the beacon, of the fresh read and of the send: the proof it
  sends, or the error it ends with.  \<open>retryAt\<close> is the time an error carries.\<close>

definition pump_run ::
    "(int \<Rightarrow> beacon res) \<Rightarrow> request_state res \<Rightarrow> (int \<Rightarrow> string \<Rightarrow> unit res) \<Rightarrow> request_state
     \<Rightarrow> (int \<times> string) option \<times> unit res" where
  "pump_run beacon fresh send s =
    (case beacon (request_round (rq_request s)) of Inl e \<Rightarrow> (None, Inl e)
     | Inr proof \<Rightarrow> case fresh of Inl e \<Rightarrow> (None, Inl e)
       | Inr current \<Rightarrow>
         if rq_playing current \<and> rq_request current = rq_request s \<and> rq_pending current = 0
         then (Some (rq_request s, bc_signature proof), send (rq_request s) (bc_signature proof))
         else (None, Inr ()))"

text \<open>The retry entry after a run: removed on success, set after the later of two seconds and the
  time of the error, with at most 128 entries kept.\<close>

definition pump_retry :: "string \<Rightarrow> int \<Rightarrow> int \<Rightarrow> unit res \<Rightarrow> (string \<times> int) list \<Rightarrow> (string \<times> int) list" where
  "pump_retry key now retryAt result retry =
    (case result of Inr _ \<Rightarrow> filter (\<lambda>(k, v). k \<noteq> key) retry
     | Inl _ \<Rightarrow> let t = max (now + 2000) retryAt;
           retry = (if key \<in> fst ` set retry then map (\<lambda>(k, v). if k = key then (k, t) else (k, v)) retry
                    else retry @ [(key, t)])
         in drop (length retry - 128) retry)"

lemma pump_sends_current:
  "pump_run beacon fresh send s = (Some (request, signature), r) \<Longrightarrow>
    request = rq_request s \<and> (\<exists>b. beacon (request_round request) = Inr b \<and> signature = bc_signature b)
    \<and> (\<exists>c. fresh = Inr c \<and> rq_playing c \<and> rq_request c = request \<and> rq_pending c = 0)"
  by (auto simp add: pump_run_def split: sum.split_asm if_split_asm)

lemma pump_retry_bounded: "length retry \<le> 128 \<Longrightarrow> length (pump_retry key now retryAt result retry) \<le> 128"
  by (auto simp add: pump_retry_def Let_def split: sum.split intro: le_trans [OF length_filter_le])

lemma offer_after_round: "offer_due now retry s \<Longrightarrow>
    DRAND_GENESIS + (request_round (rq_request s) - 1) * DRAND_PERIOD \<le> now div 1000 \<and> retry \<le> now"
  by (auto simp add: offer_due_def DRAND_GENESIS_def DRAND_PERIOD_def not_less)

subsection \<open>Publication of a pause\<close>

text \<open>\<^verbatim>\<open>sameChaosPause\<close> on the fields of the published getter it reads: the id, the phase and the state.\<close>

record pause_state =
  pz_mode :: int
  pz_awaitingServe :: bool
  pz_seed :: string
  pz_scoreA :: int
  pz_scoreB :: int
  pz_resumeAt :: int

definition sameChaosPause :: "int \<Rightarrow> pause_state \<Rightarrow> int \<Rightarrow> int \<Rightarrow> pause_state option \<Rightarrow> bool" where
  "sameChaosPause i expected published_id published_phase published \<longleftrightarrow>
     published_id = i \<and> published_phase = 2 \<and> pz_mode expected = 1 \<and> pz_awaitingServe expected
     \<and> (case published of None \<Rightarrow> False
        | Some s \<Rightarrow> pz_mode s = 1 \<and> pz_awaitingServe s \<and> pz_seed s = pz_seed expected
            \<and> pz_scoreA s = pz_scoreA expected \<and> pz_scoreB s = pz_scoreB expected
            \<and> pz_resumeAt s = pz_resumeAt expected)"

text \<open>An error with its chain of causes: the reason, the first argument of an \<^verbatim>\<open>Error\<close> revert, and the
  details.\<close>

record error_link =
  er_reason :: "string option"
  er_revert :: "string option"
  er_details :: "string option"

definition window_reasons :: "string list" where
  "window_reasons = [''not a Chaos pause'', ''round already opened'', ''result already accepted'']"

definition link_moved :: "error_link \<Rightarrow> bool" where
  "link_moved e \<longleftrightarrow>
     (case (case er_reason e of Some r \<Rightarrow> Some r | None \<Rightarrow> er_revert e) of
        None \<Rightarrow> False | Some r \<Rightarrow> r \<in> set window_reasons)
     \<or> (case er_details e of None \<Rightarrow> False
        | Some d \<Rightarrow> d \<in> set (map (\<lambda>r. ''execution reverted: '' @ r) window_reasons))"

definition chaosWindowMoved :: "error_link list \<Rightarrow> bool" where
  "chaosWindowMoved causes \<longleftrightarrow> list_ex link_moved (take 8 causes)"

end
