(* ===== verification/Engine_Stream.thy ===== *)
theory Engine_Stream
  imports Chaos_Codec Js_Text
begin

text \<open>
  \<^verbatim>\<open>shared/engine-stream.ts\<close>: frames of applied events, their merge into the known state of a match,
  and the subscription of a client to a node.  The event and ABI decoders are the argument
  \<open>frame_decoder\<close>; telemetry (\<^verbatim>\<open>recordRpc\<close>) is left out.
\<close>

subsection \<open>Frames\<close>

record event_log =
  lg_address :: string
  lg_topics :: "string list"
  lg_data :: string

record engine_frame =
  ef_app :: string
  ef_hash :: string
  ef_head :: int
  ef_logs :: "event_log list"

record engine_state =
  es_id :: int
  es_revision :: int
  es_phase :: int
  es_a :: string
  es_b :: string
  es_target :: string
  es_winner :: string
  es_head :: int
  es_clock :: int
  es_nonceA :: int
  es_nonceB :: int
  es_deadline :: int
  es_state :: state
  es_chaos :: "chaos_decoded option"
  es_observedAt :: int
  es_reset :: bool

text \<open>\<^verbatim>\<open>/^0x[\da-f]*$/i\<close> of even length, of \<open>n\<close> bytes where a length is given.\<close>

definition hex :: "string \<Rightarrow> nat option \<Rightarrow> bool" where
  "hex v n \<longleftrightarrow> length v \<ge> 2 \<and> lower (take 2 v) = ''0x'' \<and> list_all is_hex (drop 2 v) \<and> even (length v)
     \<and> (case n of None \<Rightarrow> True | Some k \<Rightarrow> length v = 2 + k * 2)"

text \<open>A value of the node as the code reads it: a field that is missing or of another type is
  \<^const>\<open>None\<close>; \<open>rv_blockNumber\<close> is the result of the conversion to \<^verbatim>\<open>bigint\<close> (\<^const>\<open>None\<close> for an
  unsafe number or a failed conversion).\<close>

record raw_log =
  rl_address :: "string option"
  rl_topics :: "string option list option"
  rl_data :: "string option"

record raw_value =
  rv_succeeded :: bool
  rv_app :: "string option"
  rv_to :: "string option"
  rv_hash :: "string option"
  rv_blockNumber :: "int option"
  rv_logs :: "raw_log list option"

definition hex_field :: "string option \<Rightarrow> nat option \<Rightarrow> bool" where
  "hex_field v n = (case v of None \<Rightarrow> False | Some s \<Rightarrow> hex s n)"

definition good_log :: "raw_log \<Rightarrow> bool" where
  "good_log l \<longleftrightarrow> hex_field (rl_address l) (Some 20) \<and> hex_field (rl_data l) None
     \<and> (case rl_topics l of None \<Rightarrow> False | Some ts \<Rightarrow> list_all (\<lambda>t. hex_field t (Some 32)) ts)"

definition log_of :: "raw_log \<Rightarrow> event_log" where
  "log_of l = \<lparr>lg_address = the (rl_address l), lg_topics = map the (the (rl_topics l)), lg_data = the (rl_data l)\<rparr>"

definition appliedFrame :: "raw_value \<Rightarrow> string \<Rightarrow> engine_frame option" where
  "appliedFrame v app =
    (if \<not> rv_succeeded v \<or> map_option lower (rv_app v) \<noteq> Some (lower app)
       \<or> map_option lower (rv_to v) \<noteq> Some (lower app) \<or> \<not> hex_field (rv_hash v) (Some 32) \<or> rv_logs v = None
     then None
     else case rv_blockNumber v of None \<Rightarrow> None
       | Some head \<Rightarrow> if head < 0 then None
         else Some \<lparr>ef_app = app, ef_hash = the (rv_hash v), ef_head = head,
           ef_logs = map log_of (filter good_log (the (rv_logs v)))\<rparr>)"

text \<open>A receipt: its status, its transaction hash, and the value otherwise.\<close>

definition receiptFrame :: "string \<Rightarrow> string option \<Rightarrow> raw_value \<Rightarrow> string \<Rightarrow> engine_frame option" where
  "receiptFrame status transactionHash receipt app =
    (if status \<notin> {''0x1'', ''1'', ''success''} then None
     else appliedFrame (receipt\<lparr>rv_app := Some app, rv_to := Some app, rv_hash := transactionHash,
       rv_succeeded := True\<rparr>) app)"

subsection \<open>Merging a frame\<close>

datatype engine_event =
    SnapshotEvent int int int string
  | CompletedEvent int string
  | RequestedEvent int int
  | VerifiedEvent int int
  | CollisionEvent int int
  | OtherEvent int

definition event_id :: "engine_event \<Rightarrow> int" where
  "event_id e = (case e of SnapshotEvent i _ _ _ \<Rightarrow> i | CompletedEvent i _ \<Rightarrow> i | RequestedEvent i _ \<Rightarrow> i
     | VerifiedEvent i _ \<Rightarrow> i | CollisionEvent i _ \<Rightarrow> i | OtherEvent i \<Rightarrow> i)"

record frame_decoder =
  fd_event :: "event_log \<Rightarrow> engine_event option"
  fd_chaos :: "string \<Rightarrow> (int \<times> int \<times> int list) res"
  fd_state :: "string \<Rightarrow> state res"

text \<open>What the loop over the logs collects: the last snapshot (version, status, state), the winner of a
  completion, a new request with its pending draw, and the collisions.\<close>

record collected =
  co_snapshot :: "(int \<times> int \<times> string) option"
  co_completed :: "string option"
  co_request :: "int option"
  co_pending :: "int option"
  co_collisions :: "chaos_hit list"

definition collect_event :: "engine_event \<Rightarrow> collected \<Rightarrow> collected" where
  "collect_event e c = (case e of
       SnapshotEvent _ version status st \<Rightarrow> c\<lparr>co_snapshot := Some (version, status, st)\<rparr>
     | CompletedEvent _ winner \<Rightarrow> c\<lparr>co_completed := Some winner\<rparr>
     | RequestedEvent _ request \<Rightarrow> c\<lparr>co_request := Some request, co_pending := Some 0\<rparr>
     | VerifiedEvent _ draw \<Rightarrow> c\<lparr>co_pending := Some draw\<rparr>
     | CollisionEvent _ collision \<Rightarrow> c\<lparr>co_collisions := co_collisions c @ [unpackChaosCollision collision]\<rparr>
     | OtherEvent _ \<Rightarrow> c)"

definition collect_log :: "frame_decoder \<Rightarrow> string \<Rightarrow> int \<Rightarrow> event_log \<Rightarrow> collected \<Rightarrow> collected" where
  "collect_log D app i l c =
    (if lower (lg_address l) \<noteq> lower app then c
     else case fd_event D l of None \<Rightarrow> c
       | Some e \<Rightarrow> if event_id e \<noteq> i then c else collect_event e c)"

definition collect :: "frame_decoder \<Rightarrow> string \<Rightarrow> int \<Rightarrow> event_log list \<Rightarrow> collected" where
  "collect D app i logs = fold (collect_log D app i) logs
     \<lparr>co_snapshot = None, co_completed = None, co_request = None, co_pending = None, co_collisions = []\<rparr>"

record merged =
  mg_state :: engine_state
  mg_resync :: bool
  mg_changed :: bool
  mg_gap :: "int option"

definition unchanged :: "engine_state \<Rightarrow> merged" where
  "unchanged previous = \<lparr>mg_state = previous, mg_resync = False, mg_changed = False, mg_gap = None\<rparr>"

definition needs_read :: "engine_state \<Rightarrow> merged" where
  "needs_read previous = \<lparr>mg_state = previous, mg_resync = True, mg_changed = False, mg_gap = None\<rparr>"

text \<open>The physics of a snapshot: the state, the Chaos part and the two nonces.\<close>

definition snapshot_physics ::
    "frame_decoder \<Rightarrow> engine_state \<Rightarrow> collected \<Rightarrow> int \<Rightarrow> string
     \<Rightarrow> (state \<times> chaos_decoded option \<times> int \<times> int) res" where
  "snapshot_physics D previous c status st =
    (case es_chaos previous of
       None \<Rightarrow> rbind (fd_state D st) (\<lambda>s. Inr (s, None, es_nonceA previous, es_nonceB previous))
     | Some chaos \<Rightarrow> rbind (fd_chaos D st) (\<lambda>(version, control, words).
         rbind (guard ''Unknown Chaos snapshot'' (version = 6)) (\<lambda>_.
         rbind (unpackChaos words (s_seed (es_state previous)) control) (\<lambda>physics.
         Inr (chaosLegacy physics (status \<ge> 3),
           Some \<lparr>cd_physics = physics,
             cd_request = (case co_request c of Some r \<Rightarrow> r | None \<Rightarrow> cd_request chaos),
             cd_pending = (case co_pending c of Some p \<Rightarrow> p | None \<Rightarrow> cd_pending chaos),
             cd_collisions = co_collisions c\<rparr>,
           take_bit 64 (drop_bit 16 control), take_bit 64 (drop_bit 80 control))))))"

definition mergeEngineFrame ::
    "frame_decoder \<Rightarrow> string \<Rightarrow> engine_state \<Rightarrow> engine_frame \<Rightarrow> int \<Rightarrow> merged" where
  "mergeEngineFrame D app previous frame now =
    (let c = collect D app (es_id previous) (ef_logs frame) in
     case co_snapshot c of None \<Rightarrow> unchanged previous
     | Some (version, status, st) \<Rightarrow>
       if version \<le> es_revision previous then unchanged previous
       else if version \<noteq> es_revision previous + 1 \<or> ef_head frame < es_head previous \<or> es_phase previous < 2
       then (needs_read previous)\<lparr>mg_gap :=
         (if ef_head frame \<ge> es_head previous \<and> es_phase previous \<ge> 2 \<and> version > es_revision previous + 1
          then Some version else None)\<rparr>
       else case snapshot_physics D previous c status st of Inl _ \<Rightarrow> needs_read previous
         | Inr (s, chaos, nonceA, nonceB) \<Rightarrow>
           if status \<ge> 3 \<and> co_completed c = None then needs_read previous
           else let elapsed = es_clock previous + (ef_head frame - es_head previous) * 10000 in
             \<lparr>mg_state = previous\<lparr>es_reset := False, es_revision := version, es_phase := status,
                es_head := ef_head frame,
                es_clock := (if status = 2 then if elapsed > s_t s then elapsed else s_t s else s_t s),
                es_state := s, es_chaos := (case chaos of Some x \<Rightarrow> Some x | None \<Rightarrow> es_chaos previous),
                es_nonceA := nonceA, es_nonceB := nonceB,
                es_winner := (case co_completed c of Some x \<Rightarrow> x | None \<Rightarrow> es_winner previous),
                es_observedAt := now\<rparr>,
              mg_resync = False, mg_changed = True, mg_gap = None\<rparr>)"

subsection \<open>What a merge can do\<close>

text \<open>The three outcomes of a merge.\<close>

lemma merge_cases:
  obtains "mergeEngineFrame D app p f now = unchanged p"
  | g where "mergeEngineFrame D app p f now = (needs_read p)\<lparr>mg_gap := g\<rparr>"
      "\<And>v. g = Some v \<Longrightarrow> es_revision p + 1 < v \<and> es_head p \<le> ef_head f \<and> 2 \<le> es_phase p"
  | n where "mergeEngineFrame D app p f now = \<lparr>mg_state = n, mg_resync = False, mg_changed = True, mg_gap = None\<rparr>"
      "es_revision n = es_revision p + 1" "es_head p \<le> ef_head f" "es_head n = ef_head f" "es_id n = es_id p"
      "s_t (es_state n) \<le> es_clock n" "2 \<le> es_phase p" "\<not> es_reset n" "es_a n = es_a p" "es_b n = es_b p"
proof -
  define c where "c = collect D app (es_id p) (ef_logs f)"
  define M where "M = mergeEngineFrame D app p f now"
  note M = M_def [unfolded mergeEngineFrame_def Let_def, folded c_def]
  show ?thesis
  proof (cases "co_snapshot c")
    case None
    then have "M = unchanged p" by (simp add: M)
    then show ?thesis using that(1) by (simp add: M_def)
  next
    case (Some q)
    obtain version status st where q: "q = (version, status, st)" by (cases q)
    note M = M [unfolded Some q option.case prod.case]
    consider (old) "version \<le> es_revision p"
      | (gap) "\<not> version \<le> es_revision p"
          "version \<noteq> es_revision p + 1 \<or> ef_head f < es_head p \<or> es_phase p < 2"
      | (adjacent) "\<not> version \<le> es_revision p"
          "\<not> (version \<noteq> es_revision p + 1 \<or> ef_head f < es_head p \<or> es_phase p < 2)" by blast
    then show ?thesis
    proof cases
      case old
      then show ?thesis using that(1) M by (simp add: M_def)
    next
      case gap
      have "M = (needs_read p)\<lparr>mg_gap := (if ef_head f \<ge> es_head p \<and> es_phase p \<ge> 2
          \<and> version > es_revision p + 1 then Some version else None)\<rparr>"
        using M unfolding if_not_P [OF gap(1)] if_P [OF gap(2)] .
      then show ?thesis by (intro that(2)) (auto simp add: M_def split: if_split_asm)
    next
      case adjacent
      note M = M [unfolded if_not_P [OF adjacent(1)] if_not_P [OF adjacent(2)]]
      have read: "needs_read p = (needs_read p)\<lparr>mg_gap := None\<rparr>" by (simp add: needs_read_def)
      show ?thesis
      proof (cases "snapshot_physics D p c status st")
        case (Inl e)
        then have "M = (needs_read p)\<lparr>mg_gap := None\<rparr>" using M read by simp
        then show ?thesis using that(2) [of None] by (simp add: M_def)
      next
        case (Inr x)
        obtain s chaos na nb where x: "x = (s, chaos, na, nb)" by (cases x)
        show ?thesis
        proof (cases "status \<ge> 3 \<and> co_completed c = None")
          case True
          then have "M = (needs_read p)\<lparr>mg_gap := None\<rparr>" using M Inr x read by simp
          then show ?thesis using that(2) [of None] by (simp add: M_def)
        next
          case False
          show ?thesis
            by (rule that(3) [of "mg_state M"]; use M Inr x False adjacent in \<open>simp add: M_def [symmetric]\<close>)
        qed
      qed
    qed
  qed
qed

lemma merge_unchanged:
  "\<not> mg_changed (mergeEngineFrame D app p f now) \<Longrightarrow> mg_state (mergeEngineFrame D app p f now) = p"
  by (rule merge_cases [of D app p f now]) (simp_all add: unchanged_def needs_read_def)

lemma merge_changed:
  assumes "mg_changed (mergeEngineFrame D app p f now)"
  shows "\<not> mg_resync (mergeEngineFrame D app p f now)"
    and "es_revision (mg_state (mergeEngineFrame D app p f now)) = es_revision p + 1"
    and "es_head p \<le> es_head (mg_state (mergeEngineFrame D app p f now))"
    and "es_id (mg_state (mergeEngineFrame D app p f now)) = es_id p"
    and "s_t (es_state (mg_state (mergeEngineFrame D app p f now))) \<le> es_clock (mg_state (mergeEngineFrame D app p f now))"
  using assms by (rule_tac merge_cases [of D app p f now]; simp add: unchanged_def needs_read_def)+

lemma merge_gap:
  "mg_gap (mergeEngineFrame D app p f now) = Some v \<Longrightarrow>
    mg_resync (mergeEngineFrame D app p f now) \<and> es_revision p + 1 < v \<and> es_head p \<le> ef_head f \<and> 2 \<le> es_phase p"
  by (rule merge_cases [of D app p f now]) (simp_all add: unchanged_def needs_read_def)

end
