(* ===== verification/Engine_Socket.thy ===== *)
theory Engine_Socket
  imports Engine_Stream
begin











subsection \<open>Properties\<close>












end
