(* ===== verification/Engine_Feed.thy ===== *)
theory Engine_Feed
  imports Engine_Socket
begin

text \<open>
  \<^verbatim>\<open>shared/engine-feed.ts\<close>: the snapshot cache of a deployment.  An entry holds the state of one
  match; applied frames, the answers of full reads and receipts change it.  A function on entries
  also returns the states it publishes to the listeners, in order.  Object identity of the published
  states is the number \<open>en_stamp\<close>.
\<close>

record feed_entry =
  en_value :: "engine_state option"
  en_stamp :: nat
  en_fullAt :: int
  en_dirty :: bool
  en_gap :: "(int \<times> engine_frame) list option"
  en_progressAt :: int

definition new_entry :: "int \<Rightarrow> feed_entry" where
  "new_entry now = \<lparr>en_value = None, en_stamp = 0, en_fullAt = 0, en_dirty = True, en_gap = None, en_progressAt = now\<rparr>"

definition invalidate :: "feed_entry \<Rightarrow> feed_entry" where
  "invalidate e = e\<lparr>en_dirty := True, en_gap := None\<rparr>"

definition publish_state :: "int \<Rightarrow> engine_state \<Rightarrow> feed_entry \<Rightarrow> feed_entry" where
  "publish_state now next e =
    (let moved = (case en_value e of None \<Rightarrow> True
       | Some v \<Rightarrow> s_t (es_state next) > s_t (es_state v) \<or> es_phase next \<noteq> es_phase v) in
     e\<lparr>en_progressAt := (if moved then now else en_progressAt e), en_value := Some next, en_stamp := en_stamp e + 1\<rparr>)"

subsection \<open>Applying a frame\<close>

definition gap_put :: "int \<Rightarrow> engine_frame \<Rightarrow> (int \<times> engine_frame) list \<Rightarrow> (int \<times> engine_frame) list" where
  "gap_put version f g = filter (\<lambda>(k, _). k \<noteq> version) g @ [(version, f)]"

definition gap_remove :: "int \<Rightarrow> (int \<times> engine_frame) list \<Rightarrow> (int \<times> engine_frame) list" where
  "gap_remove version g = filter (\<lambda>(k, _). k \<noteq> version) g"

lemma filter_keys: "map fst (filter (\<lambda>(k, _). pred k) g) = filter pred (map fst g)"
  by (induction g) auto

lemma gap_remove_keys: "map fst (gap_remove version g) = filter (\<lambda>k. k \<noteq> version) (map fst g)"
  unfolding gap_remove_def by (rule filter_keys)

lemma gap_remove_less: "map_of g k = Some f \<Longrightarrow> length (gap_remove k g) < length g"
proof -
  assume "map_of g k = Some f"
  then have "(k, f) \<in> set g" by (rule map_of_SomeD)
  then show ?thesis unfolding gap_remove_def by (intro length_filter_less [of "(k, f)"]) simp_all
qed

text \<open>The frames that were waiting behind the published one are merged in their order; \<open>None\<close> in place
  of the gap when one of them does not fit.\<close>

function drain_gap ::
    "frame_decoder \<Rightarrow> string \<Rightarrow> int \<Rightarrow> (int \<times> engine_frame) list \<Rightarrow> engine_state
     \<Rightarrow> engine_state list \<times> (int \<times> engine_frame) list option" where
  "drain_gap D app now g v =
    (case map_of g (es_revision v + 1) of None \<Rightarrow> ([], Some g)
     | Some f \<Rightarrow>
       let ordered = mergeEngineFrame D app v f now in
       if mg_resync ordered \<or> \<not> mg_changed ordered then ([], None)
       else let (out, g') = drain_gap D app now (gap_remove (es_revision v + 1) g) (mg_state ordered)
         in (mg_state ordered # out, g'))"
  by auto
termination by (relation "measure (\<lambda>(D, app, now, g, v). length g)") (auto simp add: gap_remove_less)

declare drain_gap.simps [simp del]

definition apply_entry ::
    "frame_decoder \<Rightarrow> string \<Rightarrow> int \<Rightarrow> engine_frame \<Rightarrow> feed_entry \<Rightarrow> feed_entry \<times> engine_state list" where
  "apply_entry D app now f e =
    (case en_value e of None \<Rightarrow> (e, [])
     | Some v \<Rightarrow>
       let merged = mergeEngineFrame D app v f now in
       if mg_resync merged then
         (e\<lparr>en_gap := (case mg_gap merged of
              Some version \<Rightarrow>
                if (\<not> en_dirty e \<or> en_gap e \<noteq> None) \<and> version - es_revision v \<le> 8
                then Some (gap_put version f (case en_gap e of None \<Rightarrow> [] | Some g \<Rightarrow> g)) else None
            | None \<Rightarrow> None), en_dirty := True\<rparr>, [])
       else if mg_changed merged then
         let next = mg_state merged; e1 = publish_state now next e in
         case en_gap e of None \<Rightarrow> (e1, [next])
         | Some g \<Rightarrow>
           let g1 = filter (\<lambda>(k, _). \<not> k \<le> es_revision next) g;
               (out, g2) = drain_gap D app now g1 next;
               e2 = fold (publish_state now) out e1
           in (if g2 = Some [] then e2\<lparr>en_gap := None, en_dirty := False\<rparr> else e2\<lparr>en_gap := g2\<rparr>, next # out)
       else (e, []))"

subsection \<open>Reading\<close>

text \<open>Whether the cached state answers a read: it is clean, was fully read within ten seconds and
  observed within the freshness of its phase.\<close>

definition freshness :: "bool \<Rightarrow> feed_entry \<Rightarrow> int" where
  "freshness connected e =
    (let waiting = (case en_value e of None \<Rightarrow> False | Some v \<Rightarrow> es_phase v \<noteq> 2 \<or> s_awaitingServe (es_state v))
     in if connected then if waiting then 10000 else 600 else 500)"

definition cached_read :: "bool \<Rightarrow> bool \<Rightarrow> int \<Rightarrow> feed_entry \<Rightarrow> engine_state option" where
  "cached_read forced connected now e =
    (case en_value e of None \<Rightarrow> None
     | Some v \<Rightarrow> if \<not> forced \<and> \<not> en_dirty e \<and> now - en_fullAt e < 10000
         \<and> now - es_observedAt v < freshness connected e then Some v else None)"

text \<open>The completion of a full read.  \<open>requested\<close> is the stamp when the read was sent, \<open>e\<close> the entry when
  it arrived; \<open>verify\<close> is the second read and \<open>e2\<close> the entry after it, where one is made.  The result
  is the state the read answers with, the entry and what it publishes.\<close>

definition full_read ::
    "int \<Rightarrow> nat \<Rightarrow> feed_entry \<Rightarrow> engine_state \<Rightarrow> engine_state res \<Rightarrow> feed_entry \<Rightarrow> int
     \<Rightarrow> engine_state res \<times> feed_entry \<times> engine_state list" where
  "full_read i requested e incoming verify e2 now =
    (let adopt = (\<lambda>e incoming. let e' = publish_state now incoming (e\<lparr>en_fullAt := now, en_dirty := False, en_gap := None\<rparr>)
         in (Inr incoming, e', [incoming])) in
     if es_id incoming \<noteq> i then (Inl ''Snapshot belongs to another match'', e, [])
     else case en_value e of None \<Rightarrow> adopt e incoming
     | Some current \<Rightarrow>
       if \<not> en_dirty e \<and> en_stamp e \<noteq> requested \<and> es_revision incoming < es_revision current
       then (Inr current, e, [])
       else if es_revision incoming < es_revision current then
         if \<not> en_dirty e then (Inl ''Engine snapshot is behind the applied stream'', e\<lparr>en_dirty := True\<rparr>, [])
         else (case verify of Inl x \<Rightarrow> (Inl x, e2, [])
           | Inr v \<Rightarrow>
             if en_stamp e2 \<noteq> en_stamp e \<or> es_id v \<noteq> i \<or> es_revision v \<noteq> es_revision incoming
               \<or> s_t (es_state v) \<noteq> s_t (es_state incoming) \<or> es_head v < es_head incoming
             then (Inl ''Engine reset is not yet consistent'', e2, [])
             else adopt e2 (v\<lparr>es_reset := True\<rparr>))
       else if es_revision incoming = es_revision current \<and> es_head incoming < es_head current then
         if s_t (es_state incoming) \<noteq> s_t (es_state current)
         then (Inl ''Engine clock needs reconciliation'', e, [])
         else adopt e (incoming\<lparr>es_reset := True\<rparr>)
       else adopt e incoming)"

subsection \<open>Receipts\<close>

text \<open>Whether a frame holds a snapshot of the match.\<close>

definition receipt_matches :: "frame_decoder \<Rightarrow> string \<Rightarrow> int \<Rightarrow> engine_frame option \<Rightarrow> bool" where
  "receipt_matches D app i frame =
    (case frame of None \<Rightarrow> False
     | Some f \<Rightarrow> list_ex (\<lambda>l. lower (lg_address l) = lower app
         \<and> (case fd_event D l of Some (SnapshotEvent j _ _ _) \<Rightarrow> j = i | _ \<Rightarrow> False)) (ef_logs f))"

text \<open>The last step of a receipt: a successful input raises the nonce of its sender.\<close>

definition receipt_nonce ::
    "int \<Rightarrow> engine_frame option \<Rightarrow> string \<Rightarrow> int \<Rightarrow> int \<Rightarrow> string \<Rightarrow> int \<Rightarrow> feed_entry \<Rightarrow> feed_entry \<times> engine_state list" where
  "receipt_nonce i frame name target nonce account now e =
    (case en_value e of None \<Rightarrow> (e, [])
     | Some v \<Rightarrow>
       if frame \<noteq> None \<and> \<not> en_dirty e \<and> name = ''input'' \<and> target = i \<and> es_phase v = 2 then
         if lower account = lower (es_a v)
         then let n = v\<lparr>es_nonceA := (if es_nonceA v > nonce then es_nonceA v else nonce)\<rparr> in (publish_state now n e, [n])
         else if lower account = lower (es_b v)
         then let n = v\<lparr>es_nonceB := (if es_nonceB v > nonce then es_nonceB v else nonce)\<rparr> in (publish_state now n e, [n])
         else (e, [])
       else (e, []))"

subsection \<open>The backup pilot\<close>

record tick_pilot =
  tp_progress :: int
  tp_at :: int
  tp_lastOwn :: int
  tp_backup :: bool
  tp_writing :: bool

definition new_pilot :: tick_pilot where
  "new_pilot = \<lparr>tp_progress = -1, tp_at = 0, tp_lastOwn = 0, tp_backup = False, tp_writing = False\<rparr>"

definition pilot_sending :: "bool \<Rightarrow> tick_pilot \<Rightarrow> tick_pilot" where
  "pilot_sending value p = p\<lparr>tp_writing := value\<rparr>"

definition pilot_observe :: "engine_state \<Rightarrow> int \<Rightarrow> bool \<Rightarrow> tick_pilot \<Rightarrow> tick_pilot" where
  "pilot_observe s now own p =
    (if s_t (es_state s) = tp_progress p then p
     else let p = p\<lparr>tp_progress := s_t (es_state s), tp_at := now\<rparr> in
       if own then p\<lparr>tp_lastOwn := now\<rparr>
       else if \<not> tp_writing p \<and> now - tp_lastOwn p > 100 then p\<lparr>tp_backup := False\<rparr> else p)"

definition pilot_due :: "int \<Rightarrow> engine_state \<Rightarrow> int \<Rightarrow> tick_pilot \<Rightarrow> bool \<times> tick_pilot" where
  "pilot_due side s now p =
    (if side < 0 \<or> es_phase s \<noteq> 2 \<or> s_awaitingServe (es_state s) then (False, p)
     else if side = 0 then (now - tp_at p \<ge> 300, p)
     else let p = (if \<not> tp_backup p \<and> now - tp_at p \<ge> 900 then p\<lparr>tp_backup := True\<rparr> else p)
       in (tp_backup p \<and> now - tp_at p \<ge> 300, p))"

subsection \<open>The published states are consecutive\<close>

text \<open>The entry's invariant: frames are only kept for a dirty entry, under distinct versions, and each
  is a true gap of at most eight revisions.\<close>

definition gap_ok :: "feed_entry \<Rightarrow> bool" where
  "gap_ok e = (case en_gap e of None \<Rightarrow> True
     | Some g \<Rightarrow> en_dirty e \<and> g \<noteq> [] \<and> distinct (map fst g) \<and>
         (case en_value e of None \<Rightarrow> False
          | Some v \<Rightarrow> list_all (\<lambda>k. es_revision v + 1 < k \<and> k \<le> es_revision v + 8) (map fst g)))"

fun chained :: "engine_state \<Rightarrow> engine_state list \<Rightarrow> bool" where
  "chained v [] = True"
| "chained v (n # ns) \<longleftrightarrow> es_revision n = es_revision v + 1 \<and> es_head v \<le> es_head n \<and> es_id n = es_id v
     \<and> s_t (es_state n) \<le> es_clock n \<and> chained n ns"

lemma chained_append: "chained v (xs @ ys) \<longleftrightarrow> chained v xs \<and> chained (last (v # xs)) ys"
  by (induction xs arbitrary: v) auto

lemma chained_revisions:
  "chained v ns \<Longrightarrow> map es_revision ns = map (\<lambda>i. es_revision v + int i) [1..<Suc (length ns)]"
proof (induction ns arbitrary: v)
  case Nil
  then show ?case by simp
next
  case (Cons n ns)
  have "map es_revision ns = map (\<lambda>i. es_revision n + int i) [1..<Suc (length ns)]"
    using Cons.prems by (intro Cons.IH) simp
  also have "\<dots> = map (\<lambda>i. es_revision v + int i) (map Suc [1..<Suc (length ns)])"
    using Cons.prems by simp
  also have "map Suc [1..<Suc (length ns)] = [2..<Suc (Suc (length ns))]"
    by (simp add: map_Suc_upt numeral_2_eq_2)
  finally have rest: "map es_revision ns = map (\<lambda>i. es_revision v + int i) [2..<Suc (Suc (length ns))]" .
  have split: "[1..<Suc (Suc (length ns))] = 1 # [2..<Suc (Suc (length ns))]"
    by (subst upt_conv_Cons) (simp_all add: numeral_2_eq_2)
  show ?case unfolding list.map list.size split add_Suc_right plus_nat.add_0
    using rest split Cons.prems by simp
qed

lemma chained_heads: "chained v ns \<Longrightarrow> sorted (map es_head (v # ns))"
proof (induction ns arbitrary: v)
  case (Cons n ns)
  have "sorted (map es_head (n # ns))" by (rule Cons.IH) (use Cons.prems in simp)
  moreover have "es_head v \<le> es_head n" using Cons.prems by simp
  ultimately show ?case by auto
qed simp

lemma chained_ids: "chained v ns \<Longrightarrow> list_all (\<lambda>n. es_id n = es_id v \<and> s_t (es_state n) \<le> es_clock n) ns"
  by (induction ns arbitrary: v) (auto simp add: list_all_iff)

lemma publish_state_simps [simp]:
  "en_value (publish_state now n e) = Some n" "en_gap (publish_state now n e) = en_gap e"
  "en_dirty (publish_state now n e) = en_dirty e" "en_fullAt (publish_state now n e) = en_fullAt e"
  by (simp_all add: publish_state_def)

lemma fold_publish_state_simps [simp]:
  "en_gap (fold (publish_state now) ns e) = en_gap e" "en_dirty (fold (publish_state now) ns e) = en_dirty e"
  "en_fullAt (fold (publish_state now) ns e) = en_fullAt e"
  by (induction ns arbitrary: e) simp_all

lemma fold_publish_value: "en_value e = Some v \<Longrightarrow> en_value (fold (publish_state now) ns e) = Some (last (v # ns))"
  by (induction ns arbitrary: e v) auto

text \<open>Draining the gap continues the chain and leaves only true gaps.\<close>

lemma drain_gap_chained:
  "drain_gap D app now g v = (out, g') \<Longrightarrow> distinct (map fst g) \<Longrightarrow>
   list_all (\<lambda>k. es_revision v < k \<and> k \<le> m) (map fst g) \<Longrightarrow>
   chained v out \<and> (\<forall>h. g' = Some h \<longrightarrow> distinct (map fst h) \<and>
     list_all (\<lambda>k. es_revision (last (v # out)) + 1 < k \<and> k \<le> m) (map fst h))"
proof (induction D app now g v arbitrary: out g' rule: drain_gap.induct)
  case (1 D app now g v)
  show ?case
  proof (cases "map_of g (es_revision v + 1)")
    case None
    then have "out = []" "g' = Some g" using "1.prems"(1) by (simp_all add: drain_gap.simps [of D app now g])
    moreover have "es_revision v + 1 \<notin> set (map fst g)" using None by (simp add: map_of_eq_None_iff)
    then have "list_all (\<lambda>k. es_revision v + 1 < k \<and> k \<le> m) (map fst g)"
      using "1.prems"(3) unfolding list_all_iff by (metis add1_zle_eq order_le_less)
    ultimately show ?thesis using "1.prems"(2) by simp
  next
    case (Some f)
    define M where "M = mergeEngineFrame D app v f now"
    show ?thesis
    proof (cases "mg_resync M \<or> \<not> mg_changed M")
      case True
      then have "out = []" "g' = None"
        using "1.prems"(1) Some by (auto simp add: drain_gap.simps [of D app now g] M_def)
      then show ?thesis by simp
    next
      case False
      define h where "h = gap_remove (es_revision v + 1) g"
      obtain ns h' where rest: "drain_gap D app now h (mg_state M) = (ns, h')" by (cases "drain_gap D app now h (mg_state M)")
      then have out: "out = mg_state M # ns" "g' = h'"
        using "1.prems"(1) Some False by (auto simp add: drain_gap.simps [of D app now g] M_def h_def)
      have ch: "mg_changed M" using False by simp
      note step = merge_changed [of D app v f now, folded M_def, OF ch]
      have "map fst h = filter (\<lambda>k. k \<noteq> es_revision v + 1) (map fst g)"
        unfolding h_def by (rule gap_remove_keys)
      then have "distinct (map fst h)" "list_all (\<lambda>k. es_revision (mg_state M) < k \<and> k \<le> m) (map fst h)"
        using "1.prems"(2,3) step(2) by (auto simp add: list_all_iff)
      then have "chained (mg_state M) ns \<and> (\<forall>h. h' = Some h \<longrightarrow> distinct (map fst h) \<and>
          list_all (\<lambda>k. es_revision (last (mg_state M # ns)) + 1 < k \<and> k \<le> m) (map fst h))"
        using "1.IH" [OF Some M_def False] rest unfolding h_def by simp
      then show ?thesis using out step by simp
    qed
  qed
qed

definition entry_step :: "feed_entry \<Rightarrow> feed_entry \<times> engine_state list \<Rightarrow> bool" where
  "entry_step e r = (case en_value e of None \<Rightarrow> r = (e, [])
     | Some v \<Rightarrow> chained v (snd r) \<and> en_value (fst r) = Some (last (v # snd r))
         \<and> gap_ok (fst r) \<and> en_fullAt (fst r) = en_fullAt e \<and> (en_dirty (fst r) \<or> en_gap (fst r) = None))"

lemma gap_put_keys: "map fst (gap_put version f g) = filter (\<lambda>k. k \<noteq> version) (map fst g) @ [version]"
  by (simp add: gap_put_def filter_keys)

lemma apply_entry_step:
  assumes "gap_ok e"
  shows "entry_step e (apply_entry D app now f e)"
proof (cases "en_value e")
  case None
  then show ?thesis by (simp add: entry_step_def apply_entry_def)
next
  case (Some v)
  define M where "M = mergeEngineFrame D app v f now"
  define R where "R = apply_entry D app now f e"
  note R = R_def [unfolded apply_entry_def Some option.case Let_def, folded M_def]
  have goal: "entry_step e R \<longleftrightarrow> chained v (snd R) \<and> en_value (fst R) = Some (last (v # snd R))
      \<and> gap_ok (fst R) \<and> en_fullAt (fst R) = en_fullAt e \<and> (en_dirty (fst R) \<or> en_gap (fst R) = None)"
    unfolding entry_step_def Some option.case ..
  consider (read) "mg_resync M" | (changed) "\<not> mg_resync M" "mg_changed M" | (same) "\<not> mg_resync M" "\<not> mg_changed M" by blast
  then have "entry_step e R"
  proof cases
    case read
    note R = R [unfolded if_P [OF read]]
    show ?thesis
    proof (cases "mg_gap M")
      case None
      then show ?thesis using R Some by (simp add: entry_step_def gap_ok_def)
    next
      case (Some version)
      then have far: "es_revision v + 1 < version" using merge_gap [of D app v f now version] by (simp add: M_def)
      show ?thesis
      proof (cases "(\<not> en_dirty e \<or> en_gap e \<noteq> None) \<and> version - es_revision v \<le> 8")
        case False
        then show ?thesis using R Some \<open>en_value e = Some v\<close> by (auto simp add: entry_step_def gap_ok_def)
      next
        case True
        define g where "g = (case en_gap e of None \<Rightarrow> [] | Some g \<Rightarrow> g)"
        have g: "distinct (map fst g)" "list_all (\<lambda>k. es_revision v + 1 < k \<and> k \<le> es_revision v + 8) (map fst g)"
          using assms \<open>en_value e = Some v\<close> by (auto simp add: g_def gap_ok_def split: option.splits)
        have "R = (e\<lparr>en_gap := Some (gap_put version f g), en_dirty := True\<rparr>, [])"
          using R True Some by (simp add: g_def)
        moreover have "gap_ok (e\<lparr>en_gap := Some (gap_put version f g), en_dirty := True\<rparr>)"
          using g far True \<open>en_value e = Some v\<close> unfolding gap_ok_def
          by (simp add: gap_put_keys) (auto simp add: gap_put_def list_all_iff)
        ultimately show ?thesis using \<open>en_value e = Some v\<close> by (simp add: entry_step_def)
      qed
    qed
  next
    case same
    have clean: "en_dirty e \<or> en_gap e = None" using assms by (auto simp add: gap_ok_def split: option.splits)
    show ?thesis using R same Some assms clean by (simp add: entry_step_def)
  next
    case changed
    note step = merge_changed [of D app v f now, folded M_def, OF changed(2)]
    note R = R [unfolded if_not_P [OF changed(1)] if_P [OF changed(2)]]
    show ?thesis
    proof (cases "en_gap e")
      case None
      then show ?thesis using R step \<open>en_value e = Some v\<close> by (simp add: entry_step_def gap_ok_def)
    next
      case (Some g)
      define g1 where "g1 = filter (\<lambda>(k, _). \<not> k \<le> es_revision (mg_state M)) g"
      obtain out g2 where d: "drain_gap D app now g1 (mg_state M) = (out, g2)" by (cases "drain_gap D app now g1 (mg_state M)")
      have g: "en_dirty e" "distinct (map fst g)" "list_all (\<lambda>k. es_revision v + 1 < k \<and> k \<le> es_revision v + 8) (map fst g)"
        using assms \<open>en_value e = Some v\<close> Some by (auto simp add: gap_ok_def)
      have keys: "map fst g1 = filter (\<lambda>k. \<not> k \<le> es_revision (mg_state M)) (map fst g)"
        unfolding g1_def by (rule filter_keys)
      have dr: "chained (mg_state M) out \<and> (\<forall>h. g2 = Some h \<longrightarrow> distinct (map fst h) \<and>
          list_all (\<lambda>k. es_revision (last (mg_state M # out)) + 1 < k \<and> k \<le> es_revision v + 8) (map fst h))"
        by (rule drain_gap_chained [OF d]) (use g keys in \<open>auto simp add: list_all_iff\<close>)
      have ch: "chained v (mg_state M # out)" using step dr by simp
      have le: "es_revision v \<le> es_revision (last (mg_state M # out))"
      proof -
        have "last (mg_state M # out) \<in> set (mg_state M # out)" by (rule last_in_set) simp
        moreover have "\<forall>r \<in> set (map es_revision (mg_state M # out)). es_revision v \<le> r"
          using chained_revisions [OF ch] by auto
        ultimately show ?thesis by (metis (no_types) imageI set_map)
      qed
      define e2 where "e2 = fold (publish_state now) out (publish_state now (mg_state M) e)"
      have e2: "en_value e2 = Some (last (mg_state M # out))" "en_dirty e2" "en_fullAt e2 = en_fullAt e"
        unfolding e2_def by (rule fold_publish_value, simp) (simp_all add: g(1))
      have R2: "R = (if g2 = Some [] then e2\<lparr>en_gap := None, en_dirty := False\<rparr> else e2\<lparr>en_gap := g2\<rparr>, mg_state M # out)"
        using R Some d by (simp add: g1_def e2_def)
      have gap: "gap_ok (e2\<lparr>en_gap := g2\<rparr>)" if "g2 \<noteq> Some []"
      proof (cases g2)
        case None
        then show ?thesis by (simp add: gap_ok_def)
      next
        case (Some h)
        have h: "distinct (map fst h)"
          "list_all (\<lambda>k. es_revision (last (mg_state M # out)) + 1 < k \<and> k \<le> es_revision v + 8) (map fst h)"
          using dr Some by blast+
        have "list_all (\<lambda>k. es_revision (last (mg_state M # out)) + 1 < k \<and> k \<le> es_revision (last (mg_state M # out)) + 8) (map fst h)"
          using h(2) le unfolding list_all_iff by (metis add_le_cancel_right order_trans)
        then show ?thesis using that Some h(1) e2 by (simp add: gap_ok_def)
      qed
      have val: "en_value (fst R) = Some (last (v # snd R))" using R2 e2 by simp
      have "gap_ok (fst R) \<and> (en_dirty (fst R) \<or> en_gap (fst R) = None) \<and> en_fullAt (fst R) = en_fullAt e"
        using R2 gap e2 by (auto simp add: gap_ok_def)
      then show ?thesis unfolding goal using val ch R2 by (simp del: chained.simps)
    qed
  qed
  then show ?thesis by (simp add: R_def)
qed

subsection \<open>Reads that adopt a state\<close>

text \<open>A sequence of frames, each with the time it arrives.\<close>

fun feed_frames :: "frame_decoder \<Rightarrow> string \<Rightarrow> (int \<times> engine_frame) list \<Rightarrow> feed_entry \<Rightarrow> feed_entry \<times> engine_state list" where
  "feed_frames D app [] e = (e, [])"
| "feed_frames D app ((now, f) # fs) e =
    (let (e1, xs) = apply_entry D app now f e; (e2, ys) = feed_frames D app fs e1 in (e2, xs @ ys))"

lemma feed_frames_step:
  "gap_ok e \<Longrightarrow> entry_step e (feed_frames D app fs e)"
proof (induction fs arbitrary: e)
  case Nil
  then show ?case by (auto simp add: entry_step_def gap_ok_def split: option.splits)
next
  case (Cons p fs)
  obtain now f where p: "p = (now, f)" by (cases p)
  obtain e1 xs where a: "apply_entry D app now f e = (e1, xs)" by (cases "apply_entry D app now f e")
  obtain e2 ys where b: "feed_frames D app fs e1 = (e2, ys)" by (cases "feed_frames D app fs e1")
  have run: "feed_frames D app (p # fs) e = (e2, xs @ ys)" using p a b by simp
  have first: "entry_step e (e1, xs)" using apply_entry_step [OF Cons.prems, of D app now f] a by simp
  show ?case
  proof (cases "en_value e")
    case None
    then have "e1 = e" "xs = []" using first by (simp_all add: entry_step_def)
    then have "entry_step e (e2, ys)" using Cons.IH [OF Cons.prems] b by simp
    then show ?thesis using run \<open>xs = []\<close> by simp
  next
    case (Some v)
    have e1: "chained v xs" "en_value e1 = Some (last (v # xs))" "gap_ok e1" "en_fullAt e1 = en_fullAt e"
      using first Some by (simp_all add: entry_step_def)
    have "entry_step e1 (e2, ys)" using Cons.IH [OF e1(3)] b by simp
    then have "chained (last (v # xs)) ys" "en_value e2 = Some (last (last (v # xs) # ys))" "gap_ok e2"
        "en_fullAt e2 = en_fullAt e1" "en_dirty e2 \<or> en_gap e2 = None"
      unfolding entry_step_def e1(2) by simp_all
    moreover have "last (last (v # xs) # ys) = last (v # xs @ ys)" by (cases ys rule: rev_cases) auto
    ultimately show ?thesis using run e1 Some
      by (simp add: entry_step_def chained_append del: last.simps)
  qed
qed

lemma full_read_gap_ok:
  assumes "gap_ok e" "gap_ok e2" "full_read i requested e incoming verify e2 now = (r, e', out)"
  shows "gap_ok e'"
  using assms unfolding full_read_def Let_def
  by (auto simp add: gap_ok_def publish_state_def split: if_split_asm option.splits sum.split_asm)

text \<open>C17. The cache of a match shows its listeners an unbroken history: whatever applied frames arrive, in
  whatever order, with gaps, duplicates, stale and malformed ones among them, the states published from a
  state of revision r have exactly the revisions r + 1, r + 2, \<dots> in this order, belong to the same match,
  have a head that never goes back and a clock not behind their physics; the cached value is the last of
  them; the buffer of out-of-order frames stays within eight revisions; and a clean entry buffers nothing.\<close>

theorem feed_contiguous:
  assumes "gap_ok e" and "en_value e = Some v"
    and "feed_frames D app frames e = (e', out)"
  shows "map es_revision out = map (\<lambda>i. es_revision v + int i) [1..<Suc (length out)]
    \<and> list_all (\<lambda>n. es_id n = es_id v \<and> s_t (es_state n) \<le> es_clock n) out
    \<and> sorted (map es_head (v # out)) \<and> en_value e' = Some (last (v # out))
    \<and> gap_ok e' \<and> (en_dirty e' \<or> en_gap e' = None)"
proof -
  have s: "chained v out" "en_value e' = Some (last (v # out))" "gap_ok e'" "en_dirty e' \<or> en_gap e' = None"
    using feed_frames_step [OF assms(1), of D app frames] assms(2,3) by (simp_all add: entry_step_def)
  show ?thesis
    by (intro conjI chained_revisions chained_heads chained_ids s)
qed

definition sample_board :: state where
  "sample_board = \<lparr>s_x = 0, s_y = 0, s_vx = 0, s_vy = 0, s_left = 0, s_right = 0, s_leftDir = 0, s_rightDir = 0, s_t = 5,
     s_scoreA = 0, s_scoreB = 0, s_seed = 1, s_finished = False, s_mode = 0, s_halfA = 0, s_halfB = 0,
     s_awaitingServe = False, s_resumeAt = 0\<rparr>"

definition sample_entry :: feed_entry where
  "sample_entry = (new_entry 0)\<lparr>en_dirty := False, en_value := Some \<lparr>es_id = 7, es_revision = 4, es_phase = 2,
     es_a = ''a'', es_b = ''b'', es_target = [], es_winner = [], es_head = 1, es_clock = 5, es_nonceA = 0, es_nonceB = 0,
     es_deadline = 0, es_state = sample_board, es_chaos = None, es_observedAt = 0, es_reset = False\<rparr>\<rparr>"

definition sample_decoder :: frame_decoder where
  "sample_decoder = \<lparr>fd_event = (\<lambda>l. Some (SnapshotEvent 7 (int (length (lg_data l))) 2 [])),
     fd_chaos = (\<lambda>_. Inl ''no''), fd_state = (\<lambda>_. Inr sample_board)\<rparr>"

definition sample_frame :: "nat \<Rightarrow> engine_frame" where
  "sample_frame version = \<lparr>ef_app = ''A'', ef_hash = [], ef_head = int version,
     ef_logs = [\<lparr>lg_address = ''A'', lg_topics = [], lg_data = replicate version CHR ''x''\<rparr>]\<rparr>"

text \<open>Revision 6 arrives before revision 5: both are shown, in their order, and the entry is clean again.\<close>

theorem feed_contiguous_witness:
  "\<exists>e' out. feed_frames sample_decoder ''A'' [(1, sample_frame 6), (2, sample_frame 5)] sample_entry = (e', out)
     \<and> map es_revision out = [5, 6] \<and> \<not> en_dirty e' \<and> gap_ok e'"
proof -
  let ?r = "feed_frames sample_decoder ''A'' [(1, sample_frame 6), (2, sample_frame 5)] sample_entry"
  have m: "length (snd ?r) = 2 \<and> \<not> en_dirty (fst ?r)" by code_simp
  obtain v where v: "en_value sample_entry = Some v" "es_revision v = 4" by (simp add: sample_entry_def)
  have ok: "gap_ok sample_entry" by code_simp
  obtain e' out where r: "?r = (e', out)" by (rule prod.exhaust)
  have l: "length out = 2" "\<not> en_dirty e'" using m unfolding r by simp_all
  note c = feed_contiguous [OF ok v(1) r]
  have "map es_revision out = map (\<lambda>i. es_revision v + int i) [1..<Suc (length out)]" "gap_ok e'"
    using c by blast+
  moreover have "map (\<lambda>i. 4 + int i) [1..<Suc 2] = [5, 6]" by code_simp
  ultimately have "map es_revision out = [5, 6]" "gap_ok e'" unfolding l v(2) by simp_all
  with l show ?thesis using r by (intro exI conjI)
qed

text \<open>A full read never takes the cached match back unnoticed: it answers with a state of the requested
  match, which is then the cached one; a state of a lower revision is only adopted by an entry marked dirty,
  with its reset flag set, after a second read confirmed revision, processed time and head while no event
  intervened; a state of the same revision with a lower head is only adopted with the reset flag set and the
  processed time unchanged; and what is published is exactly the adopted state.\<close>

theorem full_read_no_silent_rollback:
  assumes "full_read i requested e incoming verify e2 now = (Inr s, e', out)"
    and "en_value e = Some v" and "es_id v = i"
    and "en_stamp e2 \<noteq> en_stamp e \<or> en_value e2 = Some v"
  shows "es_id s = i \<and> en_value e' = Some s
    \<and> (es_revision s \<ge> es_revision v \<or> es_reset s \<and> en_dirty e \<and> en_stamp e2 = en_stamp e
        \<and> es_revision s = es_revision incoming \<and> s_t (es_state s) = s_t (es_state incoming)
        \<and> es_head incoming \<le> es_head s \<and> (\<exists>w. verify = Inr w \<and> s = w\<lparr>es_reset := True\<rparr>))
    \<and> (es_revision s \<noteq> es_revision v \<or> es_head v \<le> es_head s \<or> es_reset s \<and> s_t (es_state s) = s_t (es_state v))
    \<and> (out = [] \<and> s = v \<and> e' = e \<or> out = [s] \<and> \<not> en_dirty e' \<and> en_gap e' = None)"
  using assms unfolding full_read_def Let_def
  by (auto split: if_split_asm sum.split_asm)

theorem full_read_no_silent_rollback_witness:
  "\<exists>s e' out v. full_read 7 0 (invalidate sample_entry) (v\<lparr>es_revision := 2\<rparr>) (Inr (v\<lparr>es_revision := 2\<rparr>))
     (invalidate sample_entry) 9 = (Inr s, e', out) \<and> en_value sample_entry = Some v \<and> es_reset s \<and> es_revision s = 2"
proof -
  obtain v where v: "en_value sample_entry = Some v" "es_revision v = 4" "es_id v = 7" by (simp add: sample_entry_def)
  let ?e = "invalidate sample_entry"
  have val: "en_value ?e = Some v" "en_dirty ?e" "en_stamp ?e \<noteq> en_stamp ?e \<or> en_value ?e = Some v"
    using v by (simp_all add: invalidate_def)
  obtain s e' out where r: "full_read 7 0 ?e (v\<lparr>es_revision := 2\<rparr>) (Inr (v\<lparr>es_revision := 2\<rparr>)) ?e 9 = (Inr s, e', out)"
    using val v by (simp add: full_read_def Let_def)
  have "es_revision s = 2" using r val v by (auto simp add: full_read_def Let_def)
  moreover have "es_reset s" using full_read_no_silent_rollback [OF r val(1) v(3) val(3)] v \<open>es_revision s = 2\<close> by simp
  ultimately show ?thesis using r v by blast
qed

end
