(* ===== verification/Rooms_Core.thy ===== *)
theory Rooms_Core
  imports Js_Text "HOL-Library.Product_Lexorder"
begin

text \<open>
  \<^verbatim>\<open>shared/rooms.ts\<close> and \<^verbatim>\<open>shared/rooms-acceptance.ts\<close>: the rotation of a room and the life of an offer
  before its match exists.  Addresses and identifiers are strings, the expiry of an offer is
  its number, times are milliseconds; an object that is changed in place is returned changed.
\<close>

definition newline :: string where "newline = [char_of (10 :: nat)]"

subsection \<open>Members\<close>

datatype room_kind = Group | Duel | Ranked

record room_member =
  mb_player :: string
  mb_joined :: int
  mb_position :: int
  mb_away :: bool
  mb_seen :: int

definition rotateMembers :: "room_member list \<Rightarrow> string \<Rightarrow> string \<Rightarrow> string \<Rightarrow> room_member list" where
  "rotateMembers members a b winner =
    (let behind = Max (insert 0 (set (map mb_position members))) in
     map (\<lambda>m. if mb_player m = (if winner = a then b else a) then m\<lparr>mb_position := behind + 1\<rparr> else m) members)"

definition seat_key :: "room_member \<Rightarrow> int \<times> int" where
  "seat_key m = (mb_position m, mb_joined m)"

definition eligible_member :: "int \<Rightarrow> room_member \<Rightarrow> bool" where
  "eligible_member now m \<longleftrightarrow> \<not> mb_away m \<and> now - mb_seen m < 30000"

text \<open>The champion keeps the seat: the object that was found is put in front of the others.\<close>

definition nextPair :: "room_member list \<Rightarrow> string option \<Rightarrow> int \<Rightarrow> room_member list" where
  "nextPair members winner now =
    (let eligible = sort_key seat_key (filter (eligible_member now) members);
         champion = find (\<lambda>m. Some (mb_player m) = winner) eligible in
     take 2 (case champion of Some c \<Rightarrow> c # remove1 c eligible | None \<Rightarrow> eligible))"

definition roomAuthMessage :: "string \<Rightarrow> string \<Rightarrow> int \<Rightarrow> string \<Rightarrow> string" where
  "roomAuthMessage player nonce expires app =
    ''PONGIT Interlude social session'' @ newline @ ''Player: '' @ lower player @ newline @ ''Nonce: '' @ nonce @ newline
    @ ''Expires: '' @ decimal expires @ newline @ ''Chain: 10143'' @ newline @ ''Game: '' @ lower app @ newline
    @ ''Scope: contacts, profiles, rooms, invitations and matchmaking. No funds.''"

subsection \<open>Offers\<close>

datatype offer_status = Offered | Submitted | Active | Complete | Cancelled

record room_launch =
  la_ready :: "string list"
  la_at :: "int option"

record lobby_offer =
  lo_mode :: "int option"
  lo_id :: string
  lo_room :: string
  lo_a :: string
  lo_b :: string
  lo_ranked :: bool
  lo_expires :: int
  lo_rules :: int
  lo_entropy :: string
  lo_signature :: string
  lo_accepted :: "string list"
  lo_launch :: "room_launch option"
  lo_status :: offer_status

record lobby_room =
  rm_mode :: "int option"
  rm_id :: string
  rm_host :: string
  rm_kind :: room_kind
  rm_members :: "room_member list"
  rm_offer :: "lobby_offer option"
  rm_winner :: "string option"
  rm_status :: string
  rm_created :: int
  rm_activity :: int

definition MATCH_INTRO_MS :: int where "MATCH_INTRO_MS = 3000"

text \<open>\<^verbatim>\<open>[...new Set(xs)]\<close>: the first occurrence of every value, in order.\<close>

definition js_unique :: "'a list \<Rightarrow> 'a list" where
  "js_unique xs = rev (remdups (rev xs))"

text \<open>A time that is absent or zero is falsy.\<close>

definition truthy :: "int option \<Rightarrow> int option" where
  "truthy at = (if at = Some 0 then None else at)"

definition prepareRoomLaunch :: "lobby_offer \<Rightarrow> string \<Rightarrow> int \<Rightarrow> lobby_offer res" where
  "prepareRoomLaunch offer player now =
    (if player \<notin> set [lo_a offer, lo_b offer] \<or> lo_status offer \<noteq> Offered \<or> lo_expires offer * 1000 \<le> now
     then Inl ''This duel is no longer available.''
     else
       let earlier = (case lo_launch offer of None \<Rightarrow> [] | Some l \<Rightarrow> la_ready l);
           ready = filter (\<lambda>p. p = lo_a offer \<or> p = lo_b offer) (js_unique (earlier @ lo_accepted offer @ [player]));
           at = truthy (case lo_launch offer of None \<Rightarrow> None | Some l \<Rightarrow> la_at l) in
       if length ready = 2 \<and> at = None then
         if lo_expires offer * 1000 \<le> now + MATCH_INTRO_MS + 1000
         then Inl ''Not enough time to start this duel. Rejoin the queue.''
         else Inr (offer\<lparr>lo_launch := Some \<lparr>la_ready = ready, la_at = truthy (Some (now + MATCH_INTRO_MS))\<rparr>\<rparr>)
       else Inr (offer\<lparr>lo_launch := Some \<lparr>la_ready = ready, la_at = at\<rparr>\<rparr>))"

definition assertRoomLaunchReady :: "lobby_offer \<Rightarrow> int \<Rightarrow> unit res" where
  "assertRoomLaunchReady offer now =
    (case lo_launch offer of None \<Rightarrow> Inl ''Waiting for the countdown before starting the duel.''
     | Some l \<Rightarrow>
       (case truthy (la_at l) of None \<Rightarrow> Inl ''Waiting for the countdown before starting the duel.''
        | Some at \<Rightarrow>
          if lo_a offer \<notin> set (la_ready l) \<or> lo_b offer \<notin> set (la_ready l) \<or> now < at
          then Inl ''Waiting for the countdown before starting the duel.'' else Inr ()))"

definition expireUnstartedRoomOffer :: "lobby_room \<Rightarrow> int option \<Rightarrow> int \<Rightarrow> bool \<times> lobby_room" where
  "expireUnstartedRoomOffer room enginePhase now =
    (case rm_offer room of None \<Rightarrow> (False, room)
     | Some offer \<Rightarrow>
       if lo_status offer \<noteq> Offered \<or> enginePhase \<noteq> Some 0 \<or> lo_expires offer * 1000 + 3000 \<ge> now then (False, room)
       else (True, room\<lparr>
         rm_members := map (\<lambda>m. if mb_player m \<in> set [lo_a offer, lo_b offer] then m\<lparr>mb_away := True\<rparr> else m) (rm_members room),
         rm_offer := Some (offer\<lparr>lo_accepted := [], lo_status := Cancelled\<rparr>),
         rm_status := ''waiting''\<rparr>))"

text \<open>A log of an acceptance receipt and its decoded event; the decoder is an argument.\<close>

record accept_log =
  al_address :: string
  al_removed :: bool
  al_data :: string
  al_topics :: "string list"

record accept_event =
  ae_id :: int
  ae_room :: string
  ae_player :: string
  ae_a :: string
  ae_b :: string
  ae_ranked :: bool
  ae_mode :: int

definition confirming_log ::
    "(accept_log \<Rightarrow> accept_event option) \<Rightarrow> string \<Rightarrow> lobby_offer \<Rightarrow> string \<Rightarrow> accept_log \<Rightarrow> bool" where
  "confirming_log decode app offer player l =
    (if al_removed l \<or> lower (al_address l) \<noteq> lower app then False
     else case decode l of None \<Rightarrow> False
       | Some e \<Rightarrow> decimal (ae_id e) = lo_id offer \<and> lower (ae_room e) = lower (lo_room offer)
           \<and> lower (ae_player e) = lower player
           \<and> lower (ae_a e) = lower (lo_a offer) \<and> lower (ae_b e) = lower (lo_b offer)
           \<and> ae_ranked e = lo_ranked offer
           \<and> ae_mode e = (case lo_mode offer of None \<Rightarrow> 0 | Some m \<Rightarrow> m))"

definition confirmsRoomAcceptance ::
    "(accept_log \<Rightarrow> accept_event option) \<Rightarrow> string \<Rightarrow> string \<Rightarrow> accept_log list \<Rightarrow> string \<Rightarrow> lobby_offer \<Rightarrow> string \<Rightarrow> string \<Rightarrow> bool" where
  "confirmsRoomAcceptance decode status transactionHash logs app offer player hash =
    (if status \<notin> set [''success'', ''0x1'', ''1''] \<or> lower transactionHash \<noteq> lower hash then False
     else list_ex (confirming_log decode app offer player) logs)"

subsection \<open>The rotation is fair\<close>

lemma rotateMembers_players: "map mb_player (rotateMembers ms a b w) = map mb_player ms"
  by (simp add: rotateMembers_def Let_def)

lemma rotateMembers_member:
  assumes "m \<in> set (rotateMembers ms a b w)" "mb_player m \<noteq> (if w = a then b else a)"
  shows "m \<in> set ms"
  using assms by (auto simp add: rotateMembers_def Let_def split: if_split_asm)

lemma rotateMembers_keeps:
  assumes "m \<in> set ms" "mb_player m \<noteq> (if w = a then b else a)"
  shows "m \<in> set (rotateMembers ms a b w)"
  unfolding rotateMembers_def Let_def set_map
  by (rule image_eqI [OF _ assms(1)]) (subst if_not_P [OF assms(2)], rule refl)

lemma rotateMembers_behind:
  assumes "m \<in> set (rotateMembers ms a b w)" "mb_player m = (if w = a then b else a)" "n \<in> set ms"
  shows "mb_position n < mb_position m"
proof -
  have "mb_position m = Max (insert 0 (set (map mb_position ms))) + 1"
  proof -
    define l where "l = (if w = a then b else a)"
    define p where "p = Max (insert 0 (set (map mb_position ms)))"
    have "m \<in> (\<lambda>m. if mb_player m = l then m\<lparr>mb_position := p + 1\<rparr> else m) ` set ms"
      using assms(1) unfolding rotateMembers_def Let_def l_def p_def set_map .
    then obtain k where k: "m = (if mb_player k = l then k\<lparr>mb_position := p + 1\<rparr> else k)" by blast
    have "mb_player m = l" using assms(2) by (simp only: l_def)
    then have "mb_position m = p + 1" using k by (cases "mb_player k = l") simp_all
    then show ?thesis by (simp only: p_def)
  qed
  moreover have "mb_position n \<le> Max (insert 0 (set (map mb_position ms)))"
    by (rule Max_ge) (use assms(3) in auto)
  ultimately show ?thesis by simp
qed

lemma same_player_same_member:
  "distinct (map mb_player ms) \<Longrightarrow> x \<in> set ms \<Longrightarrow> y \<in> set ms \<Longrightarrow> mb_player x = mb_player y \<Longrightarrow> x = y"
  by (meson distinct_map inj_onD)

lemma nextPair_seats:
  fixes E :: "room_member list"
  assumes E: "E = sort_key seat_key (filter (eligible_member now) members)"
    and c: "find (\<lambda>m. Some (mb_player m) = Some w) E = Some c" and more: "\<exists>m \<in> set E. m \<noteq> c"
    and d: "distinct E"
  obtains e where "nextPair members (Some w) now = [c, e]" "e \<in> set E" "e \<noteq> c"
    "\<And>m. m \<in> set E \<Longrightarrow> m \<noteq> c \<Longrightarrow> seat_key e \<le> seat_key m"
proof -
  have rest: "set (remove1 c E) = set E - {c}" using d by simp
  then obtain e es where r: "remove1 c E = e # es" using more by (cases "remove1 c E") auto
  have pair: "nextPair members (Some w) now = [c, e]"
    using c r by (simp add: nextPair_def E [symmetric])
  have "sorted (map seat_key (remove1 c E))"
    unfolding E by (rule sorted_map_remove1) (rule sorted_sort_key)
  then have "seat_key e \<le> seat_key m" if "m \<in> set (remove1 c E)" for m
    using that unfolding r by auto
  then show ?thesis using that [OF pair] rest r by (metis Diff_iff list.set_intros(1) singleton_iff)
qed

text \<open>C18. Rotation is fair: after a match of a room whose players are distinct, when the winner and at least
  one member who did not play are still present, the next pair is the winner together with a present member
  who did not play and has the first seat among all of those; the loser waits behind every other member, and
  the seats of the others do not change.\<close>

theorem fair_rotation:
  assumes distinct: "distinct (map mb_player members)" and played: "a \<noteq> b" "w = a \<or> w = b"
    and winner: "c \<in> set members" "mb_player c = w" "eligible_member now c"
    and other: "o1 \<in> set members" "mb_player o1 \<noteq> a" "mb_player o1 \<noteq> b" "eligible_member now o1"
  shows "\<exists>e \<in> set members. nextPair (rotateMembers members a b w) (Some w) now = [c, e]
    \<and> mb_player e \<noteq> a \<and> mb_player e \<noteq> b \<and> eligible_member now e
    \<and> list_all (\<lambda>m. mb_player m = a \<or> mb_player m = b \<or> \<not> eligible_member now m \<or> seat_key e \<le> seat_key m) members"
proof -
  define l where "l = (if w = a then b else a)"
  define ms where "ms = rotateMembers members a b w"
  define E where "E = sort_key seat_key (filter (eligible_member now) ms)"
  have dist: "distinct (map mb_player ms)" using distinct by (simp add: ms_def rotateMembers_players)
  have setE: "set E = {m \<in> set ms. eligible_member now m}" by (simp add: E_def)
  have dE: "distinct E" using dist unfolding E_def by (simp add: distinct_map)
  have wl: "w \<noteq> l" "mb_player o1 \<noteq> l" "mb_player o1 \<noteq> w" using played other by (auto simp add: l_def)
  have keep: "m \<in> set ms" if "m \<in> set members" "mb_player m \<noteq> l" for m
    using rotateMembers_keeps [of m members w a b] that by (simp add: ms_def l_def)
  have was: "m \<in> set members" if "m \<in> set ms" "mb_player m \<noteq> l" for m
    using rotateMembers_member [of m members a b w] that by (simp add: ms_def l_def)
  have c: "c \<in> set E" using keep [OF winner(1)] winner wl by (simp add: setE)
  have o1: "o1 \<in> set E" "o1 \<noteq> c" using keep [OF other(1)] other wl winner by (auto simp add: setE)
  have "find (\<lambda>m. Some (mb_player m) = Some w) E = Some c"
  proof (cases "find (\<lambda>m. Some (mb_player m) = Some w) E")
    case None
    then show ?thesis using c winner(2) by (auto simp add: find_None_iff)
  next
    case (Some x)
    then have "x \<in> set E" "mb_player x = w" by (auto simp add: find_Some_iff)
    then have "x = c" using same_player_same_member [OF dist, of x c] c winner(2) by (simp add: setE)
    then show ?thesis using Some by simp
  qed
  moreover have "\<exists>m \<in> set E. m \<noteq> c" using o1 by blast
  ultimately obtain e where e: "nextPair ms (Some w) now = [c, e]" "e \<in> set E" "e \<noteq> c"
      "\<And>m. m \<in> set E \<Longrightarrow> m \<noteq> c \<Longrightarrow> seat_key e \<le> seat_key m"
    using nextPair_seats [OF E_def _ _ dE, of w c] by blast
  have "seat_key e \<le> seat_key o1" using e(4) o1 by blast
  then have "mb_position e \<le> mb_position o1" by (auto simp add: seat_key_def less_eq_prod_def)
  then have el: "mb_player e \<noteq> l"
    using rotateMembers_behind [of e members a b w o1] e(2) other(1) by (auto simp add: setE ms_def l_def)
  have ew: "mb_player e \<noteq> w"
    using same_player_same_member [OF dist, of e c] e(2,3) c winner(2) by (auto simp add: setE)
  have eab: "mb_player e \<noteq> a" "mb_player e \<noteq> b" using el ew played by (auto simp add: l_def split: if_split_asm)
  have "list_all (\<lambda>m. mb_player m = a \<or> mb_player m = b \<or> \<not> eligible_member now m \<or> seat_key e \<le> seat_key m) members"
    unfolding list_all_iff
  proof
    fix m assume m: "m \<in> set members"
    show "mb_player m = a \<or> mb_player m = b \<or> \<not> eligible_member now m \<or> seat_key e \<le> seat_key m"
    proof (cases "mb_player m = a \<or> mb_player m = b \<or> \<not> eligible_member now m")
      case False
      then have "mb_player m \<noteq> l" "m \<noteq> c" using played winner(2) by (auto simp add: l_def)
      then show ?thesis using e(4) [of m] keep [OF m] False by (simp add: setE)
    qed blast
  qed
  then show ?thesis using e was [of e] el eab by (auto simp add: setE ms_def)
qed

definition sample_member :: "string \<Rightarrow> int \<Rightarrow> room_member" where
  "sample_member p seat = \<lparr>mb_player = p, mb_joined = seat, mb_position = seat, mb_away = False, mb_seen = 0\<rparr>"

theorem fair_rotation_witness:
  "\<exists>e. nextPair (rotateMembers (map2 sample_member [''p'', ''q'', ''r'', ''s''] [0, 1, 2, 3]) ''p'' ''q'' ''q'') (Some ''q'') 5
     = [sample_member ''q'' 1, e] \<and> mb_player e \<noteq> ''p'' \<and> seat_key e \<le> (2, 2)"
proof -
  let ?ms = "map2 sample_member [''p'', ''q'', ''r'', ''s''] [0, 1, 2, 3]"
  have "\<exists>e \<in> set ?ms. nextPair (rotateMembers ?ms ''p'' ''q'' ''q'') (Some ''q'') 5 = [sample_member ''q'' 1, e]
    \<and> mb_player e \<noteq> ''p'' \<and> mb_player e \<noteq> ''q'' \<and> eligible_member 5 e
    \<and> list_all (\<lambda>m. mb_player m = ''p'' \<or> mb_player m = ''q'' \<or> \<not> eligible_member 5 m \<or> seat_key e \<le> seat_key m) ?ms"
    by (rule fair_rotation [of _ _ _ _ "sample_member ''q'' 1" _ "sample_member ''r'' 2"])
      (simp_all add: sample_member_def eligible_member_def)
  then show ?thesis by (auto simp add: sample_member_def eligible_member_def seat_key_def)
qed

subsection \<open>The countdown is agreed\<close>

definition launch_step :: "string \<times> int \<Rightarrow> lobby_offer \<Rightarrow> lobby_offer" where
  "launch_step call offer = (case prepareRoomLaunch offer (fst call) (snd call) of Inl _ \<Rightarrow> offer | Inr next \<Rightarrow> next)"

definition launch_run :: "(string \<times> int) list \<Rightarrow> lobby_offer \<Rightarrow> lobby_offer" where
  "launch_run calls offer = fold launch_step calls offer"

lemma set_js_unique [simp]: "set (js_unique xs) = set xs"
  by (simp add: js_unique_def)

lemma distinct_js_unique [simp]: "distinct (js_unique xs)"
  by (simp add: js_unique_def)

lemma two_of_two:
  assumes "distinct xs" "set xs \<subseteq> {a, b}" "length xs = 2"
  shows "{a, b} \<subseteq> set xs"
proof -
  have "card (set xs) = 2" using assms(1,3) by (simp add: distinct_card)
  moreover have "card {a, b} \<le> 2" by (simp add: card_insert_if)
  ultimately have "set xs = {a, b}" using assms(2) by (intro card_seteq) simp_all
  then show ?thesis by simp
qed

definition launch_ok :: "lobby_offer \<Rightarrow> (string \<times> int) list \<Rightarrow> lobby_offer \<Rightarrow> bool" where
  "launch_ok start calls offer \<longleftrightarrow>
     lo_a offer = lo_a start \<and> lo_b offer = lo_b start \<and> lo_expires offer = lo_expires start \<and> lo_accepted offer = lo_accepted start
     \<and> (case lo_launch offer of None \<Rightarrow> True
        | Some l \<Rightarrow> set (la_ready l) \<subseteq> set (lo_accepted start) \<union> fst ` set calls
            \<and> (case la_at l of None \<Rightarrow> True
               | Some at \<Rightarrow> \<exists>before p t after. calls = before @ (p, t) # after \<and> at = t + 3000
                   \<and> t + 4000 < lo_expires start * 1000
                   \<and> {lo_a start, lo_b start} \<subseteq> set (lo_accepted start) \<union> fst ` set (before @ [(p, t)])))"

lemma launch_ok_more:
  assumes "launch_ok start calls offer"
  shows "launch_ok start (calls @ later) offer"
proof (cases "lo_launch offer")
  case None
  then show ?thesis using assms by (simp add: launch_ok_def)
next
  case (Some l)
  have ready: "set (la_ready l) \<subseteq> set (lo_accepted start) \<union> fst ` set (calls @ later)"
    using assms Some by (auto simp add: launch_ok_def)
  show ?thesis
  proof (cases "la_at l")
    case None
    then show ?thesis using assms Some ready by (simp add: launch_ok_def)
  next
    case at: (Some at)
    obtain before p t after where d: "calls = before @ (p, t) # after" "at = t + 3000" "t + 4000 < lo_expires start * 1000"
        "{lo_a start, lo_b start} \<subseteq> set (lo_accepted start) \<union> fst ` set (before @ [(p, t)])"
      using assms unfolding launch_ok_def Some at option.case by blast
    have "calls @ later = before @ (p, t) # (after @ later)" using d(1) by simp
    then have "\<exists>before p t after. calls @ later = before @ (p, t) # after \<and> at = t + 3000 \<and> t + 4000 < lo_expires start * 1000
        \<and> {lo_a start, lo_b start} \<subseteq> set (lo_accepted start) \<union> fst ` set (before @ [(p, t)])"
      using d by blast
    then show ?thesis using assms ready unfolding launch_ok_def Some at option.case by blast
  qed
qed

lemma launch_step_ok:
  assumes "launch_ok start calls offer"
  shows "launch_ok start (calls @ [(p, t)]) (launch_step (p, t) offer)"
proof -
  have same: "launch_ok start (calls @ [(p, t)]) offer"
    by (rule launch_ok_more [OF assms])
  show ?thesis
  proof (cases "prepareRoomLaunch offer p t")
    case (Inl e)
    then show ?thesis using same by (simp add: launch_step_def)
  next
    case (Inr nxt)
    define earlier where "earlier = (case lo_launch offer of None \<Rightarrow> [] | Some l \<Rightarrow> la_ready l)"
    define ready where "ready = filter (\<lambda>q. q = lo_a offer \<or> q = lo_b offer) (js_unique (earlier @ lo_accepted offer @ [p]))"
    define at where "at = truthy (case lo_launch offer of None \<Rightarrow> None | Some l \<Rightarrow> la_at l)"
    have fields: "lo_a offer = lo_a start" "lo_b offer = lo_b start" "lo_expires offer = lo_expires start"
        "lo_accepted offer = lo_accepted start"
      using assms by (simp_all add: launch_ok_def)
    have earlier: "set earlier \<subseteq> set (lo_accepted start) \<union> fst ` set calls"
      using assms by (auto simp add: launch_ok_def earlier_def split: option.splits)
    have ready: "set ready \<subseteq> set (lo_accepted start) \<union> fst ` set (calls @ [(p, t)])"
      using earlier fields by (auto simp add: ready_def)
    note run = Inr [unfolded prepareRoomLaunch_def Let_def, folded earlier_def, folded ready_def at_def]
    have step: "launch_step (p, t) offer = nxt" using Inr by (simp add: launch_step_def)
    show ?thesis
    proof (cases "length ready = 2 \<and> at = None")
      case True
      have late: "\<not> lo_expires offer * 1000 \<le> t + MATCH_INTRO_MS + 1000"
        and nxt: "nxt = offer\<lparr>lo_launch := Some \<lparr>la_ready = ready, la_at = truthy (Some (t + MATCH_INTRO_MS))\<rparr>\<rparr>"
        using run True by (auto split: if_split_asm)
      have "distinct ready" by (simp add: ready_def)
      moreover have "set ready \<subseteq> {lo_a start, lo_b start}" using fields by (auto simp add: ready_def)
      ultimately have both: "{lo_a start, lo_b start} \<subseteq> set ready"
        using True two_of_two [of ready "lo_a start" "lo_b start"] by simp
      have sub: "{lo_a start, lo_b start} \<subseteq> set (lo_accepted start) \<union> fst ` set (calls @ [(p, t)])"
        by (rule order_trans [OF both ready])
      have lt: "t + 4000 < lo_expires start * 1000" using late fields by (simp add: MATCH_INTRO_MS_def)
      have "\<exists>before q u after. calls @ [(p, t)] = before @ (q, u) # after \<and> t + 3000 = u + 3000
          \<and> u + 4000 < lo_expires start * 1000
          \<and> {lo_a start, lo_b start} \<subseteq> set (lo_accepted start) \<union> fst ` set (before @ [(q, u)])"
        by (intro exI [of _ calls] exI [of _ p] exI [of _ t] exI [of _ "[]"] conjI sub lt refl)
      then show ?thesis
        unfolding step nxt launch_ok_def using fields ready by (simp add: truthy_def MATCH_INTRO_MS_def)
    next
      case False
      have nxt: "nxt = offer\<lparr>lo_launch := Some \<lparr>la_ready = ready, la_at = at\<rparr>\<rparr>"
        using run unfolding if_not_P [OF False] by (simp split: if_split_asm)
      show ?thesis
      proof (cases at)
        case None
        then show ?thesis unfolding step nxt launch_ok_def using fields ready by simp
      next
        case (Some time)
        then obtain l where l: "lo_launch offer = Some l" "la_at l = Some time"
          by (auto simp add: at_def truthy_def split: option.splits if_split_asm)
        then have "launch_ok start (calls @ [(p, t)]) (offer\<lparr>lo_launch := Some \<lparr>la_ready = ready, la_at = Some time\<rparr>\<rparr>)"
          using same ready unfolding launch_ok_def by simp
        then show ?thesis unfolding step nxt Some .
      qed
    qed
  qed
qed

lemma launch_run_ok:
  assumes "lo_launch start = None"
  shows "launch_ok start calls (launch_run calls start)"
proof (induction calls rule: rev_induct)
  case Nil
  then show ?case using assms by (simp add: launch_run_def launch_ok_def)
next
  case (snoc call calls)
  then show ?case using launch_step_ok [of start calls _ "fst call" "snd call"] by (simp add: launch_run_def)
qed

text \<open>The countdown is agreed and kept: when a match of a fresh offer may start, one call of a player set
  the start time to three seconds after it, by then both players had announced themselves or accepted the
  offer, the call left more than four seconds before the ticket expires, and the start time has come.  No
  call moves the time that was set.\<close>

theorem countdown_agreed:
  assumes "lo_launch offer = None" and "assertRoomLaunchReady (launch_run calls offer) now = Inr ()"
  shows "\<exists>before p t after l. calls = before @ (p, t) # after
    \<and> {lo_a offer, lo_b offer} \<subseteq> set (lo_accepted offer) \<union> fst ` set (before @ [(p, t)])
    \<and> t + 3000 \<le> now \<and> t + 4000 < lo_expires offer * 1000
    \<and> lo_launch (launch_run calls offer) = Some l \<and> la_at l = Some (t + 3000)"
proof -
  let ?o = "launch_run calls offer"
  obtain l at where l: "lo_launch ?o = Some l" "truthy (la_at l) = Some at" "at \<le> now"
    using assms(2) by (auto simp add: assertRoomLaunchReady_def split: option.split_asm if_split_asm)
  then have at: "la_at l = Some at" by (auto simp add: truthy_def split: if_split_asm)
  have "\<exists>before p t after. calls = before @ (p, t) # after \<and> at = t + 3000 \<and> t + 4000 < lo_expires offer * 1000
      \<and> {lo_a offer, lo_b offer} \<subseteq> set (lo_accepted offer) \<union> fst ` set (before @ [(p, t)])"
    using launch_run_ok [OF assms(1), of calls] unfolding launch_ok_def l(1) option.case at by blast
  then show ?thesis using l at by blast
qed

definition sample_offer :: lobby_offer where
  "sample_offer = \<lparr>lo_mode = None, lo_id = ''1'', lo_room = ''r'', lo_a = ''p'', lo_b = ''q'', lo_ranked = True,
     lo_expires = 60, lo_rules = 4, lo_entropy = ''e'', lo_signature = ''s'', lo_accepted = [], lo_launch = None, lo_status = Offered\<rparr>"

theorem countdown_agreed_witness:
  "\<exists>l. lo_launch (launch_run [(''p'', 1000), (''q'', 2000), (''p'', 2500)] sample_offer) = Some l \<and> la_at l = Some 5000"
proof -
  let ?calls = "[(''p'', 1000), (''q'', 2000), (''p'', 2500)]"
  have fresh: "lo_launch sample_offer = None" by (simp add: sample_offer_def)
  have ready: "assertRoomLaunchReady (launch_run ?calls sample_offer) 5000 = Inr ()" by code_simp
  obtain before p t after l where c: "?calls = before @ (p, t) # after"
      "{lo_a sample_offer, lo_b sample_offer} \<subseteq> set (lo_accepted sample_offer) \<union> fst ` set (before @ [(p, t)])"
      "t + 3000 \<le> 5000" "lo_launch (launch_run ?calls sample_offer) = Some l" "la_at l = Some (t + 3000)"
    using countdown_agreed [OF fresh ready] by blast
  have "t = 2000"
  proof (cases before)
    case Nil
    then show ?thesis using c(1,2) by (auto simp add: sample_offer_def)
  next
    case (Cons x xs)
    then show ?thesis using c(1,3) by (cases xs) (auto simp add: Cons_eq_append_conv)
  qed
  then show ?thesis using c by simp
qed

end
