(* ===== verification/Rooms_Status.thy ===== *)
theory Rooms_Status
  imports Js_Text
begin

text \<open>
  The status rules of the rooms: \<^verbatim>\<open>shared/rooms-availability.ts\<close>, \<^verbatim>\<open>room-route.ts\<close>,
  \<^verbatim>\<open>rooms-round-status.ts\<close>, \<^verbatim>\<open>rooms-observation.ts\<close>, \<^verbatim>\<open>lobby-clock.ts\<close> and \<^verbatim>\<open>chaos-sounds.ts\<close>.
  Times are milliseconds where the source has milliseconds and seconds where it has seconds; the gains and
  durations of a sound are in thousandths.
\<close>

subsection \<open>Availability of the engine\<close>

record engine_node =
  eg_app :: string
  eg_chainId :: int
  eg_epoch :: int

record delegation_status =
  ds_status :: int
  ds_expiresAt :: int
  ds_epoch :: int

text \<open>The error is given by its code; the message it shows is left out.\<close>

definition assertRoomsEngineAvailable :: "string \<Rightarrow> engine_node \<Rightarrow> delegation_status \<Rightarrow> int \<Rightarrow> unit res" where
  "assertRoomsEngineAvailable app node d now =
    (if lower (eg_app node) \<noteq> lower app \<or> eg_chainId node \<noteq> 4242 then Inl ''ENGINE_DEPLOYMENT_MISMATCH''
     else if ds_status d \<noteq> 1 then Inl ''ENGINE_DELEGATION_INACTIVE''
     else if ds_expiresAt d \<le> now then Inl ''ENGINE_DELEGATION_EXPIRED''
     else if eg_epoch node \<noteq> ds_epoch d then Inl ''ENGINE_EPOCH_MISMATCH''
     else if ds_expiresAt d \<le> now + 40 then Inl ''ENGINE_DELEGATION_ENDING''
     else Inr ())"

lemma engine_available:
  "assertRoomsEngineAvailable app node d now = Inr () \<longleftrightarrow>
    lower (eg_app node) = lower app \<and> eg_chainId node = 4242 \<and> ds_status d = 1 \<and> now + 40 < ds_expiresAt d
    \<and> eg_epoch node = ds_epoch d"
  by (simp add: assertRoomsEngineAvailable_def) linarith

definition roomsDrainBlocker :: "bool \<Rightarrow> int \<Rightarrow> int \<Rightarrow> bool \<Rightarrow> string" where
  "roomsDrainBlocker expired active pendingDiffs epochMatches =
    (if \<not> epochMatches then ''Hosted engine epoch differs from Monad; reconcile before renewal''
     else if expired \<and> (active > 0 \<or> pendingDiffs > 0)
     then ''Delegation expired with unfinished engine state; operator publication recovery is required before renewal''
     else if active > 0 then ''Waiting for active matches to finish before renewal''
     else if pendingDiffs > 0 then ''Waiting for engine publication before renewal''
     else [])"

text \<open>A renewal is only unblocked when the epochs agree and nothing is unfinished.\<close>

lemma drain_clear:
  "roomsDrainBlocker expired active pendingDiffs epochMatches = [] \<longleftrightarrow> epochMatches \<and> active \<le> 0 \<and> pendingDiffs \<le> 0"
  by (auto simp add: roomsDrainBlocker_def)

subsection \<open>Routes and rounds\<close>

datatype room_route = Independent string | Legacy string

definition lower_hex :: "char \<Rightarrow> bool" where
  "lower_hex c \<longleftrightarrow> is_digit c \<or> 97 \<le> (of_char c :: int) \<and> (of_char c :: int) \<le> 102"

text \<open>\<open>decode\<close> is \<^verbatim>\<open>decodeURIComponent\<close>; \<^const>\<open>None\<close> where it throws.  The prefix \<^verbatim>\<open>0x\<close> is in lower case.\<close>

definition independent_id :: "string \<Rightarrow> bool" where
  "independent_id i \<longleftrightarrow> take 2 i = ''0x'' \<and> length i \<ge> 44 \<and> list_all is_hex (take 40 (drop 2 i))
     \<and> i ! 42 = CHR '':'' \<and> list_all is_digit (drop 43 i) \<and> length (drop 43 i) \<le> 78"

definition legacy_id :: "string \<Rightarrow> bool" where
  "legacy_id i \<longleftrightarrow> take 2 i = ''0x'' \<and> length i = 66 \<and> list_all lower_hex (drop 2 i)"

definition roomRoute :: "(string \<Rightarrow> string option) \<Rightarrow> string \<Rightarrow> room_route option" where
  "roomRoute decode value = (case decode value of None \<Rightarrow> None
     | Some i \<Rightarrow> if independent_id i then Some (Independent i) else if legacy_id i then Some (Legacy i) else None)"

text \<open>No path separator gets through.\<close>

lemma route_no_separator:
  assumes "roomRoute decode value = Some r"
  shows "\<exists>i. decode value = Some i \<and> CHR ''/'' \<notin> set i \<and> r \<in> {Independent i, Legacy i}"
proof -
  obtain i where i: "decode value = Some i" "independent_id i \<and> r = Independent i \<or> legacy_id i \<and> r = Legacy i"
    using assms by (auto simp add: roomRoute_def split: option.splits if_split_asm)
  have bad: "\<not> is_hex (CHR ''/'')" "\<not> is_digit (CHR ''/'')" "\<not> lower_hex (CHR ''/'')" by code_simp+
  have "CHR ''/'' \<notin> set i"
    using i(2)
  proof
    assume "independent_id i \<and> r = Independent i"
    then have a: "take 2 i = ''0x''" "length i \<ge> 44" "list_all is_hex (take 40 (drop 2 i))"
        "i ! 42 = CHR '':''" "list_all is_digit (drop 43 i)" by (simp_all add: independent_id_def)
    have "drop 42 i = i ! 42 # drop 43 i" using a(2) Cons_nth_drop_Suc [of 42 i] by simp
    moreover have "drop 2 i = take 40 (drop 2 i) @ drop 42 i" using append_take_drop_id [of 40 "drop 2 i"] by simp
    ultimately have rest: "drop 2 i = take 40 (drop 2 i) @ i ! 42 # drop 43 i" by simp
    have "CHR ''/'' \<notin> set (take 40 (drop 2 i)) \<and> CHR ''/'' \<noteq> i ! 42 \<and> CHR ''/'' \<notin> set (drop 43 i)"
      using a(3,4,5) bad unfolding list_all_iff by auto
    then have "CHR ''/'' \<notin> set (take 40 (drop 2 i) @ i ! 42 # drop 43 i)" by simp
    then have "CHR ''/'' \<notin> set (drop 2 i)" by (metis rest)
    then have "CHR ''/'' \<notin> set (take 2 i @ drop 2 i)" unfolding set_append a(1) by simp
    then show ?thesis by (metis append_take_drop_id)
  next
    assume "legacy_id i \<and> r = Legacy i"
    then have a: "take 2 i = ''0x''" "list_all lower_hex (drop 2 i)" by (simp_all add: legacy_id_def)
    have "CHR ''/'' \<notin> set (drop 2 i)" using a(2) bad unfolding list_all_iff by blast
    then have "CHR ''/'' \<notin> set (take 2 i @ drop 2 i)" unfolding set_append a(1) by simp
    then show ?thesis by (metis append_take_drop_id)
  qed
  then show ?thesis using i by blast
qed

datatype round_phase = Preparing | OpenRound | Closing

definition roomsRoundStatus :: "int \<Rightarrow> int \<Rightarrow> bool \<Rightarrow> int \<Rightarrow> round_phase \<times> int" where
  "roomsRoundStatus rally version allowed head =
    (let actual = version AND 255; closeBlock = drop_bit 8 version in
     if actual \<noteq> rally \<or> closeBlock = 0 then (Preparing, 0)
     else if allowed \<and> head < closeBlock then (OpenRound, closeBlock - head)
     else if head \<ge> closeBlock \<and> head < closeBlock + 2 then (Closing, closeBlock + 2 - head)
     else (Preparing, 0))"

definition roomSnapshotPollMs :: "string option \<Rightarrow> int option \<Rightarrow> bool \<Rightarrow> int option" where
  "roomSnapshotPollMs status phase hidden =
    (case phase of
       Some p \<Rightarrow> if p \<noteq> 1 \<and> p \<noteq> 2 \<and> (status = Some ''cancelled'' \<or> status = Some ''complete'' \<or> p \<ge> 3) then None
         else if hidden \<or> p \<noteq> 2 then Some 2000 else Some 500
     | None \<Rightarrow> Some 2000)"

subsection \<open>Clocks\<close>

record lobby_clock =
  lc_anchor :: "(int \<times> int) option"

definition clock_now :: "int \<Rightarrow> int \<Rightarrow> lobby_clock \<Rightarrow> int" where
  "clock_now monotonic wall c = (case lc_anchor c of None \<Rightarrow> wall | Some (epoch, at) \<Rightarrow> epoch + max 0 (monotonic - at))"

definition clock_observe :: "int \<Rightarrow> int \<Rightarrow> int \<Rightarrow> lobby_clock \<Rightarrow> lobby_clock" where
  "clock_observe epoch monotonic wall c =
    (if epoch \<le> 0 then c
     else c\<lparr>lc_anchor := Some (case lc_anchor c of None \<Rightarrow> epoch | Some _ \<Rightarrow> max epoch (clock_now monotonic wall c), monotonic)\<rparr>)"

text \<open>Once anchored, the clock never goes back, whatever it observes.\<close>

lemma clock_monotone:
  assumes "lc_anchor c = Some a" "m \<le> m'"
  shows "clock_now m wall c \<le> clock_now m' wall' c"
    and "clock_now m wall c \<le> clock_now m' wall' (clock_observe epoch m' wall' c)"
  using assms by (auto simp add: clock_now_def clock_observe_def split: prod.splits)

record queue_elapsed =
  qe_entry :: "(string \<times> int) option"

definition queue_sample :: "string option \<Rightarrow> int \<Rightarrow> queue_elapsed \<Rightarrow> int \<times> queue_elapsed" where
  "queue_sample key monotonic q =
    (if key = None \<or> key = Some [] then (0, \<lparr>qe_entry = None\<rparr>)
     else let e = (case qe_entry q of Some (k, at) \<Rightarrow> if Some k \<noteq> key then (the key, monotonic) else (k, at)
            | None \<Rightarrow> (the key, monotonic)) in
       (max 0 (monotonic - snd e) div 1000, \<lparr>qe_entry = Some e\<rparr>))"

subsection \<open>Sounds of the events\<close>

datatype sound_kind = Announce | Impact | Consume
datatype wave = Triangle | Square | Sawtooth

record chaos_tone =
  ct_note :: int
  ct_at :: int
  ct_duration :: int
  ct_gain :: int
  ct_wave :: wave
  ct_slide :: "int option"

definition themes :: "int list list" where
  "themes = [
     [60,67,72,79],[69,76,81,88],[64,71,76,83],[48,60,72,84],
     [69,72,76,79],[76,83,88],[79,72,67,60],[43,43,38],
     [84,91,86,96],[57,69,58,70],[67,74,67,79],[60,76,72,64],
     [81,69,88],[60,72,84,72],[72,79,86],[48,55,62,69],
     [64,69,76,81],[76,64,81],[84,79,72],[69,81,76],
     [72,79,84,91],[72,76,79,84,91],[36,43,48,55,60],[67,70,74,81]]"

definition chaosSoundPattern :: "int \<Rightarrow> sound_kind \<Rightarrow> chaos_tone list res" where
  "chaosSoundPattern i kind =
    (if i < 1 \<or> int (length themes) < i then Inl ''Unknown Chaos sound''
     else
       let melody = themes ! nat (i - 1);
           notes = (case kind of Impact \<Rightarrow> drop (length melody - 2) melody | Consume \<Rightarrow> rev melody | Announce \<Rightarrow> melody);
           step = (if kind = Impact then 35 else 75) in
       Inr (map2 (\<lambda>n note. \<lparr>ct_note = note, ct_at = int n * step, ct_duration = (if kind = Impact then 85 else 160),
           ct_gain = (if kind = Impact then 160 else 120),
           ct_wave = (if i = 8 \<or> i = 23 then Sawtooth else if i \<ge> 21 then Square else Triangle),
           ct_slide = (if i \<in> {2, 4, 14, 15} then Some (note + (if kind = Consume then -7 else 7)) else None)\<rparr>)
         [0..<length notes] notes))"

lemma sound_defined: "1 \<le> i \<Longrightarrow> i \<le> 24 \<Longrightarrow> \<exists>tones. chaosSoundPattern i kind = Inr tones"
  by (simp add: chaosSoundPattern_def themes_def Let_def)

end
