(* ===== verification/Service_Errors.thy ===== *)
theory Service_Errors
  imports Js_Text
begin

text \<open>
  \<^verbatim>\<open>shared/service-error.ts\<close>, \<^verbatim>\<open>shared/engine-read.ts\<close>, the request gate of \<^verbatim>\<open>shared/engine-transport.ts\<close>,
  \<^verbatim>\<open>ArenaRecovery\<close> of \<^verbatim>\<open>shared/independent-recovery.ts\<close> and
  \<^verbatim>\<open>relayer/src/rooms-publication-health.ts\<close>: what an error of the node means and how long requests
  wait after it.  An error is the list of itself and its causes; a \<^verbatim>\<open>Retry-After\<close> header is its value in
  milliseconds when that is a number not below zero, the date it names otherwise, or neither.  Times are milliseconds.
\<close>

datatype retry_header = AfterMs int | AfterDate int | AfterJunk

datatype error_class = Plain | SessionUnavailable | SessionRejected

record error_info =
  ei_class :: error_class
  ei_status :: "int option"
  ei_code :: "string option"
  ei_source :: "string option"
  ei_message :: string
  ei_details :: string
  ei_retryAfter :: "retry_header option"

type_synonym js_error = "error_info list"

subsection \<open>Back-off of reads\<close>

definition retry_of_cause :: "int \<Rightarrow> error_info \<Rightarrow> int" where
  "retry_of_cause now c = (case ei_retryAfter c of
       Some (AfterMs ms) \<Rightarrow> if ms \<ge> 0 then max 1000 ms else 10000
     | Some (AfterDate d) \<Rightarrow> max 1000 (d - now)
     | _ \<Rightarrow> 10000)"

definition engineReadRetryMs :: "int \<Rightarrow> js_error \<Rightarrow> int" where
  "engineReadRetryMs now e = (case find (\<lambda>c. ei_status c = Some 429) (take 8 e) of
       None \<Rightarrow> 0 | Some c \<Rightarrow> retry_of_cause now c)"

text \<open>The gate of one node: the requests that are refused locally, and the ones that are sent, whose
  error moves the time until which it stays shut.  \<open>answer\<close> is what sending gives, at the time it arrives.\<close>

definition cooldown_error :: "int \<Rightarrow> int \<Rightarrow> js_error" where
  "cooldown_error until now =
    [\<lparr>ei_class = Plain, ei_status = Some 429, ei_code = Some ''ENGINE_COOLDOWN'', ei_source = Some ''client_cooldown'',
      ei_message = ''The game node is limiting requests. Waiting to synchronize.'', ei_details = [],
      ei_retryAfter = Some (AfterMs (until - now))\<rparr>]"

definition gate_request :: "int \<Rightarrow> (js_error + 'a) \<times> int \<Rightarrow> int \<Rightarrow> (js_error + 'a) \<times> int" where
  "gate_request now answer until =
    (if now < until then (Inl (cooldown_error until now), until)
     else case answer of (Inr x, _) \<Rightarrow> (Inr x, until)
       | (Inl e, later) \<Rightarrow>
         let delay = engineReadRetryMs later e in
         (Inl e, if delay \<noteq> 0 then max until (later + delay) else until))"

subsection \<open>Coalesced reads\<close>

text \<open>The state of \<^verbatim>\<open>engineRead\<close>: the number of the request that is awaited, the cached value with
  its time, and the generation.  A request carries the generation it was sent in.\<close>

record 'a read_state =
  rs_pending :: "nat option"
  rs_cached :: "('a \<times> int) option"
  rs_generation :: nat
  rs_sent :: "nat list"

text \<open>What a caller gets: the value of the cache, or the promise of a request.\<close>

datatype 'a read_answer = FromCache 'a | FromRequest nat

definition read_begin :: "int \<Rightarrow> bool \<Rightarrow> int \<Rightarrow> 'a read_state \<Rightarrow> 'a read_answer \<times> 'a read_state" where
  "read_begin ttl fresh now s =
    (let s = (if fresh then s\<lparr>rs_generation := rs_generation s + 1, rs_pending := None, rs_cached := None\<rparr> else s) in
     case rs_pending s of Some k \<Rightarrow> (FromRequest k, s)
     | None \<Rightarrow>
       let request = (FromRequest (length (rs_sent s)),
             s\<lparr>rs_sent := rs_sent s @ [rs_generation s], rs_pending := Some (length (rs_sent s))\<rparr>) in
       case rs_cached s of Some (value, at) \<Rightarrow> if now - at < ttl then (FromCache value, s) else request
       | None \<Rightarrow> request)"

definition read_end :: "nat \<Rightarrow> 'a option \<Rightarrow> int \<Rightarrow> 'a read_state \<Rightarrow> 'a read_state" where
  "read_end k answer now s =
    (let s = (case answer of Some value \<Rightarrow> if rs_sent s ! k = rs_generation s then s\<lparr>rs_cached := Some (value, now)\<rparr> else s
                | None \<Rightarrow> s) in
     if rs_pending s = Some k then s\<lparr>rs_pending := None\<rparr> else s)"

subsection \<open>Publication failures\<close>

definition starts_with :: "string \<Rightarrow> string \<Rightarrow> bool" where
  "starts_with p s \<longleftrightarrow> take (length p) s = p"

fun contains :: "string \<Rightarrow> string \<Rightarrow> bool" where
  "contains p [] \<longleftrightarrow> p = []"
| "contains p (c # s) \<longleftrightarrow> starts_with p (c # s) \<or> contains p s"

definition error_text :: "error_info \<Rightarrow> string" where
  "error_text c = ei_details c @ '' '' @ ei_message c"

definition publication_text :: "string \<Rightarrow> bool" where
  "publication_text s \<longleftrightarrow> contains ''this session is over'' (lower s)
     \<or> contains ''node is no longer accepting transactions'' (lower s) \<or> contains ''commit relay failed'' (lower s)"

definition publicationUnavailable :: "js_error \<Rightarrow> bool" where
  "publicationUnavailable e \<longleftrightarrow>
    list_ex (\<lambda>c. ei_code c = Some ''ENGINE_PUBLICATION_UNAVAILABLE'' \<or> publication_text (error_text c)) (take 8 e)"

definition is_space :: "char \<Rightarrow> bool" where
  "is_space c \<longleftrightarrow> (of_char c :: int) \<in> {9, 10, 11, 12, 13, 32}"

definition is_word :: "char \<Rightarrow> bool" where
  "is_word c \<longleftrightarrow> is_digit c \<or> c = CHR ''_'' \<or> 97 \<le> (of_char (lower_char c) :: int) \<and> (of_char (lower_char c) :: int) \<le> 122"

text \<open>\<^verbatim>\<open>/batch\s+(\d+)\s+could not be settled/i\<close> at the head of a text.\<close>

definition match_batch :: "string \<Rightarrow> string option" where
  "match_batch s =
    (if \<not> starts_with ''batch'' (lower s) then None
     else let a = drop 5 s; b = dropWhile is_space a; c = takeWhile is_digit b; d = dropWhile is_digit b; f = dropWhile is_space d in
       if a \<noteq> b \<and> c \<noteq> [] \<and> d \<noteq> f \<and> starts_with ''could not be settled'' (lower f) then Some c else None)"

text \<open>\<^verbatim>\<open>/commit relay failed:\s*(\d{3})\b/i\<close> at the head of a text.\<close>

definition match_relay :: "string \<Rightarrow> string option" where
  "match_relay s =
    (if \<not> starts_with ''commit relay failed:'' (lower s) then None
     else let b = dropWhile is_space (drop 20 s) in
       if length b \<ge> 3 \<and> list_all is_digit (take 3 b) \<and> (case drop 3 b of [] \<Rightarrow> True | c # _ \<Rightarrow> \<not> is_word c)
       then Some (take 3 b) else None)"

text \<open>The first match in a text.\<close>

fun first_match :: "(string \<Rightarrow> string option) \<Rightarrow> string \<Rightarrow> string option" where
  "first_match m [] = m []"
| "first_match m (c # s) = (case m (c # s) of Some x \<Rightarrow> Some x | None \<Rightarrow> first_match m s)"

definition number_of :: "string \<Rightarrow> int" where
  "number_of ds = fold (\<lambda>c n. n * 10 + (of_char c - 48)) ds 0"

record failure_details =
  fd_batch :: "string option"
  fd_relayStatus :: "int option"

definition failure_step :: "error_info \<Rightarrow> failure_details \<Rightarrow> failure_details" where
  "failure_step c d =
    \<lparr>fd_batch = (case fd_batch d of Some b \<Rightarrow> Some b | None \<Rightarrow> first_match match_batch (error_text c)),
     fd_relayStatus = (if fd_relayStatus d \<in> {None, Some 0}
        then case first_match match_relay (error_text c) of Some s \<Rightarrow> Some (number_of s) | None \<Rightarrow> fd_relayStatus d
        else fd_relayStatus d)\<rparr>"

definition failure_reason :: "int option \<Rightarrow> string" where
  "failure_reason status = (if status = Some 413 then ''payload_too_large''
     else if status = Some 401 \<or> status = Some 403 then ''relay_authentication'' else ''publication_failed'')"

definition publicationFailureDetails :: "js_error \<Rightarrow> failure_details \<times> string" where
  "publicationFailureDetails e =
    (let d = fold failure_step (take 8 e) \<lparr>fd_batch = None, fd_relayStatus = None\<rparr> in (d, failure_reason (fd_relayStatus d)))"

record service_reply =
  sr_status :: int
  sr_retryMs :: int
  sr_error :: string
  sr_code :: string
  sr_source :: string
  sr_retryAt :: "int option"
  sr_requestId :: string

definition or_default :: "string option \<Rightarrow> string \<Rightarrow> string" where
  "or_default x d = (case x of Some s \<Rightarrow> if s = [] then d else s | None \<Rightarrow> d)"

definition first_line :: "string \<Rightarrow> string" where
  "first_line s = takeWhile (\<lambda>c. (of_char c :: int) \<noteq> 10) s"

definition serviceError :: "int \<Rightarrow> js_error \<Rightarrow> string \<Rightarrow> service_reply" where
  "serviceError now e requestId =
    (if publicationUnavailable e then
       \<lparr>sr_status = 503, sr_retryMs = 30000,
        sr_error = ''The game service has paused writes because publication failed. Your session is saved; retry after service recovery.'',
        sr_code = ''ENGINE_PUBLICATION_UNAVAILABLE'', sr_source = ''interlude_rpc'', sr_retryAt = Some (now + 30000), sr_requestId = requestId\<rparr>
     else
       let retryMs = engineReadRetryMs now e;
           local = list_ex (\<lambda>c. ei_code c = Some ''ENGINE_COOLDOWN'') (take 8 e);
           head = (case e of [] \<Rightarrow> None | c # _ \<Rightarrow> Some c);
           class = (case head of None \<Rightarrow> Plain | Some c \<Rightarrow> ei_class c) in
       \<lparr>sr_status = (if retryMs \<noteq> 0 then 429 else if class = SessionUnavailable then 503 else if class = SessionRejected then 401 else 400),
        sr_retryMs = retryMs,
        sr_error = (if retryMs \<noteq> 0 then ''The game node is busy. Waiting to synchronize.''
          else first_line (or_default (map_option ei_message head) ''Service unavailable'')),
        sr_code = (if retryMs \<noteq> 0 then if local then ''ENGINE_COOLDOWN'' else ''ENGINE_RATE_LIMIT''
          else or_default (Option.bind head ei_code) ''REQUEST_REJECTED''),
        sr_source = (if retryMs \<noteq> 0 then if local then ''client_cooldown'' else ''interlude_rpc''
          else or_default (Option.bind head ei_source) ''pongit_api''),
        sr_retryAt = (if retryMs \<noteq> 0 then Some (now + retryMs) else None), sr_requestId = requestId\<rparr>)"

subsection \<open>Recovery of an arena\<close>

record arena_recovery =
  ar_blocked :: bool
  ar_message :: string

definition arena_failure :: "js_error \<Rightarrow> arena_recovery \<Rightarrow> arena_recovery" where
  "arena_failure e r =
    (let blocked = ar_blocked r \<or> publicationUnavailable e in
     \<lparr>ar_blocked = blocked,
      ar_message = (if blocked then ''This arena is waiting for publication recovery. Your arcade session is still saved.''
        else if (case e of [] \<Rightarrow> False | c # _ \<Rightarrow> ei_message c = ''Renew arcade session'') then ''Renew arcade session''
        else ''Synchronizing this arena. Your arcade session is still saved.'')\<rparr>)"

definition arena_observed :: "bool \<Rightarrow> bool \<Rightarrow> arena_recovery \<Rightarrow> arena_recovery" where
  "arena_observed terminal confirmedWrite r =
    (if terminal \<or> confirmedWrite then \<lparr>ar_blocked = False, ar_message = []\<rparr>
     else if \<not> ar_blocked r then r\<lparr>ar_message := []\<rparr> else r)"

subsection \<open>Publication health\<close>

record incident =
  in_epoch :: string
  in_batch :: string
  in_reason :: string
  in_relayStatus :: "int option"
  in_failedAt :: int

record publication_health =
  ph_incident :: "incident option"
  ph_retryAt :: int

definition health_start :: "incident option \<Rightarrow> int \<Rightarrow> publication_health" where
  "health_start stored now = \<lparr>ph_incident = stored, ph_retryAt = (if stored = None then 0 else now)\<rparr>"

definition claimRetry :: "int \<Rightarrow> publication_health \<Rightarrow> bool \<times> publication_health" where
  "claimRetry now h = (if ph_incident h = None \<or> now < ph_retryAt h then (False, h)
     else (True, h\<lparr>ph_retryAt := now + 30000\<rparr>))"

definition incident_after :: "js_error \<Rightarrow> int \<Rightarrow> int \<Rightarrow> int \<Rightarrow> incident option \<Rightarrow> incident" where
  "incident_after e epoch batch now prior =
    (let (d, reason) = publicationFailureDetails e;
         same = (case prior of Some i \<Rightarrow> in_epoch i = decimal epoch | None \<Rightarrow> False) in
     \<lparr>in_epoch = decimal epoch,
      in_batch = (case fd_batch d of Some b \<Rightarrow> b | None \<Rightarrow> if same then in_batch (the prior) else decimal (batch + 1)),
      in_reason = (if fd_relayStatus d \<notin> {None, Some 0} then reason else if same then in_reason (the prior) else reason),
      in_relayStatus = (case fd_relayStatus d of Some s \<Rightarrow> Some s | None \<Rightarrow> if same then in_relayStatus (the prior) else None),
      in_failedAt = (if same then in_failedAt (the prior) else now)\<rparr>)"

definition health_fail :: "js_error \<Rightarrow> int \<Rightarrow> int \<Rightarrow> int \<Rightarrow> publication_health \<Rightarrow> publication_health" where
  "health_fail e epoch batch now h =
    h\<lparr>ph_incident := Some (incident_after e epoch batch now (ph_incident h)), ph_retryAt := now + 30000\<rparr>"

text \<open>Whether the node and the hub prove that the failed batch was published.\<close>

definition recovered_from :: "incident \<Rightarrow> int \<Rightarrow> int \<Rightarrow> int \<Rightarrow> bool" where
  "recovered_from i committed hubEpoch hubBatch \<longleftrightarrow>
    hubEpoch > number_of (in_epoch i) \<and> committed = hubBatch
    \<or> hubEpoch = number_of (in_epoch i) \<and> committed \<ge> number_of (in_batch i) \<and> hubBatch \<ge> number_of (in_batch i)"

text \<open>\<open>h'\<close> is the state after the incident was deleted from the database.\<close>

definition health_observe ::
    "int \<Rightarrow> int \<Rightarrow> int \<Rightarrow> int \<Rightarrow> publication_health \<Rightarrow> publication_health \<Rightarrow> bool \<times> publication_health" where
  "health_observe nodeEpoch committed hubEpoch hubBatch h h' =
    (case ph_incident h of None \<Rightarrow> (False, h)
     | Some i \<Rightarrow>
       if nodeEpoch \<noteq> hubEpoch \<or> \<not> recovered_from i committed hubEpoch hubBatch then (False, h)
       else if ph_incident h' \<noteq> Some i then (False, h')
       else (True, \<lparr>ph_incident = None, ph_retryAt = 0\<rparr>))"

subsection \<open>What they guarantee\<close>

lemma retry_at_least_a_second: "engineReadRetryMs now e = 0 \<or> 1000 \<le> engineReadRetryMs now e"
  by (auto simp add: engineReadRetryMs_def retry_of_cause_def split: option.splits retry_header.splits)

text \<open>The gate never opens earlier, and nothing is sent while it is shut.\<close>

lemma gate_monotone: "until \<le> snd (gate_request now answer until)"
  by (auto simp add: gate_request_def Let_def split: prod.splits sum.splits)

lemma gate_shut: "now < until \<Longrightarrow> gate_request now answer until = (Inl (cooldown_error until now), until)"
  by (simp add: gate_request_def)

text \<open>A refusal of the gate is read as the rest of the cooldown, and never extends it by more.\<close>

lemma cooldown_retry: "now < until \<Longrightarrow> engineReadRetryMs now (cooldown_error until now) = max 1000 (until - now)"
  by (simp add: engineReadRetryMs_def cooldown_error_def retry_of_cause_def)

lemma service_status: "sr_status (serviceError now e rid) \<in> {400, 401, 429, 503}"
  by (simp add: serviceError_def Let_def)

text \<open>A blocked arena stays blocked until a confirmed write or the end of its match.\<close>

lemma arena_stays_blocked: "ar_blocked r \<Longrightarrow> ar_blocked (arena_failure e r) \<and> ar_blocked (arena_observed False False r)"
  by (simp add: arena_failure_def arena_observed_def Let_def)

end
