(* ===== verification/Rpc_Gateway.thy ===== *)
theory Rpc_Gateway
  imports Js_Text "HOL-Library.Product_Lexorder" "HOL-Library.Multiset"
begin

text \<open>
  The shared access of the relayer to the chain: \<^verbatim>\<open>relayer/src/rpc-scheduler.ts\<close>, \<^verbatim>\<open>log-ranges.ts\<close>,
  \<^verbatim>\<open>rpc-gateway.ts\<close>, \<^verbatim>\<open>traffic.ts\<close>, \<^verbatim>\<open>budget.ts\<close> and \<^verbatim>\<open>transition-gas.ts\<close>.  Times are
  milliseconds; what the upstream nodes answer is an argument.
\<close>

subsection \<open>The scheduler\<close>

text \<open>Requests are numbers; the state holds the two queues, the time of the next release, whether a timer
  is set and the run of live releases.  A step also gives the request it releases, and whether it is a
  historical one.\<close>

record scheduler =
  sc_live :: "nat list"
  sc_history :: "nat list"
  sc_next :: int
  sc_timer :: bool
  sc_run :: nat

definition initial_scheduler :: scheduler where
  "initial_scheduler = \<lparr>sc_live = [], sc_history = [], sc_next = 0, sc_timer = False, sc_run = 0\<rparr>"

definition scheduler_tick :: "int \<Rightarrow> int \<Rightarrow> scheduler \<Rightarrow> scheduler \<times> (bool \<times> nat) list" where
  "scheduler_tick spacing now s =
    (let s = s\<lparr>sc_timer := False\<rparr> in
     if sc_live s = [] \<and> sc_history s = [] then (s, [])
     else if sc_next s - now > 0 then (s\<lparr>sc_timer := True\<rparr>, [])
     else
       let low = sc_history s \<noteq> [] \<and> (sc_live s = [] \<or> sc_run s \<ge> 4);
           out = (if low then hd (sc_history s) else hd (sc_live s));
           s = s\<lparr>sc_live := (if low then sc_live s else tl (sc_live s)),
                 sc_history := (if low then tl (sc_history s) else sc_history s),
                 sc_run := (if low then 0 else sc_run s + 1), sc_next := now + spacing\<rparr> in
       (s\<lparr>sc_timer := sc_live s \<noteq> [] \<or> sc_history s \<noteq> []\<rparr>, [(low, out)]))"

definition scheduler_acquire :: "int \<Rightarrow> int \<Rightarrow> bool \<Rightarrow> nat \<Rightarrow> scheduler \<Rightarrow> scheduler \<times> (bool \<times> nat) list" where
  "scheduler_acquire spacing now historical k s =
    (let s = (if historical then s\<lparr>sc_history := sc_history s @ [k]\<rparr> else s\<lparr>sc_live := sc_live s @ [k]\<rparr>) in
     if sc_timer s then (s, []) else scheduler_tick spacing now s)"

datatype scheduler_event = Acquire int bool nat | TimerFires int

definition scheduler_step :: "int \<Rightarrow> scheduler_event \<Rightarrow> scheduler \<Rightarrow> scheduler \<times> (int \<times> bool \<times> nat) list" where
  "scheduler_step spacing e s = (case e of
       Acquire now historical k \<Rightarrow>
         (let (s', out) = scheduler_acquire spacing now historical k s in (s', map (Pair now) out))
     | TimerFires now \<Rightarrow>
         if sc_timer s then (let (s', out) = scheduler_tick spacing now s in (s', map (Pair now) out)) else (s, []))"

fun scheduler_run :: "int \<Rightarrow> scheduler_event list \<Rightarrow> scheduler \<Rightarrow> scheduler \<times> (int \<times> bool \<times> nat) list" where
  "scheduler_run spacing [] s = (s, [])"
| "scheduler_run spacing (e # es) s =
    (let (s1, xs) = scheduler_step spacing e s; (s2, ys) = scheduler_run spacing es s1 in (s2, xs @ ys))"

text \<open>One step: it releases nothing and keeps the queues, or one request at or after the next time.\<close>

lemma scheduler_step_cases:
  obtains s' where "scheduler_step spacing e s = (s', [])" "sc_next s' = sc_next s" "sc_run s' = sc_run s"
      "\<exists>zs. sc_history s' = sc_history s @ zs"
  | s' now k zs where "scheduler_step spacing e s = (s', [(now, True, k)])" "sc_next s \<le> now" "sc_next s' = now + spacing"
      "sc_history s @ zs = k # sc_history s'" "sc_run s' = 0"
  | s' now k zs where "scheduler_step spacing e s = (s', [(now, False, k)])" "sc_next s \<le> now" "sc_next s' = now + spacing"
      "sc_history s' = sc_history s @ zs" "sc_run s' = sc_run s + 1" "sc_history s = [] \<or> sc_run s < 4"
proof -
  have tick: "(\<exists>s'. scheduler_tick spacing now s = (s', []) \<and> sc_next s' = sc_next s \<and> sc_run s' = sc_run s \<and> sc_history s' = sc_history s)
      \<or> (\<exists>s' k. scheduler_tick spacing now s = (s', [(True, k)]) \<and> sc_next s \<le> now \<and> sc_next s' = now + spacing
           \<and> sc_history s = k # sc_history s' \<and> sc_run s' = 0)
      \<or> (\<exists>s' k. scheduler_tick spacing now s = (s', [(False, k)]) \<and> sc_next s \<le> now \<and> sc_next s' = now + spacing
           \<and> sc_history s' = sc_history s \<and> sc_run s' = sc_run s + 1 \<and> (sc_history s = [] \<or> sc_run s < 4))" for now s
    by (cases "sc_history s"; cases "sc_live s") (auto simp add: scheduler_tick_def Let_def)
  show ?thesis
  proof (cases e)
    case (TimerFires now)
    then show ?thesis
      using tick [of now s] that(1) [of s] that(1) that(2) [of _ now _ "[]"] that(3) [of _ now _ "[]"]
      by (cases "sc_timer s") (auto simp add: scheduler_step_def)
  next
    case (Acquire now historical k)
    define s0 where "s0 = (if historical then s\<lparr>sc_history := sc_history s @ [k]\<rparr> else s\<lparr>sc_live := sc_live s @ [k]\<rparr>)"
    obtain zs where s0: "sc_next s0 = sc_next s" "sc_run s0 = sc_run s" "sc_timer s0 = sc_timer s" "sc_history s0 = sc_history s @ zs"
      by (cases historical) (simp_all add: s0_def)
    have step: "scheduler_step spacing e s =
        (if sc_timer s0 then (s0, []) else (let (s', out) = scheduler_tick spacing now s0 in (s', map (Pair now) out)))"
      by (simp add: Acquire scheduler_step_def scheduler_acquire_def s0_def Let_def)
    show ?thesis
    proof (cases "sc_timer s0")
      case True
      then show ?thesis using step s0 by (intro that(1) [of s0]) auto
    next
      case False
      consider (none) s' where "scheduler_tick spacing now s0 = (s', [])" "sc_next s' = sc_next s0" "sc_run s' = sc_run s0" "sc_history s' = sc_history s0"
        | (low) s' k where "scheduler_tick spacing now s0 = (s', [(True, k)])" "sc_next s0 \<le> now" "sc_next s' = now + spacing"
            "sc_history s0 = k # sc_history s'" "sc_run s' = 0"
        | (live) s' k where "scheduler_tick spacing now s0 = (s', [(False, k)])" "sc_next s0 \<le> now" "sc_next s' = now + spacing"
            "sc_history s' = sc_history s0" "sc_run s' = sc_run s0 + 1" "sc_history s0 = [] \<or> sc_run s0 < 4"
        using tick [of now s0] by blast
      then show ?thesis
      proof cases
        case none
        then show ?thesis using step s0 False by (intro that(1) [of s']) auto
      next
        case low
        then show ?thesis using step s0 False by (intro that(2) [of s' now k zs]) auto
      next
        case live
        then show ?thesis using step s0 False by (intro that(3) [of s' now k zs]) auto
      qed
    qed
  qed
qed

fun spaced :: "int \<Rightarrow> int \<Rightarrow> int list \<Rightarrow> bool" where
  "spaced spacing t [] = True"
| "spaced spacing t (x # xs) \<longleftrightarrow> t \<le> x \<and> spaced spacing (x + spacing) xs"

lemma spaced_sorted: "spaced spacing t xs \<Longrightarrow> 0 \<le> spacing \<Longrightarrow>
   (\<forall>i < length xs. t \<le> xs ! i) \<and> (\<forall>i. Suc i < length xs \<longrightarrow> xs ! i + spacing \<le> xs ! Suc i)"
proof (induction xs arbitrary: t)
  case (Cons x xs)
  have rest: "(\<forall>i < length xs. x + spacing \<le> xs ! i) \<and> (\<forall>i. Suc i < length xs \<longrightarrow> xs ! i + spacing \<le> xs ! Suc i)"
    using Cons.IH [of "x + spacing"] Cons.prems by simp
  show ?case
  proof (intro conjI allI impI)
    fix i assume "i < length (x # xs)"
    then show "t \<le> (x # xs) ! i" using rest Cons.prems by (cases i) force+
  next
    fix i assume "Suc i < length (x # xs)"
    then show "(x # xs) ! i + spacing \<le> (x # xs) ! Suc i" using rest by (cases i) auto
  qed
qed simp

lemma run_spaced:
  "scheduler_run spacing es s = (s', out) \<Longrightarrow> spaced spacing (sc_next s) (map fst out)"
proof (induction es arbitrary: s s' out)
  case (Cons e es)
  obtain s1 xs where a: "scheduler_step spacing e s = (s1, xs)" by (cases "scheduler_step spacing e s")
  obtain s2 ys where b: "scheduler_run spacing es s1 = (s2, ys)" by (cases "scheduler_run spacing es s1")
  have out: "out = xs @ ys" using Cons.prems a b by simp
  have ys: "spaced spacing (sc_next s1) (map fst ys)" by (rule Cons.IH [OF b])
  show ?case by (rule scheduler_step_cases [of spacing e s]) (use a ys out in auto)
qed simp

lemma run_fair:
  "scheduler_run spacing es s = (s', out) \<Longrightarrow> sc_history s = k # ks \<Longrightarrow>
   (\<exists>before t after. out = before @ (t, True, k) # after \<and> (\<forall>x \<in> set before. \<not> fst (snd x)) \<and> length before + sc_run s \<le> max 4 (sc_run s))
   \<or> (\<forall>x \<in> set out. \<not> fst (snd x)) \<and> length out + sc_run s \<le> max 4 (sc_run s)"
proof (induction es arbitrary: s s' out ks)
  case (Cons e es)
  obtain s1 xs where a: "scheduler_step spacing e s = (s1, xs)" by (cases "scheduler_step spacing e s")
  obtain s2 ys where b: "scheduler_run spacing es s1 = (s2, ys)" by (cases "scheduler_run spacing es s1")
  have out: "out = xs @ ys" using Cons.prems(1) a b by simp
  show ?case
  proof (rule scheduler_step_cases [of spacing e s])
    fix t assume "scheduler_step spacing e s = (t, [])" "sc_run t = sc_run s" "\<exists>zs. sc_history t = sc_history s @ zs"
    then have "xs = []" "sc_run s1 = sc_run s" "\<exists>zs. sc_history s1 = k # zs" using a Cons.prems(2) by auto
    then show ?thesis using Cons.IH [OF b] out by auto
  next
    fix t now k' zs
    assume "scheduler_step spacing e s = (t, [(now, True, k')])" "sc_history s @ zs = k' # sc_history t"
    then have "xs = [(now, True, k)]" using a Cons.prems(2) by auto
    then have "out = [] @ (now, True, k) # ys" using out by simp
    then show ?thesis by (intro disjI1 exI conjI) auto
  next
    fix t now k' zs
    assume "scheduler_step spacing e s = (t, [(now, False, k')])" "sc_history t = sc_history s @ zs" "sc_run t = sc_run s + 1"
      "sc_history s = [] \<or> sc_run s < 4"
    then have xs: "xs = [(now, False, k')]" and h: "sc_history s1 = k # ks @ zs" and r: "sc_run s1 = sc_run s + 1" "sc_run s < 4"
      using a Cons.prems(2) by auto
    from Cons.IH [OF b h] show ?thesis
    proof
      assume "\<exists>before t after. ys = before @ (t, True, k) # after \<and> (\<forall>x \<in> set before. \<not> fst (snd x))
        \<and> length before + sc_run s1 \<le> max 4 (sc_run s1)"
      then obtain before t after where y: "ys = before @ (t, True, k) # after" "\<forall>x \<in> set before. \<not> fst (snd x)"
          "length before + sc_run s1 \<le> max 4 (sc_run s1)" by blast
      have "out = ((now, False, k') # before) @ (t, True, k) # after" using out xs y by simp
      moreover have "\<forall>x \<in> set ((now, False, k') # before). \<not> fst (snd x)" using y by simp
      moreover have "length ((now, False, k') # before) + sc_run s \<le> max 4 (sc_run s)" using y r by simp
      ultimately show ?thesis by blast
    next
      assume "(\<forall>x \<in> set ys. \<not> fst (snd x)) \<and> length ys + sc_run s1 \<le> max 4 (sc_run s1)"
      then show ?thesis using out xs r by simp
    qed
  qed
qed simp

text \<open>C21. The one rate budget is kept and is fair: in every run of the scheduler two releases are at least the
  spacing apart, and while a historical scan waits at the head of its queue at most four gameplay reads are
  released before it.\<close>

theorem scheduler_rate_and_fairness:
  assumes "scheduler_run spacing es s = (s', out)" and "0 \<le> spacing"
  shows "list_all (\<lambda>i. fst (out ! i) + spacing \<le> fst (out ! Suc i)) [0..<length out - 1]
    \<and> (case sc_history s of [] \<Rightarrow> True
       | k # _ \<Rightarrow> length out \<le> 4 \<or> (\<exists>before t after. out = before @ (t, True, k) # after \<and> length before \<le> 4))"
proof
  have "spaced spacing (sc_next s) (map fst out)" by (rule run_spaced [OF assms(1)])
  from spaced_sorted [OF this assms(2)] show "list_all (\<lambda>i. fst (out ! i) + spacing \<le> fst (out ! Suc i)) [0..<length out - 1]"
    by (simp add: list_all_iff)
next
  show "case sc_history s of [] \<Rightarrow> True
       | k # _ \<Rightarrow> length out \<le> 4 \<or> (\<exists>before t after. out = before @ (t, True, k) # after \<and> length before \<le> 4)"
  proof (cases "sc_history s")
    case (Cons k ks)
    have "length xs + sc_run s \<le> max 4 (sc_run s) \<Longrightarrow> length xs \<le> 4" for xs :: "(int \<times> bool \<times> nat) list"
      by (simp add: max_def split: if_split_asm)
    then show ?thesis using run_fair [OF assms(1) Cons] Cons by auto
  qed simp
qed

theorem scheduler_rate_and_fairness_witness:
  "\<exists>s' out. scheduler_run 60 [Acquire 0 False 1, Acquire 0 False 2, Acquire 0 True 3, TimerFires 60, TimerFires 120] initial_scheduler
     = (s', out) \<and> length out = 3 \<and> fst (out ! 0) + 60 \<le> fst (out ! 1)"
proof -
  let ?es = "[Acquire 0 False 1, Acquire 0 False 2, Acquire 0 True 3, TimerFires 60, TimerFires 120]"
  have m: "length (snd (scheduler_run 60 ?es initial_scheduler)) = 3" by code_simp
  obtain s' out where r: "scheduler_run 60 ?es initial_scheduler = (s', out)" by (rule prod.exhaust)
  have l: "length out = 3" using m r by simp
  from scheduler_rate_and_fairness [OF r] have "list_all (\<lambda>i. fst (out ! i) + 60 \<le> fst (out ! Suc i)) [0..<length out - 1]" by simp
  then have "fst (out ! 0) + 60 \<le> fst (out ! 1)" unfolding l by (simp add: numeral_eq_Suc)
  with r l show ?thesis by blast
qed

subsection \<open>Historical logs\<close>

record log_filter =
  lf_blockHash :: bool
  lf_from :: "int option"
  lf_to :: "int option"

record chain_log =
  cl_block :: int
  cl_tx :: int
  cl_index :: int
  cl_data :: string

text \<open>The ranges of a scan; a chunk size is positive in every use (100), the loop of the source would not end
  for another one.\<close>

function log_ranges :: "int \<Rightarrow> int \<Rightarrow> int \<Rightarrow> (int \<times> int) list" where
  "log_ranges low high chunk =
    (if low \<le> high \<and> 0 < chunk
     then (low, if low + chunk - 1 > high then high else low + chunk - 1) # log_ranges (low + chunk) high chunk else [])"
  by auto
termination by (relation "measure (\<lambda>(low, high, chunk). nat (high - low + 1))") auto

declare log_ranges.simps [simp del]

text \<open>Reads of a group run in parallel, the groups one after the other; one that fails fails the scan.\<close>

fun send_ranges :: "(int \<times> int \<Rightarrow> 'a list res) \<Rightarrow> (int \<times> int) list \<Rightarrow> 'a list res" where
  "send_ranges send [] = Inr []"
| "send_ranges send (r # rs) = rbind (send r) (\<lambda>logs. rbind (send_ranges send rs) (\<lambda>rest. Inr (logs @ rest)))"

definition log_key :: "chain_log \<Rightarrow> int \<times> int \<times> int" where
  "log_key l = (cl_block l, cl_tx l, cl_index l)"

definition chunkedLogs ::
    "log_filter \<Rightarrow> (int \<times> int \<Rightarrow> chain_log list res) \<Rightarrow> int \<Rightarrow> int \<Rightarrow> chain_log list option res" where
  "chunkedLogs f send chunkSize maxRange =
    (if lf_blockHash f then Inr None
     else case (lf_from f, lf_to f) of
       (Some low, Some high) \<Rightarrow>
         if high < low then Inl ''Invalid log range''
         else let n = high - low + 1 in
           if n \<le> chunkSize then Inr None
           else if n > maxRange then Inl ''Historical log range exceeds the gateway bound''
           else rbind (send_ranges send (log_ranges low high chunkSize)) (\<lambda>logs. Inr (Some (sort_key log_key logs)))
     | _ \<Rightarrow> Inr None)"

definition covers :: "int \<times> int \<Rightarrow> int \<Rightarrow> bool" where
  "covers r b \<longleftrightarrow> fst r \<le> b \<and> b \<le> snd r"

lemma log_ranges_cover:
  assumes "0 < chunk"
  shows "length (filter (\<lambda>r. covers r b) (log_ranges low high chunk)) = (if low \<le> b \<and> b \<le> high then 1 else 0)"
    and "\<forall>r \<in> set (log_ranges low high chunk). low \<le> fst r \<and> fst r \<le> snd r \<and> snd r \<le> high \<and> snd r - fst r < chunk"
  using assms
proof (induction low high chunk rule: log_ranges.induct)
  case (1 low high chunk)
  have unf: "log_ranges low high chunk = (if low \<le> high \<and> 0 < chunk
      then (low, if low + chunk - 1 > high then high else low + chunk - 1) # log_ranges (low + chunk) high chunk else [])"
    by (rule log_ranges.simps)
  {
    case 1
    show ?case
    proof (cases "low \<le> high")
      case True
      then have "length (filter (\<lambda>r. covers r b) (log_ranges (low + chunk) high chunk)) = (if low + chunk \<le> b \<and> b \<le> high then 1 else 0)"
        using "1.IH"(1) 1 by simp
      then show ?thesis unfolding unf using True 1 by (auto simp add: covers_def)
    next
      case False
      then show ?thesis unfolding unf by simp
    qed
  next
    case 2
    show ?case
    proof (cases "low \<le> high")
      case True
      then have "\<forall>r \<in> set (log_ranges (low + chunk) high chunk). low + chunk \<le> fst r \<and> fst r \<le> snd r \<and> snd r \<le> high \<and> snd r - fst r < chunk"
        using "1.IH"(2) 2 by simp
      then show ?thesis unfolding unf using True 2 by auto
    next
      case False
      then show ?thesis unfolding unf by simp
    qed
  }
qed

lemma send_ranges_all: "(\<And>r. send r = Inr (logs_in r)) \<Longrightarrow> send_ranges send rs = Inr (concat (map logs_in rs))"
  by (induction rs) simp_all

text \<open>A scan of a node that answers a range with the logs of its blocks gives every log of the whole range
  exactly once, sorted by block, transaction and log index.\<close>

lemma chunked_logs_complete:
  assumes "0 < chunkSize" "lf_blockHash f = False" "lf_from f = Some low" "lf_to f = Some high"
    and "chunkSize < high - low + 1" "high - low + 1 \<le> maxRange"
    and send: "\<And>r. send r = Inr (filter (\<lambda>l. covers r (cl_block l)) chain)"
  shows "\<exists>logs. chunkedLogs f send chunkSize maxRange = Inr (Some logs) \<and> sorted (map log_key logs)
    \<and> (\<forall>l. count_list logs l = (if covers (low, high) (cl_block l) then count_list chain l else 0))"
proof -
  define R where "R = log_ranges low high chunkSize"
  define raw where "raw = concat (map (\<lambda>r. filter (\<lambda>l. covers r (cl_block l)) chain) R)"
  have all: "send_ranges send R = Inr raw" unfolding raw_def by (rule send_ranges_all [OF send])
  have run: "chunkedLogs f send chunkSize maxRange = Inr (Some (sort_key log_key raw))"
    using assms all by (simp add: chunkedLogs_def R_def)
  have filter_count: "count_list (filter P xs) l = (if P l then count_list xs l else 0)" for P xs and l :: chain_log
    by (induction xs) auto
  have concat_count: "count_list (concat (map (\<lambda>r. filter (\<lambda>l. covers r (cl_block l)) chain) rs)) l
      = length (filter (\<lambda>r. covers r (cl_block l)) rs) * count_list chain l" for rs l
    by (induction rs) (simp_all add: filter_count)
  have sort_count: "count_list (sort_key log_key xs) l = count_list xs l" for xs l
    by (simp flip: count_mset)
  have "count_list (sort_key log_key raw) l = (if covers (low, high) (cl_block l) then count_list chain l else 0)" for l
    unfolding sort_count unfolding raw_def concat_count R_def log_ranges_cover(1) [OF assms(1)] by (simp add: covers_def)
  then show ?thesis using run by (intro exI [of _ "sort_key log_key raw"]) simp
qed

text \<open>The gate of historical scans: the number of running scans and the queue of waiting ones.\<close>

record history_gate =
  hg_active :: nat
  hg_queue :: "nat list"
  hg_running :: "nat list"

definition gate_enter :: "nat \<Rightarrow> nat \<Rightarrow> history_gate \<Rightarrow> history_gate" where
  "gate_enter limit k g =
    (if hg_active g < limit then g\<lparr>hg_active := hg_active g + 1, hg_running := k # hg_running g\<rparr>
     else g\<lparr>hg_queue := hg_queue g @ [k]\<rparr>)"

definition gate_leave :: "nat \<Rightarrow> history_gate \<Rightarrow> history_gate" where
  "gate_leave k g =
    (case hg_queue g of next_one # rest \<Rightarrow> g\<lparr>hg_queue := rest, hg_running := next_one # remove1 k (hg_running g)\<rparr>
     | [] \<Rightarrow> g\<lparr>hg_active := hg_active g - 1, hg_running := remove1 k (hg_running g)\<rparr>)"

definition gate_bounded :: "nat \<Rightarrow> history_gate \<Rightarrow> bool" where
  "gate_bounded limit g \<longleftrightarrow> hg_active g = length (hg_running g) \<and> hg_active g \<le> limit \<and> (hg_queue g = [] \<or> hg_active g = limit)"

text \<open>At most \<open>limit\<close> scans run, a slot is handed to the next waiting scan, and none waits while a slot is free.\<close>

lemma gate_keeps_bound:
  "gate_bounded limit g \<Longrightarrow> gate_bounded limit (gate_enter limit k g)"
  "gate_bounded limit g \<Longrightarrow> k \<in> set (hg_running g) \<Longrightarrow> gate_bounded limit (gate_leave k g)"
  by (auto simp add: gate_bounded_def gate_enter_def gate_leave_def length_remove1 split: list.splits)
     (metis Suc_pred length_pos_if_in_set)+

subsection \<open>One request of the gateway\<close>

text \<open>What an upstream node answers: no answer, a server error, a rate limit (by status or by message), an
  error (its text, and whether it names a missing balance), an unusable answer, or a result.\<close>

datatype upstream = NoAnswer | ServerError | TooMany | LimitMessage | RpcError string bool | BadAnswer | Answer string

text \<open>The attempts: each says whether it goes to the second node; the result is the answer and where the
  request was sent.\<close>

definition second_node :: "bool \<Rightarrow> string \<Rightarrow> bool \<Rightarrow> nat \<Rightarrow> bool" where
  "second_node two rpc isRead attempt \<longleftrightarrow> attempt > 0 \<and> (isRead \<or> rpc = ''eth_sendRawTransaction'') \<and> two"

fun gateway_attempts :: "bool \<Rightarrow> string \<Rightarrow> bool \<Rightarrow> (nat \<Rightarrow> upstream) \<Rightarrow> nat \<Rightarrow> nat \<Rightarrow> string res \<times> bool list" where
  "gateway_attempts two rpc isRead answers attempt 0 = (Inl ''Upstream RPC rate limit; retry shortly'', [])"
| "gateway_attempts two rpc isRead answers attempt (Suc left) =
    (let sent = second_node two rpc isRead attempt;
         again = apsnd ((#) sent) (gateway_attempts two rpc isRead answers (Suc attempt) left) in
     case answers attempt of
       NoAnswer \<Rightarrow> if attempt = 3 then (Inl ''RPC transport unavailable'', [sent]) else again
     | ServerError \<Rightarrow> again
     | TooMany \<Rightarrow> again
     | LimitMessage \<Rightarrow> again
     | RpcError e balance \<Rightarrow>
         if rpc = ''eth_sendRawTransaction'' \<and> attempt = 0 \<and> two \<and> balance then again else (Inl e, [sent])
     | BadAnswer \<Rightarrow> (Inl ''Upstream RPC unavailable'', [sent])
     | Answer x \<Rightarrow> (Inr x, [sent]))"

definition cache_ttl :: "string \<Rightarrow> int" where
  "cache_ttl rpc = (if rpc = ''eth_chainId'' then 3600000 else if rpc = ''eth_gasPrice'' then 3000
     else if rpc = ''eth_blockNumber'' then 150 else 0)"

definition is_read :: "string \<Rightarrow> bool" where
  "is_read rpc \<longleftrightarrow> take 8 rpc \<noteq> ''eth_send''"

record gateway_state =
  gw_waiting :: int
  gw_inflight :: "(string \<times> nat) list"
  gw_cache :: "(string \<times> int \<times> string) list"

datatype gateway_entry = Cached string | Joined nat | Busy | Started

text \<open>A request enters: \<open>key\<close> is the text of its rpc and parameters, \<open>k\<close> the number of a new operation.\<close>

definition gateway_enter :: "string \<Rightarrow> string \<Rightarrow> nat \<Rightarrow> int \<Rightarrow> gateway_state \<Rightarrow> gateway_entry \<times> gateway_state" where
  "gateway_enter rpc key k now g =
    (case map_of (gw_cache g) key of
       Some (expires, x) \<Rightarrow> if expires > now then (Cached x, g) else
         (case (if is_read rpc then map_of (gw_inflight g) key else None) of Some j \<Rightarrow> (Joined j, g)
          | None \<Rightarrow> if gw_waiting g \<ge> 200 then (Busy, g)
            else (Started, g\<lparr>gw_waiting := gw_waiting g + 1,
              gw_inflight := (if is_read rpc then (key, k) # gw_inflight g else gw_inflight g)\<rparr>))
     | None \<Rightarrow>
         (case (if is_read rpc then map_of (gw_inflight g) key else None) of Some j \<Rightarrow> (Joined j, g)
          | None \<Rightarrow> if gw_waiting g \<ge> 200 then (Busy, g)
            else (Started, g\<lparr>gw_waiting := gw_waiting g + 1,
              gw_inflight := (if is_read rpc then (key, k) # gw_inflight g else gw_inflight g)\<rparr>)))"

definition gateway_leave :: "string \<Rightarrow> string \<Rightarrow> string res \<Rightarrow> int \<Rightarrow> gateway_state \<Rightarrow> gateway_state" where
  "gateway_leave rpc key r now g =
    g\<lparr>gw_waiting := gw_waiting g - 1,
      gw_cache := (case r of Inr x \<Rightarrow> if cache_ttl rpc \<noteq> 0 then (key, now + cache_ttl rpc, x) # gw_cache g else gw_cache g
        | Inl _ \<Rightarrow> gw_cache g),
      gw_inflight := (if is_read rpc then filter (\<lambda>(q, _). q \<noteq> key) (gw_inflight g) else gw_inflight g)\<rparr>"

lemma gateway_step:
  "(\<exists>r. gateway_attempts two rpc isRead answers attempt (Suc left) = (r, [second_node two rpc isRead attempt]))
   \<or> gateway_attempts two rpc isRead answers attempt (Suc left)
     = apsnd ((#) (second_node two rpc isRead attempt)) (gateway_attempts two rpc isRead answers (Suc attempt) left)"
  by (cases "answers attempt") (auto simp add: Let_def)

lemma gateway_attempts_bound: "length (snd (gateway_attempts two rpc isRead answers attempt left)) \<le> left"
proof (induction left arbitrary: attempt)
  case (Suc left)
  then show ?case using gateway_step [of two rpc isRead answers attempt left] Suc.IH [of "Suc attempt"]
    by (elim disjE exE) (simp_all del: gateway_attempts.simps)
qed simp

text \<open>Only reads and raw transactions reach the second node, and never at the first attempt.\<close>

lemma gateway_second_node:
  "i < length (snd (gateway_attempts two rpc isRead answers attempt left)) \<Longrightarrow>
   snd (gateway_attempts two rpc isRead answers attempt left) ! i = second_node two rpc isRead (attempt + i)"
proof (induction left arbitrary: attempt i)
  case (Suc left)
  from gateway_step [of two rpc isRead answers attempt left] show ?case
  proof (elim disjE exE)
    fix r assume "gateway_attempts two rpc isRead answers attempt (Suc left) = (r, [second_node two rpc isRead attempt])"
    then show ?thesis using Suc.prems by (simp del: gateway_attempts.simps)
  next
    assume "gateway_attempts two rpc isRead answers attempt (Suc left)
      = apsnd ((#) (second_node two rpc isRead attempt)) (gateway_attempts two rpc isRead answers (Suc attempt) left)"
    then show ?thesis using Suc.prems Suc.IH [of "i - 1" "Suc attempt"]
      by (cases i) (simp_all del: gateway_attempts.simps)
  qed
qed simp

text \<open>A transaction is never answered from the cache of another or joined to it.\<close>

lemma sends_forwarded: "\<not> is_read rpc \<Longrightarrow> map_of (gw_cache g) key = None \<Longrightarrow>
   fst (gateway_enter rpc key k now g) \<in> {Busy, Started}"
  by (simp add: gateway_enter_def)

subsection \<open>Budgets\<close>

text \<open>\<open>jobs\<close> and \<open>inputs\<close> say whether the path matches the pattern of a job, of an input's state, of an
  operation of the arena.\<close>

definition hash_path :: "string \<Rightarrow> string \<Rightarrow> bool" where
  "hash_path prefix path \<longleftrightarrow> take (length prefix) path = prefix \<and> length path = length prefix + 64
     \<and> list_all is_hex (drop (length prefix) path)"

definition input_path :: "string \<Rightarrow> bool" where
  "input_path path \<longleftrightarrow>
    (let rest = drop 8 path; n = takeWhile is_digit rest; after = dropWhile is_digit rest in
     take 8 path = ''/inputs/'' \<and> n \<noteq> [] \<and> take 3 after = ''/0x'' \<and> length after = 43 \<and> list_all is_hex (drop 3 after))"

definition trafficBudget :: "string \<Rightarrow> string \<Rightarrow> string \<times> int" where
  "trafficBudget rpc path =
    (if rpc = ''GET'' \<and> path = ''/independent/config'' then (''arena-health'', 6000)
     else if rpc = ''GET'' \<and> hash_path ''/independent/operations/0x'' path then (''receipt'', 2400)
     else if rpc = ''GET'' \<and> path = ''/interlude/state''
       \<or> rpc = ''POST'' \<and> path \<in> set [''/interlude/presence'', ''/interlude/diagnostics''] then (''rooms-read-ip'', 6000)
     else if rpc = ''POST'' \<and> path = ''/inputs'' then (''input'', 2400)
     else if rpc = ''GET'' \<and> (hash_path ''/jobs/0x'' path \<or> input_path path) then (''receipt'', 2400)
     else (''general'', 600))"

text \<open>What a job of the relayer costs: the gas of its receipt and the value that was really sent; the reserved
  cost before that.\<close>

datatype cost_status = CQueued | CSigned | CSent | CSucceeded | CFailed | CSuperseded

record cost_job =
  cj_status :: cost_status
  cj_receipt :: "(bool \<times> int \<times> int) option"
  cj_value :: int
  cj_cost :: int
  cj_raw :: bool
  cj_updated :: int
  cj_confirmed :: "int option"

definition accountedCost :: "cost_job \<Rightarrow> int" where
  "accountedCost j =
    (if cj_status j \<in> {CSucceeded, CFailed}
     then case cj_receipt j of Some (success, gasUsed, price) \<Rightarrow> gasUsed * price + (if success then cj_value j else 0)
       | None \<Rightarrow> cj_cost j
     else cj_cost j)"

definition readSponsorCosts :: "int \<Rightarrow> int \<Rightarrow> cost_job list \<Rightarrow> int \<times> int" where
  "readSponsorCosts today observedAt jobs =
    (sum_list (map accountedCost (filter (\<lambda>j. cj_status j \<in> {CSigned, CSent}
        \<or> cj_status j \<in> {CSucceeded, CFailed} \<and> (case cj_confirmed j of Some t \<Rightarrow> t | None \<Rightarrow> cj_updated j) \<ge> today) jobs)),
     sum_list (map accountedCost (filter (\<lambda>j. cj_raw j \<and> (cj_status j \<in> {CSigned, CSent} \<or> cj_updated j \<ge> observedAt)) jobs)))"

definition needsMonadValueWindow :: "int \<Rightarrow> int \<Rightarrow> int \<Rightarrow> int \<Rightarrow> int \<Rightarrow> bool" where
  "needsMonadValueWindow chainId value balance commitments gasPriceCap \<longleftrightarrow>
    chainId = 10143 \<and> value > 0 \<and> balance < 10 ^ 19 + value + commitments + 30000000 * gasPriceCap"

text \<open>A transfer outside a window leaves the reserve of the chain and all commitments covered.\<close>

lemma window_not_needed:
  "\<not> needsMonadValueWindow 10143 value balance commitments gasPriceCap \<Longrightarrow> value > 0 \<Longrightarrow>
   balance - value - commitments - 30000000 * gasPriceCap \<ge> 10 ^ 19"
  by (simp add: needsMonadValueWindow_def)

definition transitionGas :: "string \<Rightarrow> int \<Rightarrow> int" where
  "transitionGas functionName estimated =
    (let buffered = tdiv (estimated * 115) 100 + 1000 + (if functionName = ''submitInput'' then 25000 else 0) in
     if functionName = ''reveal'' \<and> buffered < 350000 then 350000 else buffered)"

end
