(* ===== verification/Relay_Inputs.thy ===== *)
theory Relay_Inputs
  imports Js_Text
begin

text \<open>
  \<^verbatim>\<open>relayer/src/inputs.ts\<close> (and \<^verbatim>\<open>inputState\<close> of \<^verbatim>\<open>shared/input-transport.ts\<close>): the admission of signed
  game inputs to the queue of the relayer.  The inputs of a player in a match are a lane, whose requests run
  one after the other under the lane's lock, so a request is one step on the two tables it uses.  Jobs are a
  list in the order of their creation; the recovered signers of the signatures, the hash of a payload and
  whether the key is valid are arguments.
\<close>

subsection \<open>Inputs and jobs\<close>

record game_input =
  gi_match :: int
  gi_player :: string
  gi_direction :: int
  gi_nonce :: int
  gi_observed :: int
  gi_until :: int

datatype input_status = IQueued | ISigned | ISent | ISucceeded | IFailed | ISuperseded

record input_job =
  ij_id :: string
  ij_lane :: string
  ij_nonce :: int
  ij_direction :: int
  ij_sequence :: int
  ij_status :: input_status
  ij_raw :: bool

record input_db =
  ib_jobs :: "input_job list"
  ib_streams :: "(string \<times> int) list"

record input_slot =
  sl_key :: string
  sl_nonce :: int
  sl_expiry :: int
  sl_remaining :: int

record match_view =
  mv_status :: int
  mv_playerA :: string
  mv_playerB :: string
  mv_a :: input_slot
  mv_b :: input_slot

definition uint64 :: "int \<Rightarrow> bool" where
  "uint64 n \<longleftrightarrow> 0 \<le> n \<and> n \<le> 2 ^ 64 - 1"

definition address_text :: "string \<Rightarrow> bool" where
  "address_text s \<longleftrightarrow> take 2 s = ''0x'' \<and> length s = 42 \<and> list_all is_hex (drop 2 s)"

definition valid_game_input :: "game_input \<Rightarrow> bool" where
  "valid_game_input i \<longleftrightarrow> gi_match i > 0 \<and> address_text (gi_player i) \<and> -1 \<le> gi_direction i \<and> gi_direction i \<le> 1
     \<and> uint64 (gi_nonce i) \<and> uint64 (gi_observed i) \<and> uint64 (gi_until i)"

definition valid_signature :: "string \<Rightarrow> bool" where
  "valid_signature s \<longleftrightarrow> take 2 s = ''0x'' \<and> length s = 132 \<and> list_all is_hex (drop 2 s)"

definition inputState :: "input_status \<Rightarrow> string" where
  "inputState s = (case s of IQueued \<Rightarrow> ''accepted'' | ISigned \<Rightarrow> ''submitted'' | ISent \<Rightarrow> ''submitted''
     | ISucceeded \<Rightarrow> ''confirmed'' | ISuperseded \<Rightarrow> ''superseded'' | IFailed \<Rightarrow> ''failed'')"

text \<open>Whether a verified replacement may use the estimate of the earlier command.\<close>

definition sharesInputEstimate :: "string \<times> game_input \<Rightarrow> string \<times> game_input \<Rightarrow> bool \<Rightarrow> int \<Rightarrow> bool" where
  "sharesInputEstimate before after plainInputs head \<longleftrightarrow>
    plainInputs \<and> fst before = fst after \<and> gi_match (snd before) = gi_match (snd after)
    \<and> lower (gi_player (snd before)) = lower (gi_player (snd after)) \<and> gi_nonce (snd before) = gi_nonce (snd after)
    \<and> gi_observed (snd after) \<le> head \<and> gi_until (snd after) \<ge> head"

definition laneOf :: "string \<Rightarrow> int \<Rightarrow> string \<Rightarrow> string" where
  "laneOf version i player = version @ '':'' @ decimal i @ '':'' @ lower player"

definition slotOf :: "match_view \<Rightarrow> string \<Rightarrow> input_slot res" where
  "slotOf m player =
    (if lower (mv_playerA m) = lower player then Inr (mv_a m)
     else if lower (mv_playerB m) = lower player then Inr (mv_b m)
     else Inl ''Only a participant can move this paddle'')"

subsection \<open>The cursor of a lane\<close>

definition live_input :: "input_job \<Rightarrow> bool" where
  "live_input j \<longleftrightarrow> ij_status j \<in> {IQueued, ISigned, ISent}"

definition lane_rows :: "string \<Rightarrow> input_db \<Rightarrow> input_job list" where
  "lane_rows lane db = filter (\<lambda>j. ij_lane j = lane \<and> live_input j) (ib_jobs db)"

definition max_from :: "int \<Rightarrow> int list \<Rightarrow> int" where
  "max_from n xs = foldl (\<lambda>m x. if x > m then x else m) n xs"

record input_cursor =
  ic_nextNonce :: int
  ic_confirmed :: int
  ic_nextSequence :: int
  ic_stream :: string

definition cursor :: "string \<Rightarrow> input_slot \<Rightarrow> input_db \<Rightarrow> input_cursor" where
  "cursor lane slot db =
    (let confirmed = map ij_nonce (filter (\<lambda>j. ij_lane j = lane \<and> ij_status j = ISucceeded) (ib_jobs db));
         nonce = max_from (sl_nonce slot) confirmed;
         inflight = filter ij_raw (lane_rows lane db);
         reserved = max_from nonce (map ij_nonce inflight);
         stream = lane @ '':'' @ lower (sl_key slot);
         seq = (case map_of (ib_streams db) stream of None \<Rightarrow> 0 | Some n \<Rightarrow> n) in
     \<lparr>ic_nextNonce = reserved + 1, ic_confirmed = nonce, ic_nextSequence = seq + 1, ic_stream = stream\<rparr>)"

subsection \<open>Admission\<close>

text \<open>A request: the input with its signature, what the signatures recover to, and the sequence of the
  envelope where one is given.\<close>

record input_request =
  iq_plain :: bool
  iq_deployment :: "string option"
  iq_input :: game_input
  iq_signature :: string
  iq_signer :: string
  iq_keyValid :: bool
  iq_envelope :: "(int \<times> string \<times> string) option"
  iq_id :: string

datatype input_reply = Existing input_job int int | Resync int int | AcceptedInput string int int

definition check_input :: "string \<Rightarrow> match_view \<Rightarrow> int \<Rightarrow> int \<Rightarrow> input_request \<Rightarrow> (input_slot \<times> int option) res" where
  "check_input version m now head q =
    rbind (guard ''Gameplay input only'' (iq_plain q)) (\<lambda>_.
    rbind (guard ''Only the active deployment accepts input'' (iq_deployment q \<in> {None, Some [], Some version})) (\<lambda>_.
    rbind (guard ''Invalid input'' (valid_game_input (iq_input q) \<and> valid_signature (iq_signature q))) (\<lambda>_.
    rbind (slotOf m (gi_player (iq_input q))) (\<lambda>slot.
    rbind (guard ''Game session ended or expired. Restore it explicitly.''
      (mv_status m = 2 \<and> sl_expiry slot > now \<and> sl_remaining slot > 0)) (\<lambda>_.
    let i = iq_input q in
    rbind (guard ''Input expired. Refresh and sign the current direction.''
      (gi_observed i \<le> head \<and> head \<le> gi_until i \<and> head - gi_observed i \<le> 16
       \<and> gi_until i \<ge> gi_observed i \<and> gi_until i \<le> gi_observed i + 16)) (\<lambda>_.
    rbind (guard ''Invalid or revoked game session'' (lower (iq_signer q) = lower (sl_key slot) \<and> iq_keyValid q)) (\<lambda>_.
    case iq_envelope q of None \<Rightarrow> Inr (slot, None)
    | Some (seq, signature, other) \<Rightarrow>
      rbind (guard ''Invalid input'' (uint64 seq \<and> valid_signature signature)) (\<lambda>_.
      rbind (guard ''Invalid input sequence signature'' (lower other = lower (iq_signer q))) (\<lambda>_.
      Inr (slot, Some seq))))))))))"

definition supersede :: "string \<Rightarrow> input_job \<Rightarrow> input_job" where
  "supersede lane j = (if ij_lane j = lane \<and> ij_status j = IQueued \<and> \<not> ij_raw j then j\<lparr>ij_status := ISuperseded\<rparr> else j)"

definition store_input :: "string \<Rightarrow> string \<Rightarrow> game_input \<Rightarrow> int \<Rightarrow> string \<Rightarrow> input_db \<Rightarrow> input_db" where
  "store_input lane i input seq stream db =
    \<lparr>ib_jobs = map (supersede lane) (ib_jobs db) @
       [\<lparr>ij_id = i, ij_lane = lane, ij_nonce = gi_nonce input, ij_direction = gi_direction input, ij_sequence = seq,
         ij_status = IQueued, ij_raw = False\<rparr>],
     ib_streams = (stream, seq) # filter (\<lambda>(k, _). k \<noteq> stream) (ib_streams db)\<rparr>"

definition accept :: "string \<Rightarrow> match_view \<Rightarrow> int \<Rightarrow> int \<Rightarrow> input_request \<Rightarrow> input_db \<Rightarrow> input_reply res \<times> input_db" where
  "accept version m now head q db =
    (case check_input version m now head q of Inl e \<Rightarrow> (Inl e, db)
     | Inr (slot, given) \<Rightarrow>
       let i = iq_input q; lane = laneOf version (gi_match i) (gi_player i); c = cursor lane slot db in
       case find (\<lambda>j. ij_id j = iq_id q) (ib_jobs db) of
         Some j \<Rightarrow> (Inr (Existing j (ic_nextNonce c) (ic_nextSequence c)), db)
       | None \<Rightarrow>
         if (case given of Some s \<Rightarrow> s < ic_nextSequence c | None \<Rightarrow> False) \<or> gi_nonce i \<noteq> ic_nextNonce c
         then (Inr (Resync (ic_nextNonce c) (ic_nextSequence c)), db)
         else
           let seq = (case given of Some s \<Rightarrow> s | None \<Rightarrow> ic_nextSequence c) in
           (Inr (AcceptedInput (iq_id q) (ic_nextNonce c) (seq + 1)), store_input lane (iq_id q) i seq (ic_stream c) db))"

subsection \<open>The lane over time\<close>

text \<open>What happens to the tables: a request, or the pipeline of the relayer moving one job along: it signs a
  queued job, sends a signed one, and sees it succeed or fail.\<close>

datatype lane_event = Request match_view int int input_request | Signs string | Sends string | Succeeds string | Fails string

definition move_job :: "(input_job \<Rightarrow> bool) \<Rightarrow> (input_job \<Rightarrow> input_job) \<Rightarrow> string \<Rightarrow> input_db \<Rightarrow> input_db" where
  "move_job ok change i db = db\<lparr>ib_jobs := map (\<lambda>j. if ij_id j = i \<and> ok j then change j else j) (ib_jobs db)\<rparr>"

fun input_event :: "string \<Rightarrow> lane_event \<Rightarrow> input_db \<Rightarrow> input_db" where
  "input_event version (Request m now head q) db = snd (accept version m now head q db)"
| "input_event version (Signs i) db =
     move_job (\<lambda>j. ij_status j = IQueued) (\<lambda>j. j\<lparr>ij_status := ISigned, ij_raw := True\<rparr>) i db"
| "input_event version (Sends i) db = move_job (\<lambda>j. ij_status j = ISigned) (\<lambda>j. j\<lparr>ij_status := ISent\<rparr>) i db"
| "input_event version (Succeeds i) db =
     move_job (\<lambda>j. ij_status j \<in> {ISigned, ISent}) (\<lambda>j. j\<lparr>ij_status := ISucceeded\<rparr>) i db"
| "input_event version (Fails i) db = move_job live_input (\<lambda>j. j\<lparr>ij_status := IFailed\<rparr>) i db"

definition input_run :: "string \<Rightarrow> lane_event list \<Rightarrow> input_db" where
  "input_run version es = fold (input_event version) es \<lparr>ib_jobs = [], ib_streams = []\<rparr>"

text \<open>A job waits when it is queued and not signed; it holds its nonce when it was signed and has not failed.\<close>

definition waits :: "input_job \<Rightarrow> bool" where
  "waits j \<longleftrightarrow> ij_status j = IQueued \<and> \<not> ij_raw j"

definition holds :: "input_job \<Rightarrow> bool" where
  "holds j \<longleftrightarrow> ij_raw j \<and> live_input j \<or> ij_status j = ISucceeded"

lemma max_from_ge: "n \<le> max_from n xs" "x \<in> set xs \<Longrightarrow> x \<le> max_from n xs"
proof -
  have le: "m \<le> max_from m ys" for m ys
    unfolding max_from_def by (induction ys arbitrary: m) (auto, smt (verit))
  then show "n \<le> max_from n xs" .
  show "x \<in> set xs \<Longrightarrow> x \<le> max_from n xs"
    using le unfolding max_from_def by (induction xs arbitrary: n) (auto, smt (verit))
qed

lemma nextNonce_above:
  assumes "j \<in> set (ib_jobs db)" "ij_lane j = lane" "holds j"
  shows "ij_nonce j < ic_nextNonce (cursor lane slot db)"
proof (cases "ij_status j = ISucceeded")
  case True
  then have "ij_nonce j \<le> max_from (sl_nonce slot) (map ij_nonce (filter (\<lambda>j. ij_lane j = lane \<and> ij_status j = ISucceeded) (ib_jobs db)))"
    using assms by (intro max_from_ge) auto
  then show ?thesis unfolding cursor_def Let_def using max_from_ge(1) by (simp add: order_le_less_trans) (meson order_trans)
next
  case False
  then have "ij_nonce j \<in> set (map ij_nonce (filter ij_raw (lane_rows lane db)))"
    using assms by (auto simp add: holds_def lane_rows_def)
  then show ?thesis unfolding cursor_def Let_def using max_from_ge(2) by simp
qed

text \<open>Of two jobs of a lane only the later one can wait, and the earlier one has the smaller nonce when both
  count.\<close>

definition before_ok :: "input_job \<Rightarrow> input_job \<Rightarrow> bool" where
  "before_ok i j \<longleftrightarrow> ij_id i \<noteq> ij_id j \<and>
     (ij_lane i = ij_lane j \<longrightarrow> \<not> waits i \<and> (holds i \<and> (holds j \<or> waits j) \<longrightarrow> ij_nonce i < ij_nonce j))"

definition job_ok :: "input_job \<Rightarrow> bool" where
  "job_ok j \<longleftrightarrow> (ij_raw j \<longrightarrow> ij_status j \<noteq> IQueued) \<and> (ij_status j \<in> {ISigned, ISent, ISucceeded} \<longrightarrow> ij_raw j)"

definition db_ok :: "input_db \<Rightarrow> bool" where
  "db_ok db \<longleftrightarrow> sorted_wrt before_ok (ib_jobs db) \<and> (\<forall>j \<in> set (ib_jobs db). job_ok j)"

text \<open>How one job may move.\<close>

definition moves :: "input_job \<Rightarrow> input_job \<Rightarrow> bool" where
  "moves j j' \<longleftrightarrow> ij_id j' = ij_id j \<and> ij_lane j' = ij_lane j \<and> ij_nonce j' = ij_nonce j \<and> job_ok j'
     \<and> (waits j' \<longrightarrow> waits j) \<and> (holds j' \<longrightarrow> holds j \<or> waits j)"

lemma before_ok_moves: "before_ok i j \<Longrightarrow> moves i i' \<Longrightarrow> moves j j' \<Longrightarrow> before_ok i' j'"
  unfolding before_ok_def moves_def by metis

lemma moves_refl: "job_ok j \<Longrightarrow> moves j j"
  by (simp add: moves_def)

lemma db_ok_map:
  assumes "db_ok db" "\<And>j. j \<in> set (ib_jobs db) \<Longrightarrow> moves j (f j)"
  shows "db_ok (db\<lparr>ib_jobs := map f (ib_jobs db)\<rparr>)"
proof -
  have "sorted_wrt (\<lambda>x y. before_ok (f x) (f y)) (ib_jobs db)"
    by (rule sorted_wrt_mono_rel [of _ before_ok]) (use assms before_ok_moves in \<open>auto simp add: db_ok_def\<close>)
  then show ?thesis using assms by (auto simp add: db_ok_def sorted_wrt_map moves_def)
qed

lemma supersede_moves: "job_ok j \<Longrightarrow> moves j (supersede lane j)"
  by (auto simp add: moves_def supersede_def job_ok_def waits_def holds_def live_input_def)

lemma supersede_keeps:
  "ij_id (supersede lane j) = ij_id j \<and> ij_lane (supersede lane j) = ij_lane j \<and> ij_nonce (supersede lane j) = ij_nonce j
   \<and> (holds (supersede lane j) \<longrightarrow> holds j)"
  by (simp add: supersede_def holds_def live_input_def)

lemma store_input_ok:
  assumes "db_ok db" and new: "\<And>j. j \<in> set (ib_jobs db) \<Longrightarrow> ij_id j \<noteq> i"
    and above: "\<And>j. j \<in> set (ib_jobs db) \<Longrightarrow> ij_lane j = lane \<Longrightarrow> holds j \<Longrightarrow> ij_nonce j < gi_nonce input"
  shows "db_ok (store_input lane i input seq stream db)"
proof -
  define job where "job = \<lparr>ij_id = i, ij_lane = lane, ij_nonce = gi_nonce input, ij_direction = gi_direction input,
    ij_sequence = seq, ij_status = IQueued, ij_raw = False\<rparr>"
  let ?old = "map (supersede lane) (ib_jobs db)"
  have ok: "db_ok (db\<lparr>ib_jobs := ?old\<rparr>)"
    by (rule db_ok_map [OF assms(1)]) (use assms(1) in \<open>auto simp add: db_ok_def intro: supersede_moves\<close>)
  have "before_ok j job" if old: "j \<in> set ?old" for j
  proof -
    obtain k where k: "k \<in> set (ib_jobs db)" "j = supersede lane k" using old by auto
    have same: "ij_id j = ij_id k" "ij_lane j = ij_lane k" "ij_nonce j = ij_nonce k" "holds j \<Longrightarrow> holds k"
      using supersede_keeps [of lane k] unfolding k(2) by blast+
    have "\<not> waits j" if "ij_lane k = lane" using that k(2) by (auto simp add: supersede_def waits_def)
    then show ?thesis using new [OF k(1)] above [OF k(1)] same by (auto simp add: before_ok_def job_def)
  qed
  then have "sorted_wrt before_ok (?old @ [job])" using ok by (simp add: db_ok_def sorted_wrt_append)
  moreover have "job_ok job" by (simp add: job_def job_ok_def)
  ultimately show ?thesis using ok by (auto simp add: db_ok_def store_input_def job_def)
qed

lemma accept_ok:
  assumes "db_ok db"
  shows "db_ok (snd (accept version m now head q db))"
proof (cases "check_input version m now head q")
  case (Inl e)
  then show ?thesis using assms by (simp add: accept_def)
next
  case (Inr r)
  obtain slot given where r: "r = (slot, given)" by (cases r)
  define lane where "lane = laneOf version (gi_match (iq_input q)) (gi_player (iq_input q))"
  define c where "c = cursor lane slot db"
  note run = accept_def [of version m now head q db, unfolded Inr r Let_def sum.case prod.case, folded lane_def, folded c_def]
  show ?thesis
  proof (cases "find (\<lambda>j. ij_id j = iq_id q) (ib_jobs db)")
    case (Some j)
    then show ?thesis using assms run by simp
  next
    case None
    then have new: "ij_id j \<noteq> iq_id q" if "j \<in> set (ib_jobs db)" for j using that by (simp add: find_None_iff)
    show ?thesis
    proof (cases "(case given of Some s \<Rightarrow> s < ic_nextSequence c | None \<Rightarrow> False) \<or> gi_nonce (iq_input q) \<noteq> ic_nextNonce c")
      case True
      then show ?thesis using assms run None by simp
    next
      case False
      have "db_ok (store_input lane (iq_id q) (iq_input q) (case given of Some s \<Rightarrow> s | None \<Rightarrow> ic_nextSequence c) (ic_stream c) db)"
        by (rule store_input_ok [OF assms])
          (use new nextNonce_above [of _ db lane slot] False in \<open>auto simp add: c_def\<close>)
      then show ?thesis using run None False by simp
    qed
  qed
qed

lemma input_event_ok: "db_ok db \<Longrightarrow> db_ok (input_event version e db)"
proof (cases e)
  case (Request m now head q)
  assume "db_ok db"
  then show ?thesis using accept_ok Request by simp
qed (auto simp add: move_job_def intro!: db_ok_map,
     auto simp add: db_ok_def moves_def job_ok_def waits_def holds_def live_input_def)

lemma input_run_ok: "db_ok (input_run version es)"
proof (induction es rule: rev_induct)
  case Nil
  then show ?case by (simp add: input_run_def db_ok_def)
next
  case (snoc e es)
  then show ?case by (simp add: input_run_def input_event_ok)
qed

text \<open>C20. However requests, signatures, sends and outcomes interleave, the inputs of a lane stay in order: two
  inputs of a player in a match that were signed and have not failed never carry the same nonce, and they carry
  increasing nonces in the order they were accepted; at most one input of the lane waits to be signed, it is the
  last one accepted, and its nonce is above all of those; and no two jobs have the same id.\<close>

theorem input_lane_ordered:
  assumes "ib_jobs (input_run version es) = before @ i # between @ j # after"
  shows "ij_id i \<noteq> ij_id j
    \<and> (ij_lane i \<noteq> ij_lane j \<or> \<not> waits i \<and> (\<not> holds i \<or> \<not> (holds j \<or> waits j) \<or> ij_nonce i < ij_nonce j))"
proof -
  have "sorted_wrt before_ok (before @ i # between @ j # after)"
    using input_run_ok [of version es] assms by (simp add: db_ok_def)
  then have "before_ok i j" by (simp add: sorted_wrt_append)
  then show ?thesis by (auto simp add: before_ok_def)
qed

definition sample_view :: match_view where
  "sample_view = \<lparr>mv_status = 2, mv_playerA = ''0x'' @ replicate 40 (CHR ''a''), mv_playerB = ''b'',
     mv_a = \<lparr>sl_key = ''k'', sl_nonce = 4, sl_expiry = 100, sl_remaining = 5\<rparr>,
     mv_b = \<lparr>sl_key = ''l'', sl_nonce = 0, sl_expiry = 0, sl_remaining = 0\<rparr>\<rparr>"

definition sample_input_request :: "string \<Rightarrow> int \<Rightarrow> input_request" where
  "sample_input_request i nonce = \<lparr>iq_plain = True, iq_deployment = None,
     iq_input = \<lparr>gi_match = 3, gi_player = ''0x'' @ replicate 40 (CHR ''a''), gi_direction = 1, gi_nonce = nonce, gi_observed = 10, gi_until = 20\<rparr>,
     iq_signature = ''0x'' @ replicate 130 (CHR ''1''), iq_signer = ''k'', iq_keyValid = True, iq_envelope = None, iq_id = i\<rparr>"

theorem input_lane_ordered_witness:
  "\<exists>i j. ib_jobs (input_run ''v'' [Request sample_view 50 12 (sample_input_request ''x'' 5), Signs ''x'',
      Request sample_view 50 12 (sample_input_request ''y'' 6)]) = [i, j]
    \<and> holds i \<and> waits j \<and> ij_nonce i < ij_nonce j"
proof -
  let ?es = "[Request sample_view 50 12 (sample_input_request ''x'' 5), Signs ''x'', Request sample_view 50 12 (sample_input_request ''y'' 6)]"
  have m: "map holds (ib_jobs (input_run ''v'' ?es)) = [True, False] \<and> map waits (ib_jobs (input_run ''v'' ?es)) = [False, True]
      \<and> map ij_lane (ib_jobs (input_run ''v'' ?es)) = replicate 2 (hd (map ij_lane (ib_jobs (input_run ''v'' ?es))))"
    by code_simp
  obtain jobs where jobs: "ib_jobs (input_run ''v'' ?es) = jobs" by simp
  note m = m [unfolded jobs]
  then obtain i j where ij: "jobs = [i, j]" by (auto simp add: Cons_eq_map_conv map_eq_Cons_conv)
  then have h: "holds i" "waits j" "ij_lane i = ij_lane j" using m by (auto simp add: numeral_2_eq_2)
  have "ib_jobs (input_run ''v'' ?es) = [] @ i # [] @ j # []" using jobs ij by simp
  from input_lane_ordered [OF this] have "ij_nonce i < ij_nonce j" using h by blast
  with h jobs ij show ?thesis by blast
qed

end
