(* ===== verification/Payouts.thy ===== *)
theory Payouts
  imports Js_Text "HOL-Library.Product_Lexorder"
begin

text \<open>
  \<^verbatim>\<open>relayer/src/payouts.ts\<close>: the worker that discovers payments, follows them on the contract and
  enqueues their calls.  A row of \<^verbatim>\<open>payout_tasks\<close> is a record and a table a list of rows without
  duplicate ids; one deployment is modelled, so its column is left out.  What the contracts, the index
  and the queue of the relayer answer is an argument; times are seconds.
\<close>

subsection \<open>Rows\<close>

datatype payout_module = Market | Tournaments
datatype payout_state = Pending | Processing | Delayed | Paid | NoPayout
datatype job_status = Queued | Signed | Sent | Succeeded | Failed | Superseded
datatype payout_fn = Claim | Refund | RetryPayout

record payout_row =
  po_id :: string
  po_module :: payout_module
  po_kind :: int
  po_source :: int
  po_recipient :: string
  po_payout :: string
  po_state :: payout_state
  po_amount :: int
  po_attempts :: int
  po_job :: "string option"
  po_hash :: "string option"
  po_error :: "string option"
  po_next :: int
  po_created :: int
  po_retryAt :: "int option"

record relay_job =
  rj_id :: string
  rj_status :: job_status

record payout_call =
  pc_module :: payout_module
  pc_fn :: payout_fn
  pc_args :: "string list"

definition live_job :: "relay_job \<Rightarrow> bool" where
  "live_job j \<longleftrightarrow> rj_status j \<in> {Queued, Signed, Sent}"

definition retryDelays :: "int list" where
  "retryDelays = [5, 30, 120, 600, 3600]"

record save_extra =
  sx_attempts :: "int option"
  sx_job :: "string option"
  sx_hash :: "string option"
  sx_error :: "string option"

definition no_extra :: save_extra where
  "no_extra = \<lparr>sx_attempts = None, sx_job = None, sx_hash = None, sx_error = None\<rparr>"

text \<open>SQL \<^verbatim>\<open>coalesce\<close> keeps the column where nothing is given; the error is overwritten.\<close>

definition coalesce :: "'a option \<Rightarrow> 'a option \<Rightarrow> 'a option" where
  "coalesce x y = (case x of Some v \<Rightarrow> Some v | None \<Rightarrow> y)"

definition save :: "int \<Rightarrow> payout_row \<Rightarrow> payout_state \<Rightarrow> int \<Rightarrow> int \<Rightarrow> save_extra \<Rightarrow> payout_row" where
  "save now row st amount seconds extra =
    row\<lparr>po_state := st, po_amount := amount, po_next := now + seconds,
        po_attempts := (case sx_attempts extra of Some a \<Rightarrow> a | None \<Rightarrow> po_attempts row),
        po_job := coalesce (sx_job extra) (po_job row), po_hash := coalesce (sx_hash extra) (po_hash row),
        po_error := sx_error extra\<rparr>"

subsection \<open>Contracts\<close>

record onchain_payout =
  op_amount :: int
  op_status :: int
  op_attempts :: int

record match_result =
  mr_a :: string
  mr_winner :: string
  mr_status :: int

record bet_position =
  bp_a :: int
  bp_b :: int
  bp_refund :: int
  bp_claimed :: bool

record tournament =
  tn_status :: int
  tn_fee :: int

record payout_reads =
  rd_payout :: "onchain_payout res"
  rd_result :: "match_result res"
  rd_position :: "bet_position res"
  rd_tournament :: "tournament res"
  rd_entered :: "bool res"
  rd_indexed :: "(string \<times> string) option"

text \<open>What a row is due: a new row, or a call whose amount is known.\<close>

datatype payout_step = Keep payout_row | Enqueue payout_fn "string list" int

definition market_step :: "int \<Rightarrow> payout_reads \<Rightarrow> payout_row \<Rightarrow> payout_step res" where
  "market_step now r row =
    rbind (rd_result r) (\<lambda>m. rbind (rd_position r) (\<lambda>p.
      if mr_status m < 3 then Inr (Keep (save now row Pending 0 5 no_extra))
      else
        let amount = (if mr_status m = 4 then bp_refund p
              else if lower (mr_winner m) = lower (mr_a m) then bp_a p else bp_b p) in
        Inr (if amount = 0 then Keep (save now row NoPayout 0 3600 no_extra)
          else if bp_claimed p then Keep (save now row Pending amount 5 no_extra)
          else Enqueue Claim [decimal (po_source row), po_recipient row] amount)))"

definition refund_step :: "int \<Rightarrow> payout_reads \<Rightarrow> payout_row \<Rightarrow> payout_step res" where
  "refund_step now r row =
    rbind (rd_tournament r) (\<lambda>t.
      if tn_status t \<noteq> 4 then Inr (Keep (save now row Pending 0 5 no_extra))
      else rbind (rd_entered r) (\<lambda>entered.
        Inr (if \<not> entered \<or> tn_fee t = 0 then Keep (save now row NoPayout 0 3600 no_extra)
          else Enqueue Refund [decimal (po_source row), po_recipient row] (tn_fee t))))"

definition deferred_step :: "int \<Rightarrow> onchain_payout \<Rightarrow> payout_row \<Rightarrow> payout_step" where
  "deferred_step now p row =
    (if op_attempts p > po_attempts row
     then Keep (save now row Delayed (op_amount p) (retryDelays ! nat (min (op_attempts p - 1) 4))
       (no_extra\<lparr>sx_attempts := Some (op_attempts p),
         sx_error := Some ''The recipient did not accept MON. Funds remain reserved and an automatic retry is scheduled.''\<rparr>))
     else Enqueue RetryPayout [po_payout row] (op_amount p))"

definition row_job :: "relay_job list \<Rightarrow> payout_row \<Rightarrow> relay_job option" where
  "row_job jobs row = (case po_job row of None \<Rightarrow> None | Some i \<Rightarrow> find (\<lambda>j. rj_id j = i) jobs)"

definition decide_payout :: "int \<Rightarrow> relay_job list \<Rightarrow> payout_reads \<Rightarrow> payout_row \<Rightarrow> payout_step res" where
  "decide_payout now jobs r row =
    rbind (rd_payout r) (\<lambda>p.
      if op_status p = 2 then
        Inr (Keep (save now row (if op_amount p = 0 then NoPayout else Paid) (op_amount p) 30
          (no_extra\<lparr>sx_attempts := Some (op_attempts p),
            sx_hash := (case rd_indexed r of Some (st, hash) \<Rightarrow> if st = ''paid'' then Some hash else None | None \<Rightarrow> None)\<rparr>)))
      else if (case row_job jobs row of None \<Rightarrow> False | Some j \<Rightarrow> live_job j)
      then Inr (Keep (save now row Processing (po_amount row) 2 no_extra))
      else if op_status p = 1 then Inr (deferred_step now p row)
      else if po_module row = Market then market_step now r row
      else if po_kind row = 2 then refund_step now r row
      else Inr (Keep (save now row Pending (po_amount row) 5 no_extra)))"

text \<open>\<open>enqueue\<close> is the queue of the relayer: the job it answers with, or an error.\<close>

definition process ::
    "int \<Rightarrow> relay_job list \<Rightarrow> (payout_call \<Rightarrow> relay_job res) \<Rightarrow> payout_reads \<Rightarrow> payout_row
     \<Rightarrow> payout_row res \<times> payout_call list" where
  "process now jobs enqueue r row =
    (case decide_payout now jobs r row of
       Inl e \<Rightarrow> (Inl e, [])
     | Inr (Keep row') \<Rightarrow> (Inr row', [])
     | Inr (Enqueue fn args amount) \<Rightarrow>
       let call = \<lparr>pc_module = po_module row, pc_fn = fn, pc_args = args\<rparr> in
       case enqueue call of Inl e \<Rightarrow> (Inl e, [call])
       | Inr job \<Rightarrow>
         (Inr (save now row (if rj_status job = Failed then Delayed else Processing) amount
            (if rj_status job = Failed then 30 else 2)
            (no_extra\<lparr>sx_job := Some (rj_id job),
              sx_error := (if rj_status job = Failed then Some ''Payment delayed. Automatic retry is scheduled.'' else None)\<rparr>)),
          [call]))"

text \<open>A row whose check throws is delayed.\<close>

definition checked ::
    "int \<Rightarrow> relay_job list \<Rightarrow> (payout_call \<Rightarrow> relay_job res) \<Rightarrow> payout_reads \<Rightarrow> payout_row
     \<Rightarrow> payout_row \<times> payout_call list" where
  "checked now jobs enqueue r row =
    (case process now jobs enqueue r row of
       (Inr row', calls) \<Rightarrow> (row', calls)
     | (Inl _, calls) \<Rightarrow> (save now row Delayed (po_amount row) 30
         (no_extra\<lparr>sx_error := Some ''Payment verification temporarily unavailable. Automatic retry is scheduled.''\<rparr>), calls))"

text \<open>The rows that are due, at most as many as there are free slots; the order is that of the query.\<close>

definition due_row :: "int \<Rightarrow> payout_row \<Rightarrow> bool" where
  "due_row now row \<longleftrightarrow> po_next row \<le> now
     \<and> (po_state row \<notin> {Paid, NoPayout} \<or> po_state row = Paid \<and> po_hash row = None)"

definition due_rows :: "int \<Rightarrow> nat \<Rightarrow> payout_row list \<Rightarrow> payout_row list" where
  "due_rows now slots rows = take slots (sort_key (\<lambda>r. (po_next r, po_created r)) (filter (due_row now) rows))"

subsection \<open>Discovery\<close>

record payout_candidate =
  cn_id :: string
  cn_module :: string
  cn_kind :: int
  cn_source :: string
  cn_recipient :: string
  cn_cursor :: string

definition valid_candidate :: "payout_candidate \<Rightarrow> bool" where
  "valid_candidate c \<longleftrightarrow> cn_module c \<in> set [''market'', ''tournaments''] \<and> cn_source c \<noteq> [] \<and> list_all is_digit (cn_source c)
     \<and> take 2 (cn_recipient c) = ''0x'' \<and> length (cn_recipient c) = 42 \<and> list_all is_hex (drop 2 (cn_recipient c))
     \<and> cn_kind c \<in> set [0, 1, 2, 3]"

text \<open>\<open>key\<close> is \<^verbatim>\<open>payoutKey\<close>, the hash of kind, source and recipient; \<open>value_of\<close> reads the digits.\<close>

definition new_row :: "(int \<Rightarrow> string \<Rightarrow> string \<Rightarrow> string) \<Rightarrow> (string \<Rightarrow> int) \<Rightarrow> int \<Rightarrow> payout_candidate \<Rightarrow> payout_row" where
  "new_row key value_of now c =
    \<lparr>po_id = cn_id c, po_module = (if cn_module c = ''market'' then Market else Tournaments), po_kind = cn_kind c,
     po_source = value_of (cn_source c), po_recipient = lower (cn_recipient c),
     po_payout = key (cn_kind c) (cn_source c) (cn_recipient c), po_state = Pending, po_amount = 0, po_attempts = 0,
     po_job = None, po_hash = None, po_error = None, po_next = now, po_created = now, po_retryAt = None\<rparr>"

definition insert_row :: "payout_row \<Rightarrow> payout_row list \<Rightarrow> payout_row list" where
  "insert_row row rows = (if list_ex (\<lambda>r. po_id r = po_id row) rows then rows else rows @ [row])"

text \<open>One transaction: all candidates of a page and the cursor, or nothing.\<close>

definition discover ::
    "(int \<Rightarrow> string \<Rightarrow> string \<Rightarrow> string) \<Rightarrow> (string \<Rightarrow> int) \<Rightarrow> int \<Rightarrow> payout_candidate list
     \<Rightarrow> payout_row list \<times> string \<Rightarrow> bool \<times> (payout_row list \<times> string)" where
  "discover key value_of now page db =
    (if list_all valid_candidate page
     then (True, fold (\<lambda>c. insert_row (new_row key value_of now c)) page (fst db),
       if page = [] then snd db else cn_cursor (last page))
     else (False, db))"

subsection \<open>Retries by hand\<close>

definition retry_allowed :: "int \<Rightarrow> payout_row \<Rightarrow> bool" where
  "retry_allowed now row = (case po_retryAt row of None \<Rightarrow> True | Some at \<Rightarrow> at < now - 60)"

definition retry_by_hand ::
    "int \<Rightarrow> (payout_call \<Rightarrow> relay_job res) \<Rightarrow> onchain_payout res \<Rightarrow> payout_row \<Rightarrow> payout_state res \<times> payout_row \<times> payout_call list" where
  "retry_by_hand now enqueue payout row =
    (if po_state row \<noteq> Delayed then (Inr (po_state row), row, [])
     else case payout of Inl e \<Rightarrow> (Inl e, row, [])
     | Inr p \<Rightarrow>
       if op_status p \<noteq> 1 then (Inl ''No deferred wallet transfer to retry'', row, [])
       else if \<not> retry_allowed now row
       then (Inl ''A retry was already requested. Wait one minute; automatic recovery remains active.'', row, [])
       else let row = row\<lparr>po_retryAt := Some now\<rparr>;
                call = \<lparr>pc_module = po_module row, pc_fn = RetryPayout, pc_args = [po_payout row]\<rparr> in
         case enqueue call of Inl e \<Rightarrow> (Inl e, row, [call])
         | Inr job \<Rightarrow> (Inr Processing, save now row Processing (op_amount p) 2
             (no_extra\<lparr>sx_job := Some (rj_id job), sx_attempts := Some (op_attempts p)\<rparr>), [call]))"

subsection \<open>What is paid\<close>

lemma save_keeps [simp]:
  "po_id (save now row st am secs ex) = po_id row" "po_module (save now row st am secs ex) = po_module row"
  "po_recipient (save now row st am secs ex) = po_recipient row" "po_source (save now row st am secs ex) = po_source row"
  "po_payout (save now row st am secs ex) = po_payout row" "po_kind (save now row st am secs ex) = po_kind row"
  by (simp_all add: save_def)

text \<open>The destination of a payment never changes.\<close>

definition same_debt :: "payout_row \<Rightarrow> payout_row \<Rightarrow> bool" where
  "same_debt row row' \<longleftrightarrow> po_id row' = po_id row \<and> po_payout row' = po_payout row \<and> po_module row' = po_module row
     \<and> po_recipient row' = po_recipient row \<and> po_source row' = po_source row \<and> po_kind row' = po_kind row"

lemma same_debt_save [simp]: "same_debt row (save now row st am secs ex)"
  by (simp add: same_debt_def)

lemma same_debt_steps:
  "market_step now r row = Inr (Keep row') \<Longrightarrow> same_debt row row'"
  "refund_step now r row = Inr (Keep row') \<Longrightarrow> same_debt row row'"
  "deferred_step now p row = Keep row' \<Longrightarrow> same_debt row row'"
  by (auto simp add: market_step_def refund_step_def deferred_step_def res_simps Let_def split: if_split_asm)

lemma decide_payout_keeps: "decide_payout now jobs r row = Inr (Keep row') \<Longrightarrow> same_debt row row'"
  by (auto simp add: decide_payout_def res_simps split: if_split_asm elim: same_debt_steps)

lemma checked_keeps: "same_debt row (fst (checked now jobs enqueue r row))"
  unfolding checked_def process_def Let_def
  by (auto split: sum.split payout_step.split elim: decide_payout_keeps)

text \<open>C19. Every call the worker enqueues for a row pays an open debt of the contract to the recipient of the
  row, and only that: the contract has not paid it and no job of the row is in flight; it is either the retry of
  a transfer the contract deferred, whose last attempt the row has recorded, or the claim of a decided or
  cancelled match in which the recipient's position on the winning side (the refund, when cancelled) is not
  zero and was not claimed, or the refund of a cancelled tournament the recipient entered for a fee.\<close>

theorem payout_call_justified:
  assumes "process now jobs enqueue r row = (res, calls)" and "call \<in> set calls"
  shows "calls = [call] \<and> pc_module call = po_module row
    \<and> (\<exists>p. rd_payout r = Inr p \<and> op_status p \<noteq> 2
        \<and> (op_status p = 1 \<and> pc_fn call = RetryPayout \<and> pc_args call = [po_payout row] \<and> op_attempts p \<le> po_attempts row
           \<or> op_status p \<noteq> 1 \<and> pc_args call = [decimal (po_source row), po_recipient row]
             \<and> (po_module row = Market \<and> pc_fn call = Claim
                 \<and> (\<exists>m b. rd_result r = Inr m \<and> rd_position r = Inr b \<and> 3 \<le> mr_status m \<and> \<not> bp_claimed b
                      \<and> (if mr_status m = 4 then bp_refund b
                         else if lower (mr_winner m) = lower (mr_a m) then bp_a b else bp_b b) \<noteq> 0)
               \<or> po_module row = Tournaments \<and> po_kind row = 2 \<and> pc_fn call = Refund
                 \<and> (\<exists>t. rd_tournament r = Inr t \<and> tn_status t = 4 \<and> tn_fee t \<noteq> 0 \<and> rd_entered r = Inr True))))
    \<and> (case row_job jobs row of None \<Rightarrow> True | Some j \<Rightarrow> rj_status j \<in> {Succeeded, Failed, Superseded})"
proof -
  obtain fn args amount where d: "decide_payout now jobs r row = Inr (Enqueue fn args amount)"
      and calls: "calls = [\<lparr>pc_module = po_module row, pc_fn = fn, pc_args = args\<rparr>]"
    using assms by (auto simp add: process_def Let_def split: sum.split_asm payout_step.split_asm)
  have call: "call = \<lparr>pc_module = po_module row, pc_fn = fn, pc_args = args\<rparr>" using assms(2) calls by simp
  obtain p where p: "rd_payout r = Inr p" using d by (auto simp add: decide_payout_def res_simps)
  have dead: "case row_job jobs row of None \<Rightarrow> True | Some j \<Rightarrow> \<not> live_job j" and open_debt: "op_status p \<noteq> 2"
    using d p by (auto simp add: decide_payout_def split: if_split_asm option.splits)
  have "\<not> live_job j \<longleftrightarrow> rj_status j \<in> {Succeeded, Failed, Superseded}" for j
    unfolding live_job_def by (cases "rj_status j") simp_all
  then have jobs: "case row_job jobs row of None \<Rightarrow> True | Some j \<Rightarrow> rj_status j \<in> {Succeeded, Failed, Superseded}"
    using dead by (simp split: option.splits)
  have d2: "(if op_status p = 1 then Inr (deferred_step now p row)
      else if po_module row = Market then market_step now r row
      else if po_kind row = 2 then refund_step now r row
      else Inr (Keep (save now row Pending (po_amount row) 5 no_extra))) = Inr (Enqueue fn args amount)"
    using d p open_debt dead by (auto simp add: decide_payout_def split: if_split_asm option.splits)
  show ?thesis
  proof (cases "op_status p = 1")
    case True
    then have "fn = RetryPayout" "args = [po_payout row]" "op_attempts p \<le> po_attempts row"
      using d2 by (auto simp add: deferred_step_def split: if_split_asm)
    then show ?thesis using True p calls call jobs by simp
  next
    case False
    show ?thesis
    proof (cases "po_module row")
      case Market
      then obtain m b where m: "rd_result r = Inr m" "rd_position r = Inr b" "3 \<le> mr_status m" "\<not> bp_claimed b"
          "(if mr_status m = 4 then bp_refund b else if lower (mr_winner m) = lower (mr_a m) then bp_a b else bp_b b) \<noteq> 0"
          "fn = Claim" "args = [decimal (po_source row), po_recipient row]"
        using d2 False by (auto simp add: market_step_def res_simps Let_def split: if_split_asm)
      then show ?thesis using False Market p open_debt calls call jobs by simp
    next
      case Tournaments
      then obtain t where t: "rd_tournament r = Inr t" "tn_status t = 4" "tn_fee t \<noteq> 0" "rd_entered r = Inr True"
          "fn = Refund" "args = [decimal (po_source row), po_recipient row]" "po_kind row = 2"
        using d2 False by (auto simp add: refund_step_def res_simps split: if_split_asm)
      then show ?thesis using False Tournaments p open_debt calls call jobs by simp
    qed
  qed
qed

definition sample_row :: payout_row where
  "sample_row = \<lparr>po_id = ''i'', po_module = Market, po_kind = 0, po_source = 7, po_recipient = ''0xb'', po_payout = ''0xp'',
     po_state = Pending, po_amount = 0, po_attempts = 0, po_job = Some ''j'', po_hash = None, po_error = None, po_next = 0,
     po_created = 0, po_retryAt = None\<rparr>"

definition sample_reads :: payout_reads where
  "sample_reads = \<lparr>rd_payout = Inr \<lparr>op_amount = 0, op_status = 0, op_attempts = 0\<rparr>,
     rd_result = Inr \<lparr>mr_a = ''0xA'', mr_winner = ''0xa'', mr_status = 3\<rparr>,
     rd_position = Inr \<lparr>bp_a = 50, bp_b = 0, bp_refund = 20, bp_claimed = False\<rparr>,
     rd_tournament = Inl [], rd_entered = Inl [], rd_indexed = None\<rparr>"

theorem payout_call_justified_witness:
  "\<exists>res call. process 9 [\<lparr>rj_id = ''j'', rj_status = Failed\<rparr>] (\<lambda>_. Inr \<lparr>rj_id = ''k'', rj_status = Queued\<rparr>) sample_reads sample_row
     = (res, [call]) \<and> pc_fn call = Claim"
proof -
  let ?r = "process 9 [\<lparr>rj_id = ''j'', rj_status = Failed\<rparr>] (\<lambda>_. Inr \<lparr>rj_id = ''k'', rj_status = Queued\<rparr>) sample_reads sample_row"
  have one: "length (snd ?r) = 1" by code_simp
  obtain res calls where r: "?r = (res, calls)" by (rule prod.exhaust)
  then obtain call where "calls = [call]" using one by (auto simp add: length_Suc_conv)
  with r have c: "?r = (res, [call])" by simp
  have "op_status p \<noteq> 1" if "rd_payout sample_reads = Inr p" for p using that by (auto simp add: sample_reads_def)
  moreover have "po_module sample_row = Market" by (simp add: sample_row_def)
  ultimately have "pc_fn call = Claim" using payout_call_justified [OF c, of call] by auto
  then show ?thesis using c by blast
qed

end
