(* ===== verification/Recovery_Worker.thy ===== *)
theory Recovery_Worker
  imports Authority_Recovery Io_Monad
begin

text \<open>
  \<^verbatim>\<open>relayer/src/authority-recovery.ts\<close>: the worker that asks for the transitions of the execution.
  The other party is the port; a port is given by what it answers after the calls made so far, and the world
  of the worker holds these calls with their answers, what was logged, and the variables of the closure.
  Calls of the worker that overlap join the one under way, so checks run one after the other.
\<close>

datatype recovery_journal = JMissing | JSubmitted | JUncertain | JConfirmed | JFailed
datatype worker_stage = AtObservation | AtJournal | AtSponsor | AtSubmission

datatype port_call =
    Observed "observation res"
  | CanonicalAsked int string "bool res"
  | JournalAsked string "recovery_journal res"
  | Reconciled string "recovery_journal res"
  | SponsorAsked "bool res"
  | Enqueued string recovery_action int "string option res"

record recovery_port =
  pt_observe :: "port_call list \<Rightarrow> observation res"
  pt_canonical :: "port_call list \<Rightarrow> int \<Rightarrow> string \<Rightarrow> bool res"
  pt_journal :: "port_call list \<Rightarrow> string \<Rightarrow> recovery_journal res"
  pt_reconcile :: "port_call list \<Rightarrow> string \<Rightarrow> recovery_journal res"
  pt_sponsor :: "port_call list \<Rightarrow> bool res"
  pt_enqueue :: "port_call list \<Rightarrow> string \<Rightarrow> recovery_action \<Rightarrow> int \<Rightarrow> string option res"

datatype worker_log = Reported log_level diagnostic | FaultAt worker_stage

record worker_world =
  ww_calls :: "port_call list"
  ww_logs :: "worker_log list"
  ww_previous :: string
  ww_lastBlock :: int
  ww_stage :: worker_stage
  ww_fault :: "worker_stage option"

definition initial_world :: worker_world where
  "initial_world = \<lparr>ww_calls = [], ww_logs = [], ww_previous = [], ww_lastBlock = -1,
     ww_stage = AtObservation, ww_fault = None\<rparr>"

type_synonym 'a work = "('a, worker_world) io"

definition ask :: "(port_call list \<Rightarrow> 'a res) \<Rightarrow> ('a res \<Rightarrow> port_call) \<Rightarrow> 'a work" where
  "ask f c = (\<lambda>w. let r = f (ww_calls w) in (r, w\<lparr>ww_calls := ww_calls w @ [c r]\<rparr>))"

definition ask_observe :: "recovery_port \<Rightarrow> observation work" where
  "ask_observe P = ask (pt_observe P) Observed"

definition ask_canonical :: "recovery_port \<Rightarrow> observation \<Rightarrow> bool work" where
  "ask_canonical P ob = ask (\<lambda>h. pt_canonical P h (o_block ob) (o_blockHash ob)) (CanonicalAsked (o_block ob) (o_blockHash ob))"

definition set_stage :: "worker_stage \<Rightarrow> unit work" where
  "set_stage s = modify (\<lambda>w. w\<lparr>ww_stage := s\<rparr>)"

text \<open>The reporter remembers the identity before it formats the diagnostic.\<close>

definition report_io :: "observation \<Rightarrow> decision \<Rightarrow> string option \<Rightarrow> recovery_status \<Rightarrow> unit work" where
  "report_io ob d hash status = (\<lambda>w.
    let r = \<lparr>rp_observation = ob, rp_decision = d, rp_hash = hash, rp_status = status\<rparr> in
    case report_step (ww_previous w) r of
      Inl e \<Rightarrow> (Inl e, w\<lparr>ww_previous := report_identity r\<rparr>)
    | Inr (previous, out) \<Rightarrow>
        (Inr (), w\<lparr>ww_previous := previous,
           ww_logs := ww_logs w @ (case out of None \<Rightarrow> [] | Some (level, g) \<Rightarrow> [Reported level g])\<rparr>))"

definition action_name :: "recovery_action \<Rightarrow> string" where
  "action_name a = (case a of BeginRecovery \<Rightarrow> ''beginRecovery'' | FinishRecovery \<Rightarrow> ''finishRecovery''
     | CloseCompletedSession \<Rightarrow> ''closeCompletedSession'')"

definition recovery_id :: "observation \<Rightarrow> recovery_action \<Rightarrow> string" where
  "recovery_id ob action = decimal (o_chainId ob) @ '':'' @ lower (o_app ob) @ '':'' @ decimal (o_generation ob) @ '':''
     @ decimal (hub_epoch (o_hub ob)) @ '':'' @ action_name action"

definition journal_status :: "recovery_journal \<Rightarrow> recovery_status" where
  "journal_status s = (case s of JSubmitted \<Rightarrow> Submitted | JUncertain \<Rightarrow> Uncertain | JConfirmed \<Rightarrow> Confirmed
     | JFailed \<Rightarrow> Failed | JMissing \<Rightarrow> Observing)"

datatype worker_status = ObservationReorganized | ObservationBehind | WorkerObserving | JournalSays recovery_journal
  | WaitingSponsor | ObservationChanged | WorkerSubmitted | CheckUnavailable

text \<open>The journal is asked, and an open request is reconciled.\<close>

definition ask_journal :: "recovery_port \<Rightarrow> string \<Rightarrow> recovery_journal work" where
  "ask_journal P i =
    ibind (ask (\<lambda>h. pt_journal P h i) (JournalAsked i)) (\<lambda>s.
    if s = JSubmitted \<or> s = JUncertain then ask (\<lambda>h. pt_reconcile P h i) (Reconciled i) else ret s)"

definition same_generation :: "observation \<Rightarrow> observation \<Rightarrow> bool" where
  "same_generation ob fresh \<longleftrightarrow> lower (o_app fresh) = lower (o_app ob) \<and> o_generation fresh = o_generation ob
     \<and> hub_epoch (o_hub fresh) = hub_epoch (o_hub ob) \<and> \<not> o_block fresh < o_block ob"

text \<open>The rest of a check once the journal is clear and a sponsor available: observe again, and submit.\<close>

definition recheck_and_submit ::
    "(observation \<Rightarrow> decision res) \<Rightarrow> recovery_port \<Rightarrow> observation \<Rightarrow> string \<Rightarrow> recovery_action \<Rightarrow> worker_status work" where
  "recheck_and_submit decision_of P ob i action =
    ibind (set_stage AtObservation) (\<lambda>_.
    ibind (ask_observe P) (\<lambda>fresh.
    if \<not> same_generation ob fresh then ret ObservationChanged
    else ibind (ask_canonical P fresh) (\<lambda>canonical.
      if \<not> canonical then ret ObservationChanged
      else ibind (lift (decision_of fresh)) (\<lambda>again.
        if d_action again \<noteq> Some action then ret ObservationChanged
        else ibind (set_stage AtSubmission) (\<lambda>_.
          ibind (ask (\<lambda>h. pt_enqueue P h i action (hub_epoch (o_hub fresh))) (Enqueued i action (hub_epoch (o_hub fresh)))) (\<lambda>hash.
          ibind (report_io fresh again hash Requested) (\<lambda>_. ret WorkerSubmitted)))))))"

definition act_on ::
    "(observation \<Rightarrow> decision res) \<Rightarrow> recovery_port \<Rightarrow> observation \<Rightarrow> decision \<Rightarrow> recovery_action \<Rightarrow> worker_status work" where
  "act_on decision_of P ob d action =
    (let i = recovery_id ob action in
     ibind (set_stage AtJournal) (\<lambda>_.
     ibind (ask_journal P i) (\<lambda>s.
     if s \<noteq> JMissing then ibind (report_io ob d None (journal_status s)) (\<lambda>_. ret (JournalSays s))
     else ibind (set_stage AtSponsor) (\<lambda>_.
       ibind (ask (pt_sponsor P) SponsorAsked) (\<lambda>available.
       if \<not> available then ibind (report_io ob d None WaitingForSponsor) (\<lambda>_. ret WaitingSponsor)
       else recheck_and_submit decision_of P ob i action)))))"

definition worker_check :: "(observation \<Rightarrow> decision res) \<Rightarrow> recovery_port \<Rightarrow> worker_status work" where
  "worker_check decision_of P =
    ibind (set_stage AtObservation) (\<lambda>_.
    ibind (ask_observe P) (\<lambda>ob.
    ibind (lift (decision_of ob)) (\<lambda>d.
    ibind (ask_canonical P ob) (\<lambda>canonical.
    if \<not> canonical then ret ObservationReorganized
    else ibind (gets ww_lastBlock) (\<lambda>lastBlock.
      if o_block ob < lastBlock then ret ObservationBehind
      else ibind (modify (\<lambda>w. w\<lparr>ww_lastBlock := o_block ob\<rparr>)) (\<lambda>_.
        case d_action d of
          None \<Rightarrow> ibind (report_io ob d None Observing) (\<lambda>_. ret WorkerObserving)
        | Some action \<Rightarrow> act_on decision_of P ob d action))))))"

text \<open>One call of the worker: a check that throws logs the stage it reached, once in a row.\<close>

definition recoveryWorker :: "(observation \<Rightarrow> decision res) \<Rightarrow> recovery_port \<Rightarrow> worker_world \<Rightarrow> worker_status \<times> worker_world" where
  "recoveryWorker decision_of P w =
    (case worker_check decision_of P w of
       (Inr status, w1) \<Rightarrow> (status, w1\<lparr>ww_fault := None\<rparr>)
     | (Inl _, w1) \<Rightarrow> (CheckUnavailable,
         w1\<lparr>ww_logs := (if ww_fault w1 \<noteq> Some (ww_stage w1) then ww_logs w1 @ [FaultAt (ww_stage w1)] else ww_logs w1),
            ww_fault := Some (ww_stage w1)\<rparr>))"

subsection \<open>What a check may submit\<close>

text \<open>The calls of a check that leads to a submission.\<close>

definition journal_cleared :: "string \<Rightarrow> port_call list \<Rightarrow> bool" where
  "journal_cleared i cs \<longleftrightarrow> cs = [JournalAsked i (Inr JMissing)]
     \<or> (\<exists>s. (s = JSubmitted \<or> s = JUncertain) \<and> cs = [JournalAsked i (Inr s), Reconciled i (Inr JMissing)])"

definition authorised ::
    "(observation \<Rightarrow> decision res) \<Rightarrow> int \<Rightarrow> port_call list \<Rightarrow> string \<Rightarrow> recovery_action \<Rightarrow> int \<Rightarrow> bool" where
  "authorised decision_of lastBlock cs i action epoch \<longleftrightarrow>
    (\<exists>ob fresh looked d again. cs = [Observed (Inr ob), CanonicalAsked (o_block ob) (o_blockHash ob) (Inr True)] @ looked @
        [SponsorAsked (Inr True), Observed (Inr fresh), CanonicalAsked (o_block fresh) (o_blockHash fresh) (Inr True)]
      \<and> journal_cleared i looked \<and> i = recovery_id ob action \<and> epoch = hub_epoch (o_hub fresh)
      \<and> decision_of ob = Inr d \<and> d_action d = Some action \<and> decision_of fresh = Inr again \<and> d_action again = Some action
      \<and> same_generation ob fresh \<and> lastBlock \<le> o_block ob)"

text \<open>A computation that adds calls without a submission, or a submission at the end of calls of a given shape.\<close>

definition is_enqueued :: "port_call \<Rightarrow> bool" where
  "is_enqueued c = (case c of Enqueued _ _ _ _ \<Rightarrow> True | _ \<Rightarrow> False)"

definition adds :: "(port_call list \<Rightarrow> string \<Rightarrow> recovery_action \<Rightarrow> int \<Rightarrow> bool) \<Rightarrow> 'a work \<Rightarrow> worker_world \<Rightarrow> bool" where
  "adds ok m w \<longleftrightarrow> (\<exists>cs. ww_calls (snd (m w)) = ww_calls w @ cs
     \<and> ((\<forall>c \<in> set cs. \<not> is_enqueued c) \<or> (\<exists>before i action epoch r. cs = before @ [Enqueued i action epoch r]
          \<and> (\<forall>c \<in> set before. \<not> is_enqueued c) \<and> ok before i action epoch)))"

lemma adds_weaken: "adds ok m w \<Longrightarrow> (\<And>cs i a e. ok cs i a e \<Longrightarrow> ok' cs i a e) \<Longrightarrow> adds ok' m w"
  unfolding adds_def by blast

lemma adds_quiet: "ww_calls (snd (m w)) = ww_calls w \<Longrightarrow> adds ok m w"
  by (auto simp add: adds_def)

lemma report_io_calls [simp]: "ww_calls (snd (report_io ob d hash status w)) = ww_calls w"
  by (auto simp add: report_io_def Let_def split: sum.splits prod.splits)

lemma report_io_run: "report_io ob d hash status w = (r, w') \<Longrightarrow> ww_calls w' = ww_calls w"
  by (metis report_io_calls snd_conv)

lemma adds_ret [simp]: "adds ok (ret x) w" and adds_report: "adds ok (ibind (report_io ob d hash status) (\<lambda>_. ret x)) w"
proof -
  show "adds ok (ret x) w" by (rule adds_quiet) (simp add: io_simps)
  have "ww_calls (snd (ibind (report_io ob d hash status) (\<lambda>_. ret x) w)) = ww_calls w"
    by (auto simp add: ibind_def io_simps dest: report_io_run split: prod.splits sum.splits)
  then show "adds ok (ibind (report_io ob d hash status) (\<lambda>_. ret x)) w" by (rule adds_quiet)
qed

text \<open>A question that is no submission comes first in the calls.\<close>

lemma adds_ask:
  assumes "\<And>r. \<not> is_enqueued (c r)"
    and "\<And>x. f (ww_calls w) = Inr x \<Longrightarrow>
      adds (\<lambda>cs. ok (c (Inr x) # cs)) (g x) (w\<lparr>ww_calls := ww_calls w @ [c (Inr x)]\<rparr>)"
  shows "adds ok (ibind (ask f c) g) w"
proof (cases "f (ww_calls w)")
  case (Inl e)
  have "ww_calls (snd (ibind (ask f c) g w)) = ww_calls w @ [c (Inl e)]"
    by (simp add: ibind_def ask_def Inl Let_def)
  then show ?thesis unfolding adds_def using assms(1) by (intro exI [of _ "[c (Inl e)]"]) simp
next
  case (Inr x)
  have run: "ibind (ask f c) g w = g x (w\<lparr>ww_calls := ww_calls w @ [c (Inr x)]\<rparr>)"
    by (simp add: ibind_def ask_def Inr Let_def)
  obtain cs where cs: "ww_calls (snd (g x (w\<lparr>ww_calls := ww_calls w @ [c (Inr x)]\<rparr>))) = ww_calls w @ [c (Inr x)] @ cs"
    and shape: "(\<forall>c \<in> set cs. \<not> is_enqueued c) \<or> (\<exists>before i action epoch r. cs = before @ [Enqueued i action epoch r]
          \<and> (\<forall>c \<in> set before. \<not> is_enqueued c) \<and> ok (c (Inr x) # before) i action epoch)"
    using assms(2) [OF Inr] unfolding adds_def by auto
  show ?thesis
    unfolding adds_def run
  proof (intro exI [of _ "c (Inr x) # cs"] conjI)
    show "ww_calls (snd (g x (w\<lparr>ww_calls := ww_calls w @ [c (Inr x)]\<rparr>))) = ww_calls w @ c (Inr x) # cs" using cs by simp
    show "(\<forall>d \<in> set (c (Inr x) # cs). \<not> is_enqueued d) \<or> (\<exists>before i action epoch r. c (Inr x) # cs = before @ [Enqueued i action epoch r]
          \<and> (\<forall>d \<in> set before. \<not> is_enqueued d) \<and> ok before i action epoch)"
      using shape
    proof (elim disjE exE conjE)
      assume "\<forall>d \<in> set cs. \<not> is_enqueued d"
      then show ?thesis using assms(1) by simp
    next
      fix before i action epoch r
      assume "cs = before @ [Enqueued i action epoch r]" "\<forall>d \<in> set before. \<not> is_enqueued d" "ok (c (Inr x) # before) i action epoch"
      then have "c (Inr x) # cs = (c (Inr x) # before) @ [Enqueued i action epoch r]
          \<and> (\<forall>d \<in> set (c (Inr x) # before). \<not> is_enqueued d) \<and> ok (c (Inr x) # before) i action epoch"
        using assms(1) by simp
      then show ?thesis by blast
    qed
  qed
qed

lemma adds_if: "(b \<Longrightarrow> adds ok m w) \<Longrightarrow> (\<not> b \<Longrightarrow> adds ok n w) \<Longrightarrow> adds ok (if b then m else n) w"
  by simp

lemma adds_lift: "(\<And>x. r = Inr x \<Longrightarrow> adds ok (g x) w) \<Longrightarrow> adds ok (ibind (lift r) g) w"
  by (cases r) (auto simp add: adds_def ibind_def io_simps)

lemma adds_stage: "(\<And>w'. ww_calls w' = ww_calls w \<Longrightarrow> ww_lastBlock w' = ww_lastBlock w \<Longrightarrow> adds ok (g ()) w') \<Longrightarrow> adds ok (ibind (set_stage s) g) w"
  by (auto simp add: adds_def ibind_def set_stage_def io_simps)

lemma adds_enqueue:
  assumes "ok [] i action epoch"
  shows "adds ok (ibind (ask f (Enqueued i action epoch)) (\<lambda>hash. ibind (report_io ob d hash status) (\<lambda>_. ret x))) w"
proof -
  have "ww_calls (snd (ibind (ask f (Enqueued i action epoch)) (\<lambda>hash. ibind (report_io ob d hash status) (\<lambda>_. ret x)) w))
      = ww_calls w @ [Enqueued i action epoch (f (ww_calls w))]"
    by (auto simp add: ibind_def ask_def io_simps Let_def dest: report_io_run split: prod.splits sum.splits)
  then show ?thesis unfolding adds_def using assms
    by (intro exI [of _ "[Enqueued i action epoch (f (ww_calls w))]"]) auto
qed

text \<open>The submission of a check, from its end to its beginning.\<close>

lemma recheck_adds:
  assumes "ok_end = (\<lambda>cs j a epoch. j = i \<and> a = action \<and> (\<exists>fresh again. cs = [Observed (Inr fresh),
      CanonicalAsked (o_block fresh) (o_blockHash fresh) (Inr True)] \<and> epoch = hub_epoch (o_hub fresh)
      \<and> decision_of fresh = Inr again \<and> d_action again = Some action \<and> same_generation ob fresh))"
  shows "adds ok_end (recheck_and_submit decision_of P ob i action) w"
  unfolding recheck_and_submit_def
proof (rule adds_stage)
  fix w'
  show "adds ok_end (ibind (ask_observe P) (\<lambda>fresh. if \<not> same_generation ob fresh then ret ObservationChanged
    else ibind (ask_canonical P fresh) (\<lambda>canonical. if \<not> canonical then ret ObservationChanged
      else ibind (lift (decision_of fresh)) (\<lambda>again. if d_action again \<noteq> Some action then ret ObservationChanged
        else ibind (set_stage AtSubmission) (\<lambda>_.
          ibind (ask (\<lambda>h. pt_enqueue P h i action (hub_epoch (o_hub fresh))) (Enqueued i action (hub_epoch (o_hub fresh)))) (\<lambda>hash.
          ibind (report_io fresh again hash Requested) (\<lambda>_. ret WorkerSubmitted))))))) w'"
    unfolding ask_observe_def ask_canonical_def
  proof (rule adds_ask, simp add: is_enqueued_def)
    fix fresh and w1 :: worker_world
    show "adds (\<lambda>cs. ok_end (Observed (Inr fresh) # cs)) (if \<not> same_generation ob fresh then ret ObservationChanged
      else ibind (ask (\<lambda>h. pt_canonical P h (o_block fresh) (o_blockHash fresh)) (CanonicalAsked (o_block fresh) (o_blockHash fresh))) (\<lambda>canonical.
        if \<not> canonical then ret ObservationChanged
        else ibind (lift (decision_of fresh)) (\<lambda>again. if d_action again \<noteq> Some action then ret ObservationChanged
        else ibind (set_stage AtSubmission) (\<lambda>_.
          ibind (ask (\<lambda>h. pt_enqueue P h i action (hub_epoch (o_hub fresh))) (Enqueued i action (hub_epoch (o_hub fresh)))) (\<lambda>hash.
          ibind (report_io fresh again hash Requested) (\<lambda>_. ret WorkerSubmitted)))))) w1"
    proof (rule adds_if)
      assume "\<not> \<not> same_generation ob fresh"
      then have same: "same_generation ob fresh" by simp
      show "adds (\<lambda>cs. ok_end (Observed (Inr fresh) # cs))
        (ibind (ask (\<lambda>h. pt_canonical P h (o_block fresh) (o_blockHash fresh)) (CanonicalAsked (o_block fresh) (o_blockHash fresh))) (\<lambda>canonical.
          if \<not> canonical then ret ObservationChanged
          else ibind (lift (decision_of fresh)) (\<lambda>again. if d_action again \<noteq> Some action then ret ObservationChanged
          else ibind (set_stage AtSubmission) (\<lambda>_.
            ibind (ask (\<lambda>h. pt_enqueue P h i action (hub_epoch (o_hub fresh))) (Enqueued i action (hub_epoch (o_hub fresh)))) (\<lambda>hash.
            ibind (report_io fresh again hash Requested) (\<lambda>_. ret WorkerSubmitted)))))) w1"
      proof (rule adds_ask, simp add: is_enqueued_def)
        fix canonical and w2 :: worker_world
        show "adds (\<lambda>cs. ok_end (Observed (Inr fresh) # CanonicalAsked (o_block fresh) (o_blockHash fresh) (Inr canonical) # cs))
          (if \<not> canonical then ret ObservationChanged
           else ibind (lift (decision_of fresh)) (\<lambda>again. if d_action again \<noteq> Some action then ret ObservationChanged
           else ibind (set_stage AtSubmission) (\<lambda>_.
             ibind (ask (\<lambda>h. pt_enqueue P h i action (hub_epoch (o_hub fresh))) (Enqueued i action (hub_epoch (o_hub fresh)))) (\<lambda>hash.
             ibind (report_io fresh again hash Requested) (\<lambda>_. ret WorkerSubmitted))))) w2"
        proof (cases canonical)
          case canonical: True
          have "adds (\<lambda>cs. ok_end (Observed (Inr fresh) # CanonicalAsked (o_block fresh) (o_blockHash fresh) (Inr True) # cs))
            (ibind (lift (decision_of fresh)) (\<lambda>again. if d_action again \<noteq> Some action then ret ObservationChanged
             else ibind (set_stage AtSubmission) (\<lambda>_.
               ibind (ask (\<lambda>h. pt_enqueue P h i action (hub_epoch (o_hub fresh))) (Enqueued i action (hub_epoch (o_hub fresh)))) (\<lambda>hash.
               ibind (report_io fresh again hash Requested) (\<lambda>_. ret WorkerSubmitted))))) w2"
          proof (rule adds_lift)
            fix again assume again: "decision_of fresh = Inr again"
            show "adds (\<lambda>cs. ok_end (Observed (Inr fresh) # CanonicalAsked (o_block fresh) (o_blockHash fresh) (Inr True) # cs))
              (if d_action again \<noteq> Some action then ret ObservationChanged
               else ibind (set_stage AtSubmission) (\<lambda>_.
                 ibind (ask (\<lambda>h. pt_enqueue P h i action (hub_epoch (o_hub fresh))) (Enqueued i action (hub_epoch (o_hub fresh)))) (\<lambda>hash.
                 ibind (report_io fresh again hash Requested) (\<lambda>_. ret WorkerSubmitted)))) w2"
            proof (cases "d_action again = Some action")
              case True
              then show ?thesis
                using same again by (simp, intro adds_stage adds_enqueue) (simp add: assms)
            qed simp
          qed
          then show ?thesis using canonical by simp
        qed simp
      qed
    qed simp_all
  qed
qed

lemma act_on_adds:
  assumes d: "decision_of ob = Inr d" "d_action d = Some action" and "lastBlock \<le> o_block ob"
  shows "adds (\<lambda>cs. authorised decision_of lastBlock ([Observed (Inr ob), CanonicalAsked (o_block ob) (o_blockHash ob) (Inr True)] @ cs))
    (act_on decision_of P ob d action) w"
proof -
  define i where "i = recovery_id ob action"
  define ok where "ok = (\<lambda>cs. authorised decision_of lastBlock
    ([Observed (Inr ob), CanonicalAsked (o_block ob) (o_blockHash ob) (Inr True)] @ cs))"
  define rest where "rest = (\<lambda>s. if s \<noteq> JMissing then ibind (report_io ob d None (journal_status s)) (\<lambda>_. ret (JournalSays s))
     else ibind (set_stage AtSponsor) (\<lambda>_.
       ibind (ask (pt_sponsor P) SponsorAsked) (\<lambda>available.
       if \<not> available then ibind (report_io ob d None WaitingForSponsor) (\<lambda>_. ret WaitingSponsor)
       else recheck_and_submit decision_of P ob i action)))"
  have fin: "ok (looked @ SponsorAsked (Inr True) # cs) i action epoch"
    if "journal_cleared i looked" and "\<exists>fresh again. cs = [Observed (Inr fresh),
      CanonicalAsked (o_block fresh) (o_blockHash fresh) (Inr True)] \<and> epoch = hub_epoch (o_hub fresh)
      \<and> decision_of fresh = Inr again \<and> d_action again = Some action \<and> same_generation ob fresh" for looked cs epoch
    using that d assms(3) unfolding ok_def authorised_def i_def by fastforce
  have rest: "adds (\<lambda>cs. ok (looked @ cs)) (rest s) w'" if "s = JMissing \<Longrightarrow> journal_cleared i looked" for s looked w'
  proof (cases "s = JMissing")
    case False
    then show ?thesis by (simp add: rest_def adds_report)
  next
    case True
    show ?thesis
      unfolding rest_def
    proof (rule adds_if, simp add: True, rule adds_stage, rule adds_ask)
      fix w1 w2 :: worker_world and available
      show "adds (\<lambda>cs. ok (looked @ SponsorAsked (Inr available) # cs))
        (if \<not> available then ibind (report_io ob d None WaitingForSponsor) (\<lambda>_. ret WaitingSponsor)
         else recheck_and_submit decision_of P ob i action) w2"
      proof (cases available)
        case True
        then show ?thesis
          using adds_weaken [OF recheck_adds [OF refl, of i action decision_of ob P w2],
              of "\<lambda>cs. ok (looked @ SponsorAsked (Inr True) # cs)"] fin [OF that [OF \<open>s = JMissing\<close>]]
          by (simp only: not_True_eq_False if_False)
      qed (simp add: adds_report)
    qed (simp add: is_enqueued_def)
  qed
  have bind_assoc: "ibind (ibind m f) g = ibind m (\<lambda>x. ibind (f x) g)" for m :: "recovery_journal work" and f :: "recovery_journal \<Rightarrow> recovery_journal work" and g :: "recovery_journal \<Rightarrow> worker_status work"
    by (rule ext) (simp add: ibind_def split: prod.split sum.split)
  have bind_if: "ibind (if b then m else n) g = (if b then ibind m g else ibind n g)" for b and m n :: "recovery_journal work" and g :: "recovery_journal \<Rightarrow> worker_status work"
    by simp
  have bind_ret: "ibind (ret s) g = g s" for s and g :: "recovery_journal \<Rightarrow> worker_status work"
    by (rule ext) (simp add: ibind_def io_simps)
  have "adds ok (ibind (set_stage AtJournal) (\<lambda>_. ibind (ask_journal P i) rest)) w"
    unfolding ask_journal_def bind_assoc bind_if bind_ret
  proof (rule adds_stage, rule adds_ask)
    fix w1 w2 :: worker_world and s
    show "adds (\<lambda>cs. ok (JournalAsked i (Inr s) # cs))
      (if s = JSubmitted \<or> s = JUncertain then ibind (ask (\<lambda>h. pt_reconcile P h i) (Reconciled i)) rest else rest s) w2"
    proof (cases "s = JSubmitted \<or> s = JUncertain")
      case True
      have "adds (\<lambda>cs. ok (JournalAsked i (Inr s) # cs)) (ibind (ask (\<lambda>h. pt_reconcile P h i) (Reconciled i)) rest) w2"
      proof (rule adds_ask)
        fix x
        show "adds (\<lambda>cs. ok (JournalAsked i (Inr s) # Reconciled i (Inr x) # cs)) (rest x)
          (w2\<lparr>ww_calls := ww_calls w2 @ [Reconciled i (Inr x)]\<rparr>)"
          using rest [of x "[JournalAsked i (Inr s), Reconciled i (Inr x)]"] True by (auto simp add: journal_cleared_def)
      qed (simp add: is_enqueued_def)
      then show ?thesis using True by simp
    next
      case False
      then show ?thesis using rest [of s "[JournalAsked i (Inr s)]"] by (auto simp add: journal_cleared_def)
    qed
  qed (simp add: is_enqueued_def)
  then show ?thesis unfolding act_on_def Let_def i_def [symmetric] ok_def rest_def .
qed

lemma worker_check_adds: "adds (authorised decision_of (ww_lastBlock w)) (worker_check decision_of P) w"
  unfolding worker_check_def
proof (rule adds_stage)
  fix w1 :: worker_world assume w1: "ww_lastBlock w1 = ww_lastBlock w"
  let ?ok = "authorised decision_of (ww_lastBlock w)"
  let ?tail = "\<lambda>ob d canonical. if \<not> canonical then ret ObservationReorganized
    else ibind (gets ww_lastBlock) (\<lambda>lastBlock.
      if o_block ob < lastBlock then ret ObservationBehind
      else ibind (modify (\<lambda>w. w\<lparr>ww_lastBlock := o_block ob\<rparr>)) (\<lambda>_.
        case d_action d of
          None \<Rightarrow> ibind (report_io ob d None Observing) (\<lambda>_. ret WorkerObserving)
        | Some action \<Rightarrow> act_on decision_of P ob d action))"
  show "adds ?ok (ibind (ask_observe P) (\<lambda>ob. ibind (lift (decision_of ob)) (\<lambda>d. ibind (ask_canonical P ob) (?tail ob d)))) w1"
    unfolding ask_observe_def ask_canonical_def
  proof (rule adds_ask, simp add: is_enqueued_def, rule adds_lift, rule adds_ask, simp add: is_enqueued_def)
    fix ob d canonical and w2 :: worker_world
    assume d: "decision_of ob = Inr d"
    define w3 where "w3 = w1\<lparr>ww_calls := ww_calls w1 @ [Observed (Inr ob)],
      ww_calls := ww_calls (w1\<lparr>ww_calls := ww_calls w1 @ [Observed (Inr ob)]\<rparr>) @ [CanonicalAsked (o_block ob) (o_blockHash ob) (Inr canonical)]\<rparr>"
    have last3: "ww_lastBlock w3 = ww_lastBlock w" using w1 by (simp add: w3_def)
    show "adds (\<lambda>cs. ?ok (Observed (Inr ob) # CanonicalAsked (o_block ob) (o_blockHash ob) (Inr canonical) # cs)) (?tail ob d canonical) w3"
    proof (cases canonical)
      case True
      define w4 where "w4 = w3\<lparr>ww_lastBlock := o_block ob\<rparr>"
      show ?thesis
      proof (cases "o_block ob < ww_lastBlock w")
        case behind: False
        have run: "?tail ob d canonical w3 = (case d_action d of None \<Rightarrow> ibind (report_io ob d None Observing) (\<lambda>_. ret WorkerObserving)
            | Some action \<Rightarrow> act_on decision_of P ob d action) w4"
          using True behind last3 by (simp add: ibind_def io_simps w4_def)
        have "adds (\<lambda>cs. ?ok ([Observed (Inr ob), CanonicalAsked (o_block ob) (o_blockHash ob) (Inr True)] @ cs))
          (case d_action d of None \<Rightarrow> ibind (report_io ob d None Observing) (\<lambda>_. ret WorkerObserving)
            | Some action \<Rightarrow> act_on decision_of P ob d action) w4"
        proof (cases "d_action d")
          case (Some action)
          then show ?thesis using act_on_adds [of decision_of ob d action "ww_lastBlock w" P w4] d behind by simp
        qed (simp add: adds_report)
        then show ?thesis using run True by (simp add: adds_def w4_def)
      next
        case behind: True
        then have "?tail ob d canonical w3 = (Inr ObservationBehind, w3)"
          using True last3 by (simp add: ibind_def io_simps)
        then show ?thesis by (intro adds_quiet) simp
      qed
    qed simp
  qed
qed

text \<open>C22. No transition of the execution is requested on a single look.  Whatever the parties answer, one
  check submits at most one request, as its last call, and before it the check saw: an observation of a
  canonical block not behind the last one it used, on which the decision is this action; the journal without a
  request under this id, or its open request reconciled away; an available sponsor; and then a second, not
  older, canonical observation of the same deployment, generation and epoch on which the decision is again this
  action.  The id binds chain, deployment, generation, epoch and action.\<close>

theorem recovery_rechecked:
  assumes "recoveryWorker decision_of P w = (status, w')"
  shows "\<exists>cs. ww_calls w' = ww_calls w @ cs
    \<and> (list_all (\<lambda>c. \<not> is_enqueued c) cs
       \<or> (\<exists>before i action epoch r. cs = before @ [Enqueued i action epoch r]
            \<and> authorised decision_of (ww_lastBlock w) before i action epoch))"
proof -
  obtain r w1 where run: "worker_check decision_of P w = (r, w1)" by (cases "worker_check decision_of P w")
  have calls: "ww_calls w' = ww_calls w1"
    using assms run by (auto simp add: recoveryWorker_def split: sum.splits)
  obtain cs where cs: "ww_calls w1 = ww_calls w @ cs"
    "(\<forall>c \<in> set cs. \<not> is_enqueued c) \<or> (\<exists>before i action epoch r. cs = before @ [Enqueued i action epoch r]
      \<and> (\<forall>c \<in> set before. \<not> is_enqueued c) \<and> authorised decision_of (ww_lastBlock w) before i action epoch)"
    using worker_check_adds [of decision_of w P] run unfolding adds_def by auto
  then show ?thesis unfolding calls list_all_iff by blast
qed

definition sample_recovery_port :: recovery_port where
  "sample_recovery_port = \<lparr>pt_observe = (\<lambda>_. Inr sample_observation), pt_canonical = (\<lambda>_ _ _. Inr True), pt_journal = (\<lambda>_ _. Inr JUncertain),
     pt_reconcile = (\<lambda>_ _. Inr JMissing), pt_sponsor = (\<lambda>_. Inr True), pt_enqueue = (\<lambda>_ _ _ _. Inr (Some ''0xh''))\<rparr>"

definition sample_decision :: "observation \<Rightarrow> decision res" where
  "sample_decision ob = Inr ((result ob PUBLICATION_STOPPED)\<lparr>d_action := Some BeginRecovery\<rparr>)"

theorem recovery_rechecked_witness:
  "\<exists>status w' before i action epoch r. recoveryWorker sample_decision sample_recovery_port initial_world = (status, w')
     \<and> ww_calls w' = before @ [Enqueued i action epoch r] \<and> length before = 7 \<and> action = BeginRecovery"
proof -
  have "length (ww_calls (snd (recoveryWorker sample_decision sample_recovery_port initial_world))) = 8
      \<and> is_enqueued (last (ww_calls (snd (recoveryWorker sample_decision sample_recovery_port initial_world))))"
    by code_simp
  moreover obtain status w' where r: "recoveryWorker sample_decision sample_recovery_port initial_world = (status, w')" by (rule prod.exhaust)
  ultimately have m: "length (ww_calls w') = 8" "is_enqueued (last (ww_calls w'))" by simp_all
  have start: "ww_calls initial_world = []" by (simp add: initial_world_def)
  obtain cs where cs: "ww_calls w' = cs" "list_all (\<lambda>c. \<not> is_enqueued c) cs \<or> (\<exists>before i action epoch r. cs = before @ [Enqueued i action epoch r]
      \<and> authorised sample_decision (ww_lastBlock initial_world) before i action epoch)"
    using recovery_rechecked [OF r] start by auto
  have "\<not> list_all (\<lambda>c. \<not> is_enqueued c) cs"
    using m cs(1) by (metis last_in_set length_0_conv list_all_iff zero_neq_numeral)
  then obtain before i action epoch x where b: "cs = before @ [Enqueued i action epoch x]"
      "authorised sample_decision (ww_lastBlock initial_world) before i action epoch"
    using cs(2) by blast
  have "action = BeginRecovery" using b(2) by (auto simp add: authorised_def sample_decision_def)
  moreover have "length before = 7" using m(1) cs(1) b(1) by simp
  ultimately show ?thesis using r cs(1) b(1) by blast
qed

end
