(* ===== verification/Compact_Sessions.thy ===== *)
theory Compact_Sessions
  imports Io_Monad Js_Text
begin

text \<open>
  \<^verbatim>\<open>shared/compact-arena-session.ts\<close> and \<^verbatim>\<open>shared/compact-rooms-session.ts\<close>: the senders of game commands
  that sign with a limited key and keep the nonce themselves.  A session is its variables and the transactions
  it signed, in order; encoding, signing and hashing are those of the viem library, so a transaction is its
  nonce, function and arguments.  What the node answers (the transaction count, a reply to a transaction, the
  binding of the key) is an argument; a call that overlaps another one finds \<open>ses_busy\<close> set.
\<close>

datatype command_arg = IntArg int | TextArg string

record signed_tx =
  tx_nonce :: int
  tx_name :: string
  tx_args :: "command_arg list"

record session =
  ses_nonce :: "int option"
  ses_busy :: bool
  ses_uncertain :: bool
  ses_registered :: bool
  ses_signed :: "signed_tx list"

definition new_session :: session where
  "new_session = \<lparr>ses_nonce = None, ses_busy = False, ses_uncertain = False, ses_registered = False, ses_signed = []\<rparr>"

text \<open>The reply to a transaction: none, a receipt of another hash or unknown status, success, or a revert
  with the name of its error where it can be decoded.\<close>

datatype tx_reply = NoReply string | Unconfirmed | Success | Reverted "string option"

definition unconfirmed_error :: string where
  "unconfirmed_error = ''Game command receipt is not confirmed''"

definition need_nonce :: "int res \<Rightarrow> (int, session) io" where
  "need_nonce answer =
    ibind (gets ses_nonce) (\<lambda>n. case n of Some k \<Rightarrow> ret k
    | None \<Rightarrow> ibind (lift answer) (\<lambda>k. ibind (modify (\<lambda>s. s\<lparr>ses_nonce := Some k\<rparr>)) (\<lambda>_. ret k)))"

definition rawSend :: "int res \<Rightarrow> tx_reply \<Rightarrow> string \<Rightarrow> command_arg list \<Rightarrow> (unit, session) io" where
  "rawSend answer reply name args =
    ibind (need_nonce answer) (\<lambda>n.
    ibind (modify (\<lambda>s. s\<lparr>ses_uncertain := True,
        ses_signed := ses_signed s @ [\<lparr>tx_nonce = n, tx_name = name, tx_args = args\<rparr>]\<rparr>)) (\<lambda>_.
    case reply of
      NoReply e \<Rightarrow> throw e
    | Unconfirmed \<Rightarrow> throw unconfirmed_error
    | Success \<Rightarrow> modify (\<lambda>s. s\<lparr>ses_nonce := Some (n + 1), ses_uncertain := False\<rparr>)
    | Reverted e \<Rightarrow> ibind (modify (\<lambda>s. s\<lparr>ses_nonce := Some (n + 1), ses_uncertain := False\<rparr>)) (\<lambda>_.
        throw ((case e of Some name \<Rightarrow> name | None \<Rightarrow> ''GameReverted'') @ '': reading the current game state''))))"

definition exclusive :: "(unit, session) io \<Rightarrow> (unit, session) io" where
  "exclusive body =
    ibind (gets (\<lambda>s. ses_busy s \<or> ses_uncertain s)) (\<lambda>blocked.
    if blocked then throw ''Reconcile the previous game command before sending another''
    else ibind (modify (\<lambda>s. s\<lparr>ses_busy := True\<rparr>)) (\<lambda>_. finally_do body (\<lambda>s. s\<lparr>ses_busy := False\<rparr>)))"

subsection \<open>The arena\<close>

definition compact_arena_send ::
    "int \<Rightarrow> int \<Rightarrow> int \<Rightarrow> int res \<Rightarrow> tx_reply \<Rightarrow> string \<Rightarrow> command_arg list \<Rightarrow> (unit, session) io" where
  "compact_arena_send match expires now answer reply name args =
    (if name \<notin> set [''input'', ''tick'', ''concede''] \<or> take 1 args \<noteq> [IntArg match]
     then throw ''Compact session only permits this match's game controls''
     else if now div 1000 \<ge> expires then throw ''Arcade session expired''
     else exclusive (rawSend answer reply name args))"

subsection \<open>The rooms\<close>

record game_grant =
  gr_granter :: int
  gr_sessionKey :: string
  gr_expiry :: int
  gr_anyFunction :: bool

definition compactRoomActions :: "string list" where
  "compactRoomActions = [''acceptMatch'', ''input'', ''tick'', ''cancelMatch'', ''concede'']"

definition valid_authorization :: "string \<Rightarrow> string \<Rightarrow> int \<Rightarrow> string \<Rightarrow> game_grant \<Rightarrow> unit res" where
  "valid_authorization app storedApp baseChainId signer g =
    guard ''Invalid compact game authorization''
      (lower storedApp = lower app \<and> baseChainId = 10143 \<and> lower signer = lower (gr_sessionKey g) \<and> \<not> gr_anyFunction g)"

definition expected_binding :: "game_grant \<Rightarrow> int \<Rightarrow> int" where
  "expected_binding g epoch = gr_granter g OR push_bit 160 (gr_expiry g) OR push_bit 224 epoch"

definition register_controls :: "game_grant \<Rightarrow> int \<Rightarrow> int res \<Rightarrow> int res \<Rightarrow> tx_reply \<Rightarrow> (unit, session) io" where
  "register_controls g epoch binding answer reply =
    ibind (gets ses_registered) (\<lambda>registered.
    if registered then ret ()
    else ibind (lift binding) (\<lambda>b.
      ibind (if b \<noteq> expected_binding g epoch then rawSend answer reply ''registerControls'' [] else ret ()) (\<lambda>_.
      modify (\<lambda>s. s\<lparr>ses_registered := True\<rparr>))))"

definition compact_rooms_send ::
    "game_grant \<Rightarrow> int \<Rightarrow> int \<Rightarrow> int res \<Rightarrow> int res \<Rightarrow> tx_reply \<Rightarrow> tx_reply \<Rightarrow> string \<Rightarrow> command_arg list \<Rightarrow> (unit, session) io" where
  "compact_rooms_send g epoch now binding answer reply1 reply2 name args =
    exclusive
      (ibind (iguard ''Compact session only permits game controls'' (name \<in> set compactRoomActions)) (\<lambda>_.
       ibind (iguard ''Arcade session expired'' (now div 1000 < gr_expiry g)) (\<lambda>_.
       ibind (register_controls g epoch binding answer reply1) (\<lambda>_.
       rawSend answer reply2 name args))))"

definition compact_rooms_revoke :: "string \<Rightarrow> int res \<Rightarrow> int res \<Rightarrow> tx_reply \<Rightarrow> (unit, session) io" where
  "compact_rooms_revoke signer binding answer reply =
    exclusive
      (ibind (lift binding) (\<lambda>b.
       ibind (if b \<noteq> 0 \<and> (drop_bit 160 b AND (push_bit 64 1 - 1)) \<noteq> 0
              then rawSend answer reply ''revokeControls'' [TextArg signer] else ret ()) (\<lambda>_.
       modify (\<lambda>s. s\<lparr>ses_registered := False\<rparr>))))"

subsection \<open>Nonces\<close>

datatype command = ArenaSend int int int "int res" tx_reply string "command_arg list"
  | RoomsSend game_grant int int "int res" "int res" tx_reply tx_reply string "command_arg list"
  | RoomsRevoke string "int res" "int res" tx_reply

definition run_command :: "command \<Rightarrow> session \<Rightarrow> session" where
  "run_command c s = snd ((case c of
       ArenaSend match expires now answer reply name args \<Rightarrow> compact_arena_send match expires now answer reply name args
     | RoomsSend g epoch now binding answer reply1 reply2 name args \<Rightarrow>
         compact_rooms_send g epoch now binding answer reply1 reply2 name args
     | RoomsRevoke signer binding answer reply \<Rightarrow> compact_rooms_revoke signer binding answer reply) s)"

text \<open>The signed nonces are consecutive and end just before the next one, or at it while it is uncertain.\<close>

definition session_ok :: "session \<Rightarrow> bool" where
  "session_ok s \<longleftrightarrow> (case ses_nonce s of None \<Rightarrow> ses_signed s = [] \<and> \<not> ses_uncertain s
     | Some n \<Rightarrow> \<exists>first. map tx_nonce (ses_signed s) = map (\<lambda>i. first + int i) [0..<length (ses_signed s)]
         \<and> first + int (length (ses_signed s)) = (if ses_uncertain s then n + 1 else n))"

definition certain_ok :: "session \<Rightarrow> bool" where
  "certain_ok s \<longleftrightarrow> session_ok s \<and> \<not> ses_uncertain s"

lemma certain_session: "certain_ok s \<Longrightarrow> session_ok s"
  by (simp add: certain_ok_def)

lemma session_ok_cong:
  assumes "ses_nonce t = ses_nonce s" "ses_signed t = ses_signed s" "ses_uncertain t = ses_uncertain s"
  shows "session_ok t = session_ok s"
  unfolding session_ok_def assms ..

lemma session_ok_sign:
  assumes "certain_ok s" "ses_nonce s = Some n" "tx_nonce tx = n"
  shows "session_ok (s\<lparr>ses_uncertain := True, ses_signed := ses_signed s @ [tx]\<rparr>)"
proof -
  obtain first where f: "map tx_nonce (ses_signed s) = map (\<lambda>i. first + int i) [0..<length (ses_signed s)]"
      "first + int (length (ses_signed s)) = n"
    using assms by (auto simp add: certain_ok_def session_ok_def)
  then have "map tx_nonce (ses_signed s @ [tx]) = map (\<lambda>i. first + int i) [0..<length (ses_signed s @ [tx])]"
    using assms(3) by simp
  moreover have "first + int (length (ses_signed s @ [tx])) = n + 1" using f(2) by simp
  ultimately have ex: "\<exists>first. map tx_nonce (ses_signed s @ [tx]) = map (\<lambda>i. first + int i) [0..<length (ses_signed s @ [tx])]
      \<and> first + int (length (ses_signed s @ [tx])) = n + 1" by blast
  define s' where "s' = s\<lparr>ses_uncertain := True, ses_signed := ses_signed s @ [tx]\<rparr>"
  have s': "ses_nonce s' = Some n" "ses_uncertain s' = True" "ses_signed s' = ses_signed s @ [tx]"
    using assms(2) by (simp_all add: s'_def)
  have "session_ok s'" using ex unfolding session_ok_def s' by (simp only: option.case if_True)
  then show ?thesis by (simp only: s'_def)
qed

lemma session_ok_confirm:
  assumes "session_ok s" "ses_uncertain s" "ses_nonce s = Some n"
  shows "certain_ok (s\<lparr>ses_nonce := Some (n + 1), ses_uncertain := False\<rparr>)"
  using assms by (simp add: session_ok_def certain_ok_def)

lemma need_nonce_run:
  "need_nonce answer s = (case ses_nonce s of Some k \<Rightarrow> (Inr k, s)
     | None \<Rightarrow> (case answer of Inl e \<Rightarrow> (Inl e, s) | Inr k \<Rightarrow> (Inr k, s\<lparr>ses_nonce := Some k\<rparr>)))"
  by (cases "ses_nonce s"; cases answer) (simp_all add: need_nonce_def ibind_def io_simps)

lemma certain_first_nonce:
  assumes "certain_ok s" "ses_nonce s = None"
  shows "certain_ok (s\<lparr>ses_nonce := Some k\<rparr>)"
proof -
  define t where "t = s\<lparr>ses_nonce := Some k\<rparr>"
  have t: "ses_nonce t = Some k" "ses_signed t = []" "ses_uncertain t = False"
    using assms by (simp_all add: t_def certain_ok_def session_ok_def)
  have "certain_ok t" unfolding certain_ok_def session_ok_def t by simp
  then show ?thesis by (simp only: t_def)
qed

lemma triple_need_nonce: "triple certain_ok (need_nonce answer) (\<lambda>n s. certain_ok s \<and> ses_nonce s = Some n) session_ok"
  unfolding triple_def
proof (intro allI impI)
  fix s assume s: "certain_ok s"
  show "case need_nonce answer s of (Inr n, s') \<Rightarrow> certain_ok s' \<and> ses_nonce s' = Some n | (Inl e, s') \<Rightarrow> session_ok s'"
  proof (cases "ses_nonce s")
    case None
    show ?thesis unfolding need_nonce_run None
      by (cases answer) (use certain_first_nonce [OF s None] certain_session [OF s] in simp_all)
  next
    case (Some k)
    then show ?thesis unfolding need_nonce_run using s by simp
  qed
qed

lemma triple_rawSend: "triple certain_ok (rawSend answer reply name args) (\<lambda>_. certain_ok) session_ok"
  unfolding rawSend_def
proof (rule triple_bind [OF triple_need_nonce])
  fix n
  let ?tx = "\<lparr>tx_nonce = n, tx_name = name, tx_args = args\<rparr>"
  have sign: "triple (\<lambda>s. certain_ok s \<and> ses_nonce s = Some n)
      (modify (\<lambda>s. s\<lparr>ses_uncertain := True, ses_signed := ses_signed s @ [?tx]\<rparr>))
      (\<lambda>_ s. session_ok s \<and> ses_uncertain s \<and> ses_nonce s = Some n) session_ok"
    by (rule triple_modify) (use session_ok_sign [of _ n ?tx] in auto)
  have confirm: "triple (\<lambda>s. session_ok s \<and> ses_uncertain s \<and> ses_nonce s = Some n)
      (modify (\<lambda>s. s\<lparr>ses_nonce := Some (n + 1), ses_uncertain := False\<rparr>)) (\<lambda>_. certain_ok) session_ok"
    by (rule triple_modify) (use session_ok_confirm in auto)
  have fail: "triple (\<lambda>s. session_ok s \<and> ses_uncertain s \<and> ses_nonce s = Some n) (throw e) (\<lambda>_. certain_ok) session_ok" for e
    by (rule triple_throw) simp
  have after: "triple certain_ok (throw e) (\<lambda>_. certain_ok) session_ok" for e
    by (rule triple_throw) (simp add: certain_ok_def)
  show "triple (\<lambda>s. certain_ok s \<and> ses_nonce s = Some n)
    (ibind (modify (\<lambda>s. s\<lparr>ses_uncertain := True, ses_signed := ses_signed s @ [?tx]\<rparr>)) (\<lambda>_.
      case reply of NoReply e \<Rightarrow> throw e | Unconfirmed \<Rightarrow> throw unconfirmed_error
      | Success \<Rightarrow> modify (\<lambda>s. s\<lparr>ses_nonce := Some (n + 1), ses_uncertain := False\<rparr>)
      | Reverted e \<Rightarrow> ibind (modify (\<lambda>s. s\<lparr>ses_nonce := Some (n + 1), ses_uncertain := False\<rparr>)) (\<lambda>_.
          throw ((case e of Some name \<Rightarrow> name | None \<Rightarrow> ''GameReverted'') @ '': reading the current game state''))))
    (\<lambda>_. certain_ok) session_ok"
    by (rule triple_bind [OF sign]) (cases reply; simp add: fail confirm triple_bind [OF confirm after])
qed

lemma triple_exclusive:
  assumes "triple certain_ok body (\<lambda>_. certain_ok) session_ok"
  shows "triple session_ok (exclusive body) (\<lambda>_. session_ok) session_ok"
proof (rule tripleI)
  have busy: "certain_ok (s\<lparr>ses_busy := b\<rparr>) = certain_ok s" "session_ok (s\<lparr>ses_busy := b\<rparr>) = session_ok s" for s b
    unfolding certain_ok_def by (simp_all add: session_ok_cong [of "s\<lparr>ses_busy := b\<rparr>" s])
  have main: "session_ok s'" if "session_ok s" "exclusive body s = (r, s')" for s r s'
  proof (cases "ses_busy s \<or> ses_uncertain s")
    case True
    then show ?thesis using that by (simp add: exclusive_def ibind_def io_simps)
  next
    case False
    obtain q t where b: "body (s\<lparr>ses_busy := True\<rparr>) = (q, t)" by (cases "body (s\<lparr>ses_busy := True\<rparr>)")
    have "certain_ok (s\<lparr>ses_busy := True\<rparr>)" using that(1) False by (simp add: busy certain_ok_def)
    then have "session_ok t"
      using tripleD(1) [OF assms, of _ _ t] tripleD(2) [OF assms, of _ _ t] b certain_session by (cases q) blast+
    moreover have "s' = t\<lparr>ses_busy := False\<rparr>"
      using that(2) False b by (simp add: exclusive_def ibind_def io_simps finally_do_def)
    ultimately show ?thesis by (simp add: busy)
  qed
  show "session_ok s'" if "session_ok s" "exclusive body s = (Inr x, s')" for s x s' using main that by blast
  show "session_ok s'" if "session_ok s" "exclusive body s = (Inl e, s')" for s e s' using main that by blast
qed

lemma triple_ret_certain: "triple certain_ok (ret ()) (\<lambda>_. certain_ok) session_ok"
  by (rule triple_ret)

lemma triple_certain_modify:
  "(\<And>s. certain_ok s \<Longrightarrow> certain_ok (h s)) \<Longrightarrow> triple certain_ok (modify h) (\<lambda>_. certain_ok) session_ok"
  by (rule triple_modify)

lemma certain_registered [simp]: "certain_ok (s\<lparr>ses_registered := b\<rparr>) = certain_ok s"
  unfolding certain_ok_def by (simp add: session_ok_cong [of "s\<lparr>ses_registered := b\<rparr>" s])

lemma triple_register: "triple certain_ok (register_controls g epoch binding answer reply) (\<lambda>_. certain_ok) session_ok"
  unfolding register_controls_def
proof (rule triple_bind [of _ _ "\<lambda>_. certain_ok"])
  show "triple certain_ok (gets ses_registered) (\<lambda>_. certain_ok) session_ok" by (rule triple_gets)
  fix registered
  have "triple certain_ok (ibind (lift binding) (\<lambda>b.
      ibind (if b \<noteq> expected_binding g epoch then rawSend answer reply ''registerControls'' [] else ret ()) (\<lambda>_.
      modify (\<lambda>s. s\<lparr>ses_registered := True\<rparr>)))) (\<lambda>_. certain_ok) session_ok"
  proof (rule triple_bind [of _ _ "\<lambda>_. certain_ok"])
    show "triple certain_ok (lift binding) (\<lambda>_. certain_ok) session_ok" by (rule triple_lift) (auto intro: certain_session)
    fix b
    show "triple certain_ok (ibind (if b \<noteq> expected_binding g epoch then rawSend answer reply ''registerControls'' [] else ret ()) (\<lambda>_.
      modify (\<lambda>s. s\<lparr>ses_registered := True\<rparr>))) (\<lambda>_. certain_ok) session_ok"
      by (rule triple_bind [of _ _ "\<lambda>_. certain_ok"])
        (auto intro: triple_rawSend triple_ret_certain triple_certain_modify)
  qed
  then show "triple certain_ok (if registered then ret () else ibind (lift binding) (\<lambda>b.
      ibind (if b \<noteq> expected_binding g epoch then rawSend answer reply ''registerControls'' [] else ret ()) (\<lambda>_.
      modify (\<lambda>s. s\<lparr>ses_registered := True\<rparr>)))) (\<lambda>_. certain_ok) session_ok"
    by (simp add: triple_ret_certain)
qed

lemma triple_certain_guard: "triple certain_ok (iguard e b) (\<lambda>_. certain_ok) session_ok"
  by (rule triple_iguard) (auto intro: certain_session)

lemma run_command_ok: "session_ok s \<Longrightarrow> session_ok (run_command c s)"
proof -
  assume s: "session_ok s"
  have apply_triple: "session_ok (snd (m s))" if "triple session_ok m (\<lambda>_. session_ok) session_ok" for m :: "(unit, session) io"
    using tripleD [OF that s] by (cases "m s"; cases "fst (m s)") auto
  show ?thesis
  proof (cases c)
    case (ArenaSend match expires now answer reply name args)
    have "triple session_ok (compact_arena_send match expires now answer reply name args) (\<lambda>_. session_ok) session_ok"
      unfolding compact_arena_send_def
      by (intro triple_if triple_throw triple_exclusive triple_rawSend)
    then show ?thesis using apply_triple by (simp add: run_command_def ArenaSend)
  next
    case (RoomsSend g epoch now binding answer reply1 reply2 name args)
    have "triple session_ok (compact_rooms_send g epoch now binding answer reply1 reply2 name args) (\<lambda>_. session_ok) session_ok"
      unfolding compact_rooms_send_def
      by (intro triple_exclusive triple_bind [of _ _ "\<lambda>_. certain_ok"] triple_certain_guard triple_register triple_rawSend)
    then show ?thesis using apply_triple by (simp add: run_command_def RoomsSend)
  next
    case (RoomsRevoke signer binding answer reply)
    have "triple certain_ok (lift binding) (\<lambda>_. certain_ok) session_ok" by (rule triple_lift) (auto intro: certain_session)
    then have "triple session_ok (compact_rooms_revoke signer binding answer reply) (\<lambda>_. session_ok) session_ok"
      unfolding compact_rooms_revoke_def
      by (intro triple_exclusive triple_bind [of _ _ "\<lambda>_. certain_ok"] triple_if triple_rawSend triple_ret_certain triple_certain_modify) simp_all
    then show ?thesis using apply_triple by (simp add: run_command_def RoomsRevoke)
  qed
qed

lemma run_commands_ok: "session_ok (fold run_command cs new_session)"
proof (induction cs rule: rev_induct)
  case Nil
  then show ?case by (simp add: session_ok_def new_session_def)
next
  case (snoc c cs)
  then show ?case by (simp add: run_command_ok)
qed

lemma exclusive_blocked: "ses_uncertain s \<Longrightarrow> snd (exclusive body s) = s"
  by (simp add: exclusive_def ibind_def io_simps)

lemma uncertain_frozen: "ses_uncertain s \<Longrightarrow> run_command c s = s"
  by (cases c) (simp_all add: run_command_def compact_arena_send_def compact_rooms_send_def compact_rooms_revoke_def
      exclusive_blocked io_simps)

text \<open>C23. A session never signs two transactions for one nonce: in every sequence of commands and replies the
  nonces it signs are consecutive numbers, in order, so in particular distinct; and once a transaction has no
  confirmed receipt the session is frozen, whatever command follows, with that transaction as its last one.\<close>

theorem nonces_never_reused:
  assumes "s = fold run_command cs new_session"
  shows "\<exists>first. map tx_nonce (ses_signed s) = map (\<lambda>i. first + int i) [0..<length (ses_signed s)]
    \<and> (case ses_nonce s of None \<Rightarrow> ses_signed s = []
       | Some n \<Rightarrow> first + int (length (ses_signed s)) = (if ses_uncertain s then n + 1 else n))
    \<and> (\<not> ses_uncertain s \<or> (\<forall>cs'. fold run_command cs' s = s))"
proof -
  have ok: "session_ok s" unfolding assms by (rule run_commands_ok)
  have frozen: "fold run_command cs' s = s" if "ses_uncertain s" for cs'
    using that by (induction cs') (simp_all add: uncertain_frozen)
  show ?thesis
  proof (cases "ses_nonce s")
    case None
    then show ?thesis using ok frozen by (auto simp add: session_ok_def)
  next
    case (Some n)
    then obtain first where "map tx_nonce (ses_signed s) = map (\<lambda>i. first + int i) [0..<length (ses_signed s)]"
        "first + int (length (ses_signed s)) = (if ses_uncertain s then n + 1 else n)"
      using ok unfolding session_ok_def Some option.case by blast
    then show ?thesis using Some frozen by auto
  qed
qed

definition sample_commands :: "command list" where
  "sample_commands = [ArenaSend 7 100 5000 (Inr 3) Success ''tick'' [IntArg 7],
     ArenaSend 7 100 5000 (Inl []) (Reverted None) ''input'' [IntArg 7, IntArg 1],
     ArenaSend 7 100 5000 (Inl []) (NoReply []) ''tick'' [IntArg 7],
     ArenaSend 7 100 5000 (Inl []) Success ''tick'' [IntArg 7]]"

theorem nonces_never_reused_witness:
  "map tx_nonce (ses_signed (fold run_command sample_commands new_session)) = [3, 4, 5]
   \<and> ses_uncertain (fold run_command sample_commands new_session)"
proof -
  define s where "s = fold run_command sample_commands new_session"
  have m: "length (ses_signed s) = 3 \<and> ses_uncertain s \<and> ses_nonce s = Some 5" unfolding s_def by code_simp
  obtain first where f: "map tx_nonce (ses_signed s) = map (\<lambda>i. first + int i) [0..<length (ses_signed s)]"
      "case ses_nonce s of None \<Rightarrow> ses_signed s = []
       | Some n \<Rightarrow> first + int (length (ses_signed s)) = (if ses_uncertain s then n + 1 else n)"
    using nonces_never_reused [OF s_def] by blast
  then have "first = 3" using m by simp
  then have "map tx_nonce (ses_signed s) = [3, 4, 5]" using f(1) m by (simp add: numeral_eq_Suc upt_rec)
  then show ?thesis using m unfolding s_def by simp
qed

end
