(* ===== verification/Engine_Journal.thy ===== *)
theory Engine_Journal
  imports Js_Text "HOL-Library.Product_Lexorder"
begin

text \<open>
  \<^verbatim>\<open>relayer/src/rooms-engine-recovery.ts\<close> and \<^verbatim>\<open>relayer/src/rooms-finance-router.ts\<close>: the durable
  journal of the commands sent to the engine and how uncertain ones are resolved, and the binding of a match
  to one financial deployment.  A table is the list of its rows; parsing and recovering a transaction, receipts
  and contract reads are arguments.
\<close>

subsection \<open>The journal\<close>

datatype engine_status = EPending | EQuarantined | EObserved | EFailed | EObsolete | EConfirmed

datatype resolution = ByReceipt string string string | ByTerminal int string string "int \<times> int"

record engine_job =
  ej_id :: string
  ej_epoch :: int
  ej_nonce :: int
  ej_raw :: string
  ej_hash :: string
  ej_app :: string
  ej_status :: engine_status
  ej_action :: "string option"
  ej_match :: "int option"
  ej_resolution :: "resolution option"
  ej_request :: "string option"

text \<open>What the bytes of a journal entry are: the hash, the parsed transaction, its signer and its call.\<close>

record parsed_tx =
  px_to :: "string option"
  px_eip1559 :: bool
  px_chainId :: int
  px_value :: "int option"
  px_nonce :: int

record tx_reader =
  tr_hash :: "string \<Rightarrow> string"
  tr_parse :: "string \<Rightarrow> parsed_tx res"
  tr_signer :: "string \<Rightarrow> string res"
  tr_call :: "string \<Rightarrow> (string \<times> int) res"

definition identity_error :: string where
  "identity_error = ''Engine journal identity mismatch; manual review required''"

text \<open>The action and the match id of a job, both decoded from its bytes.\<close>

definition engineJobIdentity :: "tx_reader \<Rightarrow> engine_job \<Rightarrow> string \<Rightarrow> (string \<times> int) res" where
  "engineJobIdentity T job signer =
    rbind (tr_parse T (ej_raw job)) (\<lambda>tx.
    rbind (guard identity_error (tr_hash T (ej_raw job) = ej_hash job
      \<and> map_option lower (px_to tx) = Some (lower (ej_app job)) \<and> px_eip1559 tx \<and> px_chainId tx = 4242
      \<and> (case px_value tx of None \<Rightarrow> 0 | Some v \<Rightarrow> v) = 0 \<and> px_nonce tx = ej_nonce job)) (\<lambda>_.
    rbind (tr_signer T (ej_raw job)) (\<lambda>s.
    rbind (guard identity_error (lower s = lower signer)) (\<lambda>_.
    tr_call T (ej_raw job)))))"

record engine_receipt =
  er_hash :: "string option"
  er_status :: string
  er_blockHash :: string

definition engineReceiptOutcome :: "engine_receipt option \<Rightarrow> string \<Rightarrow> engine_status option res" where
  "engineReceiptOutcome receipt hash =
    (case receipt of None \<Rightarrow> Inr None
     | Some r \<Rightarrow>
       if map_option lower (er_hash r) \<noteq> Some (lower hash) then Inl ''Engine receipt hash mismatch''
       else if er_status r \<in> set [''success'', ''0x1'', ''1''] then Inr (Some EObserved)
       else if er_status r \<in> set [''reverted'', ''0x0'', ''0''] then Inr (Some EFailed)
       else Inr None)"

definition unresolved :: "engine_job \<Rightarrow> bool" where
  "unresolved j \<longleftrightarrow> ej_status j = EPending \<or> ej_status j = EQuarantined"

text \<open>The update of one row, guarded by the statuses it may still have.\<close>

definition update_job :: "(engine_job \<Rightarrow> bool) \<Rightarrow> string \<Rightarrow> (engine_job \<Rightarrow> engine_job) \<Rightarrow> engine_job list \<Rightarrow> engine_job list" where
  "update_job may i change jobs = map (\<lambda>j. if ej_id j = i \<and> may j then change j else j) jobs"

text \<open>The loop over the jobs that were unresolved when it began.  A receipt that cannot be read leaves its
  job; one of another hash ends the loop with its error.\<close>

fun reconcile_loop ::
    "(string \<Rightarrow> engine_receipt option res) \<Rightarrow> engine_job list \<Rightarrow> engine_job list \<Rightarrow> unit res \<times> engine_job list" where
  "reconcile_loop receipt [] jobs = (Inr (), jobs)"
| "reconcile_loop receipt (job # rest) jobs =
    (case receipt (ej_hash job) of Inl _ \<Rightarrow> reconcile_loop receipt rest jobs
     | Inr r \<Rightarrow>
       (case engineReceiptOutcome r (ej_hash job) of Inl e \<Rightarrow> (Inl e, jobs)
        | Inr None \<Rightarrow> reconcile_loop receipt rest jobs
        | Inr (Some outcome) \<Rightarrow>
          reconcile_loop receipt rest (update_job unresolved (ej_id job)
            (\<lambda>j. j\<lparr>ej_status := outcome,
              ej_resolution := Some (ByReceipt (ej_hash job) (er_blockHash (the r)) (er_status (the r)))\<rparr>) jobs)))"

definition reconcileEngineJobs :: "(string \<Rightarrow> engine_receipt option res) \<Rightarrow> engine_job list \<Rightarrow> unit res \<times> engine_job list" where
  "reconcileEngineJobs receipt jobs =
    reconcile_loop receipt (sort_key (\<lambda>j. (ej_epoch j, ej_nonce j)) (filter unresolved jobs)) jobs"

subsection \<open>Quarantine\<close>

record match_snapshot =
  ms_phase :: int
  ms_winner :: string
  ms_scoreA :: int
  ms_scoreB :: int
  ms_resultHash :: string

text \<open>\<open>live\<close> and \<open>settled\<close> are the state of the engine and the published state.\<close>

definition terminal_published :: "string \<Rightarrow> match_snapshot \<Rightarrow> match_snapshot \<Rightarrow> bool" where
  "terminal_published zeroHash live settled \<longleftrightarrow>
     ms_phase live = 3 \<and> ms_phase settled = 3 \<and> ms_resultHash live \<noteq> zeroHash \<and> ms_resultHash live = ms_resultHash settled
     \<and> lower (ms_winner live) = lower (ms_winner settled)
     \<and> ms_scoreA live = ms_scoreA settled \<and> ms_scoreB live = ms_scoreB settled"

fun quarantine_loop ::
    "tx_reader \<Rightarrow> string \<Rightarrow> int \<Rightarrow> string \<Rightarrow> (int \<Rightarrow> bool \<Rightarrow> match_snapshot res) \<Rightarrow> engine_job list \<Rightarrow> engine_job list
     \<Rightarrow> unit res \<times> engine_job list" where
  "quarantine_loop T signer epoch zeroHash snapshot [] jobs = (Inr (), jobs)"
| "quarantine_loop T signer epoch zeroHash snapshot (job # rest) jobs =
    (if ej_epoch job \<noteq> epoch then (Inl ''Unresolved command belongs to another epoch; review required'', jobs)
     else case engineJobIdentity T job signer of Inl e \<Rightarrow> (Inl e, jobs)
     | Inr (action, i) \<Rightarrow>
       if action \<noteq> ''tick'' then (Inl ''Uncertain non-tick command requires explicit recovery'', jobs)
       else case snapshot i False of Inl e \<Rightarrow> (Inl e, jobs)
       | Inr live \<Rightarrow>
         (case snapshot i True of Inl e \<Rightarrow> (Inl e, jobs)
          | Inr settled \<Rightarrow>
            if \<not> terminal_published zeroHash live settled
            then (Inl ''Uncertain tick has no matching terminal published result; recovery waits'', jobs)
            else quarantine_loop T signer epoch zeroHash snapshot rest
              (update_job (\<lambda>j. ej_status j = EPending) (ej_id job)
                (\<lambda>j. j\<lparr>ej_status := EQuarantined, ej_action := Some action, ej_match := Some i,
                  ej_resolution := Some (ByTerminal epoch (ms_resultHash live) (ms_winner live) (ms_scoreA live, ms_scoreB live))\<rparr>)
                jobs)))"

definition quarantineTerminalTicks ::
    "tx_reader \<Rightarrow> string \<Rightarrow> int \<Rightarrow> string \<Rightarrow> (int \<Rightarrow> bool \<Rightarrow> match_snapshot res) \<Rightarrow> engine_job list \<Rightarrow> unit res \<times> engine_job list" where
  "quarantineTerminalTicks T signer epoch zeroHash snapshot jobs =
    quarantine_loop T signer epoch zeroHash snapshot
      (sort_key ej_nonce (filter (\<lambda>j. ej_status j = EPending) jobs)) jobs"

text \<open>A job is resolved at most once, and only by a receipt of its own hash.\<close>

definition resolves :: "(string \<Rightarrow> engine_receipt option res) \<Rightarrow> engine_job list \<Rightarrow> engine_job \<Rightarrow> engine_job \<Rightarrow> bool" where
  "resolves receipt all j j' \<longleftrightarrow> j' = j \<or> unresolved j \<and> (\<exists>k \<in> set all. ej_id k = ej_id j \<and>
     (\<exists>r. receipt (ej_hash k) = Inr (Some r) \<and> map_option lower (er_hash r) = Some (lower (ej_hash k))
       \<and> engineReceiptOutcome (Some r) (ej_hash k) = Inr (Some (ej_status j'))
       \<and> ej_hash j' = ej_hash j \<and> ej_nonce j' = ej_nonce j \<and> ej_raw j' = ej_raw j \<and> ej_id j' = ej_id j
       \<and> ej_epoch j' = ej_epoch j \<and> ej_app j' = ej_app j))"

lemma outcome_resolved: "engineReceiptOutcome r hash = Inr (Some s) \<Longrightarrow> s = EObserved \<or> s = EFailed"
  by (auto simp add: engineReceiptOutcome_def split: option.splits if_split_asm)

lemma outcome_hash:
  "engineReceiptOutcome r hash = Inr (Some s) \<Longrightarrow> \<exists>x. r = Some x \<and> map_option lower (er_hash x) = Some (lower hash)"
  by (auto simp add: engineReceiptOutcome_def split: option.splits if_split_asm)

lemma reconcile_loop_resolves:
  "set todo \<subseteq> set all \<Longrightarrow> list_all2 (resolves receipt all) start jobs \<Longrightarrow>
   list_all2 (resolves receipt all) start (snd (reconcile_loop receipt todo jobs))"
proof (induction todo arbitrary: jobs)
  case (Cons job rest)
  show ?case
  proof (cases "\<exists>r outcome. receipt (ej_hash job) = Inr r \<and> engineReceiptOutcome r (ej_hash job) = Inr (Some outcome)")
    case False
    have "snd (reconcile_loop receipt (job # rest) jobs) \<in> {jobs, snd (reconcile_loop receipt rest jobs)}"
      using False by (auto split: sum.split option.split)
    then show ?thesis using Cons.IH [of jobs] Cons.prems by auto
  next
    case True
    then obtain r outcome where r: "receipt (ej_hash job) = Inr r" "engineReceiptOutcome r (ej_hash job) = Inr (Some outcome)" by blast
    obtain x where x: "r = Some x" "map_option lower (er_hash x) = Some (lower (ej_hash job))"
      using outcome_hash [OF r(2)] by blast
    let ?change = "\<lambda>j. j\<lparr>ej_status := outcome,
              ej_resolution := Some (ByReceipt (ej_hash job) (er_blockHash (the r)) (er_status (the r)))\<rparr>"
    have step: "resolves receipt all j (if ej_id k = ej_id job \<and> unresolved k then ?change k else k)"
      if jk: "resolves receipt all j k" for j k
    proof (cases "ej_id k = ej_id job \<and> unresolved k")
      case hit: True
      have "k = j"
        using jk hit by (auto simp add: resolves_def unresolved_def dest: outcome_resolved)
      then show ?thesis
        using hit r x Cons.prems(1) unfolding resolves_def by (intro disjI2 conjI bexI [of _ job]) auto
    next
      case False
      then show ?thesis using jk by (simp only: if_False)
    qed
    have "list_all2 (resolves receipt all) start (update_job unresolved (ej_id job) ?change jobs)"
      using Cons.prems(2) step unfolding update_job_def list_all2_map2 by (rule list_all2_mono)
    then show ?thesis using Cons.IH Cons.prems(1) r by simp
  qed
qed simp

lemma reconcile_resolves:
  "list_all2 (resolves receipt jobs) jobs (snd (reconcileEngineJobs receipt jobs))"
  unfolding reconcileEngineJobs_def
  by (rule reconcile_loop_resolves) (auto simp add: resolves_def list_all2_same)

text \<open>A job is only quarantined as a tick of this epoch whose match ended with the same published result.\<close>

lemma quarantine_loop_sound:
  "quarantine_loop T signer epoch zeroHash snapshot todo jobs = (Inr (), jobs') \<Longrightarrow> job \<in> set todo \<Longrightarrow>
   ej_epoch job = epoch \<and> (\<exists>i live settled. engineJobIdentity T job signer = Inr (''tick'', i)
     \<and> snapshot i False = Inr live \<and> snapshot i True = Inr settled \<and> terminal_published zeroHash live settled)"
proof (induction todo arbitrary: jobs)
  case (Cons k rest)
  then show ?case by (auto split: if_split_asm sum.split_asm prod.split_asm)
qed simp

subsection \<open>The binding of a match to its finance\<close>

record finance_worker =
  fw_financeId :: string
  fw_market :: string

record finance_binding =
  fb_match :: string
  fb_financeId :: string
  fb_market :: string

definition find_worker :: "finance_worker list \<Rightarrow> string \<Rightarrow> finance_worker res" where
  "find_worker workers i = (case find (\<lambda>w. fw_financeId w = i) workers of
     Some w \<Rightarrow> Inr w | None \<Rightarrow> Inl ''Unknown financial deployment'')"

definition lookup_binding :: "finance_binding list \<Rightarrow> string \<Rightarrow> finance_binding option" where
  "lookup_binding rows i = find (\<lambda>r. fb_match r = i) rows"

text \<open>The workers that have a book for the match, asked one after the other.\<close>

fun workers_with_book :: "(finance_worker \<Rightarrow> bool res) \<Rightarrow> finance_worker list \<Rightarrow> finance_worker list res" where
  "workers_with_book hasBook [] = Inr []"
| "workers_with_book hasBook (w # ws) = rbind (hasBook w) (\<lambda>b. rbind (workers_with_book hasBook ws) (\<lambda>rest.
     Inr (if b then w # rest else rest)))"

text \<open>\<open>concurrent\<close> is what another request inserted in the meantime; an insertion never replaces a row.\<close>

definition forMatch ::
    "finance_worker list \<Rightarrow> (finance_worker \<Rightarrow> bool res) \<Rightarrow> finance_binding option \<Rightarrow> string \<Rightarrow> finance_binding list
     \<Rightarrow> finance_worker res \<times> finance_binding list" where
  "forMatch workers hasBook concurrent i rows =
    (let bound = (\<lambda>row rows. (rbind (find_worker workers (fb_financeId row)) (\<lambda>w.
           if lower (fw_market w) \<noteq> fb_market row then Inl ''Match financial binding changed'' else Inr w), rows)) in
     case lookup_binding rows i of Some row \<Rightarrow> bound row rows
     | None \<Rightarrow>
       (case workers_with_book hasBook workers of Inl e \<Rightarrow> (Inl e, rows)
        | Inr existing \<Rightarrow>
          if length existing > 1 then (Inl ''Multiple markets exist for this match; operator review required'', rows)
          else
            let selected = (if existing = [] then last workers else hd existing);
                rows = (case concurrent of Some r \<Rightarrow> if fb_match r = i then rows @ [r] else rows | None \<Rightarrow> rows);
                rows = (if lookup_binding rows i = None
                  then rows @ [\<lparr>fb_match = i, fb_financeId = fw_financeId selected, fb_market = lower (fw_market selected)\<rparr>] else rows) in
            bound (the (lookup_binding rows i)) rows))"

text \<open>A match keeps its deployment: later requests find the row that was bound first and never another market.\<close>

lemma forMatch_keeps:
  assumes "lookup_binding rows i = Some row"
  shows "snd (forMatch workers hasBook concurrent i rows) = rows"
    and "fst (forMatch workers hasBook concurrent i rows) = Inr w \<Longrightarrow> fw_financeId w = fb_financeId row \<and> lower (fw_market w) = fb_market row"
  using assms by (auto simp add: forMatch_def find_worker_def Let_def find_Some_iff split: option.splits if_split_asm)

lemma lookup_append: "lookup_binding (rows @ more_rows) i = (case lookup_binding rows i of Some r \<Rightarrow> Some r | None \<Rightarrow> lookup_binding more_rows i)"
  unfolding lookup_binding_def by (induction rows) auto

lemma forMatch_binds:
  assumes "forMatch workers hasBook concurrent i rows = (Inr w, rows')"
  shows "\<exists>row. lookup_binding rows' i = Some row \<and> fb_financeId row = fw_financeId w \<and> fb_market row = lower (fw_market w)"
proof (cases "lookup_binding rows i")
  case (Some row)
  then show ?thesis using assms forMatch_keeps [OF Some, of workers hasBook concurrent] by fastforce
next
  case None
  obtain existing where e: "workers_with_book hasBook workers = Inr existing" "\<not> length existing > 1"
    using assms None by (auto simp add: forMatch_def Let_def split: sum.split_asm if_split_asm)
  define selected where "selected = (if existing = [] then last workers else hd existing)"
  define r1 where "r1 = (case concurrent of Some r \<Rightarrow> if fb_match r = i then rows @ [r] else rows | None \<Rightarrow> rows)"
  define r2 where "r2 = (if lookup_binding r1 i = None
    then r1 @ [\<lparr>fb_match = i, fb_financeId = fw_financeId selected, fb_market = lower (fw_market selected)\<rparr>] else r1)"
  have run: "forMatch workers hasBook concurrent i rows = (rbind (find_worker workers (fb_financeId (the (lookup_binding r2 i)))) (\<lambda>w.
      if lower (fw_market w) \<noteq> fb_market (the (lookup_binding r2 i)) then Inl ''Match financial binding changed'' else Inr w), r2)"
    using None e by (simp add: forMatch_def Let_def selected_def r1_def r2_def)
  have "lookup_binding r2 i \<noteq> None"
    by (auto simp add: r2_def lookup_append) (simp add: lookup_binding_def)
  then obtain row where row: "lookup_binding r2 i = Some row" by blast
  then show ?thesis using assms run by (auto simp add: find_worker_def res_simps find_Some_iff split: option.splits if_split_asm)
qed

end
