(* ===== verification/Rooms_Lifecycle.thy ===== *)
theory Rooms_Lifecycle
  imports Io_Monad Rooms_Status
begin

text \<open>
  \<^verbatim>\<open>relayer/src/rooms-lifecycle.ts\<close>: the cycle that drains, closes, finalizes and renews the engine of the
  rooms, with one journal of operator transactions.  The state holds the rows of the application in the two
  tables, the variables of the closure and the transactions that were sent, in order.  What the other parties
  answer in one cycle is a record; each is asked at most once in it, the final results once per match.  Times
  are seconds, the age of a stage milliseconds; a transaction is known by the id of its journal entry.
\<close>

datatype stage = Playing | Draining | Challenge | Finalizing | Renewing | Starting
datatype job_state = JobPending | JobConfirmed | JobFailed
datatype operator_call = CloseEngine | ReleaseStake | FinalizeResult int | RenewEngine

record operator_job =
  oj_id :: string
  oj_call :: operator_call
  oj_nonce :: int
  oj_state :: job_state

record lifecycle =
  lc_stage :: stage
  lc_changed :: int
  lc_epoch :: int
  lc_jobs :: "operator_job list"
  lc_sent :: "string list"
  lc_error :: string
  lc_healthy :: bool
  lc_ready :: "int list"

record hub_delegation =
  hd_status :: int
  hd_epoch :: int
  hd_expiresAt :: int
  hd_stakeUnlockAt :: int
  hd_batchIndex :: int

record node_view =
  nv_engine :: engine_node
  nv_pendingDiffs :: int
  nv_committed :: int

text \<open>A receipt: none yet (or it could not be read), or whether it succeeded.\<close>

record cycle_answers =
  ca_now :: int
  ca_nowMs :: int
  ca_locked :: "bool res"
  ca_receipt :: "string \<Rightarrow> bool option"
  ca_send :: "string \<Rightarrow> unit res"
  ca_delegation :: "hub_delegation res"
  ca_node :: "node_view res"
  ca_active :: "int res"
  ca_beforeClose :: "unit res"
  ca_fencedNode :: "node_view res"
  ca_fencedActive :: "int res"
  ca_activeCount :: "int res"
  ca_uncertain :: "bool res"
  ca_pendingNonce :: "int res"
  ca_latestNonce :: "int res"
  ca_simulate :: "unit res"
  ca_hosted :: "unit res"
  ca_results :: "(int \<times> int res) list res"
  ca_hold :: bool
  ca_beforeRenew :: "unit res"

type_synonym 'a lifecycle_io = "('a, lifecycle) io"

definition initial_lifecycle :: lifecycle where
  "initial_lifecycle = \<lparr>lc_stage = Playing, lc_changed = 0, lc_epoch = 0, lc_jobs = [], lc_sent = [], lc_error = [],
     lc_healthy = False, lc_ready = []\<rparr>"

definition move_stage :: "cycle_answers \<Rightarrow> stage \<Rightarrow> unit lifecycle_io" where
  "move_stage C s = modify (\<lambda>w. w\<lparr>lc_stage := s, lc_changed := ca_nowMs C\<rparr>)"

definition set_state :: "string \<Rightarrow> job_state \<Rightarrow> lifecycle \<Rightarrow> lifecycle" where
  "set_state i st w = w\<lparr>lc_jobs := map (\<lambda>j. if oj_id j = i then j\<lparr>oj_state := st\<rparr> else j) (lc_jobs w)\<rparr>"

definition send_raw :: "cycle_answers \<Rightarrow> string \<Rightarrow> unit lifecycle_io" where
  "send_raw C i = ibind (modify (\<lambda>w. w\<lparr>lc_sent := lc_sent w @ [i]\<rparr>)) (\<lambda>_. lift (ca_send C i))"

definition pending_job :: "lifecycle \<Rightarrow> operator_job option" where
  "pending_job w = find (\<lambda>j. oj_state j = JobPending) (lc_jobs w)"

subsection \<open>The operator's transactions\<close>

text \<open>A new entry is only journaled when no other is pending and the account has no transaction elsewhere.\<close>

definition new_job :: "cycle_answers \<Rightarrow> string \<Rightarrow> operator_call \<Rightarrow> operator_job lifecycle_io" where
  "new_job C i call =
    ibind (gets pending_job) (\<lambda>p.
    ibind (iguard ''An operator transaction is awaiting confirmation'' (p = None)) (\<lambda>_.
    ibind (lift (ca_pendingNonce C)) (\<lambda>n.
    ibind (lift (ca_latestNonce C)) (\<lambda>latest.
    ibind (iguard ''Operator account is being used elsewhere'' (n = latest)) (\<lambda>_.
    ibind (lift (ca_simulate C)) (\<lambda>_.
    let job = \<lparr>oj_id = i, oj_call = call, oj_nonce = n, oj_state = JobPending\<rparr> in
    ibind (modify (\<lambda>w. w\<lparr>lc_jobs := lc_jobs w @ [job]\<rparr>)) (\<lambda>_. ret job)))))))"

definition submit :: "cycle_answers \<Rightarrow> string \<Rightarrow> operator_call \<Rightarrow> bool lifecycle_io" where
  "submit C i call =
    ibind (gets (\<lambda>w. find (\<lambda>j. oj_id j = i) (lc_jobs w))) (\<lambda>known.
    ibind (case known of Some j \<Rightarrow> ret j | None \<Rightarrow> new_job C i call) (\<lambda>job.
    if oj_state job = JobFailed then throw ''Operator transaction reverted; inspect its receipt before recovery''
    else if oj_state job = JobConfirmed then ret True
    else case ca_receipt C i of
      None \<Rightarrow> ibind (send_raw C i) (\<lambda>_. ret False)
    | Some ok \<Rightarrow>
        ibind (modify (set_state i (if ok then JobConfirmed else JobFailed))) (\<lambda>_.
        if \<not> ok then throw ''Operator transaction reverted'' else ret True)))"

text \<open>The first step of a cycle: a pending transaction is sent again, or its receipt recorded.  The result
  says whether the cycle goes on.\<close>

definition settle_pending :: "cycle_answers \<Rightarrow> bool lifecycle_io" where
  "settle_pending C =
    ibind (gets pending_job) (\<lambda>p. case p of None \<Rightarrow> ret True
    | Some job \<Rightarrow>
      (case ca_receipt C (oj_id job) of
         None \<Rightarrow> ibind (send_raw C (oj_id job)) (\<lambda>_. ret False)
       | Some ok \<Rightarrow>
         ibind (modify (set_state (oj_id job) (if ok then JobConfirmed else JobFailed))) (\<lambda>_.
         if \<not> ok then throw ''Operator transaction reverted; review required'' else ret True)))"

subsection \<open>The phases of a cycle\<close>

definition become_ready :: "hub_delegation \<Rightarrow> unit lifecycle_io" where
  "become_ready d = modify (\<lambda>w. w\<lparr>lc_healthy := True, lc_ready := lc_ready w @ [hd_epoch d]\<rparr>)"

definition delegation_view :: "hub_delegation \<Rightarrow> delegation_status" where
  "delegation_view d = \<lparr>ds_status = hd_status d, ds_expiresAt = hd_expiresAt d, ds_epoch = hd_epoch d\<rparr>"

text \<open>Starting: the node must have loaded the epoch and its publication must agree with the chain.\<close>

definition starting_phase :: "cycle_answers \<Rightarrow> string \<Rightarrow> hub_delegation \<Rightarrow> unit lifecycle_io" where
  "starting_phase C app d =
    ibind (gets lc_stage) (\<lambda>st.
    ibind (if st \<noteq> Starting then move_stage C Starting else ret ()) (\<lambda>_.
    case ca_node C of
      Inr node \<Rightarrow>
        if eg_epoch (nv_engine node) = hd_epoch d then
          ibind (lift (assertRoomsEngineAvailable app (nv_engine node) (delegation_view d) (ca_now C))) (\<lambda>_.
          ibind (lift (ca_active C)) (\<lambda>_.
          ibind (iguard ''Hosted publication differs from Monad; awaiting synchronization'' (nv_committed node = hd_batchIndex d)) (\<lambda>_.
          ibind (move_stage C Playing) (\<lambda>_. become_ready d))))
        else ibind (lift (ca_hosted C)) (\<lambda>_. modify (\<lambda>w. w\<lparr>lc_error :=
          ''Hosted engine has not confirmed epoch '' @ decimal (hd_epoch d) @ ''; awaiting operator startup''\<rparr>))
    | Inl _ \<Rightarrow> ibind (lift (ca_hosted C)) (\<lambda>_. modify (\<lambda>w. w\<lparr>lc_error :=
          ''Hosted engine has not confirmed epoch '' @ decimal (hd_epoch d) @ ''; awaiting operator startup''\<rparr>))))"

definition blocker :: "cycle_answers \<Rightarrow> hub_delegation \<Rightarrow> int \<Rightarrow> node_view \<Rightarrow> string" where
  "blocker C d active node = roomsDrainBlocker (hd_expiresAt d \<le> ca_now C) active (nv_pendingDiffs node) (eg_epoch (nv_engine node) = hd_epoch d)"

text \<open>Closing: the drain is checked, the writers are fenced, and the drain is checked again.\<close>

definition close_phase :: "cycle_answers \<Rightarrow> string \<Rightarrow> hub_delegation \<Rightarrow> unit lifecycle_io" where
  "close_phase C prefix d =
    ibind (lift (ca_node C)) (\<lambda>node.
    ibind (lift (ca_active C)) (\<lambda>active.
    ibind (modify (\<lambda>w. w\<lparr>lc_error := blocker C d active node\<rparr>)) (\<lambda>_.
    if blocker C d active node \<noteq> [] then ret ()
    else
      ibind (lift (ca_beforeClose C)) (\<lambda>_.
      ibind (lift (ca_fencedNode C)) (\<lambda>fenced.
      ibind (lift (ca_fencedActive C)) (\<lambda>fencedActive.
      ibind (iguard (blocker C d fencedActive fenced) (blocker C d fencedActive fenced = [])) (\<lambda>_.
      ibind (lift (ca_activeCount C)) (\<lambda>published.
      ibind (iguard ''Published match changed during closure preparation'' (published = 0)) (\<lambda>_.
      ibind (lift (ca_uncertain C)) (\<lambda>uncertain.
      if uncertain then modify (\<lambda>w. w\<lparr>lc_error :=
        ''An engine transaction remains unconfirmed; reconcile its receipt and nonce before renewal''\<rparr>)
      else ibind (submit C (prefix @ '':close'') CloseEngine) (\<lambda>closed.
        if closed then move_stage C Challenge else ret ())))))))))))"

definition active_phase :: "cycle_answers \<Rightarrow> string \<Rightarrow> string \<Rightarrow> hub_delegation \<Rightarrow> unit lifecycle_io" where
  "active_phase C app prefix d =
    ibind (gets lc_stage) (\<lambda>st.
    if st = Renewing \<or> st = Starting then starting_phase C app d
    else if st = Playing \<and> hd_expiresAt d > ca_now C + 3600 then become_ready d
    else
      ibind (if st \<noteq> Draining then move_stage C Draining else ret ()) (\<lambda>_.
      ibind (gets lc_changed) (\<lambda>changed.
      if ca_nowMs C - changed < 60000 then ret () else close_phase C prefix d)))"

definition exiting_phase :: "cycle_answers \<Rightarrow> string \<Rightarrow> hub_delegation \<Rightarrow> unit lifecycle_io" where
  "exiting_phase C prefix d =
    ibind (gets lc_stage) (\<lambda>st.
    ibind (if st \<noteq> Challenge then move_stage C Challenge else ret ()) (\<lambda>_.
    if ca_now C < hd_stakeUnlockAt d then ret ()
    else ibind (submit C (prefix @ '':release'') ReleaseStake) (\<lambda>released.
      if released then move_stage C Finalizing else ret ())))"

text \<open>The first result that is not final yet.\<close>

fun open_result :: "(int \<times> int res) list \<Rightarrow> int option res" where
  "open_result [] = Inr None"
| "open_result ((i, final) # rest) = rbind final (\<lambda>f. if f = 0 then Inr (Some i) else open_result rest)"

definition renew_phase :: "cycle_answers \<Rightarrow> string \<Rightarrow> unit lifecycle_io" where
  "renew_phase C prefix =
    ibind (lift (ca_beforeRenew C)) (\<lambda>_.
    ibind (submit C (prefix @ '':renew'') RenewEngine) (\<lambda>_.
    modify (\<lambda>w. w\<lparr>lc_error := []\<rparr>)))"

definition closed_phase :: "cycle_answers \<Rightarrow> string \<Rightarrow> unit lifecycle_io" where
  "closed_phase C prefix =
    ibind (gets lc_stage) (\<lambda>st.
    if st = Playing then throw ''Delegation ended outside the lifecycle journal; review before renewal''
    else if st = Renewing then renew_phase C prefix
    else
      ibind (if st \<noteq> Finalizing then move_stage C Finalizing else ret ()) (\<lambda>_.
      ibind (lift (ca_results C)) (\<lambda>results.
      ibind (lift (open_result results)) (\<lambda>open.
      case open of
        Some i \<Rightarrow> ibind (submit C (prefix @ '':final:'' @ decimal i) (FinalizeResult i)) (\<lambda>_. ret ())
      | None \<Rightarrow> if ca_hold C then ret () else ibind (move_stage C Renewing) (\<lambda>_. renew_phase C prefix)))))"

definition dispatch :: "cycle_answers \<Rightarrow> string \<Rightarrow> hub_delegation \<Rightarrow> unit lifecycle_io" where
  "dispatch C app d =
    ibind (modify (\<lambda>w. w\<lparr>lc_epoch := (if hd_epoch d > 0 then hd_epoch d else lc_epoch w)\<rparr>)) (\<lambda>_.
    ibind (gets (\<lambda>w. app @ '':'' @ decimal (lc_epoch w))) (\<lambda>prefix.
    ibind (modify (\<lambda>w. w\<lparr>lc_healthy := False, lc_error := []\<rparr>)) (\<lambda>_.
    if hd_status d = 3 then modify (\<lambda>w. w\<lparr>lc_error := ''Delegation challenged; automatic renewal is suspended''\<rparr>)
    else if hd_status d = 1 then active_phase C app prefix d
    else if hd_status d = 2 then exiting_phase C prefix d
    else if hd_status d \<noteq> 0 then ret ()
    else closed_phase C prefix)))"

definition cycle_body :: "cycle_answers \<Rightarrow> string \<Rightarrow> unit lifecycle_io" where
  "cycle_body C app =
    ibind (lift (ca_locked C)) (\<lambda>locked.
    if \<not> locked then ret ()
    else ibind (settle_pending C) (\<lambda>go_on.
      if \<not> go_on then ret ()
      else ibind (lift (ca_delegation C)) (\<lambda>d. dispatch C app d)))"

definition first_line_of :: "string \<Rightarrow> string" where
  "first_line_of s = take 180 (takeWhile (\<lambda>c. (of_char c :: int) \<noteq> 10) s)"

definition lifecycle_cycle :: "string \<Rightarrow> cycle_answers \<Rightarrow> lifecycle \<Rightarrow> lifecycle" where
  "lifecycle_cycle app C w =
    (case cycle_body C app w of
       (Inr _, w') \<Rightarrow> w'
     | (Inl e, w') \<Rightarrow> w'\<lparr>lc_healthy := False, lc_error := first_line_of e\<rparr>)"

definition lifecycle_available :: "lifecycle \<Rightarrow> bool" where
  "lifecycle_available w \<longleftrightarrow> lc_stage w = Playing \<and> lc_healthy w"

subsection \<open>The journal is safe\<close>

definition job_key :: "operator_job \<Rightarrow> string \<times> operator_call \<times> int" where
  "job_key j = (oj_id j, oj_call j, oj_nonce j)"

definition journal_ok :: "lifecycle \<Rightarrow> bool" where
  "journal_ok w \<longleftrightarrow> length (filter (\<lambda>j. oj_state j = JobPending) (lc_jobs w)) \<le> 1
     \<and> distinct (map oj_id (lc_jobs w)) \<and> set (lc_sent w) \<subseteq> set (map oj_id (lc_jobs w))"

text \<open>Entries are never removed or replaced, and a resolved one never changes.\<close>

definition journal_grows :: "operator_job list \<Rightarrow> operator_job list \<Rightarrow> bool" where
  "journal_grows old js \<longleftrightarrow> (\<exists>new. map job_key js = map job_key old @ new)
     \<and> (\<forall>j \<in> set old. oj_state j \<noteq> JobPending \<longrightarrow> j \<in> set js)"

definition journal_from :: "operator_job list \<Rightarrow> lifecycle \<Rightarrow> bool" where
  "journal_from old w \<longleftrightarrow> journal_ok w \<and> journal_grows old (lc_jobs w)"

lemma journal_from_cong:
  "lc_jobs w' = lc_jobs w \<Longrightarrow> set (lc_sent w') \<subseteq> set (lc_sent w) \<union> set (map oj_id (lc_jobs w)) \<Longrightarrow>
   journal_from old w \<Longrightarrow> journal_from old w'"
  by (auto simp add: journal_from_def journal_ok_def)

lemma journal_from_set_state:
  assumes "journal_from old w" "j \<in> set (lc_jobs w)" "oj_state j = JobPending" "st \<noteq> JobPending"
  shows "journal_from old (set_state (oj_id j) st w)"
proof -
  let ?f = "\<lambda>k. if oj_id k = oj_id j then k\<lparr>oj_state := st\<rparr> else k"
  have d: "distinct (map oj_id (lc_jobs w))" using assms(1) by (simp add: journal_from_def journal_ok_def)
  have only: "k = j" if "k \<in> set (lc_jobs w)" "oj_id k = oj_id j" for k
    using d assms(2) that by (meson distinct_map inj_onD)
  have keys: "map job_key (map ?f (lc_jobs w)) = map job_key (lc_jobs w)" "map oj_id (map ?f (lc_jobs w)) = map oj_id (lc_jobs w)"
    by (auto simp add: job_key_def)
  have "length (filter (\<lambda>k. oj_state k = JobPending) (map ?f xs)) \<le> length (filter (\<lambda>k. oj_state k = JobPending) xs)" for xs
    using assms(4) by (induction xs) auto
  note fewer = this
  have ok: "length (filter (\<lambda>j. oj_state j = JobPending) (lc_jobs w)) \<le> 1" "set (lc_sent w) \<subseteq> set (map oj_id (lc_jobs w))"
    using assms(1) by (simp_all add: journal_from_def journal_ok_def)
  have jobs: "lc_jobs (set_state (oj_id j) st w) = map ?f (lc_jobs w)" "lc_sent (set_state (oj_id j) st w) = lc_sent w"
    by (simp_all add: set_state_def)
  have "journal_ok (set_state (oj_id j) st w)"
    unfolding journal_ok_def jobs keys(2)
    by (intro conjI) (rule order_trans [OF fewer ok(1)], rule d, rule ok(2))
  moreover have "k \<in> set (map ?f (lc_jobs w))" if "k \<in> set old" "oj_state k \<noteq> JobPending" for k
  proof -
    have k: "k \<in> set (lc_jobs w)" using assms(1) that by (auto simp add: journal_from_def journal_grows_def)
    have "oj_id k \<noteq> oj_id j" using only [OF k] assms(3) that(2) by metis
    then have "k = ?f k" by simp
    then show ?thesis unfolding set_map by (rule image_eqI [OF _ k])
  qed
  ultimately show ?thesis
    using assms(1) keys(1) unfolding journal_from_def journal_grows_def set_state_def by (simp del: map_map)
qed

lemma journal_from_append:
  assumes "journal_from old w" "pending_job w = None" "i \<notin> set (map oj_id (lc_jobs w))"
  shows "journal_from old (w\<lparr>lc_jobs := lc_jobs w @ [\<lparr>oj_id = i, oj_call = call, oj_nonce = n, oj_state = JobPending\<rparr>]\<rparr>)"
proof -
  have "filter (\<lambda>j. oj_state j = JobPending) (lc_jobs w) = []"
    using assms(2) by (simp add: pending_job_def find_None_iff filter_empty_conv)
  then show ?thesis using assms by (auto simp add: journal_from_def journal_ok_def journal_grows_def)
qed

lemma triple_never: "(\<And>w. \<not> P w) \<Longrightarrow> triple P m Q E"
  by (simp add: triple_def)

lemma keeps_triple: "triple P m (\<lambda>_. P) P \<Longrightarrow> keeps P m"
  by (simp add: keeps_def)

lemma keeps_move_stage: "keeps (journal_from old) (move_stage C s)"
  unfolding move_stage_def by (intro keeps_modify) (erule journal_from_cong [rotated 2]; simp)

lemma keeps_field: "(\<And>w. lc_jobs (h w) = lc_jobs w \<and> lc_sent (h w) = lc_sent w) \<Longrightarrow> keeps (journal_from old) (modify h)"
  by (intro keeps_modify) (erule journal_from_cong [rotated 2]; simp)

text \<open>Sending an entry of the journal, and recording its receipt.\<close>

lemma send_known:
  "triple (\<lambda>w. journal_from old w \<and> i \<in> set (map oj_id (lc_jobs w))) (send_raw C i) (\<lambda>_. journal_from old) (journal_from old)"
  unfolding send_raw_def
proof (rule triple_bind [of _ _ "\<lambda>_. journal_from old"])
  show "triple (\<lambda>w. journal_from old w \<and> i \<in> set (map oj_id (lc_jobs w))) (modify (\<lambda>w. w\<lparr>lc_sent := lc_sent w @ [i]\<rparr>))
    (\<lambda>_. journal_from old) (journal_from old)"
    by (rule triple_modify, erule conjE, rule journal_from_cong [rotated 2], assumption) auto
  show "triple (journal_from old) (lift (ca_send C i)) (\<lambda>_. journal_from old) (journal_from old)" for x
    by (rule triple_lift) simp_all
qed

definition has_job :: "operator_job list \<Rightarrow> operator_job \<Rightarrow> lifecycle \<Rightarrow> bool" where
  "has_job old j w \<longleftrightarrow> journal_from old w \<and> j \<in> set (lc_jobs w)"

lemma resolve_known:
  assumes "oj_state j = JobPending"
  shows "triple (has_job old j)
    (case ca_receipt C (oj_id j) of
      None \<Rightarrow> ibind (send_raw C (oj_id j)) (\<lambda>_. ret False)
    | Some ok \<Rightarrow> ibind (modify (set_state (oj_id j) (if ok then JobConfirmed else JobFailed))) (\<lambda>_.
        if \<not> ok then throw msg else ret True))
    (\<lambda>_. journal_from old) (journal_from old)"
proof (cases "ca_receipt C (oj_id j)")
  case None
  have "triple (has_job old j) (send_raw C (oj_id j)) (\<lambda>_. journal_from old) (journal_from old)"
    by (rule triple_weaken [OF send_known]) (auto simp add: has_job_def)
  then have "triple (has_job old j) (ibind (send_raw C (oj_id j)) (\<lambda>_. ret False)) (\<lambda>_. journal_from old) (journal_from old)"
    by (rule triple_bind) (rule triple_ret)
  then show ?thesis using None by simp
next
  case (Some ok)
  have "triple (has_job old j) (modify (set_state (oj_id j) (if ok then JobConfirmed else JobFailed)))
      (\<lambda>_. journal_from old) (journal_from old)"
    by (rule triple_modify) (use assms journal_from_set_state in \<open>auto simp add: has_job_def\<close>)
  then have "triple (has_job old j) (ibind (modify (set_state (oj_id j) (if ok then JobConfirmed else JobFailed))) (\<lambda>_.
        if \<not> ok then throw msg else ret True)) (\<lambda>_. journal_from old) (journal_from old)"
    by (rule triple_bind) (intro triple_if triple_throw triple_ret)
  then show ?thesis using Some by simp
qed

lemma has_job_from: "has_job old j w \<Longrightarrow> journal_from old w"
  by (simp add: has_job_def)

lemma find_known: "find (\<lambda>j. oj_id j = i) js = Some j \<Longrightarrow> j \<in> set js \<and> oj_id j = i"
  by (auto simp add: find_Some_iff)

lemma keeps_settle: "keeps (journal_from old) (settle_pending C)"
  unfolding settle_pending_def keeps_def
proof (rule triple_bind [of _ _ "\<lambda>p w. journal_from old w \<and> pending_job w = p"])
  show "triple (journal_from old) (gets pending_job) (\<lambda>p w. journal_from old w \<and> pending_job w = p) (journal_from old)"
    by (rule triple_gets) simp
  fix p
  show "triple (\<lambda>w. journal_from old w \<and> pending_job w = p) (case p of None \<Rightarrow> ret True
    | Some job \<Rightarrow> (case ca_receipt C (oj_id job) of
         None \<Rightarrow> ibind (send_raw C (oj_id job)) (\<lambda>_. ret False)
       | Some ok \<Rightarrow> ibind (modify (set_state (oj_id job) (if ok then JobConfirmed else JobFailed))) (\<lambda>_.
         if \<not> ok then throw ''Operator transaction reverted; review required'' else ret True)))
    (\<lambda>_. journal_from old) (journal_from old)"
  proof (cases p)
    case None
    then show ?thesis by (simp, intro triple_ret) simp
  next
    case (Some j)
    show ?thesis
    proof (cases "oj_state j = JobPending")
      case True
      show ?thesis unfolding Some option.case
        by (rule triple_weaken [OF resolve_known [OF True]])
          (auto simp add: has_job_def pending_job_def find_Some_iff)
    next
      case False
      then have "\<not> (journal_from old w \<and> pending_job w = p)" for w
        unfolding Some by (auto simp add: pending_job_def find_Some_iff)
      then show ?thesis by (rule triple_never)
    qed
  qed
qed

lemma keeps_triple_D: "keeps P m \<Longrightarrow> triple P m (\<lambda>_. P) P"
  by (simp add: keeps_def)

lemma new_job_has:
  "triple (\<lambda>w. journal_from old w \<and> find (\<lambda>j. oj_id j = i) (lc_jobs w) = None) (new_job C i call)
    (\<lambda>j w. has_job old j w \<and> oj_id j = i) (journal_from old)"
proof -
  let ?R = "\<lambda>w. journal_from old w \<and> i \<notin> set (map oj_id (lc_jobs w))"
  let ?S = "\<lambda>w. ?R w \<and> pending_job w = None"
  have lifted: "triple ?S (lift r) (\<lambda>_. ?S) (journal_from old)" for r :: "'x res"
    by (rule triple_lift) auto
  have guarded: "triple ?S (iguard e b) (\<lambda>_. ?S) (journal_from old)" for e b
    by (rule triple_iguard) auto
  have "triple ?R (new_job C i call) (\<lambda>j w. has_job old j w \<and> oj_id j = i) (journal_from old)"
    unfolding new_job_def Let_def
  proof (rule triple_bind [of _ _ "\<lambda>p w. ?R w \<and> pending_job w = p"])
    show "triple ?R (gets pending_job) (\<lambda>p w. ?R w \<and> pending_job w = p) (journal_from old)"
      by (rule triple_gets) simp
    fix p
    show "triple (\<lambda>w. ?R w \<and> pending_job w = p)
      (ibind (iguard ''An operator transaction is awaiting confirmation'' (p = None)) (\<lambda>_.
       ibind (lift (ca_pendingNonce C)) (\<lambda>n. ibind (lift (ca_latestNonce C)) (\<lambda>latest.
       ibind (iguard ''Operator account is being used elsewhere'' (n = latest)) (\<lambda>_. ibind (lift (ca_simulate C)) (\<lambda>_.
       ibind (modify (\<lambda>w. w\<lparr>lc_jobs := lc_jobs w @ [\<lparr>oj_id = i, oj_call = call, oj_nonce = n, oj_state = JobPending\<rparr>]\<rparr>))
         (\<lambda>_. ret \<lparr>oj_id = i, oj_call = call, oj_nonce = n, oj_state = JobPending\<rparr>)))))))
      (\<lambda>j w. has_job old j w \<and> oj_id j = i) (journal_from old)"
    proof (rule triple_bind [of _ _ "\<lambda>_. ?S"])
      show "triple (\<lambda>w. ?R w \<and> pending_job w = p) (iguard ''An operator transaction is awaiting confirmation'' (p = None))
        (\<lambda>_. ?S) (journal_from old)" by (rule triple_iguard) auto
    next
      fix u
      show "triple ?S (ibind (lift (ca_pendingNonce C)) (\<lambda>n. ibind (lift (ca_latestNonce C)) (\<lambda>latest.
       ibind (iguard ''Operator account is being used elsewhere'' (n = latest)) (\<lambda>_. ibind (lift (ca_simulate C)) (\<lambda>_.
       ibind (modify (\<lambda>w. w\<lparr>lc_jobs := lc_jobs w @ [\<lparr>oj_id = i, oj_call = call, oj_nonce = n, oj_state = JobPending\<rparr>]\<rparr>))
         (\<lambda>_. ret \<lparr>oj_id = i, oj_call = call, oj_nonce = n, oj_state = JobPending\<rparr>))))))
        (\<lambda>j w. has_job old j w \<and> oj_id j = i) (journal_from old)"
      proof (intro triple_bind [OF lifted] triple_bind [OF guarded])
        fix n
        let ?j = "\<lparr>oj_id = i, oj_call = call, oj_nonce = n, oj_state = JobPending\<rparr>"
        have "triple ?S (modify (\<lambda>w. w\<lparr>lc_jobs := lc_jobs w @ [?j]\<rparr>)) (\<lambda>_. has_job old ?j) (journal_from old)"
          by (rule triple_modify) (auto simp add: has_job_def intro!: journal_from_append)
        then show "triple ?S (ibind (modify (\<lambda>w. w\<lparr>lc_jobs := lc_jobs w @ [?j]\<rparr>)) (\<lambda>_. ret ?j))
          (\<lambda>j w. has_job old j w \<and> oj_id j = i) (journal_from old)"
          by (rule triple_bind) (rule triple_ret; simp)
      qed
    qed
  qed
  then show ?thesis by (rule triple_weaken) (auto simp add: find_None_iff)
qed

lemma keeps_submit: "keeps (journal_from old) (submit C i call)"
  unfolding submit_def keeps_def
proof (rule triple_bind [of _ _ "\<lambda>known w. journal_from old w \<and> find (\<lambda>j. oj_id j = i) (lc_jobs w) = known"])
  show "triple (journal_from old) (gets (\<lambda>w. find (\<lambda>j. oj_id j = i) (lc_jobs w)))
    (\<lambda>known w. journal_from old w \<and> find (\<lambda>j. oj_id j = i) (lc_jobs w) = known) (journal_from old)"
    by (rule triple_gets) simp
  fix known
  have job: "triple (\<lambda>w. journal_from old w \<and> find (\<lambda>j. oj_id j = i) (lc_jobs w) = known)
      (case known of Some j \<Rightarrow> ret j | None \<Rightarrow> new_job C i call) (\<lambda>j w. has_job old j w \<and> oj_id j = i) (journal_from old)"
  proof (cases known)
    case None
    then show ?thesis using new_job_has by simp
  next
    case (Some j)
    then show ?thesis by (simp, intro triple_ret) (auto simp add: has_job_def dest: find_known)
  qed
  show "triple (\<lambda>w. journal_from old w \<and> find (\<lambda>j. oj_id j = i) (lc_jobs w) = known)
    (ibind (case known of Some j \<Rightarrow> ret j | None \<Rightarrow> new_job C i call) (\<lambda>job.
    if oj_state job = JobFailed then throw ''Operator transaction reverted; inspect its receipt before recovery''
    else if oj_state job = JobConfirmed then ret True
    else case ca_receipt C i of
      None \<Rightarrow> ibind (send_raw C i) (\<lambda>_. ret False)
    | Some ok \<Rightarrow>
        ibind (modify (set_state i (if ok then JobConfirmed else JobFailed))) (\<lambda>_.
        if \<not> ok then throw ''Operator transaction reverted'' else ret True)))
    (\<lambda>_. journal_from old) (journal_from old)"
  proof (rule triple_bind [OF job])
    fix j
    show "triple (\<lambda>w. has_job old j w \<and> oj_id j = i)
      (if oj_state j = JobFailed then throw ''Operator transaction reverted; inspect its receipt before recovery''
       else if oj_state j = JobConfirmed then ret True
       else case ca_receipt C i of
         None \<Rightarrow> ibind (send_raw C i) (\<lambda>_. ret False)
       | Some ok \<Rightarrow> ibind (modify (set_state i (if ok then JobConfirmed else JobFailed))) (\<lambda>_.
           if \<not> ok then throw ''Operator transaction reverted'' else ret True))
      (\<lambda>_. journal_from old) (journal_from old)"
    proof (intro triple_if)
      show "triple (\<lambda>w. has_job old j w \<and> oj_id j = i) (throw e) (\<lambda>_. journal_from old) (journal_from old)" for e
        by (rule triple_throw) (blast intro: has_job_from)
      show "triple (\<lambda>w. has_job old j w \<and> oj_id j = i) (ret True) (\<lambda>_. journal_from old) (journal_from old)"
        by (rule triple_ret) (blast intro: has_job_from)
      assume "oj_state j \<noteq> JobFailed" "oj_state j \<noteq> JobConfirmed"
      then have pending: "oj_state j = JobPending" by (cases "oj_state j") simp_all
      show "triple (\<lambda>w. has_job old j w \<and> oj_id j = i) (case ca_receipt C i of
         None \<Rightarrow> ibind (send_raw C i) (\<lambda>_. ret False)
       | Some ok \<Rightarrow> ibind (modify (set_state i (if ok then JobConfirmed else JobFailed))) (\<lambda>_.
           if \<not> ok then throw ''Operator transaction reverted'' else ret True)) (\<lambda>_. journal_from old) (journal_from old)"
      proof (cases "oj_id j = i")
        case True
        show ?thesis by (rule triple_weaken [OF resolve_known [OF pending, of old C "''Operator transaction reverted''", unfolded True]]) blast+
      qed (simp add: triple_def)
    qed
  qed
qed

lemmas lifecycle_rules = keeps_basic keeps_bind keeps_if keeps_option keeps_move_stage keeps_submit keeps_settle

lemma keeps_result: "(\<And>x. r = Inr x \<Longrightarrow> keeps P (f x)) \<Longrightarrow> (\<And>e. r = Inl e \<Longrightarrow> keeps P (g e)) \<Longrightarrow>
   keeps P (case r of Inr x \<Rightarrow> f x | Inl e \<Rightarrow> g e)"
  by (cases r) simp_all

lemma keeps_ready: "keeps (journal_from old) (become_ready d)"
  unfolding become_ready_def by (rule keeps_field) simp

lemma keeps_starting: "keeps (journal_from old) (starting_phase C app d)"
  unfolding starting_phase_def
  by (intro lifecycle_rules keeps_ready keeps_result keeps_field) simp_all

lemma keeps_close: "keeps (journal_from old) (close_phase C prefix d)"
  unfolding close_phase_def by (intro lifecycle_rules keeps_field) simp_all

lemma keeps_active: "keeps (journal_from old) (active_phase C app prefix d)"
  unfolding active_phase_def by (intro lifecycle_rules keeps_ready keeps_starting keeps_close)

lemma keeps_exiting: "keeps (journal_from old) (exiting_phase C prefix d)"
  unfolding exiting_phase_def by (intro lifecycle_rules)

lemma keeps_renew: "keeps (journal_from old) (renew_phase C prefix)"
  unfolding renew_phase_def by (intro lifecycle_rules keeps_field) simp_all

lemma keeps_closed: "keeps (journal_from old) (closed_phase C prefix)"
  unfolding closed_phase_def by (intro lifecycle_rules keeps_renew)

lemma keeps_dispatch: "keeps (journal_from old) (dispatch C app d)"
  unfolding dispatch_def
  by (intro lifecycle_rules keeps_field keeps_active keeps_exiting keeps_closed) simp_all

lemma keeps_cycle: "keeps (journal_from old) (cycle_body C app)"
  unfolding cycle_body_def by (intro lifecycle_rules keeps_dispatch)

lemma journal_from_cycle: "journal_from old w \<Longrightarrow> journal_from old (lifecycle_cycle app C w)"
proof -
  assume w: "journal_from old w"
  obtain r w1 where run: "cycle_body C app w = (r, w1)" by (cases "cycle_body C app w")
  have w1: "journal_from old w1" by (rule keepsD [OF keeps_cycle w run])
  show ?thesis
  proof (cases r)
    case (Inl e)
    then show ?thesis unfolding lifecycle_cycle_def run by (simp, intro journal_from_cong [OF _ _ w1]) simp_all
  next
    case (Inr u)
    then show ?thesis unfolding lifecycle_cycle_def run using w1 by simp
  qed
qed

lemma journal_from_cycles: "journal_from old w \<Longrightarrow> journal_from old (fold (lifecycle_cycle app) Cs w)"
  by (induction Cs arbitrary: w) (simp_all add: journal_from_cycle)

text \<open>C24. The operator's journal is safe in every sequence of cycles, whatever the chain, the node and the
  hub answer: at most one transaction is pending at any time, an id is journaled once, only journaled bytes
  are ever sent, an entry keeps its call and nonce forever, and a confirmed or failed entry never changes.\<close>

theorem operator_journal_safe:
  "let w = fold (lifecycle_cycle app) before initial_lifecycle; w' = fold (lifecycle_cycle app) after w in
    length (filter (\<lambda>j. oj_state j = JobPending) (lc_jobs w')) \<le> 1
    \<and> distinct (map oj_id (lc_jobs w')) \<and> set (lc_sent w') \<subseteq> set (map oj_id (lc_jobs w'))
    \<and> (\<exists>new. map job_key (lc_jobs w') = map job_key (lc_jobs w) @ new)
    \<and> list_all (\<lambda>j. oj_state j = JobPending \<or> j \<in> set (lc_jobs w')) (lc_jobs w)"
proof -
  define w where "w = fold (lifecycle_cycle app) before initial_lifecycle"
  define w' where "w' = fold (lifecycle_cycle app) after w"
  have "journal_from [] initial_lifecycle"
    by (simp add: journal_from_def journal_ok_def journal_grows_def initial_lifecycle_def)
  then have "journal_from [] w" unfolding w_def by (rule journal_from_cycles)
  then have "journal_from (lc_jobs w) w" by (auto simp add: journal_from_def journal_grows_def)
  then have "journal_from (lc_jobs w) w'" unfolding w'_def by (rule journal_from_cycles)
  then have "length (filter (\<lambda>j. oj_state j = JobPending) (lc_jobs w')) \<le> 1
    \<and> distinct (map oj_id (lc_jobs w')) \<and> set (lc_sent w') \<subseteq> set (map oj_id (lc_jobs w'))
    \<and> (\<exists>new. map job_key (lc_jobs w') = map job_key (lc_jobs w) @ new)
    \<and> list_all (\<lambda>j. oj_state j = JobPending \<or> j \<in> set (lc_jobs w')) (lc_jobs w)"
    by (auto simp add: journal_from_def journal_ok_def journal_grows_def list_all_iff)
  then show ?thesis unfolding Let_def w_def w'_def .
qed

subsection \<open>The engine is closed drained\<close>

definition no_new_close :: "operator_job list \<Rightarrow> lifecycle \<Rightarrow> bool" where
  "no_new_close old w \<longleftrightarrow> (\<forall>j \<in> set (lc_jobs w). oj_call j = CloseEngine \<longrightarrow> oj_id j \<in> oj_id ` set old)"

lemma keeps_lift_bind: "(\<And>x. r = Inr x \<Longrightarrow> keeps P (f x)) \<Longrightarrow> keeps P (ibind (lift r) f)"
  by (cases r) (simp_all add: keeps_def triple_def ibind_def io_simps)

lemma keeps_guard_bind: "(b \<Longrightarrow> keeps P (f ())) \<Longrightarrow> keeps P (ibind (iguard e b) f)"
  by (simp add: keeps_def triple_def ibind_def io_simps)

lemma no_close_keep:
  "(\<And>w. map oj_id (lc_jobs (h w)) = map oj_id (lc_jobs w) \<and> map oj_call (lc_jobs (h w)) = map oj_call (lc_jobs w)) \<Longrightarrow>
   keeps (no_new_close old) (modify h)"
proof (rule keeps_modify)
  fix w assume h: "\<And>w. map oj_id (lc_jobs (h w)) = map oj_id (lc_jobs w) \<and> map oj_call (lc_jobs (h w)) = map oj_call (lc_jobs w)"
    and w: "no_new_close old w"
  have "map (\<lambda>j. (oj_id j, oj_call j)) (lc_jobs (h w)) = zip (map oj_id (lc_jobs (h w))) (map oj_call (lc_jobs (h w)))"
    by (simp add: zip_map_map zip_same_conv_map comp_def)
  also have "\<dots> = map (\<lambda>j. (oj_id j, oj_call j)) (lc_jobs w)"
    unfolding h [THEN conjunct1] h [THEN conjunct2] by (simp add: zip_map_map zip_same_conv_map comp_def)
  finally have same: "(\<lambda>j. (oj_id j, oj_call j)) ` set (lc_jobs (h w)) = (\<lambda>j. (oj_id j, oj_call j)) ` set (lc_jobs w)"
    by (metis list.set_map)
  show "no_new_close old (h w)"
    unfolding no_new_close_def
  proof (intro ballI impI)
    fix j assume j: "j \<in> set (lc_jobs (h w))" "oj_call j = CloseEngine"
    then obtain k where "k \<in> set (lc_jobs w)" "(oj_id j, oj_call j) = (oj_id k, oj_call k)" using same by blast
    then show "oj_id j \<in> oj_id ` set old" using w j(2) by (auto simp add: no_new_close_def)
  qed
qed

lemma set_state_columns:
  "map oj_id (lc_jobs (set_state i st w)) = map oj_id (lc_jobs w) \<and> map oj_call (lc_jobs (set_state i st w)) = map oj_call (lc_jobs w)"
  by (auto simp add: set_state_def)

lemma no_close_move_stage: "keeps (no_new_close old) (move_stage C s)"
  unfolding move_stage_def by (rule no_close_keep) simp

lemma no_close_send: "keeps (no_new_close old) (send_raw C i)"
  unfolding send_raw_def by (intro keeps_bind keeps_basic no_close_keep) simp

lemma no_close_new_job: "call \<noteq> CloseEngine \<Longrightarrow> keeps (no_new_close old) (new_job C i call)"
  unfolding new_job_def Let_def
  by (intro keeps_bind keeps_basic keeps_modify) (simp add: no_new_close_def)

lemma no_close_submit: "call \<noteq> CloseEngine \<Longrightarrow> keeps (no_new_close old) (submit C i call)"
  unfolding submit_def
  by (intro keeps_bind keeps_basic keeps_if keeps_option no_close_new_job no_close_send no_close_keep set_state_columns) assumption

lemma no_close_settle: "keeps (no_new_close old) (settle_pending C)"
  unfolding settle_pending_def
  by (intro keeps_bind keeps_basic keeps_if keeps_option no_close_send no_close_keep set_state_columns)

lemma no_close_field: "(\<And>w. lc_jobs (h w) = lc_jobs w) \<Longrightarrow> keeps (no_new_close old) (modify h)"
  by (rule no_close_keep) simp

lemma no_close_ready: "keeps (no_new_close old) (become_ready d)"
  unfolding become_ready_def by (rule no_close_field) simp

lemma no_close_starting: "keeps (no_new_close old) (starting_phase C app d)"
  unfolding starting_phase_def
  by (intro keeps_bind keeps_basic keeps_if keeps_option no_close_ready keeps_result no_close_move_stage no_close_field) simp_all

lemma no_close_exiting: "keeps (no_new_close old) (exiting_phase C prefix d)"
  unfolding exiting_phase_def
  by (intro keeps_bind keeps_basic keeps_if no_close_move_stage no_close_submit) simp

lemma no_close_renew: "keeps (no_new_close old) (renew_phase C prefix)"
  unfolding renew_phase_def by (intro keeps_bind keeps_basic no_close_submit no_close_field) simp_all

lemma no_close_closed: "keeps (no_new_close old) (closed_phase C prefix)"
  unfolding closed_phase_def
  by (intro keeps_bind keeps_basic keeps_if keeps_option no_close_move_stage no_close_renew no_close_submit) simp_all

text \<open>The answers under which a cycle may close the engine.\<close>

definition drained :: "cycle_answers \<Rightarrow> hub_delegation \<Rightarrow> bool" where
  "drained C d \<longleftrightarrow> (\<exists>node active fenced fencedActive. ca_node C = Inr node \<and> ca_active C = Inr active
     \<and> eg_epoch (nv_engine node) = hd_epoch d \<and> active \<le> 0 \<and> nv_pendingDiffs node \<le> 0
     \<and> ca_beforeClose C = Inr () \<and> ca_fencedNode C = Inr fenced \<and> ca_fencedActive C = Inr fencedActive
     \<and> eg_epoch (nv_engine fenced) = hd_epoch d \<and> fencedActive \<le> 0 \<and> nv_pendingDiffs fenced \<le> 0
     \<and> ca_activeCount C = Inr 0 \<and> ca_uncertain C = Inr False)"

lemma no_close_close:
  assumes "\<not> drained C d"
  shows "keeps (no_new_close old) (close_phase C prefix d)"
  unfolding close_phase_def
proof (intro keeps_lift_bind)
  fix node active assume n: "ca_node C = Inr node" "ca_active C = Inr active"
  let ?rest = "ibind (lift (ca_beforeClose C)) (\<lambda>_. ibind (lift (ca_fencedNode C)) (\<lambda>fenced.
      ibind (lift (ca_fencedActive C)) (\<lambda>fencedActive.
      ibind (iguard (blocker C d fencedActive fenced) (blocker C d fencedActive fenced = [])) (\<lambda>_.
      ibind (lift (ca_activeCount C)) (\<lambda>published.
      ibind (iguard ''Published match changed during closure preparation'' (published = 0)) (\<lambda>_.
      ibind (lift (ca_uncertain C)) (\<lambda>uncertain.
      if uncertain then modify (\<lambda>w. w\<lparr>lc_error :=
        ''An engine transaction remains unconfirmed; reconcile its receipt and nonce before renewal''\<rparr>)
      else ibind (submit C (prefix @ '':close'') CloseEngine) (\<lambda>closed. if closed then move_stage C Challenge else ret ()))))))))"
  have "keeps (no_new_close old) ?rest" if b: "blocker C d active node = []"
  proof (intro keeps_lift_bind keeps_guard_bind)
    fix u fenced fencedActive published uncertain
    assume "ca_beforeClose C = Inr u" "ca_fencedNode C = Inr fenced" "ca_fencedActive C = Inr fencedActive"
      "blocker C d fencedActive fenced = []" "ca_activeCount C = Inr published" "published = 0" "ca_uncertain C = Inr uncertain"
    then have "uncertain" using assms n b by (auto simp add: drained_def blocker_def drain_clear)
    then show "keeps (no_new_close old) (if uncertain then modify (\<lambda>w. w\<lparr>lc_error :=
        ''An engine transaction remains unconfirmed; reconcile its receipt and nonce before renewal''\<rparr>)
      else ibind (submit C (prefix @ '':close'') CloseEngine) (\<lambda>closed. if closed then move_stage C Challenge else ret ()))"
      by (simp, intro no_close_field) simp
  qed
  then show "keeps (no_new_close old) (ibind (modify (\<lambda>w. w\<lparr>lc_error := blocker C d active node\<rparr>)) (\<lambda>_.
      if blocker C d active node \<noteq> [] then ret () else ?rest))"
    by (intro keeps_bind no_close_field) (simp_all add: keeps_basic)
qed

text \<open>An active delegation: the stage and the time it began matter.\<close>

definition at_stage :: "operator_job list \<Rightarrow> stage \<Rightarrow> int \<Rightarrow> lifecycle \<Rightarrow> bool" where
  "at_stage old st changed w \<longleftrightarrow> no_new_close old w \<and> lc_stage w = st \<and> lc_changed w = changed"

lemma at_stage_weaken: "keeps (no_new_close old) m \<Longrightarrow> triple (at_stage old st changed) m (\<lambda>_. no_new_close old) (no_new_close old)"
  unfolding keeps_def
  by (rule triple_weaken [of "no_new_close old" m "\<lambda>_. no_new_close old" "no_new_close old"]) (auto simp add: at_stage_def)

lemma active_drained:
  assumes "\<not> (st = Draining \<and> 60000 \<le> ca_nowMs C - changed \<and> drained C d)"
  shows "triple (at_stage old st changed) (active_phase C app prefix d) (\<lambda>_. no_new_close old) (no_new_close old)"
  unfolding active_phase_def
proof (rule triple_bind [of _ _ "\<lambda>s w. at_stage old st changed w \<and> s = st"])
  show "triple (at_stage old st changed) (gets lc_stage) (\<lambda>s w. at_stage old st changed w \<and> s = st) (no_new_close old)"
    by (rule triple_gets) (simp add: at_stage_def)
  fix s
  let ?move = "ibind (if s \<noteq> Draining then move_stage C Draining else ret ()) (\<lambda>_. ibind (gets lc_changed) (\<lambda>changed.
      if ca_nowMs C - changed < 60000 then ret () else close_phase C prefix d))"
  show "triple (\<lambda>w. at_stage old st changed w \<and> s = st)
    (if s = Renewing \<or> s = Starting then starting_phase C app d
     else if s = Playing \<and> hd_expiresAt d > ca_now C + 3600 then become_ready d else ?move)
    (\<lambda>_. no_new_close old) (no_new_close old)"
  proof (cases "s = st")
    case True
    have move: "triple (at_stage old st changed) ?move (\<lambda>_. no_new_close old) (no_new_close old)"
    proof (rule triple_bind [of _ _ "\<lambda>_ w. no_new_close old w \<and> lc_changed w = (if st \<noteq> Draining then ca_nowMs C else changed)"])
      show "triple (at_stage old st changed) (if s \<noteq> Draining then move_stage C Draining else ret ())
        (\<lambda>_ w. no_new_close old w \<and> lc_changed w = (if st \<noteq> Draining then ca_nowMs C else changed)) (no_new_close old)"
        using True by (simp add: triple_def move_stage_def io_simps at_stage_def no_new_close_def)
      fix u
      show "triple (\<lambda>w. no_new_close old w \<and> lc_changed w = (if st \<noteq> Draining then ca_nowMs C else changed))
        (ibind (gets lc_changed) (\<lambda>changed. if ca_nowMs C - changed < 60000 then ret () else close_phase C prefix d))
        (\<lambda>_. no_new_close old) (no_new_close old)"
      proof (rule triple_bind [of _ _ "\<lambda>c w. no_new_close old w \<and> c = (if st \<noteq> Draining then ca_nowMs C else changed)"])
        show "triple (\<lambda>w. no_new_close old w \<and> lc_changed w = (if st \<noteq> Draining then ca_nowMs C else changed)) (gets lc_changed)
          (\<lambda>c w. no_new_close old w \<and> c = (if st \<noteq> Draining then ca_nowMs C else changed)) (no_new_close old)"
          by (rule triple_gets) simp
        fix c
        show "triple (\<lambda>w. no_new_close old w \<and> c = (if st \<noteq> Draining then ca_nowMs C else changed))
          (if ca_nowMs C - c < 60000 then ret () else close_phase C prefix d) (\<lambda>_. no_new_close old) (no_new_close old)"
        proof (cases "ca_nowMs C - c < 60000")
          case True
          then show ?thesis by (simp add: triple_def io_simps)
        next
          case False
          show ?thesis
          proof (cases "c = (if st \<noteq> Draining then ca_nowMs C else changed)")
            case c: True
            then have "\<not> drained C d" using False assms by (auto split: if_split_asm)
            then have "keeps (no_new_close old) (close_phase C prefix d)" by (rule no_close_close)
            then have "triple (no_new_close old) (close_phase C prefix d) (\<lambda>_. no_new_close old) (no_new_close old)"
              by (simp add: keeps_def)
            then show ?thesis using False by (simp add: triple_def)
          qed (rule triple_never, simp)
        qed
      qed
    qed
    show ?thesis
      by (rule triple_weaken [of "at_stage old st changed" _ "\<lambda>_. no_new_close old" "no_new_close old"],
          intro triple_if at_stage_weaken no_close_starting no_close_ready move) simp_all
  qed (rule triple_never, simp)
qed

lemma settle_at_stage: "keeps (at_stage old st changed) (settle_pending C)"
proof -
  have stage: "keeps (\<lambda>w. lc_stage w = st \<and> lc_changed w = changed) (settle_pending C)"
    unfolding settle_pending_def send_raw_def
    by (intro keeps_bind keeps_basic keeps_if keeps_option keeps_modify) (simp_all add: set_state_def)
  have "at_stage old st changed s'" if "at_stage old st changed s" "settle_pending C s = (r, s')" for s r s'
    using keepsD [OF stage _ that(2)] keepsD [OF no_close_settle _ that(2), of old] that(1) by (simp add: at_stage_def)
  then show ?thesis by (auto simp add: keeps_def triple_def split: prod.split sum.split)
qed

lemma dispatch_drained:
  assumes "\<not> (hd_status d = 1 \<and> st = Draining \<and> 60000 \<le> ca_nowMs C - changed \<and> drained C d)"
  shows "triple (at_stage old st changed) (dispatch C app d) (\<lambda>_. no_new_close old) (no_new_close old)"
proof -
  have field: "keeps (at_stage old st changed) (modify h)"
    if "\<And>w. lc_jobs (h w) = lc_jobs w \<and> lc_stage (h w) = lc_stage w \<and> lc_changed (h w) = lc_changed w" for h
    by (rule keeps_modify) (use that in \<open>simp add: at_stage_def no_new_close_def\<close>)
  have step: "triple (at_stage old st changed) (ibind m f) (\<lambda>_. no_new_close old) (no_new_close old)"
    if "keeps (at_stage old st changed) m" "\<And>x. triple (at_stage old st changed) (f x) (\<lambda>_. no_new_close old) (no_new_close old)" for m :: "'x lifecycle_io" and f :: "'x \<Rightarrow> unit lifecycle_io"
  proof (rule triple_bind [of _ _ "\<lambda>_. at_stage old st changed"])
    show "triple (at_stage old st changed) m (\<lambda>_. at_stage old st changed) (no_new_close old)"
      by (rule triple_weaken [OF that(1) [unfolded keeps_def]]) (simp_all add: at_stage_def)
  qed (rule that(2))
  have active: "triple (at_stage old st changed) (active_phase C app prefix d) (\<lambda>_. no_new_close old) (no_new_close old)"
    if "hd_status d = 1" for prefix
    by (rule active_drained) (use assms that in blast)
  show ?thesis
    unfolding dispatch_def
    by (rule step, rule field, simp, rule step, rule keeps_basic, rule step, rule field, simp)
      (intro triple_if at_stage_weaken no_close_field no_close_exiting no_close_closed keeps_basic active; simp)
qed

text \<open>C25. A cycle only journals the closing of the engine when it is drained: the hub reports an active
  delegation, admission has been stopped for at least a minute before this cycle, and, once before and once
  after the writers were fenced, the node was on the delegation's epoch with no active match and no
  unpublished difference; then the chain has no active match and no engine command is unconfirmed.\<close>

theorem engine_closed_drained:
  assumes "j \<in> set (lc_jobs (lifecycle_cycle app C w))" and "oj_call j = CloseEngine"
    and "oj_id j \<notin> oj_id ` set (lc_jobs w)"
  shows "\<exists>d. ca_delegation C = Inr d \<and> hd_status d = 1 \<and> lc_stage w = Draining
    \<and> 60000 \<le> ca_nowMs C - lc_changed w \<and> drained C d"
proof (rule ccontr)
  assume none: "\<not> ?thesis"
  let ?old = "lc_jobs w"
  let ?J = "at_stage ?old (lc_stage w) (lc_changed w)"
  have start: "?J w" by (auto simp add: at_stage_def no_new_close_def)
  have to_close: "?J s \<Longrightarrow> no_new_close ?old s" for s by (simp add: at_stage_def)
  have rest: "triple ?J (if \<not> go_on then ret () else ibind (lift (ca_delegation C)) (\<lambda>d. dispatch C app d))
      (\<lambda>_. no_new_close ?old) (no_new_close ?old)" for go_on
  proof (intro triple_if)
    show "triple ?J (ret ()) (\<lambda>_. no_new_close ?old) (no_new_close ?old)" by (rule triple_ret) (rule to_close)
    show "triple ?J (ibind (lift (ca_delegation C)) (\<lambda>d. dispatch C app d)) (\<lambda>_. no_new_close ?old) (no_new_close ?old)"
    proof (cases "ca_delegation C")
      case (Inl e)
      then show ?thesis by (simp add: triple_def ibind_def io_simps at_stage_def)
    next
      case (Inr d)
      have "triple ?J (dispatch C app d) (\<lambda>_. no_new_close ?old) (no_new_close ?old)"
        by (rule dispatch_drained) (use none Inr in blast)
      then show ?thesis using Inr by (simp add: triple_def ibind_def io_simps)
    qed
  qed
  have settle: "triple ?J (settle_pending C) (\<lambda>_. ?J) (no_new_close ?old)"
    by (rule triple_weaken [OF settle_at_stage [unfolded keeps_def]]) (auto intro: to_close)
  have "triple ?J (cycle_body C app) (\<lambda>_. no_new_close ?old) (no_new_close ?old)"
    unfolding cycle_body_def
  proof (rule triple_bind [of _ _ "\<lambda>_. ?J"])
    show "triple ?J (lift (ca_locked C)) (\<lambda>_. ?J) (no_new_close ?old)" by (rule triple_lift) (auto intro: to_close)
    fix locked
    show "triple ?J (if \<not> locked then ret () else ibind (settle_pending C) (\<lambda>go_on.
      if \<not> go_on then ret () else ibind (lift (ca_delegation C)) (\<lambda>d. dispatch C app d)))
      (\<lambda>_. no_new_close ?old) (no_new_close ?old)"
      by (intro triple_if triple_bind [OF settle rest] triple_ret) (rule to_close)
  qed
  then have "no_new_close ?old (snd (cycle_body C app w))"
    using start by (cases "cycle_body C app w"; cases "fst (cycle_body C app w)") (auto simp add: triple_def)
  moreover have "lc_jobs (lifecycle_cycle app C w) = lc_jobs (snd (cycle_body C app w))"
    by (auto simp add: lifecycle_cycle_def split: prod.split sum.split)
  ultimately show False using assms by (auto simp add: no_new_close_def)
qed

definition sample_node :: node_view where
  "sample_node = \<lparr>nv_engine = \<lparr>eg_app = ''a'', eg_chainId = 4242, eg_epoch = 3\<rparr>, nv_pendingDiffs = 0, nv_committed = 8\<rparr>"

definition sample_answers :: cycle_answers where
  "sample_answers = \<lparr>ca_now = 100, ca_nowMs = 100000, ca_locked = Inr True, ca_receipt = (\<lambda>_. None), ca_send = (\<lambda>_. Inr ()),
     ca_delegation = Inr \<lparr>hd_status = 1, hd_epoch = 3, hd_expiresAt = 200, hd_stakeUnlockAt = 0, hd_batchIndex = 8\<rparr>,
     ca_node = Inr sample_node, ca_active = Inr 0, ca_beforeClose = Inr (), ca_fencedNode = Inr sample_node, ca_fencedActive = Inr 0,
     ca_activeCount = Inr 0, ca_uncertain = Inr False, ca_pendingNonce = Inr 5, ca_latestNonce = Inr 5, ca_simulate = Inr (),
     ca_hosted = Inr (), ca_results = Inr [], ca_hold = False, ca_beforeRenew = Inr ()\<rparr>"

theorem engine_closed_drained_witness:
  "\<exists>j \<in> set (lc_jobs (lifecycle_cycle ''a'' sample_answers (initial_lifecycle\<lparr>lc_stage := Draining\<rparr>))).
     oj_call j = CloseEngine \<and> oj_nonce j = 5 \<and> drained sample_answers (projr (ca_delegation sample_answers))"
proof -
  let ?w = "initial_lifecycle\<lparr>lc_stage := Draining\<rparr>"
  have "map job_key (lc_jobs (lifecycle_cycle ''a'' sample_answers ?w)) = [(''a:3:close'', CloseEngine, 5)]" by code_simp
  then obtain j where j: "j \<in> set (lc_jobs (lifecycle_cycle ''a'' sample_answers ?w))" "oj_call j = CloseEngine" "oj_nonce j = 5"
    by (auto simp add: map_eq_Cons_conv job_key_def)
  have "oj_id j \<notin> oj_id ` set (lc_jobs ?w)" by (simp add: initial_lifecycle_def)
  from engine_closed_drained [OF j(1,2) this]
  have "drained sample_answers (projr (ca_delegation sample_answers))" by auto
  with j show ?thesis by blast
qed

end
