(* ===== verification/Hosted_Renewal.thy ===== *)
theory Hosted_Renewal
  imports Js_Text
begin

text \<open>
  \<^verbatim>\<open>relayer/src/rooms-hosted-renewal.ts\<close>: the request for a hosted engine of a new epoch.  The row of the
  application holds the epoch of the last request and its provisioning record; one call gives its outcome, the
  HTTP request it made and the next row.  Times are milliseconds.
\<close>

datatype provision_state = Sending | UncertainReply | Rejected | ConfirmedSession | Intervention

record provision =
  pv_epoch :: int
  pv_state :: provision_state
  pv_attemptedAt :: int
  pv_retryAt :: int
  pv_attempts :: int
  pv_status :: "int option"

record provision_row =
  pr_epoch :: int
  pr_provision :: "provision option"

text \<open>The reply: none; a status that is not ok, whether the body says that nothing was created, and the
  number of seconds of the retry header where it is positive; or an ok reply with its status, URL and
  application.\<close>

datatype hosted_reply = LostReply | NotOk int bool "int option" | OkReply int "string option" "string option"

datatype hosted_request = CreateSession | LookUpSession

definition no_slash :: "string \<Rightarrow> string" where
  "no_slash s = (if s \<noteq> [] \<and> last s = CHR ''/'' then butlast s else s)"

text \<open>The provisioning record a call starts from.\<close>

definition known_provision :: "int \<Rightarrow> int \<Rightarrow> provision_row \<Rightarrow> provision option" where
  "known_provision epoch now row =
    (let p = (case pr_provision row of Some p \<Rightarrow> Some p
       | None \<Rightarrow> if pr_epoch row = epoch
         then Some \<lparr>pv_epoch = epoch, pv_state = UncertainReply, pv_attemptedAt = now, pv_retryAt = 0, pv_attempts = 1, pv_status = None\<rparr>
         else None) in
     case p of Some q \<Rightarrow> if pv_epoch q = epoch then Some q else None | None \<Rightarrow> None)"

definition creates :: "provision option \<Rightarrow> bool" where
  "creates p = (case p of None \<Rightarrow> True | Some q \<Rightarrow> pv_state q = Rejected)"

definition retry_wait :: "int option \<Rightarrow> int \<Rightarrow> int" where
  "retry_wait header attempts = (case header of Some s \<Rightarrow> min 3600 s * 1000 | None \<Rightarrow> min 60000 (10000 * attempts))"

text \<open>What the reply makes of the record \<open>p\<close>: the error, where there is one, and the record that is saved.\<close>

definition after_reply :: "int \<Rightarrow> string \<Rightarrow> string \<Rightarrow> bool \<Rightarrow> hosted_reply \<Rightarrow> provision \<Rightarrow> unit res \<times> provision" where
  "after_reply now app expectedUrl create reply p =
    (case reply of
       LostReply \<Rightarrow> (Inl ''Hosted engine response lost; looking up the existing session before any new creation'',
         p\<lparr>pv_state := UncertainReply, pv_retryAt := now + 10000\<rparr>)
     | NotOk status notCreated header \<Rightarrow>
         let rejected = create \<and> status \<ge> 400 \<and> status < 500 \<and> notCreated;
             intervention = \<not> rejected \<and> now - pv_attemptedAt p \<ge> 300000 in
         (Inl (''Hosted engine '' @ (if create then ''creation'' else ''lookup'') @ '' pending ('' @ decimal status @ '')''
             @ (if intervention then ''; operator inspection required'' else [])),
          p\<lparr>pv_state := (if rejected then Rejected else if intervention then Intervention else UncertainReply),
            pv_status := Some status, pv_retryAt := now + retry_wait header (pv_attempts p)\<rparr>)
     | OkReply status url owner \<Rightarrow>
         (case url of
            None \<Rightarrow> (Inl ''Hosted engine response has no URL; waiting for provisioning confirmation'',
              p\<lparr>pv_state := (if now - pv_attemptedAt p \<ge> 300000 then Intervention else UncertainReply), pv_retryAt := now + 10000\<rparr>)
          | Some u \<Rightarrow>
            if (case owner of None \<Rightarrow> False | Some o' \<Rightarrow> o' \<noteq> [] \<and> lower o' \<noteq> lower app)
            then (Inl ''Hosted lookup belongs to another application; operator inspection required'',
              p\<lparr>pv_state := Intervention, pv_retryAt := 0\<rparr>)
            else if no_slash u \<noteq> no_slash expectedUrl
            then (Inl ''Hosted node URL changed; update and verify the deployment manifest before admission'',
              p\<lparr>pv_state := Intervention, pv_retryAt := 0\<rparr>)
            else if now - pv_attemptedAt p \<ge> 300000
            then (Inl ''Hosted session exists but the new engine epoch is still unavailable; operator inspection required'',
              p\<lparr>pv_state := Intervention, pv_status := Some status, pv_retryAt := 0\<rparr>)
            else (Inr (), p\<lparr>pv_state := ConfirmedSession, pv_status := Some status, pv_retryAt := now + 10000\<rparr>)))"

definition requestHostedRenewal ::
    "string \<Rightarrow> string \<Rightarrow> int \<Rightarrow> int \<Rightarrow> hosted_reply \<Rightarrow> provision_row \<Rightarrow> unit res \<times> hosted_request option \<times> provision_row" where
  "requestHostedRenewal app expectedUrl epoch now reply row =
    (let known = known_provision epoch now row in
     if (case known of Some p \<Rightarrow> pv_retryAt p > now | None \<Rightarrow> False)
     then (Inl ''Hosted engine retry is cooling down'', None, row)
     else if (case known of Some p \<Rightarrow> pv_state p = Intervention | None \<Rightarrow> False)
     then (Inl ''Hosted creation remains ambiguous; inspect the persisted provisioning request before another creation'', None, row)
     else
       let create = creates known;
           p = (if create then \<lparr>pv_epoch = epoch, pv_state = Sending, pv_attemptedAt = now, pv_retryAt = 0,
                  pv_attempts = (case known of Some q \<Rightarrow> pv_attempts q | None \<Rightarrow> 0) + 1, pv_status = None\<rparr>
                else the known);
           (r, next_p) = after_reply now app expectedUrl create reply p in
       (r, Some (if create then CreateSession else LookUpSession), \<lparr>pr_epoch = epoch, pr_provision = Some next_p\<rparr>))"

text \<open>A call that dies between its intent and its reply leaves the intent, here as a call of its own.\<close>

definition intent_only :: "int \<Rightarrow> int \<Rightarrow> provision_row \<Rightarrow> provision_row" where
  "intent_only epoch now row =
    (let known = known_provision epoch now row in
     if creates known \<and> (case known of Some p \<Rightarrow> \<not> pv_retryAt p > now | None \<Rightarrow> True)
     then \<lparr>pr_epoch = epoch, pr_provision = Some \<lparr>pv_epoch = epoch, pv_state = Sending, pv_attemptedAt = now, pv_retryAt = 0,
        pv_attempts = (case known of Some q \<Rightarrow> pv_attempts q | None \<Rightarrow> 0) + 1, pv_status = None\<rparr>\<rparr>
     else row)"

subsection \<open>One creation\<close>

definition requested_for :: "int \<Rightarrow> provision_row \<Rightarrow> bool" where
  "requested_for epoch row \<longleftrightarrow> (case pr_provision row of Some p \<Rightarrow> pv_epoch p = epoch \<and> pv_state p \<noteq> Rejected | None \<Rightarrow> False)"

lemma after_reply_epoch: "pv_epoch (snd (after_reply now app url create reply p)) = pv_epoch p"
  by (cases reply) (auto simp add: after_reply_def Let_def split: option.splits)

lemma after_reply_rejects:
  "pv_state (snd (after_reply now app url create reply p)) = Rejected \<Longrightarrow>
   create \<and> (\<exists>status header. reply = NotOk status True header \<and> 400 \<le> status \<and> status < 500)"
  by (cases reply) (auto simp add: after_reply_def Let_def split: option.splits if_split_asm)

definition provision_blocked :: "int \<Rightarrow> provision option \<Rightarrow> bool" where
  "provision_blocked now known = (case known of None \<Rightarrow> False | Some p \<Rightarrow> pv_retryAt p > now \<or> pv_state p = Intervention)"

definition started_provision :: "int \<Rightarrow> int \<Rightarrow> provision option \<Rightarrow> provision" where
  "started_provision epoch now known = (if creates known then \<lparr>pv_epoch = epoch, pv_state = Sending, pv_attemptedAt = now, pv_retryAt = 0,
     pv_attempts = (case known of Some q \<Rightarrow> pv_attempts q | None \<Rightarrow> 0) + 1, pv_status = None\<rparr> else the known)"

lemma renewal_blocked:
  "provision_blocked now (known_provision epoch now row) \<Longrightarrow>
   \<exists>e. requestHostedRenewal app url epoch now reply row = (Inl e, None, row)"
  unfolding requestHostedRenewal_def provision_blocked_def Let_def
  by (cases "known_provision epoch now row") auto

lemma renewal_unblocked:
  "\<not> provision_blocked now (known_provision epoch now row) \<Longrightarrow> known = known_provision epoch now row \<Longrightarrow>
   requestHostedRenewal app url epoch now reply row =
     (fst (after_reply now app url (creates known) reply (started_provision epoch now known)),
      Some (if creates known then CreateSession else LookUpSession),
      \<lparr>pr_epoch = epoch, pr_provision = Some (snd (after_reply now app url (creates known) reply (started_provision epoch now known)))\<rparr>)"
  unfolding requestHostedRenewal_def provision_blocked_def Let_def started_provision_def
  by (cases "known_provision epoch now row") (simp_all add: case_prod_beta)

text \<open>Once an epoch was requested without an explicit rejection, no call for it creates again, and no reply to
  such a call makes it rejected: the uncertain creation is only looked up.\<close>

lemma hosted_no_second_creation:
  assumes "requested_for epoch row" "requestHostedRenewal app url epoch now reply row = (r, sent, row')"
  shows "sent \<noteq> Some CreateSession \<and> requested_for epoch row'"
proof -
  obtain p where p: "pr_provision row = Some p" "pv_epoch p = epoch" "pv_state p \<noteq> Rejected"
    using assms(1) by (auto simp add: requested_for_def split: option.splits)
  have known: "known_provision epoch now row = Some p" using p by (simp add: known_provision_def)
  have not_new: "\<not> creates (Some p)" using p(3) by (simp add: creates_def)
  show ?thesis
  proof (cases "provision_blocked now (Some p)")
    case True
    then have "provision_blocked now (known_provision epoch now row)" by (simp only: known)
    from renewal_blocked [OF this, of app url reply]
    obtain e where "requestHostedRenewal app url epoch now reply row = (Inl e, None, row)" by blast
    with assms(2) have "(r, sent, row') = (Inl e, None, row)" by (simp only:)
    then have "sent = None" "row' = row" by blast+
    then show ?thesis using assms(1) by simp
  next
    case False
    define q where "q = snd (after_reply now app url False reply p)"
    have free: "\<not> provision_blocked now (known_provision epoch now row)" using False unfolding known .
    have "started_provision epoch now (Some p) = p" using not_new by (simp add: started_provision_def)
    with renewal_unblocked [OF free known [symmetric], of app url reply] assms(2) not_new
    have "(r, sent, row') = (fst (after_reply now app url False reply p), Some LookUpSession,
        \<lparr>pr_epoch = epoch, pr_provision = Some q\<rparr>)"
      unfolding q_def by (simp only: if_False)
    then have "sent = Some LookUpSession" "row' = \<lparr>pr_epoch = epoch, pr_provision = Some q\<rparr>" by blast+
    moreover have "pv_epoch q = epoch" using p(2) by (simp add: q_def after_reply_epoch)
    moreover have "pv_state q \<noteq> Rejected"
      using after_reply_rejects [of now app url False reply p] unfolding q_def by auto
    ultimately show ?thesis by (simp add: requested_for_def)
  qed
qed

text \<open>After a creation the epoch counts as requested, unless the service rejected it with an explicit
  statement that nothing was created; and so it does when the process died before the reply.\<close>

lemma hosted_creation_recorded:
  assumes "requestHostedRenewal app url epoch now reply row = (r, Some CreateSession, row')"
  shows "requested_for epoch row' \<or> (\<exists>status header. reply = NotOk status True header \<and> 400 \<le> status \<and> status < 500)"
proof -
  define known where "known = known_provision epoch now row"
  define q where "q = snd (after_reply now app url (creates known) reply (started_provision epoch now known))"
  have free: "\<not> provision_blocked now (known_provision epoch now row)"
    using assms renewal_blocked [of now epoch row app url reply] by auto
  have new: "creates known" and row: "row' = \<lparr>pr_epoch = epoch, pr_provision = Some q\<rparr>"
    using renewal_unblocked [OF free known_def, of app url reply] assms by (auto simp add: q_def split: if_split_asm)
  show ?thesis
  proof (cases "pv_state q = Rejected")
    case True
    then show ?thesis
      using after_reply_rejects [of now app url "creates known" reply "started_provision epoch now known"]
      unfolding q_def by blast
  next
    case False
    moreover have "pv_epoch q = epoch" using new by (simp add: q_def after_reply_epoch started_provision_def)
    ultimately show ?thesis using row by (simp add: requested_for_def)
  qed
qed

lemma intent_recorded:
  "creates (known_provision epoch now row) \<Longrightarrow> (case known_provision epoch now row of Some p \<Rightarrow> \<not> pv_retryAt p > now | None \<Rightarrow> True) \<Longrightarrow>
   requested_for epoch (intent_only epoch now row)"
  by (simp add: intent_only_def requested_for_def Let_def)

end
