(* ===== verification/Operator_Queue.thy ===== *)
theory Operator_Queue
  imports Io_Monad Service_Errors
begin

text \<open>
  \<^verbatim>\<open>relayer/src/independent-writer.ts\<close>: the queue of contract calls that one operator account pays for, and
  its journal of signed transactions.  The state holds the two tables as lists of rows in the order of their
  creation and the transactions that were sent.  The hashes, the parser and the signer are arguments; what the
  node answers in one dispatch is a record.  A statement of the program on the data base is one step: requests,
  observations and dispatches interleave between them.
\<close>

datatype call_state = Queued | InFlight | Executed | NotExecuted
datatype entry_state = JSigned | JExecuted | JReverted

record chain_operation =
  co_id :: string
  co_target :: string
  co_data :: string
  co_value :: int
  co_priority :: int
  co_status :: call_state
  co_hash :: "string option"
  co_error :: "string option"

record journal_entry =
  je_id :: string
  je_owner :: string
  je_nonce :: int
  je_raw :: string
  je_hash :: string
  je_status :: entry_state

record writer =
  wr_ops :: "chain_operation list"
  wr_jobs :: "journal_entry list"
  wr_sent :: "string list"
  wr_error :: string

record writer_world =
  ww_account :: string
  ww_id :: "string \<Rightarrow> string \<Rightarrow> int \<Rightarrow> string \<Rightarrow> string"
  ww_hash :: "string \<Rightarrow> string"
  ww_parse :: "string \<Rightarrow> (int \<times> int) res"

type_synonym 'a writer_io = "('a, writer) io"

text \<open>The names of an error and of its causes.\<close>

definition confirmedContractRevert :: "string list \<Rightarrow> bool" where
  "confirmedContractRevert causes \<longleftrightarrow>
     list_ex (\<lambda>n. n \<in> set [''ExecutionRevertedError'', ''ContractFunctionRevertedError'']) (take 10 causes)"

datatype simulation = Accepts | Refuses "string list"

subsection \<open>Intake\<close>

definition live_call :: "chain_operation \<Rightarrow> bool" where
  "live_call c \<longleftrightarrow> co_status c = Queued \<or> co_status c = InFlight"

definition same_call :: "string \<Rightarrow> string \<Rightarrow> int \<Rightarrow> chain_operation \<Rightarrow> bool" where
  "same_call target calldata value c \<longleftrightarrow> co_target c = lower target \<and> co_data c = calldata \<and> co_value c = value \<and> live_call c"

definition busy :: "writer \<Rightarrow> bool" where
  "busy w \<longleftrightarrow> 200 \<le> length (filter (\<lambda>c. co_status c = Queued) (wr_ops w))"

definition busy_error :: string where
  "busy_error = ''Sponsoring is busy. Your wallet has not been charged.''"

definition find_call :: "string \<Rightarrow> writer \<Rightarrow> chain_operation option" where
  "find_call i w = find (\<lambda>c. co_id c = i) (wr_ops w)"

text \<open>The last part of a request, in one transaction under the intake lock.\<close>

definition intake :: "writer_world \<Rightarrow> string \<Rightarrow> string \<Rightarrow> int \<Rightarrow> int \<Rightarrow> string \<Rightarrow> chain_operation writer_io" where
  "intake W target calldata value priority context =
    (let i = ww_id W target calldata value context in
     ibind (gets (\<lambda>w. find (\<lambda>c. co_id c = i \<or> same_call target calldata value c) (wr_ops w))) (\<lambda>existing.
     case existing of Some c \<Rightarrow> ret c
     | None \<Rightarrow>
       ibind (gets busy) (\<lambda>b.
       ibind (iguard busy_error (\<not> b)) (\<lambda>_.
       let c = \<lparr>co_id = i, co_target = lower target, co_data = calldata, co_value = value, co_priority = priority,
                co_status = Queued, co_hash = None, co_error = None\<rparr> in
       ibind (modify (\<lambda>w. w\<lparr>wr_ops := wr_ops w @ [c]\<rparr>)) (\<lambda>_. ret c)))))"

text \<open>A request; \<open>others\<close> is what the rest of the program does while the call is simulated.\<close>

definition enqueue ::
    "writer_world \<Rightarrow> simulation \<Rightarrow> (writer \<Rightarrow> writer) \<Rightarrow> string \<Rightarrow> string \<Rightarrow> int \<Rightarrow> int \<Rightarrow> string \<Rightarrow> chain_operation writer_io" where
  "enqueue W sim others target calldata value priority context =
    ibind (gets (find_call (ww_id W target calldata value context))) (\<lambda>old.
    case old of Some c \<Rightarrow> ret c
    | None \<Rightarrow>
      ibind (gets (\<lambda>w. find (same_call target calldata value) (wr_ops w))) (\<lambda>inFlight.
      case inFlight of Some c \<Rightarrow> ret c
      | None \<Rightarrow>
        ibind (gets busy) (\<lambda>b.
        ibind (iguard busy_error (\<not> b)) (\<lambda>_.
        ibind (case sim of Accepts \<Rightarrow> ret ()
          | Refuses causes \<Rightarrow> throw (if confirmedContractRevert causes
              then ''The contract rejected this action. Reload before retrying.'' else ''Call failed'')) (\<lambda>_.
        ibind (modify others) (\<lambda>_.
        intake W target calldata value priority context))))))"

subsection \<open>Observation\<close>

definition settle_entry :: "string \<Rightarrow> entry_state \<Rightarrow> journal_entry list \<Rightarrow> journal_entry list" where
  "settle_entry i st jobs = map (\<lambda>j. if je_id j = i \<and> je_status j = JSigned then j\<lparr>je_status := st\<rparr> else j) jobs"

definition settle_call :: "string \<Rightarrow> bool \<Rightarrow> chain_operation \<Rightarrow> chain_operation" where
  "settle_call hash ok c = (if co_hash c = Some hash \<and> live_call c
     then c\<lparr>co_status := (if ok then Executed else NotExecuted),
       co_error := (if ok then None else Some ''Transaction reverted. Reload the contract state before retrying.'')\<rparr> else c)"

text \<open>A receipt is its transaction hash and whether it succeeded.  One that cannot be read, or that belongs to
  another transaction, leaves its entry.\<close>

definition observe_entry :: "(string \<Rightarrow> (string \<times> bool) res) \<Rightarrow> journal_entry \<Rightarrow> writer \<Rightarrow> writer" where
  "observe_entry receipt j w = (case receipt (je_hash j) of Inl _ \<Rightarrow> w
     | Inr (hash, ok) \<Rightarrow>
       if lower hash \<noteq> lower (je_hash j) then w
       else w\<lparr>wr_jobs := settle_entry (je_id j) (if ok then JExecuted else JReverted) (wr_jobs w),
              wr_ops := map (settle_call (je_hash j) ok) (wr_ops w)\<rparr>)"

definition open_entries :: "writer_world \<Rightarrow> writer \<Rightarrow> journal_entry list" where
  "open_entries W w = sort_key je_nonce (filter (\<lambda>j. je_owner j = lower (ww_account W) \<and> je_status j = JSigned) (wr_jobs w))"

definition observe_receipts :: "writer_world \<Rightarrow> (string \<Rightarrow> (string \<times> bool) res) \<Rightarrow> writer \<Rightarrow> writer" where
  "observe_receipts W receipt w = fold (observe_entry receipt) (take 8 (open_entries W w)) w"

definition own_id :: "string \<Rightarrow> string" where
  "own_id i = ''independent:'' @ i"

definition entry_call_state :: "entry_state \<Rightarrow> call_state" where
  "entry_call_state st = (case st of JSigned \<Rightarrow> InFlight | JExecuted \<Rightarrow> Executed | JReverted \<Rightarrow> NotExecuted)"

text \<open>The rows of calls that a crash left behind their journal entries.\<close>

definition link_call :: "journal_entry list \<Rightarrow> chain_operation \<Rightarrow> chain_operation" where
  "link_call jobs c =
    (case find (\<lambda>j. je_id j = own_id (co_id c)) jobs of None \<Rightarrow> c
     | Some j \<Rightarrow>
       if live_call c \<and> (co_status c \<noteq> entry_call_state (je_status j) \<or> co_hash c \<noteq> Some (je_hash j))
       then c\<lparr>co_status := entry_call_state (je_status j), co_hash := Some (je_hash j)\<rparr> else c)"

definition link_calls :: "writer \<Rightarrow> writer" where
  "link_calls w = w\<lparr>wr_ops := map (link_call (wr_jobs w)) (wr_ops w)\<rparr>"

definition observe_queue :: "writer_world \<Rightarrow> (string \<Rightarrow> (string \<times> bool) res) \<Rightarrow> writer \<Rightarrow> writer" where
  "observe_queue W receipt w =
    (let none = open_entries W w = []; w = link_calls (observe_receipts W receipt w) in
     if none then w\<lparr>wr_error := []\<rparr> else w)"

subsection \<open>Dispatch\<close>

record dispatch_answers =
  da_locked :: "bool res"
  da_pendingNonce :: "int res"
  da_latestNonce :: "int res"
  da_simulate :: simulation
  da_sign :: "chain_operation \<Rightarrow> int \<Rightarrow> string res"
  da_saved :: "unit res"
  da_send :: "unit res"

definition send_entry :: "dispatch_answers \<Rightarrow> string \<Rightarrow> unit writer_io" where
  "send_entry A raw = ibind (modify (\<lambda>w. w\<lparr>wr_sent := wr_sent w @ [raw]\<rparr>)) (\<lambda>_. lift (da_send A))"

text \<open>A signed entry of this queue is sent again after its bytes were compared with the journal; the entries of
  other writers of the account only block.\<close>

definition resend :: "writer_world \<Rightarrow> dispatch_answers \<Rightarrow> journal_entry \<Rightarrow> unit writer_io" where
  "resend W A j =
    (if \<not> starts_with ''independent:'' (je_id j) then ret ()
     else
       ibind (iguard ''Operator journal hash mismatch'' (ww_hash W (je_raw j) = je_hash j)) (\<lambda>_.
       ibind (lift (ww_parse W (je_raw j))) (\<lambda>(chainId, nonce).
       ibind (iguard ''Operator journal identity mismatch'' (chainId = 10143 \<and> nonce = je_nonce j)) (\<lambda>_.
       send_entry A (je_raw j)))))"

text \<open>The journal has one row per id and one per account and nonce.\<close>

definition insert_entry :: "journal_entry \<Rightarrow> unit writer_io" where
  "insert_entry j =
    ibind (gets wr_jobs) (\<lambda>jobs.
    ibind (iguard ''duplicate key'' (\<not> list_ex (\<lambda>k. je_id k = je_id j \<or> je_owner k = je_owner j \<and> je_nonce k = je_nonce j) jobs)) (\<lambda>_.
    modify (\<lambda>w. w\<lparr>wr_jobs := wr_jobs w @ [j]\<rparr>)))"

definition update_call :: "string \<Rightarrow> (chain_operation \<Rightarrow> chain_operation) \<Rightarrow> unit writer_io" where
  "update_call i f = modify (\<lambda>w. w\<lparr>wr_ops := map (\<lambda>c. if co_id c = i then f c else c) (wr_ops w)\<rparr>)"

definition simulate_call :: "dispatch_answers \<Rightarrow> chain_operation \<Rightarrow> unit writer_io" where
  "simulate_call A c = (case da_simulate A of Accepts \<Rightarrow> ret ()
     | Refuses causes \<Rightarrow>
       ibind (if confirmedContractRevert causes
         then update_call (co_id c) (\<lambda>c. if co_status c = Queued
           then c\<lparr>co_status := NotExecuted, co_error := Some ''The action is no longer valid. Refresh its contract state.''\<rparr> else c)
         else ret ()) (\<lambda>_. throw ''Call failed''))"

definition sign_and_send :: "writer_world \<Rightarrow> dispatch_answers \<Rightarrow> chain_operation \<Rightarrow> unit writer_io" where
  "sign_and_send W A c =
    ibind (lift (da_pendingNonce A)) (\<lambda>n.
    ibind (lift (da_latestNonce A)) (\<lambda>latest.
    ibind (iguard ''Existing operator transaction needs reconciliation'' (n = latest)) (\<lambda>_.
    ibind (simulate_call A c) (\<lambda>_.
    ibind (lift (da_sign A c n)) (\<lambda>raw.
    let hash = ww_hash W raw in
    ibind (insert_entry \<lparr>je_id = own_id (co_id c), je_owner = lower (ww_account W), je_nonce = n, je_raw = raw,
      je_hash = hash, je_status = JSigned\<rparr>) (\<lambda>_.
    ibind (lift (da_saved A)) (\<lambda>_.
    ibind (update_call (co_id c) (\<lambda>c. c\<lparr>co_status := InFlight, co_hash := Some hash\<rparr>)) (\<lambda>_.
    ibind (send_entry A raw) (\<lambda>_.
    modify (\<lambda>w. w\<lparr>wr_error := []\<rparr>))))))))))"

definition first_queued :: "writer \<Rightarrow> chain_operation option" where
  "first_queued w = (case sort_key co_priority (filter (\<lambda>c. co_status c = Queued) (wr_ops w)) of [] \<Rightarrow> None | c # _ \<Rightarrow> Some c)"

definition dispatch_queue :: "writer_world \<Rightarrow> dispatch_answers \<Rightarrow> unit writer_io" where
  "dispatch_queue W A =
    catch
      (ibind (lift (da_locked A)) (\<lambda>locked.
       if \<not> locked then ret ()
       else ibind (gets (open_entries W)) (\<lambda>entries.
         case entries of j # _ \<Rightarrow> resend W A j
         | [] \<Rightarrow> ibind (gets first_queued) (\<lambda>row. case row of None \<Rightarrow> ret () | Some c \<Rightarrow> sign_and_send W A c))))
      (\<lambda>_. modify (\<lambda>w. w\<lparr>wr_error := ''Sponsor is reconciling a pending operation. Gameplay observations continue.''\<rparr>))"

subsection \<open>Every run\<close>

text \<open>The steps of the program that change the tables, and the entries other services of the account insert
  under names of their own.\<close>

datatype writer_event =
    Intake string string int int string
  | ObserveReceipts "string \<Rightarrow> (string \<times> bool) res"
  | Link
  | Dispatch dispatch_answers
  | OtherEntry journal_entry

definition writer_step :: "writer_world \<Rightarrow> writer_event \<Rightarrow> writer \<Rightarrow> writer" where
  "writer_step W e w = (case e of
     Intake target calldata value priority context \<Rightarrow> snd (intake W target calldata value priority context w)
   | ObserveReceipts receipt \<Rightarrow> observe_receipts W receipt w
   | Link \<Rightarrow> link_calls w
   | Dispatch A \<Rightarrow> snd (dispatch_queue W A w)
   | OtherEntry j \<Rightarrow> if starts_with ''independent:'' (je_id j) then w else snd (insert_entry j w))"

definition empty_queue :: writer where
  "empty_queue = \<lparr>wr_ops = [], wr_jobs = [], wr_sent = [], wr_error = []\<rparr>"

definition run_queue :: "writer_world \<Rightarrow> writer_event list \<Rightarrow> writer" where
  "run_queue W es = fold (writer_step W) es empty_queue"
















subsection \<open>Steps\<close>









subsection \<open>Dispatches\<close>

















text \<open>A crash between the entry and its row is repaired, and the rest of a request is what \<^verbatim>\<open>enqueue\<close> adds.\<close>

lemma enqueue_is_intake:
  "fst (enqueue W sim id target calldata value priority context w) = Inr c \<Longrightarrow>
   snd (enqueue W sim id target calldata value priority context w) = w
   \<or> enqueue W sim id target calldata value priority context w = intake W target calldata value priority context w"
  by (auto simp add: enqueue_def ibind_def io_simps split: option.splits if_splits simulation.splits)

text \<open>The window of the repair.  The process dies between the entry and its row; the entry is sent again and its
  receipt recorded; when a dispatch runs before the row is linked, its simulation is of a call that was executed,
  and the row is retired as not valid for ever although its transaction succeeded.\<close>

definition sample_writer :: writer_world where
  "sample_writer = \<lparr>ww_account = ''op'', ww_id = (\<lambda>target calldata value context. target @ calldata), ww_hash = (\<lambda>raw. ''h'' @ raw),
     ww_parse = (\<lambda>raw. Inr (10143, 7))\<rparr>"

definition sample_dispatch :: "simulation \<Rightarrow> unit res \<Rightarrow> dispatch_answers" where
  "sample_dispatch sim saved = \<lparr>da_locked = Inr True, da_pendingNonce = Inr 7, da_latestNonce = Inr 7, da_simulate = sim,
     da_sign = (\<lambda>c n. Inr ''raw''), da_saved = saved, da_send = Inr ()\<rparr>"

lemma sponsored_run:
  "let w = run_queue sample_writer [Intake ''a'' ''d'' 0 1 [], Dispatch (sample_dispatch Accepts (Inr ())),
      ObserveReceipts (\<lambda>h. Inr (h, True)), Link] in
    map co_status (wr_ops w) = [Executed] \<and> wr_sent w = [''raw'']"
  by code_simp

lemma executed_call_retired:
  "let w = run_queue sample_writer [Intake ''a'' ''d'' 0 1 [], Dispatch (sample_dispatch Accepts (Inl ''crash'')),
      Dispatch (sample_dispatch Accepts (Inr ())), ObserveReceipts (\<lambda>h. Inr (h, True)),
      Dispatch (sample_dispatch (Refuses [''ExecutionRevertedError'']) (Inr ())), Link] in
    map co_status (wr_ops w) = [NotExecuted] \<and> map je_status (wr_jobs w) = [JExecuted] \<and> wr_sent w = [''raw'']"
  by code_simp

end
