(* ===== verification/Arena_Engine.thy ===== *)
theory Arena_Engine
  imports Io_Monad Service_Errors Engine_Journal
begin

text \<open>
  \<^verbatim>\<open>relayer/src/independent-engine.ts\<close>: the writer of one arena.  The state is its binding to a match and an
  epoch, the time of the last failed publication with its durable copy, the rows of the application in the
  journal, and the transactions that were sent to the node.  Commands exclude each other; what the other parties answer
  during one command is a record.  Whether the cached state of the match must be read again is a flag.
\<close>

record arena_engine =
  ar_match :: int
  ar_epoch :: int
  ar_failedAt :: int
  ar_health :: "int \<rightharpoonup> int"
  ar_jobs :: "engine_job list"
  ar_sent :: "string list"
  ar_dirty :: bool
  ar_watching :: "int option"

record arena_world =
  aw_app :: string
  aw_signer :: string
  aw_reader :: tx_reader
  aw_data :: "string \<Rightarrow> string"
  aw_key :: "string \<Rightarrow> string"

record send_answers =
  sa_now :: int
  sa_locked :: "bool res"
  sa_simulate :: "js_error + unit"
  sa_nonce :: "js_error + int"
  sa_sign :: "int \<Rightarrow> string \<Rightarrow> string res"
  sa_id :: string
  sa_receipt :: "engine_receipt option res"
  sa_send :: "js_error + engine_receipt option"

datatype arena_reply = ReadAgain | ByReceiptOf engine_receipt

type_synonym 'a arena_io = "('a, arena_engine) io"

definition bind_arena :: "int \<Rightarrow> int \<Rightarrow> arena_engine \<Rightarrow> bool \<times> arena_engine" where
  "bind_arena i nextEpoch s =
    (if ar_match s = i \<and> ar_epoch s = nextEpoch then (False, s)
     else (True, s\<lparr>ar_match := i, ar_epoch := nextEpoch, ar_failedAt := 0, ar_dirty := True,
       ar_watching := (if i \<noteq> 0 \<and> nextEpoch \<noteq> 0 then Some i else None)\<rparr>))"

text \<open>An error of the node.  One that says that publication is unavailable is recorded before it is thrown.\<close>

definition node_error :: "int \<Rightarrow> js_error \<Rightarrow> 'a arena_io" where
  "node_error now e =
    ibind (if publicationUnavailable e
      then modify (\<lambda>s. s\<lparr>ar_failedAt := now, ar_health := (ar_health s)(ar_epoch s \<mapsto> now)\<rparr>) else ret ())
    (\<lambda>_. throw (case e of [] \<Rightarrow> [] | c # _ \<Rightarrow> ei_message c))"

definition from_node :: "int \<Rightarrow> js_error + 'a \<Rightarrow> 'a arena_io" where
  "from_node now r = (case r of Inl e \<Rightarrow> node_error now e | Inr x \<Rightarrow> ret x)"

definition request_key :: "arena_world \<Rightarrow> string \<Rightarrow> string \<Rightarrow> string option" where
  "request_key W name calldata = (if name = ''revokeActive'' \<or> name = ''renewActive'' then Some (aw_key W calldata) else None)"

definition previous_request :: "string option \<Rightarrow> arena_engine \<Rightarrow> engine_job option" where
  "previous_request key s = (case key of None \<Rightarrow> None
     | Some k \<Rightarrow> find (\<lambda>j. ej_epoch j = ar_epoch s \<and> ej_request j = Some k \<and> ej_status j = EConfirmed) (ar_jobs s))"

definition oldest_pending :: "arena_engine \<Rightarrow> engine_job option" where
  "oldest_pending s = (case sort_key (\<lambda>j. (ej_epoch j, ej_nonce j)) (filter (\<lambda>j. ej_status j = EPending) (ar_jobs s)) of
     [] \<Rightarrow> None | j # _ \<Rightarrow> Some j)"

text \<open>A new entry: simulated, signed and journaled; the journal has one row per id and one per epoch and nonce.\<close>

definition new_command :: "arena_world \<Rightarrow> send_answers \<Rightarrow> string \<Rightarrow> string \<Rightarrow> string option \<Rightarrow> engine_job arena_io" where
  "new_command W A name calldata key =
    ibind (from_node (sa_now A) (sa_simulate A)) (\<lambda>_.
    ibind (from_node (sa_now A) (sa_nonce A)) (\<lambda>n.
    ibind (lift (sa_sign A n calldata)) (\<lambda>raw.
    ibind (gets (\<lambda>s. s)) (\<lambda>s.
    let job = \<lparr>ej_id = sa_id A, ej_epoch = ar_epoch s, ej_nonce = n, ej_raw = raw, ej_hash = tr_hash (aw_reader W) raw,
               ej_app = lower (aw_app W), ej_status = EPending, ej_action = Some name, ej_match = Some (ar_match s),
               ej_resolution = None, ej_request = key\<rparr> in
    ibind (iguard ''duplicate key'' (\<not> list_ex (\<lambda>j. ej_id j = ej_id job \<or> ej_epoch j = ej_epoch job \<and> ej_nonce j = n) (ar_jobs s))) (\<lambda>_.
    ibind (modify (\<lambda>s. s\<lparr>ar_jobs := ar_jobs s @ [job]\<rparr>)) (\<lambda>_. ret job))))))"

definition arena_actions :: "string list" where
  "arena_actions = [''tick'', ''submitPressure'', ''revokeActive'', ''renewActive'']"

text \<open>The journaled command is sent unless its receipt is known, and resolved by its receipt.\<close>

definition command_receipt :: "send_answers \<Rightarrow> engine_job \<Rightarrow> engine_receipt option arena_io" where
  "command_receipt A job = (case sa_receipt A of
       Inr (Some r) \<Rightarrow> ret (Some r)
     | _ \<Rightarrow> ibind (modify (\<lambda>s. s\<lparr>ar_sent := ar_sent s @ [ej_raw job]\<rparr>)) (\<lambda>_. from_node (sa_now A) (sa_send A)))"

definition resolve_command :: "string \<Rightarrow> engine_status \<Rightarrow> engine_receipt \<Rightarrow> string \<Rightarrow> arena_engine \<Rightarrow> arena_engine" where
  "resolve_command i outcome r hash s = s\<lparr>ar_jobs := map (\<lambda>j. if ej_id j = i
     then j\<lparr>ej_status := outcome, ej_resolution := Some (ByReceipt hash (er_blockHash r) (er_status r))\<rparr> else j) (ar_jobs s)\<rparr>"

definition finish_command :: "arena_world \<Rightarrow> send_answers \<Rightarrow> string \<Rightarrow> engine_job \<Rightarrow> arena_reply arena_io" where
  "finish_command W A calldata job =
    ibind (lift (engineJobIdentity (aw_reader W) job (aw_signer W))) (\<lambda>(action, i).
    ibind (iguard ''Unexpected arena operation'' (action \<in> set arena_actions)) (\<lambda>_.
    ibind (command_receipt A job) (\<lambda>receipt.
    ibind (lift (engineReceiptOutcome receipt (ej_hash job))) (\<lambda>outcome.
    case outcome of None \<Rightarrow> throw ''Command receipt is not yet available''
    | Some st \<Rightarrow>
      ibind (modify (resolve_command (ej_id job) st (the receipt) (ej_hash job))) (\<lambda>_.
      if st = EFailed then ibind (modify (\<lambda>s. s\<lparr>ar_dirty := True\<rparr>)) (\<lambda>_. throw ''Command reverted. Reading current arena state.'')
      else if aw_data W (ej_raw job) \<noteq> calldata
      then ibind (modify (\<lambda>s. s\<lparr>ar_dirty := True\<rparr>)) (\<lambda>_. throw ''Previous command reconciled. Refresh before the next action.'')
      else ibind (modify (\<lambda>s. s\<lparr>ar_failedAt := 0, ar_health := (ar_health s)(ar_epoch s := None)\<rparr>)) (\<lambda>_.
        ret (ByReceiptOf (the receipt))))))))"

definition send_command :: "arena_world \<Rightarrow> send_answers \<Rightarrow> string \<Rightarrow> string \<Rightarrow> arena_reply arena_io" where
  "send_command W A name calldata =
    ibind (lift (sa_locked A)) (\<lambda>locked.
    ibind (iguard ''Arena writer is busy'' locked) (\<lambda>_.
    let key = request_key W name calldata in
    ibind (gets (previous_request key)) (\<lambda>previous.
    case previous of Some _ \<Rightarrow> ibind (modify (\<lambda>s. s\<lparr>ar_dirty := True\<rparr>)) (\<lambda>_. ret ReadAgain)
    | None \<Rightarrow>
      ibind (gets oldest_pending) (\<lambda>pending.
      ibind (gets ar_epoch) (\<lambda>epoch.
      ibind (iguard ''Previous epoch command requires final closure'' (case pending of None \<Rightarrow> True | Some j \<Rightarrow> ej_epoch j = epoch)) (\<lambda>_.
      ibind (case pending of Some j \<Rightarrow> ret j | None \<Rightarrow> new_command W A name calldata key) (\<lambda>job.
      finish_command W A calldata job)))))))"

definition restoreHealth :: "arena_engine \<Rightarrow> arena_engine" where
  "restoreHealth s = s\<lparr>ar_failedAt := (case ar_health s (ar_epoch s) of None \<Rightarrow> 0 | Some t \<Rightarrow> t)\<rparr>"

definition reconcile_arena :: "(string \<Rightarrow> engine_receipt option res) \<Rightarrow> arena_engine \<Rightarrow> arena_engine" where
  "reconcile_arena receipt s = s\<lparr>ar_jobs := snd (reconcileEngineJobs receipt (ar_jobs s))\<rparr>"

definition retire :: "int \<Rightarrow> arena_engine \<Rightarrow> arena_engine" where
  "retire closedEpoch s = s\<lparr>ar_jobs := map (\<lambda>j. if ej_epoch j = closedEpoch \<and> unresolved j
     then j\<lparr>ej_status := EObsolete\<rparr> else j) (ar_jobs s)\<rparr>"

subsection \<open>Every run\<close>

datatype arena_event =
    Bind int int
  | Send send_answers string string
  | RestoreHealth
  | Reconcile "string \<Rightarrow> engine_receipt option res"
  | Retire int

definition arena_step :: "arena_world \<Rightarrow> arena_event \<Rightarrow> arena_engine \<Rightarrow> arena_engine" where
  "arena_step W e s = (case e of Bind i epoch \<Rightarrow> snd (bind_arena i epoch s)
     | Send A name calldata \<Rightarrow> snd (send_command W A name calldata s)
     | RestoreHealth \<Rightarrow> restoreHealth s
     | Reconcile receipt \<Rightarrow> reconcile_arena receipt s
     | Retire epoch \<Rightarrow> retire epoch s)"

definition new_arena :: arena_engine where
  "new_arena = \<lparr>ar_match = 0, ar_epoch = 0, ar_failedAt = 0, ar_health = (\<lambda>_. None), ar_jobs = [], ar_sent = [],
     ar_dirty = False, ar_watching = None\<rparr>"

definition run_arena :: "arena_world \<Rightarrow> arena_event list \<Rightarrow> arena_engine" where
  "run_arena W es = fold (arena_step W) es new_arena"

text \<open>The bytes of an entry are a command of this service for this application.\<close>

definition authentic_command :: "arena_world \<Rightarrow> engine_job \<Rightarrow> bool" where
  "authentic_command W j \<longleftrightarrow> (case engineJobIdentity (aw_reader W) j (aw_signer W) of
     Inr (action, _) \<Rightarrow> action \<in> set arena_actions | Inl _ \<Rightarrow> False)"

definition arena_ok :: "arena_world \<Rightarrow> arena_engine \<Rightarrow> bool" where
  "arena_ok W s \<longleftrightarrow> length (filter (\<lambda>j. ej_status j = EPending) (ar_jobs s)) \<le> 1
     \<and> distinct (map ej_id (ar_jobs s)) \<and> distinct (map (\<lambda>j. (ej_epoch j, ej_nonce j)) (ar_jobs s))
     \<and> (\<forall>j \<in> set (ar_jobs s). ej_status j \<noteq> EConfirmed)
     \<and> (\<forall>raw \<in> set (ar_sent s). \<exists>j \<in> set (ar_jobs s). ej_raw j = raw \<and> authentic_command W j)"

text \<open>An update of the states of the entries.\<close>

definition command_later :: "engine_job \<Rightarrow> engine_job \<Rightarrow> bool" where
  "command_later j k \<longleftrightarrow> ej_id k = ej_id j \<and> ej_epoch k = ej_epoch j \<and> ej_nonce k = ej_nonce j \<and> ej_raw k = ej_raw j
     \<and> ej_hash k = ej_hash j \<and> ej_app k = ej_app j \<and> (ej_status k = ej_status j \<or> ej_status k \<in> {EObserved, EFailed, EObsolete})"

lemma command_later_refl: "command_later j j"
  by (simp add: command_later_def)

lemma authentic_later: "command_later j k \<Longrightarrow> authentic_command W k = authentic_command W j"
  by (simp add: command_later_def authentic_command_def engineJobIdentity_def)

lemma later_pending:
  "list_all2 command_later xs ys \<Longrightarrow>
   length (filter (\<lambda>j. ej_status j = EPending) ys) \<le> length (filter (\<lambda>j. ej_status j = EPending) xs)"
  by (induction rule: list_all2_induct) (auto simp add: command_later_def)

lemma later_columns:
  "list_all2 command_later xs ys \<Longrightarrow>
   map ej_id ys = map ej_id xs \<and> map (\<lambda>j. (ej_epoch j, ej_nonce j)) ys = map (\<lambda>j. (ej_epoch j, ej_nonce j)) xs"
  by (induction rule: list_all2_induct) (auto simp add: command_later_def)

lemma later_member:
  "list_all2 command_later xs ys \<Longrightarrow> j \<in> set xs \<Longrightarrow> \<exists>k \<in> set ys. command_later j k"
  "list_all2 command_later xs ys \<Longrightarrow> k \<in> set ys \<Longrightarrow> \<exists>j \<in> set xs. command_later j k"
  by (metis list_all2_conv_all_nth in_set_conv_nth)+

lemma arena_ok_later:
  assumes "arena_ok W s" "list_all2 command_later (ar_jobs s) (ar_jobs s')" "ar_sent s' = ar_sent s"
  shows "arena_ok W s'"
proof -
  have "ej_status k \<noteq> EConfirmed" if "k \<in> set (ar_jobs s')" for k
    using later_member(2) [OF assms(2) that] assms(1) by (auto simp add: arena_ok_def command_later_def)
  moreover have "\<exists>k \<in> set (ar_jobs s'). ej_raw k = raw \<and> authentic_command W k" if "raw \<in> set (ar_sent s')" for raw
  proof -
    have "raw \<in> set (ar_sent s)" using that by (simp only: assms(3))
    then obtain j where j: "j \<in> set (ar_jobs s)" "ej_raw j = raw" "authentic_command W j"
      using assms(1) unfolding arena_ok_def by blast
    obtain k where k: "k \<in> set (ar_jobs s')" "command_later j k" using later_member(1) [OF assms(2) j(1)] by blast
    have "ej_raw k = raw" "authentic_command W k" using k(2) j authentic_later [OF k(2)] by (auto simp add: command_later_def)
    with k(1) show ?thesis by blast
  qed
  ultimately show ?thesis
    using assms(1) later_pending [OF assms(2)] later_columns [OF assms(2)] by (auto simp add: arena_ok_def)
qed

lemma arena_ok_map:
  assumes "arena_ok W s" "\<And>j. j \<in> set (ar_jobs s) \<Longrightarrow> command_later j (f j)" "ar_jobs s' = map f (ar_jobs s)" "ar_sent s' = ar_sent s"
  shows "arena_ok W s'"
  by (rule arena_ok_later [OF assms(1) _ assms(4)]) (simp add: assms(2,3) list_all2_map2 list_all2_same)

lemma arena_ok_cong: "ar_jobs s' = ar_jobs s \<Longrightarrow> ar_sent s' = ar_sent s \<Longrightarrow> arena_ok W s \<Longrightarrow> arena_ok W s'"
  by (simp add: arena_ok_def)

lemma reconcile_later: "list_all2 command_later jobs (snd (reconcileEngineJobs receipt jobs))"
  using reconcile_resolves by (rule list_all2_mono) (auto simp add: resolves_def command_later_def dest: outcome_resolved)

subsection \<open>Commands\<close>

text \<open>Between its journaling and its resolution a command is an open entry.\<close>

definition open_entry :: "arena_world \<Rightarrow> engine_job \<Rightarrow> arena_engine \<Rightarrow> bool" where
  "open_entry W job s \<longleftrightarrow> arena_ok W s \<and> job \<in> set (ar_jobs s)"

lemma node_error_ok:
  assumes "\<And>s failed health. I (s\<lparr>ar_failedAt := failed, ar_health := health\<rparr>) = I s"
  shows "keeps I (from_node now r)"
  unfolding from_node_def node_error_def
  by (cases r) (auto intro!: keeps_bind keeps_basic keeps_if keeps_modify simp add: assms)

lemma arena_ok_fields [simp]:
  "arena_ok W (s\<lparr>ar_failedAt := a, ar_health := h\<rparr>) = arena_ok W s"
  "arena_ok W (s\<lparr>ar_dirty := d\<rparr>) = arena_ok W s"
  by (simp_all add: arena_ok_def)

lemma open_entry_fields [simp]:
  "open_entry W j (s\<lparr>ar_failedAt := a, ar_health := h\<rparr>) = open_entry W j s"
  by (simp add: open_entry_def)

lemma open_arena: "open_entry W j s \<Longrightarrow> arena_ok W s"
  by (simp add: open_entry_def)

lemma command_receipt_ok:
  assumes "authentic_command W job"
  shows "triple (open_entry W job) (command_receipt A job) (\<lambda>_. open_entry W job) (arena_ok W)"
proof -
  have sent: "triple (open_entry W job) (modify (\<lambda>s. s\<lparr>ar_sent := ar_sent s @ [ej_raw job]\<rparr>)) (\<lambda>_. open_entry W job) (arena_ok W)"
    by (rule triple_modify) (use assms in \<open>auto simp add: open_entry_def arena_ok_def\<close>)
  have answer: "triple (open_entry W job) (from_node (sa_now A) (sa_send A)) (\<lambda>_. open_entry W job) (arena_ok W)"
    by (rule triple_weaken [OF node_error_ok [unfolded keeps_def, of "open_entry W job"]]) (simp_all add: open_arena)
  have "triple (open_entry W job) (ibind (modify (\<lambda>s. s\<lparr>ar_sent := ar_sent s @ [ej_raw job]\<rparr>))
      (\<lambda>_. from_node (sa_now A) (sa_send A))) (\<lambda>_. open_entry W job) (arena_ok W)"
    by (rule triple_bind [OF sent answer])
  then show ?thesis by (auto simp add: command_receipt_def triple_ret split: sum.split option.split)
qed

lemma resolve_later: "st \<in> {EObserved, EFailed} \<Longrightarrow> arena_ok W s \<Longrightarrow> arena_ok W (resolve_command i st r hash s)"
  by (rule arena_ok_map [where f = "\<lambda>j. if ej_id j = i
     then j\<lparr>ej_status := st, ej_resolution := Some (ByReceipt hash (er_blockHash r) (er_status r))\<rparr> else j"])
     (auto simp add: resolve_command_def command_later_def)

text \<open>An acknowledged command was executed: its own bytes, under its hash, with the outcome in the journal.\<close>

definition acknowledged :: "arena_world \<Rightarrow> string \<Rightarrow> engine_receipt \<Rightarrow> arena_engine \<Rightarrow> bool" where
  "acknowledged W calldata r s \<longleftrightarrow> (\<exists>j \<in> set (ar_jobs s). aw_data W (ej_raw j) = calldata \<and> ej_status j = EObserved
     \<and> authentic_command W j \<and> map_option lower (er_hash r) = Some (lower (ej_hash j)))"

definition answered :: "arena_world \<Rightarrow> string \<Rightarrow> arena_reply \<Rightarrow> arena_engine \<Rightarrow> bool" where
  "answered W calldata reply s \<longleftrightarrow> arena_ok W s \<and> (case reply of ReadAgain \<Rightarrow> True | ByReceiptOf r \<Rightarrow> acknowledged W calldata r s)"

lemma resolve_acknowledges:
  assumes "open_entry W job s" "authentic_command W job" "aw_data W (ej_raw job) = calldata"
    and "map_option lower (er_hash r) = Some (lower (ej_hash job))"
  shows "acknowledged W calldata r (resolve_command (ej_id job) EObserved r (ej_hash job) s)"
proof -
  let ?k = "job\<lparr>ej_status := EObserved, ej_resolution := Some (ByReceipt (ej_hash job) (er_blockHash r) (er_status r))\<rparr>"
  have "?k \<in> set (ar_jobs (resolve_command (ej_id job) EObserved r (ej_hash job) s))"
    using assms(1) by (force simp add: open_entry_def resolve_command_def image_iff)
  moreover have "authentic_command W ?k" using assms(2) by (simp add: authentic_command_def engineJobIdentity_def)
  ultimately show ?thesis using assms(3,4) unfolding acknowledged_def by (intro bexI [of _ ?k]) simp_all
qed

lemma receipt_settles:
  assumes "authentic_command W job"
  shows "triple (open_entry W job)
    (ibind (lift (engineReceiptOutcome receipt (ej_hash job))) (\<lambda>outcome.
     case outcome of None \<Rightarrow> throw ''Command receipt is not yet available''
     | Some st \<Rightarrow>
      ibind (modify (resolve_command (ej_id job) st (the receipt) (ej_hash job))) (\<lambda>_.
      if st = EFailed then ibind (modify (\<lambda>s. s\<lparr>ar_dirty := True\<rparr>)) (\<lambda>_. throw ''Command reverted. Reading current arena state.'')
      else if aw_data W (ej_raw job) \<noteq> calldata
      then ibind (modify (\<lambda>s. s\<lparr>ar_dirty := True\<rparr>)) (\<lambda>_. throw ''Previous command reconciled. Refresh before the next action.'')
      else ibind (modify (\<lambda>s. s\<lparr>ar_failedAt := 0, ar_health := (ar_health s)(ar_epoch s := None)\<rparr>)) (\<lambda>_.
        ret (ByReceiptOf (the receipt)))))) (answered W calldata) (arena_ok W)"
proof -
  consider e where "engineReceiptOutcome receipt (ej_hash job) = Inl e" | "engineReceiptOutcome receipt (ej_hash job) = Inr None"
    | st where "engineReceiptOutcome receipt (ej_hash job) = Inr (Some st)"
    by (metis not_None_eq obj_sumE)
  then show ?thesis
  proof cases
    case (3 st)
    obtain r where r: "receipt = Some r" "map_option lower (er_hash r) = Some (lower (ej_hash job))"
      using outcome_hash [OF 3] by blast
    have st: "st = EObserved \<or> st = EFailed" using outcome_resolved [OF 3] .
    have settled: "arena_ok W (resolve_command (ej_id job) st r (ej_hash job) s)" if "open_entry W job s" for s
      using resolve_later [of st W s] st that by (auto simp add: open_entry_def)
    have ack: "acknowledged W calldata r (resolve_command (ej_id job) EObserved r (ej_hash job) s)"
      if "open_entry W job s" "aw_data W (ej_raw job) = calldata" for s
      using that assms r(2) by (intro resolve_acknowledges)
    have kept: "acknowledged W calldata r (s\<lparr>ar_failedAt := a, ar_health := h\<rparr>) = acknowledged W calldata r s" for s a h
      by (simp add: acknowledged_def)
    show ?thesis
      using 3 r(1) settled ack st kept
      by (auto simp add: triple_def ibind_units ibind_def io_simps answered_def)
  qed (auto simp add: ibind_units triple_throw open_arena)
qed

lemma finish_command_ok:
  "triple (open_entry W job) (finish_command W A calldata job) (answered W calldata) (arena_ok W)"
proof (cases "authentic_command W job")
  case False
  then have "finish_command W A calldata job s = (fst (finish_command W A calldata job s), s) \<and> \<not> is_ok (fst (finish_command W A calldata job s))" for s
    by (cases "engineJobIdentity (aw_reader W) job (aw_signer W)")
       (auto simp add: finish_command_def authentic_command_def ibind_units io_simps is_ok_simps split: prod.split)
  then show ?thesis by (intro tripleI) (metis is_ok_simps(1) fst_conv, metis open_arena snd_conv)
next
  case True
  then obtain action i where identity: "engineJobIdentity (aw_reader W) job (aw_signer W) = Inr (action, i)"
    and action: "action \<in> set arena_actions" by (auto simp add: authentic_command_def split: sum.split_asm)
  show ?thesis unfolding finish_command_def identity
    by (simp add: action ibind_units triple_bind [OF command_receipt_ok [OF True] receipt_settles [OF True]])
qed

lemma append_command:
  assumes "arena_ok W s" "filter (\<lambda>j. ej_status j = EPending) (ar_jobs s) = []" "ej_status j = EPending"
    and "\<not> list_ex (\<lambda>k. ej_id k = ej_id j \<or> ej_epoch k = ej_epoch j \<and> ej_nonce k = ej_nonce j) (ar_jobs s)"
  shows "open_entry W j (s\<lparr>ar_jobs := ar_jobs s @ [j]\<rparr>)"
  using assms by (auto simp add: open_entry_def arena_ok_def list_ex_iff)

lemma new_command_ok:
  "triple (\<lambda>s. arena_ok W s \<and> oldest_pending s = None) (new_command W A name calldata key) (open_entry W) (arena_ok W)"
proof -
  define I where "I = (\<lambda>s. arena_ok W s \<and> oldest_pending s = None)"
  have I: "I s \<Longrightarrow> arena_ok W s" for s by (simp add: I_def)
  have kept: "I (s\<lparr>ar_failedAt := a, ar_health := h\<rparr>) = I s" for s a h by (simp add: I_def oldest_pending_def)
  have node2: "triple I (from_node (sa_now A) r) (\<lambda>_. I) (arena_ok W)" for r :: "js_error + int"
    by (rule triple_weaken [OF node_error_ok [OF kept, unfolded keeps_def]]) (simp_all add: I)
  have node1: "triple I (from_node (sa_now A) r) (\<lambda>_. I) (arena_ok W)" for r :: "js_error + unit"
    by (rule triple_weaken [OF node_error_ok [OF kept, unfolded keeps_def]]) (simp_all add: I)
  have insert: "triple I (ibind (gets (\<lambda>s. s)) (\<lambda>s.
    let job = \<lparr>ej_id = sa_id A, ej_epoch = ar_epoch s, ej_nonce = n, ej_raw = raw, ej_hash = tr_hash (aw_reader W) raw,
               ej_app = lower (aw_app W), ej_status = EPending, ej_action = Some name, ej_match = Some (ar_match s),
               ej_resolution = None, ej_request = key\<rparr> in
    ibind (iguard ''duplicate key'' (\<not> list_ex (\<lambda>j. ej_id j = ej_id job \<or> ej_epoch j = ej_epoch job \<and> ej_nonce j = n) (ar_jobs s))) (\<lambda>_.
    ibind (modify (\<lambda>s. s\<lparr>ar_jobs := ar_jobs s @ [job]\<rparr>)) (\<lambda>_. ret job)))) (open_entry W) (arena_ok W)" for n raw
  proof -
    have none: "filter (\<lambda>j. ej_status j = EPending) (ar_jobs s) = []" if "I s" for s
    proof -
      have "sort_key (\<lambda>j. (ej_epoch j, ej_nonce j)) (filter (\<lambda>j. ej_status j = EPending) (ar_jobs s)) = []"
        using that by (auto simp add: I_def oldest_pending_def split: list.split_asm)
      then have "set (sort_key (\<lambda>j. (ej_epoch j, ej_nonce j)) (filter (\<lambda>j. ej_status j = EPending) (ar_jobs s))) = {}" by (simp only: set_empty)
      then show ?thesis by (auto simp add: filter_empty_conv)
    qed
    have added: "open_entry W j (s\<lparr>ar_jobs := ar_jobs s @ [j]\<rparr>)"
      if "I s" "ej_status j = EPending" "\<not> list_ex (\<lambda>k. ej_id k = ej_id j \<or> ej_epoch k = ej_epoch j \<and> ej_nonce k = ej_nonce j) (ar_jobs s)" for j s
      using that none [OF that(1)] by (intro append_command) (simp_all add: I_def)
    show ?thesis
      by (rule tripleI)
         (use added in \<open>simp_all add: ibind_def io_simps Let_def I split: if_split_asm\<close>, fastforce+)
  qed
  have "triple I (new_command W A name calldata key) (open_entry W) (arena_ok W)"
    unfolding new_command_def
    by (rule triple_bind [OF node1], rule triple_bind [OF node2], rule triple_bind [OF triple_lift [where Q = "\<lambda>_. I"] insert])
       (simp_all add: I)
  then show ?thesis unfolding I_def .
qed

lemma send_command_ok: "triple (arena_ok W) (send_command W A name calldata) (answered W calldata) (arena_ok W)"
proof -
  have job: "triple (\<lambda>s. arena_ok W s \<and> pending = oldest_pending s)
      (case pending of Some j \<Rightarrow> ret j | None \<Rightarrow> new_command W A name calldata key) (open_entry W) (arena_ok W)" for pending key
  proof (cases pending)
    case None
    then show ?thesis by (simp, intro triple_weaken [OF new_command_ok]) simp_all
  next
    case (Some j)
    have "j \<in> set (ar_jobs s)" if "Some j = oldest_pending s" for s
    proof -
      have "j \<in> set (sort_key (\<lambda>j. (ej_epoch j, ej_nonce j)) (filter (\<lambda>j. ej_status j = EPending) (ar_jobs s)))"
        using that unfolding oldest_pending_def by (simp del: set_sort split: list.split_asm)
      then show ?thesis by simp
    qed
    then show ?thesis unfolding Some option.case by (intro triple_ret) (simp add: open_entry_def)
  qed
  have body: "triple (\<lambda>s. arena_ok W s \<and> pending = oldest_pending s)
      (ibind (gets ar_epoch) (\<lambda>epoch.
      ibind (iguard ''Previous epoch command requires final closure'' (case pending of None \<Rightarrow> True | Some j \<Rightarrow> ej_epoch j = epoch)) (\<lambda>_.
      ibind (case pending of Some j \<Rightarrow> ret j | None \<Rightarrow> new_command W A name calldata key) (\<lambda>job.
      finish_command W A calldata job)))) (answered W calldata) (arena_ok W)" for pending key
  proof (rule triple_bind)
    show "triple (\<lambda>s. arena_ok W s \<and> pending = oldest_pending s) (gets ar_epoch) (\<lambda>_ s. arena_ok W s \<and> pending = oldest_pending s) (arena_ok W)"
      by (rule triple_gets) simp
    show "triple (\<lambda>s. arena_ok W s \<and> pending = oldest_pending s)
      (ibind (iguard ''Previous epoch command requires final closure'' (case pending of None \<Rightarrow> True | Some j \<Rightarrow> ej_epoch j = epoch)) (\<lambda>_.
      ibind (case pending of Some j \<Rightarrow> ret j | None \<Rightarrow> new_command W A name calldata key) (\<lambda>job.
      finish_command W A calldata job))) (answered W calldata) (arena_ok W)" for epoch
      by (rule triple_bind [OF triple_iguard [where Q = "\<lambda>_ s. arena_ok W s \<and> pending = oldest_pending s"] triple_bind [OF job finish_command_ok]]) simp_all
  qed
  have dedupe: "triple (arena_ok W) (ibind (gets (previous_request key)) (\<lambda>previous.
    case previous of Some _ \<Rightarrow> ibind (modify (\<lambda>s. s\<lparr>ar_dirty := True\<rparr>)) (\<lambda>_. ret ReadAgain)
    | None \<Rightarrow>
      ibind (gets oldest_pending) (\<lambda>pending.
      ibind (gets ar_epoch) (\<lambda>epoch.
      ibind (iguard ''Previous epoch command requires final closure'' (case pending of None \<Rightarrow> True | Some j \<Rightarrow> ej_epoch j = epoch)) (\<lambda>_.
      ibind (case pending of Some j \<Rightarrow> ret j | None \<Rightarrow> new_command W A name calldata key) (\<lambda>job.
      finish_command W A calldata job)))))) (answered W calldata) (arena_ok W)" for key
    apply (rule triple_bind, rule triple_gets [where Q = "\<lambda>_. arena_ok W"], assumption)
    apply (rule triple_case_option)
     apply (rule triple_bind [OF triple_gets body], simp)
    apply (rule triple_bind, rule triple_modify [where Q = "\<lambda>_. arena_ok W"], simp, rule triple_ret, simp add: answered_def)
    done
  show ?thesis unfolding send_command_def Let_def
    apply (rule triple_bind, rule triple_lift [where Q = "\<lambda>_. arena_ok W"], assumption, assumption)
    apply (rule triple_bind, rule triple_iguard [where Q = "\<lambda>_. arena_ok W"], assumption, assumption)
    apply (rule dedupe)
    done
qed

lemma arena_step_ok: "arena_ok W s \<Longrightarrow> arena_ok W (arena_step W e s)"
proof (cases e)
  case (Bind i epoch)
  assume "arena_ok W s"
  then show ?thesis by (simp add: Bind arena_step_def bind_arena_def arena_ok_def)
next
  case (Send A name calldata)
  assume ok: "arena_ok W s"
  obtain r t where run: "send_command W A name calldata s = (r, t)" by fastforce
  have "arena_ok W t" using tripleD [OF send_command_ok ok] run by (cases r) (auto simp add: answered_def)
  then show ?thesis by (simp add: Send arena_step_def run)
next
  case RestoreHealth
  assume "arena_ok W s"
  then show ?thesis by (simp add: RestoreHealth arena_step_def restoreHealth_def arena_ok_def)
next
  case (Reconcile receipt)
  assume "arena_ok W s"
  then show ?thesis
    by (rule arena_ok_later) (simp_all add: Reconcile arena_step_def reconcile_arena_def reconcile_later)
next
  case (Retire epoch)
  assume "arena_ok W s"
  then show ?thesis
    by (rule arena_ok_map [where f = "\<lambda>j. if ej_epoch j = epoch \<and> unresolved j then j\<lparr>ej_status := EObsolete\<rparr> else j"])
       (simp_all add: Retire arena_step_def retire_def command_later_def)
qed

lemma run_arena_ok: "arena_ok W (run_arena W es)"
proof -
  have "arena_ok W (fold (arena_step W) es s)" if "arena_ok W s" for s
    using that by (induction es arbitrary: s) (simp_all add: arena_step_ok)
  moreover have "arena_ok W new_arena" by (simp add: arena_ok_def new_arena_def)
  ultimately show ?thesis unfolding run_arena_def by blast
qed

text \<open>C27. An arena's commands are exclusive and acknowledged truthfully.  After any sequence of bindings, commands,
  reconciliations and retirements, whatever the parties answer: at most one command is unresolved, no two share a
  nonce of an epoch, and only journaled bytes were sent that are a command of this service, with no value, to
  this application.  And when the next command is acknowledged, its own bytes were executed: the journal holds
  them as observed, and the receipt carries their hash.\<close>

theorem arena_commands_exclusive:
  assumes "send_command W A name calldata (run_arena W es) = (Inr (ByReceiptOf r), s)"
  shows "length (filter (\<lambda>j. ej_status j = EPending) (ar_jobs s)) \<le> 1
    \<and> distinct (map (\<lambda>j. (ej_epoch j, ej_nonce j)) (ar_jobs s))
    \<and> (\<forall>raw \<in> set (ar_sent s). \<exists>j \<in> set (ar_jobs s). ej_raw j = raw \<and> authentic_command W j)
    \<and> (\<exists>j \<in> set (ar_jobs s). aw_data W (ej_raw j) = calldata \<and> ej_status j = EObserved \<and> authentic_command W j
        \<and> map_option lower (er_hash r) = Some (lower (ej_hash j)))"
proof -
  have "answered W calldata (ByReceiptOf r) s" using tripleD(1) [OF send_command_ok run_arena_ok assms] .
  then show ?thesis by (auto simp add: answered_def arena_ok_def acknowledged_def)
qed

text \<open>The repetition of a root-signed request is not recognised: the program looks for entries that are
  \<^verbatim>\<open>confirmed\<close>, a state no entry ever has.\<close>

lemma no_previous_request: "previous_request key (run_arena W es) = None"
proof -
  have "find (\<lambda>j. ej_epoch j = e \<and> ej_request j = Some k \<and> ej_status j = EConfirmed) (ar_jobs (run_arena W es)) = None" for e k
    using run_arena_ok [of W es] by (auto simp add: arena_ok_def find_None_iff)
  then show ?thesis by (simp add: previous_request_def split: option.split)
qed

definition sample_arena :: arena_world where
  "sample_arena = \<lparr>aw_app = ''A'', aw_signer = ''s'',
     aw_reader = \<lparr>tr_hash = (\<lambda>raw. ''H'' @ raw),
       tr_parse = (\<lambda>raw. Inr \<lparr>px_to = Some ''a'', px_eip1559 = True, px_chainId = 4242, px_value = None, px_nonce = 3\<rparr>),
       tr_signer = (\<lambda>raw. Inr ''S''), tr_call = (\<lambda>raw. Inr (''tick'', 5))\<rparr>,
     aw_data = (\<lambda>raw. raw), aw_key = (\<lambda>d. d)\<rparr>"

definition sample_send :: "js_error + engine_receipt option \<Rightarrow> send_answers" where
  "sample_send reply = \<lparr>sa_now = 0, sa_locked = Inr True, sa_simulate = Inr (), sa_nonce = Inr 3, sa_sign = (\<lambda>n d. Inr d),
     sa_id = ''job'', sa_receipt = Inr None, sa_send = reply\<rparr>"

theorem arena_commands_exclusive_witness:
  "\<exists>r s. send_command sample_arena (sample_send (Inr (Some \<lparr>er_hash = Some ''hD'', er_status = ''0x1'', er_blockHash = ''b''\<rparr>)))
      ''tick'' ''D'' (run_arena sample_arena [Bind 5 1, Send (sample_send (Inl [])) ''tick'' ''D'']) = (Inr (ByReceiptOf r), s)
    \<and> ar_sent s = [''D'', ''D''] \<and> (\<exists>j \<in> set (ar_jobs s). ej_status j = EObserved \<and> aw_data sample_arena (ej_raw j) = ''D'')"
proof -
  let ?run = "send_command sample_arena (sample_send (Inr (Some \<lparr>er_hash = Some ''hD'', er_status = ''0x1'', er_blockHash = ''b''\<rparr>)))
      ''tick'' ''D'' (run_arena sample_arena [Bind 5 1, Send (sample_send (Inl [])) ''tick'' ''D''])"
  have "case ?run of (Inr (ByReceiptOf r), s) \<Rightarrow> ar_sent s = [''D'', ''D''] | _ \<Rightarrow> False" by code_simp
  then obtain r s where run: "?run = (Inr (ByReceiptOf r), s)" and sent: "ar_sent s = [''D'', ''D'']"
    by (auto split: prod.split_asm sum.split_asm arena_reply.split_asm)
  have "\<exists>j \<in> set (ar_jobs s). ej_status j = EObserved \<and> aw_data sample_arena (ej_raw j) = ''D''"
    using arena_commands_exclusive [OF run] by blast
  with run sent show ?thesis by blast
qed

end
