(* ===== verification/Command_Journal.thy ===== *)
theory Command_Journal
  imports Io_Monad Service_Errors
begin

text \<open>
  \<^verbatim>\<open>web/lib/rooms-command-journal.ts\<close>: the journal of the signed game commands of a browser tab, which lets
  no second command of a player be signed while the outcome of one is unknown.  The state holds the stored
  rows, the epoch that was read and the two kinds of bound keys.  Hashing, parsing, the recovery of the signer
  and the decoding of calls are arguments.  Times are milliseconds, the expiry of a key seconds.
\<close>

datatype command_state = Uncertain | CommandConfirmed | CommandReverted | CommandObsolete

record command_row =
  cr_hash :: string
  cr_raw :: string
  cr_app :: string
  cr_player :: string
  cr_signer :: string
  cr_epoch :: int
  cr_nonce :: int
  cr_action :: string
  cr_match :: string
  cr_at :: int
  cr_state :: command_state

record direct_key =
  dk_key :: string
  dk_epoch :: int
  dk_match :: int
  dk_expires :: int

record control_key =
  ck_key :: string
  ck_player :: string
  ck_epoch :: int
  ck_expires :: int

record command_journal =
  cj_rows :: "command_row list"
  cj_epoch :: "int option"
  cj_direct :: "direct_key option"
  cj_controls :: "control_key option"

text \<open>A transaction; a grant; and a decoded call with its name, its first argument as a text, the match id in
  that argument, and the grant in it.\<close>

record command_tx =
  ct_chainId :: int
  ct_to :: "string option"
  ct_value :: "int option"
  ct_nonce :: int
  ct_data :: string

record session_grant =
  sg_granter :: string
  sg_key :: string
  sg_expiry :: int
  sg_anyFunction :: bool
  sg_selectors :: nat

record game_call =
  gc_name :: string
  gc_first :: string
  gc_id :: string
  gc_proof :: "session_grant res"

record command_world =
  cw_app :: string
  cw_hash :: "string \<Rightarrow> string"
  cw_parse :: "string \<Rightarrow> command_tx res"
  cw_signer :: "string \<Rightarrow> string res"
  cw_withSession :: "string \<Rightarrow> (session_grant \<times> string) option"
  cw_call :: "string \<Rightarrow> game_call res"

type_synonym 'a journal_io = "('a, command_journal) io"

definition command_pending :: "string \<Rightarrow> command_row list \<Rightarrow> command_row option" where
  "command_pending player rows = find (\<lambda>x. lower (cr_player x) = lower player \<and> cr_state x = Uncertain) rows"

definition epoch_error :: string where
  "epoch_error = ''Read the current arena before binding direct controls''"

definition bindDirect :: "string \<Rightarrow> int \<Rightarrow> int \<Rightarrow> int \<Rightarrow> unit journal_io" where
  "bindDirect key epoch i expires =
    ibind (gets cj_epoch) (\<lambda>e.
    ibind (iguard epoch_error (e = Some epoch \<and> 0 < i)) (\<lambda>_.
    modify (\<lambda>s. s\<lparr>cj_direct := Some \<lparr>dk_key = key, dk_epoch = epoch, dk_match = i, dk_expires = expires\<rparr>\<rparr>)))"

definition bindRoomControls :: "string \<Rightarrow> string \<Rightarrow> int \<Rightarrow> int \<Rightarrow> unit journal_io" where
  "bindRoomControls player key epoch expires =
    ibind (gets cj_epoch) (\<lambda>e.
    ibind (iguard epoch_error (e = Some epoch)) (\<lambda>_.
    modify (\<lambda>s. s\<lparr>cj_controls := Some \<lparr>ck_key = key, ck_player = player, ck_epoch = epoch, ck_expires = expires\<rparr>\<rparr>)))"

subsection \<open>Replies of the node\<close>

datatype node_reply = SessionReply "string option" int int | ReceiptReply "string option" string

text \<open>The first row with a given hash.\<close>

fun update_first :: "(command_row \<Rightarrow> bool) \<Rightarrow> (command_row \<Rightarrow> command_row) \<Rightarrow> command_row list \<Rightarrow> command_row list" where
  "update_first found f [] = []"
| "update_first found f (x # xs) = (if found x then f x # xs else x # update_first found f xs)"

definition received :: "command_world \<Rightarrow> node_reply \<Rightarrow> unit journal_io" where
  "received W reply = (case reply of
     SessionReply app chainId epoch \<Rightarrow>
       ibind (iguard ''Unexpected game deployment'' (map_option lower app = Some (lower (cw_app W)) \<and> chainId = 4242)) (\<lambda>_.
       modify (\<lambda>s. s\<lparr>cj_epoch := Some epoch\<rparr>))
   | ReceiptReply hash status \<Rightarrow>
       (case hash of None \<Rightarrow> ret ()
        | Some h \<Rightarrow>
          if status \<notin> set [''0x1'', ''0x0'', ''success'', ''reverted''] then ret ()
          else modify (\<lambda>s. s\<lparr>cj_rows := update_first (\<lambda>x. lower (cr_hash x) = lower h)
            (\<lambda>x. x\<lparr>cr_state := (if status \<in> set [''0x1'', ''success''] then CommandConfirmed else CommandReverted)\<rparr>) (cj_rows s)\<rparr>)))"

subsection \<open>Sending\<close>

definition session_actions :: "string list" where
  "session_actions = [''input'', ''tick'', ''concede'', ''acceptMatch'', ''cancelMatch'']"

definition control_actions :: "string list" where
  "control_actions = [''registerControls'', ''revokeControls''] @ session_actions"

definition direct_actions :: "string list" where
  "direct_actions = [''input'', ''tick'', ''concede'']"

definition known_command :: "command_world \<Rightarrow> string \<Rightarrow> command_row list \<Rightarrow> bool" where
  "known_command W raw rows \<longleftrightarrow> list_ex (\<lambda>j. cr_hash j = cw_hash W raw \<and> cr_state j = Uncertain) rows"

text \<open>Who a command acts for, in the three ways a key may be entitled.\<close>

definition wrapped_player :: "command_world \<Rightarrow> string \<Rightarrow> session_grant \<Rightarrow> string \<Rightarrow> (string \<times> game_call) res" where
  "wrapped_player W signer grant calldata =
    rbind (cw_call W calldata) (\<lambda>c.
    rbind (guard ''Non-game permission refused'' (\<not> sg_anyFunction grant \<and> gc_name c \<in> set session_actions)) (\<lambda>_.
    rbind (guard ''Game key mismatch'' (lower signer = lower (sg_key grant))) (\<lambda>_. Inr (sg_granter grant, c))))"

definition controls_player :: "command_world \<Rightarrow> int \<Rightarrow> string \<Rightarrow> string \<Rightarrow> int \<Rightarrow> command_row list \<Rightarrow> control_key \<Rightarrow> game_call \<Rightarrow> string res" where
  "controls_player W now raw signer epoch rows k c =
    rbind (guard ''Scoped game grant required'' (ck_epoch k = epoch \<and> lower signer = lower (ck_key k) \<and> gc_name c \<in> set control_actions)) (\<lambda>_.
    rbind (if gc_name c \<noteq> ''registerControls'' then Inr ()
      else rbind (gc_proof c) (\<lambda>g. guard ''Game key mismatch'' (lower (sg_granter g) = lower (ck_player k) \<and> lower (sg_key g) = lower (ck_key k)
        \<and> sg_expiry g = ck_expires k \<and> \<not> sg_anyFunction g \<and> sg_selectors g = 5))) (\<lambda>_.
    rbind (guard ''Only this arcade key can be revoked'' (gc_name c \<noteq> ''revokeControls'' \<or> lower (gc_first c) = lower (ck_key k))) (\<lambda>_.
    rbind (guard ''Arcade session expired'' (gc_name c = ''revokeControls'' \<or> now div 1000 < ck_expires k \<or> known_command W raw rows)) (\<lambda>_.
    Inr (ck_player k)))))"

definition direct_player :: "command_world \<Rightarrow> int \<Rightarrow> string \<Rightarrow> string \<Rightarrow> int \<Rightarrow> command_row list \<Rightarrow> direct_key option \<Rightarrow> game_call \<Rightarrow> string res" where
  "direct_player W now raw signer epoch rows key c = (case key of None \<Rightarrow> Inl ''Scoped game grant required''
     | Some d \<Rightarrow>
       rbind (guard ''Scoped game grant required'' (dk_epoch d = epoch \<and> lower signer = lower (dk_key d)
         \<and> gc_name c \<in> set direct_actions \<and> gc_first c = decimal (dk_match d))) (\<lambda>_.
       rbind (guard ''Arcade session expired'' (now div 1000 < dk_expires d \<or> known_command W raw rows)) (\<lambda>_.
       Inr (dk_key d))))"

definition acting_player :: "command_world \<Rightarrow> int \<Rightarrow> string \<Rightarrow> command_tx \<Rightarrow> string \<Rightarrow> int \<Rightarrow> command_journal \<Rightarrow> (string \<times> game_call) res" where
  "acting_player W now raw tx signer epoch s = (case cw_withSession W (ct_data tx) of
     Some (grant, calldata) \<Rightarrow> wrapped_player W signer grant calldata
   | None \<Rightarrow>
     rbind (cw_call W (ct_data tx)) (\<lambda>c.
     rbind (case cj_controls s of Some k \<Rightarrow> controls_player W now raw signer epoch (cj_rows s) k c
       | None \<Rightarrow> direct_player W now raw signer epoch (cj_rows s) (cj_direct s) c) (\<lambda>p. Inr (p, c))))"

text \<open>The row of a command is added behind the unresolved ones and the last fifteen resolved ones.\<close>

definition trim :: "command_row list \<Rightarrow> command_row list" where
  "trim rows = filter (\<lambda>x. cr_state x = Uncertain) rows
     @ (let done_rows = filter (\<lambda>x. cr_state x \<noteq> Uncertain) rows in drop (length done_rows - 15) done_rows)"

definition match_text :: "game_call \<Rightarrow> string" where
  "match_text c = (if gc_name c = ''acceptMatch'' then gc_id c
     else if gc_name c \<in> set [''registerControls'', ''revokeControls''] then ''0'' else gc_first c)"

definition journal_command :: "command_world \<Rightarrow> int \<Rightarrow> string \<Rightarrow> command_tx \<Rightarrow> string \<Rightarrow> int \<Rightarrow> string \<Rightarrow> game_call \<Rightarrow> unit journal_io" where
  "journal_command W now raw tx signer epoch player c =
    ibind (gets cj_rows) (\<lambda>rows.
    case command_pending player rows of
      Some x \<Rightarrow> iguard ''An uncertain game command must be reconciled before another signature is sent''
        (cr_hash x = cw_hash W raw \<and> cr_epoch x = epoch)
    | None \<Rightarrow>
      ibind (iguard ''This signed game command is already resolved'' (\<not> list_ex (\<lambda>x. cr_hash x = cw_hash W raw) rows)) (\<lambda>_.
      modify (\<lambda>s. s\<lparr>cj_rows := trim rows @ [\<lparr>cr_hash = cw_hash W raw, cr_raw = raw, cr_app = cw_app W, cr_player = player,
        cr_signer = signer, cr_epoch = epoch, cr_nonce = ct_nonce tx, cr_action = gc_name c, cr_match = match_text c, cr_at = now,
        cr_state = Uncertain\<rparr>]\<rparr>)))"

definition scoped_tx :: "command_world \<Rightarrow> command_tx \<Rightarrow> bool" where
  "scoped_tx W tx \<longleftrightarrow> ct_chainId tx = 4242 \<and> map_option lower (ct_to tx) = Some (lower (cw_app W))
     \<and> (case ct_value tx of None \<Rightarrow> 0 | Some v \<Rightarrow> v) = 0"

definition beforeSend :: "command_world \<Rightarrow> int \<Rightarrow> string \<Rightarrow> unit journal_io" where
  "beforeSend W now raw =
    ibind (gets cj_epoch) (\<lambda>e.
    ibind (iguard ''Read the game epoch before sending'' (starts_with ''0x02'' raw \<and> e \<noteq> None)) (\<lambda>_.
    ibind (lift (cw_parse W raw)) (\<lambda>tx.
    ibind (iguard ''Only scoped game commands can use this journal'' (scoped_tx W tx)) (\<lambda>_.
    ibind (lift (cw_signer W raw)) (\<lambda>signer.
    ibind (gets (acting_player W now raw tx signer (the e))) (\<lambda>acting.
    ibind (lift acting) (\<lambda>(player, c).
    journal_command W now raw tx signer (the e) player c)))))))"

definition retirePrevious :: "string \<Rightarrow> int \<Rightarrow> unit journal_io" where
  "retirePrevious player verifiedEpoch = modify (\<lambda>s. s\<lparr>cj_rows := map (\<lambda>j.
     if lower (cr_player j) = lower player \<and> cr_state j = Uncertain \<and> cr_epoch j < verifiedEpoch
     then j\<lparr>cr_state := CommandObsolete\<rparr> else j) (cj_rows s)\<rparr>)"

subsection \<open>Every run\<close>

datatype journal_event =
    BindDirect string int int int
  | BindControls string string int int
  | Received node_reply
  | BeforeSend int string
  | RetirePrevious string int

definition journal_step :: "command_world \<Rightarrow> journal_event \<Rightarrow> unit journal_io" where
  "journal_step W e = (case e of BindDirect key epoch i expires \<Rightarrow> bindDirect key epoch i expires
     | BindControls player key epoch expires \<Rightarrow> bindRoomControls player key epoch expires
     | Received reply \<Rightarrow> received W reply
     | BeforeSend now raw \<Rightarrow> beforeSend W now raw
     | RetirePrevious player epoch \<Rightarrow> retirePrevious player epoch)"

definition empty_journal :: command_journal where
  "empty_journal = \<lparr>cj_rows = [], cj_epoch = None, cj_direct = None, cj_controls = None\<rparr>"

definition run_journal :: "command_world \<Rightarrow> journal_event list \<Rightarrow> command_journal" where
  "run_journal W es = fold (\<lambda>e s. snd (journal_step W e s)) es empty_journal"

text \<open>What a row says of its bytes.\<close>

definition row_scoped :: "command_world \<Rightarrow> command_row \<Rightarrow> bool" where
  "row_scoped W x \<longleftrightarrow> cr_hash x = cw_hash W (cr_raw x) \<and> cr_action x \<in> set control_actions
     \<and> (case cw_parse W (cr_raw x) of Inl _ \<Rightarrow> False | Inr tx \<Rightarrow> scoped_tx W tx \<and> cr_nonce x = ct_nonce tx)
     \<and> cw_signer W (cr_raw x) = Inr (cr_signer x)"

definition rows_ok :: "command_world \<Rightarrow> command_row list \<Rightarrow> bool" where
  "rows_ok W rows \<longleftrightarrow> distinct (map cr_hash rows)
     \<and> distinct (map (\<lambda>x. lower (cr_player x)) (filter (\<lambda>x. cr_state x = Uncertain) rows))
     \<and> (\<forall>x \<in> set rows. row_scoped W x)"

definition row_later :: "command_row \<Rightarrow> command_row \<Rightarrow> bool" where
  "row_later x y \<longleftrightarrow> (\<exists>st. y = x\<lparr>cr_state := st\<rparr> \<and> (st = cr_state x \<or> st \<noteq> Uncertain))"

lemma row_later_refl: "row_later x x"
  unfolding row_later_def by (intro exI [of _ "cr_state x"]) simp

lemma rows_later_set:
  "list_all2 row_later xs ys \<Longrightarrow>
   set (map (\<lambda>x. lower (cr_player x)) (filter (\<lambda>x. cr_state x = Uncertain) ys))
     \<subseteq> set (map (\<lambda>x. lower (cr_player x)) (filter (\<lambda>x. cr_state x = Uncertain) xs))"
  by (induction rule: list_all2_induct) (auto simp add: row_later_def)

lemma rows_ok_later: "list_all2 row_later xs ys \<Longrightarrow> rows_ok W xs \<Longrightarrow> rows_ok W ys"
proof -
  have hashes: "list_all2 row_later xs ys \<Longrightarrow> map cr_hash ys = map cr_hash xs" for xs ys
    by (induction rule: list_all2_induct) (auto simp add: row_later_def)
  have players: "list_all2 row_later xs ys \<Longrightarrow> distinct (map (\<lambda>x. lower (cr_player x)) (filter (\<lambda>x. cr_state x = Uncertain) xs)) \<Longrightarrow>
      distinct (map (\<lambda>x. lower (cr_player x)) (filter (\<lambda>x. cr_state x = Uncertain) ys))" for xs ys
  proof (induction rule: list_all2_induct)
    case (Cons x xs y ys)
    then show ?case using rows_later_set [OF Cons(2)] by (auto simp add: row_later_def split: if_split_asm)
  qed simp
  have same: "row_scoped W y = row_scoped W x" if later: "row_later x y" for x y
  proof -
    obtain st where "y = x\<lparr>cr_state := st\<rparr>" using later unfolding row_later_def by blast
    then show ?thesis by (cases "cw_parse W (cr_raw x)") (simp_all add: row_scoped_def)
  qed
  have scoped: "list_all2 row_later xs ys \<Longrightarrow> \<forall>x \<in> set xs. row_scoped W x \<Longrightarrow> \<forall>y \<in> set ys. row_scoped W y" for xs ys
  proof (induction rule: list_all2_induct)
    case (Cons x xs y ys)
    then show ?case using same [OF Cons(1)] by simp
  qed simp
  assume "list_all2 row_later xs ys" "rows_ok W xs"
  then show ?thesis using hashes players scoped by (simp add: rows_ok_def)
qed

lemma update_first_later:
  "(\<And>x. row_later x (f x)) \<Longrightarrow> list_all2 row_later xs (update_first found f xs)"
  by (induction xs) (simp_all add: row_later_refl list_all2_same)

lemma trim_ok: "rows_ok W rows \<Longrightarrow> rows_ok W (trim rows)"
  and trim_hash: "x \<in> set (trim rows) \<Longrightarrow> x \<in> set rows"
  and trim_uncertain: "filter (\<lambda>x. cr_state x = Uncertain) (trim rows) = filter (\<lambda>x. cr_state x = Uncertain) rows"
proof -
  let ?d = "filter (\<lambda>x. cr_state x \<noteq> Uncertain) rows"
  let ?n = "length ?d - 15"
  have tail: "set (drop ?n ?d) \<subseteq> set ?d" by (rule set_drop_subset)
  show member: "x \<in> set (trim rows) \<Longrightarrow> x \<in> set rows" for x using tail unfolding trim_def Let_def by auto
  show uncertain: "filter (\<lambda>x. cr_state x = Uncertain) (trim rows) = filter (\<lambda>x. cr_state x = Uncertain) rows"
  proof -
    have "filter (\<lambda>x. cr_state x = Uncertain) (drop ?n ?d) = []" using tail by (auto simp add: filter_empty_conv)
    then show ?thesis by (simp add: trim_def Let_def)
  qed
  assume ok: "rows_ok W rows"
  then have d: "distinct rows" "inj_on cr_hash (set rows)" by (simp_all add: rows_ok_def distinct_map)
  have "distinct (trim rows)" using d(1) tail unfolding trim_def Let_def by auto
  moreover have "inj_on cr_hash (set (trim rows))" using member by (intro inj_on_subset [OF d(2)]) blast
  ultimately have "distinct (map cr_hash (trim rows))" by (simp add: distinct_map)
  then show "rows_ok W (trim rows)" using ok member uncertain by (simp add: rows_ok_def)
qed

lemma acting_action:
  "acting_player W now raw tx signer epoch s = Inr (player, c) \<Longrightarrow> gc_name c \<in> set control_actions"
  by (auto simp add: acting_player_def wrapped_player_def controls_player_def direct_player_def control_actions_def
      session_actions_def direct_actions_def rbind_eq_Inr guard_eq_Inr split: option.split_asm if_split_asm)

lemma journal_command_ok:
  assumes "gc_name c \<in> set control_actions" "cw_parse W raw = Inr tx" "scoped_tx W tx" "cw_signer W raw = Inr signer"
  shows "keeps (\<lambda>s. rows_ok W (cj_rows s)) (journal_command W now raw tx signer epoch player c)"
proof -
  let ?row = "\<lparr>cr_hash = cw_hash W raw, cr_raw = raw, cr_app = cw_app W, cr_player = player,
        cr_signer = signer, cr_epoch = epoch, cr_nonce = ct_nonce tx, cr_action = gc_name c, cr_match = match_text c, cr_at = now,
        cr_state = Uncertain\<rparr>"
  have added: "rows_ok W (trim rows @ [?row])"
    if ok: "rows_ok W rows" and free: "command_pending player rows = None" and fresh: "\<forall>x \<in> set rows. cr_hash x \<noteq> cw_hash W raw" for rows
  proof -
    have "row_scoped W ?row" using assms by (simp add: row_scoped_def)
    moreover have "\<forall>x \<in> set (filter (\<lambda>x. cr_state x = Uncertain) rows). lower (cr_player x) \<noteq> lower player"
      using free by (auto simp add: command_pending_def find_None_iff)
    moreover have "\<forall>x \<in> set (trim rows). cr_hash x \<noteq> cw_hash W raw" using fresh trim_hash by blast
    ultimately show ?thesis using trim_ok [OF ok] by (auto simp add: rows_ok_def trim_uncertain)
  qed
  show ?thesis unfolding keeps_def
  proof (rule tripleI)
    fix s x t assume s: "rows_ok W (cj_rows s)" and run: "journal_command W now raw tx signer epoch player c s = (Inr x, t)"
    show "rows_ok W (cj_rows t)"
    proof (cases "command_pending player (cj_rows s)")
      case None
      then show ?thesis using run s added [OF s None]
        by (auto simp add: journal_command_def ibind_def io_simps list_ex_iff split: if_split_asm)
    next
      case (Some y)
      then show ?thesis using run s by (auto simp add: journal_command_def ibind_def io_simps split: if_split_asm)
    qed
  next
    fix s e t assume s: "rows_ok W (cj_rows s)" and run: "journal_command W now raw tx signer epoch player c s = (Inl e, t)"
    then show "rows_ok W (cj_rows t)"
      by (auto simp add: journal_command_def ibind_def io_simps split: if_split_asm option.split_asm)
  qed
qed

lemma journal_step_ok: "keeps (\<lambda>s. rows_ok W (cj_rows s)) (journal_step W e)"
proof (cases e)
  case (Received reply)
  have "keeps (\<lambda>s. rows_ok W (cj_rows s)) (received W reply)"
  proof (cases reply)
    case (SessionReply app chainId epoch)
    show ?thesis unfolding received_def SessionReply node_reply.case by (intro keeps_bind keeps_basic keeps_modify) simp
  next
    case (ReceiptReply hash status)
    have "rows_ok W (update_first found (\<lambda>x. x\<lparr>cr_state := (if ok then CommandConfirmed else CommandReverted)\<rparr>) rows)"
      if "rows_ok W rows" for found rows ok
      by (rule rows_ok_later [OF update_first_later that]) (auto simp add: row_later_def)
    then show ?thesis unfolding received_def ReceiptReply node_reply.case
      by (intro keeps_option keeps_if keeps_basic keeps_modify) simp
  qed
  then show ?thesis by (simp add: journal_step_def Received)
next
  case (BeforeSend now raw)
  have "keeps (\<lambda>s. rows_ok W (cj_rows s)) (beforeSend W now raw)"
  proof (cases "cw_parse W raw")
    case (Inl e)
    then show ?thesis unfolding beforeSend_def Inl ibind_units by (intro keeps_bind keeps_basic)
  next
    case (Inr tx)
    show ?thesis
    proof (cases "scoped_tx W tx \<and> (\<exists>signer. cw_signer W raw = Inr signer)")
      case True
      then obtain signer where signer: "cw_signer W raw = Inr signer" "scoped_tx W tx" by blast
      have rest: "keeps (\<lambda>s. rows_ok W (cj_rows s)) (ibind (gets (acting_player W now raw tx signer epoch)) (\<lambda>acting.
          ibind (lift acting) (\<lambda>(player, c). journal_command W now raw tx signer epoch player c)))" for epoch
        unfolding keeps_def
      proof (rule triple_bind)
        show "triple (\<lambda>s. rows_ok W (cj_rows s)) (gets (acting_player W now raw tx signer epoch))
            (\<lambda>acting s. rows_ok W (cj_rows s) \<and> (\<forall>player c. acting = Inr (player, c) \<longrightarrow> gc_name c \<in> set control_actions))
            (\<lambda>s. rows_ok W (cj_rows s))"
          by (rule triple_gets) (use acting_action in blast)
        fix acting
        show "triple (\<lambda>s. rows_ok W (cj_rows s) \<and> (\<forall>player c. acting = Inr (player, c) \<longrightarrow> gc_name c \<in> set control_actions))
            (ibind (lift acting) (\<lambda>(player, c). journal_command W now raw tx signer epoch player c))
            (\<lambda>_ s. rows_ok W (cj_rows s)) (\<lambda>s. rows_ok W (cj_rows s))"
        proof (cases acting)
          case (Inl e)
          then show ?thesis unfolding Inl ibind_units by (intro triple_throw) simp
        next
          case acts: (Inr a)
          obtain player c where a: "a = (player, c)" by (cases a)
          show ?thesis
          proof (cases "gc_name c \<in> set control_actions")
            case True
            then have "keeps (\<lambda>s. rows_ok W (cj_rows s)) (journal_command W now raw tx signer epoch player c)"
              using Inr signer by (intro journal_command_ok)
            then show ?thesis unfolding acts a ibind_units keeps_def prod.case by (rule triple_weaken) simp_all
          qed (simp add: acts a triple_def)
        qed
      qed
      show ?thesis unfolding beforeSend_def Inr signer(1) ibind_units
        by (rule keeps_bind keeps_basic rest)+
    next
      case False
      then consider "\<not> scoped_tx W tx" | e where "cw_signer W raw = Inl e" by (cases "cw_signer W raw") auto
      then show ?thesis
      proof cases
        case 1
        then show ?thesis unfolding beforeSend_def Inr ibind_units by (simp add: ibind_units) (intro keeps_bind keeps_basic)
      next
        case (2 e)
        then show ?thesis unfolding beforeSend_def Inr ibind_units by (simp add: ibind_units) (intro keeps_bind keeps_basic)
      qed
    qed
  qed
  then show ?thesis by (simp add: journal_step_def BeforeSend)
next
  case (RetirePrevious player epoch)
  have "keeps (\<lambda>s. rows_ok W (cj_rows s)) (retirePrevious player epoch)"
    unfolding retirePrevious_def
    by (rule keeps_modify, rule rows_ok_later)
       (auto simp add: list_all2_map2 list_all2_same row_later_refl, auto simp add: row_later_def)
  then show ?thesis by (simp add: journal_step_def RetirePrevious)
qed (auto simp add: journal_step_def bindDirect_def bindRoomControls_def intro!: keeps_bind keeps_basic keeps_modify)

lemma run_journal_ok: "rows_ok W (cj_rows (run_journal W es))"
proof -
  have "rows_ok W (cj_rows (fold (\<lambda>e s. snd (journal_step W e s)) es s))" if "rows_ok W (cj_rows s)" for s
    using that
  proof (induction es arbitrary: s)
    case (Cons e es)
    have "rows_ok W (cj_rows (snd (journal_step W e s)))"
      using keepsD [OF journal_step_ok Cons.prems prod.collapse [symmetric]] .
    then show ?case using Cons.IH by simp
  qed simp
  moreover have "rows_ok W (cj_rows empty_journal)" by (simp add: empty_journal_def rows_ok_def)
  ultimately show ?thesis unfolding run_journal_def by blast
qed

lemma journal_command_records:
  "journal_command W now raw tx signer epoch player c s = (Inr u, t) \<Longrightarrow>
   list_ex (\<lambda>x. cr_hash x = cw_hash W raw \<and> cr_state x = Uncertain) (cj_rows t)"
proof (cases "command_pending player (cj_rows s)")
  case (Some x)
  assume run: "journal_command W now raw tx signer epoch player c s = (Inr u, t)"
  have "x \<in> set (cj_rows s)" "cr_state x = Uncertain" using Some by (auto simp add: command_pending_def find_Some_iff)
  then show ?thesis using run Some
    by (auto simp add: journal_command_def ibind_def io_simps list_ex_iff split: if_split_asm intro!: bexI [of _ x])
qed (auto simp add: journal_command_def ibind_def io_simps split: if_split_asm)

lemma beforeSend_records:
  "beforeSend W now raw s = (Inr u, t) \<Longrightarrow>
   list_ex (\<lambda>x. cr_hash x = cw_hash W raw \<and> cr_state x = Uncertain) (cj_rows t)"
  unfolding beforeSend_def ibind_eq_Inr by (auto dest: journal_command_records)

text \<open>C28. The tab never signs past an unknown outcome.  After any sequence of bindings, replies, sends and
  retirements the journal holds at most one unresolved command of a player, no command twice, and only
  commands that were signed for this application on the game's chain, without value, with an action of the
  game; and a command that is then let through is in the journal as an unresolved one, so it is the only one
  of its player.\<close>

theorem commands_reconciled_first:
  "case beforeSend W now raw (run_journal W es) of (r, s) \<Rightarrow>
    distinct (map (\<lambda>x. lower (cr_player x)) (filter (\<lambda>x. cr_state x = Uncertain) (cj_rows s)))
    \<and> distinct (map cr_hash (cj_rows s)) \<and> list_all (row_scoped W) (cj_rows s)
    \<and> (case r of Inl _ \<Rightarrow> True | Inr _ \<Rightarrow> list_ex (\<lambda>x. cr_hash x = cw_hash W raw \<and> cr_state x = Uncertain) (cj_rows s))"
proof -
  obtain r s where run: "beforeSend W now raw (run_journal W es) = (r, s)" by fastforce
  have "beforeSend W now raw = journal_step W (BeforeSend now raw)" by (simp add: journal_step_def)
  then have ok: "rows_ok W (cj_rows s)"
    using keepsD [OF journal_step_ok run_journal_ok] run by metis
  have "case r of Inl _ \<Rightarrow> True | Inr _ \<Rightarrow> list_ex (\<lambda>x. cr_hash x = cw_hash W raw \<and> cr_state x = Uncertain) (cj_rows s)"
  proof (cases r)
    case (Inr u)
    then show ?thesis using beforeSend_records run by fastforce
  qed simp
  with ok run show ?thesis by (simp add: rows_ok_def list_all_iff)
qed

end
