(* ===== verification/Presentation.thy ===== *)
theory Presentation
  imports Physics_V1 Physics_Rooms_Chaos
begin

text \<open>
  \<^verbatim>\<open>web/lib/presentation.ts\<close>: what a viewer shows between two confirmed states.  The projections run the
  integer physics of the engine forward and hold before the events that depend on commands still to come:
  \<^verbatim>\<open>projectConfirmed\<close> before paddle planes and goals, \<^verbatim>\<open>projectLive\<close> before goals.  A classic state is projected
  as its embedding, which adds the fields the source adds.
\<close>

record snapshot_cursor =
  sc_id :: string
  sc_head :: int
  sc_version :: int
  sc_clock :: int

definition acceptsSnapshot :: "snapshot_cursor option \<Rightarrow> snapshot_cursor \<Rightarrow> bool" where
  "acceptsSnapshot previous incoming = (case previous of None \<Rightarrow> True
     | Some p \<Rightarrow>
       if sc_id p \<noteq> sc_id incoming then True
       else sc_head p \<le> sc_head incoming \<and> sc_version p \<le> sc_version incoming
         \<and> (sc_version p < sc_version incoming \<or> sc_clock p < sc_clock incoming \<or> sc_head p < sc_head incoming))"

definition before_event :: "state \<Rightarrow> game_event \<Rightarrow> int" where
  "before_event s e = (if ev_at e > s_t s then ev_at e - 1 else s_t s)"

fun confirmed_loop :: "nat \<Rightarrow> state \<Rightarrow> int \<Rightarrow> (state \<times> bool) res" where
  "confirmed_loop 0 s target = Inr (s, True)"
| "confirmed_loop (Suc n) s target = rbind (next_event s) (\<lambda>e.
     if ev_at e > target then rbind (move s target) (\<lambda>m. Inr (m, False))
     else if ev_kind e \<ge> 3 then rbind (move s (before_event s e)) (\<lambda>m. Inr (m, True))
     else rbind (advance s (ev_at e) 1) (\<lambda>r. confirmed_loop n (fst r) target))"

definition projectConfirmed :: "state \<Rightarrow> int \<Rightarrow> (state \<times> bool) res" where
  "projectConfirmed s target =
    (if s_finished s \<or> s_awaitingServe s \<or> target \<le> s_t s then Inr (s, False) else confirmed_loop 64 s target)"




text \<open>\<^verbatim>\<open>web/lib/live-paddle.ts\<close>: the clock of the presentation.\<close>

definition sample_clock :: "int \<Rightarrow> int \<Rightarrow> int" where
  "sample_clock target shown = (if target > shown then target else shown)"

subsection \<open>Snapshots\<close>

text \<open>Along a sequence of replies the accepted snapshots of one match only go forward.\<close>

definition snapshot_step :: "snapshot_cursor \<Rightarrow> snapshot_cursor option \<Rightarrow> snapshot_cursor option" where
  "snapshot_step c p = (if acceptsSnapshot p c then Some c else p)"

lemma accepted_forward:
  assumes "acceptsSnapshot (Some p) c" "sc_id p = sc_id c"
  shows "sc_head p \<le> sc_head c \<and> sc_version p \<le> sc_version c
    \<and> (sc_head p, sc_version p, sc_clock p) \<noteq> (sc_head c, sc_version c, sc_clock c)"
  using assms by (auto simp add: acceptsSnapshot_def)

subsection \<open>Projections\<close>

definition held :: "int \<Rightarrow> state \<Rightarrow> bool" where
  "held k s \<longleftrightarrow> (case next_event s of Inr e \<Rightarrow> ev_kind e \<ge> k | Inl _ \<Rightarrow> False)"

definition seen :: "state \<Rightarrow> int \<times> int \<times> bool" where
  "seen s = (s_scoreA s, s_scoreB s, s_finished s)"

lemma due_next: "due_at s = Inr a \<Longrightarrow> \<exists>e. next_event s = Inr e \<and> ev_at e = a"
  by (simp add: due_at_Inr)

lemma move_seen: "move s T = Inr m \<Longrightarrow> seen m = seen s \<and> s_vx m = s_vx s"
  by (auto simp add: move_def seen_def Let_def split: if_split_asm)

interpretation confirmed: projection "\<lambda>n s T. advance_loop n s T" stopped due_at fire move s_t court
  confirmed_loop "held 3" "\<lambda>s. (seen s, \<bar>s_vx s\<bar>, s_vx s < 0)"
proof (unfold_locales, goal_cases)
  case (1 s T)
  show ?case by simp
next
  case (2 s T a n)
  then obtain e where e: "next_event s = Inr e" "ev_at e = a" using due_next by blast
  from fire_court [OF 2(1,2) e(1)] obtain s' where s': "fire s = Inr s'" by blast
  from advance_fires [OF 2(1,2) e(1) s'] obtain b where "advance s (ev_at e) 1 = Inr (s', b)" by blast
  then show ?case using e s' by (auto simp add: held_def before_event_def)
next
  case (3 s s')
  then obtain e where e: "next_event s = Inr e" "ev_kind e \<in> {1..6}" by (metis next_event_court)
  then have "ev_kind e < 3" using 3(3) by (simp add: held_def)
  from 3(1,2) e(1) show ?case
    by (cases rule: fire_cases) (use 3(2,4) \<open>ev_kind e < 3\<close> in \<open>auto simp add: seen_def stopped_def\<close>)
next
  case (4 s a T s')
  then show ?case using move_seen by simp
qed









lemma confirmed_exact:
  assumes "court s" and "\<not> stopped s" and "s_t s < T"
  shows "\<exists>s' waiting. projectConfirmed s T = Inr (s', waiting) \<and> s_t s' \<le> T \<and> seen s' = seen s \<and> s_vx s' = s_vx s
    \<and> (waiting \<or> advance s T 64 = Inr (s', True))"
proof -
  have run: "projectConfirmed s T = confirmed_loop 64 s T" using assms(2,3) by (simp add: projectConfirmed_def stopped_def)
  have "s_t s \<le> T" using assms(3) by simp
  from confirmed.proj_sound [OF assms(1,2) this, of 64] advance_eq [OF this, of 64]
  show ?thesis unfolding run by (auto simp add: abs_if split: if_split_asm)
qed

end
