(* ===== verification/Lobby.thy ===== *)
theory Lobby
  imports Rooms_Core
begin

text \<open>
  \<^verbatim>\<open>relayer/src/interlude-rooms.ts\<close>: the lobby, a document with the rooms, the queue and the invitations, and
  the requests of the players that change it.  A request is a function from the document to the reply and the
  next document, or the error it throws; \<^verbatim>\<open>transact\<close> runs it on the stored document and writes it back with the
  tables that are derived from it, or nothing.  Clock, random identifiers, ratings, the blocks between players
  and the switches of the coordinator are a record; every clock reading of one request is the same.
\<close>

subsection \<open>The document\<close>

datatype invite_status = AwaitingReply | InviteAccepted | InviteDeclined | InviteExpired

record invitation =
  iv_id :: string
  iv_room :: string
  iv_creator :: string
  iv_recipient :: string
  iv_expires :: int
  iv_status :: invite_status

record queue_entry =
  qe_player :: string
  qe_mode :: "int option"
  qe_elo :: int
  qe_at :: int
  qe_seen :: int

record lobby =
  lb_rooms :: "lobby_room list"
  lb_queue :: "queue_entry list"
  lb_invites :: "invitation list"

text \<open>The requests of a player, by their path.\<close>

datatype lobby_request =
    QueueFor "int option"
  | LeaveQueue
  | CreateRoom "int option" "string list"
  | Challenge "int option" string
  | DeclineInvite string
  | JoinRoom string
  | InviteTo string
  | RejoinRoom
  | ReadyOffer string
  | AcceptOffer string bool "string option"
  | BackOffer string
  | LeaveRoom

record lobby_world =
  lw_app :: string
  lw_decode :: "accept_log \<Rightarrow> accept_event option"
  lw_now :: int
  lw_fresh :: "string \<Rightarrow> string"
  lw_online :: bool
  lw_healthy :: bool
  lw_admission :: bool
  lw_lifecycle :: bool
  lw_publication :: bool
  lw_chaosOpen :: bool
  lw_blocks :: "(string \<times> string) list"
  lw_rating :: "string \<Rightarrow> int \<Rightarrow> int option"

lemma find_Some_in: "find P xs = Some x \<Longrightarrow> x \<in> set xs \<and> P x"
  by (auto simp add: find_Some_iff)

fun change_first :: "('a \<Rightarrow> bool) \<Rightarrow> ('a \<Rightarrow> 'a) \<Rightarrow> 'a list \<Rightarrow> 'a list" where
  "change_first P f [] = []"
| "change_first P f (x # xs) = (if P x then f x # xs else x # change_first P f xs)"

definition mode_of :: "int option \<Rightarrow> int" where
  "mode_of m = (case m of None \<Rightarrow> 0 | Some n \<Rightarrow> n)"

definition modeOf :: "lobby_world \<Rightarrow> int option \<Rightarrow> int res" where
  "modeOf W v =
    rbind (guard ''Invalid input'' (mode_of v = 0 \<or> mode_of v = 1)) (\<lambda>_.
    rbind (guard ''Chaos is not open in this arena yet.'' (mode_of v \<noteq> 1 \<or> lw_chaosOpen W)) (\<lambda>_. Inr (mode_of v)))"

definition parse_address :: "string \<Rightarrow> string res" where
  "parse_address s = (if take 2 s = ''0x'' \<and> hex_string 40 s then Inr (lower s) else Inl ''Invalid input'')"

definition valid_id :: "string \<Rightarrow> bool" where
  "valid_id s \<longleftrightarrow> hex_string 64 s \<and> lower s = s"

fun parse_all :: "string list \<Rightarrow> string list res" where
  "parse_all [] = Inr []"
| "parse_all (s # ss) = rbind (parse_address s) (\<lambda>p. rbind (parse_all ss) (\<lambda>ps. Inr (p # ps)))"

definition admission_open :: "lobby_world \<Rightarrow> bool" where
  "admission_open W \<longleftrightarrow> lw_online W \<and> lw_healthy W \<and> lw_admission W \<and> lw_lifecycle W"

definition elo_of :: "lobby_world \<Rightarrow> string \<Rightarrow> int \<Rightarrow> int" where
  "elo_of W p m = (case lw_rating W p m of None \<Rightarrow> 1000 | Some e \<Rightarrow> if e = 0 then 1000 else e)"

subsection \<open>Rooms\<close>

definition open_room :: "lobby_room \<Rightarrow> bool" where
  "open_room r \<longleftrightarrow> rm_status r \<noteq> ''closed''"

definition member_of :: "string \<Rightarrow> lobby_room \<Rightarrow> bool" where
  "member_of p r \<longleftrightarrow> list_ex (\<lambda>m. mb_player m = p) (rm_members r)"

definition occupant :: "string \<Rightarrow> lobby \<Rightarrow> lobby_room option" where
  "occupant p s = find (\<lambda>r. open_room r \<and> member_of p r) (lb_rooms s)"

definition queued :: "string \<Rightarrow> lobby \<Rightarrow> bool" where
  "queued p s \<longleftrightarrow> list_ex (\<lambda>q. qe_player q = p) (lb_queue s)"

definition find_room :: "string \<Rightarrow> lobby \<Rightarrow> lobby_room option" where
  "find_room i s = find (\<lambda>r. rm_id r = i) (lb_rooms s)"

definition change_room :: "string \<Rightarrow> (lobby_room \<Rightarrow> lobby_room) \<Rightarrow> lobby \<Rightarrow> lobby" where
  "change_room i f s = s\<lparr>lb_rooms := map (\<lambda>r. if rm_id r = i then f r else r) (lb_rooms s)\<rparr>"

definition put_room :: "lobby_room \<Rightarrow> lobby \<Rightarrow> lobby" where
  "put_room r s = (if find_room (rm_id r) s = None then s\<lparr>lb_rooms := lb_rooms s @ [r]\<rparr> else change_room (rm_id r) (\<lambda>_. r) s)"

definition available_player :: "string \<Rightarrow> lobby \<Rightarrow> unit res" where
  "available_player p s = guard ''This player is already in a room or matchmaking.'' (occupant p s = None \<and> \<not> queued p s)"

definition seat :: "string \<Rightarrow> int \<Rightarrow> int \<Rightarrow> int \<Rightarrow> room_member" where
  "seat p joined position seen = \<lparr>mb_player = p, mb_joined = joined, mb_position = position, mb_away = False, mb_seen = seen\<rparr>"

definition new_room :: "int \<Rightarrow> string \<Rightarrow> string \<Rightarrow> room_kind \<Rightarrow> int \<Rightarrow> lobby_room" where
  "new_room now i p kind m = \<lparr>rm_mode = Some m, rm_id = i, rm_host = p, rm_kind = kind, rm_members = [seat p now 0 now],
     rm_offer = None, rm_winner = None, rm_status = ''waiting'', rm_created = now, rm_activity = now\<rparr>"

definition add_member :: "room_member \<Rightarrow> int \<Rightarrow> lobby_room \<Rightarrow> lobby_room" where
  "add_member m now r = r\<lparr>rm_members := rm_members r @ [m], rm_activity := now\<rparr>"

definition change_member :: "string \<Rightarrow> (room_member \<Rightarrow> room_member) \<Rightarrow> lobby_room \<Rightarrow> lobby_room" where
  "change_member p f r = r\<lparr>rm_members := change_first (\<lambda>m. mb_player m = p) f (rm_members r)\<rparr>"

definition first_host :: "room_member list \<Rightarrow> string" where
  "first_host ms = (case sort_key mb_joined ms of [] \<Rightarrow> [] | m # _ \<Rightarrow> mb_player m)"

subsection \<open>Invitations\<close>

definition blocked_pair :: "lobby_world \<Rightarrow> string \<Rightarrow> string \<Rightarrow> bool" where
  "blocked_pair W a b \<longleftrightarrow> (a, b) \<in> set (lw_blocks W) \<or> (b, a) \<in> set (lw_blocks W)"

definition live_invite :: "int \<Rightarrow> invitation \<Rightarrow> bool" where
  "live_invite now i \<longleftrightarrow> iv_status i = AwaitingReply \<and> iv_expires i > now"

definition send_invite :: "lobby_world \<Rightarrow> string \<Rightarrow> string \<Rightarrow> string \<Rightarrow> lobby \<Rightarrow> lobby res" where
  "send_invite W room p target s =
    (let recent = (\<lambda>i. iv_creator i = p \<and> iv_expires i > lw_now W) in
     rbind (guard ''This player cannot receive your invitation.'' (target \<noteq> p \<and> \<not> blocked_pair W p target)) (\<lambda>_.
     if list_ex (\<lambda>i. iv_room i = room \<and> iv_recipient i = target \<and> live_invite (lw_now W) i) (lb_invites s) then Inr s
     else
       rbind (guard ''Invitation limit reached. Try again later.'' (length (filter recent (lb_invites s)) < 20)) (\<lambda>_.
       rbind (guard ''An invitation was already sent to this player.''
         (length (filter (\<lambda>i. recent i \<and> iv_recipient i = target) (lb_invites s)) < 3)) (\<lambda>_.
       Inr (s\<lparr>lb_invites := lb_invites s @ [\<lparr>iv_id = lw_fresh W target, iv_room = room, iv_creator = p, iv_recipient = target,
         iv_expires = lw_now W + 600000, iv_status = AwaitingReply\<rparr>]\<rparr>)))))"

fun send_invites :: "lobby_world \<Rightarrow> string \<Rightarrow> string \<Rightarrow> string list \<Rightarrow> lobby \<Rightarrow> lobby res" where
  "send_invites W room p [] s = Inr s"
| "send_invites W room p (t # ts) s = rbind (send_invite W room p t s) (send_invites W room p ts)"

subsection \<open>Requests\<close>

datatype lobby_reply = LobbyDone | InRoom string | Joined string bool | OfferReply lobby_offer "bool option"

definition queue_for :: "lobby_world \<Rightarrow> string \<Rightarrow> int option \<Rightarrow> lobby \<Rightarrow> (lobby_reply \<times> lobby) res" where
  "queue_for W p v s =
    rbind (modeOf W v) (\<lambda>m.
    if queued p s then Inr (LobbyDone, s)
    else
      rbind (available_player p s) (\<lambda>_.
      rbind (guard ''Matchmaking is not open yet.'' (admission_open W)) (\<lambda>_.
      Inr (LobbyDone, s\<lparr>lb_queue := lb_queue s @ [\<lparr>qe_player = p, qe_mode = Some m, qe_elo = elo_of W p m,
        qe_at = lw_now W, qe_seen = lw_now W\<rparr>]\<rparr>))))"

definition leave_queue :: "string \<Rightarrow> lobby \<Rightarrow> (lobby_reply \<times> lobby) res" where
  "leave_queue p s =
    rbind (guard ''An opponent has already been found. Use Back on the duel.'' (occupant p s = None)) (\<lambda>_.
    Inr (LobbyDone, s\<lparr>lb_queue := filter (\<lambda>q. qe_player q \<noteq> p) (lb_queue s)\<rparr>))"

definition open_with :: "lobby_world \<Rightarrow> string \<Rightarrow> room_kind \<Rightarrow> int \<Rightarrow> string list \<Rightarrow> lobby \<Rightarrow> (lobby_reply \<times> lobby) res" where
  "open_with W p kind m players s =
    rbind (available_player p s) (\<lambda>_.
    rbind (guard ''Rooms are not open yet.'' (admission_open W)) (\<lambda>_.
    let i = lw_fresh W []; s = put_room (new_room (lw_now W) i p kind m) s in
    rbind (guard ''Invalid input'' (length players \<le> 7)) (\<lambda>_.
    rbind (parse_all players) (\<lambda>recipients.
    rbind (send_invites W i p (js_unique recipients) s) (\<lambda>s. Inr (InRoom i, s))))))"

text \<open>A challenge to the author of a live duel invitation accepts that invitation.\<close>

definition answers_to :: "lobby_world \<Rightarrow> string \<Rightarrow> string \<Rightarrow> int \<Rightarrow> lobby \<Rightarrow> invitation \<Rightarrow> bool" where
  "answers_to W p target m s i \<longleftrightarrow> iv_creator i = target \<and> iv_recipient i = p \<and> live_invite (lw_now W) i
     \<and> (case find_room (iv_room i) s of None \<Rightarrow> False | Some r \<Rightarrow> rm_kind r = Duel \<and> mode_of (rm_mode r) = m)"

definition challenge :: "lobby_world \<Rightarrow> string \<Rightarrow> int option \<Rightarrow> string \<Rightarrow> lobby \<Rightarrow> (lobby_reply \<times> lobby) res" where
  "challenge W p v player s =
    rbind (modeOf W v) (\<lambda>m.
    rbind (parse_address player) (\<lambda>target.
    let mine = answers_to W p target m s in
    case find mine (lb_invites s) of
      Some i \<Rightarrow>
        rbind (available_player p s) (\<lambda>_.
        rbind (guard ''This invitation is unavailable.'' (\<not> blocked_pair W p target)) (\<lambda>_.
        let s = change_room (iv_room i) (add_member (seat p (lw_now W) 1 (lw_now W)) (lw_now W)) s in
        Inr (InRoom (iv_room i), s\<lparr>lb_invites := change_first mine (\<lambda>i. i\<lparr>iv_status := InviteAccepted\<rparr>) (lb_invites s)\<rparr>)))
    | None \<Rightarrow> open_with W p Duel m [player] s))"

definition decline_invite :: "string \<Rightarrow> string \<Rightarrow> lobby \<Rightarrow> (lobby_reply \<times> lobby) res" where
  "decline_invite p i s =
    (let mine = (\<lambda>v. iv_id v = i \<and> iv_recipient v = p \<and> iv_status v = AwaitingReply) in
     rbind (guard ''Invalid input'' (lb_invites s = [] \<or> valid_id i)) (\<lambda>_.
     rbind (guard ''Invitation expired.'' (list_ex mine (lb_invites s))) (\<lambda>_.
     Inr (LobbyDone, s\<lparr>lb_invites := change_first mine (\<lambda>v. v\<lparr>iv_status := InviteDeclined\<rparr>) (lb_invites s)\<rparr>))))"

definition next_position :: "lobby_room \<Rightarrow> int" where
  "next_position r = Max (insert (- 1) (set (map mb_position (rm_members r)))) + 1"

definition first_duel :: "lobby_room \<Rightarrow> bool" where
  "first_duel r \<longleftrightarrow> length (rm_members r) = 2 \<and> (case rm_offer r of None \<Rightarrow> True | Some x \<Rightarrow> lo_status x = Offered)"

definition join_room :: "lobby_world \<Rightarrow> string \<Rightarrow> string \<Rightarrow> lobby \<Rightarrow> (lobby_reply \<times> lobby) res" where
  "join_room W p i s =
    rbind (guard ''Invalid input'' (valid_id i)) (\<lambda>_.
    case find_room i s of None \<Rightarrow> Inl ''Room expired.''
    | Some r \<Rightarrow>
      rbind (guard ''Room expired.'' (open_room r)) (\<lambda>_.
      if member_of p r then Inr (InRoom i, s)
      else
        rbind (available_player p s) (\<lambda>_.
        rbind (guard ''This invitation is reserved for another player.'' (rm_kind r = Group
          \<or> list_ex (\<lambda>v. iv_room v = i \<and> iv_recipient v = p \<and> live_invite (lw_now W) v) (lb_invites s))) (\<lambda>_.
        rbind (guard ''Room full.'' (length (rm_members r) < (if rm_kind r = Group then 8 else 2))) (\<lambda>_.
        rbind (guard ''This room is unavailable.'' (\<not> list_ex (\<lambda>m. blocked_pair W p (mb_player m)) (rm_members r))) (\<lambda>_.
        let r' = (add_member (seat p (lw_now W) (next_position r) (lw_now W)) (lw_now W) r)
              \<lparr>rm_host := (if rm_host r = [] then p else rm_host r)\<rparr>;
            s = change_room i (\<lambda>_. r') s in
        Inr (Joined i (first_duel r'), s\<lparr>lb_invites := map (\<lambda>v.
          if iv_room v = i \<and> iv_recipient v = p \<and> iv_status v = AwaitingReply then v\<lparr>iv_status := InviteAccepted\<rparr> else v)
          (lb_invites s)\<rparr>)))))))"

text \<open>The remaining requests are about the open room \<open>r\<close> of the player.\<close>

definition invite_to :: "lobby_world \<Rightarrow> string \<Rightarrow> lobby_room \<Rightarrow> string \<Rightarrow> lobby \<Rightarrow> (lobby_reply \<times> lobby) res" where
  "invite_to W p r player s =
    rbind (parse_address player) (\<lambda>target. rbind (send_invite W (rm_id r) p target s) (\<lambda>s. Inr (LobbyDone, s)))"

definition rejoin_room :: "lobby_world \<Rightarrow> string \<Rightarrow> lobby_room \<Rightarrow> lobby \<Rightarrow> (lobby_reply \<times> lobby) res" where
  "rejoin_room W p r s = Inr (LobbyDone, change_room (rm_id r) (\<lambda>r.
     (change_member p (\<lambda>m. m\<lparr>mb_away := False, mb_seen := lw_now W,
        mb_position := Max (insert 0 (set (map mb_position (rm_members r)))) + 1\<rparr>) r)\<lparr>rm_activity := lw_now W\<rparr>) s)"

text \<open>What the engine said about the offer of the room before the lobby was locked.\<close>

record accept_receipt =
  ap_status :: string
  ap_hash :: string
  ap_logs :: "accept_log list"

record room_evidence =
  re_room :: string
  re_offer :: string
  re_signature :: string
  re_phase :: int
  re_receipt :: "accept_receipt option"
  re_at :: int

definition plays_in :: "string \<Rightarrow> lobby_offer \<Rightarrow> bool" where
  "plays_in p x \<longleftrightarrow> p = lo_a x \<or> p = lo_b x"

definition asks_engine :: "lobby_request \<Rightarrow> bool" where
  "asks_engine req = (case req of ReadyOffer _ \<Rightarrow> True | AcceptOffer _ _ _ \<Rightarrow> True | BackOffer _ \<Rightarrow> True | LeaveRoom \<Rightarrow> True | _ \<Rightarrow> False)"

definition gather_evidence ::
    "(string \<Rightarrow> int res) \<Rightarrow> (string \<Rightarrow> accept_receipt res) \<Rightarrow> int \<Rightarrow> lobby \<Rightarrow> string \<Rightarrow> lobby_request \<Rightarrow> room_evidence option res" where
  "gather_evidence snapshot receipt now s p req =
    (case occupant p s of None \<Rightarrow> Inr None
     | Some r \<Rightarrow> (case rm_offer r of None \<Rightarrow> Inr None
       | Some x \<Rightarrow>
         if \<not> asks_engine req \<or> \<not> plays_in p x then Inr None
         else
           rbind (snapshot (lo_id x)) (\<lambda>ph.
           rbind (case req of
               AcceptOffer _ _ (Some h) \<Rightarrow> if hex_string 64 h \<and> take 2 h = ''0x'' then rbind (receipt h) (\<lambda>t. Inr (Some t)) else Inl ''Invalid input''
             | _ \<Rightarrow> Inr None) (\<lambda>t.
           Inr (Some \<lparr>re_room = rm_id r, re_offer = lo_id x, re_signature = lo_signature x, re_phase = ph, re_receipt = t,
             re_at = now\<rparr>)))))"

definition verified_evidence :: "lobby_world \<Rightarrow> room_evidence option \<Rightarrow> lobby_room \<Rightarrow> lobby_offer \<Rightarrow> room_evidence res" where
  "verified_evidence W ev r x = (case ev of
     None \<Rightarrow> Inl ''The room changed during synchronization. Refresh and retry.''
   | Some e \<Rightarrow>
       rbind (guard ''The room changed during synchronization. Refresh and retry.'' (re_room e = rm_id r \<and> re_offer e = lo_id x
         \<and> re_signature e = lo_signature x \<and> lw_now W - re_at e \<le> 2000)) (\<lambda>_. Inr e))"

definition keep_offer :: "lobby_room \<Rightarrow> lobby_offer \<Rightarrow> lobby \<Rightarrow> lobby" where
  "keep_offer r x s = change_room (rm_id r) (\<lambda>r. r\<lparr>rm_offer := Some x\<rparr>) s"

definition ready_offer :: "lobby_world \<Rightarrow> string \<Rightarrow> lobby_room \<Rightarrow> lobby_offer \<Rightarrow> room_evidence \<Rightarrow> lobby \<Rightarrow> (lobby_reply \<times> lobby) res" where
  "ready_offer W p r x e s =
    (if re_phase e \<ge> 2 then Inr (OfferReply x (Some (re_phase e = 2)), s)
     else rbind (prepareRoomLaunch x p (lw_now W)) (\<lambda>x. Inr (OfferReply x None, keep_offer r x s)))"

definition accept_receipted :: "lobby_world \<Rightarrow> string \<Rightarrow> lobby_room \<Rightarrow> lobby_offer \<Rightarrow> room_evidence \<Rightarrow> string \<Rightarrow> lobby \<Rightarrow> (lobby_reply \<times> lobby) res" where
  "accept_receipted W p r x e h s = (case re_receipt e of None \<Rightarrow> Inl ''Cannot read properties of undefined''
     | Some t \<Rightarrow>
       rbind (guard ''This receipt does not confirm your acceptance of this duel.''
         (confirmsRoomAcceptance (lw_decode W) (ap_status t) (ap_hash t) (ap_logs t) (lw_app W) x p h)) (\<lambda>_.
       rbind (guard ''Waiting for the accepted duel to become readable.'' (re_phase e \<noteq> 0)) (\<lambda>_.
       let x = x\<lparr>lo_accepted := (if p \<in> set (lo_accepted x) then lo_accepted x else lo_accepted x @ [p])\<rparr> in
       Inr (OfferReply x (Some True), keep_offer r x s))))"

definition accept_intent :: "lobby_world \<Rightarrow> string \<Rightarrow> lobby_room \<Rightarrow> lobby_offer \<Rightarrow> room_evidence \<Rightarrow> bool \<Rightarrow> lobby \<Rightarrow> (lobby_reply \<times> lobby) res" where
  "accept_intent W p r x e countdown s =
    (let x = (if re_phase e = 0 then x\<lparr>lo_accepted := []\<rparr> else x) in
     rbind (guard ''Duel expired. Rejoin the queue for another opponent.''
       (lo_status x \<noteq> Cancelled \<and> re_phase e < 3 \<and> lw_now W < lo_expires x * 1000)) (\<lambda>_.
     rbind (guard ''Refresh PONGIT to load the match countdown, then accept the duel.'' countdown) (\<lambda>_.
     rbind (assertRoomLaunchReady x (lw_now W)) (\<lambda>_.
     Inr (OfferReply x (Some (p \<in> set (lo_accepted x))), keep_offer r x s)))))"

definition accept_offer :: "lobby_world \<Rightarrow> string \<Rightarrow> lobby_room \<Rightarrow> lobby_offer \<Rightarrow> room_evidence \<Rightarrow> bool \<Rightarrow> string option \<Rightarrow> lobby \<Rightarrow> (lobby_reply \<times> lobby) res" where
  "accept_offer W p r x e countdown receiptHash s =
    (if re_phase e = 2 then let x = x\<lparr>lo_accepted := [lo_a x, lo_b x]\<rparr> in Inr (OfferReply x (Some True), keep_offer r x s)
     else case receiptHash of Some h \<Rightarrow> accept_receipted W p r x e h s | None \<Rightarrow> accept_intent W p r x e countdown s)"

definition back_offer :: "string \<Rightarrow> lobby_room \<Rightarrow> lobby_offer \<Rightarrow> room_evidence \<Rightarrow> lobby \<Rightarrow> (lobby_reply \<times> lobby) res" where
  "back_offer p r x e s =
    rbind (guard ''The match has started. Resume or concede.'' (re_phase e \<noteq> 2 \<and> lo_status x \<noteq> Active)) (\<lambda>_.
    rbind (guard ''Acceptance already submitted. Cancel it on the engine first.'' (re_phase e \<noteq> 1)) (\<lambda>_.
    Inr (LobbyDone, change_room (rm_id r) (\<lambda>r. (change_member p (\<lambda>m. m\<lparr>mb_away := True\<rparr>) r)
      \<lparr>rm_offer := Some (x\<lparr>lo_status := Cancelled\<rparr>), rm_status := ''waiting''\<rparr>) s)))"

definition offer_request :: "lobby_world \<Rightarrow> room_evidence option \<Rightarrow> string \<Rightarrow> lobby_request \<Rightarrow> string \<Rightarrow> lobby_room \<Rightarrow> lobby \<Rightarrow> (lobby_reply \<times> lobby) res" where
  "offer_request W ev p req i r s = (case rm_offer r of None \<Rightarrow> Inl ''This duel is no longer available.''
     | Some x \<Rightarrow>
       rbind (guard ''This duel is no longer available.'' (lo_id x = i \<and> plays_in p x)) (\<lambda>_.
       rbind (verified_evidence W ev r x) (\<lambda>e.
       case req of ReadyOffer _ \<Rightarrow> ready_offer W p r x e s
         | AcceptOffer _ countdown h \<Rightarrow> accept_offer W p r x e countdown h s
         | _ \<Rightarrow> back_offer p r x e s)))"

text \<open>Leaving needs evidence when the player is in the offer.\<close>

definition may_leave :: "lobby_world \<Rightarrow> room_evidence option \<Rightarrow> string \<Rightarrow> lobby_room \<Rightarrow> lobby_offer option res" where
  "may_leave W ev p r = (case rm_offer r of None \<Rightarrow> Inr None
     | Some x \<Rightarrow>
       if \<not> plays_in p x then Inr (Some x)
       else
         rbind (verified_evidence W ev r x) (\<lambda>e.
         rbind (guard ''Concede your active match before leaving.'' (re_phase e \<noteq> 2)) (\<lambda>_.
         rbind (guard ''Cancel your submitted acceptance before leaving.'' (re_phase e \<noteq> 1)) (\<lambda>_.
         Inr (Some (if lo_status x = Offered then x\<lparr>lo_status := Cancelled\<rparr> else x))))))"

definition leave_room :: "lobby_world \<Rightarrow> room_evidence option \<Rightarrow> string \<Rightarrow> lobby_room \<Rightarrow> lobby \<Rightarrow> (lobby_reply \<times> lobby) res" where
  "leave_room W ev p r s =
    rbind (may_leave W ev p r) (\<lambda>x.
    let members = filter (\<lambda>m. mb_player m \<noteq> p) (rm_members r) in
    Inr (LobbyDone, change_room (rm_id r) (\<lambda>r. r\<lparr>rm_offer := x, rm_members := members, rm_activity := lw_now W,
      rm_host := (if rm_host r = p then first_host members else rm_host r)\<rparr>) s))"

definition serve_member :: "lobby_world \<Rightarrow> room_evidence option \<Rightarrow> string \<Rightarrow> lobby_request \<Rightarrow> lobby_room \<Rightarrow> lobby \<Rightarrow> (lobby_reply \<times> lobby) res" where
  "serve_member W ev p req r s = (case req of
     InviteTo player \<Rightarrow> invite_to W p r player s
   | RejoinRoom \<Rightarrow> rejoin_room W p r s
   | ReadyOffer i \<Rightarrow> offer_request W ev p req i r s
   | AcceptOffer i _ _ \<Rightarrow> offer_request W ev p req i r s
   | BackOffer i \<Rightarrow> offer_request W ev p req i r s
   | LeaveRoom \<Rightarrow> leave_room W ev p r s
   | _ \<Rightarrow> Inl ''Not found'')"

definition needs_publication :: "lobby_request \<Rightarrow> bool" where
  "needs_publication req = (case req of QueueFor _ \<Rightarrow> True | CreateRoom _ _ \<Rightarrow> True | Challenge _ _ \<Rightarrow> True | ReadyOffer _ \<Rightarrow> True
     | AcceptOffer _ _ _ \<Rightarrow> True | _ \<Rightarrow> False)"

definition serve_lobby :: "lobby_world \<Rightarrow> room_evidence option \<Rightarrow> string \<Rightarrow> lobby_request \<Rightarrow> lobby \<Rightarrow> (lobby_reply \<times> lobby) res" where
  "serve_lobby W ev p req s =
    rbind (guard ''The game service has paused writes because publication failed. Your session is saved; retry after service recovery.'' (\<not> lw_publication W \<or> \<not> needs_publication req)) (\<lambda>_.
    case req of
      QueueFor m \<Rightarrow> queue_for W p m s
    | LeaveQueue \<Rightarrow> leave_queue p s
    | CreateRoom m players \<Rightarrow> rbind (modeOf W m) (\<lambda>m. open_with W p Group m players s)
    | Challenge m player \<Rightarrow> challenge W p m player s
    | DeclineInvite i \<Rightarrow> decline_invite p i s
    | JoinRoom i \<Rightarrow> join_room W p i s
    | _ \<Rightarrow> (case occupant p s of None \<Rightarrow> Inl ''Join a room first.'' | Some r \<Rightarrow> serve_member W ev p req r s))"

subsection \<open>Seats\<close>

text \<open>The rows of the occupancy table: the members of the open rooms and the queue.\<close>

definition seats_of :: "lobby_room \<Rightarrow> string list" where
  "seats_of r = (if open_room r then map mb_player (rm_members r) else [])"

definition seats :: "lobby \<Rightarrow> string list" where
  "seats s = concat (map seats_of (lb_rooms s)) @ map qe_player (lb_queue s)"

definition room_fits :: "lobby_room \<Rightarrow> bool" where
  "room_fits r \<longleftrightarrow> (rm_kind r = Group \<longrightarrow> length (rm_members r) \<le> 8 \<and> distinct (map mb_player (rm_members r)))"

definition lobby_ok :: "lobby \<Rightarrow> bool" where
  "lobby_ok s \<longleftrightarrow> distinct (map rm_id (lb_rooms s)) \<and> distinct (seats s) \<and> (\<forall>r \<in> set (lb_rooms s). room_fits r)"

definition room_keeps :: "string set \<Rightarrow> lobby_room \<Rightarrow> lobby_room \<Rightarrow> bool" where
  "room_keeps N r r' \<longleftrightarrow> rm_id r' = rm_id r \<and> room_fits r' \<and> distinct (seats_of r') \<and> set (seats_of r') \<subseteq> set (seats_of r) \<union> N"

lemma distinct_concat_ids:
  "distinct (map rm_id rs) \<Longrightarrow> distinct (concat (map seats_of rs)) \<longleftrightarrow>
     (\<forall>r \<in> set rs. distinct (seats_of r)) \<and>
     (\<forall>r \<in> set rs. \<forall>q \<in> set rs. rm_id r \<noteq> rm_id q \<longrightarrow> set (seats_of r) \<inter> set (seats_of q) = {})"
  by (induction rs) (auto, blast+)

lemma seats_ok_iff:
  "lobby_ok s \<longleftrightarrow> distinct (map rm_id (lb_rooms s)) \<and> (\<forall>r \<in> set (lb_rooms s). room_fits r \<and> distinct (seats_of r))
    \<and> (\<forall>r \<in> set (lb_rooms s). \<forall>q \<in> set (lb_rooms s). rm_id r \<noteq> rm_id q \<longrightarrow> set (seats_of r) \<inter> set (seats_of q) = {})
    \<and> distinct (map qe_player (lb_queue s))
    \<and> (\<forall>r \<in> set (lb_rooms s). set (seats_of r) \<inter> qe_player ` set (lb_queue s) = {})"
  (is "_ \<longleftrightarrow> ?ids \<and> ?each \<and> ?apart \<and> ?queue \<and> ?free")
proof -
  have "lobby_ok s \<longleftrightarrow> ?ids \<and> distinct (concat (map seats_of (lb_rooms s))) \<and> ?queue
      \<and> set (concat (map seats_of (lb_rooms s))) \<inter> set (map qe_player (lb_queue s)) = {} \<and> (\<forall>r \<in> set (lb_rooms s). room_fits r)"
    unfolding lobby_ok_def seats_def distinct_append by blast
  moreover have "set (concat (map seats_of (lb_rooms s))) \<inter> set (map qe_player (lb_queue s)) = {} \<longleftrightarrow> ?free"
    unfolding set_concat set_map by auto
  moreover have "?ids \<longrightarrow> distinct (concat (map seats_of (lb_rooms s))) = ((\<forall>r \<in> set (lb_rooms s). distinct (seats_of r)) \<and> ?apart)"
    using distinct_concat_ids by blast
  ultimately show ?thesis unfolding ball_conj_distrib by argo
qed

lemma set_seats: "set (seats s) = (\<Union>r \<in> set (lb_rooms s). set (seats_of r)) \<union> qe_player ` set (lb_queue s)"
  by (simp add: seats_def)

lemma same_id_same_room:
  "lobby_ok s \<Longrightarrow> r \<in> set (lb_rooms s) \<Longrightarrow> q \<in> set (lb_rooms s) \<Longrightarrow> rm_id r = rm_id q \<Longrightarrow> r = q"
  by (meson lobby_ok_def distinct_map inj_onD)

lemma seats_rooms_change:
  assumes ok: "lobby_ok s" and N: "N \<inter> set (seats s) = {}"
    and f: "\<And>r. r \<in> set (lb_rooms s) \<Longrightarrow> room_keeps (if rm_id r = i then N else {}) r (f r)"
  shows "lobby_ok (s\<lparr>lb_rooms := map f (lb_rooms s)\<rparr>)"
proof -
  have ids: "map rm_id (map f (lb_rooms s)) = map rm_id (lb_rooms s)"
    using f by (simp add: room_keeps_def)
  have sub: "set (seats_of (f r)) \<subseteq> set (seats_of r) \<union> N" if "r \<in> set (lb_rooms s)" for r
    using f [OF that] by (cases "rm_id r = i") (auto simp add: room_keeps_def)
  have only: "set (seats_of (f r)) \<subseteq> set (seats_of r)" if "r \<in> set (lb_rooms s)" "rm_id r \<noteq> i" for r
    using f [OF that(1)] that(2) by (simp add: room_keeps_def)
  have N1: "N \<inter> set (seats_of r) = {}" if "r \<in> set (lb_rooms s)" for r
    using N that by (auto simp add: set_seats)
  have N2: "N \<inter> qe_player ` set (lb_queue s) = {}" using N by (auto simp add: set_seats)
  note parts = ok [unfolded seats_ok_iff]
  have apart: "set (seats_of r) \<inter> set (seats_of q) = {}"
    if "r \<in> set (lb_rooms s)" "q \<in> set (lb_rooms s)" "rm_id r \<noteq> rm_id q" for r q
    using parts that by simp
  have free: "set (seats_of r) \<inter> qe_player ` set (lb_queue s) = {}" if "r \<in> set (lb_rooms s)" for r
    using parts that by simp
  have "set (seats_of (f r)) \<inter> set (seats_of (f q)) = {}"
    if "r \<in> set (lb_rooms s)" "q \<in> set (lb_rooms s)" "rm_id r \<noteq> rm_id q" for r q
  proof -
    note d = apart [OF that]
    show ?thesis
    proof (cases "rm_id r = i")
      case True
      then have "rm_id q \<noteq> i" using that(3) by simp
      then show ?thesis using sub [OF that(1)] only [OF that(2)] d N1 [OF that(2)] by blast
    next
      case False
      then show ?thesis using only [OF that(1) False] sub [OF that(2)] d N1 [OF that(1)] by blast
    qed
  qed
  moreover have "set (seats_of (f r)) \<inter> qe_player ` set (lb_queue s) = {}" if "r \<in> set (lb_rooms s)" for r
    using sub [OF that] N2 free [OF that] by blast
  moreover have "room_fits (f r) \<and> distinct (seats_of (f r)) \<and> rm_id (f r) = rm_id r" if "r \<in> set (lb_rooms s)" for r
    using f [OF that] by (simp add: room_keeps_def)
  ultimately show ?thesis using parts ids unfolding seats_ok_iff by (simp del: map_map)
qed

lemma lobby_ok_change:
  assumes "lobby_ok s" "N \<inter> set (seats s) = {}"
    and "\<And>r. r \<in> set (lb_rooms s) \<Longrightarrow> rm_id r = i \<Longrightarrow> room_keeps N r (f r)"
  shows "lobby_ok (change_room i f s)"
proof -
  have "room_keeps {} r r" if "r \<in> set (lb_rooms s)" for r
    using assms(1) that by (auto simp add: room_keeps_def seats_ok_iff)
  then show ?thesis unfolding change_room_def
    by (intro seats_rooms_change [OF assms(1,2), of i]) (simp add: assms(3))
qed

lemma lobby_ok_queue:
  assumes "lobby_ok s" "distinct (map qe_player q)" "qe_player ` set q \<subseteq> qe_player ` set (lb_queue s) \<union> N" "N \<inter> set (seats s) = {}"
  shows "lobby_ok (s\<lparr>lb_queue := q\<rparr>)"
proof -
  have "set (seats_of r) \<inter> qe_player ` set q = {}" if "r \<in> set (lb_rooms s)" for r
  proof -
    have "set (seats_of r) \<inter> qe_player ` set (lb_queue s) = {}" using assms(1) that by (simp add: seats_ok_iff)
    moreover have "N \<inter> set (seats_of r) = {}" using assms(4) that by (auto simp add: set_seats)
    ultimately show ?thesis using assms(3) by blast
  qed
  then show ?thesis using assms(1,2) by (simp add: seats_ok_iff)
qed

lemma lobby_ok_queue_filter: "lobby_ok s \<Longrightarrow> lobby_ok (s\<lparr>lb_queue := filter P (lb_queue s)\<rparr>)"
  by (rule lobby_ok_queue [of s _ "{}"]) (auto simp add: seats_ok_iff distinct_map_filter)

lemma lobby_ok_invites [simp]: "lobby_ok (s\<lparr>lb_invites := v\<rparr>) = lobby_ok s"
  by (simp add: seats_ok_iff)

lemma lobby_ok_put:
  assumes ok: "lobby_ok s" and N: "set (seats_of r) \<inter> set (seats s) = {}" and r: "room_fits r" "distinct (seats_of r)"
  shows "lobby_ok (put_room r s)"
proof (cases "find_room (rm_id r) s")
  case None
  then have "rm_id q \<noteq> rm_id r" if "q \<in> set (lb_rooms s)" for q
    using that by (auto simp add: find_room_def find_None_iff)
  moreover have "set (seats_of r) \<inter> set (seats_of q) = {}" if "q \<in> set (lb_rooms s)" for q
    using N that by (auto simp add: set_seats)
  moreover have "set (seats_of r) \<inter> qe_player ` set (lb_queue s) = {}" using N by (auto simp add: set_seats)
  ultimately show ?thesis using ok r None unfolding put_room_def seats_ok_iff by (auto, blast+)
next
  case (Some q)
  have "lobby_ok (change_room (rm_id r) (\<lambda>_. r) s)"
    by (rule lobby_ok_change [OF ok N]) (auto simp add: room_keeps_def r)
  with Some show ?thesis by (simp add: put_room_def)
qed

lemma find_room_in: "find_room i s = Some r \<Longrightarrow> r \<in> set (lb_rooms s) \<and> rm_id r = i"
  by (auto simp add: find_room_def find_Some_iff)

lemma available_free: "available_player p s = Inr () \<Longrightarrow> p \<notin> set (seats s)"
  by (auto simp add: available_player_def set_seats queued_def list_ex_iff occupant_def find_None_iff seats_of_def member_of_def
      split: if_split_asm)

subsection \<open>Requests keep the seats\<close>

lemma send_invite_rooms: "send_invite W room p t s = Inr s' \<Longrightarrow> lobby_ok s \<Longrightarrow> lobby_ok s'"
  by (auto simp add: send_invite_def Let_def res_simps split: if_split_asm)

lemma send_invites_rooms: "send_invites W room p ts s = Inr s' \<Longrightarrow> lobby_ok s \<Longrightarrow> lobby_ok s'"
  by (induction ts arbitrary: s) (auto simp add: res_simps dest: send_invite_rooms)

lemma queue_for_ok:
  assumes "queue_for W p v s = Inr (x, s')" "lobby_ok s"
  shows "lobby_ok s'"
proof (cases "queued p s")
  case True
  then show ?thesis using assms by (auto simp add: queue_for_def res_simps)
next
  case False
  then obtain q where "available_player p s = Inr ()" and s': "s' = s\<lparr>lb_queue := lb_queue s @ [q]\<rparr>" "qe_player q = p"
    using assms by (auto simp add: queue_for_def res_simps)
  then have p: "p \<notin> set (seats s)" using available_free by blast
  show ?thesis unfolding s'(1)
    by (rule lobby_ok_queue [OF assms(2), of _ "{p}"])
      (use assms(2) s'(2) p in \<open>auto simp add: seats_def lobby_ok_def\<close>)
qed

lemma leave_queue_ok: "leave_queue p s = Inr (x, s') \<Longrightarrow> lobby_ok s \<Longrightarrow> lobby_ok s'"
  by (auto simp add: leave_queue_def res_simps lobby_ok_queue_filter)

lemma open_with_ok:
  assumes "open_with W p kind m players s = Inr (x, s')" "lobby_ok s"
  shows "lobby_ok s'"
proof -
  let ?r = "new_room (lw_now W) (lw_fresh W []) p kind m"
  obtain rs where free: "available_player p s = Inr ()"
      and s': "send_invites W (lw_fresh W []) p (js_unique rs) (put_room ?r s) = Inr s'"
    using assms by (auto simp add: open_with_def Let_def res_simps)
  have "lobby_ok (put_room ?r s)"
    by (rule lobby_ok_put [OF assms(2)])
      (use available_free [OF free] in \<open>simp_all add: new_room_def seats_of_def open_room_def room_fits_def seat_def\<close>)
  then show ?thesis by (rule send_invites_rooms [OF s'])
qed

lemma add_member_keeps:
  assumes "lobby_ok s" "r \<in> set (lb_rooms s)" "mb_player m \<notin> set (seats s)" "rm_kind r \<noteq> Group \<or> open_room r \<and> length (rm_members r) < 8"
  shows "room_keeps {mb_player m} r (add_member m now r)"
  using assms by (auto simp add: room_keeps_def add_member_def seats_of_def open_room_def room_fits_def seats_ok_iff set_seats)

lemma challenge_ok:
  assumes "challenge W p v player s = Inr (x, s')" "lobby_ok s"
  shows "lobby_ok s'"
proof -
  obtain m target where run: "(case find (answers_to W p target m s) (lb_invites s) of
      Some i \<Rightarrow> rbind (available_player p s) (\<lambda>_. rbind (guard ''This invitation is unavailable.'' (\<not> blocked_pair W p target)) (\<lambda>_.
        Inr (InRoom (iv_room i), (change_room (iv_room i) (add_member (seat p (lw_now W) 1 (lw_now W)) (lw_now W)) s)
          \<lparr>lb_invites := change_first (answers_to W p target m s) (\<lambda>i. i\<lparr>iv_status := InviteAccepted\<rparr>)
            (lb_invites (change_room (iv_room i) (add_member (seat p (lw_now W) 1 (lw_now W)) (lw_now W)) s))\<rparr>)))
    | None \<Rightarrow> open_with W p Duel m [player] s) = Inr (x, s')"
    using assms(1) unfolding challenge_def Let_def res_simps by blast
  show ?thesis
  proof (cases "find (answers_to W p target m s) (lb_invites s)")
    case None
    then show ?thesis using run assms(2) by (auto intro: open_with_ok)
  next
    case (Some i)
    then have i: "answers_to W p target m s i" by (auto simp add: find_Some_iff)
    have free: "available_player p s = Inr ()" using run Some by (auto simp add: res_simps)
    have "lobby_ok (change_room (iv_room i) (add_member (seat p (lw_now W) 1 (lw_now W)) (lw_now W)) s)"
    proof (rule lobby_ok_change [OF assms(2), of "{p}"])
      show "{p} \<inter> set (seats s) = {}" using available_free [OF free] by simp
      fix r assume r: "r \<in> set (lb_rooms s)" "rm_id r = iv_room i"
      obtain d where d: "find_room (iv_room i) s = Some d" "rm_kind d = Duel"
        using i by (auto simp add: answers_to_def split: option.splits)
      then have "d = r" using same_id_same_room [OF assms(2) _ r(1)] find_room_in [OF d(1)] r(2) by simp
      with d show "room_keeps {p} r (add_member (seat p (lw_now W) 1 (lw_now W)) (lw_now W) r)"
        using add_member_keeps [OF assms(2) r(1), of "seat p (lw_now W) 1 (lw_now W)"] available_free [OF free]
        by (simp add: seat_def)
    qed
    then show ?thesis using run Some by (auto simp add: res_simps)
  qed
qed

lemma decline_invite_ok: "decline_invite p i s = Inr (x, s') \<Longrightarrow> lobby_ok s \<Longrightarrow> lobby_ok s'"
  by (auto simp add: decline_invite_def Let_def res_simps)

lemma room_keeps_cong:
  assumes "room_keeps N r q" "rm_id q' = rm_id q" "rm_kind q' = rm_kind q" "rm_members q' = rm_members q" "open_room q' = open_room q"
  shows "room_keeps N r q'"
proof -
  have "seats_of q' = seats_of q" using assms by (simp add: seats_of_def)
  then show ?thesis using assms by (simp add: room_keeps_def room_fits_def)
qed

lemma join_room_ok:
  assumes "join_room W p i s = Inr (x, s')" "lobby_ok s"
  shows "lobby_ok s'"
proof -
  obtain r where r: "find_room i s = Some r" using assms(1) by (auto simp add: join_room_def res_simps split: option.splits)
  then have r': "r \<in> set (lb_rooms s)" "rm_id r = i" using find_room_in by blast+
  show ?thesis
  proof (cases "member_of p r")
    case True
    then show ?thesis using assms r by (auto simp add: join_room_def res_simps)
  next
    case False
    let ?q = "(add_member (seat p (lw_now W) (next_position r) (lw_now W)) (lw_now W) r)
      \<lparr>rm_host := (if rm_host r = [] then p else rm_host r)\<rparr>"
    have free: "available_player p s = Inr ()" and fits: "open_room r" "length (rm_members r) < (if rm_kind r = Group then 8 else 2)"
      and s': "\<exists>v. s' = (change_room i (\<lambda>_. ?q) s)\<lparr>lb_invites := v\<rparr>"
      using assms(1) r False by (auto simp add: join_room_def Let_def res_simps)
    have "lobby_ok (change_room i (\<lambda>_. ?q) s)"
    proof (rule lobby_ok_change [OF assms(2), of "{p}"])
      show "{p} \<inter> set (seats s) = {}" using available_free [OF free] by simp
      fix q assume "q \<in> set (lb_rooms s)" "rm_id q = i"
      then have "q = r" using same_id_same_room [OF assms(2)] r' by metis
      moreover have "room_keeps {p} r (add_member (seat p (lw_now W) (next_position r) (lw_now W)) (lw_now W) r)"
        using add_member_keeps [OF assms(2) r'(1), of "seat p (lw_now W) (next_position r) (lw_now W)"] available_free [OF free] fits
        by (auto simp add: seat_def split: if_split_asm)
      ultimately show "room_keeps {p} q ?q" by (auto intro: room_keeps_cong simp add: open_room_def)
    qed
    then show ?thesis using s' by auto
  qed
qed

lemma occupant_in: "occupant p s = Some r \<Longrightarrow> r \<in> set (lb_rooms s) \<and> open_room r \<and> member_of p r"
  by (auto simp add: occupant_def find_Some_iff)

lemma change_first_map: "(\<And>x. g (f x) = g x) \<Longrightarrow> map g (change_first P f xs) = map g xs"
  by (induction xs) simp_all

lemma length_change_first [simp]: "length (change_first P f xs) = length xs"
  by (induction xs) simp_all

text \<open>What a change of a room's own offer, seats or times keeps.\<close>

lemma room_keeps_same:
  assumes "lobby_ok s" "r \<in> set (lb_rooms s)" "rm_id q = rm_id r" "rm_kind q = rm_kind r"
    "map mb_player (rm_members q) = map mb_player (rm_members r)" "open_room q = open_room r"
  shows "room_keeps N r q"
proof -
  have "length (rm_members q) = length (rm_members r)" using assms(5) by (metis length_map)
  then show ?thesis using assms by (auto simp add: room_keeps_def room_fits_def seats_of_def seats_ok_iff)
qed

lemma lobby_ok_own:
  assumes "lobby_ok s" "\<And>r. r \<in> set (lb_rooms s) \<Longrightarrow> rm_id r = i \<Longrightarrow> rm_id (f r) = rm_id r \<and> rm_kind (f r) = rm_kind r
    \<and> map mb_player (rm_members (f r)) = map mb_player (rm_members r) \<and> open_room (f r) = open_room r"
  shows "lobby_ok (change_room i f s)"
  by (rule lobby_ok_change [OF assms(1), of "{}"]) (use assms in \<open>auto intro: room_keeps_same\<close>)

lemma keep_offer_ok: "lobby_ok s \<Longrightarrow> lobby_ok (keep_offer r x s)"
  unfolding keep_offer_def by (rule lobby_ok_own) (simp_all add: open_room_def)

lemma invite_to_ok: "invite_to W p r player s = Inr (x, s') \<Longrightarrow> lobby_ok s \<Longrightarrow> lobby_ok s'"
  by (auto simp add: invite_to_def res_simps dest: send_invite_rooms)

lemma rejoin_room_ok: "rejoin_room W p r s = Inr (x, s') \<Longrightarrow> lobby_ok s \<Longrightarrow> lobby_ok s'"
  by (auto simp add: rejoin_room_def intro!: lobby_ok_own simp add: change_member_def change_first_map open_room_def)

lemma back_offer_ok:
  assumes "back_offer p r y e s = Inr (x, s')" "lobby_ok s" "r \<in> set (lb_rooms s)" "open_room r"
  shows "lobby_ok s'"
proof -
  have s': "s' = change_room (rm_id r) (\<lambda>r. (change_member p (\<lambda>m. m\<lparr>mb_away := True\<rparr>) r)
      \<lparr>rm_offer := Some (y\<lparr>lo_status := Cancelled\<rparr>), rm_status := ''waiting''\<rparr>) s"
    using assms(1) by (auto simp add: back_offer_def res_simps)
  have "open_room q" if "q \<in> set (lb_rooms s)" "rm_id q = rm_id r" for q
    using same_id_same_room [OF assms(2) that(1) assms(3) that(2)] assms(4) by simp
  then show ?thesis unfolding s'
    by (intro lobby_ok_own assms(2)) (auto simp add: change_member_def change_first_map open_room_def)
qed

lemma offer_request_ok:
  assumes "offer_request W ev p req i r s = Inr (x, s')" "lobby_ok s" "r \<in> set (lb_rooms s)" "open_room r"
  shows "lobby_ok s'"
proof -
  obtain y e where run: "(case req of ReadyOffer _ \<Rightarrow> ready_offer W p r y e s
         | AcceptOffer _ countdown h \<Rightarrow> accept_offer W p r y e countdown h s
         | _ \<Rightarrow> back_offer p r y e s) = Inr (x, s')"
    using assms(1) by (auto simp add: offer_request_def res_simps split: option.splits)
  have "ready_offer W p r y e s = Inr (x, s') \<Longrightarrow> lobby_ok s'"
    using assms(2) by (auto simp add: ready_offer_def res_simps keep_offer_ok split: if_split_asm)
  moreover have "accept_offer W p r y e c h s = Inr (x, s') \<Longrightarrow> lobby_ok s'" for c h
    using assms(2)
    by (auto simp add: accept_offer_def accept_receipted_def accept_intent_def Let_def res_simps keep_offer_ok
        split: if_split_asm option.splits)
  moreover note back_offer_ok [OF _ assms(2-4)]
  ultimately show ?thesis using run by (cases req) auto
qed

lemma leave_room_ok:
  assumes "leave_room W ev p r s = Inr (x, s')" "lobby_ok s" "r \<in> set (lb_rooms s)"
  shows "lobby_ok s'"
proof -
  let ?ms = "filter (\<lambda>m. mb_player m \<noteq> p) (rm_members r)"
  obtain y where s': "s' = change_room (rm_id r) (\<lambda>r. r\<lparr>rm_offer := y, rm_members := ?ms, rm_activity := lw_now W,
      rm_host := (if rm_host r = p then first_host ?ms else rm_host r)\<rparr>) s"
    using assms(1) by (auto simp add: leave_room_def Let_def res_simps)
  have r: "room_fits r" "distinct (seats_of r)" using assms(2,3) by (simp_all add: seats_ok_iff)
  have l: "length (rm_members r) \<le> 8 \<Longrightarrow> length ?ms \<le> 8" by (rule order_trans [OF length_filter_le])
  show ?thesis unfolding s'
  proof (rule lobby_ok_change [OF assms(2), of "{}"])
    fix q assume "q \<in> set (lb_rooms s)" "rm_id q = rm_id r"
    then have q: "q = r" using same_id_same_room [OF assms(2) _ assms(3)] by simp
    show "room_keeps {} q (q\<lparr>rm_offer := y, rm_members := ?ms, rm_activity := lw_now W,
      rm_host := (if rm_host q = p then first_host ?ms else rm_host q)\<rparr>)"
      using r l unfolding q room_keeps_def room_fits_def seats_of_def open_room_def by (auto simp add: distinct_map_filter)
  qed simp
qed

lemma serve_member_ok:
  assumes "serve_member W ev p req r s = Inr (x, s')" "lobby_ok s" "r \<in> set (lb_rooms s)" "open_room r"
  shows "lobby_ok s'"
  using assms by (cases req) (auto simp add: serve_member_def intro: invite_to_ok rejoin_room_ok offer_request_ok leave_room_ok)

lemma serve_ok:
  assumes "serve_lobby W ev p req s = Inr (x, s')" "lobby_ok s"
  shows "lobby_ok s'"
proof -
  have member: "(case occupant p s of None \<Rightarrow> Inl ''Join a room first.'' | Some r \<Rightarrow> serve_member W ev p req r s) = Inr (x, s') \<Longrightarrow> lobby_ok s'"
    using assms(2) by (auto split: option.splits dest!: occupant_in intro: serve_member_ok)
  show ?thesis
    using assms member
    by (cases req) (auto simp add: serve_lobby_def res_simps intro: queue_for_ok leave_queue_ok open_with_ok challenge_ok decline_invite_ok join_room_ok)
qed

end
