(* ===== verification/Lobby_Maintenance.thy ===== *)
theory Lobby_Maintenance
  imports Lobby
begin

text \<open>
  \<^verbatim>\<open>relayer/src/interlude-rooms.ts\<close>, \<^verbatim>\<open>maintenance\<close>: the transaction the coordinator runs on the lobby every two
  seconds.  It expires presence and invitations, follows the observed matches of the rooms, closes idle rooms,
  pairs the queue and issues signed match tickets within the capacity of the engine; and
  \<^verbatim>\<open>restoreContestedMatch\<close>, which brings a room back to a match that the engine has reopened.  What the engine
  said of an offer is its phase and its winner.
\<close>

subsection \<open>Observation of the rooms\<close>

text \<open>The offers that are read from the engine before the transaction, and the writes they reserve in it.\<close>

definition observable_offer :: "int \<Rightarrow> lobby_offer \<Rightarrow> bool" where
  "observable_offer now x \<longleftrightarrow> \<not> (lo_status x = Complete \<or> (lo_status x = Cancelled \<and> lo_expires x * 1000 + 30000 < now))"

type_synonym engine_view = "string \<Rightarrow> (int \<times> string) option"

definition observe_offers :: "(string \<Rightarrow> int \<times> string) \<Rightarrow> int \<Rightarrow> lobby \<Rightarrow> engine_view" where
  "observe_offers snapshot now s i =
    (if list_ex (\<lambda>r. case rm_offer r of None \<Rightarrow> False | Some x \<Rightarrow> lo_id x = i \<and> observable_offer now x) (lb_rooms s)
     then Some (snapshot i) else None)"

definition unresolved_offer :: "lobby_room \<Rightarrow> bool" where
  "unresolved_offer r \<longleftrightarrow> (case rm_offer r of None \<Rightarrow> False | Some x \<Rightarrow> lo_status x \<noteq> Complete \<and> lo_status x \<noteq> Cancelled)"

record capacity =
  cp_creation :: int
  cp_terminal :: int
  cp_pending :: int
  cp_max :: int

definition reserved_writes :: "capacity \<Rightarrow> engine_view \<Rightarrow> lobby \<Rightarrow> int" where
  "reserved_writes cap seen s = cp_pending cap + sum_list (map (\<lambda>r.
     if map_option fst (Option.bind (rm_offer r) (\<lambda>x. seen (lo_id x))) = Some 0 then cp_creation cap else cp_terminal cap)
     (filter unresolved_offer (lb_rooms s)))"

definition observe_active :: "engine_view \<Rightarrow> lobby_room \<Rightarrow> lobby_room" where
  "observe_active seen r = (case rm_offer r of None \<Rightarrow> r
     | Some x \<Rightarrow>
       if map_option fst (seen (lo_id x)) = Some 2
       then r\<lparr>rm_offer := Some (x\<lparr>lo_accepted := [lo_a x, lo_b x], lo_status := Active\<rparr>), rm_status := ''playing''\<rparr> else r)"

definition absent_player :: "lobby_offer \<Rightarrow> room_member \<Rightarrow> room_member" where
  "absent_player x m = (if plays_in (mb_player m) x \<and> mb_player m \<notin> set (lo_accepted x) then m\<lparr>mb_away := True\<rparr> else m)"

text \<open>A finished match rotates its room; a cancelled one marks the players who let the ticket expire.\<close>

definition finish_match :: "int \<Rightarrow> lobby_offer \<Rightarrow> int \<Rightarrow> string \<Rightarrow> lobby_room \<Rightarrow> lobby_room" where
  "finish_match now x ph w r =
    (let members = (if ph = 4 \<and> lo_expires x * 1000 < now then map (absent_player x) (rm_members r) else rm_members r);
         r = r\<lparr>rm_members := members, rm_offer := Some (x\<lparr>lo_status := (if ph = 3 then Complete else Cancelled)\<rparr>),
               rm_status := ''waiting'', rm_activity := now\<rparr> in
     if ph = 3 then r\<lparr>rm_winner := Some (lower w), rm_members := rotateMembers members (lo_a x) (lo_b x) (lower w)\<rparr>
     else r\<lparr>rm_winner := None\<rparr>)"

definition observe_over :: "engine_view \<Rightarrow> int \<Rightarrow> lobby_room \<Rightarrow> lobby_room" where
  "observe_over seen now r = (case rm_offer r of None \<Rightarrow> r
     | Some x \<Rightarrow> (case seen (lo_id x) of None \<Rightarrow> r
       | Some (ph, w) \<Rightarrow> if ph \<ge> 3 \<and> lo_status x \<noteq> Complete \<and> lo_status x \<noteq> Cancelled then finish_match now x ph w r else r))"

definition observe_room :: "engine_view \<Rightarrow> int \<Rightarrow> lobby_room \<Rightarrow> lobby_room" where
  "observe_room seen now r =
    (let r = observe_over seen now (observe_active seen r) in
     case rm_offer r of None \<Rightarrow> r | Some x \<Rightarrow> snd (expireUnstartedRoomOffer r (map_option fst (seen (lo_id x))) now))"

definition idle_room :: "int \<Rightarrow> lobby_room \<Rightarrow> bool" where
  "idle_room now r \<longleftrightarrow> (rm_members r = [] \<and> now - rm_activity r > 1800000)
     \<or> (map_option lo_status (rm_offer r) \<noteq> Some Active \<and> now - rm_activity r > 86400000)"

definition close_idle :: "int \<Rightarrow> lobby_room \<Rightarrow> lobby_room" where
  "close_idle now r = (if idle_room now r then r\<lparr>rm_status := ''closed'', rm_members := []\<rparr> else r)"

definition forgotten :: "int \<Rightarrow> lobby_room \<Rightarrow> bool" where
  "forgotten now r \<longleftrightarrow> \<not> open_room r \<and> now - rm_activity r > 86400000"

definition expire_invite :: "int \<Rightarrow> invitation \<Rightarrow> invitation" where
  "expire_invite now i = (if iv_expires i \<le> now \<and> iv_status i = AwaitingReply then i\<lparr>iv_status := InviteExpired\<rparr> else i)"

definition refresh_lobby :: "engine_view \<Rightarrow> int \<Rightarrow> lobby \<Rightarrow> lobby" where
  "refresh_lobby seen now s = s\<lparr>
     lb_queue := filter (\<lambda>q. now - qe_seen q < 30000) (lb_queue s),
     lb_invites := map (expire_invite now) (filter (\<lambda>i. iv_expires i > now - 600000) (lb_invites s)),
     lb_rooms := filter (\<lambda>r. \<not> forgotten now r) (map (\<lambda>r. close_idle now (observe_room seen now r)) (lb_rooms s))\<rparr>"

subsection \<open>Matchmaking\<close>

definition rating_band :: "int \<Rightarrow> queue_entry \<Rightarrow> int" where
  "rating_band now q = min 600 (100 + 50 * ((now - qe_at q) div 15000))"

definition opponent :: "lobby_world \<Rightarrow> queue_entry \<Rightarrow> queue_entry \<Rightarrow> bool" where
  "opponent W q x \<longleftrightarrow> qe_player x \<noteq> qe_player q \<and> mode_of (qe_mode x) = mode_of (qe_mode q)
     \<and> \<bar>elo_of W (qe_player q) (mode_of (qe_mode q)) - elo_of W (qe_player x) (mode_of (qe_mode x))\<bar> \<le> rating_band (lw_now W) q
     \<and> \<not> blocked_pair W (qe_player q) (qe_player x)"

definition pair_players :: "lobby_world \<Rightarrow> queue_entry \<Rightarrow> queue_entry \<Rightarrow> lobby \<Rightarrow> lobby" where
  "pair_players W q x s =
    (let r = new_room (lw_now W) (lw_fresh W (qe_player q)) (qe_player q) Ranked (mode_of (qe_mode q));
         r = r\<lparr>rm_members := rm_members r @ [seat (qe_player x) (lw_now W) 1 (qe_seen x)]\<rparr> in
     put_room r (s\<lparr>lb_queue := filter (\<lambda>y. qe_player y \<noteq> qe_player q \<and> qe_player y \<noteq> qe_player x) (lb_queue s)\<rparr>))"

definition match_one :: "lobby_world \<Rightarrow> queue_entry \<Rightarrow> lobby \<Rightarrow> lobby" where
  "match_one W q s =
    (if \<not> queued (qe_player q) s then s
     else case find (opponent W q) (lb_queue s) of None \<Rightarrow> s | Some x \<Rightarrow> pair_players W q x s)"

definition matchmaking :: "lobby_world \<Rightarrow> bool \<Rightarrow> lobby \<Rightarrow> lobby" where
  "matchmaking W writable s = (if writable then fold (match_one W) (sort_key qe_at (lb_queue s)) s else s)"

subsection \<open>Tickets\<close>

definition may_replace :: "int \<Rightarrow> lobby_room \<Rightarrow> bool" where
  "may_replace now r \<longleftrightarrow> open_room r \<and> \<not> unresolved_offer r
     \<and> (case rm_offer r of None \<Rightarrow> True
        | Some x \<Rightarrow> \<not> (lo_status x = Complete \<and> now - rm_activity r < 5000)
            \<and> \<not> (lo_status x = Cancelled \<and> lo_expires x * 1000 + 3000 > now))"

record ticket_signer =
  ts_id :: "string \<Rightarrow> int"
  ts_entropy :: "string \<Rightarrow> string"
  ts_rules :: int
  ts_chaos :: bool
  ts_sign :: "lobby_offer \<Rightarrow> string"

definition new_ticket :: "ticket_signer \<Rightarrow> int \<Rightarrow> lobby_room \<Rightarrow> string \<Rightarrow> string \<Rightarrow> lobby_offer" where
  "new_ticket T now r a b =
    (let x = \<lparr>lo_mode = (if ts_chaos T then Some (mode_of (rm_mode r)) else None), lo_id = decimal (ts_id T (rm_id r)),
              lo_room = rm_id r, lo_a = a, lo_b = b, lo_ranked = (rm_kind r = Ranked), lo_expires = now div 1000 + 20,
              lo_rules = ts_rules T, lo_entropy = ts_entropy T (rm_id r), lo_signature = [], lo_accepted = [],
              lo_launch = None, lo_status = Offered\<rparr> in
     x\<lparr>lo_signature := ts_sign T x\<rparr>)"

text \<open>The rooms from the oldest to the newest, with the unresolved offers and the reserved writes so far.\<close>

definition offer_match :: "lobby_world \<Rightarrow> ticket_signer \<Rightarrow> capacity \<Rightarrow> lobby_room \<Rightarrow> lobby_room list \<times> int \<times> int \<Rightarrow> lobby_room list \<times> int \<times> int" where
  "offer_match W T cap r acc = (case acc of (rooms, active, reserved) \<Rightarrow>
    (let now = lw_now W; pair = nextPair (rm_members r) (rm_winner r) now in
     if \<not> may_replace now r \<or> length pair < 2 then (rooms @ [r], active, reserved)
     else if \<not> admission_open W \<or> active \<ge> 2 \<or> reserved + cp_creation cap > cp_max cap \<or> lw_publication W
     then (rooms @ [r\<lparr>rm_status := ''capacity''\<rparr>], active, reserved)
     else (rooms @ [r\<lparr>rm_offer := Some (new_ticket T now r (mb_player (pair ! 0)) (mb_player (pair ! 1))),
             rm_status := ''offer'', rm_activity := now\<rparr>], active + 1, reserved + cp_creation cap)))"

definition offer_matches :: "lobby_world \<Rightarrow> ticket_signer \<Rightarrow> capacity \<Rightarrow> int \<Rightarrow> lobby \<Rightarrow> lobby_room list \<times> int \<times> int" where
  "offer_matches W T cap reserved s =
    fold (offer_match W T cap) (sort_key rm_created (lb_rooms s)) ([], int (length (filter unresolved_offer (lb_rooms s))), reserved)"

definition maintain :: "lobby_world \<Rightarrow> ticket_signer \<Rightarrow> capacity \<Rightarrow> engine_view \<Rightarrow> int \<Rightarrow> bool \<Rightarrow> lobby \<Rightarrow> lobby" where
  "maintain W T cap seen reserved writable s =
    (let s = matchmaking W writable (refresh_lobby seen (lw_now W) s) in
     s\<lparr>lb_rooms := fst (offer_matches W T cap reserved s)\<rparr>)"

subsection \<open>A contested match\<close>

record contested =
  ct_phase :: int
  ct_first :: string
  ct_second :: string

definition evict :: "string list \<Rightarrow> lobby_room \<Rightarrow> lobby_room" where
  "evict players r =
    (let members = filter (\<lambda>m. mb_player m \<notin> set players) (rm_members r);
         r = r\<lparr>rm_members := members\<rparr>;
         r = (case rm_offer r of None \<Rightarrow> r
              | Some x \<Rightarrow> if list_ex (\<lambda>p. plays_in p x) players
                  then r\<lparr>rm_offer := Some (x\<lparr>lo_status := Cancelled\<rparr>), rm_status := ''waiting''\<rparr> else r) in
     if list_ex (\<lambda>m. mb_player m = rm_host r) members then r else r\<lparr>rm_host := first_host members\<rparr>)"

definition return_player :: "int \<Rightarrow> string \<Rightarrow> lobby_room \<Rightarrow> lobby_room" where
  "return_player now p r =
    (if member_of p r then change_member p (\<lambda>m. m\<lparr>mb_away := False\<rparr>) r
     else r\<lparr>rm_members := rm_members r @ [seat p now (int (length (rm_members r))) 0]\<rparr>)"

definition restore_players :: "int \<Rightarrow> string list \<Rightarrow> lobby_offer \<Rightarrow> int \<Rightarrow> lobby_room \<Rightarrow> lobby_room" where
  "restore_players now players x ph r =
    (fold (return_player now) players r)\<lparr>rm_winner := None,
       rm_offer := Some (x\<lparr>lo_status := (if ph = 2 then Active else Submitted)\<rparr>),
       rm_status := (if ph = 2 then ''playing'' else ''offer''), rm_activity := now\<rparr>"

definition cancel_saved :: "int \<Rightarrow> string \<Rightarrow> lobby_room \<Rightarrow> lobby_room" where
  "cancel_saved now i r = (case rm_offer r of
      Some x \<Rightarrow> if lo_id x = i then r\<lparr>rm_winner := None, rm_activity := now, rm_offer := Some (x\<lparr>lo_status := Cancelled\<rparr>), rm_status := ''waiting''\<rparr>
                else r\<lparr>rm_winner := None, rm_activity := now\<rparr>
    | None \<Rightarrow> r\<lparr>rm_winner := None, rm_activity := now\<rparr>)"

definition restoreContestedMatch :: "int \<Rightarrow> string \<Rightarrow> string \<times> lobby_offer \<Rightarrow> contested \<Rightarrow> lobby \<Rightarrow> lobby res" where
  "restoreContestedMatch now i saved snap s = (case find_room (fst saved) s of None \<Rightarrow> Inr s
     | Some r \<Rightarrow>
       if ct_phase snap = 1 \<or> ct_phase snap = 2 then
         let players = [lower (ct_first snap), lower (ct_second snap)] in
         rbind (guard ''Room recovery needs operator review before admission resumes.''
           (length (filter (\<lambda>m. mb_player m \<notin> set players) (rm_members r)) + 2 \<le> 8)) (\<lambda>_.
         Inr (s\<lparr>lb_rooms := map (\<lambda>q. if rm_id q = rm_id r then restore_players now players (snd saved) (ct_phase snap) q else evict players q) (lb_rooms s),
                lb_queue := filter (\<lambda>q. qe_player q \<notin> set players) (lb_queue s)\<rparr>))
       else Inr (change_room (rm_id r) (cancel_saved now i) s))"

subsection \<open>Maintenance keeps the seats\<close>

definition closed_empty :: "lobby \<Rightarrow> bool" where
  "closed_empty s \<longleftrightarrow> (\<forall>r \<in> set (lb_rooms s). open_room r \<or> rm_members r = [])"

definition same_players :: "lobby_room \<Rightarrow> lobby_room \<Rightarrow> bool" where
  "same_players r q \<longleftrightarrow> rm_id q = rm_id r \<and> rm_kind q = rm_kind r \<and> map mb_player (rm_members q) = map mb_player (rm_members r)"

lemma same_players_refl [simp]: "same_players r r"
  by (simp add: same_players_def)

lemma same_players_trans: "same_players r q \<Longrightarrow> same_players q t \<Longrightarrow> same_players r t"
  by (simp add: same_players_def)

lemma observe_active_players: "same_players r (observe_active seen r)"
  by (simp add: observe_active_def same_players_def split: option.split)

lemma absent_players: "map (mb_player \<circ> absent_player x) ms = map mb_player ms"
  by (simp add: absent_player_def)

lemma finish_match_players: "same_players r (finish_match now x ph w r)"
  by (simp add: finish_match_def same_players_def Let_def rotateMembers_players absent_players)

lemma observe_over_players: "same_players r (observe_over seen now r)"
  by (simp add: observe_over_def finish_match_players split: option.split prod.split)

lemma expire_players: "same_players r (snd (expireUnstartedRoomOffer r ph now))"
  by (auto simp add: expireUnstartedRoomOffer_def same_players_def split: option.split)

lemma observe_room_players: "same_players r (observe_room seen now r)"
proof -
  have "same_players r (observe_over seen now (observe_active seen r))"
    by (rule same_players_trans [OF observe_active_players observe_over_players])
  then show ?thesis
    by (auto simp add: observe_room_def Let_def intro: same_players_trans [OF _ expire_players] split: option.split)
qed

lemma room_keeps_players:
  assumes "lobby_ok s" "r \<in> set (lb_rooms s)" "same_players r q" "open_room r \<or> rm_members r = []"
  shows "room_keeps {} r q"
proof -
  have "length (rm_members q) = length (rm_members r)" using assms(3) unfolding same_players_def by (metis length_map)
  moreover have "room_fits r" "distinct (seats_of r)" using assms(1,2) by (simp_all add: seats_ok_iff)
  ultimately show ?thesis using assms(3,4) by (auto simp add: room_keeps_def room_fits_def seats_of_def same_players_def)
qed

lemma close_idle_keeps: "room_keeps {} r q \<Longrightarrow> room_keeps {} r (close_idle now q)"
  by (auto simp add: close_idle_def room_keeps_def room_fits_def seats_of_def open_room_def)

lemma lobby_ok_filter: "lobby_ok s \<Longrightarrow> lobby_ok (s\<lparr>lb_rooms := filter P (lb_rooms s)\<rparr>)"
  unfolding seats_ok_iff by (simp add: distinct_map_filter)

lemma refresh_ok:
  assumes "lobby_ok s" "closed_empty s"
  shows "lobby_ok (refresh_lobby seen now s)"
proof -
  define g where "g = (\<lambda>r. close_idle now (observe_room seen now r))"
  have "room_keeps {} r (g r)" if "r \<in> set (lb_rooms s)" for r
    unfolding g_def by (intro close_idle_keeps room_keeps_players [OF assms(1) that] observe_room_players)
      (use assms(2) that in \<open>simp add: closed_empty_def\<close>)
  then have "lobby_ok (s\<lparr>lb_rooms := map g (lb_rooms s)\<rparr>)" by (intro seats_rooms_change [OF assms(1), of "{}"]) simp_all
  then have "lobby_ok (s\<lparr>lb_rooms := filter (\<lambda>r. \<not> forgotten now r) (map g (lb_rooms s))\<rparr>)"
    by (drule_tac lobby_ok_filter) simp
  then have "lobby_ok (s\<lparr>lb_rooms := filter (\<lambda>r. \<not> forgotten now r) (map g (lb_rooms s)),
      lb_queue := filter (\<lambda>q. now - qe_seen q < 30000) (lb_queue s)\<rparr>)"
    by (drule_tac lobby_ok_queue_filter) simp
  moreover have "refresh_lobby seen now s = s\<lparr>lb_rooms := filter (\<lambda>r. \<not> forgotten now r) (map g (lb_rooms s)),
      lb_queue := filter (\<lambda>q. now - qe_seen q < 30000) (lb_queue s)\<rparr>
      \<lparr>lb_invites := map (expire_invite now) (filter (\<lambda>i. iv_expires i > now - 600000) (lb_invites s))\<rparr>"
    by (simp add: refresh_lobby_def g_def)
  ultimately show ?thesis by (simp only: lobby_ok_invites)
qed

lemma pair_up_ok:
  assumes "lobby_ok s" "qe_player q \<in> qe_player ` set (lb_queue s)" "x \<in> set (lb_queue s)" "qe_player x \<noteq> qe_player q"
  shows "lobby_ok (pair_players W q x s)"
proof -
  define t where "t = s\<lparr>lb_queue := filter (\<lambda>y. qe_player y \<noteq> qe_player q \<and> qe_player y \<noteq> qe_player x) (lb_queue s)\<rparr>"
  have t: "lobby_ok t" unfolding t_def by (rule lobby_ok_queue_filter [OF assms(1)])
  have "{qe_player q, qe_player x} \<inter> set (seats_of r) = {}" if "r \<in> set (lb_rooms s)" for r
  proof -
    have "set (seats_of r) \<inter> qe_player ` set (lb_queue s) = {}" using assms(1) that by (simp add: seats_ok_iff)
    then show ?thesis using assms(2,3) by blast
  qed
  then have free: "{qe_player q, qe_player x} \<inter> set (seats t) = {}" by (fastforce simp add: t_def set_seats)
  show ?thesis unfolding pair_players_def Let_def t_def [symmetric]
    by (rule lobby_ok_put [OF t])
      (use free assms(4) in \<open>auto simp add: new_room_def seat_def seats_of_def open_room_def room_fits_def\<close>)
qed

lemma match_one_ok: "lobby_ok s \<Longrightarrow> lobby_ok (match_one W q s)"
  by (auto simp add: match_one_def opponent_def queued_def list_ex_iff image_iff dest!: find_Some_in intro!: pair_up_ok split: option.split)
    metis

lemma matchmaking_ok: "lobby_ok s \<Longrightarrow> lobby_ok (matchmaking W writable s)"
proof -
  have "lobby_ok s \<Longrightarrow> lobby_ok (fold (match_one W) qs s)" for qs
    by (induction qs arbitrary: s) (simp_all add: match_one_ok)
  then show "lobby_ok s \<Longrightarrow> lobby_ok (matchmaking W writable s)" by (simp add: matchmaking_def)
qed

text \<open>The tickets of one transaction: how a room comes out of it, and what the counters say.\<close>

definition ticketed :: "lobby_world \<Rightarrow> ticket_signer \<Rightarrow> lobby_room \<Rightarrow> lobby_room \<Rightarrow> bool" where
  "ticketed W T r q \<longleftrightarrow> may_replace (lw_now W) r \<and> admission_open W \<and> \<not> lw_publication W
     \<and> (\<exists>a b. nextPair (rm_members r) (rm_winner r) (lw_now W) = [a, b]
         \<and> q = r\<lparr>rm_offer := Some (new_ticket T (lw_now W) r (mb_player a) (mb_player b)), rm_status := ''offer'', rm_activity := lw_now W\<rparr>)"

definition unticketed :: "lobby_room \<Rightarrow> lobby_room \<Rightarrow> bool" where
  "unticketed r q \<longleftrightarrow> q = r \<or> open_room r \<and> q = r\<lparr>rm_status := ''capacity''\<rparr>"

definition tickets_in :: "lobby_room list \<Rightarrow> lobby_room list \<Rightarrow> int" where
  "tickets_in rs qs = int (length (filter unresolved_offer qs)) - int (length (filter unresolved_offer rs))"

definition offers_inv :: "lobby_world \<Rightarrow> ticket_signer \<Rightarrow> capacity \<Rightarrow> int \<Rightarrow> int \<Rightarrow> lobby_room list \<Rightarrow> lobby_room list \<times> int \<times> int \<Rightarrow> bool" where
  "offers_inv W T cap active reserved rs acc \<longleftrightarrow> (case acc of (qs, a, w) \<Rightarrow>
     list_all2 (\<lambda>r q. ticketed W T r q \<or> unticketed r q) rs qs
     \<and> a = active + tickets_in rs qs \<and> w = reserved + cp_creation cap * tickets_in rs qs \<and> 0 \<le> tickets_in rs qs
     \<and> (if tickets_in rs qs = 0 then list_all2 unticketed rs qs else a \<le> 2 \<and> w \<le> cp_max cap))"

lemma nextPair_two: "length (nextPair ms w now) = 2 \<or> length (nextPair ms w now) < 2"
proof -
  have "length (nextPair ms w now) \<le> 2" unfolding nextPair_def Let_def length_take by simp
  then show ?thesis by linarith
qed

lemma unresolved_simps:
  "unresolved_offer (r\<lparr>rm_status := st\<rparr>) = unresolved_offer r"
  "unresolved_offer (r\<lparr>rm_offer := Some (new_ticket T now r a b), rm_status := st, rm_activity := t\<rparr>)"
  by (simp_all add: unresolved_offer_def new_ticket_def Let_def)

lemma offers_inv_skip:
  "offers_inv W T cap active reserved rs (qs, a, w) \<Longrightarrow> unticketed r q \<Longrightarrow> offers_inv W T cap active reserved (rs @ [r]) (qs @ [q], a, w)"
  by (auto simp add: offers_inv_def tickets_in_def unticketed_def unresolved_simps intro!: list_all2_appendI split: if_split_asm)

lemma offers_inv_ticket:
  assumes "offers_inv W T cap active reserved rs (qs, a, w)" "ticketed W T r q" "a < 2" "w + cp_creation cap \<le> cp_max cap"
  shows "offers_inv W T cap active reserved (rs @ [r]) (qs @ [q], a + 1, w + cp_creation cap)"
proof -
  have "unresolved_offer q" "\<not> unresolved_offer r"
    using assms(2) by (auto simp add: ticketed_def unresolved_simps may_replace_def)
  then have "tickets_in (rs @ [r]) (qs @ [q]) = tickets_in rs qs + 1" by (simp add: tickets_in_def)
  then show ?thesis using assms unfolding offers_inv_def
    by (auto simp add: algebra_simps intro!: list_all2_appendI)
qed

lemma offer_match_inv:
  assumes "offers_inv W T cap active reserved rs acc"
  shows "offers_inv W T cap active reserved (rs @ [r]) (offer_match W T cap r acc)"
proof -
  obtain qs a w where acc: "acc = (qs, a, w)" by (cases acc)
  let ?pair = "nextPair (rm_members r) (rm_winner r) (lw_now W)"
  show ?thesis
  proof (cases "may_replace (lw_now W) r \<and> \<not> length ?pair < 2")
    case False
    then show ?thesis using assms offers_inv_skip [of W T cap active reserved rs qs a w r r]
      by (simp add: offer_match_def acc Let_def unticketed_def)
  next
    case True
    then have "length ?pair = 2" using nextPair_two [of "rm_members r" "rm_winner r" "lw_now W"] by blast
    then obtain m n where pair: "?pair = [m, n]" by (auto simp add: length_Suc_conv numeral_2_eq_2)
    have open_r: "open_room r" using True by (simp add: may_replace_def)
    show ?thesis
    proof (cases "\<not> admission_open W \<or> a \<ge> 2 \<or> w + cp_creation cap > cp_max cap \<or> lw_publication W")
      case closed: True
      then show ?thesis using True pair open_r assms offers_inv_skip [of W T cap active reserved rs qs a w r "r\<lparr>rm_status := ''capacity''\<rparr>"]
        by (simp add: offer_match_def acc Let_def unticketed_def)
    next
      case False
      then have "ticketed W T r (r\<lparr>rm_offer := Some (new_ticket T (lw_now W) r (mb_player m) (mb_player n)),
          rm_status := ''offer'', rm_activity := lw_now W\<rparr>)"
        using True pair by (auto simp add: ticketed_def)
      then show ?thesis using True False pair assms offers_inv_ticket
        by (simp add: offer_match_def acc Let_def)
    qed
  qed
qed

lemma offer_matches_inv:
  "offers_inv W T cap (int (length (filter unresolved_offer (lb_rooms s)))) reserved (sort_key rm_created (lb_rooms s)) (offer_matches W T cap reserved s)"
proof -
  have "offers_inv W T cap active reserved rs acc \<Longrightarrow> offers_inv W T cap active reserved (rs @ more_rooms) (fold (offer_match W T cap) more_rooms acc)"
    for active rs acc more_rooms
  proof (induction more_rooms arbitrary: rs acc)
    case (Cons r more_rooms)
    show ?case using Cons.IH [OF offer_match_inv [OF Cons.prems]] by simp
  qed simp
  moreover have "offers_inv W T cap active reserved [] ([], active, reserved)" for active
    by (simp add: offers_inv_def tickets_in_def)
  ultimately show ?thesis unfolding offer_matches_def by (metis append_Nil)
qed

lemma lobby_ok_related:
  assumes "lobby_ok s" "list_all2 (\<lambda>r q. rm_id q = rm_id r \<and> seats_of q = seats_of r \<and> (room_fits r \<longrightarrow> room_fits q)) (lb_rooms s) qs"
  shows "lobby_ok (s\<lparr>lb_rooms := qs\<rparr>)"
proof -
  have eqs: "map rm_id qs = map rm_id (lb_rooms s) \<and> map seats_of qs = map seats_of (lb_rooms s)
      \<and> ((\<forall>r \<in> set (lb_rooms s). room_fits r) \<longrightarrow> (\<forall>q \<in> set qs. room_fits q))"
    using assms(2) by (induction rule: list_all2_induct) auto
  then show ?thesis using assms(1) by (simp add: lobby_ok_def seats_def)
qed

lemma lobby_ok_sorted: "lobby_ok s \<Longrightarrow> lobby_ok (s\<lparr>lb_rooms := sort_key f (lb_rooms s)\<rparr>)"
  unfolding seats_ok_iff by (simp add: distinct_map)

lemma ticketed_seats: "ticketed W T r q \<or> unticketed r q \<Longrightarrow> rm_id q = rm_id r \<and> seats_of q = seats_of r \<and> (room_fits r \<longrightarrow> room_fits q)"
  by (auto simp add: ticketed_def unticketed_def seats_of_def room_fits_def open_room_def may_replace_def)

lemma maintain_ok:
  assumes "lobby_ok s" "closed_empty s"
  shows "lobby_ok (maintain W T cap seen reserved writable s)"
proof -
  define t where "t = matchmaking W writable (refresh_lobby seen (lw_now W) s)"
  have t: "lobby_ok t" unfolding t_def by (intro matchmaking_ok refresh_ok assms)
  have "list_all2 (\<lambda>r q. ticketed W T r q \<or> unticketed r q) (sort_key rm_created (lb_rooms t)) (fst (offer_matches W T cap reserved t))"
    using offer_matches_inv [of W T cap t reserved] by (auto simp add: offers_inv_def split: prod.splits)
  then have "list_all2 (\<lambda>r q. rm_id q = rm_id r \<and> seats_of q = seats_of r \<and> (room_fits r \<longrightarrow> room_fits q))
      (sort_key rm_created (lb_rooms t)) (fst (offer_matches W T cap reserved t))"
    by (rule list_all2_mono) (rule ticketed_seats)
  then have "lobby_ok (t\<lparr>lb_rooms := sort_key rm_created (lb_rooms t)\<rparr>\<lparr>lb_rooms := fst (offer_matches W T cap reserved t)\<rparr>)"
    by (intro lobby_ok_related lobby_ok_sorted t) simp
  then show ?thesis by (simp add: maintain_def Let_def t_def)
qed

text \<open>Whatever the closed rooms hold, the identifiers stay distinct and the groups keep their size.\<close>

definition ids_fit :: "lobby \<Rightarrow> bool" where
  "ids_fit s \<longleftrightarrow> distinct (map rm_id (lb_rooms s)) \<and> (\<forall>r \<in> set (lb_rooms s). room_fits r)"

lemma same_players_fits: "same_players r q \<Longrightarrow> room_fits r \<Longrightarrow> room_fits q"
  unfolding same_players_def room_fits_def by (metis length_map)

lemma refresh_fit: "ids_fit s \<Longrightarrow> ids_fit (refresh_lobby seen now s)"
proof -
  assume fit: "ids_fit s"
  define g where "g = (\<lambda>r. close_idle now (observe_room seen now r))"
  have g: "rm_id (g r) = rm_id r" "room_fits r \<Longrightarrow> room_fits (g r)" for r
    using observe_room_players [of r seen now] same_players_fits [OF observe_room_players, of r seen now]
    by (simp_all add: g_def close_idle_def same_players_def room_fits_def)
  have ids: "map rm_id (map g (lb_rooms s)) = map rm_id (lb_rooms s)" using g(1) by simp
  have "distinct (map rm_id (filter (\<lambda>r. \<not> forgotten now r) (map g (lb_rooms s))))"
    by (rule distinct_map_filter) (unfold ids, use fit in \<open>simp add: ids_fit_def\<close>)
  then show ?thesis using fit g(2) unfolding refresh_lobby_def g_def ids_fit_def by (auto simp del: map_map)
qed

lemma put_room_fit: "ids_fit s \<Longrightarrow> room_fits r \<Longrightarrow> ids_fit (put_room r s)"
proof (cases "find_room (rm_id r) s")
  case (Some q)
  assume fit: "ids_fit s" "room_fits r"
  have "map rm_id (map (\<lambda>q. if rm_id q = rm_id r then r else q) (lb_rooms s)) = map rm_id (lb_rooms s)" by simp
  then show ?thesis using fit Some unfolding put_room_def change_room_def ids_fit_def by (auto simp del: map_map)
qed (auto simp add: put_room_def ids_fit_def find_room_def find_None_iff)

lemma match_one_fit: "ids_fit s \<Longrightarrow> ids_fit (match_one W q s)"
  by (auto simp add: match_one_def pair_players_def Let_def intro!: put_room_fit split: option.split)
    (simp_all add: ids_fit_def room_fits_def new_room_def)

lemma matchmaking_fit: "ids_fit s \<Longrightarrow> ids_fit (matchmaking W writable s)"
proof -
  have "ids_fit s \<Longrightarrow> ids_fit (fold (match_one W) qs s)" for qs
    by (induction qs arbitrary: s) (simp_all add: match_one_fit)
  then show "ids_fit s \<Longrightarrow> ids_fit (matchmaking W writable s)" by (simp add: matchmaking_def)
qed

lemma maintain_fit: "ids_fit s \<Longrightarrow> ids_fit (maintain W T cap seen reserved writable s)"
proof -
  assume fit: "ids_fit s"
  define t where "t = matchmaking W writable (refresh_lobby seen (lw_now W) s)"
  have t: "ids_fit t" unfolding t_def by (intro matchmaking_fit refresh_fit fit)
  have "list_all2 (\<lambda>r q. ticketed W T r q \<or> unticketed r q) (sort_key rm_created (lb_rooms t)) (fst (offer_matches W T cap reserved t))"
    using offer_matches_inv [of W T cap t reserved] by (auto simp add: offers_inv_def split: prod.splits)
  then have "list_all2 (\<lambda>r q. rm_id q = rm_id r \<and> seats_of q = seats_of r \<and> (room_fits r \<longrightarrow> room_fits q))
      (sort_key rm_created (lb_rooms t)) (fst (offer_matches W T cap reserved t))"
    by (rule list_all2_mono) (rule ticketed_seats)
  then have "map rm_id (fst (offer_matches W T cap reserved t)) = map rm_id (sort_key rm_created (lb_rooms t))
      \<and> ((\<forall>r \<in> set (sort_key rm_created (lb_rooms t)). room_fits r) \<longrightarrow> (\<forall>q \<in> set (fst (offer_matches W T cap reserved t)). room_fits q))"
    by (induction rule: list_all2_induct) auto
  then show ?thesis using t by (simp add: maintain_def Let_def t_def [symmetric] ids_fit_def distinct_map)
qed

lemma evict_fit: "room_fits r \<Longrightarrow> room_fits (evict players r) \<and> rm_id (evict players r) = rm_id r"
proof -
  assume fit: "room_fits r"
  let ?ms = "filter (\<lambda>m. mb_player m \<notin> set players) (rm_members r)"
  have "rm_members (evict players r) = ?ms" "rm_kind (evict players r) = rm_kind r" "rm_id (evict players r) = rm_id r"
    by (simp_all add: evict_def Let_def split: option.split)
  moreover have "length (rm_members r) \<le> 8 \<Longrightarrow> length ?ms \<le> 8" by (rule order_trans [OF length_filter_le])
  ultimately show ?thesis using fit by (auto simp add: room_fits_def distinct_map_filter)
qed

lemma return_player_members:
  assumes "distinct (map mb_player (rm_members r))" "p \<in> P"
  shows "distinct (map mb_player (rm_members (return_player now p r)))"
    and "length (filter (\<lambda>m. mb_player m \<notin> P) (rm_members (return_player now p r))) = length (filter (\<lambda>m. mb_player m \<notin> P) (rm_members r))"
proof -
  have "length (filter (\<lambda>m. mb_player m \<notin> P) (change_first (\<lambda>m. mb_player m = p) (\<lambda>m. m\<lparr>mb_away := False\<rparr>) ms))
      = length (filter (\<lambda>m. mb_player m \<notin> P) ms)" for ms :: "room_member list"
    by (induction ms) simp_all
  then show "length (filter (\<lambda>m. mb_player m \<notin> P) (rm_members (return_player now p r))) = length (filter (\<lambda>m. mb_player m \<notin> P) (rm_members r))"
    using assms(2) by (simp add: return_player_def change_member_def seat_def)
  show "distinct (map mb_player (rm_members (return_player now p r)))"
    using assms by (auto simp add: return_player_def change_member_def change_first_map member_of_def list_ex_iff seat_def)
qed

lemma restore_players_fit:
  assumes "room_fits r" "length (filter (\<lambda>m. mb_player m \<notin> set [a, b]) (rm_members r)) + 2 \<le> 8"
  shows "room_fits (restore_players now [a, b] x ph r) \<and> rm_id (restore_players now [a, b] x ph r) = rm_id r"
proof -
  define q where "q = return_player now b (return_player now a r)"
  have head: "rm_id q = rm_id r" "rm_kind q = rm_kind r" by (simp_all add: q_def return_player_def change_member_def)
  have "distinct (map mb_player (rm_members q)) \<and> length (rm_members q) \<le> 8" if "rm_kind r = Group"
  proof -
    have d: "distinct (map mb_player (rm_members r))" using assms(1) that by (simp add: room_fits_def)
    have q: "distinct (map mb_player (rm_members q))"
      "length (filter (\<lambda>m. mb_player m \<notin> {a, b}) (rm_members q)) = length (filter (\<lambda>m. mb_player m \<notin> {a, b}) (rm_members r))"
      using return_player_members [of r a "{a, b}" now] return_player_members [of "return_player now a r" b "{a, b}" now] d
      by (simp_all add: q_def)
    have "length (filter (\<lambda>m. mb_player m \<in> {a, b}) (rm_members q)) = card (set (map mb_player (filter (\<lambda>m. mb_player m \<in> {a, b}) (rm_members q))))"
      using distinct_card [OF distinct_map_filter [OF q(1), of "\<lambda>m. mb_player m \<in> {a, b}"]] by simp
    also have "\<dots> \<le> card {a, b}" by (rule card_mono) auto
    also have "\<dots> \<le> 2" by (simp add: card_insert_if)
    finally show ?thesis
      using q assms(2) sum_length_filter_compl [of "\<lambda>m. mb_player m \<in> {a, b}" "rm_members q"] by simp
  qed
  then show ?thesis using head by (simp add: restore_players_def q_def [symmetric] room_fits_def)
qed

lemma restore_fit:
  assumes "restoreContestedMatch now i saved snap s = Inr s'" "ids_fit s"
  shows "ids_fit s'"
proof (cases "find_room (fst saved) s")
  case None
  then show ?thesis using assms by (simp add: restoreContestedMatch_def)
next
  case (Some r)
  let ?players = "[lower (ct_first snap), lower (ct_second snap)]"
  define g where "g = (\<lambda>q. if rm_id q = rm_id r then restore_players now ?players (snd saved) (ct_phase snap) q else evict ?players q)"
  have same: "q = r" if "q \<in> set (lb_rooms s)" "rm_id q = rm_id r" for q
    using assms(2) find_room_in [OF Some] that unfolding ids_fit_def by (meson distinct_map inj_onD)
  show ?thesis
  proof (cases "ct_phase snap = 1 \<or> ct_phase snap = 2")
    case True
    then have room: "length (filter (\<lambda>m. mb_player m \<notin> set ?players) (rm_members r)) + 2 \<le> 8"
      and rooms: "lb_rooms s' = map g (lb_rooms s)"
      using assms(1) Some by (auto simp add: restoreContestedMatch_def Let_def res_simps g_def)
    have g: "room_fits (g q) \<and> rm_id (g q) = rm_id q" if "q \<in> set (lb_rooms s)" for q
      using that same [OF that] evict_fit [of q ?players] restore_players_fit [OF _ room] assms(2) by (auto simp add: g_def ids_fit_def)
    then have "map rm_id (map g (lb_rooms s)) = map rm_id (lb_rooms s)" by simp
    then show ?thesis using g assms(2) unfolding ids_fit_def rooms by (auto simp del: map_map)
  next
    case False
    then have s': "s' = change_room (rm_id r) (cancel_saved now i) s"
      using assms(1) Some by (auto simp add: restoreContestedMatch_def)
    have c: "same_players q (cancel_saved now i q)" for q by (simp add: cancel_saved_def same_players_def split: option.split)
    have ids: "map rm_id (lb_rooms s') = map rm_id (lb_rooms s)" using c by (simp add: s' change_room_def same_players_def)
    have "room_fits q" if "q \<in> set (lb_rooms s')" for q
      using that assms(2) by (auto simp add: s' change_room_def ids_fit_def intro: same_players_fits [OF c])
    then show ?thesis using ids assms(2) by (simp add: ids_fit_def)
  qed
qed

subsection \<open>Tickets are not replaced while they can be used\<close>

definition same_ticket :: "lobby_offer \<Rightarrow> lobby_offer \<Rightarrow> bool" where
  "same_ticket y x \<longleftrightarrow> lo_mode x = lo_mode y \<and> lo_id x = lo_id y \<and> lo_room x = lo_room y \<and> lo_a x = lo_a y \<and> lo_b x = lo_b y
     \<and> lo_ranked x = lo_ranked y \<and> lo_expires x = lo_expires y \<and> lo_rules x = lo_rules y \<and> lo_entropy x = lo_entropy y
     \<and> lo_signature x = lo_signature y"

definition ticket_spent :: "int \<Rightarrow> lobby_offer \<Rightarrow> bool" where
  "ticket_spent now y \<longleftrightarrow> lo_status y = Complete \<or> lo_expires y * 1000 + 3000 \<le> now"

definition follows :: "int \<Rightarrow> lobby_room \<Rightarrow> lobby_room \<Rightarrow> bool" where
  "follows now r q \<longleftrightarrow> (rm_activity q = rm_activity r \<or> rm_activity q = now)
     \<and> (case rm_offer r of None \<Rightarrow> rm_offer q = None
        | Some y \<Rightarrow> (\<exists>x. rm_offer q = Some x \<and> same_ticket y x
            \<and> (lo_status x = Complete \<longrightarrow> lo_status y = Complete \<or> rm_activity q = now)))"

lemma follows_trans: "follows now r q \<Longrightarrow> follows now q t \<Longrightarrow> follows now r t"
  by (cases "rm_offer r"; cases "rm_offer q") (auto simp add: follows_def same_ticket_def)

lemma follows_active: "follows now r (observe_active seen r)"
  by (auto simp add: follows_def observe_active_def same_ticket_def split: option.split)

lemma follows_over: "follows now r (observe_over seen now r)"
  by (auto simp add: follows_def observe_over_def finish_match_def same_ticket_def Let_def split: option.split prod.split)

lemma follows_expire: "follows now r (snd (expireUnstartedRoomOffer r ph now))"
  by (auto simp add: follows_def expireUnstartedRoomOffer_def same_ticket_def split: option.split)

lemma follows_close: "follows now r (close_idle now r)"
  by (auto simp add: follows_def close_idle_def same_ticket_def split: option.split)

lemma follows_observe: "follows now r (close_idle now (observe_room seen now r))"
proof -
  have "follows now r (observe_over seen now (observe_active seen r))" by (rule follows_trans [OF follows_active follows_over])
  then have "follows now r (observe_room seen now r)"
    by (auto simp add: observe_room_def Let_def intro: follows_trans [OF _ follows_expire] split: option.split)
  then show ?thesis by (rule follows_trans [OF _ follows_close])
qed

lemma follows_spent:
  assumes "follows now r q" "may_replace now q" "rm_offer r = Some y"
  shows "ticket_spent now y"
proof -
  obtain x where x: "rm_offer q = Some x" "same_ticket y x" "lo_status x = Complete \<longrightarrow> lo_status y = Complete \<or> rm_activity q = now"
    using assms(1,3) by (auto simp add: follows_def)
  have "lo_status x = Complete \<or> lo_status x = Cancelled" using assms(2) x(1) by (auto simp add: may_replace_def unresolved_offer_def)
  then show ?thesis
  proof
    assume "lo_status x = Complete"
    then show ?thesis using x assms(2) by (auto simp add: may_replace_def ticket_spent_def)
  next
    assume "lo_status x = Cancelled"
    then have "lo_expires x * 1000 + 3000 \<le> now" using x(1) assms(2) by (simp add: may_replace_def)
    moreover have "lo_expires x = lo_expires y" using x(2) by (simp add: same_ticket_def)
    ultimately show ?thesis by (simp add: ticket_spent_def)
  qed
qed

lemma put_room_in: "q \<in> set (lb_rooms (put_room r s)) \<Longrightarrow> q \<in> set (lb_rooms s) \<or> q = r"
  by (auto simp add: put_room_def change_room_def split: if_split_asm)

text \<open>A room of the matchmaking has no offer, and every other room was there before.\<close>

lemma matchmaking_rooms:
  assumes "q \<in> set (lb_rooms (matchmaking W writable s))"
  shows "q \<in> set (lb_rooms s) \<or> rm_offer q = None \<and> (\<exists>p. rm_id q = lw_fresh W p)"
proof -
  have one: "q \<in> set (lb_rooms s) \<or> rm_offer q = None \<and> (\<exists>p. rm_id q = lw_fresh W p)" if "q \<in> set (lb_rooms (match_one W e s))" for e s
    using that by (auto simp add: match_one_def pair_players_def Let_def new_room_def dest!: put_room_in split: if_split_asm option.splits)
  have "q \<in> set (lb_rooms (fold (match_one W) es s)) \<Longrightarrow> q \<in> set (lb_rooms s) \<or> rm_offer q = None \<and> (\<exists>p. rm_id q = lw_fresh W p)" for es
    by (induction es arbitrary: s) (auto dest: one)
  then show ?thesis using assms by (auto simp add: matchmaking_def split: if_split_asm)
qed

end
