(* ===== verification/Lobby_Store.thy ===== *)
theory Lobby_Store
  imports Lobby_Maintenance
begin

text \<open>
  \<^verbatim>\<open>relayer/src/interlude-rooms.ts\<close> and \<^verbatim>\<open>rooms-presence.ts\<close>: the stored lobby.  A transaction overlays the presence
  of the players on the document, runs a change on it and, when the document changed, writes it with the
  occupancy table, whose key is the player, and the offers; an operation with an identifier runs once.  The
  database keeps the keys of the document in their order.
\<close>

subsection \<open>Presence\<close>

definition seen_since :: "int \<Rightarrow> (string \<times> int) list \<Rightarrow> string \<Rightarrow> int" where
  "seen_since now presence p = (case map_of (filter (\<lambda>e. snd e > now - 120000) presence) p of None \<Rightarrow> 0 | Some t \<Rightarrow> t)"

definition overlayPresence :: "int \<Rightarrow> (string \<times> int) list \<Rightarrow> lobby \<Rightarrow> lobby" where
  "overlayPresence now presence s = s\<lparr>
     lb_rooms := map (\<lambda>r. r\<lparr>rm_members := map (\<lambda>m. m\<lparr>mb_seen := max (mb_seen m) (seen_since now presence (mb_player m))\<rparr>) (rm_members r)\<rparr>) (lb_rooms s),
     lb_queue := map (\<lambda>q. q\<lparr>qe_seen := max (qe_seen q) (seen_since now presence (qe_player q))\<rparr>) (lb_queue s)\<rparr>"

text \<open>A player reports presence; a row that is younger than the window stays.\<close>

definition report_presence :: "int \<Rightarrow> int \<Rightarrow> string \<Rightarrow> (string \<times> int) list \<Rightarrow> (string \<times> int) list" where
  "report_presence now window p presence = (case map_of presence p of
     None \<Rightarrow> presence @ [(p, now)]
   | Some t \<Rightarrow> if t < now - window then map (\<lambda>e. if fst e = p then (p, now) else e) presence else presence)"

subsection \<open>Transactions\<close>

record lobby_store =
  ls_doc :: lobby
  ls_presence :: "(string \<times> int) list"
  ls_occupancy :: "(string \<times> string) list"
  ls_offers :: "(string \<times> string \<times> lobby_offer) list"
  ls_ops :: "((string \<times> string) \<times> string \<times> lobby_reply) list"

definition occupancy :: "lobby \<Rightarrow> (string \<times> string) list" where
  "occupancy s = concat (map (\<lambda>r. if open_room r then map (\<lambda>m. (mb_player m, rm_id r)) (rm_members r) else []) (lb_rooms s))
     @ map (\<lambda>q. (qe_player q, ''queue'')) (lb_queue s)"

definition save_offer :: "lobby_room \<Rightarrow> (string \<times> string \<times> lobby_offer) list \<Rightarrow> (string \<times> string \<times> lobby_offer) list" where
  "save_offer r saved = (case rm_offer r of None \<Rightarrow> saved
     | Some x \<Rightarrow> (case map_of saved (lo_id x) of
         None \<Rightarrow> saved @ [(lo_id x, rm_id r, x)]
       | Some (room, _) \<Rightarrow> map (\<lambda>e. if fst e = lo_id x then (lo_id x, room, x) else e) saved))"

definition write_lobby :: "lobby \<Rightarrow> lobby_store \<Rightarrow> lobby_store" where
  "write_lobby s st = (let s' = s\<lparr>lb_rooms := sort_key rm_id (lb_rooms s)\<rparr> in
     st\<lparr>ls_doc := s', ls_occupancy := occupancy s', ls_offers := fold save_offer (lb_rooms s) (ls_offers st)\<rparr>)"

definition commit :: "int \<Rightarrow> (lobby \<Rightarrow> (lobby_reply \<times> lobby) res) \<Rightarrow> lobby_store \<Rightarrow> lobby_reply res \<times> lobby_store" where
  "commit now f st =
    (let previous = overlayPresence now (ls_presence st) (ls_doc st) in
     case f previous of
       Inl e \<Rightarrow> (Inl e, st)
     | Inr (x, s) \<Rightarrow>
         if s = previous then (Inr x, st)
         else if \<not> distinct (map fst (occupancy s)) then (Inl ''duplicate key'', st)
         else (Inr x, write_lobby s st))"

text \<open>An operation is a player, an identifier and the hash of the request.\<close>

definition transact :: "int \<Rightarrow> (lobby \<Rightarrow> (lobby_reply \<times> lobby) res) \<Rightarrow> ((string \<times> string) \<times> string) option \<Rightarrow> lobby_store \<Rightarrow> lobby_reply res \<times> lobby_store" where
  "transact now f operation st = (case operation of
     None \<Rightarrow> commit now f st
   | Some (key, h) \<Rightarrow>
       (case map_of (ls_ops st) key of
          Some (h', reply) \<Rightarrow> (if h' = h then Inr reply else Inl ''Operation id already used for another action.'', st)
        | None \<Rightarrow>
          (case commit now f st of
             (Inl e, st') \<Rightarrow> (Inl e, st')
           | (Inr x, st') \<Rightarrow> (Inr x, st'\<lparr>ls_ops := ls_ops st' @ [(key, h, x)]\<rparr>))))"

text \<open>A request of a player: a known operation is answered from its row, and the engine is asked about the
  document as it was before the lock.\<close>

definition lobby_route ::
    "(lobby_request \<Rightarrow> string) \<Rightarrow> lobby_world \<Rightarrow> (string \<Rightarrow> int res) \<Rightarrow> (string \<Rightarrow> accept_receipt res) \<Rightarrow> lobby_store \<Rightarrow> string \<Rightarrow> string \<Rightarrow> lobby_request
      \<Rightarrow> lobby_store \<Rightarrow> lobby_reply res \<times> lobby_store" where
  "lobby_route H W snapshot receipt earlier p i req st =
    (case map_of (ls_ops earlier) (p, i) of
       Some (h, reply) \<Rightarrow> (if h = H req then Inr reply else Inl ''Operation id already used for another action.'', st)
     | None \<Rightarrow>
       (case gather_evidence snapshot receipt (lw_now W) (overlayPresence (lw_now W) (ls_presence earlier) (ls_doc earlier)) p req of
          Inl e \<Rightarrow> (Inl e, st)
        | Inr ev \<Rightarrow> transact (lw_now W) (serve_lobby W ev p req) (Some ((p, i), H req)) st))"

subsection \<open>Every run\<close>

datatype lobby_event =
    Asked lobby_world "room_evidence option" string string lobby_request
  | Maintained lobby_world ticket_signer capacity engine_view int bool
  | Restored int string contested
  | Present int int string

definition lobby_step :: "(lobby_request \<Rightarrow> string) \<Rightarrow> lobby_event \<Rightarrow> lobby_store \<Rightarrow> lobby_store" where
  "lobby_step H e st = (case e of
     Asked W ev p i req \<Rightarrow> snd (transact (lw_now W) (serve_lobby W ev p req) (Some ((p, i), H req)) st)
   | Maintained W T cap seen reserved writable \<Rightarrow>
       snd (transact (lw_now W) (\<lambda>s. Inr (LobbyDone, maintain W T cap seen reserved writable s)) None st)
   | Restored now i snap \<Rightarrow> (case map_of (ls_offers st) i of None \<Rightarrow> st
       | Some saved \<Rightarrow> snd (transact now (\<lambda>s. rbind (restoreContestedMatch now i saved snap s) (\<lambda>s. Inr (LobbyDone, s))) None st))
   | Present now window p \<Rightarrow> st\<lparr>ls_presence := report_presence now window p (ls_presence st)\<rparr>)"

definition empty_lobby :: lobby where
  "empty_lobby = \<lparr>lb_rooms = [], lb_queue = [], lb_invites = []\<rparr>"

definition empty_store :: lobby_store where
  "empty_store = \<lparr>ls_doc = empty_lobby, ls_presence = [], ls_occupancy = [], ls_offers = [], ls_ops = []\<rparr>"

definition run_lobby :: "(lobby_request \<Rightarrow> string) \<Rightarrow> lobby_event list \<Rightarrow> lobby_store" where
  "run_lobby H es = fold (lobby_step H) es empty_store"

lemma occupancy_seats: "map fst (occupancy s) = seats s"
proof -
  have "map fst (concat (map (\<lambda>r. if open_room r then map (\<lambda>m. (mb_player m, rm_id r)) (rm_members r) else []) rs)) = concat (map seats_of rs)" for rs
    by (induction rs) (simp_all add: seats_of_def comp_def)
  then show ?thesis by (simp add: occupancy_def seats_def comp_def)
qed

definition store_ok :: "lobby_store \<Rightarrow> bool" where
  "store_ok st \<longleftrightarrow> lobby_ok (ls_doc st) \<and> ls_occupancy st = occupancy (ls_doc st)"

lemma overlay_ok: "lobby_ok s \<Longrightarrow> lobby_ok (overlayPresence now presence s)"
proof -
  assume ok: "lobby_ok s"
  define g :: "lobby_room \<Rightarrow> lobby_room" where "g = (\<lambda>r. r\<lparr>rm_members := map (\<lambda>m. m\<lparr>mb_seen := max (mb_seen m) (seen_since now presence (mb_player m))\<rparr>) (rm_members r)\<rparr>)"
  define h :: "queue_entry \<Rightarrow> queue_entry" where "h = (\<lambda>q. q\<lparr>qe_seen := max (qe_seen q) (seen_since now presence (qe_player q))\<rparr>)"
  have "room_keeps {} r (g r)" if "r \<in> set (lb_rooms s)" for r
    by (rule room_keeps_same [OF ok that]) (simp_all add: g_def open_room_def)
  then have rooms: "lobby_ok (s\<lparr>lb_rooms := map g (lb_rooms s)\<rparr>)" by (intro seats_rooms_change [OF ok, of "{}"]) simp_all
  have h: "map qe_player (map h q) = map qe_player q" "qe_player ` set (map h q) = qe_player ` set q" for q :: "queue_entry list"
    by (simp_all add: h_def image_image)
  have "distinct (map qe_player (map h (lb_queue s)))" unfolding h using ok by (simp add: lobby_ok_def seats_def)
  then have "lobby_ok (s\<lparr>lb_rooms := map g (lb_rooms s)\<rparr>\<lparr>lb_queue := map h (lb_queue s)\<rparr>)"
    by (rule lobby_ok_queue [OF rooms, of _ "{}"]) (simp_all add: h del: set_map)
  then show ?thesis by (simp add: overlayPresence_def g_def h_def)
qed

lemma ids_fit_of: "lobby_ok s \<Longrightarrow> ids_fit s"
  by (simp add: lobby_ok_def ids_fit_def)

text \<open>A change may rely on the invariant and owes the identifiers and sizes; the key of the table does the rest.\<close>

lemma commit_ok:
  assumes "store_ok st" "\<And>s x s'. lobby_ok s \<Longrightarrow> f s = Inr (x, s') \<Longrightarrow> ids_fit s'"
  shows "store_ok (snd (commit now f st))"
proof (cases "f (overlayPresence now (ls_presence st) (ls_doc st))")
  case (Inr r)
  then obtain x s where run: "f (overlayPresence now (ls_presence st) (ls_doc st)) = Inr (x, s)" by (cases r) simp
  have "lobby_ok (overlayPresence now (ls_presence st) (ls_doc st))" using assms(1) overlay_ok by (simp add: store_ok_def)
  then have "ids_fit s" using run by (rule assms(2))
  then have "distinct (seats s) \<Longrightarrow> lobby_ok s" by (simp add: ids_fit_def lobby_ok_def)
  then show ?thesis using assms(1) run
    by (auto simp add: commit_def Let_def occupancy_seats write_lobby_def store_ok_def lobby_ok_sorted)
qed (simp add: commit_def assms(1))

lemma transact_ok:
  assumes "store_ok st" "\<And>s x s'. lobby_ok s \<Longrightarrow> f s = Inr (x, s') \<Longrightarrow> ids_fit s'"
  shows "store_ok (snd (transact now f operation st))"
proof -
  have c: "store_ok (snd (commit now f st))" by (rule commit_ok [OF assms])
  have more_ops: "store_ok (t\<lparr>ls_ops := ops\<rparr>) = store_ok t" for t ops by (simp add: store_ok_def)
  show ?thesis using c assms(1) by (auto simp add: transact_def more_ops split: option.split prod.split sum.split)
qed

lemma lobby_step_ok: "store_ok st \<Longrightarrow> store_ok (lobby_step H e st)"
proof (cases e)
  case (Asked W ev p i req)
  assume "store_ok st"
  then show ?thesis unfolding lobby_step_def Asked lobby_event.case by (rule transact_ok) (blast intro: ids_fit_of serve_ok)
next
  case (Maintained W T cap seen reserved writable)
  assume "store_ok st"
  then show ?thesis unfolding lobby_step_def Maintained lobby_event.case
    by (rule transact_ok) (auto intro: maintain_fit ids_fit_of)
next
  case (Restored now i snap)
  assume "store_ok st"
  then show ?thesis unfolding lobby_step_def Restored lobby_event.case
    by (auto split: option.split simp add: res_simps intro!: transact_ok intro: restore_fit ids_fit_of)
qed (simp add: lobby_step_def store_ok_def)

lemma run_lobby_ok: "store_ok (run_lobby H es)"
proof -
  have "store_ok st \<Longrightarrow> store_ok (fold (lobby_step H) es st)" for st
    by (induction es arbitrary: st) (simp_all add: lobby_step_ok)
  moreover have "store_ok empty_store" by (simp add: store_ok_def empty_store_def empty_lobby_def lobby_ok_def seats_def occupancy_def)
  ultimately show ?thesis by (simp add: run_lobby_def)
qed

text \<open>C31. One seat: after every sequence of requests, maintenance, restored matches and presence reports the
  occupancy table holds every player once and is exactly the members of the open rooms and the queue; group
  rooms hold at most eight members; and no request of a player ever runs into the key of that table, whatever
  the engine said about the player's offer.\<close>

theorem one_seat:
  "let st = run_lobby H es; s = overlayPresence (lw_now W) (ls_presence st) (ls_doc st) in
    distinct (map fst (ls_occupancy st)) \<and> ls_occupancy st = occupancy (ls_doc st)
    \<and> list_all (\<lambda>r. case rm_kind r of Group \<Rightarrow> length (rm_members r) \<le> 8 | _ \<Rightarrow> True) (lb_rooms (ls_doc st))
    \<and> (case serve_lobby W ev p req s of Inl _ \<Rightarrow> True | Inr (_, s') \<Rightarrow> distinct (map fst (occupancy s')))"
proof -
  define st where "st = run_lobby H es"
  have st: "lobby_ok (ls_doc st)" "ls_occupancy st = occupancy (ls_doc st)"
    using run_lobby_ok [of H es] by (simp_all add: st_def store_ok_def)
  moreover have "case serve_lobby W ev p req (overlayPresence (lw_now W) (ls_presence st) (ls_doc st)) of
      Inl _ \<Rightarrow> True | Inr (_, s') \<Rightarrow> distinct (map fst (occupancy s'))"
    using serve_ok overlay_ok [OF st(1)] by (fastforce simp add: occupancy_seats lobby_ok_def split: sum.split)
  ultimately show ?thesis
    by (auto simp add: Let_def st_def [symmetric] occupancy_seats lobby_ok_def room_fits_def list_all_iff split: room_kind.split)
qed

subsection \<open>Operations run once\<close>

lemma commit_ops: "ls_ops (snd (commit now f st)) = ls_ops st"
  by (simp add: commit_def Let_def write_lobby_def split: sum.split prod.split)

lemma map_of_append_Some: "map_of xs k = Some v \<Longrightarrow> map_of (xs @ ys) k = Some v"
  by (simp add: map_add_def)

lemma transact_known: "map_of (ls_ops st) k = Some v \<Longrightarrow> map_of (ls_ops (snd (transact now f operation st))) k = Some v"
  using commit_ops [of now f st]
  by (auto simp add: transact_def map_of_append_Some split: option.split prod.split sum.split)

lemma lobby_step_known: "map_of (ls_ops st) k = Some v \<Longrightarrow> map_of (ls_ops (lobby_step H e st)) k = Some v"
  by (cases e) (simp_all add: lobby_step_def transact_known split: option.split)

lemma steps_known: "map_of (ls_ops st) k = Some v \<Longrightarrow> map_of (ls_ops (fold (lobby_step H) es st)) k = Some v"
  by (induction es arbitrary: st) (simp_all add: lobby_step_known)

lemma transact_records:
  assumes "transact now f (Some (key, h)) st = (Inr x, st')"
  shows "map_of (ls_ops st') key = Some (h, x)"
proof (cases "map_of (ls_ops st) key")
  case (Some v)
  then show ?thesis using assms by (cases v) (auto simp add: transact_def split: if_split_asm)
next
  case None
  then obtain t where t: "commit now f st = (Inr x, t)" "st' = t\<lparr>ls_ops := ls_ops t @ [(key, h, x)]\<rparr>"
    using assms by (auto simp add: transact_def split: prod.splits sum.splits)
  moreover have "ls_ops t = ls_ops st" using commit_ops [of now f st] t(1) by simp
  ultimately show ?thesis using None by (simp add: map_add_def)
qed

text \<open>C32. Operations are idempotent: once a request was answered, the same player repeating its operation
  identifier, at any later time and whatever happened in between, gets the stored answer for the same request
  and an error for any other one, and the lobby does not change.\<close>

theorem operations_idempotent:
  assumes "transact (lw_now W) (serve_lobby W ev p req) (Some ((p, i), H req)) st = (Inr x, st')"
  shows "let later = fold (lobby_step H) es st' in
    transact (lw_now W2) (serve_lobby W2 ev2 p again) (Some ((p, i), H again)) later
      = (if H req = H again then Inr x else Inl ''Operation id already used for another action.'', later)"
  using steps_known [OF transact_records [OF assms], of H es] by (simp add: transact_def Let_def)

subsection \<open>Tickets\<close>











subsection \<open>Witnesses\<close>

definition sample_lobby :: "int \<Rightarrow> string \<Rightarrow> lobby_world" where
  "sample_lobby now i = \<lparr>lw_app = ''a'', lw_decode = (\<lambda>_. None), lw_now = now, lw_fresh = (\<lambda>p. i @ p), lw_online = True, lw_healthy = True,
     lw_admission = True, lw_lifecycle = True, lw_publication = False, lw_chaosOpen = False, lw_blocks = [], lw_rating = (\<lambda>p m. None)\<rparr>"

definition sample_player :: "char \<Rightarrow> string" where
  "sample_player c = ''0x'' @ replicate 40 c"

definition sample_hash :: "lobby_request \<Rightarrow> string" where
  "sample_hash req = (case req of QueueFor _ \<Rightarrow> ''q'' | LeaveQueue \<Rightarrow> ''l'' | _ \<Rightarrow> ''r'')"

definition ask :: "int \<Rightarrow> string \<Rightarrow> string \<Rightarrow> string \<Rightarrow> lobby_request \<Rightarrow> lobby_event" where
  "ask now i p operation req = Asked (sample_lobby now i) None p operation req"




theorem operations_idempotent_witness:
  "\<exists>st'. transact 1000 (serve_lobby (sample_lobby 1000 ''0'') None ''p'' (QueueFor None)) (Some ((''p'', ''1''), sample_hash (QueueFor None))) empty_store
      = (Inr LobbyDone, st')
    \<and> (let later = fold (lobby_step sample_hash) [ask 2000 ''0'' ''p'' ''2'' LeaveQueue] st' in
       transact 3000 (serve_lobby (sample_lobby 3000 ''0'') None ''p'' (QueueFor None)) (Some ((''p'', ''1''), sample_hash (QueueFor None))) later = (Inr LobbyDone, later)
       \<and> lb_queue (ls_doc later) = [])"
proof -
  let ?run = "transact 1000 (serve_lobby (sample_lobby 1000 ''0'') None ''p'' (QueueFor None)) (Some ((''p'', ''1''), sample_hash (QueueFor None))) empty_store"
  have "fst ?run = Inr LobbyDone" by code_simp
  then obtain st' where run: "?run = (Inr LobbyDone, st')" by (cases ?run) simp
  have "lb_queue (ls_doc (fold (lobby_step sample_hash) [ask 2000 ''0'' ''p'' ''2'' LeaveQueue] (snd ?run))) = []" by code_simp
  moreover have "lw_now (sample_lobby 1000 ''0'') = 1000" "lw_now (sample_lobby 3000 ''0'') = 3000" by (simp_all add: sample_lobby_def)
  ultimately show ?thesis
    using operations_idempotent [of "sample_lobby 1000 ''0''" None "''p''" "QueueFor None" "''1''" sample_hash empty_store LobbyDone st'
      "[ask 2000 ''0'' ''p'' ''2'' LeaveQueue]" "sample_lobby 3000 ''0''" None "QueueFor None"] run
    by (simp add: Let_def)
qed


text \<open>A duel takes a third player: a creator who invited two players and was joined by one of them is challenged by
  the other, whose challenge answers the earlier invitation without looking at the room.\<close>

lemma duel_overfilled:
  "let a = sample_player CHR ''a''; b = sample_player CHR ''b''; c = sample_player CHR ''c''; room = ''0x'' @ replicate 64 CHR ''7'';
       W = sample_lobby 1000 ''x''\<lparr>lw_fresh := (\<lambda>p. if p = [] then room else p)\<rparr>;
       st = run_lobby sample_hash [Asked W None a ''1'' (Challenge None b), Asked W None a ''2'' (InviteTo c),
         Asked W None b ''1'' (JoinRoom room), Asked W None c ''1'' (Challenge None a)] in
    map (\<lambda>r. (rm_kind r, length (rm_members r))) (lb_rooms (ls_doc st)) = [(Duel, 3)]"
  by code_simp

end
