(* ===== verification/Relay_Journal.thy ===== *)
theory Relay_Journal
  imports Io_Monad Relay_Inputs Rpc_Gateway
begin

text \<open>
  \<^verbatim>\<open>relayer/src/main.ts\<close>: the journal of sponsored transactions.  Calls are taken in, signed one at a time under
  one nonce sequence within the budget of the sponsor, broadcast, and settled by their receipts; four loops of
  the program run these steps interleaved.  The table is a list of rows in the order of their creation.  The
  encoder, the hash and the signer are arguments; what the node says in one dispatch is a record, and what the
  other loops do while a dispatch waits is a list of their steps.
\<close>

record relay_call =
  rc_contract :: string
  rc_function :: string
  rc_args :: string
  rc_deployment :: string
  rc_roomApp :: string
  rc_roomAction :: string
  rc_roomFinance :: string

record sponsored_job =
  rj_id :: string
  rj_call :: relay_call
  rj_value :: int
  rj_lane :: "string option"
  rj_status :: cost_status
  rj_nonce :: "int option"
  rj_raw :: "string option"
  rj_hash :: "string option"
  rj_cost :: int
  rj_error :: "string option"
  rj_receipt :: "(bool \<times> int \<times> int) option"
  rj_block :: "int option"
  rj_updated :: int
  rj_confirmed :: "int option"

record relay =
  rl_jobs :: "sponsored_job list"
  rl_sent :: "string list"
  rl_warning :: string
  rl_error :: string

record relay_world =
  rw_version :: string
  rw_chainId :: int
  rw_maxQueue :: int
  rw_priceCap :: int
  rw_dailyBudget :: int
  rw_minimum :: int
  rw_id :: "relay_call \<Rightarrow> int option \<Rightarrow> int option \<Rightarrow> int \<Rightarrow> string"
  rw_retryId :: "string \<Rightarrow> int \<Rightarrow> string"
  rw_encode :: "relay_call \<Rightarrow> unit res"
  rw_decode :: "relay_call \<Rightarrow> bool \<times> string \<times> game_input"
  rw_hash :: "string \<Rightarrow> string"

type_synonym 'a relay_io = "('a, relay) io"

definition unfinished_job :: "sponsored_job \<Rightarrow> bool" where
  "unfinished_job j \<longleftrightarrow> rj_status j = CSigned \<or> rj_status j = CSent"

definition open_job :: "sponsored_job \<Rightarrow> bool" where
  "open_job j \<longleftrightarrow> rj_status j = CQueued \<or> unfinished_job j"

definition find_job :: "string \<Rightarrow> relay \<Rightarrow> sponsored_job option" where
  "find_job i s = find (\<lambda>j. rj_id j = i) (rl_jobs s)"

definition update_row :: "string \<Rightarrow> (sponsored_job \<Rightarrow> sponsored_job) \<Rightarrow> relay \<Rightarrow> relay" where
  "update_row i f s = s\<lparr>rl_jobs := map (\<lambda>j. if rj_id j = i then f j else j) (rl_jobs s)\<rparr>"

subsection \<open>Intake\<close>

definition sponsored_calls :: "string \<Rightarrow> string list" where
  "sponsored_calls contract =
    (if contract = ''arcade'' then [''register'', ''revoke'']
     else if contract = ''game'' then [''submitInput'', ''reveal'', ''authorizeSession'', ''playerAction'', ''cancelUnstarted'', ''cancelStalled'']
     else if contract = ''market'' then [''buy'', ''claim'']
     else if contract = ''vault'' then [''withdraw'']
     else if contract = ''tournaments'' then [''enter'', ''start'', ''attach'', ''advance'', ''cancel'', ''refund''] else [])"

definition legacy_call :: "relay_call \<Rightarrow> bool" where
  "legacy_call c \<longleftrightarrow> (rc_contract c, rc_function c) \<in> set [(''vault'', ''withdraw''), (''market'', ''claim''), (''tournaments'', ''refund'')]"

definition retryable_calls :: "string list" where
  "retryable_calls = [''open'', ''openRound'', ''finalizeResult'', ''claim'', ''refund'', ''retryPayout'', ''advance'']"

definition check_call :: "relay_world \<Rightarrow> bool \<Rightarrow> relay_call \<Rightarrow> relay_call res" where
  "check_call W internal c =
    rbind (guard ''Use the authenticated rooms finance API'' (rc_deployment c \<noteq> ''rooms'' \<or> internal \<and> rc_roomApp c \<noteq> [])) (\<lambda>_.
    rbind (guard ''Call not sponsored'' (internal \<or> rc_function c \<in> set (sponsored_calls (rc_contract c)))) (\<lambda>_.
    let c = c\<lparr>rc_deployment := (if rc_deployment c = [] then rw_version W else rc_deployment c)\<rparr> in
    rbind (guard ''Legacy contracts accept claims, refunds and withdrawals only''
      (rc_deployment c = rw_version W \<or> rc_deployment c = ''rooms'' \<or> legacy_call c)) (\<lambda>_. Inr c)))"

definition new_relay_job :: "string \<Rightarrow> relay_call \<Rightarrow> int \<Rightarrow> string option \<Rightarrow> int \<Rightarrow> sponsored_job" where
  "new_relay_job i c value lane now = \<lparr>rj_id = i, rj_call = c, rj_value = value, rj_lane = lane, rj_status = CQueued, rj_nonce = None,
     rj_raw = None, rj_hash = None, rj_cost = 0, rj_error = None, rj_receipt = None, rj_block = None, rj_updated = now, rj_confirmed = None\<rparr>"

definition insert_job :: "sponsored_job \<Rightarrow> relay \<Rightarrow> relay" where
  "insert_job j s = (if find_job (rj_id j) s = None then s\<lparr>rl_jobs := rl_jobs s @ [j]\<rparr> else s)"

text \<open>A failed internal call is taken in again under a new identifier, unless the same call is open.\<close>

definition known_or_retry :: "relay_world \<Rightarrow> int \<Rightarrow> bool \<Rightarrow> relay_call \<Rightarrow> string \<Rightarrow> relay \<Rightarrow> sponsored_job + string" where
  "known_or_retry W head internal c i s = (case find_job i s of None \<Rightarrow> Inr i
     | Some j \<Rightarrow>
       if rj_status j \<noteq> CFailed \<or> \<not> internal \<or> rc_function c \<notin> set retryable_calls then Inl j
       else case find (\<lambda>k. rj_call k = c \<and> open_job k) (rl_jobs s) of
         Some k \<Rightarrow> Inl k
       | None \<Rightarrow> Inr (rw_retryId W i head))"

record intake_answers =
  ia_round :: "int option res"
  ia_attempt :: "int option res"
  ia_simulate :: "unit res"
  ia_head :: int
  ia_now :: int

datatype relay_reply = KnownJob sponsored_job | QueuedJob string

definition enqueue_job :: "relay_world \<Rightarrow> intake_answers \<Rightarrow> bool \<Rightarrow> relay_call \<Rightarrow> int \<Rightarrow> relay_reply relay_io" where
  "enqueue_job W A internal c value =
    ibind (lift (check_call W internal c)) (\<lambda>c.
    ibind (lift (rw_encode W c)) (\<lambda>_.
    ibind (lift (if rc_contract c = ''tournaments'' \<and> rc_function c = ''advance'' then ia_round A else Inr None)) (\<lambda>round.
    ibind (lift (if rc_function c = ''retryPayout'' then ia_attempt A else Inr None)) (\<lambda>attempt.
    ibind (gets (known_or_retry W (ia_head A) internal c (rw_id W c round attempt value))) (\<lambda>r.
    case r of Inl j \<Rightarrow> ret (KnownJob j)
    | Inr i \<Rightarrow>
      ibind (gets (\<lambda>s. length (filter open_job (rl_jobs s)))) (\<lambda>n.
      ibind (iguard ''Queue full; try again later'' (int n < rw_maxQueue W)) (\<lambda>_.
      ibind (lift (if rc_function c \<noteq> ''submitInput'' then ia_simulate A else Inr ())) (\<lambda>_.
      ibind (modify (insert_job (new_relay_job i c value None (ia_now A)))) (\<lambda>_. ret (QueuedJob i))))))))))"

text \<open>An accepted input supersedes the unsigned inputs of its lane.\<close>

definition insert_input :: "sponsored_job \<Rightarrow> relay \<Rightarrow> relay" where
  "insert_input j s = (if find_job (rj_id j) s \<noteq> None then s
     else s\<lparr>rl_jobs := map (\<lambda>k. if rj_lane k = rj_lane j \<and> rj_status k = CQueued \<and> rj_raw k = None
       then k\<lparr>rj_status := CSuperseded, rj_error := Some ''Replaced by a newer direction before signing'', rj_updated := rj_updated j\<rparr> else k)
       (rl_jobs s) @ [j]\<rparr>)"

subsection \<open>Receipts and broadcast\<close>

definition by_nonce :: "(sponsored_job \<Rightarrow> bool) \<Rightarrow> relay \<Rightarrow> sponsored_job list" where
  "by_nonce P s = take 8 (sort_key (\<lambda>j. case rj_nonce j of None \<Rightarrow> 0 | Some n \<Rightarrow> n) (filter P (rl_jobs s)))"

text \<open>A receipt: success, gas used, gas price, block.\<close>

definition settle_job :: "int \<Rightarrow> (bool \<times> int \<times> int) \<Rightarrow> int \<Rightarrow> sponsored_job \<Rightarrow> sponsored_job" where
  "settle_job now receipt block j = j\<lparr>rj_status := (if fst receipt then CSucceeded else CFailed), rj_receipt := Some receipt, rj_block := Some block,
     rj_error := (if fst receipt then None else Some (if rc_function (rj_call j) = ''buy''
       then ''Bet not accepted onchain. The collision window or quote may have changed; request a fresh quote.''
       else ''Transaction reverted onchain. Refresh the state before trying again.'')),
     rj_confirmed := Some now, rj_updated := now\<rparr>"

definition observe_job :: "int \<Rightarrow> (string \<Rightarrow> ((bool \<times> int \<times> int) \<times> int) option) \<Rightarrow> sponsored_job \<Rightarrow> relay \<Rightarrow> relay" where
  "observe_job now receipt j s = (case Option.bind (rj_hash j) receipt of None \<Rightarrow> s
     | Some (r, block) \<Rightarrow> update_row (rj_id j) (settle_job now r block) s)"

definition observeReceipts :: "int \<Rightarrow> (string \<Rightarrow> ((bool \<times> int \<times> int) \<times> int) option) \<Rightarrow> relay \<Rightarrow> relay" where
  "observeReceipts now receipt s = fold (observe_job now receipt) (by_nonce (\<lambda>j. rj_status j = CSent) s) s"

definition mark_sent :: "int \<Rightarrow> sponsored_job \<Rightarrow> sponsored_job" where
  "mark_sent now j = (if unfinished_job j then j\<lparr>rj_status := CSent, rj_updated := now\<rparr> else j)"

text \<open>The bytes of a row are sent; a node that already knows them or their nonce is as good as one that takes them.\<close>

definition broadcast_job :: "int \<Rightarrow> (string \<Rightarrow> bool) \<Rightarrow> sponsored_job \<Rightarrow> relay \<Rightarrow> relay" where
  "broadcast_job now taken j s = (case rj_raw j of None \<Rightarrow> s
     | Some raw \<Rightarrow>
       let s = s\<lparr>rl_sent := rl_sent s @ [raw]\<rparr> in
       if taken raw then update_row (rj_id j) (mark_sent now) s else s)"

definition broadcastTransactions :: "int \<Rightarrow> (string \<Rightarrow> bool) \<Rightarrow> relay \<Rightarrow> relay" where
  "broadcastTransactions now taken s = fold (broadcast_job now taken)
     (by_nonce (\<lambda>j. rj_status j = CSigned \<or> rj_status j = CSent \<and> rj_updated j < now - 5000) s) s"

text \<open>The steps of the other loops.\<close>

datatype relay_event =
    InsertJob string relay_call int int
  | InsertInput string relay_call string int
  | BroadcastJobs int "string \<Rightarrow> bool"
  | ObserveJobs int "string \<Rightarrow> ((bool \<times> int \<times> int) \<times> int) option"

definition relay_event_step :: "relay_event \<Rightarrow> relay \<Rightarrow> relay" where
  "relay_event_step e s = (case e of
     InsertJob i c value now \<Rightarrow> insert_job (new_relay_job i c value None now) s
   | InsertInput i c lane now \<Rightarrow> insert_input (new_relay_job i c 0 (Some lane) now) s
   | BroadcastJobs now taken \<Rightarrow> broadcastTransactions now taken s
   | ObserveJobs now receipt \<Rightarrow> observeReceipts now receipt s)"

subsection \<open>Dispatch\<close>

record sponsor_answers =
  sp_balance :: int
  sp_nextNonce :: int
  sp_gasPrice :: int
  sp_observedAt :: int

record dispatch_world =
  dw_sponsor :: "sponsor_answers res"
  dw_today :: int
  dw_now :: int
  dw_head :: int
  dw_estimate :: "relay_call \<Rightarrow> int res"
  dw_sign :: "relay_call \<Rightarrow> int \<Rightarrow> int \<Rightarrow> int \<Rightarrow> int \<Rightarrow> string res"

definition call_priority :: "sponsored_job \<Rightarrow> int" where
  "call_priority j = (if rc_function (rj_call j) \<in> set [''submitInput'', ''resolveEvent''] then 0
     else if rc_function (rj_call j) \<in> set [''claim'', ''refund'', ''retryPayout'', ''advance'', ''open''] then 2 else 1)"

definition lane_free :: "relay \<Rightarrow> sponsored_job \<Rightarrow> bool" where
  "lane_free s j \<longleftrightarrow> (case rj_lane j of None \<Rightarrow> True | Some l \<Rightarrow> \<not> list_ex (\<lambda>k. rj_lane k = Some l \<and> unfinished_job k) (rl_jobs s))"

definition next_job :: "relay \<Rightarrow> sponsored_job option" where
  "next_job s = (case sort_key call_priority (filter (\<lambda>j. rj_status j = CQueued \<and> lane_free s j) (rl_jobs s)) of [] \<Rightarrow> None | j # _ \<Rightarrow> Some j)"

definition cost_view :: "sponsored_job \<Rightarrow> cost_job" where
  "cost_view j = \<lparr>cj_status = rj_status j, cj_receipt = rj_receipt j, cj_value = rj_value j, cj_cost = rj_cost j, cj_raw = (rj_raw j \<noteq> None),
     cj_updated = rj_updated j, cj_confirmed = rj_confirmed j\<rparr>"

definition reserved_nonce :: "relay \<Rightarrow> int" where
  "reserved_nonce s = Max (insert 0 (set (map (\<lambda>j. case rj_nonce j of None \<Rightarrow> 0 | Some n \<Rightarrow> n + 1) (filter (\<lambda>j. rj_raw j \<noteq> None) (rl_jobs s)))))"

record sign_plan =
  pl_nonce :: int
  pl_gas :: int
  pl_fee :: int
  pl_cost :: int

text \<open>Near the reserve of the chain a transfer waits until nothing is in flight and four blocks have passed.\<close>

definition window_closed :: "relay_world \<Rightarrow> dispatch_world \<Rightarrow> int \<Rightarrow> int \<Rightarrow> int \<Rightarrow> relay \<Rightarrow> bool" where
  "window_closed W D value balance commitments s \<longleftrightarrow> needsMonadValueWindow (rw_chainId W) value balance commitments (rw_priceCap W)
     \<and> (list_ex unfinished_job (rl_jobs s) \<or> list_ex (\<lambda>j. case rj_block j of None \<Rightarrow> False | Some b \<Rightarrow> dw_head D \<le> b + 4) (rl_jobs s))"

definition plan_job :: "relay_world \<Rightarrow> dispatch_world \<Rightarrow> sponsored_job \<Rightarrow> sign_plan option relay_io" where
  "plan_job W D j =
    ibind (lift (rw_encode W (rj_call j))) (\<lambda>_.
    ibind (lift (dw_sponsor D)) (\<lambda>sp.
    ibind (gets (\<lambda>s. s)) (\<lambda>s.
    let costs = readSponsorCosts (dw_today D) (sp_observedAt sp) (map cost_view (rl_jobs s));
        spent = fst costs; commitments = snd costs; value = rj_value j; price = sp_gasPrice sp in
    if window_closed W D value (sp_balance sp) commitments s then ret None
    else if price > rw_priceCap W then ibind (modify (\<lambda>s. s\<lparr>rl_error := ''Gas price above sponsor ceiling''\<rparr>)) (\<lambda>_. ret None)
    else
      ibind (lift (dw_estimate D (rj_call j))) (\<lambda>estimated.
      let gas = transitionGas (rc_function (rj_call j)) estimated;
          fee = (if price * 2 > rw_priceCap W then rw_priceCap W else price * 2); cost = gas * fee + value in
      if rw_dailyBudget W > 0 \<and> spent + cost > rw_dailyBudget W
      then ibind (modify (\<lambda>s. s\<lparr>rl_warning := ''Daily sponsorship budget reached. Wait for its next UTC window.''\<rparr>)) (\<lambda>_. ret None)
      else if sp_balance sp < cost + rw_minimum W + commitments
      then ibind (modify (\<lambda>s. s\<lparr>rl_warning := ''Test MON sponsor balance is too low. Fund the relayer to resume.''\<rparr>)) (\<lambda>_. ret None)
      else
        ibind (modify (\<lambda>s. s\<lparr>rl_warning := []\<rparr>)) (\<lambda>_.
        ibind (gets reserved_nonce) (\<lambda>reserved.
        ret (Some \<lparr>pl_nonce = max (sp_nextNonce sp) reserved, pl_gas = gas, pl_fee = fee, pl_cost = cost\<rparr>)))))))"

text \<open>The row that is signed: the chosen one, or the newest input of its lane that may use the same estimate.\<close>

definition shares_estimate :: "relay_world \<Rightarrow> int \<Rightarrow> relay_call \<Rightarrow> relay_call \<Rightarrow> bool" where
  "shares_estimate W head c d = sharesInputEstimate (snd (rw_decode W c)) (snd (rw_decode W d)) (fst (rw_decode W c) \<and> fst (rw_decode W d)) head"

definition current_job :: "relay_world \<Rightarrow> int \<Rightarrow> sponsored_job \<Rightarrow> relay \<Rightarrow> sponsored_job option" where
  "current_job W head j s = (case find_job (rj_id j) s of None \<Rightarrow> None
     | Some k \<Rightarrow>
       if rj_status k = CQueued then Some j
       else if rj_status k \<noteq> CSuperseded \<or> rj_lane j = None then None
       else case find (\<lambda>l. rj_lane l = rj_lane j \<and> rj_status l = CQueued) (rev (rl_jobs s)) of
         None \<Rightarrow> None
       | Some l \<Rightarrow> if shares_estimate W head (rj_call j) (rj_call l) then Some l else None)"

definition fail_job :: "int \<Rightarrow> string \<Rightarrow> string \<Rightarrow> relay \<Rightarrow> relay" where
  "fail_job now e i s = update_row i (\<lambda>j. if rj_status j = CQueued then j\<lparr>rj_status := CFailed, rj_error := Some e, rj_updated := now\<rparr> else j) s"

definition sign_job :: "relay_world \<Rightarrow> dispatch_world \<Rightarrow> sign_plan \<Rightarrow> sponsored_job \<Rightarrow> int \<Rightarrow> unit relay_io" where
  "sign_job W D plan j value =
    catch
      (ibind (lift (rw_encode W (rj_call j))) (\<lambda>_.
       ibind (lift (dw_sign D (rj_call j) value (pl_nonce plan) (pl_gas plan) (pl_fee plan))) (\<lambda>raw.
       modify (update_row (rj_id j) (\<lambda>j. j\<lparr>rj_status := CSigned, rj_raw := Some raw, rj_hash := Some (rw_hash W raw),
         rj_nonce := Some (pl_nonce plan), rj_cost := pl_cost plan, rj_updated := dw_now D\<rparr>)))))
      (\<lambda>e. modify (fail_job (dw_now D) e (rj_id j)))"

definition dispatch_job :: "relay_world \<Rightarrow> dispatch_world \<Rightarrow> relay_event list \<Rightarrow> unit relay_io" where
  "dispatch_job W D meanwhile =
    ibind (gets (\<lambda>s. length (filter unfinished_job (rl_jobs s)))) (\<lambda>n.
    if n \<ge> 8 then ret ()
    else
      ibind (gets next_job) (\<lambda>row.
      case row of None \<Rightarrow> ret ()
      | Some j \<Rightarrow>
        ibind (catch (plan_job W D j) (\<lambda>e. ibind (modify (fail_job (dw_now D) e (rj_id j))) (\<lambda>_. ret None))) (\<lambda>plan.
        case plan of None \<Rightarrow> ret ()
        | Some p \<Rightarrow>
          ibind (modify (fold relay_event_step meanwhile)) (\<lambda>_.
          ibind (gets (current_job W (dw_head D) j)) (\<lambda>row.
          case row of None \<Rightarrow> ret () | Some k \<Rightarrow> sign_job W D p k (rj_value j))))))"

subsection \<open>Every run\<close>

datatype relay_step = Loop relay_event | Dispatched dispatch_world "relay_event list"

definition relay_step :: "relay_world \<Rightarrow> relay_step \<Rightarrow> relay \<Rightarrow> relay" where
  "relay_step W e s = (case e of Loop ev \<Rightarrow> relay_event_step ev s | Dispatched D meanwhile \<Rightarrow> snd (dispatch_job W D meanwhile s))"

definition empty_relay :: relay where
  "empty_relay = \<lparr>rl_jobs = [], rl_sent = [], rl_warning = [], rl_error = []\<rparr>"

definition run_relay :: "relay_world \<Rightarrow> relay_step list \<Rightarrow> relay" where
  "run_relay W es = fold (relay_step W) es empty_relay"

subsection \<open>The journal only moves forward\<close>

definition job_moves :: "cost_status \<Rightarrow> cost_status \<Rightarrow> bool" where
  "job_moves a b \<longleftrightarrow> a = b \<or> a = CQueued \<or> (a = CSigned \<and> (b = CSent \<or> b = CSucceeded \<or> b = CFailed)) \<or> (a = CSent \<and> (b = CSucceeded \<or> b = CFailed))"

definition job_later :: "sponsored_job \<Rightarrow> sponsored_job \<Rightarrow> bool" where
  "job_later j k \<longleftrightarrow> rj_id k = rj_id j \<and> rj_call k = rj_call j \<and> rj_value k = rj_value j \<and> rj_lane k = rj_lane j \<and> job_moves (rj_status j) (rj_status k)
     \<and> (rj_raw j = None \<or> rj_raw k = rj_raw j \<and> rj_nonce k = rj_nonce j \<and> rj_hash k = rj_hash j \<and> rj_cost k = rj_cost j)"

definition later_jobs :: "sponsored_job list \<Rightarrow> sponsored_job list \<Rightarrow> bool" where
  "later_jobs js ks \<longleftrightarrow> list_all2 job_later js (take (length js) ks)"

definition row_ok :: "sponsored_job \<Rightarrow> bool" where
  "row_ok j \<longleftrightarrow> (rj_raw j = None \<longleftrightarrow> rj_nonce j = None) \<and> (rj_raw j = None \<longleftrightarrow> rj_hash j = None)
     \<and> (rj_raw j = None \<longrightarrow> rj_cost j = 0 \<and> (rj_status j = CQueued \<or> rj_status j = CSuperseded \<or> rj_status j = CFailed))
     \<and> (rj_status j = CQueued \<or> rj_status j = CSuperseded \<longrightarrow> rj_raw j = None)"

definition nonces :: "sponsored_job list \<Rightarrow> int option list" where
  "nonces js = map rj_nonce (filter (\<lambda>j. rj_raw j \<noteq> None) js)"

definition busy_lanes :: "sponsored_job list \<Rightarrow> string option list" where
  "busy_lanes js = map rj_lane (filter (\<lambda>j. unfinished_job j \<and> rj_lane j \<noteq> None) js)"

definition in_flight :: "sponsored_job list \<Rightarrow> nat" where
  "in_flight js = length (filter unfinished_job js)"

definition relay_ok :: "relay \<Rightarrow> bool" where
  "relay_ok s \<longleftrightarrow> distinct (map rj_id (rl_jobs s)) \<and> list_all row_ok (rl_jobs s) \<and> distinct (nonces (rl_jobs s))
     \<and> distinct (busy_lanes (rl_jobs s)) \<and> in_flight (rl_jobs s) \<le> 8
     \<and> (\<forall>raw \<in> set (rl_sent s). \<exists>j \<in> set (rl_jobs s). rj_raw j = Some raw)"

text \<open>A change that signs nothing.\<close>

definition quiet_job :: "sponsored_job \<Rightarrow> sponsored_job \<Rightarrow> bool" where
  "quiet_job j k \<longleftrightarrow> rj_id k = rj_id j \<and> rj_call k = rj_call j \<and> rj_value k = rj_value j \<and> rj_lane k = rj_lane j \<and> rj_raw k = rj_raw j
     \<and> rj_nonce k = rj_nonce j \<and> rj_hash k = rj_hash j \<and> rj_cost k = rj_cost j
     \<and> job_moves (rj_status j) (rj_status k) \<and> (unfinished_job k \<longrightarrow> unfinished_job j) \<and> (rj_status k = CSucceeded \<longrightarrow> rj_raw k \<noteq> None)"

definition glides :: "relay \<Rightarrow> relay \<Rightarrow> bool" where
  "glides s s' \<longleftrightarrow> relay_ok s' \<and> later_jobs (rl_jobs s) (rl_jobs s') \<and> nonces (rl_jobs s') = nonces (rl_jobs s)
     \<and> set (busy_lanes (rl_jobs s')) \<subseteq> set (busy_lanes (rl_jobs s)) \<and> in_flight (rl_jobs s') \<le> in_flight (rl_jobs s)"

lemma job_later_refl [simp]: "job_later j j"
  by (simp add: job_later_def job_moves_def)

lemma job_later_trans: "job_later i j \<Longrightarrow> job_later j k \<Longrightarrow> job_later i k"
  by (auto simp add: job_later_def job_moves_def)

lemma later_jobs_refl [simp]: "later_jobs js js"
  by (simp add: later_jobs_def list_all2_refl)

lemma later_jobs_trans: "later_jobs is js \<Longrightarrow> later_jobs js ks \<Longrightarrow> later_jobs is ks"
proof -
  assume a: "later_jobs is js" and b: "later_jobs js ks"
  have "length is \<le> length js" "length js \<le> length ks"
    using a b by (auto simp add: later_jobs_def dest!: list_all2_lengthD)
  moreover have "job_later (is ! n) (ks ! n)" if "n < length is" for n
    using a b that job_later_trans [of "is ! n" "js ! n" "ks ! n"] \<open>length is \<le> length js\<close>
    by (auto simp add: later_jobs_def list_all2_conv_all_nth)
  ultimately show ?thesis by (simp add: later_jobs_def list_all2_conv_all_nth)
qed

lemma glides_trans: "glides s t \<Longrightarrow> glides t u \<Longrightarrow> glides s u"
  unfolding glides_def using later_jobs_trans [of "rl_jobs s" "rl_jobs t" "rl_jobs u"] by auto

lemma glides_ok: "glides s t \<Longrightarrow> relay_ok t"
  by (simp add: glides_def)

lemma glides_refl: "relay_ok s \<Longrightarrow> glides s s"
  by (simp add: glides_def)

lemma quiet_row: "row_ok j \<Longrightarrow> quiet_job j k \<Longrightarrow> row_ok k"
  by (cases "rj_status j"; cases "rj_status k"; cases "rj_raw j")
    (auto simp add: row_ok_def quiet_job_def job_moves_def unfinished_job_def)

lemma quiet_lists:
  assumes "list_all2 quiet_job js ks"
  shows "map rj_id ks = map rj_id js \<and> (list_all row_ok js \<longrightarrow> list_all row_ok ks) \<and> nonces ks = nonces js
    \<and> set (busy_lanes ks) \<subseteq> set (busy_lanes js) \<and> (distinct (busy_lanes js) \<longrightarrow> distinct (busy_lanes ks))
    \<and> in_flight ks \<le> in_flight js \<and> map rj_raw ks = map rj_raw js \<and> list_all2 job_later js ks"
  using assms
proof (induction rule: list_all2_induct)
  case (Cons j js k ks)
  have j: "rj_id k = rj_id j" "rj_lane k = rj_lane j" "rj_raw k = rj_raw j" "rj_nonce k = rj_nonce j" "unfinished_job k \<longrightarrow> unfinished_job j"
    "job_later j k" "row_ok j \<longrightarrow> row_ok k"
    using Cons.hyps(1) quiet_row by (auto simp add: quiet_job_def job_later_def)
  show ?case using Cons.IH j by (auto simp add: nonces_def busy_lanes_def in_flight_def)
qed (simp_all add: nonces_def busy_lanes_def in_flight_def)

lemma glides_quiet:
  assumes "relay_ok s" "list_all2 quiet_job (rl_jobs s) ks" "rl_jobs s' = ks" "rl_sent s' = rl_sent s"
  shows "glides s s'"
proof -
  have len: "length ks = length (rl_jobs s)" using assms(2) by (simp add: list_all2_lengthD)
  note q = quiet_lists [OF assms(2)]
  have held: "(\<exists>j \<in> set js. rj_raw j = Some raw) \<longleftrightarrow> Some raw \<in> set (map rj_raw js)" for js :: "sponsored_job list" and raw by force
  have "(\<exists>j \<in> set ks. rj_raw j = Some raw) = (\<exists>j \<in> set (rl_jobs s). rj_raw j = Some raw)" for raw
    unfolding held using q by simp
  then show ?thesis using assms(1,3,4) q len by (simp add: glides_def relay_ok_def later_jobs_def)
qed

lemma glides_update:
  assumes "relay_ok s" "\<And>j. j \<in> set (rl_jobs s) \<Longrightarrow> rj_id j = i \<Longrightarrow> quiet_job j (f j)"
  shows "glides s (update_row i f s)"
proof -
  have "quiet_job j j" if "j \<in> set (rl_jobs s)" for j
    using assms(1) that by (auto simp add: quiet_job_def job_moves_def relay_ok_def list_all_iff row_ok_def)
  then have "list_all2 quiet_job (rl_jobs s) (map (\<lambda>j. if rj_id j = i then f j else j) (rl_jobs s))"
    using assms(2) by (auto simp add: list_all2_conv_all_nth)
  then show ?thesis by (rule glides_quiet [OF assms(1)]) (simp_all add: update_row_def)
qed

lemma glides_sent:
  assumes "relay_ok s" "j \<in> set (rl_jobs s)" "rj_raw j = Some raw"
  shows "glides s (s\<lparr>rl_sent := rl_sent s @ [raw]\<rparr>)"
  using assms by (auto simp add: glides_def relay_ok_def)

lemma glides_append:
  assumes "relay_ok s" "find_job (rj_id j) s = None" "row_ok j" "rj_status j = CQueued" "rl_jobs s' = rl_jobs s @ [j]" "rl_sent s' = rl_sent s"
  shows "glides s s'"
proof -
  have "rj_raw j = None" using assms(3,4) by (simp add: row_ok_def)
  moreover have "rj_id j \<notin> set (map rj_id (rl_jobs s))" using assms(2) by (auto simp add: find_job_def find_None_iff)
  moreover have "\<not> unfinished_job j" using assms(4) by (simp add: unfinished_job_def)
  ultimately show ?thesis using assms(1,3,5,6)
    by (auto simp add: glides_def relay_ok_def later_jobs_def nonces_def busy_lanes_def in_flight_def list_all2_refl)
qed

lemma new_job_ok: "row_ok (new_relay_job i c value lane now)" "rj_status (new_relay_job i c value lane now) = CQueued"
  by (simp_all add: new_relay_job_def row_ok_def)

lemma insert_job_glides: "relay_ok s \<Longrightarrow> glides s (insert_job (new_relay_job i c value lane now) s)"
  using glides_append [OF _ _ new_job_ok] by (auto simp add: insert_job_def glides_refl)

lemma insert_input_glides: "relay_ok s \<Longrightarrow> glides s (insert_input (new_relay_job i c value lane now) s)"
proof (cases "find_job i s")
  case None
  assume ok: "relay_ok s"
  let ?g = "\<lambda>k. if rj_lane k = lane \<and> rj_status k = CQueued \<and> rj_raw k = None then k\<lparr>rj_status := CSuperseded, rj_error := Some ''Replaced by a newer direction before signing'', rj_updated := now\<rparr> else k"
  define t where "t = s\<lparr>rl_jobs := map ?g (rl_jobs s)\<rparr>"
  have "quiet_job j (?g j)" if "j \<in> set (rl_jobs s)" for j
    using ok that by (auto simp add: quiet_job_def job_moves_def unfinished_job_def relay_ok_def list_all_iff row_ok_def)
  then have "list_all2 quiet_job (rl_jobs s) (map ?g (rl_jobs s))" by (simp add: list_all2_conv_all_nth)
  then have t: "glides s t" by (rule glides_quiet [OF ok]) (simp_all add: t_def)
  then have "relay_ok t" by (simp add: glides_def)
  moreover have "find_job i t = None" using None by (auto simp add: t_def find_job_def find_None_iff)
  ultimately have "glides t (insert_input (new_relay_job i c value lane now) s)"
    using None by (intro glides_append [OF _ _ new_job_ok, where s = t]) (simp_all add: insert_input_def new_relay_job_def t_def)
  with t show ?thesis by (rule glides_trans)
qed (simp add: insert_input_def new_relay_job_def glides_refl)

text \<open>Steps over the rows that were read before: each changes its own row only.\<close>

lemma rows_fold:
  assumes same: "\<And>s. relay_ok s \<Longrightarrow> R s s" and trans: "\<And>s t u. R s t \<Longrightarrow> R t u \<Longrightarrow> R s u" and ok: "\<And>s t. R s t \<Longrightarrow> relay_ok t"
    and step: "\<And>j t. relay_ok t \<Longrightarrow> j \<in> set (rl_jobs t) \<Longrightarrow> P j \<Longrightarrow> R t (f j t)"
    and other: "\<And>j k t. k \<in> set (rl_jobs t) \<Longrightarrow> rj_id k \<noteq> rj_id j \<Longrightarrow> k \<in> set (rl_jobs (f j t))"
  shows "relay_ok s \<Longrightarrow> set js \<subseteq> set (rl_jobs s) \<Longrightarrow> distinct (map rj_id js) \<Longrightarrow> list_all P js \<Longrightarrow> R s (fold f js s)"
proof (induction js arbitrary: s)
  case (Cons j js)
  have now: "R s (f j s)" using step Cons.prems by simp
  moreover have "set js \<subseteq> set (rl_jobs (f j s))"
  proof
    fix k assume "k \<in> set js"
    then have "k \<in> set (rl_jobs s)" "rj_id k \<in> rj_id ` set js" using Cons.prems(2) by auto
    moreover have "rj_id j \<notin> rj_id ` set js" using Cons.prems(3) by simp
    ultimately have "k \<in> set (rl_jobs s)" "rj_id k \<noteq> rj_id j" by metis+
    then show "k \<in> set (rl_jobs (f j s))" by (rule other)
  qed
  then have "R (f j s) (fold f js (f j s))"
    using Cons.prems ok [OF now] by (intro Cons.IH) simp_all
  ultimately show ?case using trans by simp
qed (simp add: same)

lemmas glides_fold = rows_fold [where R = glides, OF glides_refl glides_trans glides_ok]

lemma by_nonce_rows:
  assumes "relay_ok s"
  shows "set (by_nonce P s) \<subseteq> {j \<in> set (rl_jobs s). P j}" "distinct (map rj_id (by_nonce P s))"
proof -
  let ?L = "sort_key (\<lambda>j. case rj_nonce j of None \<Rightarrow> 0 | Some n \<Rightarrow> n) (filter P (rl_jobs s))"
  show "set (by_nonce P s) \<subseteq> {j \<in> set (rl_jobs s). P j}" unfolding by_nonce_def using set_take_subset [of 8 ?L] by auto
  have "distinct (map rj_id ?L)" using assms by (auto simp add: relay_ok_def distinct_map intro: inj_on_subset)
  then show "distinct (map rj_id (by_nonce P s))" unfolding by_nonce_def take_map [symmetric] by (rule distinct_take)
qed

lemma update_job_other: "k \<in> set (rl_jobs s) \<Longrightarrow> rj_id k \<noteq> i \<Longrightarrow> k \<in> set (rl_jobs (update_row i f s))"
  by (force simp add: update_row_def)

lemma same_job_id: "relay_ok s \<Longrightarrow> j \<in> set (rl_jobs s) \<Longrightarrow> k \<in> set (rl_jobs s) \<Longrightarrow> rj_id j = rj_id k \<Longrightarrow> j = k"
  unfolding relay_ok_def by (meson distinct_map inj_onD)

lemma observe_job_other: "k \<in> set (rl_jobs t) \<Longrightarrow> rj_id k \<noteq> rj_id j \<Longrightarrow> k \<in> set (rl_jobs (observe_job now receipt j t))"
  by (simp add: observe_job_def update_job_other split: option.split prod.split)

lemma observe_job_glides:
  assumes "relay_ok t" "j \<in> set (rl_jobs t)" "rj_status j = CSent"
  shows "glides t (observe_job now receipt j t)"
proof (cases "Option.bind (rj_hash j) receipt")
  case (Some r)
  have "rj_raw j \<noteq> None" using assms by (auto simp add: relay_ok_def list_all_iff row_ok_def)
  then have "quiet_job j (settle_job now (fst r) (snd r) j)"
    using assms(3) by (auto simp add: quiet_job_def settle_job_def job_moves_def unfinished_job_def)
  then have "glides t (update_row (rj_id j) (settle_job now (fst r) (snd r)) t)"
    using same_job_id [OF assms(1) _ assms(2)] by (intro glides_update assms(1)) blast
  then show ?thesis using Some by (cases r) (simp add: observe_job_def)
qed (simp add: observe_job_def glides_refl assms(1))

lemma observe_glides: "relay_ok s \<Longrightarrow> glides s (observeReceipts now receipt s)"
  unfolding observeReceipts_def
  by (rule glides_fold [where P = "\<lambda>j. rj_status j = CSent"])
    (use observe_job_glides observe_job_other by_nonce_rows [of s "\<lambda>j. rj_status j = CSent"] in \<open>auto simp add: list_all_iff\<close>)

lemma broadcast_job_other: "k \<in> set (rl_jobs t) \<Longrightarrow> rj_id k \<noteq> rj_id j \<Longrightarrow> k \<in> set (rl_jobs (broadcast_job now taken j t))"
  by (simp add: broadcast_job_def Let_def update_job_other split: option.split)

lemma broadcast_job_glides:
  assumes "relay_ok t" "j \<in> set (rl_jobs t)"
  shows "glides t (broadcast_job now taken j t)"
proof (cases "rj_raw j")
  case (Some raw)
  let ?t = "t\<lparr>rl_sent := rl_sent t @ [raw]\<rparr>"
  have sent: "glides t ?t" by (rule glides_sent [OF assms Some])
  have "quiet_job k (mark_sent now k)" if "k \<in> set (rl_jobs ?t)" for k
    using that assms(1) by (auto simp add: quiet_job_def mark_sent_def job_moves_def unfinished_job_def relay_ok_def list_all_iff row_ok_def)
  then have "glides ?t (update_row (rj_id j) (mark_sent now) ?t)"
    using sent by (intro glides_update) (simp_all add: glides_def)
  then show ?thesis using Some sent glides_trans by (auto simp add: broadcast_job_def Let_def)
qed (simp add: broadcast_job_def glides_refl assms(1))

lemma broadcast_glides: "relay_ok s \<Longrightarrow> glides s (broadcastTransactions now taken s)"
  unfolding broadcastTransactions_def
  by (rule glides_fold [where P = "\<lambda>_. True"])
    (use broadcast_job_glides broadcast_job_other by_nonce_rows [of s] in \<open>auto simp add: list_all_iff subset_iff\<close>)

lemma event_glides: "relay_ok s \<Longrightarrow> glides s (relay_event_step e s)"
  by (cases e) (simp_all add: relay_event_step_def insert_job_glides insert_input_glides broadcast_glides observe_glides)

lemma events_glide: "relay_ok s \<Longrightarrow> glides s (fold relay_event_step es s)"
proof (induction es arbitrary: s)
  case (Cons e es)
  have "glides s (relay_event_step e s)" by (rule event_glides [OF Cons.prems])
  moreover from this have "relay_ok (relay_event_step e s)" by (simp add: glides_def)
  ultimately show ?case using Cons.IH glides_trans by fastforce
qed (simp add: glides_refl)

lemma fail_job_glides: "relay_ok s \<Longrightarrow> glides s (fail_job now e i s)"
  unfolding fail_job_def
  by (rule glides_update) (auto simp add: quiet_job_def job_moves_def unfinished_job_def relay_ok_def list_all_iff row_ok_def)

subsection \<open>Dispatch keeps the journal\<close>

lemma reserved_above:
  assumes "relay_ok s" "n \<in> set (nonces (rl_jobs s))"
  shows "\<exists>i. n = Some i \<and> i < reserved_nonce s"
proof -
  let ?next = "\<lambda>j. case rj_nonce j of None \<Rightarrow> 0 | Some n \<Rightarrow> n + 1"
  obtain j where j: "j \<in> set (rl_jobs s)" "rj_raw j \<noteq> None" "rj_nonce j = n" using assms(2) by (auto simp add: nonces_def)
  then obtain i where i: "rj_nonce j = Some i" using assms(1) by (auto simp add: relay_ok_def list_all_iff row_ok_def)
  have "?next j \<in> set (map ?next (filter (\<lambda>j. rj_raw j \<noteq> None) (rl_jobs s)))" using j(1,2) by simp
  then have "?next j \<le> reserved_nonce s" unfolding reserved_nonce_def by (intro Max_ge) simp_all
  then show ?thesis using i j(3) by simp
qed

lemma reserved_warned [simp]: "reserved_nonce (s\<lparr>rl_warning := w\<rparr>) = reserved_nonce s"
  by (simp add: reserved_nonce_def)

lemma plan_jobs: "plan_job W D j s = (r, s') \<Longrightarrow> rl_jobs s' = rl_jobs s \<and> rl_sent s' = rl_sent s"
  by (auto simp add: plan_job_def ibind_def io_simps Let_def split: sum.splits if_split_asm)

lemma plan_nonce:
  assumes "plan_job W D j s = (Inr (Some p), s')" "relay_ok s" "n \<in> set (nonces (rl_jobs s))"
  shows "n \<noteq> Some (pl_nonce p)"
proof -
  have "reserved_nonce s \<le> pl_nonce p"
    using assms(1) by (auto simp add: plan_job_def ibind_def io_simps Let_def split: sum.splits if_split_asm)
  then show ?thesis using reserved_above [OF assms(2,3)] by auto
qed

text \<open>One row that is queued becomes signed under a fresh nonce.\<close>

lemma sign_row_ok:
  assumes ok: "relay_ok s" and k: "k \<in> set (rl_jobs s)" "rj_status k = CQueued" "rj_lane k \<noteq> None \<longrightarrow> rj_lane k \<notin> set (busy_lanes (rl_jobs s))"
    and room: "in_flight (rl_jobs s) < 8" and fresh: "Some n \<notin> set (nonces (rl_jobs s))"
    and f: "\<And>j. rj_id (f j) = rj_id j \<and> rj_call (f j) = rj_call j \<and> rj_value (f j) = rj_value j \<and> rj_lane (f j) = rj_lane j
      \<and> rj_status (f j) = CSigned \<and> rj_raw (f j) = Some raw \<and> rj_hash (f j) = Some h \<and> rj_nonce (f j) = Some n"
  shows "relay_ok (update_row (rj_id k) f s) \<and> later_jobs (rl_jobs s) (rl_jobs (update_row (rj_id k) f s))"
proof -
  obtain as bs where split: "rl_jobs s = as @ k # bs" using k(1) by (meson split_list)
  have "rj_id k \<notin> rj_id ` (set as \<union> set bs)" using ok by (simp add: relay_ok_def split image_Un)
  then have ids: "rj_id j \<noteq> rj_id k" if "j \<in> set as \<union> set bs" for j using that by (metis imageI)
  then have new: "rl_jobs (update_row (rj_id k) f s) = as @ f k # bs" by (auto simp add: update_row_def split map_idI)
  have none: "rj_raw k = None" "\<not> unfinished_job k" using ok k by (auto simp add: relay_ok_def list_all_iff row_ok_def unfinished_job_def)
  have up: "unfinished_job (f k)" "row_ok (f k)" using f [of k] by (simp_all add: unfinished_job_def row_ok_def)
  have later: "job_later k (f k)" using f [of k] k(2) none by (simp add: job_later_def job_moves_def)
  have kept: "\<exists>j \<in> set (as @ f k # bs). rj_raw j = Some r" if "\<exists>j \<in> set (rl_jobs s). rj_raw j = Some r" for r
    using that none by (auto simp add: split)
  show ?thesis
    using ok k(3) room fresh f [of k] none up later kept
    by (simp add: relay_ok_def new split nonces_def busy_lanes_def in_flight_def later_jobs_def list_all2_append list_all2_refl)
      (auto simp add: update_row_def)
qed

lemma relay_ok_same: "relay_ok s \<Longrightarrow> rl_jobs s' = rl_jobs s \<Longrightarrow> rl_sent s' = rl_sent s \<Longrightarrow> relay_ok s'"
  by (simp add: relay_ok_def)

lemma next_job_row:
  assumes "next_job s = Some j"
  shows "j \<in> set (rl_jobs s)" "rj_status j = CQueued" "rj_lane j \<noteq> None \<longrightarrow> rj_lane j \<notin> set (busy_lanes (rl_jobs s))"
proof -
  have "j \<in> set (sort_key call_priority (filter (\<lambda>j. rj_status j = CQueued \<and> lane_free s j) (rl_jobs s)))"
    using assms unfolding next_job_def by (cases "sort_key call_priority (filter (\<lambda>j. rj_status j = CQueued \<and> lane_free s j) (rl_jobs s))") (simp, metis list.set_intros(1) list.simps(5) option.inject)
  then have j: "j \<in> set (rl_jobs s)" "rj_status j = CQueued" "lane_free s j" by simp_all
  then show "j \<in> set (rl_jobs s)" "rj_status j = CQueued" by simp_all
  show "rj_lane j \<noteq> None \<longrightarrow> rj_lane j \<notin> set (busy_lanes (rl_jobs s))"
    using j(3) by (auto simp add: lane_free_def busy_lanes_def list_ex_iff)
qed

lemma current_row:
  assumes "current_job W h j t = Some k" "later_jobs (rl_jobs s) (rl_jobs t)" "j \<in> set (rl_jobs s)" "relay_ok t"
  shows "\<exists>l \<in> set (rl_jobs t). rj_id l = rj_id k \<and> rj_status l = CQueued \<and> rj_lane l = rj_lane j
    \<and> (rj_value l = rj_value j \<or> rj_lane j \<noteq> None)"
proof -
  obtain l where l: "find_job (rj_id j) t = Some l" using assms(1) by (auto simp add: current_job_def split: option.splits)
  then have in_t: "l \<in> set (rl_jobs t)" "rj_id l = rj_id j" by (auto simp add: find_job_def find_Some_iff)
  obtain n where n: "n < length (rl_jobs s)" "rl_jobs s ! n = j" using assms(3) by (meson in_set_conv_nth)
  then have "job_later j (rl_jobs t ! n)" "n < length (rl_jobs t)"
    using assms(2) by (auto simp add: later_jobs_def list_all2_conv_all_nth)
  then have "rl_jobs t ! n = l" "rj_lane (rl_jobs t ! n) = rj_lane j" "rj_value (rl_jobs t ! n) = rj_value j"
    using same_job_id [OF assms(4) _ in_t(1)] in_t(2) by (auto simp add: job_later_def)
  then have lane: "rj_lane l = rj_lane j" "rj_value l = rj_value j" by simp_all
  show ?thesis
  proof (cases "rj_status l = CQueued")
    case True
    then have "k = j" using assms(1) l by (simp add: current_job_def)
    then show ?thesis using in_t lane True by auto
  next
    case False
    then have "find (\<lambda>l. rj_lane l = rj_lane j \<and> rj_status l = CQueued) (rev (rl_jobs t)) = Some k"
      using assms(1) l by (auto simp add: current_job_def split: option.splits if_split_asm)
    then have "k \<in> set (rl_jobs t) \<and> rj_lane k = rj_lane j \<and> rj_status k = CQueued"
      by (metis (mono_tags, lifting) find_Some_iff nth_mem set_rev)
    moreover have "rj_lane j \<noteq> None" using False assms(1) l by (auto simp add: current_job_def split: if_split_asm)
    ultimately show ?thesis by blast
  qed
qed

definition relay_advances :: "relay \<Rightarrow> relay \<Rightarrow> bool" where
  "relay_advances s s' \<longleftrightarrow> relay_ok s' \<and> later_jobs (rl_jobs s) (rl_jobs s')"

lemma relay_advances_refl: "relay_ok s \<Longrightarrow> relay_advances s s"
  by (simp add: relay_advances_def)

lemma relay_advances_trans: "relay_advances s t \<Longrightarrow> relay_advances t u \<Longrightarrow> relay_advances s u"
  using later_jobs_trans by (auto simp add: relay_advances_def)

lemma relay_advances_glides: "glides s s' \<Longrightarrow> relay_advances s s'"
  by (simp add: relay_advances_def glides_def)

lemma relay_advances_same: "relay_ok s \<Longrightarrow> rl_jobs s' = rl_jobs s \<Longrightarrow> rl_sent s' = rl_sent s \<Longrightarrow> relay_advances s s'"
  using relay_ok_same by (simp add: relay_advances_def)

lemma sign_job_advances:
  assumes ok: "relay_ok s" and l: "l \<in> set (rl_jobs s)" "rj_id l = rj_id k" "rj_status l = CQueued"
    and lane: "rj_lane l \<noteq> None \<longrightarrow> rj_lane l \<notin> set (busy_lanes (rl_jobs s))"
    and room: "in_flight (rl_jobs s) < 8" and fresh: "Some (pl_nonce p) \<notin> set (nonces (rl_jobs s))"
  shows "relay_advances s (snd (sign_job W D p k v s))"
proof -
  have signed: "relay_advances s (update_row (rj_id k) (\<lambda>j. j\<lparr>rj_status := CSigned, rj_raw := Some raw, rj_hash := Some (rw_hash W raw),
      rj_nonce := Some (pl_nonce p), rj_cost := pl_cost p, rj_updated := dw_now D\<rparr>) s)" for raw
    unfolding relay_advances_def l(2) [symmetric]
    by (rule sign_row_ok [OF ok l(1,3) lane room fresh, where raw = raw and h = "rw_hash W raw"]) simp
  have failed: "relay_advances s (fail_job (dw_now D) e (rj_id k) s)" for e by (rule relay_advances_glides [OF fail_job_glides [OF ok]])
  show ?thesis
    by (cases "rw_encode W (rj_call k)"; cases "dw_sign D (rj_call k) v (pl_nonce p) (pl_gas p) (pl_fee p)")
      (simp_all add: sign_job_def ibind_def catch_def io_simps signed failed)
qed

lemma dispatch_run:
  assumes "\<not> (length (filter unfinished_job (rl_jobs s)) \<ge> 8 \<or> next_job s = None)" "next_job s = Some j" "plan_job W D j s = (r, t)"
  shows "snd (dispatch_job W D es s) = (case r of Inl e \<Rightarrow> fail_job (dw_now D) e (rj_id j) t | Inr None \<Rightarrow> t
      | Inr (Some p) \<Rightarrow> let u = fold relay_event_step es t in
          case current_job W (dw_head D) j u of None \<Rightarrow> u | Some k \<Rightarrow> snd (sign_job W D p k (rj_value j) u))"
  using assms by (auto simp add: dispatch_job_def ibind_def catch_def io_simps Let_def split: sum.splits option.splits)

lemma dispatch_advances:
  assumes ok: "relay_ok s"
  shows "relay_advances s (snd (dispatch_job W D es s))"
proof (cases "length (filter unfinished_job (rl_jobs s)) \<ge> 8 \<or> next_job s = None")
  case True
  then show ?thesis using ok by (auto simp add: dispatch_job_def ibind_def io_simps relay_advances_refl)
next
  case False
  then obtain j where room: "in_flight (rl_jobs s) < 8" and j: "next_job s = Some j" by (auto simp add: in_flight_def)
  obtain r t where plan: "plan_job W D j s = (r, t)" by (cases "plan_job W D j s")
  have t: "relay_advances s t" "relay_ok t" "rl_jobs t = rl_jobs s"
    using plan_jobs [OF plan] ok relay_advances_same relay_ok_same by auto
  note run = dispatch_run [OF False j plan]
  show ?thesis
  proof (cases "\<exists>p. r = Inr (Some p)")
    case False
    then show ?thesis
      using relay_advances_trans [OF t(1) relay_advances_glides [OF fail_job_glides [OF t(2)]]] t(1)
      by (auto simp add: run split: sum.splits option.splits)
  next
    case True
    then obtain p where p: "r = Inr (Some p)" by blast
    define u where "u = fold relay_event_step es t"
    have glide: "glides t u" using events_glide [OF t(2)] by (simp add: u_def)
    then have u: "relay_ok u" "later_jobs (rl_jobs s) (rl_jobs u)" "nonces (rl_jobs u) = nonces (rl_jobs s)"
      "set (busy_lanes (rl_jobs u)) \<subseteq> set (busy_lanes (rl_jobs s))" "in_flight (rl_jobs u) < 8"
      using t(3) room by (simp_all add: glides_def)
    have signed: "relay_advances u (snd (sign_job W D p k (rj_value j) u))" if k: "current_job W (dw_head D) j u = Some k" for k
    proof -
      obtain l where l: "l \<in> set (rl_jobs u)" "rj_id l = rj_id k" "rj_status l = CQueued" "rj_lane l = rj_lane j"
        using current_row [OF k u(2) next_job_row(1) [OF j] u(1)] by blast
      have "Some (pl_nonce p) \<notin> set (nonces (rl_jobs u))" unfolding u(3) using plan_nonce plan p ok by blast
      moreover have "rj_lane l \<noteq> None \<longrightarrow> rj_lane l \<notin> set (busy_lanes (rl_jobs u))"
        using next_job_row(3) [OF j] l(4) u(4) by auto
      ultimately show ?thesis using u(1,5) l by (intro sign_job_advances)
    qed
    have "relay_advances s u" by (rule relay_advances_trans [OF t(1) relay_advances_glides [OF glide]])
    then show ?thesis using relay_advances_trans signed by (auto simp add: run p u_def [symmetric] Let_def split: option.splits)
  qed
qed

lemma relay_step_advances: "relay_ok s \<Longrightarrow> relay_advances s (relay_step W e s)"
  by (cases e) (simp_all add: relay_step_def dispatch_advances relay_advances_glides event_glides)

lemma relay_steps_advance: "relay_ok s \<Longrightarrow> relay_advances s (fold (relay_step W) es s)"
proof (induction es arbitrary: s)
  case (Cons e es)
  have step: "relay_advances s (relay_step W e s)" by (rule relay_step_advances [OF Cons.prems])
  moreover from step have "relay_advances (relay_step W e s) (fold (relay_step W) es (relay_step W e s))"
    by (intro Cons.IH) (simp add: relay_advances_def)
  ultimately show ?case using relay_advances_trans by simp
qed (simp add: relay_advances_refl)

lemma empty_relay_ok: "relay_ok empty_relay"
  by (simp add: relay_ok_def empty_relay_def nonces_def busy_lanes_def in_flight_def)

text \<open>C34.  Whatever the interleaving of intake, dispatch, broadcast and receipts: no two signed transactions of the sponsor share a
  nonce, every byte string that was sent to the node is in the journal, at most eight transactions are in flight and
  at most one per input lane; and a row of the journal never moves back, nor do its signed bytes, nonce, hash or cost ever change.\<close>

theorem relay_journal_safe:
  "(let js = rl_jobs (run_relay W es) in
      distinct (map rj_nonce (filter (\<lambda>j. rj_raw j \<noteq> None) js))
      \<and> list_all (\<lambda>raw. list_ex (\<lambda>j. rj_raw j = Some raw) js) (rl_sent (run_relay W es))
      \<and> length (filter unfinished_job js) \<le> 8
      \<and> distinct (map rj_lane (filter (\<lambda>j. unfinished_job j \<and> rj_lane j \<noteq> None) js)))
   \<and> later_jobs (rl_jobs (run_relay W es)) (rl_jobs (run_relay W (es @ es')))"
proof -
  have ok: "relay_ok (run_relay W es)"
    using relay_steps_advance [OF empty_relay_ok] by (simp add: relay_advances_def run_relay_def)
  have "later_jobs (rl_jobs (run_relay W es)) (rl_jobs (run_relay W (es @ es')))"
    using relay_steps_advance [OF ok, of W es'] by (simp add: relay_advances_def run_relay_def)
  then show ?thesis
    using ok by (simp add: relay_ok_def Let_def nonces_def busy_lanes_def in_flight_def list_all_iff list_ex_iff)
qed

end
