(* ===== verification/Relay_Budget.thy ===== *)
theory Relay_Budget
  imports Relay_Journal
begin

text \<open>
  The daily budget of the sponsor over the journal of \<^verbatim>\<open>relayer/src/main.ts\<close> and the accounting of
  \<^verbatim>\<open>relayer/src/budget.ts\<close>.  A receipt is honest when the price of its gas is within the allowance that the
  transaction was signed with: \<^verbatim>\<open>cap\<close> gives that allowance for a transaction hash.
\<close>

definition due :: "int \<Rightarrow> sponsored_job \<Rightarrow> int" where
  "due d j = (if rj_status j \<in> {CSigned, CSent}
      \<or> rj_status j \<in> {CSucceeded, CFailed} \<and> (case rj_confirmed j of Some t \<Rightarrow> t | None \<Rightarrow> rj_updated j) \<ge> d
    then accountedCost (cost_view j) else 0)"

definition total_due :: "int \<Rightarrow> sponsored_job list \<Rightarrow> int" where
  "total_due d js = sum_list (map (due d) js)"

lemma spent_total_due: "fst (readSponsorCosts d observed (map cost_view js)) = total_due d js"
proof (induction js)
  case (Cons j js)
  have "cj_status (cost_view j) = rj_status j" "cj_confirmed (cost_view j) = rj_confirmed j" "cj_updated (cost_view j) = rj_updated j"
    by (simp_all add: cost_view_def)
  then show ?case using Cons by (cases "rj_confirmed j") (auto simp add: readSponsorCosts_def total_due_def due_def)
qed (simp add: readSponsorCosts_def total_due_def)

definition bill_ok :: "(string \<Rightarrow> int) \<Rightarrow> sponsored_job \<Rightarrow> bool" where
  "bill_ok cap j \<longleftrightarrow> 0 \<le> rj_value j \<and> (rj_lane j \<noteq> None \<longrightarrow> rj_value j = 0)
     \<and> (case rj_hash j of None \<Rightarrow> rj_cost j = 0 | Some h \<Rightarrow> cap h + rj_value j \<le> rj_cost j)
     \<and> (case rj_receipt j of None \<Rightarrow> rj_status j \<in> {CSucceeded, CFailed} \<longrightarrow> rj_hash j = None
        | Some (success, gas, price) \<Rightarrow> rj_status j \<in> {CSucceeded, CFailed} \<and> 0 \<le> gas * price
          \<and> (case rj_hash j of None \<Rightarrow> False | Some h \<Rightarrow> gas * price \<le> cap h))"

lemma due_later: "bill_ok cap j \<Longrightarrow> d \<le> d' \<Longrightarrow> due d' j \<le> due d j"
  by (auto simp add: due_def bill_ok_def accountedCost_def cost_view_def split: option.splits)

lemma total_due_later: "list_all (bill_ok cap) js \<Longrightarrow> d \<le> d' \<Longrightarrow> total_due d' js \<le> total_due d js"
  unfolding total_due_def by (rule sum_list_mono) (auto simp add: list_all_iff intro: due_later)

subsection \<open>Steps that spend nothing\<close>

definition cheaper :: "(string \<Rightarrow> int) \<Rightarrow> sponsored_job \<Rightarrow> sponsored_job \<Rightarrow> bool" where
  "cheaper cap j k \<longleftrightarrow> (bill_ok cap j \<longrightarrow> bill_ok cap k \<and> (\<forall>d. due d k \<le> due d j))"

definition thrifty :: "(string \<Rightarrow> int) \<Rightarrow> relay \<Rightarrow> relay \<Rightarrow> bool" where
  "thrifty cap s s' \<longleftrightarrow> (list_all (bill_ok cap) (rl_jobs s) \<longrightarrow>
     list_all (bill_ok cap) (rl_jobs s') \<and> (\<forall>d. total_due d (rl_jobs s') \<le> total_due d (rl_jobs s)))"

definition frugal :: "(string \<Rightarrow> int) \<Rightarrow> relay \<Rightarrow> relay \<Rightarrow> bool" where
  "frugal cap s s' \<longleftrightarrow> glides s s' \<and> thrifty cap s s'"

lemma thrifty_trans: "thrifty cap s t \<Longrightarrow> thrifty cap t u \<Longrightarrow> thrifty cap s u"
  by (fastforce simp add: thrifty_def intro: order_trans)

lemma thrifty_same: "rl_jobs s' = rl_jobs s \<Longrightarrow> thrifty cap s s'"
  by (simp add: thrifty_def)

lemma frugal_refl: "relay_ok s \<Longrightarrow> frugal cap s s"
  by (simp add: frugal_def thrifty_same glides_refl)

lemma frugal_trans: "frugal cap s t \<Longrightarrow> frugal cap t u \<Longrightarrow> frugal cap s u"
  using glides_trans thrifty_trans by (auto simp add: frugal_def)

lemma frugal_ok: "frugal cap s t \<Longrightarrow> relay_ok t"
  by (simp add: frugal_def glides_def)

lemmas frugal_fold = rows_fold [where R = "frugal cap" for cap, OF frugal_refl frugal_trans frugal_ok]

lemma thrifty_map:
  assumes "\<And>j. j \<in> set (rl_jobs s) \<Longrightarrow> cheaper cap j (g j)" "rl_jobs s' = map g (rl_jobs s)"
  shows "thrifty cap s s'"
proof -
  have "total_due d (map g (rl_jobs s)) \<le> total_due d (rl_jobs s)" if "list_all (bill_ok cap) (rl_jobs s)" for d
    unfolding total_due_def map_map by (rule sum_list_mono) (use assms(1) that in \<open>auto simp add: cheaper_def list_all_iff\<close>)
  then show ?thesis using assms by (auto simp add: thrifty_def cheaper_def list_all_iff)
qed

lemma thrifty_update: "(\<And>j. j \<in> set (rl_jobs s) \<Longrightarrow> rj_id j = i \<Longrightarrow> cheaper cap j (f j)) \<Longrightarrow> thrifty cap s (update_row i f s)"
  by (rule thrifty_map [where g = "\<lambda>j. if rj_id j = i then f j else j"]) (auto simp add: update_row_def cheaper_def)

lemma thrifty_append:
  assumes "rl_jobs s' = rl_jobs s @ [j]" "bill_ok cap j" "\<And>d. due d j = 0"
  shows "thrifty cap s s'"
  using assms by (simp add: thrifty_def total_due_def)

lemma new_job_bill: "0 \<le> value \<Longrightarrow> lane \<noteq> None \<longrightarrow> value = 0 \<Longrightarrow> bill_ok cap (new_relay_job i c value lane now)"
  "due d (new_relay_job i c value lane now) = 0"
  by (simp_all add: bill_ok_def due_def new_relay_job_def)

text \<open>What the node and the callers promise.\<close>

definition honest_receipts :: "(string \<Rightarrow> int) \<Rightarrow> (string \<Rightarrow> ((bool \<times> int \<times> int) \<times> int) option) \<Rightarrow> bool" where
  "honest_receipts cap receipt \<longleftrightarrow> (\<forall>h success gas price block.
     receipt h = Some ((success, gas, price), block) \<longrightarrow> 0 \<le> gas * price \<and> gas * price \<le> cap h)"

definition honest_event :: "(string \<Rightarrow> int) \<Rightarrow> relay_event \<Rightarrow> bool" where
  "honest_event cap e = (case e of InsertJob i c value now \<Rightarrow> 0 \<le> value | ObserveJobs now receipt \<Rightarrow> honest_receipts cap receipt | _ \<Rightarrow> True)"

definition honest_signer :: "relay_world \<Rightarrow> (string \<Rightarrow> int) \<Rightarrow> dispatch_world \<Rightarrow> bool" where
  "honest_signer W cap D \<longleftrightarrow> (\<forall>c v n gas fee raw. dw_sign D c v n gas fee = Inr raw \<longrightarrow> cap (rw_hash W raw) \<le> gas * fee)"

definition honest_step :: "relay_world \<Rightarrow> (string \<Rightarrow> int) \<Rightarrow> relay_step \<Rightarrow> bool" where
  "honest_step W cap e = (case e of Loop ev \<Rightarrow> honest_event cap ev | Dispatched D evs \<Rightarrow> honest_signer W cap D \<and> list_all (honest_event cap) evs)"

lemma observe_frugal:
  assumes ok: "relay_ok s" and honest: "honest_receipts cap receipt"
  shows "frugal cap s (observeReceipts now receipt s)"
proof -
  have one: "thrifty cap t (observe_job now receipt j t)" if "relay_ok t" "j \<in> set (rl_jobs t)" "rj_status j = CSent" for j t
  proof (cases "Option.bind (rj_hash j) receipt")
    case (Some r)
    obtain success gas price block where r: "r = ((success, gas, price), block)" by (metis prod.collapse)
    obtain h where h: "rj_hash j = Some h" "receipt h = Some r" using Some by (cases "rj_hash j") auto
    have "0 \<le> gas * price" "gas * price \<le> cap h" using honest h(2) unfolding honest_receipts_def r by blast+
    then have "cheaper cap j (settle_job now (fst r) (snd r) j)"
      using h(1) that(3) by (auto simp add: cheaper_def settle_job_def bill_ok_def due_def accountedCost_def cost_view_def r)
    then have "thrifty cap t (update_row (rj_id j) (settle_job now (fst r) (snd r)) t)"
      using same_job_id [OF that(1) _ that(2)] by (intro thrifty_update) blast
    then show ?thesis using Some by (cases r) (simp add: observe_job_def)
  qed (simp add: observe_job_def thrifty_same)
  note rows = by_nonce_rows [OF ok, of "\<lambda>j. rj_status j = CSent"]
  show ?thesis unfolding observeReceipts_def
    by (rule frugal_fold [where P = "\<lambda>j. rj_status j = CSent"])
      (use one observe_job_glides observe_job_other ok rows in \<open>auto simp add: list_all_iff frugal_def\<close>)
qed

lemma broadcast_frugal:
  assumes ok: "relay_ok s"
  shows "frugal cap s (broadcastTransactions now taken s)"
proof -
  have "cheaper cap j (mark_sent now j)" for j
    by (auto simp add: cheaper_def mark_sent_def unfinished_job_def bill_ok_def due_def accountedCost_def cost_view_def split: option.splits)
  then have one: "thrifty cap t (broadcast_job now taken j t)" for j t
    using thrifty_update [of "t\<lparr>rl_sent := rl_sent t @ [the (rj_raw j)]\<rparr>" "rj_id j" cap "mark_sent now"]
    by (auto simp add: broadcast_job_def Let_def thrifty_def split: option.splits)
  show ?thesis unfolding broadcastTransactions_def
    by (rule frugal_fold [where P = "\<lambda>_. True"])
      (use one broadcast_job_glides broadcast_job_other ok by_nonce_rows [OF ok] in \<open>auto simp add: list_all_iff subset_iff frugal_def\<close>)
qed

lemma insert_input_thrifty: "relay_ok s \<Longrightarrow> thrifty cap s (insert_input (new_relay_job i c 0 (Some lane) now) s)"
proof (cases "find_job i s")
  case None
  assume ok: "relay_ok s"
  let ?j = "new_relay_job i c 0 (Some lane) now"
  let ?g = "\<lambda>k. if rj_lane k = Some lane \<and> rj_status k = CQueued \<and> rj_raw k = None then k\<lparr>rj_status := CSuperseded, rj_error := Some ''Replaced by a newer direction before signing'', rj_updated := now\<rparr> else k"
  define t where "t = s\<lparr>rl_jobs := map ?g (rl_jobs s)\<rparr>"
  have "cheaper cap k (?g k)" for k
    by (auto simp add: cheaper_def bill_ok_def due_def accountedCost_def cost_view_def split: option.splits)
  then have "thrifty cap s t" by (intro thrifty_map [where g = ?g]) (simp_all add: t_def)
  moreover have "rl_jobs (insert_input ?j s) = rl_jobs t @ [?j]" using None by (simp add: insert_input_def new_relay_job_def t_def)
  then have "thrifty cap t (insert_input ?j s)" by (rule thrifty_append) (simp_all add: new_job_bill)
  ultimately show ?thesis by (rule thrifty_trans)
qed (simp add: insert_input_def new_relay_job_def thrifty_same)

lemma event_frugal: "relay_ok s \<Longrightarrow> honest_event cap e \<Longrightarrow> frugal cap s (relay_event_step e s)"
proof (cases e)
  case (InsertJob i c v now)
  assume "relay_ok s" "honest_event cap e"
  then have "thrifty cap s (insert_job (new_relay_job i c v None now) s)"
    using thrifty_append [of _ s, OF _ new_job_bill] by (auto simp add: insert_job_def thrifty_same honest_event_def InsertJob)
  then show ?thesis using \<open>relay_ok s\<close> insert_job_glides by (simp add: relay_event_step_def InsertJob frugal_def)
next
  case (InsertInput i c lane now)
  assume "relay_ok s"
  then show ?thesis by (simp add: relay_event_step_def InsertInput frugal_def insert_input_glides insert_input_thrifty)
qed (simp_all add: relay_event_step_def honest_event_def observe_frugal broadcast_frugal)

lemma events_frugal: "relay_ok s \<Longrightarrow> list_all (honest_event cap) es \<Longrightarrow> frugal cap s (fold relay_event_step es s)"
proof (induction es arbitrary: s)
  case (Cons e es)
  then have "frugal cap s (relay_event_step e s)" by (simp add: event_frugal)
  moreover from this have "frugal cap (relay_event_step e s) (fold relay_event_step es (relay_event_step e s))"
    using Cons frugal_ok by simp
  ultimately show ?case using frugal_trans by simp
qed (simp add: frugal_refl)

lemma fail_job_thrifty: "relay_ok s \<Longrightarrow> thrifty cap s (fail_job now e i s)"
  unfolding fail_job_def
  by (rule thrifty_update)
    (auto simp add: cheaper_def bill_ok_def due_def accountedCost_def cost_view_def relay_ok_def list_all_iff row_ok_def split: option.splits)

subsection \<open>Dispatch spends within the budget\<close>

lemma plan_within:
  assumes "plan_job W D j s = (Inr (Some p), s')" "0 < rw_dailyBudget W"
  shows "pl_cost p = pl_gas p * pl_fee p + rj_value j" "total_due (dw_today D) (rl_jobs s) + pl_cost p \<le> rw_dailyBudget W"
proof -
  show "pl_cost p = pl_gas p * pl_fee p + rj_value j"
    using assms(1) by (auto simp add: plan_job_def ibind_def io_simps Let_def split: sum.splits if_split_asm)
  show "total_due (dw_today D) (rl_jobs s) + pl_cost p \<le> rw_dailyBudget W"
    using assms by (auto simp add: plan_job_def ibind_def io_simps Let_def spent_total_due split: sum.splits if_split_asm)
qed

text \<open>Signing one row adds its cost.\<close>

lemma sign_row_due:
  assumes ok: "relay_ok s" and bills: "list_all (bill_ok cap) (rl_jobs s)" and l: "l \<in> set (rl_jobs s)" "rj_status l = CQueued"
    and f: "bill_ok cap (f l)" "\<And>d. due d (f l) = c"
  shows "list_all (bill_ok cap) (rl_jobs (update_row (rj_id l) f s)) \<and> total_due d (rl_jobs (update_row (rj_id l) f s)) = total_due d (rl_jobs s) + c"
proof -
  obtain as bs where split: "rl_jobs s = as @ l # bs" using l(1) by (meson split_list)
  have "rj_id l \<notin> rj_id ` (set as \<union> set bs)" using ok by (simp add: relay_ok_def split image_Un)
  then have ids: "rj_id j \<noteq> rj_id l" if "j \<in> set as \<union> set bs" for j using that by (metis imageI)
  then have new: "rl_jobs (update_row (rj_id l) f s) = as @ f l # bs" by (auto simp add: update_row_def split map_idI)
  have "due d l = 0" using l(2) by (simp add: due_def)
  then show ?thesis using bills f by (simp add: new split total_due_def)
qed

definition within :: "relay_world \<Rightarrow> (string \<Rightarrow> int) \<Rightarrow> int \<Rightarrow> relay \<Rightarrow> bool" where
  "within W cap d s \<longleftrightarrow> relay_ok s \<and> list_all (bill_ok cap) (rl_jobs s) \<and> total_due d (rl_jobs s) \<le> rw_dailyBudget W"

lemma within_later: "within W cap d s \<Longrightarrow> d \<le> d' \<Longrightarrow> within W cap d' s"
  unfolding within_def using total_due_later by (meson order_trans)

lemma within_frugal: "within W cap d s \<Longrightarrow> frugal cap s s' \<Longrightarrow> within W cap d s'"
  by (auto simp add: within_def frugal_def thrifty_def glides_def intro: order_trans)

lemma within_same: "within W cap d s \<Longrightarrow> rl_jobs s' = rl_jobs s \<Longrightarrow> rl_sent s' = rl_sent s \<Longrightarrow> within W cap d s'"
  using relay_ok_same [of s s'] by (simp add: within_def)

lemma within_failed: "within W cap d s \<Longrightarrow> within W cap d (fail_job now e i s)"
  by (rule within_frugal) (auto simp add: frugal_def within_def intro: fail_job_glides fail_job_thrifty)

lemma sign_job_within:
  assumes w: "within W cap d s" and honest: "honest_signer W cap D"
    and l: "l \<in> set (rl_jobs s)" "rj_id l = rj_id k" "rj_status l = CQueued" "rj_value l \<le> v"
    and lane: "rj_lane l \<noteq> None \<longrightarrow> rj_lane l \<notin> set (busy_lanes (rl_jobs s))"
    and room: "in_flight (rl_jobs s) < 8" and fresh: "Some (pl_nonce p) \<notin> set (nonces (rl_jobs s))"
    and cost: "pl_cost p = pl_gas p * pl_fee p + v" "total_due d (rl_jobs s) + pl_cost p \<le> rw_dailyBudget W"
  shows "within W cap d (snd (sign_job W D p k v s))"
proof -
  have next_ok: "relay_ok (snd (sign_job W D p k v s))"
    using sign_job_advances [OF _ l(1-3) lane room fresh] w by (simp add: within_def relay_advances_def)
  let ?f = "\<lambda>raw j. j\<lparr>rj_status := CSigned, rj_raw := Some raw, rj_hash := Some (rw_hash W raw),
      rj_nonce := Some (pl_nonce p), rj_cost := pl_cost p, rj_updated := dw_now D\<rparr>"
  have bill: "bill_ok cap l" using w l(1) by (simp add: within_def list_all_iff)
  have signed: "list_all (bill_ok cap) (rl_jobs (update_row (rj_id l) (?f raw) s))
      \<and> total_due d (rl_jobs (update_row (rj_id l) (?f raw) s)) \<le> rw_dailyBudget W"
    if "dw_sign D (rj_call k) v (pl_nonce p) (pl_gas p) (pl_fee p) = Inr raw" for raw
  proof -
    have "cap (rw_hash W raw) \<le> pl_gas p * pl_fee p" using honest that by (auto simp add: honest_signer_def)
    then have "bill_ok cap (?f raw l)" using bill l(3,4) cost(1) by (auto simp add: bill_ok_def split: option.splits)
    moreover have "due d' (?f raw l) = pl_cost p" for d' by (simp add: due_def accountedCost_def cost_view_def)
    ultimately show ?thesis using sign_row_due [of s cap l "?f raw" "pl_cost p" d] w l(1,3) cost(2) by (auto simp add: within_def)
  qed
  have failed: "list_all (bill_ok cap) (rl_jobs (fail_job (dw_now D) e (rj_id k) s))
      \<and> total_due d (rl_jobs (fail_job (dw_now D) e (rj_id k) s)) \<le> rw_dailyBudget W" for e
    using within_failed [OF w] by (simp add: within_def)
  show ?thesis
    using next_ok
    by (cases "rw_encode W (rj_call k)"; cases "dw_sign D (rj_call k) v (pl_nonce p) (pl_gas p) (pl_fee p)")
      (simp_all add: sign_job_def ibind_def catch_def io_simps failed within_def signed [unfolded l(2)])
qed

lemma dispatch_within:
  assumes w: "within W cap (dw_today D) s" and budget: "0 < rw_dailyBudget W"
    and honest: "honest_signer W cap D" "list_all (honest_event cap) es"
  shows "within W cap (dw_today D) (snd (dispatch_job W D es s))"
proof (cases "length (filter unfinished_job (rl_jobs s)) \<ge> 8 \<or> next_job s = None")
  case True
  then show ?thesis using w by (auto simp add: dispatch_job_def ibind_def io_simps)
next
  case False
  then obtain j where room: "in_flight (rl_jobs s) < 8" and j: "next_job s = Some j" by (auto simp add: in_flight_def)
  obtain r t where plan: "plan_job W D j s = (r, t)" by (cases "plan_job W D j s")
  have ok: "relay_ok s" using w by (simp add: within_def)
  have t: "rl_jobs t = rl_jobs s" "within W cap (dw_today D) t" "relay_ok t"
    using plan_jobs [OF plan] within_same [OF w, of t] by (simp_all add: within_def)
  note run = dispatch_run [OF False j plan]
  show ?thesis
  proof (cases "\<exists>p. r = Inr (Some p)")
    case False
    then show ?thesis using t(2) within_failed [OF t(2)] by (auto simp add: run split: sum.splits option.splits)
  next
    case True
    then obtain p where p: "r = Inr (Some p)" by blast
    define u where "u = fold relay_event_step es t"
    have frugal: "frugal cap t u" using events_frugal [OF t(3) honest(2)] by (simp add: u_def)
    then have wu: "within W cap (dw_today D) u" by (rule within_frugal [OF t(2)])
    have u: "relay_ok u" "later_jobs (rl_jobs s) (rl_jobs u)" "nonces (rl_jobs u) = nonces (rl_jobs s)"
      "set (busy_lanes (rl_jobs u)) \<subseteq> set (busy_lanes (rl_jobs s))" "in_flight (rl_jobs u) < 8"
      using frugal t(1) room by (simp_all add: frugal_def glides_def)
    have less: "total_due (dw_today D) (rl_jobs u) \<le> total_due (dw_today D) (rl_jobs s)"
      using frugal t(1,2) by (simp add: frugal_def thrifty_def within_def)
    have bills: "list_all (bill_ok cap) (rl_jobs s)" "list_all (bill_ok cap) (rl_jobs u)" using w wu by (simp_all add: within_def)
    have signed: "within W cap (dw_today D) (snd (sign_job W D p k (rj_value j) u))" if k: "current_job W (dw_head D) j u = Some k" for k
    proof -
      obtain l where l: "l \<in> set (rl_jobs u)" "rj_id l = rj_id k" "rj_status l = CQueued" "rj_lane l = rj_lane j"
          "rj_value l = rj_value j \<or> rj_lane j \<noteq> None"
        using current_row [OF k u(2) next_job_row(1) [OF j] u(1)] by blast
      have "bill_ok cap l" "bill_ok cap j" using bills l(1) next_job_row(1) [OF j] by (simp_all add: list_all_iff)
      then have "rj_value l \<le> rj_value j" using l(4,5) by (auto simp add: bill_ok_def)
      moreover have "Some (pl_nonce p) \<notin> set (nonces (rl_jobs u))" unfolding u(3) using plan_nonce plan p ok by blast
      moreover have "rj_lane l \<noteq> None \<longrightarrow> rj_lane l \<notin> set (busy_lanes (rl_jobs u))"
        using next_job_row(3) [OF j] l(4) u(4) by auto
      moreover have "total_due (dw_today D) (rl_jobs u) + pl_cost p \<le> rw_dailyBudget W"
        using plan_within(2) [OF _ budget] plan p less by fastforce
      moreover have "pl_cost p = pl_gas p * pl_fee p + rj_value j" using plan_within(1) [OF _ budget] plan p by blast
      ultimately show ?thesis using wu honest(1) l(1-3) u(5) by (intro sign_job_within)
    qed
    then show ?thesis using wu by (auto simp add: run p u_def [symmetric] Let_def split: option.splits)
  qed
qed

definition step_days :: "relay_step list \<Rightarrow> int list" where
  "step_days es = concat (map (\<lambda>e. case e of Loop _ \<Rightarrow> [] | Dispatched D _ \<Rightarrow> [dw_today D]) es)"

lemma steps_within:
  assumes "0 < rw_dailyBudget W"
  shows "within W cap d s \<Longrightarrow> list_all (honest_step W cap) es \<Longrightarrow> sorted (d # step_days es) \<Longrightarrow>
    \<exists>d' \<in> set (d # step_days es). within W cap d' (fold (relay_step W) es s)"
proof (induction es arbitrary: d s)
  case (Cons e es)
  have step: "\<exists>d' \<in> set (d' # step_days es). within W cap d' (fold (relay_step W) (e # es) s)"
    if "within W cap d' (relay_step W e s)" "sorted (d' # step_days es)" for d'
    using Cons.IH [OF that(1)] Cons.prems(2) that(2) by simp
  show ?case
  proof (cases e)
    case (Loop ev)
    then have days: "step_days (e # es) = step_days es" by (simp add: step_days_def)
    have "frugal cap s (relay_event_step ev s)"
      using Cons.prems(1,2) Loop by (intro event_frugal) (simp_all add: honest_step_def within_def)
    then have "within W cap d (relay_step W e s)"
      using within_frugal [OF Cons.prems(1)] Loop by (simp add: relay_step_def)
    then show ?thesis using step Cons.prems(3) unfolding days by blast
  next
    case (Dispatched D evs)
    then have days: "step_days (e # es) = dw_today D # step_days es" by (simp add: step_days_def)
    have "within W cap (dw_today D) s" using Cons.prems(3) days by (intro within_later [OF Cons.prems(1)]) simp
    then have "within W cap (dw_today D) (relay_step W e s)"
      using Cons.prems(2) Dispatched dispatch_within [OF _ assms] by (simp add: relay_step_def honest_step_def)
    moreover have "sorted (dw_today D # step_days es)" using Cons.prems(3) unfolding days by simp
    ultimately show ?thesis using step unfolding days by (metis list.set_intros(2))
  qed
qed simp

text \<open>C35.  With a daily budget, when the receipts and the signer keep to the gas allowances, the sponsor never owes more than the
  budget for a day: what is signed and not settled, at its full reservation, with what was settled on that day.  The
  dispatches must come in the order of their days.\<close>

theorem daily_budget_kept:
  assumes "0 < rw_dailyBudget W" "list_all (honest_step W cap) es" "sorted (step_days es)" "list_all (\<lambda>t. t \<le> d) (step_days es)"
  shows "fst (readSponsorCosts d observed (map cost_view (rl_jobs (run_relay W es)))) \<le> rw_dailyBudget W"
proof -
  define d0 where "d0 = (case step_days es of [] \<Rightarrow> d | t # _ \<Rightarrow> t)"
  have days: "sorted (d0 # step_days es)" "\<forall>t \<in> set (d0 # step_days es). t \<le> d"
    using assms(3,4) by (auto simp add: d0_def list_all_iff split: list.splits)
  have "within W cap d0 empty_relay" using assms(1) by (simp add: within_def empty_relay_ok) (simp add: empty_relay_def total_due_def)
  then obtain d' where "d' \<in> set (d0 # step_days es)" "within W cap d' (run_relay W es)"
    using steps_within [OF assms(1)] assms(2) days(1) unfolding run_relay_def by blast
  then show ?thesis using days(2) within_later by (fastforce simp add: spent_total_due within_def)
qed

definition sample_call :: relay_call where
  "sample_call = \<lparr>rc_contract = ''arcade'', rc_function = ''register'', rc_args = [], rc_deployment = ''v4'', rc_roomApp = [], rc_roomAction = [],
     rc_roomFinance = []\<rparr>"

definition sample_relay :: relay_world where
  "sample_relay = \<lparr>rw_version = ''v4'', rw_chainId = 1, rw_maxQueue = 500, rw_priceCap = 10, rw_dailyBudget = 3000, rw_minimum = 0,
     rw_id = (\<lambda>c _ _ _. rc_function c), rw_retryId = (\<lambda>i _. i), rw_encode = (\<lambda>_. Inr ()), rw_decode = (\<lambda>_. (False, ''p'', \<lparr>gi_match = 1, gi_player = ''p'', gi_direction = 0, gi_nonce = 1, gi_observed = 1, gi_until = 9\<rparr>)), rw_hash = (\<lambda>raw. raw)\<rparr>"

definition sample_turn :: dispatch_world where
  "sample_turn = \<lparr>dw_sponsor = Inr \<lparr>sp_balance = 100000, sp_nextNonce = 7, sp_gasPrice = 1, sp_observedAt = 0\<rparr>, dw_today = 5, dw_now = 6,
     dw_head = 1, dw_estimate = (\<lambda>_. Inr 0), dw_sign = (\<lambda>_ _ _ gas fee. if gas * fee < 2000 then Inl ''unsigned'' else Inr ''raw'')\<rparr>"

definition sample_receipts :: "string \<Rightarrow> ((bool \<times> int \<times> int) \<times> int) option" where
  "sample_receipts h = (if h = ''raw'' then Some ((True, 1000, 1), 9) else None)"

definition sample_steps :: "relay_step list" where
  "sample_steps = [Loop (InsertJob ''a'' sample_call 500 1), Dispatched sample_turn [], Loop (BroadcastJobs 6 (\<lambda>_. True)),
     Loop (ObserveJobs 7 sample_receipts), Loop (InsertJob ''b'' sample_call 800 8), Dispatched sample_turn []]"

lemma sample_run: "map rj_status (rl_jobs (run_relay sample_relay sample_steps)) = [CSucceeded, CQueued]"
  by code_simp

theorem daily_budget_kept_witness:
  "fst (readSponsorCosts 5 0 (map cost_view (rl_jobs (run_relay sample_relay sample_steps)))) \<le> 3000
   \<and> map rj_status (rl_jobs (run_relay sample_relay sample_steps)) = [CSucceeded, CQueued]"
proof -
  have honest: "list_all (honest_step sample_relay (\<lambda>_. 2000)) sample_steps"
    by (auto simp add: sample_steps_def honest_step_def honest_event_def honest_signer_def honest_receipts_def sample_receipts_def
        sample_turn_def sample_relay_def split: if_splits)
  have days: "step_days sample_steps = [5, 5]" by (simp add: step_days_def sample_steps_def sample_turn_def)
  show ?thesis
    using daily_budget_kept [of sample_relay "\<lambda>_. 2000" sample_steps 5 0] honest sample_run by (simp add: days) (simp add: sample_relay_def)
qed

end
