(* ===== verification/Rooms_Finance.thy ===== *)
theory Rooms_Finance
  imports Io_Monad Js_Text Drand_Beacon Rpc_Gateway "HOL-Library.List_Lexorder" "HOL-Library.Char_ord"
begin

text \<open>
  \<^verbatim>\<open>relayer/src/rooms-finance.ts\<close>, \<^verbatim>\<open>rooms-finance-receipts.ts\<close> and \<^verbatim>\<open>rooms-finance-config.ts\<close>: the finance worker of one rooms
  deployment.  It signs the betting pressure that a round is played under, follows the events of the market, pays
  bettors out and serves the financial requests.  The tables are maps and lists keyed as the primary keys say; every
  read of a chain is a field of \<open>finance_answers\<close> and may fail; the hash of a checkpoint is an argument.
\<close>

record finance_manifest =
  fm_app :: string
  fm_adapter :: string
  fm_market :: string
  fm_vault :: string
  fm_signer :: string
  fm_startBlock :: int
  fm_chainId :: int
  fm_financeId :: "string option"
  fm_settlement :: "string option"
  fm_betting :: "string option"
  fm_rules :: "int option"

definition financeScope :: "finance_manifest \<Rightarrow> string" where
  "financeScope m = lower (fm_app m) @ (case fm_financeId m of None \<Rightarrow> [] | Some i \<Rightarrow> (if i = [] then [] else '':'' @ i))"

record pressure_row =
  pw_resumeAt :: int
  pw_block :: int
  pw_hash :: string
  pw_paidA :: int
  pw_paidB :: int
  pw_checkpoint :: string

record signed_pressure =
  sg_match :: int
  sg_rally :: int
  sg_resumeAt :: int
  sg_block :: int
  sg_paidA :: int
  sg_paidB :: int
  sg_checkpoint :: string
  sg_expires :: int

record live_pressure =
  lp_match :: int
  lp_epoch :: int
  lp_seed :: string
  lp_rally :: int
  lp_paidA :: int
  lp_paidB :: int
  lp_block :: int
  lp_checkpoint :: string
  lp_expires :: int

datatype market_event = BetPlaced int string | PayoutPaid string | PayoutDeferred string | OtherMarketEvent

record market_log =
  mk_block :: int
  mk_tx :: string
  mk_event :: market_event

record bettor =
  bt_id :: string
  bt_player :: string
  bt_settled :: bool

record finance_call =
  fc_contract :: string
  fc_function :: string
  fc_args :: "string list"
  fc_value :: int
  fc_action :: "string option"

record finance =
  fi_pressure :: "int \<times> int \<Rightarrow> pressure_row option"
  fi_live :: "int \<times> int \<times> int \<Rightarrow> string option"
  fi_bettors :: "bettor list"
  fi_cursor :: "int option"
  fi_credits :: "string \<Rightarrow> string option"
  fi_payments :: "string \<Rightarrow> (string \<times> string) option"
  fi_calls :: "finance_call list"
  fi_signed :: "signed_pressure list"
  fi_live_signed :: "live_pressure list"
  fi_at :: "int \<Rightarrow> int option"
  fi_delivered :: "int \<Rightarrow> (int \<times> int \<times> int) option"
  fi_error :: string
  fi_auditAt :: int
  fi_working :: bool

type_synonym 'a finance_io = "('a, finance) io"

text \<open>The state of a match as the engine reports it; \<^verbatim>\<open>rally\<close> is the counter of the sixth rules, when it is a safe integer.\<close>

record pressure_snapshot =
  mp_phase :: int
  mp_pause :: pause_state
  mp_rally :: "int option"

record finance_answers =
  fa_now :: int
  fa_head :: "int res"
  fa_enqueue :: "finance_call \<Rightarrow> string res"
  fa_causes :: "string \<Rightarrow> error_link list"
  fa_book :: "int \<Rightarrow> int res"
  fa_epoch :: "int \<Rightarrow> int res"
  fa_hash :: "int \<Rightarrow> string option res"
  fa_hashAgain :: "int \<Rightarrow> string option res"
  fa_paid :: "int \<Rightarrow> int \<Rightarrow> (int \<times> int) res"
  fa_ready :: "int \<Rightarrow> int \<Rightarrow> int \<Rightarrow> (bool \<times> int) res"
  fa_round :: "int \<Rightarrow> int \<Rightarrow> int res"
  fa_published :: "int \<Rightarrow> (int \<times> int \<times> pause_state option) res"
  fa_queued :: "(int \<times> int \<times> int) res"
  fa_applied :: "(int \<times> int \<times> int) res"
  fa_send :: "unit res"
  fa_race :: "pressure_row option"
  fa_liveRace :: "string option"
  fa_logs :: "int \<times> int \<Rightarrow> market_log list res"
  fa_commit :: "unit res"
  fa_session :: "int res"
  fa_result :: "int \<Rightarrow> int res"
  fa_resultHash :: "int \<Rightarrow> bool res"
  fa_position :: "int \<Rightarrow> string \<Rightarrow> (int \<times> bool) res"
  fa_payoutId :: "int \<Rightarrow> string \<Rightarrow> string res"
  fa_payout :: "string \<Rightarrow> (int \<times> int) res"
  fa_verify :: "string \<Rightarrow> string \<Rightarrow> string \<Rightarrow> bool"

record finance_world =
  fw_manifest :: finance_manifest
  fw_checkpoint :: "int \<Rightarrow> int \<Rightarrow> int \<Rightarrow> int \<Rightarrow> string \<Rightarrow> int \<Rightarrow> int \<Rightarrow> string"
  fw_liveCheckpoint :: "int \<Rightarrow> int \<Rightarrow> string \<Rightarrow> int \<Rightarrow> string \<Rightarrow> int \<Rightarrow> int \<Rightarrow> string"

definition realtime :: "finance_world \<Rightarrow> bool" where
  "realtime W \<longleftrightarrow> fm_betting (fw_manifest W) = Some ''realtime''"

definition events_rules :: "finance_world \<Rightarrow> bool" where
  "events_rules W \<longleftrightarrow> fm_rules (fw_manifest W) = Some 6"

definition early_settlement :: "finance_world \<Rightarrow> bool" where
  "early_settlement W \<longleftrightarrow> fm_settlement (fw_manifest W) = Some ''early-published-testnet''"

text \<open>A call for the journal of the sponsor; it is recorded when the journal took it.\<close>

definition enqueue_finance :: "finance_answers \<Rightarrow> string \<Rightarrow> string \<Rightarrow> string list \<Rightarrow> int \<Rightarrow> string option \<Rightarrow> string finance_io" where
  "enqueue_finance A contract func args amount action =
    (let c = \<lparr>fc_contract = contract, fc_function = func, fc_args = args, fc_value = amount, fc_action = action\<rparr> in
     ibind (lift (fa_enqueue A c)) (\<lambda>i. ibind (modify (\<lambda>s. s\<lparr>fi_calls := fi_calls s @ [c]\<rparr>)) (\<lambda>_. ret i)))"

definition open_book :: "finance_answers \<Rightarrow> int \<Rightarrow> unit finance_io" where
  "open_book A n = ibind (enqueue_finance A ''market'' ''open'' [decimal n, decimal 5000000000000000] 4000000000000000 None) (\<lambda>_. ret ())"

subsection \<open>The pressure of a round\<close>

definition rally_of :: "pause_state \<Rightarrow> int" where
  "rally_of z = pz_scoreA z + pz_scoreB z"

text \<open>A closed round is opened on the chain once the published snapshot is exactly this pause.\<close>

definition open_round :: "finance_answers \<Rightarrow> int \<Rightarrow> pause_state \<Rightarrow> unit finance_io" where
  "open_round A n z =
    ibind (lift (fa_round A n (rally_of z))) (\<lambda>round.
    if round \<noteq> 0 then ret ()
    else
      ibind (lift (fa_head A)) (\<lambda>head.
      ibind (lift (fa_published A head)) (\<lambda>published.
      if \<not> sameChaosPause n z (fst published) (fst (snd published)) (snd (snd published)) then ret ()
      else
        ibind (lift (fa_book A n)) (\<lambda>book.
        ibind (if book = 0 then open_book A n else ret ()) (\<lambda>_.
        catch
          (ibind (enqueue_finance A ''game'' ''openRound'' [decimal n] 0
            (Some (''round:'' @ decimal n @ '':'' @ decimal (rally_of z) @ '':'' @ decimal (pz_resumeAt z)))) (\<lambda>_. ret ()))
          (\<lambda>e. if chaosWindowMoved (fa_causes A e) then ret () else throw e))))))"

definition insert_pressure :: "int \<times> int \<Rightarrow> pressure_row \<Rightarrow> finance \<Rightarrow> finance" where
  "insert_pressure k r s = (if fi_pressure s k = None then s\<lparr>fi_pressure := (fi_pressure s)(k \<mapsto> r)\<rparr> else s)"

text \<open>The row that the round is frozen to.  Another instance of the worker may insert a row between the read and the insertion.\<close>

definition freeze_pressure :: "finance_world \<Rightarrow> finance_answers \<Rightarrow> int \<Rightarrow> pause_state \<Rightarrow> int \<Rightarrow> pressure_row finance_io" where
  "freeze_pressure W A n z source =
    (let rally = rally_of z; k = (n, rally) in
     ibind (lift (fa_hash A source)) (\<lambda>h.
     case h of None \<Rightarrow> throw ''Pressure block unavailable''
     | Some h \<Rightarrow>
       ibind (gets (\<lambda>s. fi_pressure s k)) (\<lambda>stored.
       case stored of
         Some r \<Rightarrow> if pw_hash r \<noteq> h \<or> pw_resumeAt r \<noteq> pz_resumeAt z
           then throw ''Pressure source changed; this round needs recovery before play resumes'' else ret r
       | None \<Rightarrow>
         ibind (lift (fa_paid A n source)) (\<lambda>paid.
         let checkpoint = fw_checkpoint W n rally (pz_resumeAt z) source h (fst paid) (snd paid) in
         ibind (lift (fa_hashAgain A source)) (\<lambda>after.
         ibind (iguard ''Pressure source reorganized'' (after = Some h)) (\<lambda>_.
         ibind (modify (case fa_race A of None \<Rightarrow> (\<lambda>s. s) | Some r \<Rightarrow> insert_pressure k r)) (\<lambda>_.
         ibind (modify (insert_pressure k \<lparr>pw_resumeAt = pz_resumeAt z, pw_block = source, pw_hash = h, pw_paidA = fst paid, pw_paidB = snd paid,
           pw_checkpoint = checkpoint\<rparr>)) (\<lambda>_.
         ibind (gets (\<lambda>s. the (fi_pressure s k))) (\<lambda>frozen.
         ibind (iguard ''Conflicting pressure checkpoint'' (pw_checkpoint frozen = checkpoint)) (\<lambda>_. ret frozen))))))))))"

definition sign_pressure :: "finance_answers \<Rightarrow> int \<Rightarrow> int \<Rightarrow> pressure_row \<Rightarrow> unit finance_io" where
  "sign_pressure A n rally r =
    ibind (modify (\<lambda>s. s\<lparr>fi_signed := fi_signed s @ [\<lparr>sg_match = n, sg_rally = rally, sg_resumeAt = pw_resumeAt r, sg_block = pw_block r,
      sg_paidA = pw_paidA r, sg_paidB = pw_paidB r, sg_checkpoint = pw_checkpoint r, sg_expires = fa_now A div 1000 + 25\<rparr>]\<rparr>)) (\<lambda>_.
    lift (fa_send A))"

definition submit_pressure :: "finance_world \<Rightarrow> finance_answers \<Rightarrow> int \<Rightarrow> pause_state \<Rightarrow> unit finance_io" where
  "submit_pressure W A n z =
    (let rally = rally_of z in
     ibind (lift (fa_ready A n rally (pz_resumeAt z))) (\<lambda>ready.
     if \<not> fst ready then open_round A n z
     else ibind (freeze_pressure W A n z (snd ready)) (\<lambda>r. sign_pressure A n rally r)))"

subsection \<open>The pressure of a match that never pauses\<close>

text \<open>What the engine has queued, or has applied after a submission: the two amounts and the source block.\<close>

definition live_rally :: "finance_world \<Rightarrow> pressure_snapshot \<Rightarrow> int option" where
  "live_rally W m = (if events_rules W then mp_rally m else Some (rally_of (mp_pause m)))"

definition valid_rally :: "finance_world \<Rightarrow> int option \<Rightarrow> bool" where
  "valid_rally W r \<longleftrightarrow> (case r of None \<Rightarrow> False | Some n \<Rightarrow> (if events_rules W then 1 else 0) \<le> n)"

text \<open>The market of a published match is opened, its book first.\<close>

definition open_live :: "finance_answers \<Rightarrow> int \<Rightarrow> pressure_snapshot \<Rightarrow> int \<Rightarrow> int \<Rightarrow> int \<Rightarrow> unit finance_io" where
  "open_live A n m source book epoch =
    ibind (lift (fa_published A source)) (\<lambda>published.
    case published of (_, phase, None) \<Rightarrow> throw ''unreadable snapshot''
    | (_, phase, Some z) \<Rightarrow>
      if phase \<noteq> 2 \<or> pz_mode z \<noteq> 1 \<or> pz_seed z \<noteq> pz_seed (mp_pause m) then ret ()
      else
        ibind (if book = 0 then open_book A n else ret ()) (\<lambda>_.
        if epoch = 0
        then ibind (enqueue_finance A ''game'' ''openRound'' [decimal n] 0 (Some (''live-market:'' @ decimal n))) (\<lambda>_. ret ())
        else ret ()))"

definition insert_live :: "int \<times> int \<times> int \<Rightarrow> string \<Rightarrow> finance \<Rightarrow> finance" where
  "insert_live k c s = (if fi_live s k = None then s\<lparr>fi_live := (fi_live s)(k \<mapsto> c)\<rparr> else s)"

definition sign_live :: "finance_world \<Rightarrow> finance_answers \<Rightarrow> int \<Rightarrow> pressure_snapshot \<Rightarrow> int \<Rightarrow> int \<Rightarrow> int \<times> int \<Rightarrow> string \<Rightarrow> unit finance_io" where
  "sign_live W A n m epoch source paid checkpoint =
    ibind (iguard ''Verified rally counter unavailable'' (valid_rally W (live_rally W m))) (\<lambda>_.
    ibind (modify (\<lambda>s. s\<lparr>fi_live_signed := fi_live_signed s @ [\<lparr>lp_match = n, lp_epoch = epoch, lp_seed = pz_seed (mp_pause m),
      lp_rally = the (live_rally W m), lp_paidA = fst paid, lp_paidB = snd paid, lp_block = source, lp_checkpoint = checkpoint,
      lp_expires = fa_now A div 1000 + 25\<rparr>]\<rparr>)) (\<lambda>_.
    ibind (lift (fa_send A)) (\<lambda>_.
    ibind (lift (fa_applied A)) (\<lambda>applied.
    modify (\<lambda>s. s\<lparr>fi_delivered := (fi_delivered s)(n \<mapsto> (fst applied, fst (snd applied), fa_now A)), fi_error := []\<rparr>)))))"

definition confirm_live :: "finance_world \<Rightarrow> finance_answers \<Rightarrow> int \<Rightarrow> pressure_snapshot \<Rightarrow> int \<Rightarrow> int \<Rightarrow> int \<times> int \<Rightarrow> string \<Rightarrow> unit finance_io" where
  "confirm_live W A n m epoch source paid h =
    ibind (lift (fa_queued A)) (\<lambda>queued.
    ibind (iguard ''Betting source changed; retaining the last authenticated paddle sizes''
      (fst queued \<le> fst paid \<and> fst (snd queued) \<le> snd paid)) (\<lambda>_.
    if fst paid = fst queued \<and> snd paid = fst (snd queued)
    then modify (\<lambda>s. s\<lparr>fi_delivered := (fi_delivered s)(n \<mapsto> (fst paid, snd paid, fa_now A))\<rparr>)
    else if source \<le> snd (snd queued) then ret ()
    else
      let checkpoint = fw_liveCheckpoint W n epoch (pz_seed (mp_pause m)) source h (fst paid) (snd paid); k = (n, epoch, source) in
      ibind (lift (fa_hashAgain A source)) (\<lambda>after.
      ibind (iguard ''Betting source reorganized'' (after = Some h)) (\<lambda>_.
      ibind (modify (case fa_liveRace A of None \<Rightarrow> (\<lambda>s. s) | Some c \<Rightarrow> insert_live k c)) (\<lambda>_.
      ibind (modify (insert_live k checkpoint)) (\<lambda>_.
      ibind (gets (\<lambda>s. fi_live s k)) (\<lambda>stored.
      ibind (iguard ''Conflicting confirmed betting source'' (stored = Some checkpoint)) (\<lambda>_.
      sign_live W A n m epoch source paid checkpoint))))))))"

definition settled_read :: "(int \<times> int \<times> int) option \<Rightarrow> int \<Rightarrow> int \<times> int \<Rightarrow> bool" where
  "settled_read cached now paid \<longleftrightarrow> (case cached of None \<Rightarrow> False | Some (a, b, at) \<Rightarrow> now - at < 10000 \<and> fst paid = a \<and> snd paid = b)"

definition continuousPressure :: "finance_world \<Rightarrow> finance_answers \<Rightarrow> int \<Rightarrow> pressure_snapshot \<Rightarrow> unit finance_io" where
  "continuousPressure W A n m =
    ibind (gets (\<lambda>s. fi_at s n)) (\<lambda>at.
    if fa_now A - (case at of None \<Rightarrow> 0 | Some t \<Rightarrow> t) < 2000 then ret ()
    else
      ibind (modify (\<lambda>s. s\<lparr>fi_at := (fi_at s)(n \<mapsto> fa_now A)\<rparr>)) (\<lambda>_.
      ibind (lift (fa_head A)) (\<lambda>head.
      let source = (if head > 2 then head - 2 else 0) in
      ibind (lift (fa_book A n)) (\<lambda>book.
      ibind (lift (fa_epoch A n)) (\<lambda>epoch.
      if book = 0 \<or> epoch = 0 then open_live A n m source book epoch
      else
        ibind (lift (fa_hash A source)) (\<lambda>h.
        ibind (lift (fa_paid A n source)) (\<lambda>paid.
        case h of None \<Rightarrow> throw ''Confirmed betting block unavailable''
        | Some h \<Rightarrow>
          ibind (gets (\<lambda>s. fi_delivered s n)) (\<lambda>cached.
          if settled_read cached (fa_now A) paid then ret () else confirm_live W A n m epoch source paid h))))))))"

definition pressure_of :: "finance_world \<Rightarrow> finance_answers \<Rightarrow> int \<Rightarrow> pressure_snapshot \<Rightarrow> bool \<Rightarrow> unit finance_io" where
  "pressure_of W A n m observer =
    (if mp_phase m \<noteq> 2 \<or> pz_mode (mp_pause m) \<noteq> 1 then ret ()
     else if realtime W then (if observer then continuousPressure W A n m else throw ''Realtime pressure observer required'')
     else if \<not> pz_awaitingServe (mp_pause m) then ret ()
     else submit_pressure W A n (mp_pause m))"

end
