(* ===== verification/Finance_Audit.thy ===== *)
theory Finance_Audit
  imports Rooms_Finance
begin

text \<open>
  \<^verbatim>\<open>relayer/src/rooms-finance.ts\<close>, continued: the audit that follows the events of the market and pays the bettors out,
  the financial requests of a player, the step before a renewal; and \<^verbatim>\<open>rooms-finance-receipts.ts\<close>.
\<close>

definition finance_start :: "finance_world \<Rightarrow> int" where
  "finance_start W = fm_startBlock (fw_manifest W)"

definition insert_bettor :: "string \<Rightarrow> string \<Rightarrow> finance \<Rightarrow> finance" where
  "insert_bettor i p s = (if list_ex (\<lambda>b. bt_id b = i \<and> bt_player b = p) (fi_bettors s) then s
     else s\<lparr>fi_bettors := fi_bettors s @ [\<lparr>bt_id = i, bt_player = p, bt_settled = False\<rparr>]\<rparr>)"

definition record_bet :: "market_log \<Rightarrow> finance \<Rightarrow> finance" where
  "record_bet l s = (case mk_event l of BetPlaced n p \<Rightarrow> insert_bettor (decimal n) (lower p) s | _ \<Rightarrow> s)"

definition record_log :: "market_log \<Rightarrow> finance \<Rightarrow> finance" where
  "record_log l s = (case mk_event l of
     BetPlaced n p \<Rightarrow> insert_bettor (decimal n) (lower p) s
   | PayoutPaid i \<Rightarrow> s\<lparr>fi_payments := (fi_payments s)(i \<mapsto> (''PayoutPaid'', mk_tx l))\<rparr>
   | PayoutDeferred i \<Rightarrow> s\<lparr>fi_payments := (fi_payments s)(i \<mapsto> (''PayoutDeferred'', mk_tx l))\<rparr>
   | OtherMarketEvent \<Rightarrow> s)"

definition settle_bettor :: "string \<Rightarrow> string \<Rightarrow> finance \<Rightarrow> finance" where
  "settle_bettor i p s = s\<lparr>fi_bettors := map (\<lambda>b. if bt_id b = i \<and> bt_player b = p then b\<lparr>bt_settled := True\<rparr> else b) (fi_bettors s)\<rparr>"

subsection \<open>Following the market\<close>

definition recent_from :: "finance_world \<Rightarrow> int \<Rightarrow> int" where
  "recent_from W safe = (if safe > 99 \<and> safe - 99 > finance_start W then safe - 99 else finance_start W)"

definition scan_recent :: "finance_world \<Rightarrow> finance_answers \<Rightarrow> int \<Rightarrow> int \<Rightarrow> unit finance_io" where
  "scan_recent W A from_block safe =
    catch
      (if safe \<ge> finance_start W \<and> from_block + 100 < safe
       then ibind (lift (fa_logs A (recent_from W safe, safe))) (\<lambda>logs. modify (fold record_bet logs))
       else ret ())
      (\<lambda>_. ret ())"

text \<open>A page of the history is stored in one transaction with the cursor, or not at all.\<close>

definition scan_history :: "finance_answers \<Rightarrow> int \<Rightarrow> int \<Rightarrow> unit finance_io" where
  "scan_history A from_block last_block =
    catch
      (if from_block \<le> last_block
       then ibind (lift (send_ranges (fa_logs A) (log_ranges from_block last_block 100))) (\<lambda>logs.
         ibind (lift (fa_commit A)) (\<lambda>_. modify (\<lambda>s. (fold record_log logs s)\<lparr>fi_cursor := Some last_block\<rparr>)))
       else ret ())
      (\<lambda>_. ret ())"

definition next_block :: "finance_world \<Rightarrow> finance \<Rightarrow> int" where
  "next_block W s = (case fi_cursor s of None \<Rightarrow> finance_start W | Some b \<Rightarrow> b + 1)"

definition page_end :: "int \<Rightarrow> int \<Rightarrow> int" where
  "page_end from_block safe = (if from_block + 499 < safe then from_block + 499 else safe)"

subsection \<open>Paying out\<close>

definition pending_ids :: "finance \<Rightarrow> string list" where
  "pending_ids s = take 20 (sort (remdups (map bt_id (filter (\<lambda>b. \<not> bt_settled b) (fi_bettors s)))))"

definition retry_action :: "string \<Rightarrow> int \<Rightarrow> string option" where
  "retry_action payout attempts = Some (''retry:'' @ payout @ '':'' @ decimal attempts)"

text \<open>A claimed position: its payout is retried while it is deferred and has attempts left.\<close>

definition follow_payout :: "finance_answers \<Rightarrow> string \<Rightarrow> string \<Rightarrow> unit finance_io" where
  "follow_payout A i p =
    ibind (lift (fa_payoutId A (digits_value i) p)) (\<lambda>payout.
    ibind (lift (fa_payout A payout)) (\<lambda>r.
    if fst r = 1 \<and> snd r < 6
    then ibind (enqueue_finance A ''market'' ''retryPayout'' [payout] 0 (retry_action payout (snd r))) (\<lambda>_. ret ())
    else modify (settle_bettor i p)))"

fun settle_bettors :: "finance_answers \<Rightarrow> string \<Rightarrow> string list \<Rightarrow> unit finance_io" where
  "settle_bettors A i [] = ret ()"
| "settle_bettors A i (p # ps) =
    ibind (lift (fa_position A (digits_value i) p)) (\<lambda>position.
    if fst position > 0 \<and> \<not> snd position
    then ibind (enqueue_finance A ''market'' ''claim'' [i, p] 0 None) (\<lambda>_. ret ())
    else
      ibind (if snd position then follow_payout A i p else ret ()) (\<lambda>_.
      ibind (if fst position = 0 then modify (settle_bettor i p) else ret ()) (\<lambda>_.
      settle_bettors A i ps)))"

definition finalize_match :: "finance_world \<Rightarrow> finance_answers \<Rightarrow> bool \<Rightarrow> string \<Rightarrow> unit finance_io" where
  "finalize_match W A canFinalize i =
    (if early_settlement W \<or> canFinalize
     then ibind (lift (fa_resultHash A (digits_value i))) (\<lambda>published.
       if published then catch (ibind (enqueue_finance A ''game'' ''finalizeResult'' [i] 0 None) (\<lambda>_. ret ())) (\<lambda>_. ret ()) else ret ())
     else ret ())"

definition settle_match :: "finance_world \<Rightarrow> finance_answers \<Rightarrow> bool \<Rightarrow> string \<Rightarrow> unit finance_io" where
  "settle_match W A canFinalize i =
    ibind (lift (fa_result A (digits_value i))) (\<lambda>status.
    if status < 3 then finalize_match W A canFinalize i
    else
      ibind (gets (\<lambda>s. map bt_player (filter (\<lambda>b. bt_id b = i \<and> \<not> bt_settled b) (fi_bettors s)))) (\<lambda>players.
      settle_bettors A i players))"

definition audit_pass :: "finance_world \<Rightarrow> finance_answers \<Rightarrow> unit finance_io" where
  "audit_pass W A =
    ibind (lift (fa_head A)) (\<lambda>head.
    let safe = (if head > 2 then head - 2 else 0) in
    ibind (gets (next_block W)) (\<lambda>from_block.
    ibind (scan_recent W A from_block safe) (\<lambda>_.
    ibind (scan_history A from_block (page_end from_block safe)) (\<lambda>_.
    ibind (gets pending_ids) (\<lambda>pending.
    ibind (if pending = [] then ret False else ibind (lift (fa_session A)) (\<lambda>status. ret (status = 0))) (\<lambda>canFinalize.
    ibind (each (settle_match W A canFinalize) pending) (\<lambda>_.
    modify (\<lambda>s. s\<lparr>fi_error := []\<rparr>))))))))"

definition audit_finance :: "finance_world \<Rightarrow> finance_answers \<Rightarrow> unit finance_io" where
  "audit_finance W A =
    ibind (gets (\<lambda>s. fi_working s \<or> fa_now A - fi_auditAt s < 5000)) (\<lambda>skip.
    if skip then ret ()
    else
      ibind (modify (\<lambda>s. s\<lparr>fi_working := True, fi_auditAt := fa_now A\<rparr>)) (\<lambda>_.
      finally_do (catch (audit_pass W A) (\<lambda>e. modify (\<lambda>s. s\<lparr>fi_error := e\<rparr>))) (\<lambda>s. s\<lparr>fi_working := False\<rparr>)))"

text \<open>A receipt that the journal of the sponsor has verified.\<close>

record receipt_log =
  rg_address :: string
  rg_event :: "market_event option"

definition recordRoomsFinanceReceipt :: "finance_manifest \<Rightarrow> bool \<Rightarrow> string \<Rightarrow> receipt_log list \<Rightarrow> finance \<Rightarrow> finance" where
  "recordRoomsFinanceReceipt m success tx logs s = (if \<not> success then s
     else fold (\<lambda>l s. if lower (rg_address l) \<noteq> lower (fm_market m) then s
       else case rg_event l of None \<Rightarrow> s | Some e \<Rightarrow> record_log \<lparr>mk_block = 0, mk_tx = tx, mk_event = e\<rparr> s) logs s)"

subsection \<open>Before a renewal\<close>

fun captured :: "finance_answers \<Rightarrow> string list \<Rightarrow> unit finance_io" where
  "captured A [] = ret ()"
| "captured A (i # is) =
    ibind (lift (fa_result A (digits_value i))) (\<lambda>status.
    if status \<ge> 3 then captured A is
    else ibind (enqueue_finance A ''game'' ''finalizeResult'' [i] 0 None) (\<lambda>_.
      throw ''Waiting for published betting results to be captured before renewal''))"

definition beforeRenew :: "finance_world \<Rightarrow> finance_answers \<Rightarrow> unit finance_io" where
  "beforeRenew W A =
    (if fm_settlement (fw_manifest W) = None then ret ()
     else ibind (gets (\<lambda>s. remdups (map bt_id (fi_bettors s)))) (captured A))"

subsection \<open>The requests of a player\<close>

datatype finance_request =
    BuyRequest string string string
  | WithdrawRequest string string "string list"
  | RetryRequest string
  | CreditRequest int string

definition finance_id :: "string \<Rightarrow> bool" where
  "finance_id i \<longleftrightarrow> i \<noteq> [] \<and> length i \<le> 78 \<and> list_all is_digit i"

definition finance_signature :: "string \<Rightarrow> bool" where
  "finance_signature x \<longleftrightarrow> length x = 132 \<and> take 2 x = ''0x'' \<and> list_all is_hex (drop 2 x)"

definition roomsCreditMessage :: "string \<Rightarrow> string \<Rightarrow> int \<Rightarrow> string" where
  "roomsCreditMessage player app expires = ''PONGIT rooms test credits'' @ [CHR 0x0A] @ ''Player: '' @ lower player @ [CHR 0x0A]
     @ ''Chain: 10143'' @ [CHR 0x0A] @ ''Game: '' @ lower app @ [CHR 0x0A] @ ''Expires: '' @ decimal expires"

definition credit_player :: "finance_world \<Rightarrow> finance_answers \<Rightarrow> string \<Rightarrow> int \<Rightarrow> string \<Rightarrow> string finance_io" where
  "credit_player W A player expires signature =
    ibind (iguard ''Invalid input'' (finance_signature signature)) (\<lambda>_.
    ibind (iguard ''Invalid credit signature'' (fa_now A \<le> expires * 1000 \<and> expires * 1000 \<le> fa_now A + 300000
      \<and> fa_verify A player (roomsCreditMessage player (fm_app (fw_manifest W)) expires) signature)) (\<lambda>_.
    ibind (gets (\<lambda>s. fi_credits s player)) (\<lambda>old.
    case old of Some job \<Rightarrow> ret job
    | None \<Rightarrow>
      ibind (enqueue_finance A ''vault'' ''depositFor'' [player] 20000000000000000 None) (\<lambda>job.
      ibind (modify (\<lambda>s. if fi_credits s player = None then s\<lparr>fi_credits := (fi_credits s)(player \<mapsto> job)\<rparr> else s)) (\<lambda>_. ret job)))))"

definition finance_route :: "finance_world \<Rightarrow> finance_answers \<Rightarrow> string \<Rightarrow> finance_request \<Rightarrow> string finance_io" where
  "finance_route W A player req = (case req of
     BuyRequest account i signature \<Rightarrow>
       ibind (iguard ''Bet account mismatch'' (lower account = player)) (\<lambda>_.
       ibind (iguard ''Invalid input'' (finance_id i)) (\<lambda>_.
       ibind (iguard ''Invalid input'' (finance_signature signature)) (\<lambda>_.
       ibind (enqueue_finance A ''market'' ''buy'' [account, i, signature] 0 None) (\<lambda>job.
       ibind (modify (insert_bettor i player)) (\<lambda>_. ret job)))))
   | WithdrawRequest account signature args \<Rightarrow>
       ibind (iguard ''Withdrawal account mismatch'' (lower account = player)) (\<lambda>_.
       ibind (iguard ''Invalid input'' (finance_signature signature)) (\<lambda>_.
       enqueue_finance A ''vault'' ''withdraw'' ([player] @ args @ [signature]) 0 None))
   | RetryRequest i \<Rightarrow>
       ibind (iguard ''Invalid input'' (finance_id i)) (\<lambda>_.
       ibind (lift (fa_payoutId A (digits_value i) player)) (\<lambda>payout.
       ibind (lift (fa_payout A payout)) (\<lambda>r.
       enqueue_finance A ''market'' ''retryPayout'' [payout] 0 (retry_action payout (snd r)))))
   | CreditRequest expires signature \<Rightarrow> credit_player W A player expires signature)"

subsection \<open>Every run\<close>

datatype finance_event =
    Pressure finance_answers int pressure_snapshot bool
  | Audited finance_answers
  | ReceiptSeen bool string "receipt_log list"
  | RenewalAsked finance_answers
  | FinanceAsked finance_answers string finance_request
  | WorkerRestarted

definition finance_step :: "finance_world \<Rightarrow> finance_event \<Rightarrow> finance \<Rightarrow> finance" where
  "finance_step W e s = (case e of
     Pressure A n m observer \<Rightarrow> snd (pressure_of W A n m observer s)
   | Audited A \<Rightarrow> snd (audit_finance W A s)
   | ReceiptSeen success tx logs \<Rightarrow> recordRoomsFinanceReceipt (fw_manifest W) success tx logs s
   | RenewalAsked A \<Rightarrow> snd (beforeRenew W A s)
   | FinanceAsked A player req \<Rightarrow> snd (finance_route W A player req s)
   | WorkerRestarted \<Rightarrow> s\<lparr>fi_at := (\<lambda>_. None), fi_delivered := (\<lambda>_. None), fi_error := [], fi_auditAt := 0, fi_working := False\<rparr>)"

definition empty_finance :: finance where
  "empty_finance = \<lparr>fi_pressure = (\<lambda>_. None), fi_live = (\<lambda>_. None), fi_bettors = [], fi_cursor = None, fi_credits = (\<lambda>_. None),
     fi_payments = (\<lambda>_. None), fi_calls = [], fi_signed = [], fi_live_signed = [], fi_at = (\<lambda>_. None), fi_delivered = (\<lambda>_. None),
     fi_error = [], fi_auditAt = 0, fi_working = False\<rparr>"

definition run_finance :: "finance_world \<Rightarrow> finance_event list \<Rightarrow> finance" where
  "run_finance W es = fold (finance_step W) es empty_finance"

end
