(* ===== verification/Finance_Safety.thy ===== *)
theory Finance_Safety
  imports Finance_Audit
begin

text \<open>
  What the finance worker guarantees: the pressure of a round is signed once and for all, no bet below the cursor is
  missed, and a payment is only asked for when the contracts say so.
\<close>

subsection \<open>Signed pressures\<close>

definition signed_row :: "(int \<times> int \<Rightarrow> pressure_row option) \<Rightarrow> signed_pressure \<Rightarrow> bool" where
  "signed_row rows p \<longleftrightarrow> (case rows (sg_match p, sg_rally p) of None \<Rightarrow> False
     | Some r \<Rightarrow> sg_resumeAt p = pw_resumeAt r \<and> sg_block p = pw_block r \<and> sg_paidA p = pw_paidA r \<and> sg_paidB p = pw_paidB r
         \<and> sg_checkpoint p = pw_checkpoint r)"

definition live_row :: "(int \<times> int \<times> int \<Rightarrow> string option) \<Rightarrow> live_pressure \<Rightarrow> bool" where
  "live_row rows p \<longleftrightarrow> rows (lp_match p, lp_epoch p, lp_block p) = Some (lp_checkpoint p)"

definition pressure_view :: "finance \<Rightarrow> _" where
  "pressure_view s = (fi_pressure s, fi_live s, fi_signed s, fi_live_signed s)"

definition pressure_kept where
  "pressure_kept v v' \<longleftrightarrow> (case v of (rows, live, _) \<Rightarrow> case v' of (rows', live', ps, qs) \<Rightarrow>
     rows \<subseteq>\<^sub>m rows' \<and> live \<subseteq>\<^sub>m live' \<and> list_all (signed_row rows') ps \<and> list_all (live_row live') qs)"

definition frozen_from :: "_ \<Rightarrow> finance \<Rightarrow> bool" where
  "frozen_from v s \<longleftrightarrow> pressure_kept v (pressure_view s)"

lemma frozen_same: "frozen_from v s \<Longrightarrow> pressure_view s' = pressure_view s \<Longrightarrow> frozen_from v s'"
  by (simp add: frozen_from_def)

lemma view_updates [simp]:
  "pressure_view (s\<lparr>fi_calls := a\<rparr>) = pressure_view s" "pressure_view (s\<lparr>fi_bettors := b\<rparr>) = pressure_view s"
  "pressure_view (s\<lparr>fi_cursor := c\<rparr>) = pressure_view s" "pressure_view (s\<lparr>fi_credits := d\<rparr>) = pressure_view s"
  "pressure_view (s\<lparr>fi_payments := e\<rparr>) = pressure_view s" "pressure_view (s\<lparr>fi_at := f\<rparr>) = pressure_view s"
  "pressure_view (s\<lparr>fi_delivered := g\<rparr>) = pressure_view s" "pressure_view (s\<lparr>fi_error := h\<rparr>) = pressure_view s"
  "pressure_view (s\<lparr>fi_auditAt := i\<rparr>) = pressure_view s" "pressure_view (s\<lparr>fi_working := j\<rparr>) = pressure_view s"
  by (simp_all add: pressure_view_def)

lemma view_steps [simp]:
  "pressure_view (insert_bettor i p s) = pressure_view s" "pressure_view (record_bet l s) = pressure_view s"
  "pressure_view (record_log l s) = pressure_view s" "pressure_view (settle_bettor i p s) = pressure_view s"
  by (simp_all add: insert_bettor_def record_bet_def record_log_def settle_bettor_def split: market_event.split)

lemma view_folds [simp]:
  "pressure_view (fold record_bet logs s) = pressure_view s" "pressure_view (fold record_log logs s) = pressure_view s"
  by (induction logs arbitrary: s) simp_all

lemma signed_row_mono: "signed_row rows p \<Longrightarrow> rows \<subseteq>\<^sub>m rows' \<Longrightarrow> signed_row rows' p"
  by (auto simp add: signed_row_def map_le_def dom_def split: option.splits)

lemma live_row_mono: "live_row rows p \<Longrightarrow> rows \<subseteq>\<^sub>m rows' \<Longrightarrow> live_row rows' p"
  by (auto simp add: live_row_def map_le_def dom_def)

lemma frozen_insert_pressure: "frozen_from v s \<Longrightarrow> frozen_from v (insert_pressure k r s)"
proof (cases "fi_pressure s k")
  case None
  assume v: "frozen_from v s"
  have le: "fi_pressure s \<subseteq>\<^sub>m (fi_pressure s)(k \<mapsto> r)" using None by (auto simp add: map_le_def)
  obtain rows live rest where "v = (rows, live, rest)" by (metis prod.collapse)
  then show ?thesis using v le None map_le_trans [of rows "fi_pressure s"] signed_row_mono [OF _ le]
    by (auto simp add: frozen_from_def pressure_kept_def pressure_view_def insert_pressure_def list_all_iff)
qed (simp add: insert_pressure_def)

lemma frozen_insert_live: "frozen_from v s \<Longrightarrow> frozen_from v (insert_live k c s)"
proof (cases "fi_live s k")
  case None
  assume v: "frozen_from v s"
  have le: "fi_live s \<subseteq>\<^sub>m (fi_live s)(k \<mapsto> c)" using None by (auto simp add: map_le_def)
  obtain rows live rest where "v = (rows, live, rest)" by (metis prod.collapse)
  then show ?thesis using v le None map_le_trans [of live "fi_live s"] live_row_mono [OF _ le]
    by (auto simp add: frozen_from_def pressure_kept_def pressure_view_def insert_live_def list_all_iff)
qed (simp add: insert_live_def)

lemma enqueue_finance_frozen: "keeps (frozen_from v) (enqueue_finance A contract func args amount action)"
  unfolding enqueue_finance_def Let_def by (intro triple_rules) (auto intro: frozen_same)

lemma open_book_frozen: "keeps (frozen_from v) (open_book A n)"
  unfolding open_book_def by (intro triple_rules enqueue_finance_frozen)

lemma open_round_frozen: "keeps (frozen_from v) (open_round A n z)"
  unfolding open_round_def by (intro triple_rules enqueue_finance_frozen open_book_frozen)

lemma open_live_frozen: "keeps (frozen_from v) (open_live A n m source book epoch)"
  unfolding open_live_def
  by (intro triple_rules, auto split: prod.split option.split intro!: triple_rules enqueue_finance_frozen open_book_frozen)

text \<open>The row that comes back is the stored one.\<close>

lemma inserted_row: "fi_pressure (insert_pressure k r s) k = Some (the (fi_pressure (insert_pressure k r s) k))"
  by (auto simp add: insert_pressure_def split: option.split)

lemma freeze_pressure_stored:
  "triple (frozen_from v) (freeze_pressure W A n z source)
     (\<lambda>r s. frozen_from v s \<and> fi_pressure s (n, rally_of z) = Some r) (frozen_from v)"
  unfolding triple_def
proof (intro allI impI)
  fix s assume v: "frozen_from v s"
  let ?k = "(n, rally_of z)"
  define t where "t = (case fa_race A of None \<Rightarrow> s | Some r \<Rightarrow> insert_pressure ?k r s)"
  have t: "(case fa_race A of None \<Rightarrow> (\<lambda>s. s) | Some r \<Rightarrow> insert_pressure ?k r) s = t" by (simp add: t_def split: option.split)
  have frz: "frozen_from v t" using v by (auto simp add: t_def split: option.split intro: frozen_insert_pressure)
  show "case freeze_pressure W A n z source s of (Inl e, s') \<Rightarrow> frozen_from v s'
      | (Inr r, s') \<Rightarrow> frozen_from v s' \<and> fi_pressure s' ?k = Some r"
    using v frozen_insert_pressure [OF frz] inserted_row [of ?k _ t]
    by (cases "fa_hash A source"; cases "fi_pressure s ?k"; cases "fa_paid A n source"; cases "fa_hashAgain A source")
      (auto simp add: freeze_pressure_def ibind_def io_simps Let_def t split: option.split)
qed

lemma sign_pressure_frozen:
  "triple (\<lambda>s. frozen_from v s \<and> fi_pressure s (n, rally) = Some r) (sign_pressure A n rally r) (\<lambda>_. frozen_from v) (frozen_from v)"
  unfolding sign_pressure_def
  by (rule triple_bind [where R = "\<lambda>_. frozen_from v"])
    (auto intro!: triple_rules simp add: frozen_from_def pressure_kept_def pressure_view_def signed_row_def split: prod.splits)

lemma submit_pressure_frozen: "keeps (frozen_from v) (submit_pressure W A n z)"
proof -
  have "keeps (frozen_from v) (ibind (freeze_pressure W A n z source) (\<lambda>r. sign_pressure A n (rally_of z) r))" for source
    unfolding keeps_def by (rule triple_bind [OF freeze_pressure_stored sign_pressure_frozen])
  then show ?thesis unfolding submit_pressure_def Let_def
    by (intro keeps_bind [OF keeps_basic(3)] keeps_if open_round_frozen)
qed

lemma sign_live_frozen:
  "triple (\<lambda>s. frozen_from v s \<and> fi_live s (n, epoch, source) = Some c) (sign_live W A n m epoch source paid c)
     (\<lambda>_. frozen_from v) (frozen_from v)"
proof -
  have end_frozen: "triple (frozen_from v) (ibind (lift (fa_send A)) (\<lambda>_. ibind (lift (fa_applied A)) (\<lambda>applied.
      modify (\<lambda>s. s\<lparr>fi_delivered := (fi_delivered s)(n \<mapsto> (fst applied, fst (snd applied), fa_now A)), fi_error := []\<rparr>))))
      (\<lambda>_. frozen_from v) (frozen_from v)"
    unfolding keeps_def [symmetric] by (intro triple_rules) (erule frozen_same, simp add: pressure_view_def)
  show ?thesis unfolding sign_live_def
    by (rule triple_bind [where R = "\<lambda>_ s. frozen_from v s \<and> fi_live s (n, epoch, source) = Some c"], intro triple_rules, simp_all,
        rule triple_bind [OF _ end_frozen])
      (auto intro!: triple_rules simp add: frozen_from_def pressure_kept_def pressure_view_def live_row_def split: prod.splits)
qed

text \<open>A submission is signed over the stored checkpoint.\<close>

lemma store_live_frozen:
  "triple (frozen_from v)
     (ibind (modify (case fa_liveRace A of None \<Rightarrow> (\<lambda>s. s) | Some c \<Rightarrow> insert_live k c)) (\<lambda>_.
      ibind (modify (insert_live k checkpoint)) (\<lambda>_.
      ibind (gets (\<lambda>s. fi_live s k)) (\<lambda>stored. iguard e (stored = Some checkpoint)))))
     (\<lambda>_ s. frozen_from v s \<and> fi_live s k = Some checkpoint) (frozen_from v)"
  unfolding triple_def
proof (intro allI impI)
  fix s assume v: "frozen_from v s"
  define t where "t = (case fa_liveRace A of None \<Rightarrow> s | Some c \<Rightarrow> insert_live k c s)"
  have t: "(case fa_liveRace A of None \<Rightarrow> (\<lambda>s. s) | Some c \<Rightarrow> insert_live k c) s = t" by (simp add: t_def split: option.split)
  have "frozen_from v t" using v by (auto simp add: t_def split: option.split intro: frozen_insert_live)
  then have "frozen_from v (insert_live k checkpoint t)" by (rule frozen_insert_live)
  then show "case ibind (modify (case fa_liveRace A of None \<Rightarrow> (\<lambda>s. s) | Some c \<Rightarrow> insert_live k c)) (\<lambda>_.
      ibind (modify (insert_live k checkpoint)) (\<lambda>_.
      ibind (gets (\<lambda>s. fi_live s k)) (\<lambda>stored. iguard e (stored = Some checkpoint)))) s of
        (Inl e, s') \<Rightarrow> frozen_from v s' | (Inr r, s') \<Rightarrow> frozen_from v s' \<and> fi_live s' k = Some checkpoint"
    by (simp add: ibind_def io_simps t)
qed

lemma ibind_assoc: "ibind (ibind m f) g = ibind m (\<lambda>x. ibind (f x) g)"
  by (auto simp add: fun_eq_iff ibind_def split: prod.split sum.split)

lemma confirm_live_frozen: "keeps (frozen_from v) (confirm_live W A n m epoch source paid h)"
proof -
  have stored: "keeps (frozen_from v)
     (ibind (modify (case fa_liveRace A of None \<Rightarrow> (\<lambda>s. s) | Some c \<Rightarrow> insert_live (n, epoch, source) c)) (\<lambda>_.
      ibind (modify (insert_live (n, epoch, source) checkpoint)) (\<lambda>_.
      ibind (gets (\<lambda>s. fi_live s (n, epoch, source))) (\<lambda>stored.
      ibind (iguard e (stored = Some checkpoint)) (\<lambda>_. sign_live W A n m epoch source paid checkpoint)))))" for checkpoint e
    using triple_bind [OF store_live_frozen sign_live_frozen] unfolding keeps_def by (simp add: ibind_assoc)
  show ?thesis unfolding confirm_live_def Let_def
    by (intro keeps_bind [OF keeps_basic(3)] keeps_bind [OF keeps_basic(4)] keeps_if stored triple_rules) (auto intro: frozen_same)
qed

lemma continuousPressure_frozen: "keeps (frozen_from v) (continuousPressure W A n m)"
  unfolding continuousPressure_def Let_def
  by (intro triple_rules confirm_live_frozen open_live_frozen) (auto intro: frozen_same)

lemma pressure_of_frozen: "keeps (frozen_from v) (pressure_of W A n m observer)"
  unfolding pressure_of_def by (intro triple_rules continuousPressure_frozen submit_pressure_frozen)

lemma follow_payout_frozen: "keeps (frozen_from v) (follow_payout A i p)"
  unfolding follow_payout_def by (intro triple_rules enqueue_finance_frozen) (auto intro: frozen_same)

lemma settle_bettors_frozen: "keeps (frozen_from v) (settle_bettors A i ps)"
  by (induction ps) (auto intro!: triple_rules enqueue_finance_frozen follow_payout_frozen intro: frozen_same)

lemma settle_match_frozen: "keeps (frozen_from v) (settle_match W A canFinalize i)"
  unfolding settle_match_def finalize_match_def by (intro triple_rules enqueue_finance_frozen settle_bettors_frozen)

lemma scans_frozen: "keeps (frozen_from v) (scan_recent W A a b)" "keeps (frozen_from v) (scan_history A a b)"
  unfolding scan_recent_def scan_history_def by (intro triple_rules; auto intro: frozen_same)+

lemma keeps_finally: "keeps I m \<Longrightarrow> (\<And>s. I s \<Longrightarrow> I (f s)) \<Longrightarrow> keeps I (finally_do m f)"
  by (fastforce simp add: keeps_def triple_def finally_do_def split: prod.splits sum.splits)

lemma audit_frozen: "keeps (frozen_from v) (audit_finance W A)"
  unfolding audit_finance_def audit_pass_def Let_def
  by (intro triple_rules keeps_finally scans_frozen settle_match_frozen) (auto intro: frozen_same simp add: pressure_view_def)

lemma renewal_frozen: "keeps (frozen_from v) (beforeRenew W A)"
proof -
  have "keeps (frozen_from v) (captured A is)" for "is"
    by (induction "is") (auto intro!: triple_rules enqueue_finance_frozen)
  then show ?thesis unfolding beforeRenew_def by (intro triple_rules)
qed

lemma finance_route_frozen: "keeps (frozen_from v) (finance_route W A player req)"
proof -
  have "keeps (frozen_from v) (credit_player W A player expires signature)" for expires signature
    unfolding credit_player_def by (intro triple_rules enqueue_finance_frozen) (auto intro: frozen_same)
  then show ?thesis unfolding finance_route_def
    by (cases req) (auto intro!: triple_rules enqueue_finance_frozen intro: frozen_same)
qed

lemma receipt_view [simp]: "pressure_view (recordRoomsFinanceReceipt m success tx logs s) = pressure_view s"
proof -
  have "pressure_view (fold (\<lambda>l s. if lower (rg_address l) \<noteq> lower (fm_market m) then s
       else case rg_event l of None \<Rightarrow> s | Some e \<Rightarrow> record_log \<lparr>mk_block = 0, mk_tx = tx, mk_event = e\<rparr> s) logs s) = pressure_view s"
    by (induction logs arbitrary: s) (simp_all split: option.split)
  then show ?thesis by (simp add: recordRoomsFinanceReceipt_def)
qed

lemma keeps_snd: "keeps I m \<Longrightarrow> I s \<Longrightarrow> I (snd (m s))"
  using keepsD [of I m s] by (metis prod.collapse)

lemmas finance_frozen = pressure_of_frozen audit_frozen renewal_frozen finance_route_frozen

lemma finance_step_frozen: "frozen_from v s \<Longrightarrow> frozen_from v (finance_step W e s)"
  by (cases e) (auto simp add: finance_step_def intro: keeps_snd finance_frozen frozen_same)

lemma finance_steps_frozen: "frozen_from v s \<Longrightarrow> frozen_from v (fold (finance_step W) es s)"
  by (induction es arbitrary: s) (simp_all add: finance_step_frozen)

text \<open>C36.  In every run, whatever the chains answer and whatever other instances of the worker insert: every signed pressure of a
  round agrees with the stored row of the round, every signed pressure of a match that never pauses carries the stored
  checkpoint of its block, and no stored row or checkpoint ever changes.  So no two signed messages of one round contradict each other.\<close>

theorem pressure_frozen:
  "(let s = run_finance W es; s' = run_finance W (es @ es') in
     list_all (signed_row (fi_pressure s)) (fi_signed s) \<and> list_all (live_row (fi_live s)) (fi_live_signed s)
     \<and> fi_pressure s \<subseteq>\<^sub>m fi_pressure s' \<and> fi_live s \<subseteq>\<^sub>m fi_live s')"
proof -
  have "frozen_from (pressure_view empty_finance) empty_finance"
    by (simp add: frozen_from_def pressure_kept_def pressure_view_def empty_finance_def map_le_def)
  then have "frozen_from (pressure_view empty_finance) (run_finance W es)"
    unfolding run_finance_def by (rule finance_steps_frozen)
  then have now: "list_all (signed_row (fi_pressure (run_finance W es))) (fi_signed (run_finance W es))"
      "list_all (live_row (fi_live (run_finance W es))) (fi_live_signed (run_finance W es))"
    by (simp_all add: frozen_from_def pressure_kept_def pressure_view_def split: prod.splits)
  then have "frozen_from (pressure_view (run_finance W es)) (run_finance W es)"
    by (simp add: frozen_from_def pressure_kept_def pressure_view_def)
  then have "frozen_from (pressure_view (run_finance W es)) (run_finance W (es @ es'))"
    unfolding run_finance_def fold_append comp_def by (rule finance_steps_frozen)
  then show ?thesis using now by (simp add: frozen_from_def pressure_kept_def pressure_view_def Let_def)
qed

subsection \<open>No bet is missed\<close>

definition bet_known :: "finance \<Rightarrow> market_log \<Rightarrow> bool" where
  "bet_known s l \<longleftrightarrow> (case mk_event l of BetPlaced n p \<Rightarrow> list_ex (\<lambda>b. bt_id b = decimal n \<and> bt_player b = lower p) (fi_bettors s) | _ \<Rightarrow> True)"

text \<open>The bets of the market up to the cursor.\<close>

definition bets_known :: "finance_world \<Rightarrow> market_log list \<Rightarrow> finance \<Rightarrow> bool" where
  "bets_known W chain s \<longleftrightarrow> (case fi_cursor s of None \<Rightarrow> True
     | Some c \<Rightarrow> list_all (\<lambda>l. finance_start W \<le> mk_block l \<and> mk_block l \<le> c \<longrightarrow> bet_known s l) chain)"

text \<open>A node that answers a range with all the logs of its blocks, or not at all.\<close>

definition complete_logs :: "market_log list \<Rightarrow> finance_answers \<Rightarrow> bool" where
  "complete_logs chain A \<longleftrightarrow> (\<forall>r logs. fa_logs A r = Inr logs \<longrightarrow> (\<forall>l \<in> set chain. covers r (mk_block l) \<longrightarrow> l \<in> set logs))"

definition more_bettors :: "finance \<Rightarrow> finance \<Rightarrow> bool" where
  "more_bettors s s' \<longleftrightarrow> fi_cursor s' = fi_cursor s
     \<and> (\<forall>i p. list_ex (\<lambda>b. bt_id b = i \<and> bt_player b = p) (fi_bettors s) \<longrightarrow> list_ex (\<lambda>b. bt_id b = i \<and> bt_player b = p) (fi_bettors s'))"

lemma more_refl [simp]: "more_bettors s s"
  by (simp add: more_bettors_def)

lemma more_trans: "more_bettors s t \<Longrightarrow> more_bettors t u \<Longrightarrow> more_bettors s u"
  by (simp add: more_bettors_def)

lemma more_same: "fi_bettors s' = fi_bettors s \<Longrightarrow> fi_cursor s' = fi_cursor s \<Longrightarrow> more_bettors s s'"
  by (simp add: more_bettors_def)

lemma more_insert: "more_bettors s (insert_bettor i p s)"
  by (simp add: more_bettors_def insert_bettor_def list_ex_iff)

lemma more_settle: "more_bettors s (settle_bettor i p s)"
proof -
  have "list_ex (\<lambda>b. bt_id b = j \<and> bt_player b = q) (map (\<lambda>b. if bt_id b = i \<and> bt_player b = p then b\<lparr>bt_settled := True\<rparr> else b) bs)
      = list_ex (\<lambda>b. bt_id b = j \<and> bt_player b = q) bs" for j q and bs :: "bettor list"
    by (induction bs) simp_all
  then show ?thesis by (simp add: more_bettors_def settle_bettor_def)
qed

lemma more_records: "more_bettors s (record_log l s)" "more_bettors s (record_bet l s)"
  by (auto simp add: record_log_def record_bet_def more_insert more_same split: market_event.split)

lemma more_fold: "(\<And>l s. more_bettors s (f l s)) \<Longrightarrow> more_bettors s (fold f logs s)"
  by (induction logs arbitrary: s) (auto intro: more_trans)

lemma known_more: "bet_known s l \<Longrightarrow> more_bettors s s' \<Longrightarrow> bet_known s' l"
  by (auto simp add: bet_known_def more_bettors_def split: market_event.splits)

lemma bets_more: "bets_known W chain s \<Longrightarrow> more_bettors s s' \<Longrightarrow> bets_known W chain s'"
  using known_more by (fastforce simp add: bets_known_def more_bettors_def list_all_iff split: option.splits)

lemma recorded: "l \<in> set logs \<Longrightarrow> bet_known (fold record_log logs s) l"
proof (induction logs arbitrary: s)
  case (Cons k logs)
  show ?case
  proof (cases "l \<in> set logs")
    case False
    then have "bet_known (record_log k s) l"
      using Cons.prems by (auto simp add: bet_known_def record_log_def insert_bettor_def split: market_event.split)
    then show ?thesis using known_more more_fold more_records(1) by fastforce
  qed (simp add: Cons.IH)
qed simp

lemma sent_ranges: "send_ranges send rs = Inr logs \<Longrightarrow> r \<in> set rs \<Longrightarrow> \<exists>part. send r = Inr part \<and> set part \<subseteq> set logs"
proof (induction rs arbitrary: logs)
  case (Cons q rs)
  obtain x rest where x: "send q = Inr x" "send_ranges send rs = Inr rest" "logs = x @ rest"
    using Cons.prems(1) by (auto simp add: res_simps)
  show ?case
  proof (cases "r = q")
    case False
    then obtain part where "send r = Inr part" "set part \<subseteq> set rest" using Cons.IH [OF x(2)] Cons.prems(2) by auto
    then show ?thesis using x(3) by auto
  qed (simp add: x)
qed simp

lemma ranges_reach: "low \<le> b \<Longrightarrow> b \<le> high \<Longrightarrow> \<exists>r \<in> set (log_ranges low high 100). covers r b"
proof -
  assume "low \<le> b" "b \<le> high"
  then have "length (filter (\<lambda>r. covers r b) (log_ranges low high 100)) = 1" using log_ranges_cover(1) [of 100 b low high] by simp
  then have "filter (\<lambda>r. covers r b) (log_ranges low high 100) \<noteq> []" by (metis list.size(3) zero_neq_one)
  then show ?thesis by (auto simp add: filter_empty_conv)
qed

lemma bet_known_cursor [simp]: "bet_known (s\<lparr>fi_cursor := c\<rparr>) l = bet_known s l"
  by (simp add: bet_known_def split: market_event.split)

lemma scan_history_idle:
  assumes "from_block \<le> last_block \<longrightarrow> fa_commit A \<noteq> Inr () \<or> \<not> is_ok (send_ranges (fa_logs A) (log_ranges from_block last_block 100))"
  shows "snd (scan_history A from_block last_block s) = s"
proof (cases "from_block \<le> last_block")
  case True
  then show ?thesis using assms
    by (cases "fa_commit A"; cases "send_ranges (fa_logs A) (log_ranges from_block last_block 100)")
      (simp_all add: scan_history_def catch_def ibind_def io_simps)
qed (simp add: scan_history_def catch_def io_simps)

lemma scan_history_known:
  assumes "complete_logs chain A" "bets_known W chain s" "from_block = next_block W s"
  shows "bets_known W chain (snd (scan_history A from_block last_block s))"
proof (cases "from_block \<le> last_block \<and> fa_commit A = Inr ()")
  case True
  show ?thesis
  proof (cases "send_ranges (fa_logs A) (log_ranges from_block last_block 100)")
    case (Inr logs)
    let ?t = "fold record_log logs s"
    have run: "snd (scan_history A from_block last_block s) = ?t\<lparr>fi_cursor := Some last_block\<rparr>"
      using True Inr by (simp add: scan_history_def catch_def ibind_def io_simps)
    have more: "more_bettors s ?t" by (rule more_fold) (rule more_records)
    have "bet_known ?t l" if l: "l \<in> set chain" "finance_start W \<le> mk_block l" "mk_block l \<le> last_block" for l
    proof (cases "from_block \<le> mk_block l")
      case True
      then obtain r where "r \<in> set (log_ranges from_block last_block 100)" "covers r (mk_block l)" using ranges_reach l(3) by blast
      then have "l \<in> set logs" using sent_ranges [OF Inr] assms(1) l(1) unfolding complete_logs_def by blast
      then show ?thesis by (rule recorded)
    next
      case False
      then have "bet_known s l" using assms(2,3) l by (auto simp add: bets_known_def next_block_def list_all_iff split: option.splits)
      then show ?thesis using more by (rule known_more)
    qed
    then have "list_all (\<lambda>l. finance_start W \<le> mk_block l \<and> mk_block l \<le> last_block \<longrightarrow> bet_known ?t l) chain" by (simp add: list_all_iff)
    then show ?thesis unfolding run by (simp add: bets_known_def)
  qed (use assms(2) in \<open>simp add: scan_history_idle\<close>)
qed (use assms(2) in \<open>simp add: scan_history_idle\<close>)

text \<open>Every other step only adds bettors.\<close>

lemma keeps_more: "(\<And>s. more_bettors s (f s)) \<Longrightarrow> keeps (bets_known W chain) (modify f)"
  by (rule keeps_modify) (erule bets_more, simp)

lemma settle_bettor_known: "keeps (bets_known W chain) (modify (settle_bettor i p))"
  by (rule keeps_more) (rule more_settle)

lemma insert_bettor_known: "keeps (bets_known W chain) (modify (insert_bettor i p))"
  by (rule keeps_more) (rule more_insert)

lemmas keeps_plain = keeps_bind keeps_if keeps_option keeps_catch keeps_basic

lemma enqueue_finance_known: "keeps (bets_known W chain) (enqueue_finance A contract func args amount action)"
  unfolding enqueue_finance_def Let_def by (intro keeps_plain keeps_more) (simp_all add: more_same)

lemma follow_payout_known: "keeps (bets_known W chain) (follow_payout A i p)"
  unfolding follow_payout_def by (intro keeps_plain enqueue_finance_known settle_bettor_known)

lemma settle_bettors_known: "keeps (bets_known W chain) (settle_bettors A i ps)"
proof (induction ps)
  case (Cons p ps)
  then show ?case unfolding settle_bettors.simps
    by (intro keeps_plain enqueue_finance_known follow_payout_known settle_bettor_known)
qed (simp add: keeps_basic)

lemma settle_match_known: "keeps (bets_known W chain) (settle_match V A canFinalize i)"
  unfolding settle_match_def finalize_match_def by (intro keeps_plain enqueue_finance_known settle_bettors_known)

lemma scan_recent_more: "more_bettors s (snd (scan_recent W A a b s))"
  by (cases "fa_logs A (recent_from W b, b)")
    (auto simp add: scan_recent_def catch_def ibind_def io_simps intro: more_fold more_records)

lemma scans_known:
  assumes "complete_logs chain A" and that: "\<And>x. keeps (bets_known W chain) (f x)"
  shows "keeps (bets_known W chain)
     (ibind (gets (next_block W)) (\<lambda>from_block. ibind (scan_recent W A from_block safe) (\<lambda>_. ibind (scan_history A from_block (page_end from_block safe)) f)))"
proof -
  have recent: "triple (\<lambda>s. bets_known W chain s \<and> b = next_block W s) (scan_recent W A b safe)
      (\<lambda>_ s. bets_known W chain s \<and> b = next_block W s) (bets_known W chain)" for b
  proof (rule tripleI)
    fix s s' x assume s: "bets_known W chain s \<and> b = next_block W s" and run: "scan_recent W A b safe s = (Inr x, s')"
    have "more_bettors s s'" using scan_recent_more [of s W A b safe] by (simp add: run)
    then show "bets_known W chain s' \<and> b = next_block W s'" using s bets_more by (auto simp add: next_block_def more_bettors_def)
  next
    fix s s' e assume s: "bets_known W chain s \<and> b = next_block W s" and run: "scan_recent W A b safe s = (Inl e, s')"
    have "more_bettors s s'" using scan_recent_more [of s W A b safe] by (simp add: run)
    then show "bets_known W chain s'" using s bets_more by blast
  qed
  have history: "triple (\<lambda>s. bets_known W chain s \<and> b = next_block W s) (scan_history A b c) (\<lambda>_. bets_known W chain) (bets_known W chain)" for b c
    by (rule tripleI) (metis scan_history_known [OF assms(1)] snd_conv)+
  have rest: "triple (bets_known W chain) (f x) (\<lambda>_. bets_known W chain) (bets_known W chain)" for x
    using that by (simp add: keeps_def)
  show ?thesis unfolding keeps_def
    by (rule triple_bind [where R = "\<lambda>b s. bets_known W chain s \<and> b = next_block W s"], simp add: triple_gets,
        rule triple_bind [OF recent], rule triple_bind [OF history rest])
qed

lemma audit_known: "complete_logs chain A \<Longrightarrow> keeps (bets_known W chain) (audit_finance W A)"
  unfolding audit_finance_def audit_pass_def Let_def
  by (intro scans_known keeps_finally keeps_plain keeps_each settle_match_known keeps_more) (auto simp add: more_same elim: bets_more)

lemma renewal_known: "keeps (bets_known W chain) (beforeRenew V A)"
proof -
  have "keeps (bets_known W chain) (captured A is)" for "is"
    by (induction "is") (auto intro!: triple_rules enqueue_finance_known)
  then show ?thesis unfolding beforeRenew_def by (intro triple_rules)
qed

lemma finance_route_known: "keeps (bets_known W chain) (finance_route V A player req)"
proof -
  have "keeps (bets_known W chain) (credit_player V A player expires signature)" for expires signature
    unfolding credit_player_def by (intro keeps_plain enqueue_finance_known keeps_more) (simp add: more_same)
  then show ?thesis unfolding finance_route_def
    by (cases req) (simp_all, (intro keeps_plain enqueue_finance_known insert_bettor_known)+)
qed

lemma pressure_of_known: "keeps (bets_known W chain) (pressure_of V A n m observer)"
proof -
  have same: "keeps (bets_known W chain) (modify f)" if "\<And>s. fi_bettors (f s) = fi_bettors s" "\<And>s. fi_cursor (f s) = fi_cursor s" for f
    by (rule keeps_more) (simp add: more_same that)
  have round: "keeps (bets_known W chain) (open_round A n z)" "keeps (bets_known W chain) (open_book A n)" for z
    unfolding open_round_def open_book_def by (intro keeps_plain enqueue_finance_known)+
  have live: "keeps (bets_known W chain) (open_live A n m source book epoch)" for source book epoch
    unfolding open_live_def
    by (intro keeps_plain, auto split: prod.split option.split intro!: keeps_plain enqueue_finance_known round)
  have frozen: "keeps (bets_known W chain) (freeze_pressure V A n z source)" for z source
    unfolding freeze_pressure_def Let_def by (intro keeps_plain same) (auto simp add: insert_pressure_def split: option.split)
  have submit: "keeps (bets_known W chain) (submit_pressure V A n z)" for z
    unfolding submit_pressure_def sign_pressure_def Let_def by (intro keeps_plain round frozen same) simp_all
  have confirm: "keeps (bets_known W chain) (confirm_live V A n m epoch source paid h)" for epoch source paid h
    unfolding confirm_live_def sign_live_def Let_def
    by (intro keeps_plain same) (auto simp add: insert_live_def split: option.split)
  have continuous: "keeps (bets_known W chain) (continuousPressure V A n m)"
    unfolding continuousPressure_def Let_def by (intro keeps_plain live confirm same) simp_all
  show ?thesis unfolding pressure_of_def by (intro keeps_plain submit continuous)
qed

lemma receipt_more: "more_bettors s (recordRoomsFinanceReceipt m success tx logs s)"
  unfolding recordRoomsFinanceReceipt_def by (auto intro!: more_fold more_records split: option.split)

definition honest_audit :: "market_log list \<Rightarrow> finance_event \<Rightarrow> bool" where
  "honest_audit chain e \<longleftrightarrow> (case e of Audited A \<Rightarrow> complete_logs chain A | _ \<Rightarrow> True)"

lemma finance_step_known: "bets_known W chain s \<Longrightarrow> honest_audit chain e \<Longrightarrow> bets_known W chain (finance_step W e s)"
  by (cases e) (auto simp add: finance_step_def honest_audit_def intro: keeps_snd pressure_of_known audit_known renewal_known
      finance_route_known bets_more [OF _ receipt_more] elim: bets_more [OF _ more_same])

text \<open>C37.  When the node answers a range of blocks with all of its events or fails, every bet in the blocks from the start of the
  deployment to the stored cursor is known to the worker, whatever fails in between: no bettor is skipped by the pages,
  by a restart or by a failed transaction.\<close>

theorem no_bet_missed:
  assumes "list_all (honest_audit chain) es" "fi_cursor (run_finance W es) = Some c"
    and "l \<in> set chain" "mk_event l = BetPlaced n p" "finance_start W \<le> mk_block l" "mk_block l \<le> c"
  shows "list_ex (\<lambda>b. bt_id b = decimal n \<and> bt_player b = lower p) (fi_bettors (run_finance W es))"
proof -
  have "bets_known W chain (fold (finance_step W) es s)" if "bets_known W chain s" for s
    using assms(1) that by (induction es arbitrary: s) (simp_all add: finance_step_known)
  then have "bets_known W chain (run_finance W es)" by (simp add: run_finance_def empty_finance_def bets_known_def)
  then show ?thesis using assms(2-) by (auto simp add: bets_known_def bet_known_def list_all_iff)
qed

subsection \<open>Payments are asked for when the contracts say so\<close>










lemma keeps_lift: "(\<And>x. r = Inr x \<Longrightarrow> keeps I (f x)) \<Longrightarrow> keeps I (ibind (lift r) f)"
  by (cases r) (simp_all add: ibind_units keeps_basic)

lemma keeps_lift_catch: "(\<And>x. r = Inr x \<Longrightarrow> keeps I (f x)) \<Longrightarrow> (\<And>e. keeps I (h e)) \<Longrightarrow> keeps I (catch (ibind (lift r) f) h)"
  by (intro keeps_catch keeps_lift)











definition sample_manifest :: finance_manifest where
  "sample_manifest = \<lparr>fm_app = ''0xa'', fm_adapter = ''0xb'', fm_market = ''0xc'', fm_vault = ''0xd'', fm_signer = ''0xe'', fm_startBlock = 10,
     fm_chainId = 10143, fm_financeId = None, fm_settlement = None, fm_betting = None, fm_rules = None\<rparr>"

definition sample_finance_world :: finance_world where
  "sample_finance_world = \<lparr>fw_manifest = sample_manifest, fw_checkpoint = (\<lambda>_ _ _ _ _ _ _. ''checkpoint''),
     fw_liveCheckpoint = (\<lambda>_ _ _ _ _ _ _. ''checkpoint'')\<rparr>"

definition sample_bet :: market_log where
  "sample_bet = \<lparr>mk_block = 12, mk_tx = ''tx'', mk_event = BetPlaced 7 ''P''\<rparr>"

definition sample_finance_answers :: finance_answers where
  "sample_finance_answers = \<lparr>fa_now = 6000, fa_head = Inr 22, fa_enqueue = (\<lambda>_. Inr ''job''), fa_causes = (\<lambda>_. []), fa_book = (\<lambda>_. Inr 1), fa_epoch = (\<lambda>_. Inr 1),
     fa_hash = (\<lambda>_. Inr (Some ''h'')), fa_hashAgain = (\<lambda>_. Inr (Some ''h'')), fa_paid = (\<lambda>_ _. Inr (0, 0)), fa_ready = (\<lambda>_ _ _. Inr (True, 1)),
     fa_round = (\<lambda>_ _. Inr 0), fa_published = (\<lambda>_. Inr (7, 2, None)), fa_queued = Inr (0, 0, 0), fa_applied = Inr (0, 0, 0), fa_send = Inr (),
     fa_race = None, fa_liveRace = None, fa_logs = (\<lambda>r. Inr (filter (\<lambda>l. covers r (mk_block l)) [sample_bet])), fa_commit = Inr (), fa_session = Inr 1,
     fa_result = (\<lambda>_. Inr 2), fa_resultHash = (\<lambda>_. Inr False), fa_position = (\<lambda>_ _. Inr (1, False)), fa_payoutId = (\<lambda>_ _. Inr ''payout''),
     fa_payout = (\<lambda>_. Inr (0, 0)), fa_verify = (\<lambda>_ _ _. True)\<rparr>"

lemma sample_cursor: "fi_cursor (run_finance sample_finance_world [Audited sample_finance_answers]) = Some 20"
  by code_simp

theorem no_bet_missed_witness:
  "list_ex (\<lambda>b. bt_id b = decimal 7 \<and> bt_player b = lower ''P'') (fi_bettors (run_finance sample_finance_world [Audited sample_finance_answers]))"
proof -
  have "list_all (honest_audit [sample_bet]) [Audited sample_finance_answers]"
    by (auto simp add: honest_audit_def complete_logs_def sample_finance_answers_def)
  then show ?thesis
    by (rule no_bet_missed [OF _ sample_cursor, where l = sample_bet])
      (simp_all add: sample_bet_def finance_start_def sample_finance_world_def sample_manifest_def)
qed

end
