(* ===== verification/Finance_Config.thy ===== *)
theory Finance_Config
  imports Rooms_Finance
begin

text \<open>
  \<^verbatim>\<open>relayer/src/rooms-finance-config.ts\<close> and the start of \<^verbatim>\<open>rooms-finance.ts\<close>: which manifests are accepted, the binding of a
  deployment to what it was first started with, the choice of the contract a financial call goes to, and the links
  between the contracts that must be sealed before the worker starts.
\<close>

definition decimal_text :: "string \<Rightarrow> bool" where
  "decimal_text x \<longleftrightarrow> x \<noteq> [] \<and> list_all is_digit x"

definition slug_char :: "char \<Rightarrow> bool" where
  "slug_char c \<longleftrightarrow> is_digit c \<or> c = CHR ''-'' \<or> (of_char c :: int) \<in> {97..122}"

definition finance_slug :: "string \<Rightarrow> bool" where
  "finance_slug x \<longleftrightarrow> 1 \<le> length x \<and> length x \<le> 32 \<and> list_all slug_char x"

text \<open>The start block is a text in the file; the other fields are as in the record.\<close>

definition valid_finance :: "(string \<Rightarrow> bool) \<Rightarrow> string \<Rightarrow> finance_manifest \<Rightarrow> bool" where
  "valid_finance address start m \<longleftrightarrow> fm_chainId m = 10143
     \<and> list_all address [fm_app m, fm_adapter m, fm_market m, fm_vault m, fm_signer m]
     \<and> decimal_text start
     \<and> \<not> (fm_rules m \<noteq> None \<and> (fm_rules m \<noteq> Some 6 \<or> fm_betting m \<noteq> Some ''realtime''))
     \<and> (case fm_financeId m of None \<Rightarrow> True | Some i \<Rightarrow> finance_slug i \<and> fm_settlement m = Some ''early-published-testnet'')
     \<and> \<not> (fm_settlement m \<noteq> None \<and> (fm_financeId m = None \<or> fm_financeId m = Some []))
     \<and> \<not> (fm_betting m \<noteq> None \<and> (fm_betting m \<noteq> Some ''realtime'' \<or> fm_financeId m = None \<or> fm_financeId m = Some []
           \<or> fm_settlement m \<noteq> Some ''early-published-testnet''))"

definition load_finance :: "(string \<Rightarrow> bool) \<Rightarrow> (string \<times> finance_manifest) list \<Rightarrow> finance_manifest list res" where
  "load_finance address entries =
    rbind (guard ''Invalid rooms finance manifest'' (list_all (\<lambda>(start, m). valid_finance address start m) entries)) (\<lambda>_.
    rbind (guard ''Duplicate finance deployment'' (distinct (map (\<lambda>(_, m). financeScope m) entries))) (\<lambda>_. Inr (map snd entries)))"

definition find_finance :: "finance_manifest list \<Rightarrow> string \<Rightarrow> string option \<Rightarrow> finance_manifest res" where
  "find_finance entries app i = (case find (\<lambda>m. lower (fm_app m) = lower app \<and> fm_financeId m = i) entries of
     None \<Rightarrow> Inl ''Rooms finance unavailable'' | Some m \<Rightarrow> Inr m)"

text \<open>What a deployment is bound to.\<close>

definition binding_fields :: "finance_manifest \<Rightarrow> (string \<times> string option) list" where
  "binding_fields m = [(''app'', Some (financeScope m))]
     @ (if fm_financeId m \<noteq> None \<and> fm_financeId m \<noteq> Some [] then [(''financeId'', fm_financeId m), (''settlement'', fm_settlement m)] else [])
     @ (if fm_betting m \<noteq> None then [(''betting'', fm_betting m)] else [])
     @ (case fm_rules m of None \<Rightarrow> [] | Some r \<Rightarrow> [(''rulesVersion'', Some (decimal r))])
     @ [(''chainId'', Some (decimal (fm_chainId m))), (''adapter'', Some (lower (fm_adapter m))), (''market'', Some (lower (fm_market m))),
        (''vault'', Some (lower (fm_vault m))), (''pressureSigner'', Some (lower (fm_signer m))), (''startBlock'', Some (decimal (fm_startBlock m)))]"

type_synonym bindings = "string \<Rightarrow> string option"

fun bindRoomsFinance :: "((string \<times> string option) list \<Rightarrow> string) \<Rightarrow> finance_manifest list \<Rightarrow> bindings \<Rightarrow> unit res \<times> bindings" where
  "bindRoomsFinance hash [] rows = (Inr (), rows)"
| "bindRoomsFinance hash (m # ms) rows =
    (let fingerprint = hash (binding_fields m); rows = (if rows (financeScope m) = None then rows(financeScope m \<mapsto> fingerprint) else rows) in
     if rows (financeScope m) \<noteq> Some fingerprint
     then (Inl ''Rooms finance bindings changed. Preserve the original manifest and pending journal.'', rows)
     else bindRoomsFinance hash ms rows)"

definition finance_target :: "finance_manifest \<Rightarrow> string \<Rightarrow> string res" where
  "finance_target m contract = (if contract = ''game'' then Inr (fm_adapter m) else if contract = ''market'' then Inr (fm_market m)
     else if contract = ''vault'' then Inr (fm_vault m) else Inl ''Unsupported rooms financial contract'')"

definition encode_finance :: "(string \<Rightarrow> string \<Rightarrow> nat option) \<Rightarrow> finance_manifest list \<Rightarrow> string \<Rightarrow> string \<Rightarrow> string option \<Rightarrow> string \<Rightarrow> string \<Rightarrow> string list
    \<Rightarrow> (string \<times> string \<times> string list) res" where
  "encode_finance arity entries deployment app i contract func args =
    rbind (guard ''Versioned rooms request required'' (deployment = ''rooms'' \<and> app \<noteq> [])) (\<lambda>_.
    rbind (find_finance entries app i) (\<lambda>m.
    rbind (finance_target m contract) (\<lambda>target.
    rbind (guard ''Invalid rooms financial call'' (arity contract func = Some (length args))) (\<lambda>_. Inr (target, func, args)))))"

record finance_links =
  lk_signer :: string
  lk_results :: string
  lk_module :: bool
  lk_sealed :: bool
  lk_modules :: int
  lk_game :: string
  lk_vault :: string

definition links_sealed :: "finance_manifest \<Rightarrow> finance_links \<Rightarrow> bool" where
  "links_sealed m k \<longleftrightarrow> lower (lk_signer k) = lower (fm_signer m) \<and> lower (lk_results k) = lower (fm_adapter m)
     \<and> lower (lk_game k) = lower (fm_app m) \<and> lower (lk_vault k) = lower (fm_vault m) \<and> lk_module k \<and> lk_sealed k \<and> lk_modules k = 1"

definition start_finance :: "string \<Rightarrow> int res \<Rightarrow> finance_links res \<Rightarrow> finance_manifest \<Rightarrow> unit res" where
  "start_finance key rules links m =
    rbind (guard ''Pressure signer mismatch'' (lower key = lower (fm_signer m))) (\<lambda>_.
    rbind (if fm_rules m = Some 6 then rbind rules (\<lambda>v. guard ''Chaos events finance must bind rules 6'' (v = 6)) else Inr ()) (\<lambda>_.
    rbind links (\<lambda>k. guard ''Rooms finance links are not sealed'' (links_sealed m k))))"

subsection \<open>Bindings last\<close>

lemma bind_keeps_rows: "bindRoomsFinance hash ms rows = (r, rows') \<Longrightarrow> rows \<subseteq>\<^sub>m rows'"
proof (induction ms arbitrary: rows)
  case (Cons m ms)
  let ?rows = "if rows (financeScope m) = None then rows(financeScope m \<mapsto> hash (binding_fields m)) else rows"
  have "rows \<subseteq>\<^sub>m ?rows" by (auto simp add: map_le_def)
  moreover have "?rows \<subseteq>\<^sub>m rows'"
    using Cons.prems Cons.IH [of ?rows] by (auto simp add: Let_def split: if_split_asm)
  ultimately show ?case by (rule map_le_trans)
qed simp

lemma bind_ok: "bindRoomsFinance hash ms rows = (Inr u, rows') \<Longrightarrow> m \<in> set ms \<Longrightarrow> rows' (financeScope m) = Some (hash (binding_fields m))"
proof (induction ms arbitrary: rows)
  case (Cons k ms)
  let ?rows = "if rows (financeScope k) = None then rows(financeScope k \<mapsto> hash (binding_fields k)) else rows"
  have step: "?rows (financeScope k) = Some (hash (binding_fields k))" "bindRoomsFinance hash ms ?rows = (Inr u, rows')"
    using Cons.prems(1) by (auto simp add: Let_def split: if_split_asm)
  show ?case
  proof (cases "m = k")
    case True
    then show ?thesis using step(1) bind_keeps_rows [OF step(2)] by (auto simp add: map_le_def dom_def)
  qed (use Cons.IH [OF step(2)] Cons.prems(2) in auto)
qed simp

text \<open>The binding of a deployment is for ever: if the service has once started with a manifest, a later start succeeds only
  with manifests that hash to the same binding for its scope, whatever was started in between.\<close>

lemma finance_binding_lasts:
  assumes "bindRoomsFinance hash ms rows = (Inr (), rows1)" "m \<in> set ms"
    and "snd (fold (\<lambda>ks (_, rows). bindRoomsFinance hash ks rows) starts (Inr (), rows1)) = rows2"
    and "bindRoomsFinance hash ks rows2 = (Inr (), rows3)" "k \<in> set ks" "financeScope k = financeScope m"
  shows "hash (binding_fields k) = hash (binding_fields m)"
proof -
  have "rows1 \<subseteq>\<^sub>m snd (fold (\<lambda>ks (_, rows). bindRoomsFinance hash ks rows) starts (r, rows1))" for r rows1
  proof (induction starts arbitrary: r rows1)
    case (Cons ks starts)
    obtain q t where q: "bindRoomsFinance hash ks rows1 = (q, t)" by fastforce
    show ?case using map_le_trans [OF bind_keeps_rows [OF q] Cons.IH [of t q]] q by simp
  qed simp
  then have "rows1 \<subseteq>\<^sub>m rows2" using assms(3) by metis
  then have "rows1 \<subseteq>\<^sub>m rows3" using bind_keeps_rows [OF assms(4)] by (rule map_le_trans)
  then show ?thesis
    using bind_ok [OF assms(1,2)] bind_ok [OF assms(4,5)] assms(6) by (auto simp add: map_le_def dom_def)
qed

end
