(* ===== verification/Settlement_Audit.thy ===== *)
theory Settlement_Audit
  imports Rpc_Gateway Io_Monad Js_Text
begin

text \<open>
  \<^verbatim>\<open>relayer/src/rooms-settlement-audit.ts\<close>: the durable record of what the hub and the adapter of a deployment said about
  its published results.  A page of events is stored with the cursor in one transaction; when the block of the cursor is no longer
  on the chain, the stored events are kept as evidence but lose their mark, and the audit starts again.  Events that may change an
  accepted result leave a request to compare the accepted results, which is only deleted once all are compared.
\<close>

record settlement_log =
  sl_hub :: bool
  sl_block :: int
  sl_hash :: string
  sl_tx :: string
  sl_index :: int
  sl_kind :: string
  sl_match :: int
  sl_result :: string
  sl_batch :: int
  sl_epoch :: int

record settlement_event =
  se_id :: string
  se_log :: settlement_log
  se_epoch :: int
  se_canonical :: bool

record settlement_check =
  sk_match :: int
  sk_epoch :: int
  sk_batch :: int
  sk_accepted :: string
  sk_observed :: string
  sk_block :: int

record settlement_state =
  st_cursor :: "(int \<times> string \<times> int) option"
  st_events :: "settlement_event list"
  st_checks :: "settlement_check list"
  st_rechecks :: "int list"
  st_working :: bool
  st_last :: int
  st_error :: string

type_synonym 'a settlement_io = "('a, settlement_state) io"

text \<open>The answers of one audit; the three hashes are what the node says at the cursor, before and after the events are read.\<close>

record settlement_answers =
  sa_now :: int
  sa_head :: "int res"
  sa_cursorHash :: "int \<Rightarrow> string res"
  sa_endHash :: "int \<Rightarrow> string res"
  sa_afterHash :: "int \<Rightarrow> string res"
  sa_epochAt :: "int \<Rightarrow> int res"
  sa_hubLogs :: "int \<times> int \<Rightarrow> settlement_log list res"
  sa_earlyLogs :: "int \<times> int \<Rightarrow> settlement_log list res"
  sa_resultHash :: "int \<Rightarrow> int \<Rightarrow> string res"
  sa_commit :: "unit res"

definition settlement_id :: "settlement_log \<Rightarrow> string" where
  "settlement_id l = sl_hash l @ '':'' @ sl_tx l @ '':'' @ decimal (sl_index l)"

definition event_of_log :: "int \<Rightarrow> settlement_log \<Rightarrow> settlement_event" where
  "event_of_log epoch l = \<lparr>se_id = settlement_id l, se_log = l, se_epoch = epoch, se_canonical = True\<rparr>"

text \<open>The epoch of an event is that of the last opening before it; openings of one block share the epoch read at its end.\<close>

definition later_opens :: "settlement_log list \<Rightarrow> settlement_log \<Rightarrow> nat" where
  "later_opens logs l = length (filter (\<lambda>x. sl_block x = sl_block l \<and> sl_index x > sl_index l \<and> sl_kind x = ''DelegationOpened'') logs)"

fun attribute_epochs :: "settlement_answers \<Rightarrow> settlement_log list \<Rightarrow> settlement_log list \<Rightarrow> int \<Rightarrow> (settlement_event list \<times> int) res" where
  "attribute_epochs A logs [] epoch = Inr ([], epoch)"
| "attribute_epochs A logs (l # ls) epoch =
    rbind (if sl_kind l = ''DelegationOpened''
      then rbind (sa_epochAt A (sl_block l)) (\<lambda>current.
        rbind (guard ''Cannot attribute a delegation epoch at this block; operator replay required'' (current \<noteq> 0)) (\<lambda>_.
        Inr (current - int (later_opens logs l))))
      else Inr epoch) (\<lambda>epoch.
    rbind (attribute_epochs A logs ls epoch) (\<lambda>(es, after). Inr (event_of_log epoch l # es, after)))"

fun collect_events :: "settlement_answers \<Rightarrow> (int \<times> int) list \<Rightarrow> int \<Rightarrow> (settlement_event list \<times> int) res" where
  "collect_events A [] epoch = Inr ([], epoch)"
| "collect_events A (r # rs) epoch =
    rbind (sa_hubLogs A r) (\<lambda>logs.
    rbind (attribute_epochs A logs logs epoch) (\<lambda>(es, epoch).
    rbind (sa_earlyLogs A r) (\<lambda>early.
    rbind (collect_events A rs epoch) (\<lambda>(rest, epoch).
    Inr (es @ map (\<lambda>l. event_of_log (sl_epoch l) l) early @ rest, epoch)))))"

definition store_event :: "settlement_event \<Rightarrow> settlement_event list \<Rightarrow> settlement_event list" where
  "store_event e rows = (if list_ex (\<lambda>x. se_id x = se_id e) rows
     then map (\<lambda>x. if se_id x = se_id e then x\<lparr>se_canonical := True\<rparr> else x) rows else rows @ [e])"

definition rechecked_kinds :: "string list" where
  "rechecked_kinds = [''StateUnwound'', ''ChallengeResolved'', ''StakeReleased'']"

definition store_page :: "int \<Rightarrow> string \<Rightarrow> int \<Rightarrow> settlement_event list \<Rightarrow> settlement_state \<Rightarrow> settlement_state" where
  "store_page last_block h epoch es s = s\<lparr>st_events := fold store_event es (st_events s),
     st_rechecks := (if list_ex (\<lambda>e. sl_kind (se_log e) \<in> set rechecked_kinds) es \<and> last_block \<notin> set (st_rechecks s)
       then st_rechecks s @ [last_block] else st_rechecks s),
     st_cursor := Some (last_block, h, epoch)\<rparr>"

subsection \<open>Comparing accepted results\<close>

definition accepted_events :: "int \<Rightarrow> settlement_state \<Rightarrow> settlement_event list" where
  "accepted_events b s = filter (\<lambda>e. se_canonical e \<and> sl_kind (se_log e) = ''EarlyResultAccepted'' \<and> sl_block (se_log e) \<le> b) (st_events s)"

definition add_check :: "settlement_check \<Rightarrow> settlement_state \<Rightarrow> settlement_state" where
  "add_check k s = (if list_ex (\<lambda>x. sk_match x = sk_match k \<and> sk_observed x = sk_observed k) (st_checks s) then s
     else s\<lparr>st_checks := st_checks s @ [k]\<rparr>)"

definition check_result :: "settlement_answers \<Rightarrow> int \<Rightarrow> settlement_event \<Rightarrow> unit settlement_io" where
  "check_result A b e =
    ibind (lift (sa_resultHash A (sl_match (se_log e)) b)) (\<lambda>h.
    if h = sl_result (se_log e) then ret ()
    else modify (add_check \<lparr>sk_match = sl_match (se_log e), sk_epoch = se_epoch e, sk_batch = sl_batch (se_log e),
      sk_accepted = sl_result (se_log e), sk_observed = h, sk_block = b\<rparr>))"

definition recheck :: "settlement_answers \<Rightarrow> unit settlement_io" where
  "recheck A =
    ibind (gets st_rechecks) (\<lambda>blocks.
    if blocks = [] then ret ()
    else
      let b = Min (set blocks) in
      ibind (gets (accepted_events b)) (\<lambda>es.
      ibind (each (check_result A b) es) (\<lambda>_.
      modify (\<lambda>s. s\<lparr>st_rechecks := removeAll b (st_rechecks s)\<rparr>))))"

subsection \<open>The audit\<close>

text \<open>The stored events are kept, without their mark, when the block of the cursor is not the one on the chain.\<close>

definition follow_chain :: "settlement_answers \<Rightarrow> unit settlement_io" where
  "follow_chain A =
    ibind (gets st_cursor) (\<lambda>cursor.
    case cursor of None \<Rightarrow> ret ()
    | Some (b, h, _) \<Rightarrow>
      ibind (lift (sa_cursorHash A b)) (\<lambda>seen.
      if seen = h then ret ()
      else modify (\<lambda>s. s\<lparr>st_events := map (\<lambda>e. e\<lparr>se_canonical := False\<rparr>) (st_events s), st_cursor := None\<rparr>)))"

definition page_low :: "int \<Rightarrow> (int \<times> string \<times> int) option \<Rightarrow> int" where
  "page_low start cursor = (case cursor of None \<Rightarrow> start | Some (b, _, _) \<Rightarrow> b + 1)"

definition page_epoch :: "settlement_answers \<Rightarrow> int \<Rightarrow> (int \<times> string \<times> int) option \<Rightarrow> int res" where
  "page_epoch A low cursor = (case cursor of None \<Rightarrow> sa_epochAt A (low - 1) | Some (_, _, e) \<Rightarrow> Inr e)"

definition read_settlements :: "settlement_answers \<Rightarrow> int \<Rightarrow> int \<Rightarrow> int res \<Rightarrow> (string \<times> settlement_event list \<times> int) res" where
  "read_settlements A low high epoch =
    rbind epoch (\<lambda>epoch.
    rbind (sa_endHash A high) (\<lambda>h.
    rbind (collect_events A (log_ranges low high 100) epoch) (\<lambda>(es, epoch).
    rbind (sa_afterHash A high) (\<lambda>after.
    rbind (guard ''Settlement audit range reorganized; retrying'' (after = h)) (\<lambda>_.
    rbind (sa_commit A) (\<lambda>_. Inr (h, es, epoch)))))))"

definition settlement_page :: "int \<Rightarrow> settlement_answers \<Rightarrow> int \<Rightarrow> unit settlement_io" where
  "settlement_page start A safe =
    ibind (gets st_cursor) (\<lambda>cursor.
    let low = page_low start cursor; high = (if low + 499 < safe then low + 499 else safe) in
    if low > safe then ret ()
    else
      ibind (lift (read_settlements A low high (page_epoch A low cursor))) (\<lambda>(h, es, epoch).
      ibind (modify (store_page high h epoch es)) (\<lambda>_.
      ibind (recheck A) (\<lambda>_. modify (\<lambda>s. s\<lparr>st_error := []\<rparr>)))))"

definition settlement_audit :: "int \<Rightarrow> settlement_answers \<Rightarrow> unit settlement_io" where
  "settlement_audit start A =
    ibind (gets (\<lambda>s. st_working s \<or> sa_now A - st_last s < 10000)) (\<lambda>skip.
    if skip then ret ()
    else
      ibind (modify (\<lambda>s. s\<lparr>st_working := True, st_last := sa_now A\<rparr>)) (\<lambda>_.
      finally_do
        (catch
          (ibind (lift (sa_head A)) (\<lambda>head.
           ibind (follow_chain A) (\<lambda>_.
           ibind (recheck A) (\<lambda>_.
           settlement_page start A (if head > 2 then head - 2 else 0)))))
          (\<lambda>e. modify (\<lambda>s. s\<lparr>st_error := e\<rparr>)))
        (\<lambda>s. s\<lparr>st_working := False\<rparr>)))"

datatype settlement_step = SettlementAudited settlement_answers | SettlementRestarted

definition settlement_step :: "int \<Rightarrow> settlement_step \<Rightarrow> settlement_state \<Rightarrow> settlement_state" where
  "settlement_step start e s = (case e of SettlementAudited A \<Rightarrow> snd (settlement_audit start A s)
     | SettlementRestarted \<Rightarrow> s\<lparr>st_working := False, st_last := 0, st_error := []\<rparr>)"

definition empty_settlement :: settlement_state where
  "empty_settlement = \<lparr>st_cursor = None, st_events = [], st_checks = [], st_rechecks = [], st_working = False, st_last = 0, st_error = []\<rparr>"

definition run_settlement :: "int \<Rightarrow> settlement_step list \<Rightarrow> settlement_state" where
  "run_settlement start es = fold (settlement_step start) es empty_settlement"

subsection \<open>The marked events are those of the chain\<close>























text \<open>A comparison that goes through has compared every accepted result with what the contract holds; one that fails stays requested.\<close>

lemma recheck_complete:
  assumes run: "recheck A s = (Inr (), s')" and b: "st_rechecks s \<noteq> []" "b = Min (set (st_rechecks s))" and e: "e \<in> set (accepted_events b s)"
  shows "\<exists>h. sa_resultHash A (sl_match (se_log e)) b = Inr h
    \<and> (h = sl_result (se_log e) \<or> list_ex (\<lambda>k. sk_match k = sl_match (se_log e) \<and> sk_observed k = h) (st_checks s'))"
proof -
  have grows: "list_ex P (st_checks t) \<longrightarrow> list_ex P (st_checks t')" if "check_result A b x t = (r, t')" for P x t t' r
    using that by (auto simp add: check_result_def ibind_def io_simps add_check_def split: sum.splits if_split_asm)
  have all: "list_ex P (st_checks t) \<longrightarrow> list_ex P (st_checks t')" if "each (check_result A b) xs t = (Inr (), t')" for P xs t t'
    using that by (induction xs arbitrary: t) (auto simp add: io_simps ibind_eq_Inr dest: grows)
  have main: "\<exists>h. sa_resultHash A (sl_match (se_log e)) b = Inr h
      \<and> (h = sl_result (se_log e) \<or> list_ex (\<lambda>k. sk_match k = sl_match (se_log e) \<and> sk_observed k = h) (st_checks t'))"
    if "each (check_result A b) xs t = (Inr (), t')" "e \<in> set xs" for xs t t'
    using that
  proof (induction xs arbitrary: t)
    case (Cons x xs)
    obtain u where u: "check_result A b x t = (Inr (), u)" "each (check_result A b) xs u = (Inr (), t')"
      using Cons.prems(1) by (auto simp add: ibind_eq_Inr)
    show ?case
    proof (cases "e \<in> set xs")
      case False
      then have "x = e" using Cons.prems(2) by simp
      then obtain h where "sa_resultHash A (sl_match (se_log e)) b = Inr h"
          "h = sl_result (se_log e) \<or> list_ex (\<lambda>k. sk_match k = sl_match (se_log e) \<and> sk_observed k = h) (st_checks u)"
        using u(1) by (auto simp add: check_result_def ibind_eq_Inr io_simps add_check_def split: if_split_asm)
      then show ?thesis using all [OF u(2)] by blast
    qed (use Cons.IH [OF u(2)] in simp)
  qed simp
  obtain t where t: "each (check_result A b) (accepted_events b s) s = (Inr (), t)" "st_checks s' = st_checks t"
    using run b by (auto simp add: recheck_def ibind_eq_Inr io_simps Let_def)
  show ?thesis using main [OF t(1) e] t(2) by simp
qed

subsection \<open>Examples\<close>

definition sample_settlement :: settlement_log where
  "sample_settlement = \<lparr>sl_hub = False, sl_block = 12, sl_hash = ''b12'', sl_tx = ''tx'', sl_index = 0, sl_kind = ''EarlyResultAccepted'', sl_match = 7,
     sl_result = ''r'', sl_batch = 1, sl_epoch = 3\<rparr>"

definition sample_hist :: "string \<Rightarrow> settlement_log list" where
  "sample_hist h = (if h = ''new'' then [sample_settlement] else [])"

definition sample_chain :: "int \<Rightarrow> string" where
  "sample_chain b = (if b < 12 then ''old'' else ''new'')"

definition settlement_node :: "int \<Rightarrow> int \<Rightarrow> (int \<Rightarrow> string) \<Rightarrow> (int \<Rightarrow> string) \<Rightarrow> settlement_answers" where
  "settlement_node now head before after = \<lparr>sa_now = now, sa_head = Inr head, sa_cursorHash = (\<lambda>b. Inr (before b)), sa_endHash = (\<lambda>b. Inr (after b)),
     sa_afterHash = (\<lambda>b. Inr (after b)), sa_epochAt = (\<lambda>_. Inr 3), sa_hubLogs = (\<lambda>_. Inr []),
     sa_earlyLogs = (\<lambda>r. Inr (filter (\<lambda>l. covers r (sl_block l)) (sample_hist (after (snd r))))), sa_resultHash = (\<lambda>_ _. Inr ''r''), sa_commit = Inr ()\<rparr>"



text \<open>When the chain changes between the read of the cursor's block and the read of the last one, an event of the abandoned
  chain keeps its mark, and no later audit sees the change.\<close>

lemma reorg_between_reads:
  "let s = run_settlement 10 [SettlementAudited (settlement_node 20000 22 sample_chain sample_chain),
       SettlementAudited (settlement_node 40000 42 sample_chain (\<lambda>_. ''other'')), SettlementAudited (settlement_node 60000 42 (\<lambda>_. ''other'') (\<lambda>_. ''other''))] in
   st_cursor s = Some (40, ''other'', 3) \<and> map se_canonical (st_events s) = [True] \<and> sample_hist ''other'' = []"
  by code_simp

end
