(* ===== verification/Replay_History.thy ===== *)
theory Replay_History
  imports Engine_Stream
begin

text \<open>
  \<^verbatim>\<open>relayer/src/rooms-events-history.ts\<close>: the replay cache of one arena.  Observed snapshots wait in a buffer, the newest of each
  match; a flush stores one of them in a transaction; the retention marks a match as pruned, which removes its frames for
  ever, when the index says that its replay has been retired.  The application column is one arena and left out; the
  buffer keeps the object it was given, which is its number here.
\<close>

datatype availability = Recording | Available | Pruned

record replay_row =
  ry_a :: string
  ry_b :: string
  ry_availability :: availability

record replay_result =
  rr_verified :: bool
  rr_published :: bool
  rr_phase :: int

record replay_cache =
  rh_buffer :: "(int \<times> int \<times> nat \<times> engine_state) list"
  rh_next :: nat
  rh_rows :: "int \<times> int \<Rightarrow> replay_row option"
  rh_frames :: "int \<times> int \<Rightarrow> int \<Rightarrow> engine_state option"

text \<open>\<^verbatim>\<open>record\<close>: a map keeps the place of a key that is set again.\<close>

definition record_snapshot :: "int \<Rightarrow> engine_state \<Rightarrow> replay_cache \<Rightarrow> replay_cache" where
  "record_snapshot epoch x s = (if \<not> (epoch > 0 \<and> es_phase x \<ge> 2) then s
     else let n = rh_next s; s = s\<lparr>rh_next := n + 1\<rparr> in
       if list_ex (\<lambda>(e, i, _). e = epoch \<and> i = es_id x) (rh_buffer s)
       then s\<lparr>rh_buffer := map (\<lambda>(e, i, k, y). if e = epoch \<and> i = es_id x then (e, i, n, x) else (e, i, k, y)) (rh_buffer s)\<rparr>
       else s\<lparr>rh_buffer := rh_buffer s @ [(epoch, es_id x, n, x)]\<rparr>)"

definition replay_row_of :: "engine_state \<Rightarrow> replay_row option \<Rightarrow> replay_row" where
  "replay_row_of x r = (case r of None \<Rightarrow> \<lparr>ry_a = lower (es_a x), ry_b = lower (es_b x), ry_availability = Recording\<rparr> | Some r \<Rightarrow> r)"

definition store_frame :: "engine_state \<Rightarrow> (int \<Rightarrow> engine_state option) \<Rightarrow> int \<Rightarrow> engine_state option" where
  "store_frame x frames = (let frames = (if es_reset x then (\<lambda>v. if v \<ge> es_revision x then None else frames v) else frames) in
     if frames (es_revision x) = None then frames(es_revision x \<mapsto> x) else frames)"

text \<open>The transaction of one buffered snapshot.\<close>

definition flush_item :: "int \<Rightarrow> engine_state \<Rightarrow> replay_cache \<Rightarrow> replay_cache" where
  "flush_item epoch x s =
    (let k = (epoch, es_id x); r = replay_row_of x (rh_rows s k); s = s\<lparr>rh_rows := (rh_rows s)(k \<mapsto> r)\<rparr> in
     if ry_availability r = Pruned then s else s\<lparr>rh_frames := (rh_frames s)(k := store_frame x (rh_frames s k))\<rparr>)"

text \<open>While the transaction runs other snapshots arrive; a newer object of the match stays in the buffer.\<close>

definition flush_first :: "bool \<Rightarrow> (int \<times> engine_state) list \<Rightarrow> replay_cache \<Rightarrow> replay_cache" where
  "flush_first committed meanwhile s = (case rh_buffer s of [] \<Rightarrow> s
     | (epoch, i, n, x) # _ \<Rightarrow>
       let s = fold (\<lambda>(e, y). record_snapshot e y) meanwhile s in
       if \<not> committed then s
       else let s = flush_item epoch x s in s\<lparr>rh_buffer := filter (\<lambda>(_, _, k, _). k \<noteq> n) (rh_buffer s)\<rparr>)"

text \<open>What the index says of a match that is verified, published and over.\<close>

definition settled_result :: "replay_result option \<Rightarrow> bool" where
  "settled_result r \<longleftrightarrow> (case r of None \<Rightarrow> False | Some r \<Rightarrow> rr_verified r \<and> rr_published r \<and> rr_phase r \<ge> 3)"

definition set_availability :: "availability \<Rightarrow> int \<times> int \<Rightarrow> replay_cache \<Rightarrow> replay_cache" where
  "set_availability v k s = (case rh_rows s k of None \<Rightarrow> s | Some r \<Rightarrow> s\<lparr>rh_rows := (rh_rows s)(k \<mapsto> r\<lparr>ry_availability := v\<rparr>)\<rparr>)"

definition retain_row :: "string option \<Rightarrow> int \<times> int \<Rightarrow> replay_cache \<Rightarrow> replay_cache" where
  "retain_row indexed k s = (case indexed of None \<Rightarrow> s
     | Some v \<Rightarrow>
       if v = ''available'' then (case rh_rows s k of None \<Rightarrow> s | Some r \<Rightarrow> if ry_availability r = Pruned then s else set_availability Available k s)
       else if v \<notin> set [''pruned'', ''not-played''] then s
       else let s = set_availability Pruned k s in s\<lparr>rh_frames := (rh_frames s)(k := (\<lambda>_. None))\<rparr>)"

text \<open>The rows were selected before; the index answers a hundred at a time.\<close>

definition retain_rows :: "(int \<Rightarrow> replay_result option) \<Rightarrow> (int \<times> int \<Rightarrow> string option) \<Rightarrow> (int \<times> int) list \<Rightarrow> replay_cache \<Rightarrow> replay_cache" where
  "retain_rows results indexed keys s =
    (let selected = filter (\<lambda>k. (case rh_rows s k of None \<Rightarrow> False | Some r \<Rightarrow> ry_availability r \<noteq> Pruned) \<and> settled_result (results (snd k))) keys in
     fold (\<lambda>k. retain_row (indexed k) k) selected s)"

datatype replay_reply = NotRecorded | PrunedReplay | AwaitingPublication | Frames "engine_state list"

definition replay :: "(int \<Rightarrow> replay_result option) \<Rightarrow> int \<Rightarrow> int \<Rightarrow> int \<Rightarrow> int list \<Rightarrow> replay_cache \<Rightarrow> replay_reply" where
  "replay results epoch i after revisions s = (case rh_rows s (epoch, i) of None \<Rightarrow> NotRecorded
     | Some r \<Rightarrow> if ry_availability r = Pruned then PrunedReplay
       else if \<not> settled_result (results i) then AwaitingPublication
       else Frames (take 250 (List.map_filter (rh_frames s (epoch, i)) (sort (filter (\<lambda>v. v > after) (remdups revisions))))))"

datatype replay_event =
    SnapshotSeen int engine_state
  | Flushed bool "(int \<times> engine_state) list"
  | Retained "int \<Rightarrow> replay_result option" "int \<times> int \<Rightarrow> string option" "(int \<times> int) list"
  | CacheRestarted

definition replay_event_step :: "replay_event \<Rightarrow> replay_cache \<Rightarrow> replay_cache" where
  "replay_event_step e s = (case e of SnapshotSeen epoch x \<Rightarrow> record_snapshot epoch x s
     | Flushed committed meanwhile \<Rightarrow> flush_first committed meanwhile s
     | Retained results indexed keys \<Rightarrow> retain_rows results indexed keys s
     | CacheRestarted \<Rightarrow> s\<lparr>rh_buffer := []\<rparr>)"

definition empty_cache :: replay_cache where
  "empty_cache = \<lparr>rh_buffer = [], rh_next = 0, rh_rows = (\<lambda>_. None), rh_frames = (\<lambda>_ _. None)\<rparr>"

definition run_replays :: "replay_event list \<Rightarrow> replay_cache" where
  "run_replays es = fold replay_event_step es empty_cache"

subsection \<open>A pruned replay stays pruned\<close>

definition pruned_row :: "replay_row option \<Rightarrow> bool" where
  "pruned_row r \<longleftrightarrow> (case r of None \<Rightarrow> False | Some r \<Rightarrow> ry_availability r = Pruned)"

definition is_pruned :: "replay_cache \<Rightarrow> int \<times> int \<Rightarrow> bool" where
  "is_pruned s k \<longleftrightarrow> pruned_row (rh_rows s k)"

definition key_ok :: "replay_row option \<Rightarrow> (int \<Rightarrow> engine_state option) \<Rightarrow> int \<Rightarrow> bool" where
  "key_ok r f i \<longleftrightarrow> (pruned_row r \<or> r = None \<longrightarrow> f = (\<lambda>_. None)) \<and> (\<forall>v x. f v = Some x \<longrightarrow> es_revision x = v \<and> es_id x = i)"

definition buffer_ok :: "(int \<times> int \<times> nat \<times> engine_state) list \<Rightarrow> bool" where
  "buffer_ok xs \<longleftrightarrow> list_all (\<lambda>(e, i, n, x). i = es_id x) xs"

definition replay_cache_ok :: "replay_cache \<Rightarrow> bool" where
  "replay_cache_ok s \<longleftrightarrow> (\<forall>k. key_ok (rh_rows s k) (rh_frames s k) (snd k)) \<and> buffer_ok (rh_buffer s)"

definition prunes :: "replay_cache \<Rightarrow> replay_cache \<Rightarrow> bool" where
  "prunes s s' \<longleftrightarrow> replay_cache_ok s' \<and> (\<forall>k. is_pruned s k \<longrightarrow> is_pruned s' k)"

lemma prunes_one:
  assumes "replay_cache_ok s" "rh_rows s' = (rh_rows s)(k := r)" "rh_frames s' = (rh_frames s)(k := f)" "buffer_ok (rh_buffer s')"
    and "key_ok r f (snd k)" "pruned_row (rh_rows s k) \<longrightarrow> pruned_row r"
  shows "prunes s s'"
  using assms by (auto simp add: prunes_def replay_cache_ok_def is_pruned_def simp del: split_paired_All)

lemma prunes_buffer:
  assumes "replay_cache_ok s" "rh_rows s' = rh_rows s" "rh_frames s' = rh_frames s" "buffer_ok (rh_buffer s')"
  shows "prunes s s'"
  using assms by (simp add: prunes_def replay_cache_ok_def is_pruned_def del: split_paired_All)

lemma prunes_trans: "prunes s t \<Longrightarrow> prunes t u \<Longrightarrow> prunes s u"
  by (simp add: prunes_def)

lemma prunes_refl: "replay_cache_ok s \<Longrightarrow> prunes s s"
  by (simp add: prunes_def)

lemma record_prunes: "replay_cache_ok s \<Longrightarrow> prunes s (record_snapshot epoch x s)"
proof (rule prunes_buffer)
  assume "replay_cache_ok s"
  then have b: "buffer_ok (rh_buffer s)" by (simp add: replay_cache_ok_def)
  have "buffer_ok (map (\<lambda>(e, i, k, y). if e = epoch \<and> i = es_id x then (e, i, n, x) else (e, i, k, y)) (rh_buffer s))" for n
    using b by (auto simp add: buffer_ok_def list_all_iff split: if_split_asm)
  then show "buffer_ok (rh_buffer (record_snapshot epoch x s))" using b
    by (simp add: record_snapshot_def Let_def) (simp add: buffer_ok_def)
qed (simp_all add: record_snapshot_def Let_def)

lemma records_prune: "replay_cache_ok s \<Longrightarrow> prunes s (fold (\<lambda>(e, y). record_snapshot e y) xs s)"
proof (induction xs arbitrary: s)
  case (Cons x xs)
  obtain e y where x: "x = (e, y)" by fastforce
  have "prunes s (record_snapshot e y s)" by (rule record_prunes [OF Cons.prems])
  moreover from this have "prunes (record_snapshot e y s) (fold (\<lambda>(e, y). record_snapshot e y) xs (record_snapshot e y s))"
    by (intro Cons.IH) (simp add: prunes_def)
  ultimately show ?case using prunes_trans by (simp add: x)
qed (simp add: prunes_refl)

lemma store_frame_ok:
  assumes "\<forall>v y. frames v = Some y \<longrightarrow> es_revision y = v \<and> es_id y = es_id x" "store_frame x frames v = Some y"
  shows "es_revision y = v \<and> es_id y = es_id x"
  using assms by (auto simp add: store_frame_def Let_def split: if_splits)

lemma flush_item_prunes: "replay_cache_ok s \<Longrightarrow> prunes s (flush_item epoch x s)"
proof -
  assume ok: "replay_cache_ok s"
  define k where "k = (epoch, es_id x)"
  define r where "r = replay_row_of x (rh_rows s k)"
  have b: "buffer_ok (rh_buffer s)" and snd_k: "snd k = es_id x" using ok by (simp_all add: replay_cache_ok_def k_def)
  have old: "key_ok (rh_rows s k) (rh_frames s k) (es_id x)" using ok unfolding replay_cache_ok_def k_def by (metis snd_conv)
  have same: "pruned_row (rh_rows s k) \<longrightarrow> r = the (rh_rows s k)" by (simp add: r_def replay_row_of_def pruned_row_def split: option.split)
  have run: "flush_item epoch x s = (if ry_availability r = Pruned then s\<lparr>rh_rows := (rh_rows s)(k \<mapsto> r)\<rparr>
      else s\<lparr>rh_rows := (rh_rows s)(k \<mapsto> r), rh_frames := (rh_frames s)(k := store_frame x (rh_frames s k))\<rparr>)"
    by (simp add: flush_item_def Let_def k_def r_def)
  have stay: "pruned_row (rh_rows s k) \<longrightarrow> pruned_row (Some r)" using same by (auto simp add: pruned_row_def split: option.splits)
  show ?thesis
  proof (cases "ry_availability r = Pruned")
    case True
    then have "rh_rows s k = Some r" by (cases "rh_rows s k") (simp_all add: r_def replay_row_of_def)
    then have "(rh_rows s)(k \<mapsto> r) = rh_rows s" by (rule fun_upd_idem)
    then have "flush_item epoch x s = s" using True by (simp only: run if_True) simp
    then show ?thesis using ok by (simp only: prunes_refl)
  next
    case False
    have "\<forall>v y. rh_frames s k v = Some y \<longrightarrow> es_revision y = v \<and> es_id y = es_id x" using old unfolding key_ok_def by blast
    note stored = store_frame_ok [OF this]
    have "\<not> pruned_row (Some r)" using False by (simp add: pruned_row_def)
    then have "key_ok (Some r) (store_frame x (rh_frames s k)) (es_id x)"
      unfolding key_ok_def using stored by blast
    then show ?thesis unfolding run if_not_P [OF False] using stay b
      by (intro prunes_one [OF ok, where k = k and r = "Some r" and f = "store_frame x (rh_frames s k)"]) (simp_all add: snd_k)
  qed
qed

lemma flush_prunes: "replay_cache_ok s \<Longrightarrow> prunes s (flush_first committed meanwhile s)"
proof (cases "rh_buffer s")
  case (Cons c cs)
  assume ok: "replay_cache_ok s"
  obtain epoch i n x where c: "c = (epoch, i, n, x)" by (metis prod.collapse)
  define t where "t = fold (\<lambda>(e, y). record_snapshot e y) meanwhile s"
  define u where "u = flush_item epoch x t"
  have t: "prunes s t" unfolding t_def by (rule records_prune [OF ok])
  then have u: "prunes t u" unfolding u_def by (intro flush_item_prunes) (simp add: prunes_def)
  then have "prunes u (u\<lparr>rh_buffer := filter P (rh_buffer u)\<rparr>)" for P
    by (intro prunes_buffer) (simp_all add: prunes_def replay_cache_ok_def buffer_ok_def list_all_iff)
  then have "prunes s (u\<lparr>rh_buffer := filter P (rh_buffer u)\<rparr>)" for P using t u prunes_trans by blast
  then show ?thesis using t by (simp add: flush_first_def Cons c Let_def t_def u_def)
qed (simp add: flush_first_def prunes_refl)

lemma key_of: "replay_cache_ok s \<Longrightarrow> key_ok (rh_rows s k) (rh_frames s k) (snd k)"
  by (simp add: replay_cache_ok_def del: split_paired_All)

lemma retain_row_prunes: "replay_cache_ok s \<Longrightarrow> prunes s (retain_row indexed k s)"
proof (cases "rh_rows s k")
  case None
  assume ok: "replay_cache_ok s"
  have "rh_frames s k = (\<lambda>_. None)" using key_of [OF ok, of k] None by (simp add: key_ok_def)
  then have "(rh_frames s)(k := (\<lambda>_. None)) = rh_frames s" by (simp add: fun_upd_idem)
  then have "retain_row indexed k s = s" by (simp add: retain_row_def set_availability_def None Let_def split: option.split)
  then show ?thesis using ok by (simp add: prunes_refl)
next
  case (Some r)
  assume ok: "replay_cache_ok s"
  have b: "buffer_ok (rh_buffer s)" using ok by (simp add: replay_cache_ok_def)
  have "prunes s (s\<lparr>rh_rows := (rh_rows s)(k \<mapsto> r\<lparr>ry_availability := Available\<rparr>)\<rparr>)" if "ry_availability r \<noteq> Pruned"
    using that key_of [OF ok, of k] Some b
    by (intro prunes_one [OF ok, where k = k and r = "Some (r\<lparr>ry_availability := Available\<rparr>)" and f = "rh_frames s k"])
      (simp_all add: key_ok_def pruned_row_def)
  moreover have "prunes s (s\<lparr>rh_rows := (rh_rows s)(k \<mapsto> r\<lparr>ry_availability := Pruned\<rparr>), rh_frames := (rh_frames s)(k := (\<lambda>_. None))\<rparr>)"
    using b by (intro prunes_one [OF ok, where k = k and r = "Some (r\<lparr>ry_availability := Pruned\<rparr>)" and f = "\<lambda>_. None"]) (simp_all add: key_ok_def pruned_row_def)
  ultimately show ?thesis using prunes_refl [OF ok]
    by (cases indexed) (simp_all add: retain_row_def set_availability_def Some Let_def)
qed

lemma retain_prunes: "replay_cache_ok s \<Longrightarrow> prunes s (retain_rows results indexed keys s)"
proof -
  have "replay_cache_ok t \<Longrightarrow> prunes t (fold (\<lambda>k. retain_row (indexed k) k) ks t)" for ks t
  proof (induction ks arbitrary: t)
    case (Cons k ks)
    have "prunes t (retain_row (indexed k) k t)" by (rule retain_row_prunes [OF Cons.prems])
    moreover from this have "prunes (retain_row (indexed k) k t) (fold (\<lambda>k. retain_row (indexed k) k) ks (retain_row (indexed k) k t))"
      by (intro Cons.IH) (simp add: prunes_def)
    ultimately show ?case using prunes_trans by simp
  qed (simp add: prunes_refl)
  then show "replay_cache_ok s \<Longrightarrow> prunes s (retain_rows results indexed keys s)" by (simp add: retain_rows_def Let_def)
qed

lemma replay_step_prunes: "replay_cache_ok s \<Longrightarrow> prunes s (replay_event_step e s)"
proof (cases e)
  case CacheRestarted
  assume "replay_cache_ok s"
  then show ?thesis by (intro prunes_buffer) (simp_all add: replay_event_step_def CacheRestarted buffer_ok_def)
qed (simp_all add: replay_event_step_def record_prunes flush_prunes retain_prunes)

lemma replay_steps_prune: "replay_cache_ok s \<Longrightarrow> prunes s (fold replay_event_step es s)"
proof (induction es arbitrary: s)
  case (Cons e es)
  have step: "prunes s (replay_event_step e s)" by (rule replay_step_prunes [OF Cons.prems])
  moreover from step have "prunes (replay_event_step e s) (fold replay_event_step es (replay_event_step e s))"
    by (intro Cons.IH) (simp add: prunes_def)
  ultimately show ?case using prunes_trans by simp
qed (simp add: prunes_refl)

text \<open>C40.  Once a replay is pruned it has no frames and stays pruned through every later observation, flush, failed transaction and
  retention, also those of snapshots that were buffered before; and every stored frame is the one of its match and revision.\<close>

theorem pruned_for_ever:
  "(let s = run_replays es; s' = run_replays (es @ es') in
     (case rh_rows s k of None \<Rightarrow> True
      | Some r \<Rightarrow> if ry_availability r = Pruned then is_pruned s' k \<and> rh_frames s' k = (\<lambda>_. None) else True)
     \<and> (case rh_frames s k v of None \<Rightarrow> True | Some x \<Rightarrow> es_revision x = v \<and> es_id x = snd k))"
proof -
  have "replay_cache_ok empty_cache" by (simp add: replay_cache_ok_def key_ok_def buffer_ok_def empty_cache_def)
  then have "prunes empty_cache (run_replays es)" unfolding run_replays_def by (rule replay_steps_prune)
  then have ok: "replay_cache_ok (run_replays es)" by (simp add: prunes_def)
  have later: "prunes (run_replays es) (run_replays (es @ es'))"
    using replay_steps_prune [OF ok] by (simp add: run_replays_def)
  have frames: "key_ok (rh_rows (run_replays es) k) (rh_frames (run_replays es) k) (snd k)" by (rule key_of [OF ok])
  have "rh_frames (run_replays (es @ es')) k = (\<lambda>_. None)" if "is_pruned (run_replays (es @ es')) k"
    using key_of [of "run_replays (es @ es')" k] later that by (simp add: prunes_def key_ok_def is_pruned_def)
  moreover have "is_pruned (run_replays (es @ es')) k" if "rh_rows (run_replays es) k = Some r" "ry_availability r = Pruned" for r
    using later that unfolding prunes_def by (simp add: is_pruned_def pruned_row_def del: split_paired_All)
  ultimately show ?thesis using frames unfolding key_ok_def by (simp add: Let_def split: option.split)
qed

end
