(* ===== verification/Spec2Isabelle.thy ===== *)
theory Spec2Isabelle
  imports Physics_V1 Physics_Realtime Chaos_Safety Authority_Source Authority_Private Authority_Keeper
    Chaos_Draw Chaos_Pixels Chaos_Codec Drand_Beacon Engine_Feed Rooms_Core Rooms_Status Service_Errors Rpc_Gateway
    Relay_Inputs Payouts Recovery_Worker Compact_Sessions Engine_Journal Rooms_Lifecycle Hosted_Renewal
    Operator_Queue Arena_Engine Command_Journal Presentation Lobby_Store Relay_Budget Finance_Safety Finance_Config
    Settlement_Audit Replay_History
begin

text \<open>
  Verification library of PONGIT, an arcade of one against one on a chain.

  \<^bold>\<open>The program.\<close>  The contracts hold the rules and the money.  The TypeScript modelled here is in three parts.
  \<^verbatim>\<open>shared/\<close> is used on both sides: the integer physics that must agree with the contracts bit by bit, the Chaos events,
  the codecs, the decisions about the execution of a match, and the transport of engine frames and randomness.
  \<^verbatim>\<open>relayer/src/\<close> is the service: it keeps the lobby and the rooms, pays for and journals the transactions of the
  players, signs operator transactions, keeps the engines running from epoch to epoch and pays out.  \<^verbatim>\<open>web/lib/\<close>
  runs in the browser: it journals the commands a player signs and projects confirmed states to the present.  A game
  goes through these parts so: the lobby seats two players and issues a signed ticket; the relayed inputs and the
  compact sessions carry their commands to the engine, whose frames come back through the engine feed; the lifecycle
  closes, finalizes and renews the engine; the payouts follow the published results.

  \<^bold>\<open>Vocabulary.\<close>  Prelude: errors as values (\<^verbatim>\<open>res\<close>), truncating division, 32-bit operators.  Js_Text: the text operations of
  the language.  Io_Monad: asynchronous functions as functions on the state of the world, with the assertion logic
  (\<^verbatim>\<open>triple\<close>, \<^verbatim>\<open>keeps\<close>) the workers are verified in.  A thrown error is the left value of a result and carries the message
  of the source; the effects before it stay.  A table of the data base is a list of its rows or a map, by its primary
  key.  What is not under src/ (hashes, signatures, ABI encoding, nodes, wallets) is an argument; what other parties answer
  during one operation is a record of answers, so every theorem holds for every answer, failures included.
  Where steps of a program interleave between two of its awaits, each part is an event of a transition function and a run is
  a list of events.

  \<^bold>\<open>Physics.\<close>  Event_Loop is the contract of a bounded simulation loop, a locale that every engine interprets:
  Physics_V2 (\<^verbatim>\<open>shared/physics-v2.ts\<close>), Physics_V1 (\<^verbatim>\<open>physics.ts\<close>), Physics_Interlude (\<^verbatim>\<open>physics-interlude.ts\<close>),
  Physics_Rooms_Chaos (\<^verbatim>\<open>physics-rooms-chaos.ts\<close>); Physics_Realtime (\<^verbatim>\<open>physics-realtime-chaos.ts\<close>) and Presentation
  (\<^verbatim>\<open>web/lib/presentation.ts\<close>) rest on them.  Their lemmas: no exception inside the court, the court and score invariants,
  a monotone clock, completion within 512 events, the refinement of the first engine by the second, a projection equal to
  the engine before the events that it must not anticipate.  Chaos_Collision (\<^verbatim>\<open>chaos-collision.ts\<close>): the integer geometry,
  with a square root proved by its locale; a contact is never missed.  Chaos_Effects, Chaos_Modifiers, Chaos_Physics and
  Chaos_Safety (\<^verbatim>\<open>chaos-events.ts\<close>, \<^verbatim>\<open>chaos-effects.ts\<close>, \<^verbatim>\<open>chaos-modifiers.ts\<close>, \<^verbatim>\<open>chaos-rally.ts\<close>,
  \<^verbatim>\<open>physics-chaos-events.ts\<close>): the slots of the effects and the event physics, whose only error is the range
  error that cancels a match.  Chaos_Draw, Chaos_Pixels, Chaos_Codec, Drand_Beacon (\<^verbatim>\<open>chaos-draw.ts\<close>, \<^verbatim>\<open>chaos-pixels.ts\<close>,
  \<^verbatim>\<open>chaos-codec.ts\<close> with the packing of \<^verbatim>\<open>ChaosCodec.sol\<close>, \<^verbatim>\<open>drand-beacon.ts\<close>, \<^verbatim>\<open>chaos-beacon-pump.ts\<close>,
  \<^verbatim>\<open>chaos-publication.ts\<close>): draws are legal, the codec round-trips, a beacon is the one asked for.

  \<^bold>\<open>Execution of a match.\<close>  Authority_Recovery, Authority_Client, Authority_Source, Authority_Private
  (\<^verbatim>\<open>shared/authority-*.ts\<close>), Authority_Keeper and Recovery_Worker (\<^verbatim>\<open>relayer/src/authority-*.ts\<close>): what may be done about an
  execution given one observation, that the observation is of one canonical block, that workers act only on a decision that
  still holds, and the upload of backups under a Merkle root (locale \<^verbatim>\<open>merkle\<close>).  Compact_Sessions
  (\<^verbatim>\<open>compact-*-session.ts\<close>): nonces are never used twice.  Engine_Stream, Engine_Socket, Engine_Feed (\<^verbatim>\<open>engine-stream.ts\<close>,
  \<^verbatim>\<open>engine-feed.ts\<close>): frames are delivered in order and never roll a state back silently.  Service_Errors and Rooms_Status:
  the small decision functions of \<^verbatim>\<open>shared/\<close> on errors, availability and display.

  \<^bold>\<open>Rooms.\<close>  Rooms_Core (\<^verbatim>\<open>rooms.ts\<close>, \<^verbatim>\<open>rooms-acceptance.ts\<close>): rotation and offers.  Lobby, Lobby_Maintenance, Lobby_Store
  (\<^verbatim>\<open>relayer/src/interlude-rooms.ts\<close>, \<^verbatim>\<open>rooms-presence.ts\<close>): the lobby document with every request that changes it, its
  maintenance, and the transaction that stores it with the derived tables; in every run a player holds one seat, operations
  are idempotent and tickets guarded.  Rooms_Lifecycle, Engine_Journal, Hosted_Renewal (\<^verbatim>\<open>rooms-lifecycle.ts\<close>,
  \<^verbatim>\<open>rooms-engine-recovery.ts\<close>, \<^verbatim>\<open>rooms-finance-router.ts\<close>, \<^verbatim>\<open>rooms-hosted-renewal.ts\<close>): an engine is closed only drained, and the
  journal of the operator is settled before anything new is signed.  Operator_Queue and Arena_Engine
  (\<^verbatim>\<open>independent-writer.ts\<close>, \<^verbatim>\<open>independent-engine.ts\<close>): the same for the independent arenas.

  \<^bold>\<open>Transactions and money.\<close>  Relay_Journal and Relay_Budget (\<^verbatim>\<open>relayer/src/main.ts\<close>, table of \<^verbatim>\<open>store.ts\<close>): intake, dispatch,
  broadcast and receipts of sponsored calls; nonces are unique, signed bytes journaled, the daily budget is kept.
  Relay_Inputs (\<^verbatim>\<open>inputs.ts\<close>): the inputs of a lane keep their order.  Rpc_Gateway (\<^verbatim>\<open>rpc-*.ts\<close>, \<^verbatim>\<open>log-ranges.ts\<close>, \<^verbatim>\<open>traffic.ts\<close>,
  \<^verbatim>\<open>budget.ts\<close>, \<^verbatim>\<open>transition-gas.ts\<close>): spacing and fairness of the node.  Payouts (\<^verbatim>\<open>payouts.ts\<close>): a payment call is always justified by
  the contract.  Command_Journal (\<^verbatim>\<open>web/lib/rooms-command-journal.ts\<close>): no command of a player is signed while another is unknown.
  Rooms_Finance, Finance_Audit, Finance_Safety, Finance_Config (\<^verbatim>\<open>rooms-finance.ts\<close>, \<^verbatim>\<open>rooms-finance-receipts.ts\<close>,
  \<^verbatim>\<open>rooms-finance-config.ts\<close>): the finance worker of the rooms; a signed betting pressure never changes, no bet below the
  cursor is missed, and every call of an audit is justified by what the contracts said.
  Settlement_Audit (\<^verbatim>\<open>rooms-settlement-audit.ts\<close>): the durable record of the accepted results follows the chain through every
  reorganization.  Replay_History (\<^verbatim>\<open>rooms-events-history.ts\<close>): a pruned replay stays pruned.

  \<^bold>\<open>Bounds.\<close>  Machine integers are integers with the reductions of the source written out; bytes are 8-bit words.  The loops of the
  physics take the limit of the source (512 events) and report whether they got there; that it is enough is the property
  \<^verbatim>\<open>advance_completes\<close>.  The lines of the icons run with as much fuel as they have steps (\<^verbatim>\<open>line_points_enough\<close>).  All other
  recursions are structural or have a measure.

  \<^bold>\<open>Not modelled.\<close>  The contracts (Solidity, except the packing of the Chaos codec); React components, canvas, audio and wallet
  code of the browser, which render or forward to libraries; HTTP servers, start-up, profiles, contacts and the read-only routes
  of the relayer; the hosted indexer; scripts, tests and generated ABI tables.  Floating point computations of the paddle
  previews are left out.  Times of one operation are one reading of the clock.  A crash of the process is an event only where the
  program recovers from it (Operator_Queue, Rooms_Lifecycle, Relay_Journal, Finance_Audit, Settlement_Audit, Replay_History).
\<close>

end
